(* ===== verification/Viz_Prelude.thy ===== *)
theory Viz_Prelude
  imports Main "HOL-Library.Word" "HOL-Library.Signed_Division" "HOL-Library.List_Lexorder"
    "HOL-Library.Char_ord"
begin

text \<open>
  Shared vocabulary of the development: the error values that stand for the exceptions of the
  C++ code, the result type and the rewrite rules that take a successful run apart, the integer
  conversions the sources use, and tables of rows with a unique key (the multi-index containers
  of the chain state) with the interface locale the component theories interpret.
\<close>

section \<open>Errors and results\<close>

text \<open>
  Every \<open>FC_ASSERT\<close> and every exception that leaves a function is an \<open>Inl\<close> value.  The
  message is the one of the source; \<open>Unknown_key\<close> is the failure of a lookup that must
  succeed, \<open>Not_unique\<close> the refusal of a row whose key is already present, \<open>Null_dereference\<close>
  a use of a null pointer.  \<open>Not_modelled\<close> marks the operations on content, which the chain refuses
  since hardfork 4 and whose earlier behaviour is outside the model.
\<close>

datatype error =
    FC_Assert string
  | Unknown_key string
  | Not_unique string
  | Division_by_zero
  | Recursion_limit
  | Null_dereference
  | Tx_duplicate_sig
  | Tx_irrelevant_sig "string list"
  | Tx_irrelevant_approval "string list"
  | Tx_missing_regular_auth "string list" "string list"
  | Tx_missing_active_auth "string list" "string list"
  | Tx_missing_master_auth "string list" "string list"
  | Tx_missing_other_auth
  | Unlinkable_block
  | Undo_database
  | Unknown_hardfork
  | Pop_empty_chain
  | Not_modelled string

type_synonym 'a result = "error + 'a"

named_theorems run_simps \<open>rules that take a successful run apart\<close>
named_theorems wf_intros \<open>well-formedness of states after an operation\<close>

lemma case_sum_Inr [run_simps]:
  "(case m of Inl e \<Rightarrow> Inl e | Inr x \<Rightarrow> f x) = Inr y \<longleftrightarrow> (\<exists>x. m = Inr x \<and> f x = Inr y)"
  by (cases m) auto

lemma if_Inl_Inr [run_simps]:
  "(if c then Inl e else m) = Inr y \<longleftrightarrow> \<not> c \<and> m = Inr y"
  "(if c then m else Inl e) = Inr y \<longleftrightarrow> c \<and> m = Inr y"
  by auto

lemma case_option_Inr [run_simps]:
  "(case v of None \<Rightarrow> Inl e | Some x \<Rightarrow> f x) = Inr y \<longleftrightarrow> (\<exists>x. v = Some x \<and> f x = Inr y)"
  by (cases v) auto

definition is_ok :: "'a result \<Rightarrow> bool" where
  "is_ok m = (case m of Inl _ \<Rightarrow> False | Inr _ \<Rightarrow> True)"

lemma is_ok_simps [simp]: "is_ok (Inr x)" "\<not> is_ok (Inl e)"
  by (simp_all add: is_ok_def)

lemma is_ok_iff: "is_ok m \<longleftrightarrow> (\<exists>x. m = Inr x)"
  by (cases m) auto

text \<open>A loop whose body may throw: the first error ends it.\<close>

fun fold_result :: "('b \<Rightarrow> 'a \<Rightarrow> 'a result) \<Rightarrow> 'b list \<Rightarrow> 'a \<Rightarrow> 'a result" where
  "fold_result f [] s = Inr s"
| "fold_result f (x # xs) s = (case f x s of Inl e \<Rightarrow> Inl e | Inr s' \<Rightarrow> fold_result f xs s')"

lemma fold_result_invariant:
  assumes "fold_result f xs s = Inr s'" and "P s"
    and "\<And>x s s'. x \<in> set xs \<Longrightarrow> f x s = Inr s' \<Longrightarrow> P s \<Longrightarrow> P s'"
  shows "P s'"
  using assms
proof (induction xs arbitrary: s)
  case Nil
  then show ?case by simp
next
  case (Cons x xs)
  from Cons.prems(1) obtain t where t: "f x s = Inr t" "fold_result f xs t = Inr s'"
    by (auto simp: run_simps)
  have "P t" using Cons.prems(2,3) t(1) by auto
  with t(2) show ?case using Cons.prems(3) by (intro Cons.IH [of t]) auto
qed

lemma fold_result_append:
  "fold_result f (xs @ ys) s =
     (case fold_result f xs s of Inl e \<Rightarrow> Inl e | Inr s' \<Rightarrow> fold_result f ys s')"
  by (induction xs arbitrary: s) (auto split: sum.splits)

text \<open>A loop that only checks.\<close>

fun check_all :: "('b \<Rightarrow> unit result) \<Rightarrow> 'b list \<Rightarrow> unit result" where
  "check_all f [] = Inr ()"
| "check_all f (x # xs) = (case f x of Inl e \<Rightarrow> Inl e | Inr _ \<Rightarrow> check_all f xs)"

lemma check_all_Inr: "check_all f xs = Inr u \<longleftrightarrow> (\<forall>x \<in> set xs. f x = Inr ())"
  by (induction xs) (auto split: sum.splits)

text \<open>One \<open>FC_ASSERT\<close>, and a sequence of checks of which the first failure is the result.\<close>

definition fc_assert :: "bool \<Rightarrow> string \<Rightarrow> unit result" where
  "fc_assert c msg = (if c then Inr () else Inl (FC_Assert msg))"

lemma fc_assert_Inr [run_simps, simp]: "fc_assert c msg = Inr u \<longleftrightarrow> c"
  by (simp add: fc_assert_def)

fun all_ok :: "unit result list \<Rightarrow> unit result" where
  "all_ok [] = Inr ()"
| "all_ok (m # ms) = (case m of Inl e \<Rightarrow> Inl e | Inr _ \<Rightarrow> all_ok ms)"

lemma all_ok_Nil_Inr [run_simps]: "all_ok [] = Inr u"
  by simp

lemma all_ok_Cons_Inr [run_simps]: "all_ok (m # ms) = Inr u \<longleftrightarrow> m = Inr () \<and> all_ok ms = Inr ()"
  by (cases m) auto

lemma all_ok_Inr: "all_ok ms = Inr u \<longleftrightarrow> (\<forall>m \<in> set ms. m = Inr ())"
  by (induction ms) (auto simp: run_simps)

section \<open>Machine integers\<close>

text \<open>
  Amounts are integers.  The conversions below are the ones the sources write: a value put into
  an unsigned 128-bit integer, an unsigned 64-bit integer, or stored as a signed integer of a
  given width.  C++ division truncates towards zero (\<open>sdiv\<close>).
\<close>

definition u128 :: "int \<Rightarrow> int" where
  "u128 x = x mod 2 ^ 128"

definition u64 :: "int \<Rightarrow> int" where
  "u64 x = x mod 2 ^ 64"

definition u32 :: "int \<Rightarrow> int" where
  "u32 x = x mod 2 ^ 32"

definition u16 :: "int \<Rightarrow> int" where
  "u16 x = x mod 2 ^ 16"

definition i64 :: "int \<Rightarrow> int" where
  "i64 x = (x + 2 ^ 63) mod 2 ^ 64 - 2 ^ 63"

definition i32 :: "int \<Rightarrow> int" where
  "i32 x = (x + 2 ^ 31) mod 2 ^ 32 - 2 ^ 31"

definition i16 :: "int \<Rightarrow> int" where
  "i16 x = (x + 2 ^ 15) mod 2 ^ 16 - 2 ^ 15"

definition u256 :: "int \<Rightarrow> int" where
  "u256 x = x mod 2 ^ 256"

abbreviation INT64_MAX :: int where
  "INT64_MAX \<equiv> 2 ^ 63 - 1"

lemma u128_id [simp]: "0 \<le> x \<Longrightarrow> x < 2 ^ 128 \<Longrightarrow> u128 x = x"
  by (simp add: u128_def)

lemma u64_id [simp]: "0 \<le> x \<Longrightarrow> x < 2 ^ 64 \<Longrightarrow> u64 x = x"
  by (simp add: u64_def)

lemma u32_id [simp]: "0 \<le> x \<Longrightarrow> x < 2 ^ 32 \<Longrightarrow> u32 x = x"
  by (simp add: u32_def)

lemma u256_id [simp]: "0 \<le> x \<Longrightarrow> x < 2 ^ 256 \<Longrightarrow> u256 x = x"
  by (simp add: u256_def)

lemma i64_id [simp]: "- (2 ^ 63) \<le> x \<Longrightarrow> x < 2 ^ 63 \<Longrightarrow> i64 x = x"
  by (simp add: i64_def)

lemma i32_id [simp]: "- (2 ^ 31) \<le> x \<Longrightarrow> x < 2 ^ 31 \<Longrightarrow> i32 x = x"
  by (simp add: i32_def)

lemma i16_id [simp]: "- (2 ^ 15) \<le> x \<Longrightarrow> x < 2 ^ 15 \<Longrightarrow> i16 x = x"
  by (simp add: i16_def)

lemma u128_nonneg [simp]: "0 \<le> u128 x"
  by (simp add: u128_def)

lemma u64_nonneg [simp]: "0 \<le> u64 x"
  by (simp add: u64_def)

lemma u256_nonneg [simp]: "0 \<le> u256 x"
  by (simp add: u256_def)

lemma i64_bounds: "- (2 ^ 63) \<le> i64 x" "i64 x < 2 ^ 63"
  by (simp_all add: i64_def)

lemma sdiv_nonneg: "0 \<le> a \<Longrightarrow> 0 < b \<Longrightarrow> a sdiv b = a div (b::int)"
  by (simp add: signed_divide_int_def sgn_if)


lemma smod_nonneg: "0 \<le> a \<Longrightarrow> 0 < b \<Longrightarrow> a smod b = a mod (b::int)"
  by (cases "a = 0") (simp_all add: signed_modulo_int_def sdiv_nonneg minus_div_mult_eq_mod)

lemma i64_i64 [simp]: "i64 (i64 x + y) = i64 (x + y)" "i64 (i64 x - y) = i64 (x - y)"
  by (simp_all add: i64_def algebra_simps mod_simps)

section \<open>Searching a string\<close>

text \<open>\<open>index_of c s\<close> is \<open>std::string::find\<close> of one character, \<open>None\<close> for \<open>npos\<close>.\<close>

fun index_of :: "char \<Rightarrow> string \<Rightarrow> nat option" where
  "index_of c [] = None"
| "index_of c (x # xs) = (if x = c then Some 0 else map_option Suc (index_of c xs))"

lemma index_of_append:
  "c \<notin> set xs \<Longrightarrow> index_of c (xs @ ys) = map_option (\<lambda>n. n + length xs) (index_of c ys)"
  by (induction xs) (auto simp: option.map_comp o_def option.map_ident)

lemma index_of_None: "index_of c xs = None \<longleftrightarrow> c \<notin> set xs"
  by (induction xs) auto

section \<open>Decimal notation\<close>

text \<open>How the standard streams print and read an unsigned integer.\<close>

definition digit :: "nat \<Rightarrow> char" where
  "digit n = ''0123456789'' ! n"

definition is_digit :: "char \<Rightarrow> bool" where
  "is_digit c = (c \<in> set ''0123456789'')"

definition digit_value :: "char \<Rightarrow> nat" where
  "digit_value c = of_char c - 48"

fun nat_digits :: "nat \<Rightarrow> string" where
  "nat_digits n = (if n < 10 then [digit n] else nat_digits (n div 10) @ [digit (n mod 10)])"

declare nat_digits.simps [simp del]

definition digits_value :: "string \<Rightarrow> nat" where
  "digits_value s = foldl (\<lambda>v c. 10 * v + digit_value c) 0 s"

lemma digit_facts: "n < 10 \<Longrightarrow> is_digit (digit n) \<and> digit_value (digit n) = n"
proof -
  have "\<forall>n \<in> set [0..<10]. is_digit (digit n) \<and> digit_value (digit n) = n" by code_simp
  then show "n < 10 \<Longrightarrow> ?thesis" by simp
qed

lemma nat_digits_all: "c \<in> set (nat_digits n) \<Longrightarrow> is_digit c"
proof (induction n rule: nat_digits.induct)
  case (1 n)
  then show ?case
    by (auto simp: nat_digits.simps [of n] digit_facts split: if_splits)
qed

lemma nat_digits_nonempty [simp]: "nat_digits n \<noteq> []"
  by (subst nat_digits.simps) simp

lemma digits_value_nat_digits [simp]: "digits_value (nat_digits n) = n"
proof (induction n rule: nat_digits.induct)
  case (1 n)
  then show ?case
    by (auto simp: nat_digits.simps [of n] digit_facts digits_value_def)
qed

lemma nat_digits_leading_one:
  "10 ^ d \<le> n \<Longrightarrow> n < 2 * 10 ^ d \<Longrightarrow> \<exists>ds. nat_digits n = CHR ''1'' # ds \<and> length ds = d"
proof (induction d arbitrary: n)
  case 0
  then have "n = Suc 0" by simp
  then show ?case by (simp add: nat_digits.simps [of "Suc 0"] digit_def)
next
  case (Suc d)
  have "10 \<le> n" using Suc.prems(1) by (metis le_trans mult_le_mono2 nat_mult_1_right one_le_numeral one_le_power power_Suc)
  moreover have "10 ^ d \<le> n div 10" "n div 10 < 2 * 10 ^ d" using Suc.prems by auto
  then obtain ds where "nat_digits (n div 10) = CHR ''1'' # ds" "length ds = d"
    using Suc.IH by blast
  ultimately show ?case by (simp add: nat_digits.simps [of n])
qed

section \<open>Flat maps\<close>

text \<open>
  A flat map is the list of its entries in the order of the keys; strings are ordered
  lexicographically by character code.  \<open>flat_put\<close> is \<open>m[k] = v\<close>.
\<close>

fun flat_put :: "'k::linorder \<Rightarrow> 'v \<Rightarrow> ('k \<times> 'v) list \<Rightarrow> ('k \<times> 'v) list" where
  "flat_put k v [] = [(k, v)]"
| "flat_put k v ((k', v') # m) =
     (if k < k' then (k, v) # (k', v') # m
      else if k = k' then (k, v) # m
      else (k', v') # flat_put k v m)"

lemma map_of_flat_put [simp]: "map_of (flat_put k v m) = (map_of m)(k \<mapsto> v)"
  by (induction m rule: flat_put.induct) (auto simp: fun_eq_iff)

lemma keys_flat_put: "fst ` set (flat_put k v m) = insert k (fst ` set m)"
  by (induction k v m rule: flat_put.induct) auto

lemma sorted_flat_put:
  "sorted_wrt (<) (map fst m) \<Longrightarrow> sorted_wrt (<) (map fst (flat_put k v m))"
proof (induction k v m rule: flat_put.induct)
  case (2 k v k' v' m)
  have "\<forall>x \<in> fst ` set (flat_put k v m). x = k \<or> x \<in> fst ` set m" by (simp add: keys_flat_put)
  with 2 show ?case by (force simp: less_trans)
qed simp

text \<open>\<open>flat_set\<close>: a sorted vector without repetitions.\<close>

fun flat_insert :: "'k::linorder \<Rightarrow> 'k list \<Rightarrow> 'k list" where
  "flat_insert k [] = [k]"
| "flat_insert k (x # xs) =
     (if k < x then k # x # xs else if k = x then x # xs else x # flat_insert k xs)"

lemma set_flat_insert [simp]: "set (flat_insert k xs) = insert k (set xs)"
  by (induction k xs rule: flat_insert.induct) auto

lemma sorted_flat_insert: "sorted_wrt (<) xs \<Longrightarrow> sorted_wrt (<) (flat_insert k xs)"
  by (induction k xs rule: flat_insert.induct) (auto simp: less_trans)

lemma flat_insert_not_Nil [simp]: "flat_insert k xs \<noteq> []"
  by (cases xs) auto

definition flat_insert_all :: "'k::linorder list \<Rightarrow> 'k list \<Rightarrow> 'k list" where
  "flat_insert_all ks xs = fold flat_insert ks xs"

lemma set_flat_insert_all [simp]: "set (flat_insert_all ks xs) = set ks \<union> set xs"
  by (induction ks arbitrary: xs) (auto simp: flat_insert_all_def)

section \<open>Tables of rows with a unique key\<close>

text \<open>
  The chain state keeps each kind of object in a container with a unique index.  A table is the
  list of its rows in the order of creation (the order of the object ids); \<open>key\<close> is the
  unique index the code looks rows up by.
\<close>

definition find_row :: "('r \<Rightarrow> 'k) \<Rightarrow> 'k \<Rightarrow> 'r list \<Rightarrow> 'r option" where
  "find_row key k rows = find (\<lambda>r. key r = k) rows"

definition modify_row :: "('r \<Rightarrow> 'k) \<Rightarrow> 'k \<Rightarrow> ('r \<Rightarrow> 'r) \<Rightarrow> 'r list \<Rightarrow> 'r list" where
  "modify_row key k f rows = map (\<lambda>r. if key r = k then f r else r) rows"

definition remove_row :: "('r \<Rightarrow> 'k) \<Rightarrow> 'k \<Rightarrow> 'r list \<Rightarrow> 'r list" where
  "remove_row key k rows = filter (\<lambda>r. key r \<noteq> k) rows"

definition create_row :: "('r \<Rightarrow> 'k) \<Rightarrow> 'r \<Rightarrow> 'r list \<Rightarrow> 'r list result" where
  "create_row key r rows =
     (if key r \<in> set (map key rows) then Inl (Not_unique ''could not insert object'')
      else Inr (rows @ [r]))"

text \<open>\<open>modify\<close> with a lambda that may throw, on a row that must exist.\<close>

definition update_row :: "('r \<Rightarrow> 'k) \<Rightarrow> 'k \<Rightarrow> ('r \<Rightarrow> 'r result) \<Rightarrow> 'r list \<Rightarrow> 'r list result" where
  "update_row key k f rows =
     (case find_row key k rows of None \<Rightarrow> Inl (Unknown_key ''unknown key'')
      | Some r \<Rightarrow> (case f r of Inl e \<Rightarrow> Inl e | Inr r' \<Rightarrow> Inr (modify_row key k (\<lambda>_. r') rows)))"

lemma update_row_Inr:
  "update_row key k f rows = Inr rows' \<longleftrightarrow>
     (\<exists>r r'. find_row key k rows = Some r \<and> f r = Inr r' \<and> rows' = modify_row key k (\<lambda>_. r') rows)"
  by (auto simp: update_row_def run_simps)

definition total :: "('r \<Rightarrow> int) \<Rightarrow> 'r list \<Rightarrow> int" where
  "total g rows = sum_list (map g rows)"

definition unique_keys :: "('r \<Rightarrow> 'k) \<Rightarrow> 'r list \<Rightarrow> bool" where
  "unique_keys key rows = distinct (map key rows)"

text \<open>
  What a client relies on: lookups see the last modification of a row, and a total over all rows
  moves by exactly the change of the row that was modified, created or removed.
\<close>

locale unique_index =
  fixes key :: "'r \<Rightarrow> 'k"
    and find :: "'k \<Rightarrow> 't \<Rightarrow> 'r option"
    and modify :: "'k \<Rightarrow> ('r \<Rightarrow> 'r) \<Rightarrow> 't \<Rightarrow> 't"
    and remove :: "'k \<Rightarrow> 't \<Rightarrow> 't"
    and create :: "'r \<Rightarrow> 't \<Rightarrow> 't result"
    and sum :: "('r \<Rightarrow> int) \<Rightarrow> 't \<Rightarrow> int"
    and invar :: "'t \<Rightarrow> bool"
  assumes find_key: "find k t = Some r \<Longrightarrow> key r = k"
    and find_modify: "(\<And>r. key r = k \<Longrightarrow> key (f r) = k) \<Longrightarrow>
          find k' (modify k f t) = (if k' = k then map_option f (find k t) else find k' t)"
    and find_remove: "find k' (remove k t) = (if k' = k then None else find k' t)"
    and create_fresh: "create r t = Inr t' \<Longrightarrow> find (key r) t = None"
    and create_find: "create r t = Inr t' \<Longrightarrow>
          find k t' = (if k = key r then Some r else find k t)"
    and create_exists: "find (key r) t = None \<Longrightarrow> \<exists>t'. create r t = Inr t'"
    and sum_modify: "invar t \<Longrightarrow> find k t = Some r \<Longrightarrow>
          sum g (modify k f t) = sum g t - g r + g (f r)"
    and sum_modify_none: "find k t = None \<Longrightarrow> modify k f t = t"
    and sum_remove: "invar t \<Longrightarrow> find k t = Some r \<Longrightarrow> sum g (remove k t) = sum g t - g r"
    and sum_create: "create r t = Inr t' \<Longrightarrow> sum g t' = sum g t + g r"
    and invar_modify: "invar t \<Longrightarrow> (\<And>r. key r = k \<Longrightarrow> key (f r) = k) \<Longrightarrow> invar (modify k f t)"
    and invar_remove: "invar t \<Longrightarrow> invar (remove k t)"
    and invar_create: "invar t \<Longrightarrow> create r t = Inr t' \<Longrightarrow> invar t'"
begin

lemma sum_modify_const:
  assumes "invar t" and "\<And>r. find k t = Some r \<Longrightarrow> g (f r) = g r"
  shows "sum g (modify k f t) = sum g t"
proof (cases "find k t")
  case None
  then show ?thesis by (simp add: sum_modify_none)
next
  case (Some r)
  with assms show ?thesis by (simp add: sum_modify)
qed

lemma modify_present:
  assumes "find k t = Some r" and "\<And>r. key r = k \<Longrightarrow> key (f r) = k"
  shows "find k (modify k f t) = Some (f r)"
  using assms by (simp add: find_modify)

lemma sum_move:
  assumes "invar t" and "find k t = Some a" and "find k' t = Some b" and "k \<noteq> k'"
    and "\<And>r. key r = k \<Longrightarrow> key (f r) = k"
  shows "sum g (modify k' f' (modify k f t)) = sum g t + (g (f a) - g a) + (g (f' b) - g b)"
proof -
  have "find k' (modify k f t) = Some b"
    using assms by (simp add: find_modify)
  moreover have "invar (modify k f t)" using assms by (intro invar_modify) auto
  ultimately show ?thesis
    using assms by (simp add: sum_modify)
qed

end

lemma find_row_key: "find_row key k rows = Some r \<Longrightarrow> key r = k"
  by (auto simp: find_row_def find_Some_iff)

lemma find_row_set: "find_row key k rows = Some r \<Longrightarrow> r \<in> set rows"
  by (auto simp: find_row_def find_Some_iff)

lemma find_row_None: "find_row key k rows = None \<longleftrightarrow> k \<notin> key ` set rows"
  by (auto simp: find_row_def find_None_iff)

lemma find_row_simps [simp]:
  "find_row key k [] = None"
  "find_row key k (r # rows) = (if key r = k then Some r else find_row key k rows)"
  by (simp_all add: find_row_def)

lemma find_row_append:
  "find_row key k (xs @ ys) =
     (case find_row key k xs of None \<Rightarrow> find_row key k ys | Some r \<Rightarrow> Some r)"
  by (induction xs) auto

lemma modify_row_simps [simp]:
  "modify_row key k f [] = []"
  "modify_row key k f (r # rows) = (if key r = k then f r else r) # modify_row key k f rows"
  by (simp_all add: modify_row_def)

lemma remove_row_simps [simp]:
  "remove_row key k [] = []"
  "remove_row key k (r # rows) =
     (if key r = k then remove_row key k rows else r # remove_row key k rows)"
  by (simp_all add: remove_row_def)

lemma total_simps [simp]:
  "total g [] = 0" "total g (r # rows) = g r + total g rows"
  by (simp_all add: total_def)

lemma total_append [simp]: "total g (xs @ ys) = total g xs + total g ys"
  by (simp add: total_def)

lemma unique_keys_simps [simp]:
  "unique_keys key []"
  "unique_keys key (r # rows) \<longleftrightarrow> key r \<notin> key ` set rows \<and> unique_keys key rows"
  by (simp_all add: unique_keys_def)

lemma modify_row_absent: "find_row key k rows = None \<Longrightarrow> modify_row key k f rows = rows"
  by (induction rows) (auto split: if_splits)

lemma remove_row_absent: "find_row key k rows = None \<Longrightarrow> remove_row key k rows = rows"
  by (induction rows) (auto split: if_splits)

lemma keys_modify_row:
  "(\<And>r. key r = k \<Longrightarrow> key (f r) = k) \<Longrightarrow> map key (modify_row key k f rows) = map key rows"
  by (induction rows) auto

lemma total_modify_row:
  "unique_keys key rows \<Longrightarrow> find_row key k rows = Some r \<Longrightarrow>
     total g (modify_row key k f rows) = total g rows - g r + g (f r)"
proof (induction rows)
  case Nil
  then show ?case by simp
next
  case (Cons a rows)
  then show ?case
    by (cases "key a = k") (auto simp: modify_row_absent find_row_None)
qed

lemma total_remove_row:
  "unique_keys key rows \<Longrightarrow> find_row key k rows = Some r \<Longrightarrow>
     total g (remove_row key k rows) = total g rows - g r"
proof (induction rows)
  case Nil
  then show ?case by simp
next
  case (Cons a rows)
  then show ?case
    by (cases "key a = k") (auto simp: remove_row_absent find_row_None)
qed

lemma find_modify_row:
  "(\<And>r. key r = k \<Longrightarrow> key (f r) = k) \<Longrightarrow>
     find_row key k' (modify_row key k f rows) =
       (if k' = k then map_option f (find_row key k rows) else find_row key k' rows)"
  by (induction rows) auto

lemma find_remove_row:
  "find_row key k' (remove_row key k rows) = (if k' = k then None else find_row key k' rows)"
  by (induction rows) auto

lemma unique_keys_remove_row: "unique_keys key rows \<Longrightarrow> unique_keys key (remove_row key k rows)"
  by (simp add: unique_keys_def remove_row_def distinct_map_filter)

lemma find_row_unique:
  "unique_keys key rows \<Longrightarrow> r \<in> set rows \<Longrightarrow> find_row key (key r) rows = Some r"
  by (induction rows) auto

lemma remove_modify_row:
  "key r' = k \<Longrightarrow> remove_row key k (modify_row key k (\<lambda>_. r') rows) = remove_row key k rows"
  by (induction rows) auto

lemma unique_keys_modify_row:
  "unique_keys key rows \<Longrightarrow> key r' = k \<Longrightarrow> unique_keys key (modify_row key k (\<lambda>_. r') rows)"
  by (simp add: unique_keys_def keys_modify_row)

lemma modify_row_twice:
  "key r' = k \<Longrightarrow> modify_row key k (\<lambda>_. r'') (modify_row key k (\<lambda>_. r') rows) = modify_row key k (\<lambda>_. r'') rows"
  by (induction rows) auto

lemma modify_row_same: "unique_keys key rows \<Longrightarrow> find_row key k rows = Some r \<Longrightarrow> modify_row key k (\<lambda>_. r) rows = rows"
proof (induction rows)
  case (Cons a rows)
  then show ?case by (cases "key a = k") (auto simp: modify_row_absent find_row_None)
qed simp

text \<open>The list representation provides the interface, for every key.\<close>

interpretation rows: unique_index key "find_row key" "modify_row key" "remove_row key"
  "create_row key" total "unique_keys key"
  for key :: "'r \<Rightarrow> 'k"
proof (unfold_locales, goal_cases)
  case 1 then show ?case by (rule find_row_key)
next
  case 2 then show ?case by (rule find_modify_row)
next
  case 3 show ?case by (rule find_remove_row)
next
  case 4 then show ?case by (auto simp: create_row_def find_row_None split: if_splits)
next
  case (5 r t t' k)
  then have "t' = t @ [r]" and "find_row key (key r) t = None"
    by (auto simp: create_row_def find_row_None split: if_splits)
  then show ?case by (auto simp: find_row_append split: option.splits)
next
  case 6 then show ?case by (auto simp: create_row_def find_row_None)
next
  case 7 then show ?case by (rule total_modify_row)
next
  case 8 then show ?case by (rule modify_row_absent)
next
  case 9 then show ?case by (rule total_remove_row)
next
  case 10 then show ?case by (auto simp: create_row_def split: if_splits)
next
  case 11 then show ?case by (simp add: unique_keys_def keys_modify_row)
next
  case 12 then show ?case by (rule unique_keys_remove_row)
next
  case 13 then show ?case by (auto simp: create_row_def unique_keys_def split: if_splits)
qed

end
