(* ===== verification/Chain_Config.thy ===== *)
theory Chain_Config
  imports Viz_Prelude
begin

unbundle bit_operations_syntax

text \<open>
  The consensus constants of \<open>protocol/config.hpp\<close> that the modelled code reads.  They unfold
  by simplification.  Durations are in seconds.
\<close>

definition SHARES_SYMBOL :: "64 word" where
  "SHARES_SYMBOL = 6 OR push_bit 8 83 OR push_bit 16 72 OR push_bit 24 65 OR push_bit 32 82
     OR push_bit 40 69 OR push_bit 48 83"

definition TOKEN_SYMBOL :: "64 word" where
  "TOKEN_SYMBOL = 3 OR push_bit 8 86 OR push_bit 16 73 OR push_bit 24 90"

definition CHAIN_BLOCK_INTERVAL :: int where
  [simp]: "CHAIN_BLOCK_INTERVAL = 3"

definition CHAIN_BLOCKS_PER_DAY :: int where
  [simp]: "CHAIN_BLOCKS_PER_DAY = 24 * 60 * 60 div 3"

definition CHAIN_100_PERCENT :: int where
  [simp]: "CHAIN_100_PERCENT = 10000"

definition CHAIN_1_PERCENT :: int where
  [simp]: "CHAIN_1_PERCENT = 100"

definition CHAIN_ENERGY_REGENERATION_SECONDS :: int where
  [simp]: "CHAIN_ENERGY_REGENERATION_SECONDS = 5 * 60 * 60 * 24"

definition CHAIN_MAX_SHARE_SUPPLY :: int where
  [simp]: "CHAIN_MAX_SHARE_SUPPLY = 1000000000000000"

definition CHAIN_MAX_SIG_CHECK_DEPTH :: nat where
  [simp]: "CHAIN_MAX_SIG_CHECK_DEPTH = 2"

definition CHAIN_MAX_PROXY_RECURSION_DEPTH :: nat where
  [simp]: "CHAIN_MAX_PROXY_RECURSION_DEPTH = 4"

definition CHAIN_VESTING_WITHDRAW_INTERVALS :: int where
  [simp]: "CHAIN_VESTING_WITHDRAW_INTERVALS = 28"

definition CHAIN_VESTING_WITHDRAW_INTERVAL_SECONDS :: int where
  [simp]: "CHAIN_VESTING_WITHDRAW_INTERVAL_SECONDS = 60 * 60 * 24"

definition CHAIN_MAX_WITHDRAW_ROUTES :: int where
  [simp]: "CHAIN_MAX_WITHDRAW_ROUTES = 10"

definition CHAIN_MAX_COMMENT_BENEFICIARIES :: nat where
  [simp]: "CHAIN_MAX_COMMENT_BENEFICIARIES = 64"

definition CHAIN_MAX_ACCOUNT_WITNESS_VOTES_PRE_HF4 :: int where
  [simp]: "CHAIN_MAX_ACCOUNT_WITNESS_VOTES_PRE_HF4 = 2"

definition CHAIN_MAX_ACCOUNT_WITNESS_VOTES :: int where
  [simp]: "CHAIN_MAX_ACCOUNT_WITNESS_VOTES = 100"

definition CHAIN_CASHOUT_WINDOW_SECONDS :: int where
  [simp]: "CHAIN_CASHOUT_WINDOW_SECONDS = 60 * 60 * 24"

definition CHAIN_MASTER_AUTH_RECOVERY_PERIOD :: int where
  [simp]: "CHAIN_MASTER_AUTH_RECOVERY_PERIOD = 30 * 24 * 60 * 60"

definition CHAIN_ACCOUNT_RECOVERY_REQUEST_EXPIRATION_PERIOD :: int where
  [simp]: "CHAIN_ACCOUNT_RECOVERY_REQUEST_EXPIRATION_PERIOD = 24 * 60 * 60"

definition CHAIN_MASTER_UPDATE_LIMIT :: int where
  [simp]: "CHAIN_MASTER_UPDATE_LIMIT = 60 * 60"

definition CHAIN_ACCOUNT_ON_SALE_DELAY :: int where
  [simp]: "CHAIN_ACCOUNT_ON_SALE_DELAY = 7 * 24 * 60 * 60"

definition CHAIN_ACCOUNT_AUCTION_MIN_STEP :: int where
  [simp]: "CHAIN_ACCOUNT_AUCTION_MIN_STEP = CHAIN_100_PERCENT div 10"

definition CHAIN_ACCOUNT_AUCTION_EXTENSION_TIME :: int where
  [simp]: "CHAIN_ACCOUNT_AUCTION_EXTENSION_TIME = 5 * 60"

definition CHAIN_MIN_ACCOUNT_NAME_LENGTH :: nat where
  [simp]: "CHAIN_MIN_ACCOUNT_NAME_LENGTH = 2"

definition CHAIN_CREATE_MIN_ACCOUNT_NAME_LENGTH :: nat where
  [simp]: "CHAIN_CREATE_MIN_ACCOUNT_NAME_LENGTH = 3"

definition CHAIN_MAX_ACCOUNT_NAME_LENGTH :: nat where
  [simp]: "CHAIN_MAX_ACCOUNT_NAME_LENGTH = 32"

definition CHAIN_MAX_URL_LENGTH :: nat where
  [simp]: "CHAIN_MAX_URL_LENGTH = 256"

definition CHAIN_MAX_MEMO_LENGTH :: nat where
  [simp]: "CHAIN_MAX_MEMO_LENGTH = 2048"

definition CHAIN_MAX_WITNESS_URL_LENGTH :: nat where
  [simp]: "CHAIN_MAX_WITNESS_URL_LENGTH = 2048"

definition PAID_SUBSCRIPTION_MAX_LEVEL :: int where
  [simp]: "PAID_SUBSCRIPTION_MAX_LEVEL = 1000"

definition PAID_SUBSCRIPTION_MAX_PERIOD :: int where
  [simp]: "PAID_SUBSCRIPTION_MAX_PERIOD = 1000"

definition CHAIN_BLOCKS_PER_YEAR :: int where
  [simp]: "CHAIN_BLOCKS_PER_YEAR = 365 * 24 * 60 * 60 div 3"

definition CHAIN_BLOCKS_PER_HOUR :: int where
  [simp]: "CHAIN_BLOCKS_PER_HOUR = 60 * 60 div 3"

definition CHAIN_MIN_ACCOUNT_CREATION_FEE :: int where
  [simp]: "CHAIN_MIN_ACCOUNT_CREATION_FEE = 1000"

definition CHAIN_MIN_BLOCK_SIZE_LIMIT :: int where
  [simp]: "CHAIN_MIN_BLOCK_SIZE_LIMIT = 1024 * 64"

definition CHAIN_MAX_BLOCK_SIZE_LIMIT :: int where
  [simp]: "CHAIN_MAX_BLOCK_SIZE_LIMIT = 2 * 1024 * 1024"

definition CHAIN_BLOCK_SIZE :: int where
  [simp]: "CHAIN_BLOCK_SIZE = CHAIN_MAX_BLOCK_SIZE_LIMIT * CHAIN_BLOCK_INTERVAL"

definition CHAIN_CREATE_ACCOUNT_DELEGATION_RATIO :: int where
  [simp]: "CHAIN_CREATE_ACCOUNT_DELEGATION_RATIO = 10"

definition CHAIN_CREATE_ACCOUNT_DELEGATION_TIME :: int where
  [simp]: "CHAIN_CREATE_ACCOUNT_DELEGATION_TIME = 30 * 24 * 60 * 60"

definition CHAIN_MIN_DELEGATION :: int where
  [simp]: "CHAIN_MIN_DELEGATION = 1"

definition COMMITTEE_MIN_DURATION :: int where
  [simp]: "COMMITTEE_MIN_DURATION = 60 * 60 * 24 * 5"

definition COMMITTEE_MAX_DURATION :: int where
  [simp]: "COMMITTEE_MAX_DURATION = 60 * 60 * 24 * 30"

definition CHAIN_INIT_SUPPLY :: int where
  [simp]: "CHAIN_INIT_SUPPLY = 50000000000"

definition COMMITTEE_MAX_REQUIRED_AMOUNT :: int where
  [simp]: "COMMITTEE_MAX_REQUIRED_AMOUNT = CHAIN_INIT_SUPPLY div 100"

definition COMMITTEE_REQUEST_PER_TIME :: int where
  [simp]: "COMMITTEE_REQUEST_PER_TIME = 60 * 60 * 24"

definition COMMITTEE_REQUEST_PROCESSING :: int where
  [simp]: "COMMITTEE_REQUEST_PROCESSING = CHAIN_BLOCKS_PER_HOUR div 6"

definition CHAIN_MAX_PROPOSAL_LIFETIME_SEC :: int where
  [simp]: "CHAIN_MAX_PROPOSAL_LIFETIME_SEC = 60 * 60 * 24 * 7 * 4"

definition CHAIN_CLEAR_USED_INVITE_DELAY :: int where
  [simp]: "CHAIN_CLEAR_USED_INVITE_DELAY = 24 * 60 * 60"

definition CHAIN_CLEAR_CLOSED_COMMITTEE_REQUEST_DELAY :: int where
  [simp]: "CHAIN_CLEAR_CLOSED_COMMITTEE_REQUEST_DELAY = 7 * 24 * 60 * 60"

definition CHAIN_IRREVERSIBLE_THRESHOLD :: int where
  [simp]: "CHAIN_IRREVERSIBLE_THRESHOLD = 75 * CHAIN_1_PERCENT"

definition CHAIN_MAX_WITNESSES :: int where
  [simp]: "CHAIN_MAX_WITNESSES = 21"

definition CHAIN_FIXED_INFLATION :: int where
  [simp]: "CHAIN_FIXED_INFLATION = 1000"

definition CHAIN_VESTING_FUND_PERCENT :: int where
  [simp]: "CHAIN_VESTING_FUND_PERCENT = 10 * CHAIN_1_PERCENT"

definition CHAIN_REWARD_FUND_PERCENT :: int where
  [simp]: "CHAIN_REWARD_FUND_PERCENT = 35 * CHAIN_1_PERCENT"

definition CHAIN_COMMITTEE_FUND_PERCENT :: int where
  [simp]: "CHAIN_COMMITTEE_FUND_PERCENT = 35 * CHAIN_1_PERCENT"

definition CHAIN_BLOCK_WITNESS_REPEAT :: nat where
  [simp]: "CHAIN_BLOCK_WITNESS_REPEAT = 1"

definition CHAIN_MAX_TOP_WITNESSES :: nat where
  [simp]: "CHAIN_MAX_TOP_WITNESSES = 11"

definition CHAIN_MAX_WITNESS_MISSED_BLOCKS :: int where
  [simp]: "CHAIN_MAX_WITNESS_MISSED_BLOCKS = 200"

definition CHAIN_HARDFORK_REQUIRED_WITNESSES :: int where
  [simp]: "CHAIN_HARDFORK_REQUIRED_WITNESSES = 17"

definition CHAIN_IRREVERSIBLE_SUPPORT_MIN_RUN :: int where
  [simp]: "CHAIN_IRREVERSIBLE_SUPPORT_MIN_RUN = 2"

definition CHAIN_MAX_UNDO_HISTORY :: int where
  [simp]: "CHAIN_MAX_UNDO_HISTORY = 10000"

definition CHAIN_MAX_RESERVE_RATIO :: int where
  [simp]: "CHAIN_MAX_RESERVE_RATIO = 20000"

definition CHAIN_BANDWIDTH_PRECISION :: int where
  [simp]: "CHAIN_BANDWIDTH_PRECISION = 1000000"

definition CHAIN_BANDWIDTH_AVERAGE_WINDOW_SECONDS :: int where
  [simp]: "CHAIN_BANDWIDTH_AVERAGE_WINDOW_SECONDS = 60 * 60 * 24 * 7"

definition CHAIN_BANDWIDTH_RESERVE_ACTIVE_TIME :: int where
  [simp]: "CHAIN_BANDWIDTH_RESERVE_ACTIVE_TIME = 30 * 24 * 60 * 60"

definition CHAIN_DIGITAL_ASSET_ISSUED_PER_BLOCK :: int where
  [simp]: "CHAIN_DIGITAL_ASSET_ISSUED_PER_BLOCK = 1000"

definition CHAIN_MAX_PROPOSAL_DEPTH :: nat where
  [simp]: "CHAIN_MAX_PROPOSAL_DEPTH = 2"

definition CHAIN_MAX_TIME_UNTIL_EXPIRATION :: int where
  [simp]: "CHAIN_MAX_TIME_UNTIL_EXPIRATION = 60 * 60"

definition CHAIN_MAX_BLOCK_POST_VALIDATION_COUNT :: nat where
  [simp]: "CHAIN_MAX_BLOCK_POST_VALIDATION_COUNT = 20"

definition CHAIN_NULL_ACCOUNT :: string where
  "CHAIN_NULL_ACCOUNT = ''null''"

definition CHAIN_COMMITTEE_ACCOUNT :: string where
  "CHAIN_COMMITTEE_ACCOUNT = ''committee''"

definition CHAIN_ANONYMOUS_ACCOUNT :: string where
  "CHAIN_ANONYMOUS_ACCOUNT = ''anonymous''"

definition CHAIN_INVITE_ACCOUNT :: string where
  "CHAIN_INVITE_ACCOUNT = ''invite''"

lemma symbols_distinct [simp]: "SHARES_SYMBOL \<noteq> TOKEN_SYMBOL" "TOKEN_SYMBOL \<noteq> SHARES_SYMBOL"
  by (simp_all add: SHARES_SYMBOL_def TOKEN_SYMBOL_def)

end
