(* ===== verification/Protocol_Authority.thy ===== *)
theory Protocol_Authority
  imports Chain_Config
begin

text \<open>
  Account names, authorities and the signature check (\<open>protocol/authority.hpp\<close>,
  \<open>protocol/authority.cpp\<close>, \<open>protocol/sign_state.hpp\<close>, \<open>protocol/sign_state.cpp\<close>).
  An authority is a weight threshold with weighted accounts and weighted keys; a flat map is the
  list of its entries in key order.
\<close>

type_synonym account_name_type = string
type_synonym public_key_type = string

section \<open>Account names\<close>

definition is_valid_domain_name :: "string \<Rightarrow> string \<Rightarrow> bool" where
  "is_valid_domain_name name creator =
     (case index_of (CHR ''.'') name of
        None \<Rightarrow> True
      | Some begin \<Rightarrow> creator = drop (begin + 1) name)"

definition is_valid_create_account_name :: "string \<Rightarrow> bool" where
  "is_valid_create_account_name name =
     (if length name < CHAIN_CREATE_MIN_ACCOUNT_NAME_LENGTH then False
      else if length name > CHAIN_MAX_ACCOUNT_NAME_LENGTH then False
      else True)"

definition is_letter :: "char \<Rightarrow> bool" where
  "is_letter c = (c \<in> set ''abcdefghijklmnopqrstuvwxyz'')"

text \<open>\<open>name.find_first_of('.', begin)\<close>, with the length of the name in place of \<open>npos\<close>.\<close>

definition label_end :: "string \<Rightarrow> nat \<Rightarrow> nat" where
  "label_end name start =
     (case index_of (CHR ''.'') (drop start name) of None \<Rightarrow> length name | Some i \<Rightarrow> start + i)"

lemma index_of_bound: "index_of c s = Some i \<Longrightarrow> i < length s"
  by (induction s arbitrary: i) (auto split: if_splits)

lemma label_end_bounds: "start \<le> length name \<Longrightarrow> start \<le> label_end name start \<and> label_end name start \<le> length name"
  by (auto simp: label_end_def dest: index_of_bound split: option.splits)

function valid_labels :: "string \<Rightarrow> nat \<Rightarrow> bool" where
  "valid_labels name start =
     (let stop = label_end name start
      in if stop - start < CHAIN_MIN_ACCOUNT_NAME_LENGTH then False
         else if \<not> is_letter (name ! start) then False
         else if \<not> (is_letter (name ! (stop - 1)) \<or> is_digit (name ! (stop - 1))) then False
         else if \<not> (\<forall>i \<in> set [start + 1..<stop - 1].
                      is_letter (name ! i) \<or> is_digit (name ! i) \<or> name ! i = CHR ''-'') then False
         else if stop = length name then True
         else valid_labels name (stop + 1))"
  by pat_completeness auto
termination
proof (relation "measure (\<lambda>(name, start). length name - start)", goal_cases)
  case 1 show ?case by simp
next
  case (2 name start stop)
  then have "start < length name"
    by (auto simp: label_end_def dest: index_of_bound split: option.splits)
  with 2 label_end_bounds [of start name] show ?case by auto
qed

declare valid_labels.simps [simp del]

definition is_valid_account_name :: "string \<Rightarrow> bool" where
  "is_valid_account_name name =
     (if length name < CHAIN_MIN_ACCOUNT_NAME_LENGTH then False
      else if length name > CHAIN_MAX_ACCOUNT_NAME_LENGTH then False
      else valid_labels name 0)"

section \<open>Authorities\<close>

record authority =
  weight_threshold :: nat
  account_auths :: "(account_name_type \<times> nat) list"
  key_auths :: "(public_key_type \<times> nat) list"

definition add_key_authority :: "public_key_type \<Rightarrow> nat \<Rightarrow> authority \<Rightarrow> authority" where
  "add_key_authority k w a = a\<lparr>key_auths := flat_put k w (key_auths a)\<rparr>"

definition add_account_authority :: "account_name_type \<Rightarrow> nat \<Rightarrow> authority \<Rightarrow> authority" where
  "add_account_authority n w a = a\<lparr>account_auths := flat_put n w (account_auths a)\<rparr>"

definition get_keys :: "authority \<Rightarrow> public_key_type list" where
  "get_keys a = map fst (key_auths a)"

definition is_impossible :: "authority \<Rightarrow> bool" where
  "is_impossible a =
     (let auth_weights = (sum_list (map snd (account_auths a)) + sum_list (map snd (key_auths a))) mod 2 ^ 64
      in auth_weights < weight_threshold a)"

definition num_auths :: "authority \<Rightarrow> nat" where
  "num_auths a = (length (account_auths a) + length (key_auths a)) mod 2 ^ 32"

definition clear_authority :: "authority \<Rightarrow> authority" where
  "clear_authority a = a\<lparr>account_auths := [], key_auths := []\<rparr>"

definition authority_validate :: "authority \<Rightarrow> unit result" where
  "authority_validate a =
     check_all (\<lambda>item. if is_valid_account_name (fst item) then Inr ()
                       else Inl (FC_Assert ''is_valid_account_name(item.first)'')) (account_auths a)"

definition authority_eq :: "authority \<Rightarrow> authority \<Rightarrow> bool" where
  "authority_eq a b =
     (weight_threshold a = weight_threshold b \<and> account_auths a = account_auths b \<and>
      key_auths a = key_auths b)"

definition empty_authority :: authority where
  "empty_authority = \<lparr>weight_threshold = 0, account_auths = [], key_auths = []\<rparr>"

section \<open>The signature check\<close>

text \<open>
  \<open>get_active\<close> is the callback the caller passes; it fails for an account that does not exist.
  The recursion depth is counted down: \<open>n\<close> is \<open>max_recursion\<close> minus the \<open>depth\<close> of the source.
\<close>

type_synonym authority_getter = "account_name_type \<Rightarrow> authority result"

record sign_state =
  available_keys :: "public_key_type list"
  provided_signatures :: "(public_key_type \<times> bool) list"
  unused_signatures :: "public_key_type list"
  used_signatures :: "public_key_type list"
  approved_by :: "(account_name_type \<times> bool) list"
  unused_approvals :: "account_name_type list"
  max_recursion :: nat

definition init_sign_state :: "public_key_type list \<Rightarrow> public_key_type list \<Rightarrow> sign_state" where
  "init_sign_state sigs keys =
     \<lparr>available_keys = keys, provided_signatures = map (\<lambda>k. (k, False)) sigs,
      unused_signatures = [], used_signatures = [],
      approved_by = [(''temp'', True)], unused_approvals = [],
      max_recursion = CHAIN_MAX_SIG_CHECK_DEPTH\<rparr>"

definition signed_by :: "public_key_type \<Rightarrow> sign_state \<Rightarrow> bool \<times> sign_state" where
  "signed_by k st =
     (case map_of (provided_signatures st) k of
        None \<Rightarrow>
          if k \<in> set (available_keys st)
          then (True, st\<lparr>provided_signatures := flat_put k True (provided_signatures st)\<rparr>)
          else (False, st)
      | Some _ \<Rightarrow>
          (True, st\<lparr>provided_signatures := flat_put k True (provided_signatures st)\<rparr>))"

text \<open>The loop over the keys of an authority: whether the threshold was reached, and the weight so far.\<close>

fun check_keys :: "nat \<Rightarrow> (public_key_type \<times> nat) list \<Rightarrow> nat \<Rightarrow> sign_state \<Rightarrow> bool \<times> nat \<times> sign_state" where
  "check_keys thr [] w st = (False, w, st)"
| "check_keys thr ((k, x) # ks) w st =
     (let (signed, st') = signed_by k st
      in if signed
         then (let w' = (w + x) mod 2 ^ 32
               in if w' \<ge> thr then (True, w', st') else check_keys thr ks w' st')
         else check_keys thr ks w st')"

function (sequential)
  check_authority :: "authority_getter \<Rightarrow> nat \<Rightarrow> authority \<Rightarrow> sign_state \<Rightarrow> (bool \<times> sign_state) result"
  and check_accounts :: "authority_getter \<Rightarrow> nat \<Rightarrow> nat \<Rightarrow> (account_name_type \<times> nat) list \<Rightarrow> nat \<Rightarrow>
        sign_state \<Rightarrow> (bool \<times> sign_state) result"
where
  "check_authority get_active n auth st =
     (case check_keys (weight_threshold auth) (key_auths auth) 0 st of
        (True, w, st') \<Rightarrow> Inr (True, st')
      | (False, w, st') \<Rightarrow>
          check_accounts get_active n (weight_threshold auth) (account_auths auth) w st')"
| "check_accounts get_active n thr [] w st = Inr (w \<ge> thr, st)"
| "check_accounts get_active n thr ((a, x) # as) w st =
     (if map_of (approved_by st) a = None
      then (case n of
              0 \<Rightarrow> check_accounts get_active n thr as w st
            | Suc m \<Rightarrow>
                (case get_active a of Inl e \<Rightarrow> Inl e
                 | Inr auth \<Rightarrow>
                   (case check_authority get_active m auth st of Inl e \<Rightarrow> Inl e
                    | Inr (True, st') \<Rightarrow>
                        (let st'' = st'\<lparr>approved_by := flat_put a True (approved_by st')\<rparr>;
                             w' = (w + x) mod 2 ^ 32
                         in if w' \<ge> thr then Inr (True, st'')
                            else check_accounts get_active n thr as w' st'')
                    | Inr (False, st') \<Rightarrow> check_accounts get_active n thr as w st')))
      else (let w' = (w + x) mod 2 ^ 32
            in if w' \<ge> thr then Inr (True, st)
               else check_accounts get_active n thr as w' st))"
  by pat_completeness auto
termination
  by (relation "measures [\<lambda>x. case x of Inl (g, n, a, st) \<Rightarrow> n | Inr (g, n, t, as, w, st) \<Rightarrow> n,
        \<lambda>x. case x of Inl _ \<Rightarrow> 1 | Inr _ \<Rightarrow> 0,
        \<lambda>x. case x of Inl _ \<Rightarrow> 0 | Inr (g, n, t, as, w, st) \<Rightarrow> length as]") auto

definition check_account_authority ::
    "authority_getter \<Rightarrow> account_name_type \<Rightarrow> sign_state \<Rightarrow> (bool \<times> sign_state) result" where
  "check_account_authority get_active name st =
     (case map_of (approved_by st) name of
        Some _ \<Rightarrow> Inr (True, st\<lparr>approved_by := flat_put name True (approved_by st)\<rparr>)
      | None \<Rightarrow> (case get_active name of Inl e \<Rightarrow> Inl e
                 | Inr auth \<Rightarrow> check_authority get_active (max_recursion st) auth st))"

definition remove_unused_signatures :: "sign_state \<Rightarrow> bool \<times> sign_state" where
  "remove_unused_signatures st =
     (let unused = map fst (filter (\<lambda>s. \<not> snd s) (provided_signatures st));
          used = map fst (filter snd (provided_signatures st))
      in (unused \<noteq> [],
          st\<lparr>unused_signatures := unused, used_signatures := used,
             provided_signatures := filter (\<lambda>s. fst s \<notin> set unused) (provided_signatures st)\<rparr>))"

definition filter_unused_approvals :: "sign_state \<Rightarrow> bool \<times> sign_state" where
  "filter_unused_approvals st =
     (let unused = map fst (filter (\<lambda>a. \<not> snd a) (approved_by st))
      in (unused \<noteq> [], st\<lparr>unused_approvals := unused\<rparr>))"

section \<open>Properties of names\<close>

text \<open>The grammar: dot-separated labels.\<close>

fun split_dots :: "string \<Rightarrow> string list" where
  "split_dots [] = [[]]"
| "split_dots (c # cs) =
     (if c = CHR ''.'' then [] # split_dots cs
      else case split_dots cs of [] \<Rightarrow> [[c]] | l # ls \<Rightarrow> (c # l) # ls)"

definition valid_label :: "string \<Rightarrow> bool" where
  "valid_label l =
     (2 \<le> length l \<and> is_letter (hd l) \<and> (is_letter (last l) \<or> is_digit (last l)) \<and>
      (\<forall>c \<in> set (butlast (tl l)). is_letter c \<or> is_digit c \<or> c = CHR ''-''))"

lemma split_dots_no_dot: "CHR ''.'' \<notin> set s \<Longrightarrow> split_dots s = [s]"
  by (induction s) auto

lemma split_dots_dot: "CHR ''.'' \<notin> set l \<Longrightarrow> split_dots (l @ CHR ''.'' # r) = l # split_dots r"
  by (induction l) auto

lemma index_of_Some: "index_of c s = Some i \<Longrightarrow> s = take i s @ c # drop (Suc i) s \<and> c \<notin> set (take i s)"
proof (induction s arbitrary: i)
  case (Cons x s)
  then show ?case by (cases "x = c") auto
qed simp

lemma nth_label_middle:
  assumes "e \<le> length s" and "2 \<le> e"
  shows "set (butlast (tl (take e s))) = (\<lambda>i. s ! i) ` set [1..<e - 1]"
proof -
  have "butlast (tl (take e s)) = map ((!) s) [1..<e - 1]"
    using assms by (intro nth_equalityI) (auto simp: nth_butlast nth_tl)
  then show ?thesis by simp
qed

lemma label_checks:
  assumes "start \<le> stop" and "stop \<le> length name"
  defines "l \<equiv> take (stop - start) (drop start name)"
  shows "valid_label l \<longleftrightarrow>
    2 \<le> stop - start \<and> is_letter (name ! start) \<and>
    (is_letter (name ! (stop - 1)) \<or> is_digit (name ! (stop - 1))) \<and>
    (\<forall>i \<in> set [start + 1..<stop - 1]. is_letter (name ! i) \<or> is_digit (name ! i) \<or> name ! i = CHR ''-'')"
proof (cases "2 \<le> stop - start")
  case False
  with assms show ?thesis by (auto simp: valid_label_def l_def)
next
  case True
  let ?e = "stop - start"
  have len: "length l = ?e" using assms by (simp add: l_def)
  have hd: "hd l = name ! start" using True assms len by (simp add: l_def hd_drop_conv_nth)
  have last: "last l = name ! (stop - 1)"
  proof -
    have "last l = l ! (?e - 1)" using True len by (metis last_conv_nth list.size(3) not_numeral_le_zero)
    then show ?thesis using True assms by (simp add: l_def)
  qed
  have "set (butlast (tl l)) = (\<lambda>i. drop start name ! i) ` set [1..<?e - 1]"
    unfolding l_def using True assms by (intro nth_label_middle) auto
  also have "\<dots> = (\<lambda>i. name ! i) ` set [start + 1..<stop - 1]"
  proof -
    have "set [start + 1..<stop - 1] = (\<lambda>i. start + i) ` set [1..<?e - 1]"
      using True by (auto simp: image_iff intro!: bexI [of _ "_ - start"])
    then have "(\<lambda>i. name ! i) ` set [start + 1..<stop - 1] = (\<lambda>i. name ! (start + i)) ` set [1..<?e - 1]"
      by (simp only: image_image)
    then show ?thesis using assms(1,2) by simp
  qed
  finally show ?thesis using True hd last len by (auto simp: valid_label_def)
qed

lemma valid_labels_split:
  "start \<le> length name \<Longrightarrow> valid_labels name start \<longleftrightarrow> list_all valid_label (split_dots (drop start name))"
proof (induction name start rule: valid_labels.induct)
  case (1 name start)
  define stop where "stop = label_end name start"
  define l where "l = take (stop - start) (drop start name)"
  have b: "start \<le> stop" "stop \<le> length name"
    using label_end_bounds [OF 1(2)] by (simp_all add: stop_def)
  have step: "valid_labels name start \<longleftrightarrow>
      valid_label l \<and> (stop = length name \<or> valid_labels name (stop + 1))"
    unfolding label_checks [OF b, folded l_def] valid_labels.simps [of name start]
    by (simp add: stop_def Let_def not_le)
  show ?case
  proof (cases "index_of (CHR ''.'') (drop start name)")
    case None
    then have "stop = length name" by (simp add: stop_def label_end_def)
    moreover have "CHR ''.'' \<notin> set (drop start name)" using None by (simp add: index_of_None)
    ultimately show ?thesis using step by (simp add: split_dots_no_dot l_def)
  next
    case (Some i)
    then have stop: "stop = start + i" by (simp add: stop_def label_end_def)
    have i: "i < length (drop start name)" using Some by (rule index_of_bound)
    have "drop start name = l @ CHR ''.'' # drop (stop + 1) name" "CHR ''.'' \<notin> set l"
      using index_of_Some [OF Some] by (simp_all add: l_def stop add_ac)
    then have "split_dots (drop start name) = l # split_dots (drop (stop + 1) name)"
      by (metis split_dots_dot)
    moreover have "stop \<noteq> length name" using i stop by simp
    moreover have "valid_label l \<Longrightarrow> valid_labels name (stop + 1) \<longleftrightarrow> list_all valid_label (split_dots (drop (stop + 1) name))"
      using "1.IH" [of stop] b i stop label_checks [OF b, folded l_def]
      by (auto simp: stop_def not_le)
    ultimately show ?thesis using step by auto
  qed
qed

text \<open>C20: an account name is accepted exactly when it has 2 to 32 characters and is a dot-separated
  sequence of labels of at least two characters, each starting with a letter, ending with a letter or
  digit and holding only letters, digits and hyphens.\<close>

theorem account_name_grammar:
  "is_valid_account_name name \<longleftrightarrow>
     2 \<le> length name \<and> length name \<le> 32 \<and> list_all valid_label (split_dots name)"
  using valid_labels_split [of 0 name] by (auto simp: is_valid_account_name_def)


section \<open>Soundness and completeness of the signature check\<close>

text \<open>
  The specification: an authority is satisfied when the keys that signed and the accounts that are
  approved, or whose own active authority is satisfied, carry enough weight.
\<close>

inductive authorized ::
    "authority_getter \<Rightarrow> public_key_type set \<Rightarrow> account_name_type set \<Rightarrow> authority \<Rightarrow> bool"
  for get_active K A
where
  by_weight: "\<forall>a \<in> S. a \<in> A \<or> (\<exists>b. get_active a = Inr b \<and> authorized get_active K A b) \<Longrightarrow>
     weight_threshold auth \<le> sum_list (map snd (filter (\<lambda>x. fst x \<in> K) (key_auths auth)))
                            + sum_list (map snd (filter (\<lambda>x. fst x \<in> S) (account_auths auth))) \<Longrightarrow>
     authorized get_active K A auth"

definition approved_ok :: "authority_getter \<Rightarrow> public_key_type set \<Rightarrow> account_name_type set \<Rightarrow> sign_state \<Rightarrow> bool" where
  "approved_ok g K A st =
     ((\<forall>a \<in> dom (map_of (approved_by st)). a \<in> A \<or> (\<exists>b. g a = Inr b \<and> authorized g K A b)) \<and>
      dom (map_of (provided_signatures st)) \<union> set (available_keys st) \<subseteq> K)"

lemma signed_by_sound:
  assumes "signed_by k st = (r, st')" and "approved_ok g K A st"
  shows "approved_ok g K A st' \<and> (r \<longrightarrow> k \<in> K)"
proof -
  have K: "dom (map_of (provided_signatures st)) \<subseteq> K" "set (available_keys st) \<subseteq> K"
    using assms(2) by (auto simp: approved_ok_def)
  then have "r \<Longrightarrow> k \<in> K"
    using assms(1) by (auto simp: signed_by_def domI split: option.splits if_splits)
  moreover have "approved_by st' = approved_by st \<and> available_keys st' = available_keys st \<and>
      dom (map_of (provided_signatures st')) \<subseteq> dom (map_of (provided_signatures st)) \<union> (if r then {k} else {})"
    using assms(1) by (auto simp: signed_by_def split: option.splits if_splits)
  moreover from calculation K(1) have "dom (map_of (provided_signatures st')) \<subseteq> K" by (cases r) (simp_all, blast+)
  ultimately show ?thesis using assms(2) K(2) by (simp add: approved_ok_def)
qed

lemma check_keys_sound:
  "check_keys thr ks w st = (r, w', st') \<Longrightarrow> approved_ok g K A st \<Longrightarrow>
     approved_ok g K A st' \<and>
     w' \<le> w + sum_list (map snd (filter (\<lambda>x. fst x \<in> K) ks)) \<and> (r \<longrightarrow> thr \<le> w')"
proof (induction ks arbitrary: w st)
  case Nil
  then show ?case by simp
next
  case (Cons kx ks)
  obtain k x where kx: "kx = (k, x)" by (cases kx)
  obtain s st1 where s: "signed_by k st = (s, st1)" by (cases "signed_by k st")
  from signed_by_sound [OF s Cons.prems(2)] have ok: "approved_ok g K A st1" and k: "s \<Longrightarrow> k \<in> K" by auto
  have m: "(w + x) mod 2 ^ 32 \<le> w + x" by (rule mod_less_eq_dividend)
  show ?case
  proof (cases "s \<and> \<not> thr \<le> (w + x) mod 2 ^ 32")
    case True
    with Cons.prems(1) kx s have "check_keys thr ks ((w + x) mod 2 ^ 32) st1 = (r, w', st')" by simp
    from Cons.IH [OF this ok] True k m kx show ?thesis by auto
  next
    case False
    show ?thesis
    proof (cases s)
      case True
      with False Cons.prems(1) kx s ok k m show ?thesis by auto
    next
      case False
      with Cons.prems(1) kx s have "check_keys thr ks w st1 = (r, w', st')" by simp
      from Cons.IH [OF this ok] kx show ?thesis by auto
    qed
  qed
qed

lemma approved_ok_approve:
  "approved_ok g K A st \<Longrightarrow> g a = Inr b \<Longrightarrow> authorized g K A b \<Longrightarrow>
     approved_ok g K A (st\<lparr>approved_by := flat_put a True (approved_by st)\<rparr>)"
  by (auto simp: approved_ok_def)

definition good_account :: "authority_getter \<Rightarrow> public_key_type set \<Rightarrow> account_name_type set \<Rightarrow> account_name_type \<Rightarrow> bool" where
  "good_account g K A a = (a \<in> A \<or> (\<exists>b. g a = Inr b \<and> authorized g K A b))"

lemma check_authority_sound:
  "check_authority g n auth st = Inr (r, st') \<Longrightarrow> approved_ok g K A st \<Longrightarrow>
     approved_ok g K A st' \<and> (r \<longrightarrow> authorized g K A auth)"
  "check_accounts g n thr as w st = Inr (r, st') \<Longrightarrow> approved_ok g K A st \<Longrightarrow>
     approved_ok g K A st' \<and>
     (r \<longrightarrow> thr \<le> w + sum_list (map snd (filter (\<lambda>x. good_account g K A (fst x)) as)))"
proof (induction g n auth st and g n thr as w st arbitrary: r st' and r st'
    rule: check_authority_check_accounts.induct)
  case (1 g n auth st)
  obtain s w st1 where ck: "check_keys (weight_threshold auth) (key_auths auth) 0 st = (s, w, st1)"
    by (cases "check_keys (weight_threshold auth) (key_auths auth) 0 st") auto
  note k = check_keys_sound [OF ck "1.prems"(2)]
  show ?case
  proof (cases s)
    case True
    have "authorized g K A auth"
      using True k by (intro authorized.by_weight [where S = "{}"]) auto
    with True ck k "1.prems"(1) show ?thesis by auto
  next
    case False
    with ck "1.prems"(1) have ca: "check_accounts g n (weight_threshold auth) (account_auths auth) w st1 = Inr (r, st')"
      by simp
    from "1.IH" [OF ck [symmetric] _ refl ca] False k
    have *: "approved_ok g K A st'"
      "r \<Longrightarrow> weight_threshold auth \<le> w + sum_list (map snd (filter (\<lambda>x. good_account g K A (fst x)) (account_auths auth)))"
      by auto
    have "authorized g K A auth" if r
      using *(2) [OF that] k
      by (intro authorized.by_weight [where S = "{a. good_account g K A a}"]) (auto simp: good_account_def)
    with *(1) show ?thesis by blast
  qed
next
  case (2 g n thr w st)
  then show ?case by simp
next
  case (3 g n thr a x as w st)
  have m: "(w + x) mod 2 ^ 32 \<le> w + x" by (rule mod_less_eq_dividend)
  show ?case
  proof (cases "map_of (approved_by st) a")
    case (Some v)
    with "3.prems"(2) have "good_account g K A a" by (auto simp: approved_ok_def good_account_def)
    with Some "3.prems" m "3.IH"(5) [OF _ refl] show ?thesis
      by (cases "thr \<le> (w + x) mod 2 ^ 32") (fastforce simp: Let_def)+
  next
    case None
    show ?thesis
    proof (cases n)
      case 0
      with None "3.prems" "3.IH"(1) [OF None] show ?thesis by force
    next
      case (Suc m')
      with None "3.prems"(1) obtain b s st1 where b: "g a = Inr b" "check_authority g m' b st = Inr (s, st1)"
        by (auto split: sum.splits)
      note ok = "3.IH"(2) [OF None Suc b "3.prems"(2)]
      show ?thesis
      proof (cases s)
        case True
        then have good: "good_account g K A a" using ok b(1) by (auto simp: good_account_def)
        have ok2: "approved_ok g K A (st1\<lparr>approved_by := flat_put a True (approved_by st1)\<rparr>)"
          using ok True b(1) by (auto intro: approved_ok_approve)
        show ?thesis
        proof (cases "thr \<le> (w + x) mod 2 ^ 32")
          case True
          with \<open>s\<close> b None Suc "3.prems"(1) good ok2 m show ?thesis by (auto simp: Let_def)
        next
          case False
          with \<open>s\<close> b None Suc "3.prems"(1)
          have "check_accounts g n thr as ((w + x) mod 2 ^ 32)
              (st1\<lparr>approved_by := flat_put a True (approved_by st1)\<rparr>) = Inr (r, st')"
            by (simp add: Let_def)
          from "3.IH"(3) [OF None Suc b refl _ refl refl False this ok2] \<open>s\<close> good m show ?thesis by auto
        qed
      next
        case False
        with b None Suc "3.prems"(1) have "check_accounts g n thr as w st1 = Inr (r, st')" by simp
        from "3.IH"(4) [OF None Suc b refl _ this] False ok show ?thesis by auto
      qed
    qed
  qed
qed

text \<open>Within the depth limit: what the check must accept.\<close>

fun satisfied :: "authority_getter \<Rightarrow> public_key_type set \<Rightarrow> account_name_type set \<Rightarrow> nat \<Rightarrow> authority \<Rightarrow> bool" where
  "satisfied g K A n auth \<longleftrightarrow>
     weight_threshold auth \<le> sum_list (map snd (filter (\<lambda>x. fst x \<in> K) (key_auths auth)))
       + sum_list (map snd (filter (\<lambda>x. fst x \<in> A \<or>
            (case n of 0 \<Rightarrow> False | Suc m \<Rightarrow> \<exists>b. g (fst x) = Inr b \<and> satisfied g K A m b)) (account_auths auth)))"

declare satisfied.simps [simp del]

definition small_weights :: "authority \<Rightarrow> bool" where
  "small_weights auth = (sum_list (map snd (key_auths auth)) + sum_list (map snd (account_auths auth)) < 2 ^ 32)"

definition signable :: "sign_state \<Rightarrow> public_key_type set" where
  "signable st = dom (map_of (provided_signatures st)) \<union> set (available_keys st)"

lemma signed_by_complete:
  "signed_by k st = (r, st') \<Longrightarrow> r = (k \<in> signable st) \<and> signable st' = signable st \<and> approved_by st' = approved_by st"
  by (auto simp: signed_by_def signable_def split: option.splits if_splits)

lemma check_keys_complete:
  assumes "check_keys thr ks w st = (r, w', st')"
    and "w + sum_list (map snd ks) < 2 ^ 32"
  shows "signable st' = signable st \<and> approved_by st' = approved_by st \<and>
     (\<not> r \<longrightarrow> w' = w + sum_list (map snd (filter (\<lambda>x. fst x \<in> signable st) ks)))"
  using assms
proof (induction ks arbitrary: w st)
  case Nil
  then show ?case by simp
next
  case (Cons kx ks)
  obtain k x where kx: "kx = (k, x)" by (cases kx)
  obtain s st1 where s: "signed_by k st = (s, st1)" by (cases "signed_by k st")
  note sc = signed_by_complete [OF s]
  from Cons.prems(2) kx have m: "(w + x) mod 2 ^ 32 = w + x" by simp
  show ?case
  proof (cases s)
    case True
    show ?thesis
    proof (cases "thr \<le> w + x")
      case True
      with \<open>s\<close> Cons.prems(1) kx s sc m show ?thesis by auto
    next
      case False
      with \<open>s\<close> Cons.prems(1) kx s m have "check_keys thr ks (w + x) st1 = (r, w', st')" by simp
      from Cons.IH [OF this] Cons.prems(2) kx sc \<open>s\<close> show ?thesis by auto
    qed
  next
    case False
    with Cons.prems(1) kx s have "check_keys thr ks w st1 = (r, w', st')" by simp
    from Cons.IH [OF this] Cons.prems(2) kx sc False show ?thesis by auto
  qed
qed


definition counts :: "authority_getter \<Rightarrow> public_key_type set \<Rightarrow> account_name_type set \<Rightarrow> nat \<Rightarrow> account_name_type \<Rightarrow> bool" where
  "counts g K A n a = (a \<in> A \<or>
     (case n of 0 \<Rightarrow> False | Suc m \<Rightarrow> \<exists>b. g a = Inr b \<and> satisfied g K A m b))"

lemma satisfied_counts:
  "satisfied g K A n auth \<longleftrightarrow>
     weight_threshold auth \<le> sum_list (map snd (filter (\<lambda>x. fst x \<in> K) (key_auths auth)))
       + sum_list (map snd (filter (\<lambda>x. counts g K A n (fst x)) (account_auths auth)))"
  by (simp add: satisfied.simps [of g K A n auth] counts_def)

definition grows :: "sign_state \<Rightarrow> sign_state \<Rightarrow> bool" where
  "grows st st' = (signable st' = signable st \<and> dom (map_of (approved_by st)) \<subseteq> dom (map_of (approved_by st')))"

lemma grows_step:
  assumes "grows st st1"
    and "grows st1 st' \<and> (A \<subseteq> dom (map_of (approved_by st1)) \<longrightarrow> P (signable st1) \<longrightarrow> r)"
  shows "grows st st' \<and> (A \<subseteq> dom (map_of (approved_by st)) \<longrightarrow> P (signable st) \<longrightarrow> r)"
proof -
  have "dom (map_of (approved_by st)) \<subseteq> dom (map_of (approved_by st1))" "signable st1 = signable st"
    using assms(1) by (simp_all add: grows_def)
  with assms(2) show ?thesis unfolding grows_def by (metis subset_trans)
qed

lemma check_authority_complete:
  "check_authority g n auth st = Inr (r, st') \<Longrightarrow> small_weights auth \<Longrightarrow>
     (\<forall>a b. g a = Inr b \<longrightarrow> small_weights b) \<Longrightarrow>
     grows st st' \<and> (A \<subseteq> dom (map_of (approved_by st)) \<longrightarrow> satisfied g (signable st) A n auth \<longrightarrow> r)"
  "check_accounts g n thr as w st = Inr (r, st') \<Longrightarrow> w + sum_list (map snd as) < 2 ^ 32 \<Longrightarrow>
     (\<forall>a b. g a = Inr b \<longrightarrow> small_weights b) \<Longrightarrow>
     grows st st' \<and> (A \<subseteq> dom (map_of (approved_by st)) \<longrightarrow>
       thr \<le> w + sum_list (map snd (filter (\<lambda>x. counts g (signable st) A n (fst x)) as)) \<longrightarrow> r)"
proof (induction g n auth st and g n thr as w st arbitrary: r st' and r st'
    rule: check_authority_check_accounts.induct)
  case (1 g n auth st)
  obtain s w st1 where ck: "check_keys (weight_threshold auth) (key_auths auth) 0 st = (s, w, st1)"
    by (cases "check_keys (weight_threshold auth) (key_auths auth) 0 st") auto
  have kc: "signable st1 = signable st" "approved_by st1 = approved_by st"
    "\<not> s \<Longrightarrow> w = sum_list (map snd (filter (\<lambda>x. fst x \<in> signable st) (key_auths auth)))"
    using check_keys_complete [OF ck] "1.prems"(2) by (auto simp: small_weights_def)
  show ?case
  proof (cases s)
    case True
    with ck kc "1.prems"(1) show ?thesis by (auto simp: grows_def)
  next
    case False
    have "sum_list (map snd (filter P xs)) \<le> sum_list (map snd xs)" for P and xs :: "(string \<times> nat) list"
      by (induction xs) auto
    then have "w + sum_list (map snd (account_auths auth)) < 2 ^ 32"
      using kc(3) [OF False] "1.prems"(2) by (auto simp: small_weights_def intro: le_less_trans [rotated])
    moreover have "check_accounts g n (weight_threshold auth) (account_auths auth) w st1 = Inr (r, st')"
      using False ck "1.prems"(1) by simp
    ultimately show ?thesis
      using "1.IH" [OF ck [symmetric] _ refl, of r st'] False kc "1.prems"(3)
      by (auto simp: grows_def satisfied_counts)
  qed
next
  case (2 g n thr w st)
  then show ?case by (simp add: grows_def)
next
  case (3 g n thr a x as w st)
  have m: "(w + x) mod 2 ^ 32 = w + x" using "3.prems"(2) by simp
  have tl: "w + x + sum_list (map snd as) < 2 ^ 32" "w + sum_list (map snd as) < 2 ^ 32"
    using "3.prems"(2) by simp_all
  show ?case
  proof (cases "map_of (approved_by st) a")
    case (Some v)
    show ?thesis
    proof (cases "thr \<le> w + x")
      case True
      with Some "3.prems"(1) m show ?thesis by (auto simp: Let_def grows_def)
    next
      case False
      with Some "3.prems"(1) m have "check_accounts g n thr as (w + x) st = Inr (r, st')" by (simp add: Let_def)
      from "3.IH"(5) [OF _ m [symmetric] False this tl(1) "3.prems"(3)] Some show ?thesis
        by (auto split: if_splits)
    qed
  next
    case None
    then have notA: "A \<subseteq> dom (map_of (approved_by st)) \<Longrightarrow> a \<notin> A" by auto
    show ?thesis
    proof (cases n)
      case 0
      with None "3.prems"(1) have "check_accounts g n thr as w st = Inr (r, st')" by simp
      from "3.IH"(1) [OF None 0 this tl(2) "3.prems"(3)] notA 0 show ?thesis
        by (auto simp: counts_def)
    next
      case (Suc m')
      with None "3.prems"(1) obtain b s st1 where b: "g a = Inr b" "check_authority g m' b st = Inr (s, st1)"
        by (auto split: sum.splits)
      note ok = "3.IH"(2) [OF None Suc b _ "3.prems"(3)]
      have g1: "grows st st1" and acc: "A \<subseteq> dom (map_of (approved_by st)) \<Longrightarrow> satisfied g (signable st) A m' b \<Longrightarrow> s"
        using ok b(1) "3.prems"(3) by auto
      show ?thesis
      proof (cases s)
        case True
        let ?st2 = "st1\<lparr>approved_by := flat_put a True (approved_by st1)\<rparr>"
        have g2: "grows st ?st2" using g1 by (auto simp: grows_def signable_def)
        show ?thesis
        proof (cases "thr \<le> w + x")
          case True
          with \<open>s\<close> b None Suc "3.prems"(1) m g2 show ?thesis by (auto simp: Let_def)
        next
          case False
          with \<open>s\<close> b None Suc "3.prems"(1) m have ca: "check_accounts g n thr as (w + x) ?st2 = Inr (r, st')"
            by (simp add: Let_def)
          have s: "s = True" using \<open>s\<close> by simp
          note ih = "3.IH"(3) [OF None Suc b refl s refl m [symmetric] False ca tl(1) "3.prems"(3)]
          show ?thesis
            using grows_step [OF g2, where P = "\<lambda>K. thr \<le> w + x + sum_list (map snd (filter (\<lambda>x. counts g K A n (fst x)) as))", OF ih]
            by (auto split: if_splits)
        qed
      next
        case False
        with b None Suc "3.prems"(1) have ca: "check_accounts g n thr as w st1 = Inr (r, st')" by simp
        have s: "s = False" using False by simp
        have "A \<subseteq> dom (map_of (approved_by st)) \<Longrightarrow> \<not> counts g (signable st) A n a"
          using acc False notA b(1) Suc by (auto simp: counts_def)
        with grows_step [OF g1, where P = "\<lambda>K. thr \<le> w + sum_list (map snd (filter (\<lambda>x. counts g K A n (fst x)) as))",
            OF "3.IH"(4) [OF None Suc b refl s ca tl(2) "3.prems"(3)]] show ?thesis
          by auto
      qed
    qed
  qed
qed

lemma init_signable: "signable (init_sign_state sigs avail) = set sigs \<union> set avail"
proof -
  have "dom (map_of (map (\<lambda>k. (k, False)) sigs)) = set sigs"
    by (simp add: dom_map_of_conv_image_fst image_image)
  then show ?thesis by (simp add: signable_def init_sign_state_def)
qed

lemma init_approved: "dom (map_of (approved_by (init_sign_state sigs avail))) = {''temp''}"
  by (simp add: init_sign_state_def)

text \<open>C16: when the signature check accepts an authority, the keys that signed the transaction (or that
  the caller can sign with) really satisfy it: their weights, with those of the accounts whose own
  active authority they satisfy, reach the threshold.  No account counts without that, except the
  reserved account the check pre-approves.\<close>

theorem sign_check_sound:
  assumes "check_authority get_active CHAIN_MAX_SIG_CHECK_DEPTH auth (init_sign_state sigs avail) = Inr (True, st')"
  shows "authorized get_active (set sigs \<union> set avail) {''temp''} auth"
proof -
  have "approved_ok get_active (set sigs \<union> set avail) {''temp''} (init_sign_state sigs avail)"
    using init_signable [of sigs avail] init_approved [of sigs avail]
    by (simp add: approved_ok_def signable_def)
  from check_authority_sound(1) [OF assms this] show ?thesis by simp
qed

definition sample_authority :: authority where
  "sample_authority = \<lparr>weight_threshold = 2, account_auths = [(''bob'', 1)], key_auths = [(''K1'', 1), (''K2'', 1)]\<rparr>"

definition sample_getter :: authority_getter where
  "sample_getter a = (if a = ''bob'' then Inr \<lparr>weight_threshold = 1, account_auths = [], key_auths = [(''KB'', 1)]\<rparr>
     else Inl (Unknown_key a))"

lemma sample_check:
  "\<exists>st'. check_authority sample_getter CHAIN_MAX_SIG_CHECK_DEPTH sample_authority (init_sign_state [''K1'', ''KB''] [])
     = Inr (True, st')"
  by (simp add: sample_authority_def sample_getter_def init_sign_state_def signed_by_def Let_def)

theorem sign_check_sound_witness:
  "authorized sample_getter (set [''K1'', ''KB''] \<union> set []) {''temp''} sample_authority"
proof -
  obtain st' where "check_authority sample_getter CHAIN_MAX_SIG_CHECK_DEPTH sample_authority
      (init_sign_state [''K1'', ''KB''] []) = Inr (True, st')"
    using sample_check by blast
  then show ?thesis by (rule sign_check_sound)
qed


lemma sample_satisfied:
  "satisfied sample_getter (set [''K1'', ''KB''] \<union> set []) {''temp''} CHAIN_MAX_SIG_CHECK_DEPTH sample_authority"
  by (simp add: satisfied.simps sample_authority_def sample_getter_def numeral_2_eq_2)


end
