(* ===== verification/Protocol_Asset.thy ===== *)
theory Protocol_Asset
  imports Chain_Config
begin

unbundle bit_operations_syntax

text \<open>
  Assets and prices (\<open>protocol/asset.hpp\<close>, \<open>protocol/asset.cpp\<close>).  An asset is an amount
  with a 64-bit symbol whose lowest byte is the number of decimals and whose next bytes are the
  name.  Mixing symbols is an assertion failure.  The string conversions of the \<open>fc\<close> library
  are parameters; \<open>decimal_io\<close> collects what the code relies on.
\<close>

section \<open>Assets\<close>

record asset =
  amount :: int
  symbol :: "64 word"

definition mk_asset :: "int \<Rightarrow> 64 word \<Rightarrow> asset" where
  "mk_asset a s = \<lparr>amount = a, symbol = s\<rparr>"

lemma mk_asset_simps [simp]: "amount (mk_asset a s) = a" "symbol (mk_asset a s) = s"
  by (simp_all add: mk_asset_def)

definition symbol_byte :: "nat \<Rightarrow> 64 word \<Rightarrow> nat" where
  "symbol_byte i s = unat (take_bit 8 (drop_bit (8 * i) s))"

definition decimals :: "asset \<Rightarrow> nat result" where
  "decimals a =
     (let r = symbol_byte 0 (symbol a)
      in if r < 15 then Inr r else Inl (FC_Assert ''result < 15''))"

definition set_decimals :: "nat \<Rightarrow> asset \<Rightarrow> asset result" where
  "set_decimals d a =
     (if d < 15
      then Inr (a\<lparr>symbol := push_bit 8 (drop_bit 8 (symbol a)) OR of_nat d\<rparr>)
      else Inl (FC_Assert ''d < 15''))"

text \<open>\<open>symbol_name\<close> returns the C string that starts at byte 1; byte 7 must be 0.\<close>

definition symbol_name :: "asset \<Rightarrow> string result" where
  "symbol_name a =
     (if symbol_byte 7 (symbol a) = 0
      then Inr (map char_of (takeWhile (\<lambda>b. b \<noteq> 0)
                  (map (\<lambda>i. symbol_byte i (symbol a)) [1..<8])))
      else Inl (FC_Assert ''a[7] == 0''))"

definition precision_table :: "int list" where
  "precision_table =
     [1, 10, 100, 1000, 10000, 100000, 1000000, 10000000, 100000000, 1000000000, 10000000000,
      100000000000, 1000000000000, 10000000000000, 100000000000000]"

definition precision :: "asset \<Rightarrow> int result" where
  "precision a = (case decimals a of Inl e \<Rightarrow> Inl e | Inr d \<Rightarrow> Inr (precision_table ! d))"

section \<open>Arithmetic and comparison\<close>

definition asset_add :: "asset \<Rightarrow> asset \<Rightarrow> asset result" where
  "asset_add a b =
     (if symbol a = symbol b then Inr (mk_asset (amount a + amount b) (symbol a))
      else Inl (FC_Assert ''symbol == o.symbol''))"

definition asset_sub :: "asset \<Rightarrow> asset \<Rightarrow> asset result" where
  "asset_sub a b =
     (if symbol a = symbol b then Inr (mk_asset (amount a - amount b) (symbol a))
      else Inl (FC_Assert ''symbol == o.symbol''))"

definition asset_mult :: "asset \<Rightarrow> int \<Rightarrow> asset" where
  "asset_mult a x = mk_asset (amount a * x) (symbol a)"

definition asset_div :: "asset \<Rightarrow> int \<Rightarrow> asset" where
  "asset_div a x = mk_asset (amount a sdiv x) (symbol a)"

definition asset_neg :: "asset \<Rightarrow> asset" where
  "asset_neg a = mk_asset (- amount a) (symbol a)"

definition asset_eq :: "asset \<Rightarrow> asset \<Rightarrow> bool result" where
  "asset_eq a b =
     (if symbol a = symbol b then Inr (amount a = amount b)
      else Inl (FC_Assert ''a.symbol == b.symbol''))"

definition asset_lt :: "asset \<Rightarrow> asset \<Rightarrow> bool result" where
  "asset_lt a b =
     (if symbol a = symbol b then Inr (amount a < amount b)
      else Inl (FC_Assert ''a.symbol == b.symbol''))"

definition asset_le :: "asset \<Rightarrow> asset \<Rightarrow> bool result" where
  "asset_le a b =
     (case asset_eq a b of Inl e \<Rightarrow> Inl e
      | Inr eq \<Rightarrow> if eq then Inr True else asset_lt a b)"

definition asset_ne :: "asset \<Rightarrow> asset \<Rightarrow> bool result" where
  "asset_ne a b = (case asset_eq a b of Inl e \<Rightarrow> Inl e | Inr r \<Rightarrow> Inr (\<not> r))"

definition asset_gt :: "asset \<Rightarrow> asset \<Rightarrow> bool result" where
  "asset_gt a b = (case asset_le a b of Inl e \<Rightarrow> Inl e | Inr r \<Rightarrow> Inr (\<not> r))"

definition asset_ge :: "asset \<Rightarrow> asset \<Rightarrow> bool result" where
  "asset_ge a b = (case asset_lt a b of Inl e \<Rightarrow> Inl e | Inr r \<Rightarrow> Inr (\<not> r))"

lemmas asset_cmp_defs = asset_eq_def asset_lt_def asset_le_def asset_ne_def asset_gt_def asset_ge_def

text \<open>The comparisons agree with those of the amounts whenever the symbols agree, and fail otherwise.\<close>

lemma asset_ge_Inr [run_simps]: "asset_ge a b = Inr r \<longleftrightarrow> symbol a = symbol b \<and> r = (amount a \<ge> amount b)"
  by (auto simp: asset_ge_def asset_lt_def)

lemma asset_gt_Inr [run_simps]: "asset_gt a b = Inr r \<longleftrightarrow> symbol a = symbol b \<and> r = (amount a > amount b)"
  by (auto simp: asset_gt_def asset_le_def asset_eq_def asset_lt_def)

lemma asset_lt_Inr [run_simps]: "asset_lt a b = Inr r \<longleftrightarrow> symbol a = symbol b \<and> r = (amount a < amount b)"
  by (auto simp: asset_lt_def)

lemma asset_le_Inr [run_simps]: "asset_le a b = Inr r \<longleftrightarrow> symbol a = symbol b \<and> r = (amount a \<le> amount b)"
  by (auto simp: asset_le_def asset_eq_def asset_lt_def)

lemma asset_eq_Inr [run_simps]: "asset_eq a b = Inr r \<longleftrightarrow> symbol a = symbol b \<and> r = (amount a = amount b)"
  by (auto simp: asset_eq_def)

lemma asset_ne_Inr [run_simps]: "asset_ne a b = Inr r \<longleftrightarrow> symbol a = symbol b \<and> r = (amount a \<noteq> amount b)"
  by (auto simp: asset_ne_def asset_eq_def)

lemma asset_add_Inr [run_simps]:
  "asset_add a b = Inr c \<longleftrightarrow> symbol a = symbol b \<and> c = mk_asset (amount a + amount b) (symbol a)"
  by (auto simp: asset_add_def)

lemma asset_sub_Inr [run_simps]:
  "asset_sub a b = Inr c \<longleftrightarrow> symbol a = symbol b \<and> c = mk_asset (amount a - amount b) (symbol a)"
  by (auto simp: asset_sub_def)

lemma asset_neg_simps [simp]: "amount (asset_neg a) = - amount a" "symbol (asset_neg a) = symbol a"
  by (simp_all add: asset_neg_def)

lemma asset_mult_simps [simp]: "amount (asset_mult a x) = amount a * x" "symbol (asset_mult a x) = symbol a"
  by (simp_all add: asset_mult_def)

section \<open>Prices\<close>

record price =
  base :: asset
  quote :: asset

definition price_eq :: "price \<Rightarrow> price \<Rightarrow> bool" where
  "price_eq a b =
     (if symbol (base a) \<noteq> symbol (base b) \<or> symbol (quote a) \<noteq> symbol (quote b) then False
      else let amult = u128 (u128 (amount (quote b)) * u128 (amount (base a)));
               bmult = u128 (u128 (amount (quote a)) * u128 (amount (base b)))
           in amult = bmult)"

definition price_lt :: "price \<Rightarrow> price \<Rightarrow> bool" where
  "price_lt a b =
     (if symbol (base a) < symbol (base b) then True
      else if symbol (base a) > symbol (base b) then False
      else if symbol (quote a) < symbol (quote b) then True
      else if symbol (quote a) > symbol (quote b) then False
      else let amult = u128 (u128 (amount (quote b)) * u128 (amount (base a)));
               bmult = u128 (u128 (amount (quote a)) * u128 (amount (base b)))
           in amult < bmult)"

definition price_le :: "price \<Rightarrow> price \<Rightarrow> bool" where
  "price_le a b = (price_eq a b \<or> price_lt a b)"

definition price_gt :: "price \<Rightarrow> price \<Rightarrow> bool" where
  "price_gt a b = (\<not> price_le a b)"

definition price_ge :: "price \<Rightarrow> price \<Rightarrow> bool" where
  "price_ge a b = (\<not> price_lt a b)"

definition price_validate :: "price \<Rightarrow> unit result" where
  "price_validate p =
     (if \<not> amount (base p) > 0 then Inl (FC_Assert ''base.amount > share_type(0)'')
      else if \<not> amount (quote p) > 0 then Inl (FC_Assert ''quote.amount > share_type(0)'')
      else case symbol_name (base p) of Inl e \<Rightarrow> Inl e
      | Inr bn \<Rightarrow> case symbol_name (quote p) of Inl e \<Rightarrow> Inl e
      | Inr qn \<Rightarrow> if bn = qn then Inl (FC_Assert ''base.symbol_name() != quote.symbol_name()'')
                  else Inr ())"

definition price_of :: "asset \<Rightarrow> asset \<Rightarrow> price result" where
  "price_of b q =
     (case symbol_name b of Inl e \<Rightarrow> Inl e
      | Inr bn \<Rightarrow> case symbol_name q of Inl e \<Rightarrow> Inl e
      | Inr qn \<Rightarrow> if bn = qn then Inl (FC_Assert ''base.symbol_name() != quote.symbol_name()'')
                  else Inr \<lparr>base = b, quote = q\<rparr>)"

definition asset_times_price :: "asset \<Rightarrow> price \<Rightarrow> asset result" where
  "asset_times_price a p =
     (case symbol_name a of Inl e \<Rightarrow> Inl e
      | Inr an \<Rightarrow> case symbol_name (base p) of Inl e \<Rightarrow> Inl e
      | Inr bn \<Rightarrow>
        if an = bn then
          (if \<not> amount (base p) > 0 then Inl (FC_Assert ''b.base.amount.value > 0'')
           else let result = u128 (u128 (amount a) * u128 (amount (quote p))) div u128 (amount (base p))
                in if result \<ge> 2 ^ 64 then Inl (FC_Assert ''result.hi == 0'')
                   else Inr (mk_asset (i64 result) (symbol (quote p))))
        else case symbol_name (quote p) of Inl e \<Rightarrow> Inl e
        | Inr qn \<Rightarrow>
          if an = qn then
            (if \<not> amount (quote p) > 0 then Inl (FC_Assert ''b.quote.amount.value > 0'')
             else let result = u128 (u128 (amount a) * u128 (amount (base p))) div u128 (amount (quote p))
                  in if result \<ge> 2 ^ 64 then Inl (FC_Assert ''result.hi == 0'')
                     else Inr (mk_asset (i64 result) (symbol (base p))))
          else Inl (FC_Assert ''invalid asset * price''))"

section \<open>Strings\<close>

text \<open>
  \<open>fc_to_string\<close>, \<open>fc_to_int64\<close> and \<open>fc_trim\<close> stand for the functions of the \<open>fc\<close>
  library of those names.
\<close>

definition to_string :: "(int \<Rightarrow> string) \<Rightarrow> asset \<Rightarrow> string result" where
  "to_string fc_to_string a =
     (case precision a of Inl e \<Rightarrow> Inl e
      | Inr prec \<Rightarrow>
        (let whole = fc_to_string (amount a sdiv prec);
             res = (if prec > 1
                    then whole @ ''.'' @ drop 1 (fc_to_string (prec + amount a smod prec))
                    else whole)
         in case symbol_name a of Inl e \<Rightarrow> Inl e | Inr n \<Rightarrow> Inr (res @ '' '' @ n)))"

definition symbol_of_bytes :: "nat \<Rightarrow> string \<Rightarrow> 64 word" where
  "symbol_of_bytes d name =
     foldr (\<lambda>b w. push_bit 8 w OR of_nat b) (d # map of_char name) 0"

definition from_string :: "(string \<Rightarrow> string) \<Rightarrow> (string \<Rightarrow> int result) \<Rightarrow> string \<Rightarrow> asset result" where
  "from_string fc_trim fc_to_int64 from =
     (let s = fc_trim from
      in case index_of (CHR '' '') s of None \<Rightarrow> Inl (FC_Assert ''space_pos != std::string::npos'')
      | Some space_pos \<Rightarrow>
        (case
           (case index_of (CHR ''.'') s of
              Some dot_pos \<Rightarrow>
                if \<not> space_pos > dot_pos then Inl (FC_Assert ''space_pos > dot_pos'')
                else let intpart = take dot_pos s;
                         fractpart = ''1'' @ take (space_pos - dot_pos - 1) (drop (dot_pos + 1) s);
                         d = (length fractpart - 1) mod 256
                     in if \<not> d < 15 then Inl (FC_Assert ''d < 15'')
                     else case fc_to_int64 intpart of Inl e \<Rightarrow> Inl e
                     | Inr ip \<Rightarrow> case fc_to_int64 fractpart of Inl e \<Rightarrow> Inl e
                     | Inr fp \<Rightarrow>
                         Inr (d, i64 (i64 (i64 (ip * precision_table ! d) + fp) - precision_table ! d))
            | None \<Rightarrow>
                (case fc_to_int64 (take space_pos s) of Inl e \<Rightarrow> Inl e
                 | Inr ip \<Rightarrow> Inr (0, ip)))
         of Inl e \<Rightarrow> Inl e
         | Inr (d, v) \<Rightarrow>
           (let name = drop (space_pos + 1) s
            in if length name > 6 then Inl (FC_Assert ''symbol_size <= 6'')
               else Inr (mk_asset v (symbol_of_bytes d name)))))"

definition is_blank :: "char \<Rightarrow> bool" where
  "is_blank c = (c = CHR '' '' \<or> (9 \<le> (of_char c :: nat) \<and> (of_char c :: nat) \<le> 13))"

text \<open>What the code relies on: decimal notation that reads back, and trimming that only drops blanks.\<close>

locale decimal_io =
  fixes fc_to_string :: "int \<Rightarrow> string"
    and fc_to_int64 :: "string \<Rightarrow> int result"
    and fc_trim :: "string \<Rightarrow> string"
  assumes read_back: "0 \<le> n \<Longrightarrow> n < 2 ^ 63 \<Longrightarrow> fc_to_int64 (fc_to_string n) = Inr n"
    and only_digits: "0 \<le> n \<Longrightarrow> c \<in> set (fc_to_string n) \<Longrightarrow> c \<in> set ''0123456789''"
    and not_empty: "fc_to_string n \<noteq> []"
    and leading_one: "0 \<le> f \<Longrightarrow> f < 10 ^ d \<Longrightarrow>
          \<exists>ds. fc_to_string (10 ^ d + f) = CHR ''1'' # ds \<and> length ds = d"
    and trim_id: "s \<noteq> [] \<Longrightarrow> \<not> is_blank (hd s) \<Longrightarrow> \<not> is_blank (last s) \<Longrightarrow> fc_trim s = s"

lemma bit_byte: "b < 256 \<Longrightarrow> bit (b::nat) n \<Longrightarrow> n < 8"
proof -
  assume b: "b < 256" and n: "bit b n"
  have "take_bit 8 b = b" using b by (simp add: take_bit_nat_eq_self_iff)
  with n show ?thesis by (metis bit_take_bit_iff)
qed

lemma symbol_byte_zero: "b < 256 \<Longrightarrow> symbol_byte 0 (push_bit 8 w OR of_nat b) = b"
proof -
  assume b: "b < 256"
  have "take_bit 8 (push_bit 8 w OR of_nat b :: 64 word) = of_nat b"
    using bit_byte [OF b] by (auto intro!: bit_eqI simp: bit_simps)
  with b show ?thesis by (simp add: symbol_byte_def unat_of_nat)
qed

lemma symbol_byte_Suc:
  "b < 256 \<Longrightarrow> i < 7 \<Longrightarrow> symbol_byte (Suc i) (push_bit 8 w OR of_nat b) = symbol_byte i w"
proof -
  assume b: "b < 256" and i: "i < 7"
  have "\<not> bit b (8 + 8 * i + n)" for n using bit_byte [OF b, of "8 + 8 * i + n"] by auto
  with i have "take_bit 8 (drop_bit (8 * Suc i) (push_bit 8 w OR of_nat b :: 64 word))
      = take_bit 8 (drop_bit (8 * i) w)"
    by (auto intro!: bit_eqI simp: bit_simps)
  then show ?thesis by (simp add: symbol_byte_def)
qed

lemma symbol_byte_of_bytes:
  "i < 8 \<Longrightarrow> (\<forall>b \<in> set bs. b < 256) \<Longrightarrow>
   symbol_byte i (foldr (\<lambda>b w. push_bit 8 w OR of_nat b) bs 0) = (if i < length bs then bs ! i else 0)"
proof (induction bs arbitrary: i)
  case Nil
  then show ?case by (simp add: symbol_byte_def)
next
  case (Cons b bs)
  then show ?case
    by (cases i) (simp_all add: symbol_byte_zero symbol_byte_Suc)
qed

lemma decimals_symbol_of_bytes:
  "d < 15 \<Longrightarrow> symbol a = symbol_of_bytes d name \<Longrightarrow> decimals a = Inr d"
  using symbol_byte_of_bytes [of 0 "d # map of_char name"]
  by (simp add: decimals_def symbol_of_bytes_def del: foldr.simps)

lemma of_char_pos: "c \<noteq> CHR 0x00 \<Longrightarrow> 0 < (of_char c :: nat)"
proof (rule ccontr)
  assume c: "c \<noteq> CHR 0x00" and "\<not> 0 < (of_char c :: nat)"
  then have "char_of (of_char c :: nat) = char_of (0::nat)" by simp
  moreover have "char_of (0::nat) = CHR 0x00" by (simp add: char_of_def)
  ultimately have "c = CHR 0x00" by (simp only: char_of_char)
  with c show False by simp
qed

lemma symbol_name_symbol_of_bytes:
  assumes "d < 15" and "length name \<le> 6" and "CHR 0x00 \<notin> set name"
    and "symbol a = symbol_of_bytes d name"
  shows "symbol_name a = Inr name"
proof -
  let ?bs = "map of_char name :: nat list"
  have byte: "symbol_byte i (symbol a) = (if i < Suc (length name) then (d # ?bs) ! i else 0)" if "i < 8" for i
    using symbol_byte_of_bytes [OF that, of "d # ?bs"] assms(1,4)
    by (simp add: symbol_of_bytes_def del: foldr.simps)
  have seven: "symbol_byte 7 (symbol a) = 0" using byte [of 7] assms(2) by simp
  have "map (\<lambda>i. symbol_byte i (symbol a)) [1..<8] = ?bs @ replicate (7 - length name) 0"
    by (rule nth_equalityI) (use assms(2) in \<open>auto simp: byte nth_append\<close>)
  moreover have "takeWhile (\<lambda>b. b \<noteq> 0) (?bs @ replicate (7 - length name) 0) = ?bs"
  proof -
    have "\<forall>b \<in> set ?bs. b \<noteq> 0"
      using assms(3) by (auto intro!: of_char_pos)
    then have "takeWhile (\<lambda>b. b \<noteq> 0) (?bs @ replicate (7 - length name) 0)
        = ?bs @ takeWhile (\<lambda>b. b \<noteq> 0) (replicate (7 - length name) 0)"
      by (intro takeWhile_append2) blast
    then show ?thesis by (simp add: takeWhile_replicate)
  qed
  ultimately show ?thesis using seven by (simp add: symbol_name_def o_def)
qed


lemma precision_table_power: "d < 15 \<Longrightarrow> precision_table ! d = 10 ^ d"
proof -
  have "\<forall>d \<in> set [0..<15]. precision_table ! d = 10 ^ d" by code_simp
  then show "d < 15 \<Longrightarrow> ?thesis" by simp
qed

context decimal_io
begin

lemma digits_clean:
  assumes "0 \<le> n"
  shows "CHR '' '' \<notin> set (fc_to_string n)" and "CHR ''.'' \<notin> set (fc_to_string n)"
    and "\<not> is_blank (hd (fc_to_string n))"
proof -
  have hd: "hd (fc_to_string n) \<in> set ''0123456789''"
    using only_digits [OF assms] not_empty by (metis list.set_sel(1))
  then show "\<not> is_blank (hd (fc_to_string n))" by (auto simp: is_blank_def)
  show "CHR '' '' \<notin> set (fc_to_string n)" and "CHR ''.'' \<notin> set (fc_to_string n)"
    using only_digits [OF assms] by fastforce+
qed

lemma roundtrip_whole:
  assumes "0 \<le> amount a" and "amount a < 2 ^ 63" and sym: "symbol a = symbol_of_bytes 0 name"
    and name: "name \<noteq> []" "length name \<le> 6" "CHR 0x00 \<notin> set name" "CHR ''.'' \<notin> set name"
      "\<not> is_blank (last name)"
  shows "to_string fc_to_string a = Inr (fc_to_string (amount a) @ '' '' @ name)"
    and "from_string fc_trim fc_to_int64 (fc_to_string (amount a) @ '' '' @ name) = Inr a"
proof -
  let ?w = "fc_to_string (amount a)"
  have prec: "precision a = Inr 1"
    using decimals_symbol_of_bytes [OF _ sym] by (simp add: precision_def precision_table_power)
  show "to_string fc_to_string a = Inr (?w @ '' '' @ name)"
    using prec symbol_name_symbol_of_bytes [OF _ name(2,3) sym]
    by (simp add: to_string_def Let_def sdiv_nonneg assms(1))
  have trim: "fc_trim (?w @ '' '' @ name) = ?w @ '' '' @ name"
    using name(1,5) digits_clean(3) [OF assms(1)] not_empty by (intro trim_id) auto
  have "index_of (CHR '' '') (?w @ '' '' @ name) = Some (length ?w)"
    using digits_clean(1) [OF assms(1)] by (simp add: index_of_append)
  moreover have "index_of (CHR ''.'') (?w @ '' '' @ name) = None"
    using digits_clean(2) [OF assms(1)] name(4) by (simp add: index_of_None)
  ultimately show "from_string fc_trim fc_to_int64 (?w @ '' '' @ name) = Inr a"
    using trim read_back [OF assms(1,2)] name(2) sym
    by (simp add: from_string_def Let_def mk_asset_def)
qed

lemma roundtrip_fraction:
  assumes nn: "0 \<le> amount a" and "amount a < 2 ^ 63" and sym: "symbol a = symbol_of_bytes d name"
    and d: "0 < d" "d < 15"
    and name: "name \<noteq> []" "length name \<le> 6" "CHR 0x00 \<notin> set name" "CHR ''.'' \<notin> set name"
      "\<not> is_blank (last name)"
  shows "\<exists>s. to_string fc_to_string a = Inr s \<and> from_string fc_trim fc_to_int64 s = Inr a"
proof -
  let ?P = "10 ^ d :: int"
  define q f where "q = amount a div ?P" and "f = amount a mod ?P"
  have P: "1 < ?P" using d(1) by simp
  have Pb: "?P \<le> 10 ^ 14" using d(2) by (intro power_increasing) auto
  have q: "0 \<le> q" "q < 2 ^ 63"
  proof -
    show "0 \<le> q" using nn P by (simp add: q_def pos_imp_zdiv_nonneg_iff)
    have "q \<le> amount a" using zdiv_mono2 [of "amount a" 1 ?P] nn P by (simp add: q_def)
    then show "q < 2 ^ 63" using assms(2) by simp
  qed
  have f: "0 \<le> f" "f < ?P" using P by (simp_all add: f_def)
  obtain ds where ds: "fc_to_string (?P + f) = CHR ''1'' # ds" "length ds = d"
    using leading_one [OF f] by blast
  have Pf: "0 \<le> ?P + f" "?P + f < 2 ^ 63" using f P Pb by auto
  have ds_clean: "CHR '' '' \<notin> set ds" "CHR ''.'' \<notin> set ds"
    using digits_clean(1,2) [OF Pf(1)] ds(1) by auto
  let ?w = "fc_to_string q"
  let ?s = "?w @ ''.'' @ ds @ '' '' @ name"
  have prec: "precision a = Inr ?P"
    using decimals_symbol_of_bytes [OF d(2) sym] d(2) by (simp add: precision_def precision_table_power)
  have ts: "to_string fc_to_string a = Inr ?s"
    using prec symbol_name_symbol_of_bytes [OF d(2) name(2,3) sym] P nn ds(1)
    by (simp add: to_string_def Let_def sdiv_nonneg smod_nonneg q_def f_def)
  have trim: "fc_trim ?s = ?s"
    using name(1,5) digits_clean(3) [OF q(1)] not_empty by (intro trim_id) auto
  have sp: "index_of (CHR '' '') ?s = Some (length ?w + 1 + d)"
    using digits_clean(1) [OF q(1)] ds_clean(1) ds(2)
    by (simp add: index_of_append)
  have dot: "index_of (CHR ''.'') ?s = Some (length ?w)"
    using digits_clean(2) [OF q(1)] by (simp add: index_of_append)
  have "from_string fc_trim fc_to_int64 ?s =
      Inr (mk_asset (i64 (q * ?P + (?P + f) - ?P)) (symbol_of_bytes d name))"
    using trim sp dot read_back [OF q] read_back [OF Pf] ds d(2) name(2)
    by (simp add: from_string_def Let_def precision_table_power)
  also have "q * ?P + (?P + f) - ?P = amount a"
    using div_mult_mod_eq [of "amount a" ?P] unfolding q_def f_def by linarith
  finally have "from_string fc_trim fc_to_int64 ?s = Inr a"
    using nn assms(2) sym by (simp add: mk_asset_def)
  with ts show ?thesis by blast
qed

end

text \<open>The standard decimal notation provides what the code relies on.\<close>

definition dec_string :: "int \<Rightarrow> string" where
  "dec_string n = (if n < 0 then ''-'' @ nat_digits (nat (- n)) else nat_digits (nat n))"

definition dec_int64 :: "string \<Rightarrow> int result" where
  "dec_int64 s =
     (if s \<noteq> [] \<and> list_all is_digit s then Inr (int (digits_value s))
      else if s \<noteq> [] \<and> hd s = CHR ''-'' \<and> tl s \<noteq> [] \<and> list_all is_digit (tl s)
      then Inr (- int (digits_value (tl s)))
      else Inl (FC_Assert ''Couldn't parse int64_t''))"

definition trim_blanks :: "string \<Rightarrow> string" where
  "trim_blanks s = rev (dropWhile is_blank (rev (dropWhile is_blank s)))"

interpretation dec: decimal_io dec_string dec_int64 trim_blanks
proof (unfold_locales, goal_cases)
  case (1 n)
  then show ?case
    using nat_digits_all [of _ "nat n"] by (auto simp: dec_string_def dec_int64_def list_all_iff)
next
  case (2 n c)
  then show ?case using nat_digits_all [of c "nat n"] by (simp add: dec_string_def is_digit_def)
next
  case (3 n) show ?case by (simp add: dec_string_def)
next
  case (4 f d)
  then have "10 ^ d \<le> nat (10 ^ d + f)" "nat (10 ^ d + f) < 2 * 10 ^ d"
    by (simp_all add: nat_add_distrib nat_power_eq)
  moreover have "\<not> 10 ^ d + f < 0" using 4(1) by (simp add: not_less)
  ultimately show ?case using nat_digits_leading_one by (simp add: dec_string_def)
next
  case (5 s)
  then have "dropWhile is_blank s = s" by (cases s) simp_all
  moreover have "dropWhile is_blank (rev s) = rev s"
    using 5 by (cases "rev s") (auto simp: last_rev hd_rev dest: arg_cong [where f = rev])
  ultimately show ?case by (simp add: trim_blanks_def)
qed

section \<open>Properties\<close>

lemma token_symbol_bytes: "TOKEN_SYMBOL = symbol_of_bytes 3 ''VIZ''"
  by (simp add: TOKEN_SYMBOL_def symbol_of_bytes_def)

lemma shares_symbol_bytes: "SHARES_SYMBOL = symbol_of_bytes 6 ''SHARES''"
  by (simp add: SHARES_SYMBOL_def symbol_of_bytes_def)

lemma symbol_name_token [simp]: "symbol a = TOKEN_SYMBOL \<Longrightarrow> symbol_name a = Inr ''VIZ''"
  by (rule symbol_name_symbol_of_bytes [of 3]) (simp_all add: token_symbol_bytes)

lemma symbol_name_shares [simp]: "symbol a = SHARES_SYMBOL \<Longrightarrow> symbol_name a = Inr ''SHARES''"
  by (rule symbol_name_symbol_of_bytes [of 6]) (simp_all add: shares_symbol_bytes)

lemma mult_bound: "0 \<le> x \<Longrightarrow> x < 2 ^ 63 \<Longrightarrow> 0 \<le> y \<Longrightarrow> y < 2 ^ 63 \<Longrightarrow> x * y < (2::int) ^ 126"
proof -
  assume a: "0 \<le> x" "x < 2 ^ 63" "0 \<le> y" "y < 2 ^ 63"
  have "x * y \<le> 2 ^ 63 * y" using a by (intro mult_right_mono) auto
  also have "\<dots> < 2 ^ 63 * 2 ^ 63" using a by simp
  finally show ?thesis by simp
qed

lemma u128_mult [simp]:
  "0 \<le> x \<Longrightarrow> x < 2 ^ 63 \<Longrightarrow> 0 \<le> y \<Longrightarrow> y < 2 ^ 63 \<Longrightarrow> u128 (x * y) = x * y"
  using mult_bound [of x y] by simp

definition convert :: "int \<Rightarrow> int \<Rightarrow> int \<Rightarrow> 64 word \<Rightarrow> asset result" where
  "convert n num den s =
     (if n * num div den \<ge> 2 ^ 64 then Inl (FC_Assert ''result.hi == 0'')
      else Inr (mk_asset (i64 (n * num div den)) s))"

lemma times_price_token:
  assumes "symbol a = TOKEN_SYMBOL" "symbol (base p) = SHARES_SYMBOL" "symbol (quote p) = TOKEN_SYMBOL"
    and "0 \<le> amount a" "amount a < 2 ^ 63" "0 \<le> amount (base p)" "amount (base p) < 2 ^ 63"
    and "0 < amount (quote p)" "amount (quote p) < 2 ^ 63"
  shows "asset_times_price a p = convert (amount a) (amount (base p)) (amount (quote p)) SHARES_SYMBOL"
  using assms by (simp add: asset_times_price_def convert_def Let_def)

lemma times_price_shares:
  assumes "symbol a = SHARES_SYMBOL" "symbol (base p) = SHARES_SYMBOL" "symbol (quote p) = TOKEN_SYMBOL"
    and "0 \<le> amount a" "amount a < 2 ^ 63" "0 < amount (base p)" "amount (base p) < 2 ^ 63"
    and "0 \<le> amount (quote p)" "amount (quote p) < 2 ^ 63"
  shows "asset_times_price a p = convert (amount a) (amount (quote p)) (amount (base p)) TOKEN_SYMBOL"
  using assms by (simp add: asset_times_price_def convert_def Let_def)

text \<open>
  Two conversions in a row at the same price round down twice: the way there and back never
  returns more than was put in.
\<close>

lemma floor_there_and_back:
  assumes "0 < (v::int)" "0 < c" "0 \<le> n"
  shows "(n * v div c) * c div v \<le> n"
proof -
  have "(n * v div c) * c \<le> n * v" using assms by (simp add: minus_mod_eq_div_mult [symmetric])
  then have "(n * v div c) * c div v \<le> n * v div v" using assms by (intro zdiv_mono1) auto
  then show ?thesis using assms by simp
qed

text \<open>C18: converting tokens to shares and the shares back to tokens at one price never pays out more
  tokens than were converted.\<close>

theorem price_conversion_no_profit:
  assumes "symbol a = TOKEN_SYMBOL" "symbol (base p) = SHARES_SYMBOL" "symbol (quote p) = TOKEN_SYMBOL"
    and "0 \<le> amount a" "amount a < 2 ^ 63" "0 < amount (base p)" "amount (base p) < 2 ^ 63"
    and "0 < amount (quote p)" "amount (quote p) < 2 ^ 63"
    and "amount a * amount (base p) div amount (quote p) < 2 ^ 63"
  shows "\<exists>s t. asset_times_price a p = Inr s \<and> asset_times_price s p = Inr t \<and>
           symbol s = SHARES_SYMBOL \<and> symbol t = TOKEN_SYMBOL \<and> 0 \<le> amount t \<and> amount t \<le> amount a"
proof -
  let ?r = "amount a * amount (base p) div amount (quote p)"
  have r: "0 \<le> ?r" using assms by (intro pos_imp_zdiv_nonneg_iff [THEN iffD2]) auto
  have le: "?r * amount (quote p) div amount (base p) \<le> amount a"
    using assms by (intro floor_there_and_back) auto
  have nn: "0 \<le> ?r * amount (quote p) div amount (base p)"
    using assms r by (intro pos_imp_zdiv_nonneg_iff [THEN iffD2]) auto
  have s: "asset_times_price a p = Inr (mk_asset ?r SHARES_SYMBOL)"
    using assms r by (simp add: times_price_token convert_def)
  have "asset_times_price (mk_asset ?r SHARES_SYMBOL) p
      = Inr (mk_asset (?r * amount (quote p) div amount (base p)) TOKEN_SYMBOL)"
    using assms r le nn by (simp add: times_price_shares convert_def)
  with s le nn show ?thesis by simp
qed

theorem price_conversion_no_profit_witness:
  "\<exists>s t. asset_times_price (mk_asset 1001 TOKEN_SYMBOL)
             \<lparr>base = mk_asset 7000 SHARES_SYMBOL, quote = mk_asset 3000 TOKEN_SYMBOL\<rparr> = Inr s \<and>
         asset_times_price s
             \<lparr>base = mk_asset 7000 SHARES_SYMBOL, quote = mk_asset 3000 TOKEN_SYMBOL\<rparr> = Inr t \<and>
         amount t \<le> 1001"
  using price_conversion_no_profit [of "mk_asset 1001 TOKEN_SYMBOL"
    "\<lparr>base = mk_asset 7000 SHARES_SYMBOL, quote = mk_asset 3000 TOKEN_SYMBOL\<rparr>"]
  by auto

text \<open>C19: an asset with a non-negative amount prints to a string that parses back to the same asset, for
  every number of decimals and every name the symbol can hold.\<close>

theorem asset_string_roundtrip:
  assumes "decimal_io fc_to_string fc_to_int64 fc_trim"
    and "0 \<le> amount a" "amount a < 2 ^ 63" "symbol a = symbol_of_bytes d name" "d < 15"
    and "name \<noteq> []" "length name \<le> 6" "CHR 0x00 \<notin> set name" "CHR ''.'' \<notin> set name"
    and "\<not> is_blank (last name)"
  shows "\<exists>s. to_string fc_to_string a = Inr s \<and> from_string fc_trim fc_to_int64 s = Inr a"
proof (cases "d = 0")
  case True
  then show ?thesis using decimal_io.roundtrip_whole [OF assms(1), of a name] assms by blast
next
  case False
  then show ?thesis using decimal_io.roundtrip_fraction [OF assms(1), of a d name] assms by blast
qed

theorem asset_string_roundtrip_witness:
  "\<exists>s. to_string dec_string (mk_asset 7005 TOKEN_SYMBOL) = Inr s \<and>
       from_string trim_blanks dec_int64 s = Inr (mk_asset 7005 TOKEN_SYMBOL)"
proof (rule asset_string_roundtrip [OF dec.decimal_io_axioms, where d = 3 and name = "''VIZ''"])
  show "symbol (mk_asset 7005 TOKEN_SYMBOL) = symbol_of_bytes 3 ''VIZ''"
    by (simp add: token_symbol_bytes)
qed (simp_all add: is_blank_def)

text \<open>Negative amounts do not survive the string form: one thousandth below zero prints as
  0.99, and the text -1.500 reads as minus one half.\<close>

theorem asset_string_negative_wrong:
  "to_string dec_string (mk_asset (-1) TOKEN_SYMBOL) = Inr ''0.99 VIZ'' \<and>
   from_string trim_blanks dec_int64 ''-1.500 VIZ'' = Inr (mk_asset (-500) TOKEN_SYMBOL)"
  by code_simp

end
