(* ===== verification/Protocol_Operations.thy ===== *)
theory Protocol_Operations
  imports Protocol_Authority Protocol_Asset
begin

text \<open>
  The operations users can put into a transaction (\<open>protocol/chain_operations.hpp\<close>,
  \<open>protocol/proposal_operations.hpp\<close>): one record per operation struct, its stateless
  \<open>validate\<close> (\<open>protocol/chain_operations.cpp\<close>, \<open>protocol/proposal_operations.cpp\<close>) as a list of
  checks of which the first failure is thrown, and the accounts whose authority it needs.  The
  unused \<open>extensions\<close> fields carry no data and are left out, except the beneficiaries of a content
  operation.  Times are seconds.  \<open>fc::is_utf8\<close> and \<open>fc::json::is_valid\<close> belong to the fc library
  and are fields of \<open>fc_text\<close>, an argument of the definitions that call them.
\<close>

section \<open>Shared checks\<close>

record fc_text =
  is_utf8 :: "string \<Rightarrow> bool"
  json_is_valid :: "string \<Rightarrow> bool"

definition validate_permlink :: "fc_text \<Rightarrow> string \<Rightarrow> unit result" where
  "validate_permlink fc permlink = all_ok
     [fc_assert (length permlink < CHAIN_MAX_URL_LENGTH) ''permlink is too long'',
      fc_assert (is_utf8 fc permlink) ''permlink not formatted in UTF8'']"

definition validate_domain_name :: "string \<Rightarrow> string \<Rightarrow> unit result" where
  "validate_domain_name name creator =
     fc_assert (is_valid_domain_name name creator) ''Domain name is invalid''"

definition validate_create_account_name :: "string \<Rightarrow> unit result" where
  "validate_create_account_name name =
     fc_assert (is_valid_create_account_name name) ''Account name is invalid''"

definition validate_account_name :: "string \<Rightarrow> unit result" where
  "validate_account_name name = fc_assert (is_valid_account_name name) ''Account name is invalid''"

definition validate_json_metadata :: "fc_text \<Rightarrow> string \<Rightarrow> unit result" where
  "validate_json_metadata fc json_metadata =
     (if length json_metadata > 0 then all_ok
        [fc_assert (is_utf8 fc json_metadata) ''JSON Metadata not formatted in UTF8'',
         fc_assert (json_is_valid fc json_metadata) ''JSON Metadata not valid JSON'']
      else Inr ())"

definition is_asset_type :: "asset \<Rightarrow> 64 word \<Rightarrow> bool" where
  "is_asset_type a s = (symbol a = s)"

lemma validate_account_name_Inr [run_simps]:
  "validate_account_name n = Inr u \<longleftrightarrow> is_valid_account_name n"
  by (simp add: validate_account_name_def)

section \<open>Accounts\<close>

record account_create_operation =
  ac_fee :: asset
  ac_delegation :: asset
  ac_creator :: account_name_type
  ac_new_account_name :: account_name_type
  ac_master :: authority
  ac_active :: authority
  ac_regular :: authority
  ac_memo_key :: public_key_type
  ac_json_metadata :: string
  ac_referrer :: account_name_type

definition validate_account_create :: "fc_text \<Rightarrow> account_create_operation \<Rightarrow> unit result" where
  "validate_account_create fc o' = all_ok
     [validate_create_account_name (ac_new_account_name o'),
      validate_account_name (ac_new_account_name o'),
      validate_account_name (ac_creator o'),
      validate_domain_name (ac_new_account_name o') (ac_creator o'),
      fc_assert (is_asset_type (ac_fee o') TOKEN_SYMBOL) ''Account creation fee must be TOKEN_SYMBOL'',
      fc_assert (is_asset_type (ac_delegation o') SHARES_SYMBOL) ''Delegation must be SHARES'',
      fc_assert (amount (ac_fee o') \<ge> 0) ''Account creation fee cannot be negative'',
      fc_assert (amount (ac_delegation o') \<ge> 0) ''Delegation cannot be negative'',
      authority_validate (ac_master o'),
      authority_validate (ac_active o'),
      authority_validate (ac_regular o'),
      validate_json_metadata fc (ac_json_metadata o')]"

record account_update_operation =
  au_account :: account_name_type
  au_master :: "authority option"
  au_active :: "authority option"
  au_regular :: "authority option"
  au_memo_key :: public_key_type
  au_json_metadata :: string

definition validate_account_update :: "fc_text \<Rightarrow> account_update_operation \<Rightarrow> unit result" where
  "validate_account_update fc o' = all_ok
     [validate_account_name (au_account o'),
      validate_json_metadata fc (au_json_metadata o')]"

record account_metadata_operation =
  am_account :: account_name_type
  am_json_metadata :: string

definition validate_account_metadata :: "fc_text \<Rightarrow> account_metadata_operation \<Rightarrow> unit result" where
  "validate_account_metadata fc o' = all_ok
     [validate_account_name (am_account o'),
      fc_assert (length (am_json_metadata o') > 0) ''json_metadata can't be empty'',
      validate_json_metadata fc (am_json_metadata o')]"

section \<open>Content and beneficiaries\<close>

record beneficiary_route_type =
  ben_account :: account_name_type
  ben_weight :: int

text \<open>
  The loops over beneficiaries keep the running sum of the weights in a \<open>uint32_t\<close> and check it
  after every addition.
\<close>

fun validate_beneficiaries_from :: "int \<Rightarrow> beneficiary_route_type list \<Rightarrow> unit result" where
  "validate_beneficiaries_from acc [] = Inr ()"
| "validate_beneficiaries_from acc (b # bs) = all_ok
     [validate_account_name (ben_account b),
      fc_assert (ben_weight b \<le> CHAIN_100_PERCENT)
        ''Cannot allocate more than 100% of rewards to one account'',
      fc_assert (u32 (acc + ben_weight b) \<le> CHAIN_100_PERCENT)
        ''Cannot allocate more than 100% of rewards to a content'',
      validate_beneficiaries_from (u32 (acc + ben_weight b)) bs]"

fun validate_sorted_beneficiaries ::
  "int \<Rightarrow> beneficiary_route_type \<Rightarrow> beneficiary_route_type list \<Rightarrow> unit result" where
  "validate_sorted_beneficiaries acc prev [] = Inr ()"
| "validate_sorted_beneficiaries acc prev (b # bs) = all_ok
     [validate_account_name (ben_account b),
      fc_assert (ben_weight b \<le> CHAIN_100_PERCENT)
        ''Cannot allocate more than 100% of rewards to one account'',
      fc_assert (u32 (acc + ben_weight b) \<le> CHAIN_100_PERCENT)
        ''Cannot allocate more than 100% of rewards to a content'',
      fc_assert (ben_account prev < ben_account b)
        ''Benficiaries must be specified in sorted order (account ascending)'',
      validate_sorted_beneficiaries (u32 (acc + ben_weight b)) b bs]"

definition validate_content_payout_beneficiaries :: "beneficiary_route_type list \<Rightarrow> unit result" where
  "validate_content_payout_beneficiaries bens =
     (case bens of
        [] \<Rightarrow> Inl (FC_Assert ''Must specify at least one beneficiary'')
      | b # bs \<Rightarrow> all_ok
          [fc_assert (length bens < 128) ''Cannot specify more than 127 beneficiaries.'',
           validate_account_name (ben_account b),
           fc_assert (ben_weight b \<le> CHAIN_100_PERCENT)
             ''Cannot allocate more than 100% of rewards to one account'',
           fc_assert (u32 (ben_weight b) \<le> CHAIN_100_PERCENT)
             ''Cannot allocate more than 100% of rewards to a content'',
           validate_sorted_beneficiaries (u32 (ben_weight b)) b bs])"

record content_operation =
  co_parent_author :: account_name_type
  co_parent_permlink :: string
  co_author :: account_name_type
  co_permlink :: string
  co_title :: string
  co_body :: string
  co_curation_percent :: int
  co_json_metadata :: string
  co_extensions :: "beneficiary_route_type list list"

definition validate_content :: "fc_text \<Rightarrow> content_operation \<Rightarrow> unit result" where
  "validate_content fc o' = all_ok
     [fc_assert (length (co_title o') < 256) ''Title larger than size limit'',
      fc_assert (is_utf8 fc (co_title o')) ''Title not formatted in UTF8'',
      fc_assert (length (co_body o') > 0) ''Body is empty'',
      fc_assert (is_utf8 fc (co_body o')) ''Body not formatted in UTF8'',
      (if co_parent_author o' \<noteq> [] then validate_account_name (co_parent_author o') else Inr ()),
      validate_account_name (co_author o'),
      validate_permlink fc (co_parent_permlink o'),
      validate_permlink fc (co_permlink o'),
      fc_assert (co_curation_percent o' \<ge> 0) ''curation_percent >= 0'',
      fc_assert (co_curation_percent o' \<le> CHAIN_100_PERCENT) ''curation_percent <= CHAIN_100_PERCENT'',
      (if length (co_json_metadata o') > 0
       then fc_assert (json_is_valid fc (co_json_metadata o')) ''JSON Metadata not valid JSON''
       else Inr ()),
      all_ok (map validate_content_payout_beneficiaries (co_extensions o'))]"

record delete_content_operation =
  dc_author :: account_name_type
  dc_permlink :: string

definition validate_delete_content :: "fc_text \<Rightarrow> delete_content_operation \<Rightarrow> unit result" where
  "validate_delete_content fc o' = all_ok
     [validate_permlink fc (dc_permlink o'), validate_account_name (dc_author o')]"

record vote_operation =
  vo_voter :: account_name_type
  vo_author :: account_name_type
  vo_permlink :: string
  vo_weight :: int

definition validate_vote :: "fc_text \<Rightarrow> vote_operation \<Rightarrow> unit result" where
  "validate_vote fc o' = all_ok
     [validate_account_name (vo_voter o'),
      validate_account_name (vo_author o'),
      fc_assert (\<bar>vo_weight o'\<bar> \<le> CHAIN_100_PERCENT) ''Weight is not a percentage'',
      validate_permlink fc (vo_permlink o')]"

section \<open>Transfers, vesting and delegation\<close>

record transfer_operation =
  tr_from :: account_name_type
  tr_to :: account_name_type
  tr_amount :: asset
  tr_memo :: string

definition validate_transfer :: "fc_text \<Rightarrow> transfer_operation \<Rightarrow> unit result" where
  "validate_transfer fc o' = all_ok
     [validate_account_name (tr_from o'),
      validate_account_name (tr_to o'),
      fc_assert (symbol (tr_amount o') \<noteq> SHARES_SYMBOL) ''transferring of SHARES is not allowed.'',
      fc_assert (amount (tr_amount o') > 0) ''Cannot transfer a negative amount (aka: stealing)'',
      fc_assert (length (tr_memo o') < CHAIN_MAX_MEMO_LENGTH) ''Memo is too large'',
      fc_assert (is_utf8 fc (tr_memo o')) ''Memo is not UTF8'']"

record transfer_to_vesting_operation =
  tv_from :: account_name_type
  tv_to :: account_name_type
  tv_amount :: asset

definition validate_transfer_to_vesting :: "transfer_to_vesting_operation \<Rightarrow> unit result" where
  "validate_transfer_to_vesting o' = all_ok
     [validate_account_name (tv_from o'),
      fc_assert (is_asset_type (tv_amount o') TOKEN_SYMBOL) ''Amount must be TOKEN_SYMBOL'',
      (if tv_to o' \<noteq> [] then validate_account_name (tv_to o') else Inr ()),
      (case asset_gt (tv_amount o') (mk_asset 0 TOKEN_SYMBOL) of
         Inl e \<Rightarrow> Inl e
       | Inr gt \<Rightarrow> fc_assert gt ''Must transfer a nonzero amount'')]"

record withdraw_vesting_operation =
  wv_account :: account_name_type
  wv_vesting_shares :: asset

definition validate_withdraw_vesting :: "withdraw_vesting_operation \<Rightarrow> unit result" where
  "validate_withdraw_vesting o' = all_ok
     [validate_account_name (wv_account o'),
      fc_assert (is_asset_type (wv_vesting_shares o') SHARES_SYMBOL) ''Amount must be SHARES'',
      fc_assert (amount (wv_vesting_shares o') \<ge> 0) ''Cannot withdraw negative SHARES'']"

record set_withdraw_vesting_route_operation =
  wr_from_account :: account_name_type
  wr_to_account :: account_name_type
  wr_percent :: int
  wr_auto_vest :: bool

definition validate_set_withdraw_vesting_route ::
  "set_withdraw_vesting_route_operation \<Rightarrow> unit result" where
  "validate_set_withdraw_vesting_route o' = all_ok
     [validate_account_name (wr_from_account o'),
      validate_account_name (wr_to_account o'),
      fc_assert (0 \<le> wr_percent o' \<and> wr_percent o' \<le> CHAIN_100_PERCENT) ''Percent must be valid percent'']"

record delegate_vesting_shares_operation =
  dv_delegator :: account_name_type
  dv_delegatee :: account_name_type
  dv_vesting_shares :: asset

definition validate_delegate_vesting_shares :: "delegate_vesting_shares_operation \<Rightarrow> unit result" where
  "validate_delegate_vesting_shares o' = all_ok
     [validate_account_name (dv_delegator o'),
      validate_account_name (dv_delegatee o'),
      fc_assert (dv_delegator o' \<noteq> dv_delegatee o') ''You cannot delegate SHARES to yourself'',
      fc_assert (is_asset_type (dv_vesting_shares o') SHARES_SYMBOL) ''Delegation must be SHARES'',
      fc_assert (amount (dv_vesting_shares o') \<ge> 0) ''Delegation cannot be negative'']"

section \<open>Chain properties the witnesses vote on\<close>

record chain_properties_init =
  account_creation_fee :: asset
  maximum_block_size :: int
  create_account_delegation_ratio :: int
  create_account_delegation_time :: int
  min_delegation :: asset
  min_curation_percent :: int
  max_curation_percent :: int
  bandwidth_reserve_percent :: int
  bandwidth_reserve_below :: asset
  flag_energy_additional_cost :: int
  vote_accounting_min_rshares :: int
  committee_request_approve_min_percent :: int

record chain_properties_hf4 = chain_properties_init +
  inflation_witness_percent :: int
  inflation_ratio_committee_vs_reward_fund :: int
  inflation_recalc_period :: int

record chain_properties_hf6 = chain_properties_hf4 +
  data_operations_cost_additional_bandwidth :: int
  witness_miss_penalty_percent :: int
  witness_miss_penalty_duration :: int

record chain_properties_hf9 = chain_properties_hf6 +
  create_invite_min_balance :: asset
  committee_create_request_fee :: asset
  create_paid_subscription_fee :: asset
  account_on_sale_fee :: asset
  subaccount_on_sale_fee :: asset
  witness_declaration_fee :: asset
  withdraw_intervals :: int

definition validate_properties_init :: "'a chain_properties_init_scheme \<Rightarrow> unit result" where
  "validate_properties_init p = all_ok
     [fc_assert (amount (account_creation_fee p) \<ge> CHAIN_MIN_ACCOUNT_CREATION_FEE) ''account_creation_fee.amount'',
      fc_assert (symbol (account_creation_fee p) = TOKEN_SYMBOL) ''account_creation_fee.symbol'',
      fc_assert (maximum_block_size p \<ge> CHAIN_MIN_BLOCK_SIZE_LIMIT) ''maximum_block_size >= CHAIN_MIN_BLOCK_SIZE_LIMIT'',
      fc_assert (maximum_block_size p \<le> CHAIN_MAX_BLOCK_SIZE_LIMIT) ''maximum_block_size <= CHAIN_MAX_BLOCK_SIZE_LIMIT'',
      fc_assert (create_account_delegation_ratio p > 0) ''create_account_delegation_ratio > 0'',
      fc_assert (create_account_delegation_time p \<ge> 0) ''create_account_delegation_time >= 0'',
      fc_assert (create_account_delegation_time p \<ge> CHAIN_ENERGY_REGENERATION_SECONDS)
        ''create_account_delegation_time >= CHAIN_ENERGY_REGENERATION_SECONDS'',
      fc_assert (amount (min_delegation p) > 0) ''min_delegation.amount > 0'',
      fc_assert (symbol (min_delegation p) = TOKEN_SYMBOL) ''min_delegation.symbol == TOKEN_SYMBOL'',
      fc_assert (min_curation_percent p \<ge> 0) ''min_curation_percent >= 0'',
      fc_assert (max_curation_percent p \<le> CHAIN_100_PERCENT) ''max_curation_percent <= CHAIN_100_PERCENT'',
      fc_assert (min_curation_percent p \<le> max_curation_percent p) ''min_curation_percent <= max_curation_percent'',
      fc_assert (bandwidth_reserve_percent p \<ge> 0) ''bandwidth_reserve_percent >= 0'',
      fc_assert (bandwidth_reserve_percent p \<le> CHAIN_100_PERCENT) ''bandwidth_reserve_percent <= CHAIN_100_PERCENT'',
      fc_assert (amount (bandwidth_reserve_below p) \<ge> 0) ''bandwidth_reserve_below.amount >= 0'',
      fc_assert (symbol (bandwidth_reserve_below p) = SHARES_SYMBOL) ''bandwidth_reserve_below.symbol == SHARES_SYMBOL'',
      fc_assert (flag_energy_additional_cost p \<ge> 0) ''flag_energy_additional_cost >= 0'',
      fc_assert (flag_energy_additional_cost p \<le> CHAIN_100_PERCENT) ''flag_energy_additional_cost <= CHAIN_100_PERCENT'',
      fc_assert (committee_request_approve_min_percent p \<ge> 0) ''committee_request_approve_min_percent >= 0'',
      fc_assert (committee_request_approve_min_percent p \<le> CHAIN_100_PERCENT)
        ''committee_request_approve_min_percent <= CHAIN_100_PERCENT'']"

definition validate_properties_hf4 :: "'a chain_properties_hf4_scheme \<Rightarrow> unit result" where
  "validate_properties_hf4 p = all_ok
     [validate_properties_init p,
      fc_assert (inflation_witness_percent p \<ge> 0) ''inflation_witness_percent >= 0'',
      fc_assert (inflation_witness_percent p \<le> CHAIN_100_PERCENT) ''inflation_witness_percent <= CHAIN_100_PERCENT'',
      fc_assert (inflation_ratio_committee_vs_reward_fund p \<ge> 0) ''inflation_ratio_committee_vs_reward_fund >= 0'',
      fc_assert (inflation_ratio_committee_vs_reward_fund p \<le> CHAIN_100_PERCENT)
        ''inflation_ratio_committee_vs_reward_fund <= CHAIN_100_PERCENT'',
      fc_assert (inflation_recalc_period p \<ge> 0) ''inflation_recalc_period >= 0'',
      fc_assert (inflation_recalc_period p \<le> CHAIN_BLOCKS_PER_YEAR) ''inflation_recalc_period <= CHAIN_BLOCKS_PER_YEAR'']"

definition validate_properties_hf6 :: "'a chain_properties_hf6_scheme \<Rightarrow> unit result" where
  "validate_properties_hf6 p = all_ok
     [validate_properties_hf4 p,
      fc_assert (data_operations_cost_additional_bandwidth p \<ge> 0) ''data_operations_cost_additional_bandwidth >= 0'',
      fc_assert (witness_miss_penalty_percent p \<ge> 0) ''witness_miss_penalty_percent >= 0'',
      fc_assert (witness_miss_penalty_percent p \<le> CHAIN_100_PERCENT) ''witness_miss_penalty_percent <= CHAIN_100_PERCENT'',
      fc_assert (witness_miss_penalty_duration p \<ge> 0) ''witness_miss_penalty_duration >= 0'',
      fc_assert (witness_miss_penalty_duration p \<le> CHAIN_BLOCKS_PER_YEAR * CHAIN_BLOCK_INTERVAL)
        ''witness_miss_penalty_duration <= CHAIN_BLOCKS_PER_YEAR * CHAIN_BLOCK_INTERVAL'']"

definition validate_properties_hf9 :: "'a chain_properties_hf9_scheme \<Rightarrow> unit result" where
  "validate_properties_hf9 p = all_ok
     [validate_properties_hf6 p,
      fc_assert (amount (create_invite_min_balance p) > 0) ''create_invite_min_balance.amount > 0'',
      fc_assert (symbol (create_invite_min_balance p) = TOKEN_SYMBOL) ''create_invite_min_balance.symbol == TOKEN_SYMBOL'',
      fc_assert (amount (committee_create_request_fee p) > 0) ''committee_create_request_fee.amount > 0'',
      fc_assert (symbol (committee_create_request_fee p) = TOKEN_SYMBOL) ''committee_create_request_fee.symbol == TOKEN_SYMBOL'',
      fc_assert (amount (create_paid_subscription_fee p) > 0) ''create_paid_subscription_fee.amount > 0'',
      fc_assert (symbol (create_paid_subscription_fee p) = TOKEN_SYMBOL) ''create_paid_subscription_fee.symbol == TOKEN_SYMBOL'',
      fc_assert (amount (account_on_sale_fee p) > 0) ''account_on_sale_fee.amount > 0'',
      fc_assert (symbol (account_on_sale_fee p) = TOKEN_SYMBOL) ''account_on_sale_fee.symbol == TOKEN_SYMBOL'',
      fc_assert (amount (subaccount_on_sale_fee p) > 0) ''subaccount_on_sale_fee.amount > 0'',
      fc_assert (symbol (subaccount_on_sale_fee p) = TOKEN_SYMBOL) ''subaccount_on_sale_fee.symbol == TOKEN_SYMBOL'',
      fc_assert (amount (witness_declaration_fee p) > 0) ''witness_declaration_fee.amount > 0'',
      fc_assert (symbol (witness_declaration_fee p) = TOKEN_SYMBOL) ''witness_declaration_fee.symbol == TOKEN_SYMBOL'',
      fc_assert (withdraw_intervals p > 0) ''withdraw_intervals > 0'']"

text \<open>
  The assignments between the versions copy the fields of the source's version and keep the
  others of the destination.
\<close>

definition assign_init :: "'a chain_properties_init_scheme \<Rightarrow> 'b chain_properties_init_scheme
    \<Rightarrow> 'a chain_properties_init_scheme" where
  "assign_init dst src = chain_properties_init.extend (chain_properties_init.truncate src)
     (chain_properties_init.more dst)"

definition assign_hf4 :: "'a chain_properties_hf4_scheme \<Rightarrow> 'b chain_properties_hf4_scheme
    \<Rightarrow> 'a chain_properties_hf4_scheme" where
  "assign_hf4 dst src = chain_properties_hf4.extend (chain_properties_hf4.truncate src)
     (chain_properties_hf4.more dst)"

definition assign_hf6 :: "'a chain_properties_hf6_scheme \<Rightarrow> 'b chain_properties_hf6_scheme
    \<Rightarrow> 'a chain_properties_hf6_scheme" where
  "assign_hf6 dst src = chain_properties_hf6.extend (chain_properties_hf6.truncate src)
     (chain_properties_hf6.more dst)"

datatype versioned_chain_properties =
    Properties_init chain_properties_init
  | Properties_hf4 chain_properties_hf4
  | Properties_hf6 chain_properties_hf6
  | Properties_hf9 chain_properties_hf9

fun validate_versioned_properties :: "versioned_chain_properties \<Rightarrow> unit result" where
  "validate_versioned_properties (Properties_init p) = validate_properties_init p"
| "validate_versioned_properties (Properties_hf4 p) = validate_properties_hf4 p"
| "validate_versioned_properties (Properties_hf6 p) = validate_properties_hf6 p"
| "validate_versioned_properties (Properties_hf9 p) = validate_properties_hf9 p"

section \<open>Witnesses\<close>

record witness_update_operation =
  wu_owner :: account_name_type
  wu_url :: string
  wu_block_signing_key :: public_key_type

definition validate_witness_update :: "fc_text \<Rightarrow> witness_update_operation \<Rightarrow> unit result" where
  "validate_witness_update fc o' = all_ok
     [validate_account_name (wu_owner o'),
      fc_assert (length (wu_url o') > 0) ''URL size must be greater than 0'',
      fc_assert (length (wu_url o') < CHAIN_MAX_WITNESS_URL_LENGTH)
        ''URL size must be lesser than CHAIN_MAX_WITNESS_URL_LENGTH'',
      fc_assert (is_utf8 fc (wu_url o')) ''URL is not valid UTF8'']"

record chain_properties_update_operation =
  cp_owner :: account_name_type
  cp_props :: chain_properties_init

definition validate_chain_properties_update :: "chain_properties_update_operation \<Rightarrow> unit result" where
  "validate_chain_properties_update o' = all_ok
     [validate_account_name (cp_owner o'), validate_properties_init (cp_props o')]"

record versioned_chain_properties_update_operation =
  vp_owner :: account_name_type
  vp_props :: versioned_chain_properties

definition validate_versioned_chain_properties_update ::
  "versioned_chain_properties_update_operation \<Rightarrow> unit result" where
  "validate_versioned_chain_properties_update o' = all_ok
     [validate_account_name (vp_owner o'), validate_versioned_properties (vp_props o')]"

record account_witness_vote_operation =
  wvo_account :: account_name_type
  wvo_witness :: account_name_type
  wvo_approve :: bool

definition validate_account_witness_vote :: "account_witness_vote_operation \<Rightarrow> unit result" where
  "validate_account_witness_vote o' = all_ok
     [validate_account_name (wvo_account o'), validate_account_name (wvo_witness o')]"

record account_witness_proxy_operation =
  wp_account :: account_name_type
  wp_proxy :: account_name_type

definition validate_account_witness_proxy :: "account_witness_proxy_operation \<Rightarrow> unit result" where
  "validate_account_witness_proxy o' = all_ok
     [validate_account_name (wp_account o'),
      (if wp_proxy o' \<noteq> [] then validate_account_name (wp_proxy o') else Inr ()),
      fc_assert (wp_proxy o' \<noteq> wp_account o') ''Cannot proxy to self'']"

record custom_operation =
  cu_required_active_auths :: "account_name_type list"
  cu_required_regular_auths :: "account_name_type list"
  cu_id :: string
  cu_json :: string

definition validate_custom :: "fc_text \<Rightarrow> custom_operation \<Rightarrow> unit result" where
  "validate_custom fc o' = all_ok
     [fc_assert (length (cu_required_active_auths o') + length (cu_required_regular_auths o') > 0)
        ''at least one account must be specified'',
      fc_assert (length (cu_id o') \<le> 32) ''id is too long'',
      fc_assert (is_utf8 fc (cu_json o')) ''JSON Metadata not formatted in UTF8'',
      fc_assert (json_is_valid fc (cu_json o')) ''JSON Metadata not valid JSON'']"

section \<open>Escrow\<close>

record escrow_transfer_operation =
  et_from :: account_name_type
  et_to :: account_name_type
  et_agent :: account_name_type
  et_escrow_id :: int
  et_token_amount :: asset
  et_fee :: asset
  et_ratification_deadline :: int
  et_escrow_expiration :: int
  et_json_metadata :: string

definition validate_escrow_transfer :: "fc_text \<Rightarrow> escrow_transfer_operation \<Rightarrow> unit result" where
  "validate_escrow_transfer fc o' = all_ok
     [validate_account_name (et_from o'),
      validate_account_name (et_to o'),
      validate_account_name (et_agent o'),
      fc_assert (amount (et_fee o') \<ge> 0) ''fee cannot be negative'',
      fc_assert (amount (et_token_amount o') \<ge> 0) ''tokens amount cannot be negative'',
      fc_assert (et_from o' \<noteq> et_agent o' \<and> et_to o' \<noteq> et_agent o') ''agent must be a third party'',
      fc_assert (symbol (et_fee o') = TOKEN_SYMBOL) ''fee must be TOKEN_SYMBOL'',
      fc_assert (symbol (et_token_amount o') = TOKEN_SYMBOL) ''amount must be TOKEN_SYMBOL'',
      fc_assert (et_ratification_deadline o' < et_escrow_expiration o')
        ''ratification deadline must be before escrow expiration'',
      validate_json_metadata fc (et_json_metadata o')]"

record escrow_approve_operation =
  ea_from :: account_name_type
  ea_to :: account_name_type
  ea_agent :: account_name_type
  ea_who :: account_name_type
  ea_escrow_id :: int
  ea_approve :: bool

definition validate_escrow_approve :: "escrow_approve_operation \<Rightarrow> unit result" where
  "validate_escrow_approve o' = all_ok
     [validate_account_name (ea_from o'),
      validate_account_name (ea_to o'),
      validate_account_name (ea_agent o'),
      validate_account_name (ea_who o'),
      fc_assert (ea_who o' = ea_to o' \<or> ea_who o' = ea_agent o') ''to or agent must approve escrow'']"

record escrow_dispute_operation =
  ed_from :: account_name_type
  ed_to :: account_name_type
  ed_agent :: account_name_type
  ed_who :: account_name_type
  ed_escrow_id :: int

definition validate_escrow_dispute :: "escrow_dispute_operation \<Rightarrow> unit result" where
  "validate_escrow_dispute o' = all_ok
     [validate_account_name (ed_from o'),
      validate_account_name (ed_to o'),
      validate_account_name (ed_agent o'),
      validate_account_name (ed_who o'),
      fc_assert (ed_who o' = ed_from o' \<or> ed_who o' = ed_to o') ''who must be from or to'']"

record escrow_release_operation =
  er_from :: account_name_type
  er_to :: account_name_type
  er_agent :: account_name_type
  er_who :: account_name_type
  er_receiver :: account_name_type
  er_escrow_id :: int
  er_token_amount :: asset

definition validate_escrow_release :: "escrow_release_operation \<Rightarrow> unit result" where
  "validate_escrow_release o' = all_ok
     [validate_account_name (er_from o'),
      validate_account_name (er_to o'),
      validate_account_name (er_agent o'),
      validate_account_name (er_who o'),
      validate_account_name (er_receiver o'),
      fc_assert (er_who o' = er_from o' \<or> er_who o' = er_to o' \<or> er_who o' = er_agent o')
        ''who must be from or to or agent'',
      fc_assert (er_receiver o' = er_from o' \<or> er_receiver o' = er_to o') ''receiver must be from or to'',
      fc_assert (amount (er_token_amount o') \<ge> 0) ''amount cannot be negative'',
      fc_assert (amount (er_token_amount o') > 0) ''escrow must release a non-zero amount'',
      fc_assert (symbol (er_token_amount o') = TOKEN_SYMBOL) ''amount must be TOKEN_SYMBOL'']"

section \<open>Account recovery\<close>

record request_account_recovery_operation =
  rr_recovery_account :: account_name_type
  rr_account_to_recover :: account_name_type
  rr_new_master_authority :: authority

definition validate_request_account_recovery :: "request_account_recovery_operation \<Rightarrow> unit result" where
  "validate_request_account_recovery o' = all_ok
     [validate_account_name (rr_recovery_account o'),
      validate_account_name (rr_account_to_recover o'),
      authority_validate (rr_new_master_authority o')]"

record recover_account_operation =
  ra_account_to_recover :: account_name_type
  ra_new_master_authority :: authority
  ra_recent_master_authority :: authority

definition validate_recover_account :: "recover_account_operation \<Rightarrow> unit result" where
  "validate_recover_account o' = all_ok
     [validate_account_name (ra_account_to_recover o'),
      fc_assert (\<not> authority_eq (ra_new_master_authority o') (ra_recent_master_authority o'))
        ''Cannot set new master authority to the recent master authority'',
      fc_assert (\<not> is_impossible (ra_new_master_authority o')) ''new master authority cannot be impossible'',
      fc_assert (\<not> is_impossible (ra_recent_master_authority o')) ''recent master authority cannot be impossible'',
      fc_assert (weight_threshold (ra_new_master_authority o') \<noteq> 0) ''new master authority cannot be trivial'',
      authority_validate (ra_new_master_authority o'),
      authority_validate (ra_recent_master_authority o')]"

record change_recovery_account_operation =
  cr_account_to_recover :: account_name_type
  cr_new_recovery_account :: account_name_type

definition validate_change_recovery_account :: "change_recovery_account_operation \<Rightarrow> unit result" where
  "validate_change_recovery_account o' = all_ok
     [validate_account_name (cr_account_to_recover o'),
      validate_account_name (cr_new_recovery_account o')]"

section \<open>Committee requests and invites\<close>

record committee_worker_create_request_operation =
  cw_creator :: account_name_type
  cw_url :: string
  cw_worker :: account_name_type
  cw_required_amount_min :: asset
  cw_required_amount_max :: asset
  cw_duration :: int

definition validate_committee_worker_create_request ::
  "committee_worker_create_request_operation \<Rightarrow> unit result" where
  "validate_committee_worker_create_request o' = all_ok
     [fc_assert (length (cw_url o') > 0) ''URL size must be greater than 0'',
      fc_assert (length (cw_url o') < CHAIN_MAX_URL_LENGTH) ''URL size must be lesser than 256'',
      fc_assert (amount (cw_required_amount_min o') \<ge> 0) ''required_amount_min.amount >= 0'',
      fc_assert (symbol (cw_required_amount_min o') = TOKEN_SYMBOL) ''required_amount_min.symbol == TOKEN_SYMBOL'',
      fc_assert (amount (cw_required_amount_max o') > amount (cw_required_amount_min o'))
        ''required_amount_max.amount > required_amount_min.amount'',
      fc_assert (symbol (cw_required_amount_max o') = TOKEN_SYMBOL) ''required_amount_max.symbol == TOKEN_SYMBOL'',
      fc_assert (cw_duration o' \<ge> COMMITTEE_MIN_DURATION) ''duration >= COMMITTEE_MIN_DURATION'',
      fc_assert (cw_duration o' \<le> COMMITTEE_MAX_DURATION) ''duration <= COMMITTEE_MAX_DURATION'',
      fc_assert (amount (cw_required_amount_max o') \<le> COMMITTEE_MAX_REQUIRED_AMOUNT)
        ''required_amount_max.amount <= COMMITTEE_MAX_REQUIRED_AMOUNT'']"

record committee_worker_cancel_request_operation =
  cc_creator :: account_name_type
  cc_request_id :: int

record committee_vote_request_operation =
  cv_voter :: account_name_type
  cv_request_id :: int
  cv_vote_percent :: int

definition validate_committee_vote_request :: "committee_vote_request_operation \<Rightarrow> unit result" where
  "validate_committee_vote_request o' = all_ok
     [fc_assert (cv_vote_percent o' \<ge> - CHAIN_100_PERCENT) ''vote_percent >= -CHAIN_100_PERCENT'',
      fc_assert (cv_vote_percent o' \<le> CHAIN_100_PERCENT) ''vote_percent <= CHAIN_100_PERCENT'']"

record create_invite_operation =
  ci_creator :: account_name_type
  ci_balance :: asset
  ci_invite_key :: public_key_type

definition validate_create_invite :: "create_invite_operation \<Rightarrow> unit result" where
  "validate_create_invite o' = all_ok
     [validate_account_name (ci_creator o'),
      fc_assert (is_asset_type (ci_balance o') TOKEN_SYMBOL) ''Invite creation balance must be TOKEN_SYMBOL'',
      (case asset_gt (ci_balance o') (mk_asset 0 TOKEN_SYMBOL) of
         Inl e \<Rightarrow> Inl e
       | Inr gt \<Rightarrow> fc_assert gt ''Invite creation balance must be nonzero amount'')]"

record claim_invite_balance_operation =
  cb_initiator :: account_name_type
  cb_receiver :: account_name_type
  cb_invite_secret :: string

definition validate_claim_invite_balance :: "claim_invite_balance_operation \<Rightarrow> unit result" where
  "validate_claim_invite_balance o' = all_ok
     [validate_account_name (cb_initiator o'), validate_account_name (cb_receiver o')]"

record use_invite_balance_operation =
  ub_initiator :: account_name_type
  ub_receiver :: account_name_type
  ub_invite_secret :: string

definition validate_use_invite_balance :: "use_invite_balance_operation \<Rightarrow> unit result" where
  "validate_use_invite_balance o' = all_ok
     [validate_account_name (ub_initiator o'), validate_account_name (ub_receiver o')]"

record invite_registration_operation =
  ir_initiator :: account_name_type
  ir_new_account_name :: account_name_type
  ir_invite_secret :: string
  ir_new_account_key :: public_key_type

definition validate_invite_registration :: "invite_registration_operation \<Rightarrow> unit result" where
  "validate_invite_registration o' = all_ok
     [validate_account_name (ir_initiator o'),
      validate_account_name (ir_new_account_name o'),
      validate_domain_name (ir_new_account_name o') (ir_initiator o')]"

section \<open>Awards\<close>

record award_operation =
  aw_initiator :: account_name_type
  aw_receiver :: account_name_type
  aw_energy :: int
  aw_custom_sequence :: int
  aw_memo :: string
  aw_beneficiaries :: "beneficiary_route_type list"

definition validate_award :: "fc_text \<Rightarrow> award_operation \<Rightarrow> unit result" where
  "validate_award fc o' = all_ok
     [validate_account_name (aw_initiator o'),
      validate_account_name (aw_receiver o'),
      fc_assert (aw_energy o' \<ge> 0) ''energy >= 0'',
      fc_assert (aw_energy o' \<le> CHAIN_100_PERCENT) ''energy <= CHAIN_100_PERCENT'',
      fc_assert (aw_custom_sequence o' \<ge> 0) ''custom_sequence >= 0'',
      fc_assert (aw_custom_sequence o' \<le> INT64_MAX) ''custom_sequence <= INT64_MAX'',
      fc_assert (length (aw_memo o') < CHAIN_MAX_MEMO_LENGTH) ''Memo is too large'',
      fc_assert (is_utf8 fc (aw_memo o')) ''Memo is not UTF8'',
      fc_assert (length (aw_beneficiaries o') < 128) ''Cannot specify more than 127 beneficiaries.'',
      validate_beneficiaries_from 0 (aw_beneficiaries o')]"

record fixed_award_operation =
  fa_initiator :: account_name_type
  fa_receiver :: account_name_type
  fa_reward_amount :: asset
  fa_max_energy :: int
  fa_custom_sequence :: int
  fa_memo :: string
  fa_beneficiaries :: "beneficiary_route_type list"

definition validate_fixed_award :: "fc_text \<Rightarrow> fixed_award_operation \<Rightarrow> unit result" where
  "validate_fixed_award fc o' = all_ok
     [validate_account_name (fa_initiator o'),
      validate_account_name (fa_receiver o'),
      fc_assert (is_asset_type (fa_reward_amount o') TOKEN_SYMBOL) ''Reward amount must be TOKEN_SYMBOL'',
      fc_assert (amount (fa_reward_amount o') > 0) ''Reward amount cannot be negative or zero amount'',
      fc_assert (fa_max_energy o' \<ge> 0) ''max_energy >= 0'',
      fc_assert (fa_max_energy o' \<le> CHAIN_100_PERCENT) ''max_energy <= CHAIN_100_PERCENT'',
      fc_assert (fa_custom_sequence o' \<ge> 0) ''custom_sequence >= 0'',
      fc_assert (fa_custom_sequence o' \<le> INT64_MAX) ''custom_sequence <= INT64_MAX'',
      fc_assert (length (fa_memo o') < CHAIN_MAX_MEMO_LENGTH) ''Memo is too large'',
      fc_assert (is_utf8 fc (fa_memo o')) ''Memo is not UTF8'',
      fc_assert (length (fa_beneficiaries o') < 128) ''Cannot specify more than 127 beneficiaries.'',
      validate_beneficiaries_from 0 (fa_beneficiaries o')]"

section \<open>Paid subscriptions and account sales\<close>

record set_paid_subscription_operation =
  sp_account :: account_name_type
  sp_url :: string
  sp_levels :: int
  sp_amount :: asset
  sp_period :: int

definition validate_set_paid_subscription :: "fc_text \<Rightarrow> set_paid_subscription_operation \<Rightarrow> unit result" where
  "validate_set_paid_subscription fc o' = all_ok
     [validate_account_name (sp_account o'),
      fc_assert (length (sp_url o') < CHAIN_MAX_MEMO_LENGTH) ''URL is too large'',
      fc_assert (is_utf8 fc (sp_url o')) ''URL is not UTF8'',
      fc_assert (sp_levels o' \<ge> 0) ''levels >= 0'',
      fc_assert (sp_levels o' \<le> PAID_SUBSCRIPTION_MAX_LEVEL) ''levels <= PAID_SUBSCRIPTION_MAX_LEVEL'',
      fc_assert (symbol (sp_amount o') \<noteq> SHARES_SYMBOL) ''Amount of SHARES is not allowed.'',
      fc_assert (amount (sp_amount o') > 0) ''Cannot set subscription with negative or zero amount'',
      fc_assert (sp_period o' > 0) ''Cannot set negative or zero period'',
      fc_assert (sp_period o' \<le> PAID_SUBSCRIPTION_MAX_PERIOD) ''period <= PAID_SUBSCRIPTION_MAX_PERIOD'']"

record paid_subscribe_operation =
  ps_subscriber :: account_name_type
  ps_account :: account_name_type
  ps_level :: int
  ps_amount :: asset
  ps_period :: int
  ps_auto_renewal :: bool

definition validate_paid_subscribe :: "paid_subscribe_operation \<Rightarrow> unit result" where
  "validate_paid_subscribe o' = all_ok
     [validate_account_name (ps_subscriber o'),
      validate_account_name (ps_account o'),
      fc_assert (ps_level o' \<ge> 0) ''level >= 0'',
      fc_assert (ps_level o' \<le> PAID_SUBSCRIPTION_MAX_LEVEL) ''level <= PAID_SUBSCRIPTION_MAX_LEVEL'',
      fc_assert (symbol (ps_amount o') \<noteq> SHARES_SYMBOL) ''Amount of SHARES is not allowed.'',
      fc_assert (amount (ps_amount o') > 0) ''Cannot set subscription with negative or zero amount'',
      fc_assert (ps_period o' > 0) ''Cannot set negative or zero period'',
      fc_assert (ps_period o' \<le> PAID_SUBSCRIPTION_MAX_PERIOD) ''period <= PAID_SUBSCRIPTION_MAX_PERIOD'']"

record set_account_price_operation =
  sa_account :: account_name_type
  sa_account_seller :: account_name_type
  sa_account_offer_price :: asset
  sa_account_on_sale :: bool

definition validate_set_account_price :: "set_account_price_operation \<Rightarrow> unit result" where
  "validate_set_account_price o' = all_ok
     [validate_account_name (sa_account o'),
      validate_account_name (sa_account_seller o'),
      fc_assert (is_asset_type (sa_account_offer_price o') TOKEN_SYMBOL) ''Account offer price must be TOKEN_SYMBOL'',
      fc_assert (amount (sa_account_offer_price o') > 0)
        ''Cannot set account offer price with negative or zero amount'']"

record set_subaccount_price_operation =
  ss_account :: account_name_type
  ss_subaccount_seller :: account_name_type
  ss_subaccount_offer_price :: asset
  ss_subaccount_on_sale :: bool

definition validate_set_subaccount_price :: "set_subaccount_price_operation \<Rightarrow> unit result" where
  "validate_set_subaccount_price o' = all_ok
     [validate_account_name (ss_account o'),
      validate_account_name (ss_subaccount_seller o'),
      fc_assert (is_asset_type (ss_subaccount_offer_price o') TOKEN_SYMBOL)
        ''Subaccount offer price must be TOKEN_SYMBOL'',
      fc_assert (amount (ss_subaccount_offer_price o') > 0)
        ''Cannot set subaccount offer price with negative or zero amount'']"

record buy_account_operation =
  ba_buyer :: account_name_type
  ba_account :: account_name_type
  ba_account_offer_price :: asset
  ba_account_authorities_key :: public_key_type
  ba_tokens_to_shares :: asset

definition validate_buy_account :: "buy_account_operation \<Rightarrow> unit result" where
  "validate_buy_account o' = all_ok
     [validate_account_name (ba_buyer o'),
      validate_account_name (ba_account o'),
      fc_assert (is_asset_type (ba_account_offer_price o') TOKEN_SYMBOL) ''Account offer price must be TOKEN_SYMBOL'',
      fc_assert (amount (ba_account_offer_price o') > 0) ''Offer price cannot be negative or zero amount'',
      fc_assert (is_asset_type (ba_tokens_to_shares o') TOKEN_SYMBOL) ''Token to shares must be TOKEN_SYMBOL'',
      fc_assert (amount (ba_tokens_to_shares o') > 0) ''Token to shares cannot be negative or zero amount'']"

record target_account_sale_operation =
  ta_account :: account_name_type
  ta_account_seller :: account_name_type
  ta_target_buyer :: account_name_type
  ta_account_offer_price :: asset
  ta_account_on_sale :: bool

definition validate_target_account_sale :: "target_account_sale_operation \<Rightarrow> unit result" where
  "validate_target_account_sale o' = all_ok
     [validate_account_name (ta_account o'),
      validate_account_name (ta_account_seller o'),
      validate_account_name (ta_target_buyer o'),
      fc_assert (is_asset_type (ta_account_offer_price o') TOKEN_SYMBOL) ''Account offer price must be TOKEN_SYMBOL'',
      fc_assert (amount (ta_account_offer_price o') > 0)
        ''Cannot set account offer price with negative or zero amount'']"

end
