(* ===== verification/Protocol_Transaction.thy ===== *)
theory Protocol_Transaction
  imports Protocol_Operations
begin

text \<open>
  The variant of all user operations (\<open>protocol/operations.hpp\<close>), its validation and required
  authorities (\<open>operation_util_impl.hpp\<close> and the operation structs), and the authority check of a
  transaction (\<open>protocol/transaction.cpp\<close>).  The virtual operations, which the chain itself emits
  for observers and which \<open>validate\<close> refuses, are left out.
\<close>

section \<open>The operation variant\<close>

record proposal_update_operation =
  pu_author :: account_name_type
  pu_title :: string
  pu_active_approvals_to_add :: "account_name_type list"
  pu_active_approvals_to_remove :: "account_name_type list"
  pu_master_approvals_to_add :: "account_name_type list"
  pu_master_approvals_to_remove :: "account_name_type list"
  pu_regular_approvals_to_add :: "account_name_type list"
  pu_regular_approvals_to_remove :: "account_name_type list"
  pu_key_approvals_to_add :: "public_key_type list"
  pu_key_approvals_to_remove :: "public_key_type list"

record proposal_delete_operation =
  pd_author :: account_name_type
  pd_title :: string
  pd_requester :: account_name_type

record proposal_header =
  pc_author :: account_name_type
  pc_title :: string
  pc_memo :: string
  pc_expiration_time :: int
  pc_review_period_time :: "int option"

text \<open>
  The fields of \<open>proposal_create_operation\<close> are its header and the operations it proposes, which
  make the variant recursive.
\<close>

datatype operation =
    Vote vote_operation
  | Content content_operation
  | Transfer transfer_operation
  | Transfer_to_vesting transfer_to_vesting_operation
  | Withdraw_vesting withdraw_vesting_operation
  | Account_update account_update_operation
  | Witness_update witness_update_operation
  | Account_witness_vote account_witness_vote_operation
  | Account_witness_proxy account_witness_proxy_operation
  | Delete_content delete_content_operation
  | Custom custom_operation
  | Set_withdraw_vesting_route set_withdraw_vesting_route_operation
  | Request_account_recovery request_account_recovery_operation
  | Recover_account recover_account_operation
  | Change_recovery_account change_recovery_account_operation
  | Escrow_transfer escrow_transfer_operation
  | Escrow_dispute escrow_dispute_operation
  | Escrow_release escrow_release_operation
  | Escrow_approve escrow_approve_operation
  | Delegate_vesting_shares delegate_vesting_shares_operation
  | Account_create account_create_operation
  | Account_metadata account_metadata_operation
  | Proposal_create proposal_header "operation list"
  | Proposal_update proposal_update_operation
  | Proposal_delete proposal_delete_operation
  | Chain_properties_update chain_properties_update_operation
  | Committee_worker_create_request committee_worker_create_request_operation
  | Committee_worker_cancel_request committee_worker_cancel_request_operation
  | Committee_vote_request committee_vote_request_operation
  | Create_invite create_invite_operation
  | Claim_invite_balance claim_invite_balance_operation
  | Invite_registration invite_registration_operation
  | Versioned_chain_properties_update versioned_chain_properties_update_operation
  | Award award_operation
  | Set_paid_subscription set_paid_subscription_operation
  | Paid_subscribe paid_subscribe_operation
  | Set_account_price set_account_price_operation
  | Set_subaccount_price set_subaccount_price_operation
  | Buy_account buy_account_operation
  | Use_invite_balance use_invite_balance_operation
  | Fixed_award fixed_award_operation
  | Target_account_sale target_account_sale_operation

definition validate_proposal_update :: "fc_text \<Rightarrow> proposal_update_operation \<Rightarrow> unit result" where
  "validate_proposal_update fc o' =
     (let disjoint = \<lambda>add remove. fc_assert (set add \<inter> set remove = {})
            ''Cannot add and remove approval at the same time.''
      in all_ok
       [validate_account_name (pu_author o'),
        fc_assert (pu_title o' \<noteq> []) ''Title is empty'',
        fc_assert (is_utf8 fc (pu_title o')) ''Title not formatted in UTF8'',
        fc_assert (\<not> (pu_active_approvals_to_add o' = [] \<and> pu_active_approvals_to_remove o' = [] \<and>
                      pu_master_approvals_to_add o' = [] \<and> pu_master_approvals_to_remove o' = [] \<and>
                      pu_regular_approvals_to_add o' = [] \<and> pu_regular_approvals_to_remove o' = [] \<and>
                      pu_key_approvals_to_add o' = [] \<and> pu_key_approvals_to_remove o' = []))
          ''no approvals'',
        disjoint (pu_active_approvals_to_add o') (pu_active_approvals_to_remove o'),
        disjoint (pu_master_approvals_to_add o') (pu_master_approvals_to_remove o'),
        disjoint (pu_regular_approvals_to_add o') (pu_regular_approvals_to_remove o'),
        disjoint (pu_key_approvals_to_add o') (pu_key_approvals_to_remove o')])"

definition validate_proposal_delete :: "fc_text \<Rightarrow> proposal_delete_operation \<Rightarrow> unit result" where
  "validate_proposal_delete fc o' = all_ok
     [validate_account_name (pd_author o'),
      fc_assert (pd_title o' \<noteq> []) ''Title is empty'',
      fc_assert (is_utf8 fc (pd_title o')) ''Title not formatted in UTF8'']"

fun operation_validate :: "fc_text \<Rightarrow> operation \<Rightarrow> unit result" where
  "operation_validate fc (Vote x) = validate_vote fc x"
| "operation_validate fc (Content x) = validate_content fc x"
| "operation_validate fc (Transfer x) = validate_transfer fc x"
| "operation_validate fc (Transfer_to_vesting x) = validate_transfer_to_vesting x"
| "operation_validate fc (Withdraw_vesting x) = validate_withdraw_vesting x"
| "operation_validate fc (Account_update x) = validate_account_update fc x"
| "operation_validate fc (Witness_update x) = validate_witness_update fc x"
| "operation_validate fc (Account_witness_vote x) = validate_account_witness_vote x"
| "operation_validate fc (Account_witness_proxy x) = validate_account_witness_proxy x"
| "operation_validate fc (Delete_content x) = validate_delete_content fc x"
| "operation_validate fc (Custom x) = validate_custom fc x"
| "operation_validate fc (Set_withdraw_vesting_route x) = validate_set_withdraw_vesting_route x"
| "operation_validate fc (Request_account_recovery x) = validate_request_account_recovery x"
| "operation_validate fc (Recover_account x) = validate_recover_account x"
| "operation_validate fc (Change_recovery_account x) = validate_change_recovery_account x"
| "operation_validate fc (Escrow_transfer x) = validate_escrow_transfer fc x"
| "operation_validate fc (Escrow_dispute x) = validate_escrow_dispute x"
| "operation_validate fc (Escrow_release x) = validate_escrow_release x"
| "operation_validate fc (Escrow_approve x) = validate_escrow_approve x"
| "operation_validate fc (Delegate_vesting_shares x) = validate_delegate_vesting_shares x"
| "operation_validate fc (Account_create x) = validate_account_create fc x"
| "operation_validate fc (Account_metadata x) = validate_account_metadata fc x"
| "operation_validate fc (Proposal_create h ops) = all_ok
     ([validate_account_name (pc_author h),
       fc_assert (pc_title h \<noteq> []) ''Title is empty'',
       fc_assert (length (pc_title h) < 256) ''Title larger than size limit'',
       fc_assert (is_utf8 fc (pc_title h)) ''Title not formatted in UTF8'',
       fc_assert (ops \<noteq> []) ''!proposed_operations.empty()''] @
      map (operation_validate fc) ops @
      (if length (pc_memo h) > 0 then
        [fc_assert (length (pc_memo h) < 4096) ''Memo larger than size limit'',
         fc_assert (is_utf8 fc (pc_memo h)) ''Memo not formatted in UTF8'']
       else []))"
| "operation_validate fc (Proposal_update x) = validate_proposal_update fc x"
| "operation_validate fc (Proposal_delete x) = validate_proposal_delete fc x"
| "operation_validate fc (Chain_properties_update x) = validate_chain_properties_update x"
| "operation_validate fc (Committee_worker_create_request x) = validate_committee_worker_create_request x"
| "operation_validate fc (Committee_worker_cancel_request x) = Inr ()"
| "operation_validate fc (Committee_vote_request x) = validate_committee_vote_request x"
| "operation_validate fc (Create_invite x) = validate_create_invite x"
| "operation_validate fc (Claim_invite_balance x) = validate_claim_invite_balance x"
| "operation_validate fc (Invite_registration x) = validate_invite_registration x"
| "operation_validate fc (Versioned_chain_properties_update x) = validate_versioned_chain_properties_update x"
| "operation_validate fc (Award x) = validate_award fc x"
| "operation_validate fc (Set_paid_subscription x) = validate_set_paid_subscription fc x"
| "operation_validate fc (Paid_subscribe x) = validate_paid_subscribe x"
| "operation_validate fc (Set_account_price x) = validate_set_account_price x"
| "operation_validate fc (Set_subaccount_price x) = validate_set_subaccount_price x"
| "operation_validate fc (Buy_account x) = validate_buy_account x"
| "operation_validate fc (Use_invite_balance x) = validate_use_invite_balance x"
| "operation_validate fc (Fixed_award x) = validate_fixed_award fc x"
| "operation_validate fc (Target_account_sale x) = validate_target_account_sale x"

section \<open>Required authorities\<close>

definition get_required_master :: "operation \<Rightarrow> account_name_type list" where
  "get_required_master o' =
     (case o' of
        Account_update x \<Rightarrow> if au_master x \<noteq> None then [au_account x] else []
      | Transfer x \<Rightarrow> if symbol (tr_amount x) = SHARES_SYMBOL then [tr_from x] else []
      | Change_recovery_account x \<Rightarrow> [cr_account_to_recover x]
      | Set_account_price x \<Rightarrow> [sa_account x]
      | Set_subaccount_price x \<Rightarrow> [ss_account x]
      | Target_account_sale x \<Rightarrow> [ta_account x]
      | Proposal_update x \<Rightarrow> pu_master_approvals_to_add x @ pu_master_approvals_to_remove x
      | _ \<Rightarrow> [])"

definition get_required_regular :: "operation \<Rightarrow> account_name_type list" where
  "get_required_regular o' =
     (case o' of
        Account_metadata x \<Rightarrow> [am_account x]
      | Content x \<Rightarrow> [co_author x]
      | Delete_content x \<Rightarrow> [dc_author x]
      | Vote x \<Rightarrow> [vo_voter x]
      | Custom x \<Rightarrow> cu_required_regular_auths x
      | Committee_worker_create_request x \<Rightarrow> [cw_creator x]
      | Committee_worker_cancel_request x \<Rightarrow> [cc_creator x]
      | Committee_vote_request x \<Rightarrow> [cv_voter x]
      | Award x \<Rightarrow> [aw_initiator x]
      | Fixed_award x \<Rightarrow> [fa_initiator x]
      | Proposal_update x \<Rightarrow> pu_regular_approvals_to_add x @ pu_regular_approvals_to_remove x
      | _ \<Rightarrow> [])"

definition get_required_active :: "operation \<Rightarrow> account_name_type list" where
  "get_required_active o' =
     (case o' of
        Account_create x \<Rightarrow> [ac_creator x]
      | Account_update x \<Rightarrow> if au_master x = None then [au_account x] else []
      | Transfer x \<Rightarrow> if symbol (tr_amount x) \<noteq> SHARES_SYMBOL then [tr_from x] else []
      | Escrow_transfer x \<Rightarrow> [et_from x]
      | Escrow_approve x \<Rightarrow> [ea_who x]
      | Escrow_dispute x \<Rightarrow> [ed_who x]
      | Escrow_release x \<Rightarrow> [er_who x]
      | Transfer_to_vesting x \<Rightarrow> [tv_from x]
      | Withdraw_vesting x \<Rightarrow> [wv_account x]
      | Set_withdraw_vesting_route x \<Rightarrow> [wr_from_account x]
      | Witness_update x \<Rightarrow> [wu_owner x]
      | Chain_properties_update x \<Rightarrow> [cp_owner x]
      | Versioned_chain_properties_update x \<Rightarrow> [vp_owner x]
      | Account_witness_vote x \<Rightarrow> [wvo_account x]
      | Account_witness_proxy x \<Rightarrow> [wp_account x]
      | Custom x \<Rightarrow> cu_required_active_auths x
      | Request_account_recovery x \<Rightarrow> [rr_recovery_account x]
      | Delegate_vesting_shares x \<Rightarrow> [dv_delegator x]
      | Create_invite x \<Rightarrow> [ci_creator x]
      | Claim_invite_balance x \<Rightarrow> [cb_initiator x]
      | Invite_registration x \<Rightarrow> [ir_initiator x]
      | Set_paid_subscription x \<Rightarrow> [sp_account x]
      | Paid_subscribe x \<Rightarrow> [ps_subscriber x]
      | Buy_account x \<Rightarrow> [ba_buyer x]
      | Use_invite_balance x \<Rightarrow> [ub_initiator x]
      | Proposal_create h ops \<Rightarrow> [pc_author h]
      | Proposal_update x \<Rightarrow> pu_active_approvals_to_add x @ pu_active_approvals_to_remove x
      | Proposal_delete x \<Rightarrow> [pd_requester x]
      | _ \<Rightarrow> [])"

text \<open>The keys a proposal update approves with, each of weight one, all of them required.\<close>

definition proposal_key_authority :: "proposal_update_operation \<Rightarrow> authority" where
  "proposal_key_authority x =
     (let ks = fold (\<lambda>k. flat_put k 1) (pu_key_approvals_to_add x @ pu_key_approvals_to_remove x) []
      in empty_authority\<lparr>key_auths := ks, weight_threshold := length ks\<rparr>)"

definition get_required_other :: "operation \<Rightarrow> authority list" where
  "get_required_other o' =
     (case o' of
        Recover_account x \<Rightarrow> [ra_new_master_authority x, ra_recent_master_authority x]
      | Proposal_update x \<Rightarrow>
          (if key_auths (proposal_key_authority x) \<noteq> [] then [proposal_key_authority x] else [])
      | _ \<Rightarrow> [])"

definition is_data_operation :: "operation \<Rightarrow> bool" where
  "is_data_operation o' =
     (case o' of Custom _ \<Rightarrow> True | Account_create _ \<Rightarrow> True | Account_update _ \<Rightarrow> True
      | Account_metadata _ \<Rightarrow> True | Escrow_transfer _ \<Rightarrow> True | _ \<Rightarrow> False)"

record required_authorities =
  req_active :: "account_name_type list"
  req_master :: "account_name_type list"
  req_regular :: "account_name_type list"
  req_other :: "authority list"

definition operation_get_required_authorities :: "operation \<Rightarrow> required_authorities \<Rightarrow> required_authorities" where
  "operation_get_required_authorities o' r =
     r\<lparr>req_active := flat_insert_all (get_required_active o') (req_active r),
       req_master := flat_insert_all (get_required_master o') (req_master r),
       req_regular := flat_insert_all (get_required_regular o') (req_regular r),
       req_other := req_other r @ get_required_other o'\<rparr>"

definition get_required_authorities :: "operation list \<Rightarrow> required_authorities" where
  "get_required_authorities ops =
     fold operation_get_required_authorities ops
       \<lparr>req_active = [], req_master = [], req_regular = [], req_other = []\<rparr>"

definition transaction_validate :: "fc_text \<Rightarrow> operation list \<Rightarrow> unit result" where
  "transaction_validate fc operations = all_ok
     (fc_assert (length operations > 0) ''A transaction must have at least one operation'' #
      map (operation_validate fc) operations)"

section \<open>Signatures of a transaction\<close>

text \<open>
  The approvals a proposal brings with it are entered as approved but unused; a check marks what it
  uses.  \<open>check_first\<close> is the short-circuit conjunction of failed checks in the source: the checks
  run in turn until one succeeds.
\<close>

definition add_approvals :: "account_name_type list \<Rightarrow> sign_state \<Rightarrow> sign_state" where
  "add_approvals ids st =
     fold (\<lambda>id st. st\<lparr>approved_by := flat_put id False (approved_by st)\<rparr>) ids st"

fun check_first :: "(sign_state \<Rightarrow> (bool \<times> sign_state) result) list \<Rightarrow> sign_state \<Rightarrow> (bool \<times> sign_state) result" where
  "check_first [] st = Inr (False, st)"
| "check_first (c # cs) st =
     (case c st of Inl e \<Rightarrow> Inl e
      | Inr (ok, st') \<Rightarrow> if ok then Inr (True, st') else check_first cs st')"

fun check_each :: "('k \<Rightarrow> sign_state \<Rightarrow> (bool \<times> sign_state) result) \<Rightarrow> 'k list \<Rightarrow> sign_state \<Rightarrow>
    ('k list \<times> sign_state) result" where
  "check_each c [] st = Inr ([], st)"
| "check_each c (x # xs) st =
     (case c x st of Inl e \<Rightarrow> Inl e
      | Inr (ok, st') \<Rightarrow>
         (case check_each c xs st' of Inl e \<Rightarrow> Inl e
          | Inr (missing, st'') \<Rightarrow> Inr (if ok then missing else x # missing, st'')))"

definition check_getter :: "authority_getter \<Rightarrow> authority_getter \<Rightarrow> account_name_type \<Rightarrow> sign_state \<Rightarrow>
    (bool \<times> sign_state) result" where
  "check_getter g get_auth nm st =
     (case get_auth nm of Inl e \<Rightarrow> Inl e | Inr auth \<Rightarrow> check_authority g (max_recursion st) auth st)"

definition check_master :: "authority_getter \<Rightarrow> authority_getter \<Rightarrow> account_name_type list \<Rightarrow> account_name_type \<Rightarrow>
    sign_state \<Rightarrow> (bool \<times> sign_state) result" where
  "check_master get_active get_master master_approvals nm st =
     (if nm \<in> set master_approvals
      then Inr (True, st\<lparr>approved_by := flat_put nm True (approved_by st)\<rparr>)
      else case check_getter get_active get_master nm st of Inl e \<Rightarrow> Inl e
           | Inr (ok, st') \<Rightarrow>
               Inr (ok, if ok then st'\<lparr>approved_by := flat_put nm True (approved_by st')\<rparr> else st'))"

definition assert_unused_approvals :: "sign_state \<Rightarrow> unit result" where
  "assert_unused_approvals st =
     (let (unused_sig, st') = remove_unused_signatures st
      in if unused_sig then Inl (Tx_irrelevant_sig (unused_signatures st'))
         else let (unused_appr, st'') = filter_unused_approvals st'
              in if unused_appr then Inl (Tx_irrelevant_approval (unused_approvals st'')) else Inr ())"

text \<open>The signatures an exception reports as used.\<close>

definition signatures_used :: "sign_state \<Rightarrow> public_key_type list" where
  "signatures_used st = used_signatures (snd (remove_unused_signatures st))"

record tx_env =
  env_get_active :: authority_getter
  env_get_master :: authority_getter
  env_get_regular :: authority_getter
  env_max_recursion :: nat
  env_active_approvals :: "account_name_type list"
  env_master_approvals :: "account_name_type list"
  env_regular_approvals :: "account_name_type list"

definition verify_regular :: "tx_env \<Rightarrow> public_key_type list \<Rightarrow> required_authorities \<Rightarrow> unit result" where
  "verify_regular env sigs r =
     (if req_active r \<noteq> [] then Inl (FC_Assert ''required_active.size() == 0'')
      else if req_master r \<noteq> [] then Inl (FC_Assert ''required_master.size() == 0'')
      else if req_other r \<noteq> [] then Inl (FC_Assert ''other.size() == 0'')
      else
        let g = env_get_regular env;
            s = add_approvals (env_regular_approvals env)
                  ((init_sign_state sigs [])\<lparr>max_recursion := env_max_recursion env\<rparr>)
        in case check_each (\<lambda>id. check_first [check_account_authority g id,
                    check_getter g (env_get_active env) id, check_getter g (env_get_master env) id])
                  (req_regular r) s of Inl e \<Rightarrow> Inl e
           | Inr (missing, s') \<Rightarrow>
               if missing \<noteq> [] then Inl (Tx_missing_regular_auth missing (signatures_used s'))
               else assert_unused_approvals s')"

definition verify_active :: "tx_env \<Rightarrow> public_key_type list \<Rightarrow> required_authorities \<Rightarrow> unit result" where
  "verify_active env sigs r =
     (let g = env_get_active env;
          s = add_approvals (env_master_approvals env) (add_approvals (env_active_approvals env)
                ((init_sign_state sigs [])\<lparr>max_recursion := env_max_recursion env\<rparr>))
      in case check_each (\<lambda>auth st. check_authority g (max_recursion st) auth st) (req_other r) s of
           Inl e \<Rightarrow> Inl e
         | Inr (missing_auths, s1) \<Rightarrow>
         if missing_auths \<noteq> [] then Inl Tx_missing_other_auth
         else case check_each (\<lambda>id. check_first [check_account_authority g id,
                     check_getter g (env_get_master env) id]) (req_active r) s1 of Inl e \<Rightarrow> Inl e
         | Inr (missing, s2) \<Rightarrow>
         if missing \<noteq> [] then Inl (Tx_missing_active_auth missing (signatures_used s2))
         else case check_each (check_master g (env_get_master env) (env_master_approvals env))
                     (req_master r) s2 of Inl e \<Rightarrow> Inl e
         | Inr (missing, s3) \<Rightarrow>
         if missing \<noteq> [] then Inl (Tx_missing_master_auth missing (signatures_used s3))
         else assert_unused_approvals s3)"

definition verify_authority :: "tx_env \<Rightarrow> operation list \<Rightarrow> public_key_type list \<Rightarrow> unit result" where
  "verify_authority env ops sigs =
     (let r = get_required_authorities ops
      in if req_regular r \<noteq> [] then verify_regular env sigs r else verify_active env sigs r)"

text \<open>
  \<open>recover\<close> is the recovery of a public key from a compact signature of the transaction digest
  (fc::ecc::public_key).
\<close>

definition get_signature_keys :: "('sig \<Rightarrow> public_key_type) \<Rightarrow> 'sig list \<Rightarrow> public_key_type list result" where
  "get_signature_keys recover signatures =
     fold_result (\<lambda>sig keys. if recover sig \<in> set keys then Inl Tx_duplicate_sig
                              else Inr (flat_insert (recover sig) keys)) signatures []"

definition run_checks :: "('k \<Rightarrow> sign_state \<Rightarrow> (bool \<times> sign_state) result) \<Rightarrow> 'k list \<Rightarrow> sign_state \<Rightarrow>
    sign_state result" where
  "run_checks c xs st = fold_result (\<lambda>x st. case c x st of Inl e \<Rightarrow> Inl e | Inr (_, st') \<Rightarrow> Inr st') xs st"

definition signing_keys :: "public_key_type list \<Rightarrow> sign_state \<Rightarrow> public_key_type list" where
  "signing_keys keys st =
     filter (\<lambda>k. k \<in> set keys) (map fst (provided_signatures (snd (remove_unused_signatures st))))"

definition get_required_signatures :: "tx_env \<Rightarrow> operation list \<Rightarrow> public_key_type list \<Rightarrow> public_key_type list \<Rightarrow>
    public_key_type list result" where
  "get_required_signatures env ops sigs keys =
     (let r = get_required_authorities ops;
          new = (init_sign_state sigs keys)\<lparr>max_recursion := env_max_recursion env\<rparr>
      in if req_regular r \<noteq> []
         then if req_master r \<noteq> [] then Inl (FC_Assert ''!required_master.size()'')
              else if req_active r \<noteq> [] then Inl (FC_Assert ''!required_active.size()'')
              else case run_checks (check_account_authority (env_get_regular env)) (req_regular r) new of
                     Inl e \<Rightarrow> Inl e
                   | Inr s \<Rightarrow> Inr (flat_insert_all (signing_keys keys s) [])
         else case run_checks (\<lambda>auth st. check_authority (env_get_active env) (max_recursion st) auth st)
                     (req_other r) new of Inl e \<Rightarrow> Inl e
         | Inr s1 \<Rightarrow> (case run_checks (check_account_authority (env_get_active env)) (req_active r) s1 of
             Inl e \<Rightarrow> Inl e
         | Inr s \<Rightarrow> (case run_checks (check_account_authority (env_get_master env)) (req_master r) new of
             Inl e \<Rightarrow> Inl e
         | Inr s_master \<Rightarrow>
             Inr (flat_insert_all (signing_keys keys s @ signing_keys keys s_master) []))))"

fun is_missing_auth :: "error \<Rightarrow> bool" where
  "is_missing_auth (Tx_missing_master_auth _ _) = True"
| "is_missing_auth (Tx_missing_active_auth _ _) = True"
| "is_missing_auth (Tx_missing_regular_auth _ _) = True"
| "is_missing_auth Tx_missing_other_auth = True"
| "is_missing_auth _ = False"

fun minimize_keys :: "(public_key_type list \<Rightarrow> unit result) \<Rightarrow> public_key_type list \<Rightarrow> public_key_type list \<Rightarrow>
    public_key_type list result" where
  "minimize_keys verify [] result = Inr result"
| "minimize_keys verify (k # ks) result =
     (case verify (removeAll k result) of
        Inr _ \<Rightarrow> minimize_keys verify ks (removeAll k result)
      | Inl e \<Rightarrow> if is_missing_auth e
                 then minimize_keys verify ks (flat_insert k (removeAll k result))
                 else Inl e)"

definition minimize_required_signatures :: "tx_env \<Rightarrow> operation list \<Rightarrow> public_key_type list \<Rightarrow>
    public_key_type list \<Rightarrow> public_key_type list result" where
  "minimize_required_signatures env ops sigs keys =
     (case get_required_signatures env ops sigs keys of Inl e \<Rightarrow> Inl e
      | Inr s \<Rightarrow> minimize_keys (verify_authority env ops) s s)"

end
