(* ===== verification/Transaction_Authority.thy ===== *)
theory Transaction_Authority
  imports Protocol_Transaction
begin

text \<open>
  What the authority check of a transaction guarantees: every account an operation acts for, and
  every explicit authority it names, is satisfied by the keys that signed.  The proofs lift the
  soundness of one signature check (\<open>check_authority_sound\<close>) through the loops of
  \<open>verify_authority\<close>.
\<close>

section \<open>Lifting soundness through the loops\<close>

lemma check_account_authority_sound:
  assumes "check_account_authority g nm st = Inr (r, st')" and "approved_ok g K A st"
  shows "approved_ok g K A st' \<and> (r \<longrightarrow> good_account g K A nm)"
proof (cases "map_of (approved_by st) nm")
  case None
  then obtain b where "g nm = Inr b" "check_authority g (max_recursion st) b st = Inr (r, st')"
    using assms(1) by (auto simp: check_account_authority_def run_simps)
  with check_authority_sound(1) [OF this(2) assms(2)] show ?thesis by (auto simp: good_account_def)
next
  case (Some v)
  with assms have "st' = st\<lparr>approved_by := flat_put nm True (approved_by st)\<rparr>" "good_account g K A nm"
    by (auto simp: check_account_authority_def approved_ok_def good_account_def)
  with assms(2) show ?thesis by (auto simp: approved_ok_def good_account_def)
qed

lemma check_getter_sound:
  assumes "check_getter g get_auth nm st = Inr (r, st')" and "approved_ok g K A st"
  shows "approved_ok g K A st' \<and> (r \<longrightarrow> (\<exists>b. get_auth nm = Inr b \<and> authorized g K A b))"
  using assms check_authority_sound(1) [OF _ assms(2)] by (auto simp: check_getter_def run_simps)

lemma check_first_sound:
  assumes "check_first cs st = Inr (r, st')" and "I st"
    and "\<And>c st r st'. c \<in> set cs \<Longrightarrow> c st = Inr (r, st') \<Longrightarrow> I st \<Longrightarrow> I st' \<and> (r \<longrightarrow> P)"
  shows "I st' \<and> (r \<longrightarrow> P)"
  using assms
proof (induction cs arbitrary: st)
  case (Cons c cs)
  from Cons.prems(1) obtain ok st1 where c: "c st = Inr (ok, st1)"
    by (auto simp: run_simps)
  have I: "I st1 \<and> (ok \<longrightarrow> P)" using Cons.prems(2,3) c by auto
  show ?case
  proof (cases ok)
    case False
    with Cons.prems(1) c have "check_first cs st1 = Inr (r, st')" by simp
    from Cons.IH [OF this conjunct1 [OF I]] Cons.prems(3) show ?thesis by (meson list.set_intros(2))
  qed (use Cons.prems(1) c I in auto)
qed simp

lemma check_each_sound:
  assumes "check_each c xs st = Inr ([], st')" and "I [] st"
    and "\<And>pre x st r st'. x \<in> set xs \<Longrightarrow> c x st = Inr (r, st') \<Longrightarrow> I pre st \<Longrightarrow>
           r \<Longrightarrow> I (pre @ [x]) st' \<and> P pre x"
  shows "I xs st' \<and> (\<forall>i < length xs. P (take i xs) (xs ! i))"
proof -
  have "check_each c ys s = Inr ([], st') \<Longrightarrow> I pre s \<Longrightarrow> set ys \<subseteq> set xs \<Longrightarrow>
      I (pre @ ys) st' \<and> (\<forall>i < length ys. P (pre @ take i ys) (ys ! i))" for ys pre s
  proof (induction ys arbitrary: s pre)
    case (Cons y ys)
    from Cons.prems(1) obtain s1 where y: "c y s = Inr (True, s1)" "check_each c ys s1 = Inr ([], st')"
      by (auto simp: run_simps split: prod.splits if_splits)
    from assms(3) [OF _ y(1) Cons.prems(2)] Cons.prems(3) have one: "I (pre @ [y]) s1 \<and> P pre y" by simp
    from Cons.IH [OF y(2) conjunct1 [OF one]] Cons.prems(3)
    have "I (pre @ y # ys) st' \<and> (\<forall>i < length ys. P (pre @ y # take i ys) (ys ! i))" by simp
    then show ?case using one by (auto simp: nth_Cons split: nat.splits)
  qed simp
  from this [OF assms(1,2)] show ?thesis by simp
qed

lemma authorized_insert: "authorized g K A b \<Longrightarrow> authorized g K (insert nm A) b"
proof (induction rule: authorized.induct)
  case (by_weight S auth)
  then show ?case by (intro authorized.by_weight [of S]) auto
qed

lemma check_master_sound:
  assumes "check_master g get_master approvals nm st = Inr (True, st')" and "approved_ok g K A st"
  shows "approved_ok g K (insert nm A) st' \<and> (nm \<in> set approvals \<or> (\<exists>b. get_master nm = Inr b \<and> authorized g K A b))"
proof (cases "nm \<in> set approvals")
  case True
  with assms show ?thesis using authorized_insert by (auto simp: check_master_def approved_ok_def)
next
  case False
  with assms(1) obtain st1 where c: "check_getter g get_master nm st = Inr (True, st1)"
    and st': "st' = st1\<lparr>approved_by := flat_put nm True (approved_by st1)\<rparr>"
    by (auto simp: check_master_def run_simps split: prod.splits if_splits)
  from check_getter_sound [OF c assms(2)]
  have ok: "approved_ok g K A st1" and b: "\<exists>b. get_master nm = Inr b \<and> authorized g K A b" by auto
  with st' authorized_insert have "approved_ok g K (insert nm A) st'" by (auto simp: approved_ok_def)
  with b show ?thesis by blast
qed

section \<open>Required authorities of a transaction\<close>

lemma required_fold:
  "set (req_active (fold operation_get_required_authorities ops r)) =
     (\<Union>o' \<in> set ops. set (get_required_active o')) \<union> set (req_active r)"
  "set (req_master (fold operation_get_required_authorities ops r)) =
     (\<Union>o' \<in> set ops. set (get_required_master o')) \<union> set (req_master r)"
  "set (req_regular (fold operation_get_required_authorities ops r)) =
     (\<Union>o' \<in> set ops. set (get_required_regular o')) \<union> set (req_regular r)"
  "set (req_other (fold operation_get_required_authorities ops r)) =
     (\<Union>o' \<in> set ops. set (get_required_other o')) \<union> set (req_other r)"
  by (induction ops arbitrary: r) (auto simp: operation_get_required_authorities_def)

lemma required_sets:
  "set (req_active (get_required_authorities ops)) = (\<Union>o' \<in> set ops. set (get_required_active o'))"
  "set (req_master (get_required_authorities ops)) = (\<Union>o' \<in> set ops. set (get_required_master o'))"
  "set (req_regular (get_required_authorities ops)) = (\<Union>o' \<in> set ops. set (get_required_regular o'))"
  "set (req_other (get_required_authorities ops)) = (\<Union>o' \<in> set ops. set (get_required_other o'))"
  by (simp_all add: get_required_authorities_def required_fold)

lemma sorted_flat_insert_all: "sorted_wrt (<) xs \<Longrightarrow> sorted_wrt (<) (flat_insert_all ks xs)"
  by (induction ks arbitrary: xs) (auto simp: flat_insert_all_def sorted_flat_insert)

lemma required_master_sorted: "sorted_wrt (<) (req_master (get_required_authorities ops))"
proof -
  have "sorted_wrt (<) (req_master r) \<Longrightarrow>
      sorted_wrt (<) (req_master (fold operation_get_required_authorities ops r))" for r
    by (induction ops arbitrary: r)
      (auto simp: operation_get_required_authorities_def sorted_flat_insert_all)
  then show ?thesis by (simp add: get_required_authorities_def)
qed

lemma fresh_sign_state:
  "approved_ok g (set sigs) {''temp''} ((init_sign_state sigs [])\<lparr>max_recursion := n\<rparr>)"
  using init_signable [of sigs "[]"] init_approved [of sigs "[]"]
  by (simp add: approved_ok_def signable_def)

text \<open>
  The approvals of a proposal count as signatures of the accounts; a check that fails only for signatures or
  approvals it did not need has verified everything.
\<close>

fun is_irrelevant :: "error \<Rightarrow> bool" where
  "is_irrelevant (Tx_irrelevant_sig _) = True"
| "is_irrelevant (Tx_irrelevant_approval _) = True"
| "is_irrelevant _ = False"

definition verified :: "unit result \<Rightarrow> bool" where
  "verified v = (case v of Inl e \<Rightarrow> is_irrelevant e | Inr _ \<Rightarrow> True)"

lemma verified_simps [simp]: "verified (Inl e) = is_irrelevant e" "verified (Inr u)"
  by (simp_all add: verified_def)

definition relevant_errors :: "authority_getter \<Rightarrow> bool" where
  "relevant_errors g = (\<forall>n e. g n = Inl e \<longrightarrow> \<not> is_irrelevant e)"

lemma check_authority_errors:
  "check_authority g n auth st = Inl e \<Longrightarrow> relevant_errors g \<Longrightarrow> \<not> is_irrelevant e"
  "check_accounts g n thr as w st = Inl e \<Longrightarrow> relevant_errors g \<Longrightarrow> \<not> is_irrelevant e"
proof (induction g n auth st and g n thr as w st arbitrary: e and e rule: check_authority_check_accounts.induct)
  case (1 g n auth st)
  then show ?case by (auto split: prod.splits bool.splits)
next
  case (3 g n thr a x as w st)
  show ?case
  proof (cases "map_of (approved_by st) a = None")
    case False
    then show ?thesis using "3.IH"(5) "3.prems" by (auto simp: Let_def split: if_splits)
  next
    case True
    show ?thesis
    proof (cases n)
      case 0
      then show ?thesis using "3.IH"(1) [OF True 0] "3.prems" True by simp
    next
      case (Suc m)
      show ?thesis
      proof (cases "g a")
        case (Inl e')
        then show ?thesis using "3.prems" True Suc by (auto simp: relevant_errors_def)
      next
        case (Inr auth)
        then show ?thesis using "3.IH"(2-4) "3.prems" True Suc
          by (auto simp: Let_def split: sum.splits if_splits prod.splits bool.splits)
      qed
    qed
  qed
qed simp

lemma check_getter_errors:
  "check_getter g get_auth nm st = Inl e \<Longrightarrow> relevant_errors g \<Longrightarrow> relevant_errors get_auth \<Longrightarrow> \<not> is_irrelevant e"
  by (auto simp del: check_authority.simps simp: check_getter_def dest: check_authority_errors split: sum.splits)
    (auto simp: relevant_errors_def)

lemma check_account_authority_errors:
  "check_account_authority g nm st = Inl e \<Longrightarrow> relevant_errors g \<Longrightarrow> \<not> is_irrelevant e"
  by (auto simp del: check_authority.simps simp: check_account_authority_def dest: check_authority_errors split: option.splits sum.splits)
    (auto simp: relevant_errors_def)

lemma check_first_errors:
  "check_first cs st = Inl e \<Longrightarrow> (\<forall>c \<in> set cs. \<forall>st e. c st = Inl e \<longrightarrow> \<not> is_irrelevant e) \<Longrightarrow> \<not> is_irrelevant e"
  by (induction cs arbitrary: st) (auto split: sum.splits prod.splits if_splits)

lemma check_each_errors:
  "check_each c xs st = Inl e \<Longrightarrow> (\<forall>x st e. c x st = Inl e \<longrightarrow> \<not> is_irrelevant e) \<Longrightarrow> \<not> is_irrelevant e"
  by (induction xs arbitrary: st) (auto split: sum.splits prod.splits if_splits)

text \<open>A passed check: it succeeded, or what it reports is irrelevant and the accounts' authorities are not at fault.\<close>

definition passed :: "tx_env \<Rightarrow> unit result \<Rightarrow> bool" where
  "passed env v = (v = Inr () \<or> verified v \<and> relevant_errors (env_get_active env) \<and> relevant_errors (env_get_master env) \<and>
     relevant_errors (env_get_regular env))"

lemma passed_ok [simp]: "passed env (Inr ())"
  by (simp add: passed_def)

text \<open>One loop of checks of a passed verification: it ended without errors and nothing was missing.\<close>

lemma passed_step:
  assumes "passed env (case m of Inl e \<Rightarrow> Inl e | Inr (missing, s) \<Rightarrow> if missing \<noteq> [] then Inl (f missing s) else v s)"
    and "\<forall>e. m = Inl e \<longrightarrow> passed env (Inl e) \<longrightarrow> \<not> is_irrelevant e" and "\<forall>missing s. \<not> is_irrelevant (f missing s)"
  obtains s where "m = Inr ([], s)" and "passed env (v s)"
proof (cases m)
  case (Inl e)
  with assms(1) have "passed env (Inl e)" by simp
  then have "is_irrelevant e" by (simp add: passed_def)
  with assms(2) Inl \<open>passed env (Inl e)\<close> show thesis by blast
next
  case (Inr x)
  obtain missing s where x: "x = (missing, s)" by (cases x)
  have "missing = []"
  proof (rule ccontr)
    assume "missing \<noteq> []"
    with assms(1) Inr x have "passed env (Inl (f missing s))" by simp
    with assms(3) show False by (simp add: passed_def)
  qed
  with assms(1) Inr x show thesis by (intro that) auto
qed

lemma add_approvals_ok: "approved_ok g K A st \<Longrightarrow> approved_ok g K (A \<union> set ids) (add_approvals ids st)"
proof (induction ids arbitrary: A st)
  case (Cons i ids)
  have "approved_ok g K (insert i A) (st\<lparr>approved_by := flat_put i False (approved_by st)\<rparr>)"
    using Cons.prems authorized_insert [of g K A _ i] by (auto simp: approved_ok_def)
  from Cons.IH [OF this] show ?case by (simp add: add_approvals_def)
qed (simp add: add_approvals_def)

lemma add_approvals_recursion [simp]: "max_recursion (add_approvals ids st) = max_recursion st"
  by (induction ids arbitrary: st) (auto simp: add_approvals_def)

lemma regular_step_errors:
  assumes "check_first [check_account_authority g x, check_getter g ga x, check_getter g gm x] st = Inl e"
    and "relevant_errors g" and "relevant_errors ga" and "relevant_errors gm"
  shows "\<not> is_irrelevant e"
  using assms(1) by (rule check_first_errors) (use assms(2-4) in \<open>auto dest: check_account_authority_errors check_getter_errors\<close>)

lemma verify_regular_sound:
  assumes "passed env (verify_regular env sigs r)" and "a \<in> set (req_regular r)"
  defines "A \<equiv> {''temp''} \<union> set (env_regular_approvals env)"
  shows "good_account (env_get_regular env) (set sigs) A a \<or>
     (\<exists>b. (env_get_active env a = Inr b \<or> env_get_master env a = Inr b) \<and> authorized (env_get_regular env) (set sigs) A b)"
proof -
  let ?g = "env_get_regular env"
  let ?P = "\<lambda>a. good_account ?g (set sigs) A a \<or>
     (\<exists>b. (env_get_active env a = Inr b \<or> env_get_master env a = Inr b) \<and> authorized ?g (set sigs) A b)"
  let ?c = "\<lambda>x. check_first [check_account_authority ?g x,
        check_getter ?g (env_get_active env) x, check_getter ?g (env_get_master env) x]"
  let ?s = "add_approvals (env_regular_approvals env) ((init_sign_state sigs [])\<lparr>max_recursion := env_max_recursion env\<rparr>)"
  have e: "\<not> is_irrelevant e" if "check_each ?c (req_regular r) ?s = Inl e" and "passed env (Inl e)" for e
    using that(1) by (rule check_each_errors) (use that(2) regular_step_errors [of ?g _ "env_get_active env" "env_get_master env"] in \<open>auto simp del: check_first.simps simp: passed_def\<close>)
  from assms(1) have "passed env (case check_each ?c (req_regular r) ?s of Inl e \<Rightarrow> Inl e
      | Inr (missing, s) \<Rightarrow> if missing \<noteq> [] then Inl (Tx_missing_regular_auth missing (signatures_used s)) else assert_unused_approvals s)"
    by (simp only: verify_regular_def Let_def passed_def split: if_splits) simp_all
  then obtain s' where "check_each ?c (req_regular r) ?s = Inr ([], s')"
    by (rule passed_step) (use e in auto)
  then have "approved_ok ?g (set sigs) A s' \<and> (\<forall>i < length (req_regular r). ?P (req_regular r ! i))"
  proof (rule check_each_sound [where I = "\<lambda>_. approved_ok ?g (set sigs) A" and P = "\<lambda>_. ?P"])
    fix pre x st ok st'
    assume "?c x st = Inr (ok, st')" "approved_ok ?g (set sigs) A st" ok
    moreover have "approved_ok ?g (set sigs) A st' \<and> (ok \<longrightarrow> ?P x)"
      using calculation(1,2) by (rule check_first_sound) (auto dest: check_account_authority_sound check_getter_sound)
    ultimately show "approved_ok ?g (set sigs) A st' \<and> ?P x" by blast
  qed (unfold A_def, rule add_approvals_ok [OF fresh_sign_state])
  then show ?thesis using assms(2) by (metis in_set_conv_nth)
qed

lemma check_active_sound:
  assumes "check_each (\<lambda>x. check_first [check_account_authority g x, check_getter g get_master x]) xs st = Inr ([], st')"
    and "approved_ok g K A st"
  shows "approved_ok g K A st' \<and>
    (\<forall>a \<in> set xs. good_account g K A a \<or> (\<exists>b. get_master a = Inr b \<and> authorized g K A b))"
proof -
  let ?P = "\<lambda>a. good_account g K A a \<or> (\<exists>b. get_master a = Inr b \<and> authorized g K A b)"
  have "approved_ok g K A st' \<and> (\<forall>i < length xs. ?P (xs ! i))"
    using assms
  proof (rule check_each_sound [where I = "\<lambda>_. approved_ok g K A" and P = "\<lambda>_. ?P"])
    fix pre x st ok st'
    assume "check_first [check_account_authority g x, check_getter g get_master x] st = Inr (ok, st')"
      "approved_ok g K A st" ok
    moreover have "approved_ok g K A st' \<and> (ok \<longrightarrow> ?P x)"
      using calculation(1,2)
      by (rule check_first_sound) (auto dest: check_account_authority_sound check_getter_sound)
    ultimately show "approved_ok g K A st' \<and> ?P x" by blast
  qed
  then show ?thesis by (metis in_set_conv_nth)
qed

lemma check_other_sound:
  assumes "check_each (\<lambda>auth st. check_authority g (max_recursion st) auth st) xs st = Inr ([], st')"
    and "approved_ok g K A st"
  shows "approved_ok g K A st' \<and> (\<forall>b \<in> set xs. authorized g K A b)"
proof -
  have "approved_ok g K A st' \<and> (\<forall>i < length xs. authorized g K A (xs ! i))"
    using assms
    by (rule check_each_sound [where I = "\<lambda>_. approved_ok g K A" and P = "\<lambda>_. authorized g K A"])
      (auto simp del: check_authority.simps dest: check_authority_sound(1))
  then show ?thesis by (metis in_set_conv_nth)
qed

lemma check_masters_sound:
  assumes "check_each (check_master g get_master approvals) xs st = Inr ([], st')"
    and "approved_ok g K A st" and "sorted_wrt (<) xs" and "a \<in> set xs"
  shows "a \<in> set approvals \<or> (\<exists>b. get_master a = Inr b \<and> authorized g K (A \<union> {a' \<in> set xs. a' < a}) b)"
proof -
  let ?P = "\<lambda>pre a. a \<in> set approvals \<or> (\<exists>b. get_master a = Inr b \<and> authorized g K (A \<union> set pre) b)"
  have "approved_ok g K (A \<union> set xs) st' \<and> (\<forall>i < length xs. ?P (take i xs) (xs ! i))"
    using assms(1)
  proof (rule check_each_sound [where I = "\<lambda>pre. approved_ok g K (A \<union> set pre)" and P = ?P])
    fix pre x st ok st'
    assume "check_master g get_master approvals x st = Inr (ok, st')" "approved_ok g K (A \<union> set pre) st" ok
    with check_master_sound [of g get_master approvals x st st' K "A \<union> set pre"]
    show "approved_ok g K (A \<union> set (pre @ [x])) st' \<and> ?P pre x" by auto
  qed (use assms(2) in simp)
  moreover obtain i where i: "i < length xs" "a = xs ! i" using assms(4) by (metis in_set_conv_nth)
  moreover have "set (take i xs) = {a' \<in> set xs. a' < a}"
  proof -
    have "xs ! j < a \<longleftrightarrow> j < i" if "j < length xs" for j
      using assms(3) i that by (metis less_asym linorder_cases sorted_wrt_nth_less)
    then have "a' \<in> set xs \<and> a' < a \<longleftrightarrow> (\<exists>j < i. xs ! j = a')" for a'
      using i(1) by (metis in_set_conv_nth order.strict_trans)
    moreover have "a' \<in> set (take i xs) \<longleftrightarrow> (\<exists>j < i. xs ! j = a')" for a'
      using i(1) by (simp add: nth_image [symmetric] image_iff Bex_def) metis
    ultimately show ?thesis by blast
  qed
  ultimately show ?thesis by (metis (lifting))
qed

lemma active_step_errors:
  assumes "check_first [check_account_authority g x, check_getter g gm x] st = Inl e" and "relevant_errors g" and "relevant_errors gm"
  shows "\<not> is_irrelevant e"
  using assms(1) by (rule check_first_errors) (use assms(2,3) in \<open>auto dest: check_account_authority_errors check_getter_errors\<close>)

lemma check_master_errors:
  "check_master g gm approvals nm st = Inl e \<Longrightarrow> relevant_errors g \<Longrightarrow> relevant_errors gm \<Longrightarrow> \<not> is_irrelevant e"
  by (auto simp: check_master_def dest: check_getter_errors split: if_splits sum.splits)

definition approved_state :: "tx_env \<Rightarrow> public_key_type list \<Rightarrow> sign_state" where
  "approved_state env sigs = add_approvals (env_master_approvals env) (add_approvals (env_active_approvals env)
     ((init_sign_state sigs [])\<lparr>max_recursion := env_max_recursion env\<rparr>))"

lemma verify_active_parts:
  assumes "passed env (verify_active env sigs r)"
  obtains s1 s2 s3 where
    "check_each (\<lambda>auth st. check_authority (env_get_active env) (max_recursion st) auth st) (req_other r) (approved_state env sigs) = Inr ([], s1)"
    "check_each (\<lambda>x. check_first [check_account_authority (env_get_active env) x,
       check_getter (env_get_active env) (env_get_master env) x]) (req_active r) s1 = Inr ([], s2)"
    "check_each (check_master (env_get_active env) (env_get_master env) (env_master_approvals env)) (req_master r) s2 = Inr ([], s3)"
proof -
  let ?g = "env_get_active env" and ?m = "env_get_master env"
  let ?c1 = "\<lambda>auth st. check_authority ?g (max_recursion st) auth st"
  let ?c2 = "\<lambda>x. check_first [check_account_authority ?g x, check_getter ?g ?m x]"
  let ?c3 = "check_master ?g ?m (env_master_approvals env)"
  have e1: "\<not> is_irrelevant e" if "check_each ?c1 xs s = Inl e" and "passed env (Inl e)" for xs s e
    using that(1) by (rule check_each_errors) (use that(2) in \<open>auto simp del: check_authority.simps simp: passed_def dest: check_authority_errors\<close>)
  have e2: "\<not> is_irrelevant e" if "check_each ?c2 xs s = Inl e" and "passed env (Inl e)" for xs s e
    using that(1) by (rule check_each_errors) (use that(2) active_step_errors [of ?g _ ?m] in \<open>auto simp del: check_first.simps simp: passed_def\<close>)
  have e3: "\<not> is_irrelevant e" if "check_each ?c3 xs s = Inl e" and "passed env (Inl e)" for xs s e
    using that(1) by (rule check_each_errors) (use that(2) in \<open>auto simp: passed_def dest: check_master_errors\<close>)
  have v: "passed env (case check_each ?c1 (req_other r) (approved_state env sigs) of Inl e \<Rightarrow> Inl e
      | Inr (missing, s1) \<Rightarrow> if missing \<noteq> [] then Inl Tx_missing_other_auth
        else case check_each ?c2 (req_active r) s1 of Inl e \<Rightarrow> Inl e
      | Inr (missing, s2) \<Rightarrow> if missing \<noteq> [] then Inl (Tx_missing_active_auth missing (signatures_used s2))
        else case check_each ?c3 (req_master r) s2 of Inl e \<Rightarrow> Inl e
      | Inr (missing, s3) \<Rightarrow> if missing \<noteq> [] then Inl (Tx_missing_master_auth missing (signatures_used s3)) else assert_unused_approvals s3)"
    using assms unfolding verify_active_def Let_def approved_state_def .
  obtain s1 where s1: "check_each ?c1 (req_other r) (approved_state env sigs) = Inr ([], s1)"
    and v1: "passed env (case check_each ?c2 (req_active r) s1 of Inl e \<Rightarrow> Inl e
      | Inr (missing, s2) \<Rightarrow> if missing \<noteq> [] then Inl (Tx_missing_active_auth missing (signatures_used s2))
        else case check_each ?c3 (req_master r) s2 of Inl e \<Rightarrow> Inl e
      | Inr (missing, s3) \<Rightarrow> if missing \<noteq> [] then Inl (Tx_missing_master_auth missing (signatures_used s3)) else assert_unused_approvals s3)"
    by (rule passed_step [OF v]) (use e1 in \<open>auto simp del: check_authority.simps\<close>)
  obtain s2 where s2: "check_each ?c2 (req_active r) s1 = Inr ([], s2)"
    and v2: "passed env (case check_each ?c3 (req_master r) s2 of Inl e \<Rightarrow> Inl e
      | Inr (missing, s3) \<Rightarrow> if missing \<noteq> [] then Inl (Tx_missing_master_auth missing (signatures_used s3)) else assert_unused_approvals s3)"
    by (rule passed_step [OF v1]) (use e2 in \<open>auto simp del: check_first.simps\<close>)
  obtain s3 where s3: "check_each ?c3 (req_master r) s2 = Inr ([], s3)"
    by (rule passed_step [OF v2]) (use e3 in auto)
  from s1 s2 s3 show thesis by (rule that)
qed

lemma verify_active_sound:
  assumes "passed env (verify_active env sigs r)" and "sorted_wrt (<) (req_master r)"
  defines "g \<equiv> env_get_active env" and "A \<equiv> {''temp''} \<union> set (env_active_approvals env) \<union> set (env_master_approvals env)"
  shows "\<forall>b \<in> set (req_other r). authorized g (set sigs) A b"
    and "\<forall>a \<in> set (req_active r). good_account g (set sigs) A a \<or>
           (\<exists>b. env_get_master env a = Inr b \<and> authorized g (set sigs) A b)"
    and "\<forall>a \<in> set (req_master r). a \<in> set (env_master_approvals env) \<or> (\<exists>b. env_get_master env a = Inr b \<and>
           authorized g (set sigs) (A \<union> {a' \<in> set (req_master r). a' < a}) b)"
proof -
  from assms(1) obtain s1 s2 s3 where
    c1: "check_each (\<lambda>auth st. check_authority g (max_recursion st) auth st) (req_other r) (approved_state env sigs) = Inr ([], s1)" and
    c2: "check_each (\<lambda>x. check_first [check_account_authority g x, check_getter g (env_get_master env) x]) (req_active r) s1 = Inr ([], s2)" and
    c3: "check_each (check_master g (env_get_master env) (env_master_approvals env)) (req_master r) s2 = Inr ([], s3)"
    unfolding g_def by (rule verify_active_parts)
  have "approved_ok g (set sigs) A (approved_state env sigs)"
    unfolding A_def approved_state_def by (intro add_approvals_ok fresh_sign_state)
  note s1 = check_other_sound [OF c1 this]
  note s2 = check_active_sound [OF c2 conjunct1 [OF s1]]
  show "\<forall>b \<in> set (req_other r). authorized g (set sigs) A b" using s1 by simp
  show "\<forall>a \<in> set (req_active r). good_account g (set sigs) A a \<or>
           (\<exists>b. env_get_master env a = Inr b \<and> authorized g (set sigs) A b)"
    using s2 by simp
  show "\<forall>a \<in> set (req_master r). a \<in> set (env_master_approvals env) \<or> (\<exists>b. env_get_master env a = Inr b \<and>
           authorized g (set sigs) (A \<union> {a' \<in> set (req_master r). a' < a}) b)"
    using check_masters_sound [OF c3 conjunct1 [OF s2] assms(2)] by blast
qed

text \<open>
  What a passed check means for one operation: the accounts it acts for are approved, or their authorities are
  satisfied by the keys and the approvals.
\<close>

definition authorised_by :: "tx_env \<Rightarrow> public_key_type set \<Rightarrow> operation list \<Rightarrow> operation \<Rightarrow> bool" where
  "authorised_by env K ops o' =
     (let A = {''temp''} \<union> set (env_active_approvals env) \<union> set (env_master_approvals env);
          R = {''temp''} \<union> set (env_regular_approvals env)
      in (\<forall>a \<in> set (get_required_active o'). good_account (env_get_active env) K A a \<or>
            (\<exists>b. env_get_master env a = Inr b \<and> authorized (env_get_active env) K A b)) \<and>
         (\<forall>b \<in> set (get_required_other o'). authorized (env_get_active env) K A b) \<and>
         (\<forall>a \<in> set (get_required_master o'). a \<in> set (env_master_approvals env) \<or> (\<exists>b. env_get_master env a = Inr b \<and>
            authorized (env_get_active env) K (A \<union> {a' \<in> set (req_master (get_required_authorities ops)). a' < a}) b)) \<and>
         (\<forall>a \<in> set (get_required_regular o'). good_account (env_get_regular env) K R a \<or>
            (\<exists>b. (env_get_active env a = Inr b \<or> env_get_master env a = Inr b) \<and> authorized (env_get_regular env) K R b)))"

lemma passed_authorised:
  assumes "passed env (verify_authority env ops sigs)" and "o' \<in> set ops"
  shows "authorised_by env (set sigs) ops o'"
proof -
  let ?r = "get_required_authorities ops"
  have sub: "set (get_required_active o') \<subseteq> set (req_active ?r)" "set (get_required_other o') \<subseteq> set (req_other ?r)"
    "set (get_required_master o') \<subseteq> set (req_master ?r)" "set (get_required_regular o') \<subseteq> set (req_regular ?r)"
    using assms(2) by (auto simp: required_sets)
  show ?thesis
  proof (cases "req_regular ?r = []")
    case True
    with assms(1) have "passed env (verify_active env sigs ?r)" by (simp add: verify_authority_def)
    note va = verify_active_sound [OF this required_master_sorted]
    from True sub(4) have "get_required_regular o' = []" by simp
    then show ?thesis using va sub(1-3) by (simp add: subset_iff authorised_by_def Let_def)
  next
    case False
    with assms(1) have vr: "passed env (verify_regular env sigs ?r)" by (simp add: verify_authority_def)
    then have "req_active ?r = []" "req_other ?r = []" "req_master ?r = []"
      by (auto simp: verify_regular_def passed_def split: if_splits)
    then have "get_required_active o' = []" "get_required_other o' = []" "get_required_master o' = []"
      using sub(1-3) by simp_all
    then show ?thesis using verify_regular_sound [OF vr] sub(4) by (simp add: subset_iff authorised_by_def Let_def)
  qed
qed

section \<open>The guarantees\<close>

text \<open>C2: a transaction that passes the authority check was signed for everything it does.  For every
  operation: each account whose active authority it needs has its active or master authority satisfied
  by the signing keys, each explicit authority (account recovery, key approvals) is satisfied, each
  account whose regular authority it needs has its regular, active or master authority satisfied, and
  each account whose master authority it needs has its master authority satisfied (the accounts already
  checked before it, in the order of names, count as approved).  Only the reserved name temp is exempt.\<close>

theorem verify_authority_sound:
  assumes "verify_authority env ops sigs = Inr ()" and "o' \<in> set ops"
    and "env_active_approvals env = []" and "env_master_approvals env = []" and "env_regular_approvals env = []"
  shows "(\<forall>a \<in> set (get_required_active o'). good_account (env_get_active env) (set sigs) {''temp''} a \<or>
            (\<exists>b. env_get_master env a = Inr b \<and> authorized (env_get_active env) (set sigs) {''temp''} b)) \<and>
         (\<forall>b \<in> set (get_required_other o'). authorized (env_get_active env) (set sigs) {''temp''} b) \<and>
         (\<forall>a \<in> set (get_required_master o'). \<exists>b. env_get_master env a = Inr b \<and>
            authorized (env_get_active env) (set sigs)
              ({''temp''} \<union> {a' \<in> set (req_master (get_required_authorities ops)). a' < a}) b) \<and>
         (\<forall>a \<in> set (get_required_regular o'). good_account (env_get_regular env) (set sigs) {''temp''} a \<or>
            (\<exists>b. (env_get_active env a = Inr b \<or> env_get_master env a = Inr b) \<and>
                 authorized (env_get_regular env) (set sigs) {''temp''} b))"
  using passed_authorised [of env ops sigs o'] assms by (simp add: authorised_by_def Let_def)

definition sample_env :: tx_env where
  "sample_env = \<lparr>env_get_active = sample_getter, env_get_master = sample_getter, env_get_regular = sample_getter,
     env_max_recursion = CHAIN_MAX_SIG_CHECK_DEPTH, env_active_approvals = [], env_master_approvals = [],
     env_regular_approvals = []\<rparr>"

definition sample_transfer :: operation where
  "sample_transfer = Transfer \<lparr>tr_from = ''bob'', tr_to = ''alice'', tr_amount = mk_asset 1 TOKEN_SYMBOL, tr_memo = []\<rparr>"

theorem verify_authority_sound_witness:
  "good_account sample_getter (set [''KB'']) {''temp''} ''bob'' \<or>
     (\<exists>b. sample_getter ''bob'' = Inr b \<and> authorized sample_getter (set [''KB'']) {''temp''} b)"
proof -
  have "get_required_authorities [sample_transfer] =
      \<lparr>req_active = [''bob''], req_master = [], req_regular = [], req_other = []\<rparr>"
    by (simp add: get_required_authorities_def operation_get_required_authorities_def sample_transfer_def
        get_required_active_def get_required_master_def get_required_regular_def get_required_other_def
        flat_insert_all_def mk_asset_def)
  then have "verify_authority sample_env [sample_transfer] [''KB''] = Inr ()"
    by (simp add: verify_authority_def verify_active_def sample_env_def add_approvals_def init_sign_state_def
        check_account_authority_def sample_getter_def signed_by_def assert_unused_approvals_def
        remove_unused_signatures_def filter_unused_approvals_def Let_def)
  from verify_authority_sound [OF this, of sample_transfer]
  have "\<forall>a \<in> set (get_required_active sample_transfer). good_account sample_getter (set [''KB'']) {''temp''} a \<or>
            (\<exists>b. sample_getter a = Inr b \<and> authorized sample_getter (set [''KB'']) {''temp''} b)"
    by (simp add: sample_env_def)
  then show ?thesis by (simp add: sample_transfer_def get_required_active_def mk_asset_def)
qed


lemma flat_insert_removeAll:
  "sorted_wrt (<) xs \<Longrightarrow> k \<in> set xs \<Longrightarrow> flat_insert k (removeAll k xs) = xs"
proof (induction xs)
  case (Cons x xs)
  have *: "x \<notin> set xs" "\<forall>y \<in> set xs. x < y" "sorted_wrt (<) xs" using Cons.prems(1) by auto
  show ?case
  proof (cases "k = x")
    case True
    then show ?thesis using * by (cases xs) auto
  next
    case False
    then show ?thesis using Cons * by auto
  qed
qed simp

lemma minimize_keys_sound:
  "minimize_keys verify ks s = Inr res \<Longrightarrow> sorted_wrt (<) s \<Longrightarrow> set ks \<subseteq> set s \<Longrightarrow> distinct ks \<Longrightarrow>
     set res \<subseteq> set s \<and> (res = s \<or> verify res = Inr ())"
proof (induction verify ks s rule: minimize_keys.induct)
  case (2 verify k ks s)
  show ?case
  proof (cases "verify (removeAll k s)")
    case (Inl e)
    have ins: "flat_insert k (removeAll k s) = s" using "2.prems"(2,3) by (simp add: flat_insert_removeAll)
    with Inl "2.prems"(1) have "is_missing_auth e" "minimize_keys verify ks s = Inr res"
      by (auto split: if_splits)
    then show ?thesis using "2.IH"(1) [OF Inl, unfolded ins] "2.prems"(2-4) by simp
  next
    case (Inr u)
    have "sorted_wrt (<) (removeAll k s)" using "2.prems"(2) by (simp add: removeAll_filter_not_eq sorted_wrt_filter)
    moreover have "set ks \<subseteq> set (removeAll k s)" using "2.prems"(3,4) by auto
    ultimately have "set res \<subseteq> set (removeAll k s) \<and> (res = removeAll k s \<or> verify res = Inr ())"
      using "2.IH"(2) [OF Inr] "2.prems"(1,4) Inr by simp
    then show ?thesis using Inr by auto
  qed
qed simp

text \<open>Dropping signatures one at a time never drops too many: the minimised set is a subset of the
  required signatures, and either nothing was dropped or the minimised set still passes the authority
  check.\<close>

theorem minimize_required_signatures_sound:
  assumes "get_required_signatures env ops sigs keys = Inr s"
    and "minimize_required_signatures env ops sigs keys = Inr res"
  shows "set res \<subseteq> set s \<and> (res = s \<or> verify_authority env ops res = Inr ())"
proof -
  have sorted: "sorted_wrt (<) s"
    using assms(1) by (auto simp: get_required_signatures_def run_simps Let_def
        intro: sorted_flat_insert_all split: if_splits)
  then have "distinct s" by (simp add: strict_sorted_iff)
  with sorted show ?thesis
    using minimize_keys_sound [OF _ sorted] assms by (simp add: minimize_required_signatures_def)
qed

theorem minimize_required_signatures_sound_witness:
  "set [''KB''] \<subseteq> set [''KB''] \<and> ([''KB''] = [''KB''] \<or> verify_authority sample_env [sample_transfer] [''KB''] = Inr ())"
proof -
  have r: "get_required_authorities [sample_transfer] =
      \<lparr>req_active = [''bob''], req_master = [], req_regular = [], req_other = []\<rparr>"
    by (simp add: get_required_authorities_def operation_get_required_authorities_def sample_transfer_def
        get_required_active_def get_required_master_def get_required_regular_def get_required_other_def
        flat_insert_all_def mk_asset_def)
  have s: "get_required_signatures sample_env [sample_transfer] [''KB''] [''KB''] = Inr [''KB'']"
    by (simp add: r get_required_signatures_def sample_env_def run_checks_def init_sign_state_def
        check_account_authority_def sample_getter_def signed_by_def signing_keys_def
        remove_unused_signatures_def flat_insert_all_def Let_def)
  have "minimize_required_signatures sample_env [sample_transfer] [''KB''] [''KB''] = Inr [''KB'']"
    by (simp add: minimize_required_signatures_def s) (simp add: r verify_authority_def verify_active_def sample_env_def add_approvals_def init_sign_state_def
        check_account_authority_def check_getter_def sample_getter_def signed_by_def Let_def)
  from minimize_required_signatures_sound [OF s this] show ?thesis .
qed

end
