(* ===== verification/Protocol_Version.thy ===== *)
theory Protocol_Version
  imports Viz_Prelude
begin

unbundle bit_operations_syntax

text \<open>
  Version numbers (\<open>protocol/version.hpp\<close>, \<open>protocol/version.cpp\<close>): a 32-bit word that packs
  a major number, a hardfork number and a release number, with its text form and its comparison.
\<close>

record version =
  v_num :: "32 word"

definition make_version :: "8 word \<Rightarrow> 8 word \<Rightarrow> 16 word \<Rightarrow> version" where
  "make_version m h r =
     (let v1 = push_bit 8 (ucast m :: 32 word);
          v2 = push_bit 16 (v1 OR ucast h);
          v3 = v2 OR ucast r
      in \<lparr>v_num = v3\<rparr>)"

definition version_lt :: "version \<Rightarrow> version \<Rightarrow> bool" where
  "version_lt a b = (v_num a < v_num b)"

definition version_le :: "version \<Rightarrow> version \<Rightarrow> bool" where
  "version_le a b = (v_num a \<le> v_num b)"

definition version_string :: "version \<Rightarrow> string" where
  "version_string v =
     nat_digits (unat (drop_bit 24 (v_num v) AND 0xFF)) @ ''.'' @
     nat_digits (unat (drop_bit 16 (v_num v) AND 0xFF)) @ ''.'' @
     nat_digits (unat (v_num v AND 0xFFFF))"

definition make_hardfork_version :: "version \<Rightarrow> version" where
  "make_hardfork_version v = \<lparr>v_num = v_num v AND 0xFFFF0000\<rparr>"

text \<open>Comparison of a hardfork version with a version looks at the upper half only.\<close>

definition hardfork_version_eq :: "version \<Rightarrow> version \<Rightarrow> bool" where
  "hardfork_version_eq hv o' = (v_num hv = v_num o' AND 0xFFFF0000)"

definition hardfork_version_lt :: "version \<Rightarrow> version \<Rightarrow> bool" where
  "hardfork_version_lt hv o' = (v_num hv < v_num o' AND 0xFFFF0000)"

section \<open>Reading the text form\<close>

text \<open>
  An input string stream: the characters left, and the fail and end-of-file flags.  Formatted
  extraction skips blanks, does nothing once the stream has failed, and reading an unsigned number
  accepts a sign.
\<close>

record istream =
  left :: string
  failed :: bool
  at_eof :: bool

definition is_space :: "char \<Rightarrow> bool" where
  "is_space c = (c = CHR '' '' \<or> (9 \<le> (of_char c :: nat) \<and> (of_char c :: nat) \<le> 13))"

definition read_uint32 :: "istream \<Rightarrow> nat \<times> istream" where
  "read_uint32 s =
     (if failed s \<or> at_eof s then (0, s\<lparr>failed := True\<rparr>)
      else let s1 = dropWhile is_space (left s);
               neg = (s1 \<noteq> [] \<and> hd s1 = CHR ''-'');
               s2 = (if s1 \<noteq> [] \<and> (hd s1 = CHR ''-'' \<or> hd s1 = CHR ''+'') then tl s1 else s1);
               ds = takeWhile is_digit s2;
               rest = dropWhile is_digit s2;
               v = digits_value ds
           in if ds = [] then (0, \<lparr>left = rest, failed = True, at_eof = (rest = [])\<rparr>)
              else if v > 2 ^ 32 - 1
              then (2 ^ 32 - 1, \<lparr>left = rest, failed = True, at_eof = (rest = [])\<rparr>)
              else (if neg then (2 ^ 32 - v) mod 2 ^ 32 else v,
                    \<lparr>left = rest, failed = False, at_eof = (rest = [])\<rparr>))"

definition read_char :: "istream \<Rightarrow> char \<times> istream" where
  "read_char s =
     (if failed s \<or> at_eof s then (CHR 0x00, s\<lparr>failed := True\<rparr>)
      else case dropWhile is_space (left s) of
             [] \<Rightarrow> (CHR 0x00, \<lparr>left = [], failed = True, at_eof = True\<rparr>)
           | c # cs \<Rightarrow> (c, s\<lparr>left := cs\<rparr>))"

definition version_from_variant :: "string \<Rightarrow> version result" where
  "version_from_variant str =
     (let (major, s1) = read_uint32 \<lparr>left = str, failed = False, at_eof = False\<rparr>;
          (dot_a, s2) = read_char s1;
          (hardfork, s3) = read_uint32 s2;
          (dot_b, s4) = read_char s3;
          (revision, s5) = read_uint32 s4
      in if \<not> ((dot_a = CHR ''.'' \<or> dot_a = CHR ''_'') \<and> dot_a = dot_b)
         then Inl (FC_Assert ''Variant does not contain proper dotted decimal format'')
         else if \<not> major \<le> 0xFF then Inl (FC_Assert ''Major version is out of range'')
         else if \<not> hardfork \<le> 0xFF then Inl (FC_Assert ''Hardfork version is out of range'')
         else if \<not> revision \<le> 0xFFFF then Inl (FC_Assert ''Revision version is out of range'')
         else if \<not> at_eof s5 then Inl (FC_Assert ''Extra information at end of version string'')
         else Inr \<lparr>v_num = push_bit 24 (of_nat major) OR push_bit 16 (of_nat hardfork) OR of_nat revision\<rparr>)"

definition hardfork_version_from_variant :: "string \<Rightarrow> version result" where
  "hardfork_version_from_variant str =
     (case version_from_variant str of Inl e \<Rightarrow> Inl e
      | Inr ver \<Rightarrow> Inr \<lparr>v_num = v_num ver AND 0xFFFF0000\<rparr>)"

section \<open>Properties\<close>

lemma digits_not_space: "is_digit c \<Longrightarrow> \<not> is_space c \<and> c \<noteq> CHR ''-'' \<and> c \<noteq> CHR ''+'' \<and> c \<noteq> CHR ''.''"
  by (auto simp: is_digit_def is_space_def)

lemma hd_nat_digits: "is_digit (hd (nat_digits n))"
  by (rule nat_digits_all [of _ n]) simp

lemma takeWhile_digits:
  assumes "rest = [] \<or> \<not> is_digit (hd rest)"
  shows "takeWhile is_digit (nat_digits n @ rest) = nat_digits n"
    and "dropWhile is_digit (nat_digits n @ rest) = rest"
proof -
  have all: "\<And>c. c \<in> set (nat_digits n) \<Longrightarrow> is_digit c" by (rule nat_digits_all)
  show "takeWhile is_digit (nat_digits n @ rest) = nat_digits n"
    using assms by (cases rest) (simp_all add: all takeWhile_append2)
  show "dropWhile is_digit (nat_digits n @ rest) = rest"
    using assms by (cases rest) (simp_all add: all dropWhile_append2)
qed

lemma read_uint32_digits:
  assumes "n < 2 ^ 32" and "rest = [] \<or> \<not> is_digit (hd rest)"
  shows "read_uint32 \<lparr>left = nat_digits n @ rest, failed = False, at_eof = False\<rparr>
     = (n, \<lparr>left = rest, failed = False, at_eof = (rest = [])\<rparr>)"
proof -
  have hd: "\<not> is_space (hd (nat_digits n))" "hd (nat_digits n) \<noteq> CHR ''-''" "hd (nat_digits n) \<noteq> CHR ''+''"
    using digits_not_space [OF hd_nat_digits] by blast+
  have "dropWhile is_space (nat_digits n @ rest) = nat_digits n @ rest"
    using hd(1) by (cases "nat_digits n") simp_all
  then show ?thesis
    using assms(1) takeWhile_digits [OF assms(2)] hd(2,3) by (simp add: read_uint32_def Let_def)
qed

lemma read_uint32_dot:
  "n < 2 ^ 32 \<Longrightarrow> read_uint32 \<lparr>left = nat_digits n @ CHR ''.'' # rest, failed = False, at_eof = False\<rparr>
     = (n, \<lparr>left = CHR ''.'' # rest, failed = False, at_eof = False\<rparr>)"
  using read_uint32_digits [of n "CHR ''.'' # rest"] by (simp add: is_digit_def)

lemma read_uint32_last:
  "n < 2 ^ 32 \<Longrightarrow> read_uint32 \<lparr>left = nat_digits n, failed = False, at_eof = False\<rparr>
     = (n, \<lparr>left = [], failed = False, at_eof = True\<rparr>)"
  using read_uint32_digits [of n "[]"] by simp

lemma read_char_dot:
  "read_char \<lparr>left = CHR ''.'' # rest, failed = False, at_eof = False\<rparr>
     = (CHR ''.'', \<lparr>left = rest, failed = False, at_eof = False\<rparr>)"
  by (simp add: read_char_def is_space_def)

lemma unat_and_le: "unat (v AND m) \<le> unat (m :: 32 word)"
  using word_and_le1 word_le_nat_alt by blast

lemma version_parts_bound:
  "unat (v AND 0xFF :: 32 word) \<le> 0xFF" "unat (v AND 0xFFFF :: 32 word) \<le> 0xFFFF"
  by (rule order_trans [OF unat_and_le], simp)+

lemma version_parts_join:
  "push_bit 24 (drop_bit 24 (v :: 32 word) AND 0xFF) OR push_bit 16 (drop_bit 16 v AND 0xFF)
     OR (v AND 0xFFFF) = v"
proof (rule bit_eqI)
  have m8: "(0xFF :: 32 word) = mask 8" and m16: "(0xFFFF :: 32 word) = mask 16"
    by (simp_all add: mask_eq_exp_minus_1)
  fix n
  show "bit (push_bit 24 (drop_bit 24 v AND 0xFF) OR push_bit 16 (drop_bit 16 v AND 0xFF)
     OR (v AND 0xFFFF)) n = bit v n" if "possible_bit TYPE(32 word) n"
    unfolding m8 m16 using that by (cases "24 \<le> n") (auto simp: bit_simps)
qed

text \<open>Every version prints to a dotted text that parses back to the same version.\<close>

theorem version_string_roundtrip: "version_from_variant (version_string v) = Inr v"
proof -
  let ?a = "drop_bit 24 (v_num v) AND 0xFF" and ?b = "drop_bit 16 (v_num v) AND 0xFF"
    and ?c = "v_num v AND 0xFFFF"
  have le: "unat ?a \<le> 0xFF" "unat ?b \<le> 0xFF" "unat ?c \<le> 0xFFFF"
    by (rule version_parts_bound)+
  have "version_from_variant (version_string v) =
      Inr \<lparr>v_num = push_bit 24 ?a OR push_bit 16 ?b OR ?c\<rparr>"
    using le by (simp add: version_from_variant_def version_string_def Let_def
        read_uint32_dot read_uint32_last read_char_dot)
  also have "\<lparr>v_num = push_bit 24 ?a OR push_bit 16 ?b OR ?c\<rparr> = v"
    by (subst version_parts_join) simp
  finally show ?thesis .
qed

lemma nat_push_bit_or:
  assumes "b < 2 ^ k"
  shows "push_bit k (a::nat) OR b = a * 2 ^ k + b"
proof -
  have b: "take_bit k b = b" using assms by (simp add: take_bit_nat_eq_self_iff)
  have "push_bit k a AND b = 0"
    by (subst b [symmetric], rule bit_eqI) (auto simp: bit_simps)
  then show ?thesis by (simp add: disjunctive_add_eq_or [symmetric] push_bit_eq_mult)
qed

lemma unat_push_bit_or:
  assumes "unat (w :: 32 word) * 2 ^ k < 2 ^ 32" and "unat b < 2 ^ k"
  shows "unat (push_bit k w OR b) = unat w * 2 ^ k + unat b"
proof -
  have "take_bit 32 (push_bit k (unat w)) = push_bit k (unat w)"
    using assms(1) by (intro take_bit_nat_eq_self) (simp add: push_bit_eq_mult)
  with nat_push_bit_or [OF assms(2), of "unat w"] show ?thesis
    by (simp add: unsigned_or_eq unsigned_push_bit_eq)
qed

lemma make_version_unat:
  "unat (v_num (make_version m h r)) = (unat m * 2 ^ 8 + unat h) * 2 ^ 16 + unat r"
proof -
  have lt: "unat m < 2 ^ 8" "unat h < 2 ^ 8" "unat r < 2 ^ 16"
    using unsigned_less [of m, where ?'a = nat] unsigned_less [of h, where ?'a = nat]
      unsigned_less [of r, where ?'a = nat] by simp_all
  have c: "unat (ucast m :: 32 word) = unat m" "unat (ucast h :: 32 word) = unat h"
    "unat (ucast r :: 32 word) = unat r"
    using lt by (simp_all add: unsigned_ucast_eq take_bit_nat_eq_self)
  have mh: "unat (push_bit 8 (ucast m) OR (ucast h :: 32 word)) = unat m * 2 ^ 8 + unat h"
    using lt by (subst unat_push_bit_or) (simp_all add: c)
  show ?thesis
    unfolding make_version_def Let_def version.simps
    using lt by (subst unat_push_bit_or) (simp_all only: c mh, simp_all)
qed

text \<open>Comparing two packed versions compares major, hardfork and release number in this order.\<close>

theorem version_order_lexicographic:
  "version_lt (make_version m h r) (make_version m' h' r') \<longleftrightarrow>
     m < m' \<or> m = m' \<and> (h < h' \<or> h = h' \<and> r < r')"
proof -
  have lt: "unat h < 2 ^ 8" "unat r < 2 ^ 16" "unat h' < 2 ^ 8" "unat r' < 2 ^ 16"
    using unsigned_less [of h, where ?'a = nat] unsigned_less [of r, where ?'a = nat] unsigned_less [of h', where ?'a = nat] unsigned_less [of r', where ?'a = nat] by simp_all
  show ?thesis
    using lt by (simp add: version_lt_def word_less_nat_alt word_unat_eq_iff make_version_unat) linarith
qed

end
