(* ===== verification/Chain_Objects.thy ===== *)
theory Chain_Objects
  imports Protocol_Operations Protocol_Version
begin

text \<open>
  The objects of the chain state (\<open>chain/*_object*.hpp\<close>) and the state itself: one table per
  object type, each the list of its rows in the order of their ids, and the singleton objects as
  fields.  Times are seconds since the epoch; \<open>share_type\<close> (\<open>fc::safe<int64_t>\<close>, which throws when it
  would leave its range) is an integer.  Ids are kept where other objects refer to them (accounts
  and witnesses).
\<close>

section \<open>Accounts\<close>

record account_object =
  acc_id :: nat
  acc_name :: account_name_type
  acc_memo_key :: public_key_type
  acc_proxy :: account_name_type
  acc_referrer :: account_name_type
  acc_last_account_update :: int
  acc_created :: int
  acc_recovery_account :: account_name_type
  acc_last_account_recovery :: int
  acc_subcontent_count :: int
  acc_vote_count :: int
  acc_content_count :: int
  acc_awarded_rshares :: int
  acc_custom_sequence :: int
  acc_custom_sequence_block_num :: int
  acc_energy :: int
  acc_last_vote_time :: int
  acc_balance :: asset
  acc_curation_rewards :: int
  acc_posting_rewards :: int
  acc_receiver_awards :: int
  acc_benefactor_awards :: int
  acc_vesting_shares :: asset
  acc_delegated_vesting_shares :: asset
  acc_received_vesting_shares :: asset
  acc_vesting_withdraw_rate :: asset
  acc_next_vesting_withdrawal :: int
  acc_withdrawn :: int
  acc_to_withdraw :: int
  acc_withdraw_routes :: int
  acc_proxied_vsf_votes :: "int list"
  acc_witnesses_voted_for :: int
  acc_witnesses_vote_weight :: int
  acc_last_root_post :: int
  acc_last_post :: int
  acc_average_bandwidth :: int
  acc_lifetime_bandwidth :: int
  acc_last_bandwidth_update :: int
  acc_valid :: bool
  acc_account_seller :: account_name_type
  acc_account_offer_price :: asset
  acc_account_on_sale :: bool
  acc_account_on_sale_start_time :: int
  acc_reserved_balance :: asset
  acc_target_buyer :: account_name_type
  acc_account_on_auction :: bool
  acc_current_bid :: asset
  acc_current_bidder :: account_name_type
  acc_current_bidder_key :: public_key_type
  acc_last_bid :: asset
  acc_subaccount_seller :: account_name_type
  acc_subaccount_offer_price :: asset
  acc_subaccount_on_sale :: bool


text \<open>The values of a new account object: the default member initialisers of the class.\<close>

definition account_object_defaults :: account_object where
  "account_object_defaults =
     \<lparr>acc_id = 0,
      acc_name = [],
      acc_memo_key = [],
      acc_proxy = [],
      acc_referrer = [],
      acc_last_account_update = 0,
      acc_created = 0,
      acc_recovery_account = [],
      acc_last_account_recovery = 0,
      acc_subcontent_count = 0,
      acc_vote_count = 0,
      acc_content_count = 0,
      acc_awarded_rshares = 0,
      acc_custom_sequence = 0,
      acc_custom_sequence_block_num = 0,
      acc_energy = CHAIN_100_PERCENT,
      acc_last_vote_time = 0,
      acc_balance = mk_asset 0 TOKEN_SYMBOL,
      acc_curation_rewards = 0,
      acc_posting_rewards = 0,
      acc_receiver_awards = 0,
      acc_benefactor_awards = 0,
      acc_vesting_shares = mk_asset 0 SHARES_SYMBOL,
      acc_delegated_vesting_shares = mk_asset 0 SHARES_SYMBOL,
      acc_received_vesting_shares = mk_asset 0 SHARES_SYMBOL,
      acc_vesting_withdraw_rate = mk_asset 0 SHARES_SYMBOL,
      acc_next_vesting_withdrawal = 2 ^ 32 - 1,
      acc_withdrawn = 0,
      acc_to_withdraw = 0,
      acc_withdraw_routes = 0,
      acc_proxied_vsf_votes = [0, 0, 0, 0],
      acc_witnesses_voted_for = 0,
      acc_witnesses_vote_weight = 0,
      acc_last_root_post = 0,
      acc_last_post = 0,
      acc_average_bandwidth = 0,
      acc_lifetime_bandwidth = 0,
      acc_last_bandwidth_update = 0,
      acc_valid = True,
      acc_account_seller = [],
      acc_account_offer_price = mk_asset 0 TOKEN_SYMBOL,
      acc_account_on_sale = False,
      acc_account_on_sale_start_time = 0,
      acc_reserved_balance = mk_asset 0 TOKEN_SYMBOL,
      acc_target_buyer = [],
      acc_account_on_auction = False,
      acc_current_bid = mk_asset 0 TOKEN_SYMBOL,
      acc_current_bidder = [],
      acc_current_bidder_key = [],
      acc_last_bid = mk_asset 0 TOKEN_SYMBOL,
      acc_subaccount_seller = [],
      acc_subaccount_offer_price = mk_asset 0 TOKEN_SYMBOL,
      acc_subaccount_on_sale = False\<rparr>"

definition witness_vote_weight :: "account_object \<Rightarrow> int" where
  "witness_vote_weight a = sum_list (acc_proxied_vsf_votes a) + amount (acc_vesting_shares a)"

definition witness_vote_fair_weight_prehf5 :: "account_object \<Rightarrow> int" where
  "witness_vote_fair_weight_prehf5 a =
     sum_list (acc_proxied_vsf_votes a) +
     (if 0 < acc_witnesses_voted_for a
      then i64 (u64 (u128 (amount (acc_vesting_shares a)) div acc_witnesses_voted_for a)) else 0)"

definition witness_vote_fair_weight :: "account_object \<Rightarrow> int" where
  "witness_vote_fair_weight a =
     (if 0 < acc_witnesses_voted_for a
      then i64 (u64 (u128 (sum_list (acc_proxied_vsf_votes a) + amount (acc_vesting_shares a))
             div acc_witnesses_voted_for a))
      else 0)"

definition proxied_vsf_votes_total :: "account_object \<Rightarrow> int" where
  "proxied_vsf_votes_total a = sum_list (acc_proxied_vsf_votes a)"

text \<open>The share fields of an account all carry the symbol SHARES; the differences are taken on the amounts.\<close>

definition effective_vesting_shares :: "account_object \<Rightarrow> int" where
  "effective_vesting_shares a =
     amount (acc_vesting_shares a) - amount (acc_delegated_vesting_shares a)
       + amount (acc_received_vesting_shares a)"

definition available_vesting_shares :: "account_object \<Rightarrow> bool \<Rightarrow> int" where
  "available_vesting_shares a consider_withdrawal =
     (let have = amount (acc_vesting_shares a) - amount (acc_delegated_vesting_shares a)
      in if consider_withdrawal then have - (acc_to_withdraw a - acc_withdrawn a) else have)"

record account_authority_object =
  aa_account :: account_name_type
  aa_master :: authority
  aa_active :: authority
  aa_regular :: authority
  aa_last_master_update :: int

record account_metadata_object =
  amo_account :: account_name_type
  amo_json_metadata :: string

record vesting_delegation_object =
  vd_delegator :: account_name_type
  vd_delegatee :: account_name_type
  vd_vesting_shares :: asset
  vd_min_delegation_time :: int

record fix_vesting_delegation_object =
  fvd_delegator :: account_name_type
  fvd_delegatee :: account_name_type
  fvd_vesting_shares :: asset

record vesting_delegation_expiration_object =
  vde_delegator :: account_name_type
  vde_vesting_shares :: asset
  vde_expiration :: int

record master_authority_history_object =
  mh_account :: account_name_type
  mh_previous_master_authority :: authority
  mh_last_valid_time :: int

record account_recovery_request_object =
  arr_account_to_recover :: account_name_type
  arr_new_master_authority :: authority
  arr_expires :: int

record change_recovery_account_request_object =
  crr_account_to_recover :: account_name_type
  crr_recovery_account :: account_name_type
  crr_effective_on :: int

section \<open>Escrow, withdrawal routes and awards\<close>

record escrow_object =
  esc_escrow_id :: int
  esc_from :: account_name_type
  esc_to :: account_name_type
  esc_agent :: account_name_type
  esc_ratification_deadline :: int
  esc_escrow_expiration :: int
  esc_token_balance :: asset
  esc_pending_fee :: asset
  esc_to_approved :: bool
  esc_agent_approved :: bool
  esc_disputed :: bool

definition is_approved :: "escrow_object \<Rightarrow> bool" where
  "is_approved e = (esc_to_approved e \<and> esc_agent_approved e)"

record withdraw_vesting_route_object =
  wro_from_account :: nat
  wro_to_account :: nat
  wro_percent :: int
  wro_auto_vest :: bool

record award_shares_expire_object =
  ase_expires :: int
  ase_rshares :: int

section \<open>Witnesses\<close>

datatype witness_schedule_type = Top | Support | No_schedule

record witness_object =
  w_id :: nat
  w_owner :: account_name_type
  w_created :: int
  w_url :: string
  w_total_missed :: int
  w_last_aslot :: int
  w_last_confirmed_block_num :: int
  w_current_run :: int
  w_last_supported_block_num :: int
  w_signing_key :: public_key_type
  w_props :: chain_properties_hf9
  w_votes :: int
  w_penalty_percent :: int
  w_counted_votes :: int
  w_schedule :: witness_schedule_type
  w_virtual_last_update :: int
  w_virtual_position :: int
  w_virtual_scheduled_time :: int
  w_running_version :: version
  w_hardfork_version_vote :: version
  w_hardfork_time_vote :: int

record witness_vote_object =
  wvt_witness :: nat
  wvt_account :: nat

record witness_schedule_object =
  ws_current_virtual_time :: int
  ws_next_shuffle_block_num :: int
  ws_current_shuffled_witnesses :: "account_name_type list"
  ws_num_scheduled_witnesses :: int
  ws_median_props :: chain_properties_hf9
  ws_majority_version :: version

record witness_penalty_expire_object =
  wpe_witness :: account_name_type
  wpe_penalty_percent :: int
  wpe_expires :: int

section \<open>Invites, committee requests and paid subscriptions\<close>

record invite_object =
  inv_id :: nat
  inv_creator :: account_name_type
  inv_receiver :: account_name_type
  inv_invite_key :: public_key_type
  inv_invite_secret :: string
  inv_balance :: asset
  inv_claimed_balance :: asset
  inv_create_time :: int
  inv_claim_time :: int
  inv_status :: int

record committee_request_object =
  cro_id :: nat
  cro_request_id :: int
  cro_url :: string
  cro_creator :: account_name_type
  cro_worker :: account_name_type
  cro_required_amount_min :: asset
  cro_required_amount_max :: asset
  cro_start_time :: int
  cro_duration :: int
  cro_end_time :: int
  cro_status :: int
  cro_votes_count :: int
  cro_conclusion_time :: int
  cro_conclusion_payout_amount :: asset
  cro_payout_amount :: asset
  cro_remain_payout_amount :: asset
  cro_last_payout_time :: int
  cro_payout_time :: int

record committee_vote_object =
  cvo_request_id :: int
  cvo_voter :: account_name_type
  cvo_vote_percent :: int
  cvo_last_update :: int

record paid_subscription_object =
  pso_creator :: account_name_type
  pso_url :: string
  pso_levels :: int
  pso_amount :: int
  pso_period :: int
  pso_update_time :: int

record paid_subscribe_object =
  psb_subscriber :: account_name_type
  psb_creator :: account_name_type
  psb_level :: int
  psb_amount :: int
  psb_period :: int
  psb_start_time :: int
  psb_next_time :: int
  psb_end_time :: int
  psb_active :: bool
  psb_auto_renewal :: bool

section \<open>Global properties and the state\<close>

record dynamic_global_property_object =
  head_block_number :: int
  head_block_id :: "32 word list"
  genesis_time :: int
  dgp_time :: int
  current_witness :: account_name_type
  committee_fund :: asset
  committee_requests :: int
  current_supply :: asset
  total_vesting_fund :: asset
  total_vesting_shares :: asset
  total_reward_fund :: asset
  total_reward_shares :: int
  inflation_calc_block_num :: int
  dgp_inflation_witness_percent :: int
  inflation_ratio :: int
  average_block_size :: int
  dgp_maximum_block_size :: int
  current_aslot :: int
  recent_slots_filled :: "128 word"
  participation_count :: int
  last_irreversible_block_num :: int
  last_irreversible_block_id :: "32 word list"
  last_irreversible_block_ref_num :: int
  last_irreversible_block_ref_prefix :: int
  max_virtual_bandwidth :: int
  current_reserve_ratio :: int
  vote_regeneration_per_day :: int
  bandwidth_reserve_candidates :: int

definition get_vesting_share_price :: "dynamic_global_property_object \<Rightarrow> price" where
  "get_vesting_share_price p =
     (if amount (total_vesting_fund p) = 0 \<or> amount (total_vesting_shares p) = 0
      then \<lparr>base = mk_asset 1000 TOKEN_SYMBOL, quote = mk_asset 1000000 SHARES_SYMBOL\<rparr>
      else \<lparr>base = total_vesting_shares p, quote = total_vesting_fund p\<rparr>)"

record database =
  db_accounts :: "account_object list"
  db_next_account_id :: nat
  db_authorities :: "account_authority_object list"
  db_metadata :: "account_metadata_object list"
  db_dgp :: dynamic_global_property_object
  db_witnesses :: "witness_object list"
  db_next_witness_id :: nat
  db_witness_votes :: "witness_vote_object list"
  db_schedule :: witness_schedule_object
  db_penalties :: "witness_penalty_expire_object list"
  db_escrows :: "escrow_object list"
  db_withdraw_routes :: "withdraw_vesting_route_object list"
  db_delegations :: "vesting_delegation_object list"
  db_fix_delegations :: "fix_vesting_delegation_object list"
  db_delegation_expirations :: "vesting_delegation_expiration_object list"
  db_master_history :: "master_authority_history_object list"
  db_recovery_requests :: "account_recovery_request_object list"
  db_change_recovery_requests :: "change_recovery_account_request_object list"
  db_award_expires :: "award_shares_expire_object list"
  db_invites :: "invite_object list"
  db_next_invite_id :: nat
  db_committee_requests :: "committee_request_object list"
  db_next_committee_request_id :: nat
  db_committee_votes :: "committee_vote_object list"
  db_paid_subscriptions :: "paid_subscription_object list"
  db_paid_subscribes :: "paid_subscribe_object list"
  db_processed_hardforks :: nat

definition has_hardfork :: "nat \<Rightarrow> database \<Rightarrow> bool" where
  "has_hardfork n db = (db_processed_hardforks db > n)"

abbreviation head_block_time :: "database \<Rightarrow> int" where
  "head_block_time db \<equiv> dgp_time (db_dgp db)"

abbreviation head_block_num :: "database \<Rightarrow> int" where
  "head_block_num db \<equiv> head_block_number (db_dgp db)"

abbreviation median_props :: "database \<Rightarrow> chain_properties_hf9" where
  "median_props db \<equiv> ws_median_props (db_schedule db)"

definition time_point_sec_maximum :: int where
  [simp]: "time_point_sec_maximum = 2 ^ 32 - 1"

definition UINT128_MAX :: int where
  [simp]: "UINT128_MAX = 2 ^ 128 - 1"

end
