(* ===== verification/Chain_Database.thy ===== *)
theory Chain_Database
  imports Chain_Objects
begin

text \<open>
  The operations of \<open>chain/database.cpp\<close> that the evaluators share: lookups, balances, vesting,
  the propagation of stake to witness votes, the reward pool, energy and block slots.  A reference to
  an account is its name; \<open>modify\<close> is \<open>update_row\<close> with the lambda of the source.
\<close>

section \<open>Lookups and modifications\<close>

definition get_account :: "account_name_type \<Rightarrow> database \<Rightarrow> account_object result" where
  "get_account n db =
     (case find_row acc_name n (db_accounts db) of None \<Rightarrow> Inl (Unknown_key n) | Some a \<Rightarrow> Inr a)"

definition find_account :: "account_name_type \<Rightarrow> database \<Rightarrow> account_object option" where
  "find_account n db = find_row acc_name n (db_accounts db)"

definition get_witness :: "account_name_type \<Rightarrow> database \<Rightarrow> witness_object result" where
  "get_witness n db =
     (case find_row w_owner n (db_witnesses db) of None \<Rightarrow> Inl (Unknown_key n) | Some w \<Rightarrow> Inr w)"

definition get_escrow :: "account_name_type \<Rightarrow> int \<Rightarrow> database \<Rightarrow> escrow_object result" where
  "get_escrow n i db =
     (case find_row (\<lambda>e. (esc_from e, esc_escrow_id e)) (n, i) (db_escrows db) of
        None \<Rightarrow> Inl (Unknown_key n) | Some e \<Rightarrow> Inr e)"

definition modify_account ::
  "account_name_type \<Rightarrow> (account_object \<Rightarrow> account_object result) \<Rightarrow> database \<Rightarrow> database result" where
  "modify_account n f db =
     (case update_row acc_name n f (db_accounts db) of Inl e \<Rightarrow> Inl e
      | Inr accs \<Rightarrow> Inr (db\<lparr>db_accounts := accs\<rparr>))"

definition modify_witness ::
  "nat \<Rightarrow> (witness_object \<Rightarrow> witness_object result) \<Rightarrow> database \<Rightarrow> database result" where
  "modify_witness i f db =
     (case update_row w_id i f (db_witnesses db) of Inl e \<Rightarrow> Inl e
      | Inr ws \<Rightarrow> Inr (db\<lparr>db_witnesses := ws\<rparr>))"

definition modify_dgp ::
  "(dynamic_global_property_object \<Rightarrow> dynamic_global_property_object result) \<Rightarrow> database \<Rightarrow> database result" where
  "modify_dgp f db =
     (case f (db_dgp db) of Inl e \<Rightarrow> Inl e | Inr p \<Rightarrow> Inr (db\<lparr>db_dgp := p\<rparr>))"

text \<open>\<open>field += x\<close> and \<open>field -= x\<close> on an asset field.\<close>

definition add_field :: "('r \<Rightarrow> asset) \<Rightarrow> ((asset \<Rightarrow> asset) \<Rightarrow> 'r \<Rightarrow> 'r) \<Rightarrow> asset \<Rightarrow> 'r \<Rightarrow> 'r result" where
  "add_field get upd x r = (case asset_add (get r) x of Inl e \<Rightarrow> Inl e | Inr y \<Rightarrow> Inr (upd (\<lambda>_. y) r))"

definition sub_field :: "('r \<Rightarrow> asset) \<Rightarrow> ((asset \<Rightarrow> asset) \<Rightarrow> 'r \<Rightarrow> 'r) \<Rightarrow> asset \<Rightarrow> 'r \<Rightarrow> 'r result" where
  "sub_field get upd x r = (case asset_sub (get r) x of Inl e \<Rightarrow> Inl e | Inr y \<Rightarrow> Inr (upd (\<lambda>_. y) r))"

section \<open>Balances\<close>

definition adjust_balance :: "account_name_type \<Rightarrow> asset \<Rightarrow> database \<Rightarrow> database result" where
  "adjust_balance n delta db =
     modify_account n (\<lambda>acnt.
       if symbol delta = TOKEN_SYMBOL then add_field acc_balance acc_balance_update delta acnt
       else Inl (FC_Assert ''invalid symbol'')) db"

definition burn_asset :: "asset \<Rightarrow> database \<Rightarrow> database result" where
  "burn_asset delta db =
     modify_dgp (\<lambda>p.
       if symbol delta = TOKEN_SYMBOL then add_field current_supply current_supply_update delta p
       else Inl (FC_Assert ''invalid symbol'')) db"

definition get_balance :: "account_object \<Rightarrow> 64 word \<Rightarrow> asset result" where
  "get_balance a s =
     (if s = TOKEN_SYMBOL then Inr (acc_balance a) else Inl (FC_Assert ''invalid symbol''))"

section \<open>Witness votes\<close>

definition counted_votes_of :: "bool \<Rightarrow> int \<Rightarrow> int \<Rightarrow> int" where
  "counted_votes_of hf6 votes penalty =
     (if hf6
      then i64 (u64 (u128 (u128 votes - u128 (u128 votes * min penalty CHAIN_100_PERCENT) div CHAIN_100_PERCENT)))
      else votes)"

definition reschedule_witness :: "int \<Rightarrow> database \<Rightarrow> witness_object \<Rightarrow> witness_object result" where
  "reschedule_witness delta db w =
     (let now = ws_current_virtual_time (db_schedule db);
          delta_pos = u128 (u128 (w_counted_votes w) * u128 (now - w_virtual_last_update w));
          position = u128 (w_virtual_position w + delta_pos);
          votes = w_votes w + delta;
          votes = (if has_hardfork 5 db \<and> votes < 0 then 0 else votes);
          counted = counted_votes_of (has_hardfork 6 db) votes (w_penalty_percent w);
          w' = w\<lparr>w_virtual_position := position, w_virtual_last_update := now,
                 w_votes := votes, w_counted_votes := counted\<rparr>
      in if \<not> votes \<le> amount (total_vesting_shares (db_dgp db)) then Inl (FC_Assert ''w.votes <= total_vesting_shares'')
         else if u128 (counted + 1) = 0 then Inl Division_by_zero
         else let scheduled = u128 (now + u128 (UINT128_MAX - position) div u128 (counted + 1))
              in Inr (w'\<lparr>w_virtual_scheduled_time := if scheduled < now then UINT128_MAX else scheduled\<rparr>))"

definition adjust_witness_vote :: "nat \<Rightarrow> int \<Rightarrow> database \<Rightarrow> database result" where
  "adjust_witness_vote i delta db = modify_witness i (reschedule_witness delta db) db"

text \<open>The votes of an account, in the order of the index by account and witness id.\<close>

definition votes_of :: "nat \<Rightarrow> database \<Rightarrow> nat list" where
  "votes_of i db = sort (map wvt_witness (filter (\<lambda>v. wvt_account v = i) (db_witness_votes db)))"

definition adjust_witness_votes :: "account_name_type \<Rightarrow> int \<Rightarrow> database \<Rightarrow> database result" where
  "adjust_witness_votes n delta db =
     (case get_account n db of Inl e \<Rightarrow> Inl e
      | Inr a \<Rightarrow>
        if has_hardfork 5 db then
          if acc_witnesses_voted_for a > 0 then
            let fair_delta = delta sdiv acc_witnesses_voted_for a
            in case modify_account n (\<lambda>acc. Inr (acc\<lparr>acc_witnesses_vote_weight := acc_witnesses_vote_weight acc + fair_delta\<rparr>)) db of
                 Inl e \<Rightarrow> Inl e
               | Inr db' \<Rightarrow> fold_result (\<lambda>i. adjust_witness_vote i fair_delta) (votes_of (acc_id a) db') db'
          else Inr db
        else fold_result (\<lambda>i. adjust_witness_vote i delta) (votes_of (acc_id a) db) db)"

function adjust_proxied_witness_votes :: "account_name_type \<Rightarrow> int \<Rightarrow> nat \<Rightarrow> database \<Rightarrow> database result" where
  "adjust_proxied_witness_votes n delta depth db =
     (case get_account n db of Inl e \<Rightarrow> Inl e
      | Inr a \<Rightarrow>
        if acc_proxy a \<noteq> [] then
          if depth \<ge> CHAIN_MAX_PROXY_RECURSION_DEPTH then Inr db
          else case modify_account (acc_proxy a) (\<lambda>p. Inr (p\<lparr>acc_proxied_vsf_votes :=
                     (acc_proxied_vsf_votes p)[depth := acc_proxied_vsf_votes p ! depth + delta]\<rparr>)) db of
                 Inl e \<Rightarrow> Inl e
               | Inr db' \<Rightarrow> adjust_proxied_witness_votes (acc_proxy a) delta (depth + 1) db'
        else adjust_witness_votes n delta db)"
  by pat_completeness auto
termination by (relation "measure (\<lambda>(n, delta, depth, db). CHAIN_MAX_PROXY_RECURSION_DEPTH - depth)") auto

declare adjust_proxied_witness_votes.simps [simp del]

text \<open>
  The overload that moves a whole array of deltas, one per proxy level (used when an account changes
  its proxy).
\<close>

definition add_proxied :: "nat \<Rightarrow> int list \<Rightarrow> int list \<Rightarrow> int list" where
  "add_proxied depth delta votes =
     fold (\<lambda>i vs. vs[i + depth := vs ! (i + depth) + delta ! i])
       (rev [0..<CHAIN_MAX_PROXY_RECURSION_DEPTH - depth]) votes"

function adjust_proxied_witness_votes_array :: "account_name_type \<Rightarrow> int list \<Rightarrow> nat \<Rightarrow> database \<Rightarrow> database result" where
  "adjust_proxied_witness_votes_array n delta depth db =
     (case get_account n db of Inl e \<Rightarrow> Inl e
      | Inr a \<Rightarrow>
        if acc_proxy a \<noteq> [] then
          if depth \<ge> CHAIN_MAX_PROXY_RECURSION_DEPTH then Inr db
          else case modify_account (acc_proxy a) (\<lambda>p. Inr (p\<lparr>acc_proxied_vsf_votes :=
                     add_proxied depth delta (acc_proxied_vsf_votes p)\<rparr>)) db of
                 Inl e \<Rightarrow> Inl e
               | Inr db' \<Rightarrow> adjust_proxied_witness_votes_array (acc_proxy a) delta (depth + 1) db'
        else adjust_witness_votes n (sum_list (take (CHAIN_MAX_PROXY_RECURSION_DEPTH - depth + 1) delta)) db)"
  by pat_completeness auto
termination by (relation "measure (\<lambda>(n, delta, depth, db). CHAIN_MAX_PROXY_RECURSION_DEPTH - depth)") auto

declare adjust_proxied_witness_votes_array.simps [simp del]

definition clear_witness_votes :: "account_name_type \<Rightarrow> database \<Rightarrow> database result" where
  "clear_witness_votes n db =
     (case get_account n db of Inl e \<Rightarrow> Inl e
      | Inr a \<Rightarrow>
        modify_account n (\<lambda>acc. Inr (acc\<lparr>acc_witnesses_voted_for := 0,
            acc_witnesses_vote_weight := if has_hardfork 5 db then 0 else acc_witnesses_vote_weight acc\<rparr>))
          (db\<lparr>db_witness_votes := filter (\<lambda>v. wvt_account v \<noteq> acc_id a) (db_witness_votes db)\<rparr>))"

section \<open>Vesting and energy\<close>

definition create_vesting :: "account_name_type \<Rightarrow> asset \<Rightarrow> database \<Rightarrow> (asset \<times> database) result" where
  "create_vesting n tokens db =
     (case asset_times_price tokens (get_vesting_share_price (db_dgp db)) of Inl e \<Rightarrow> Inl e
      | Inr new_vesting \<Rightarrow>
      case modify_account n (add_field acc_vesting_shares acc_vesting_shares_update new_vesting) db of Inl e \<Rightarrow> Inl e
      | Inr db1 \<Rightarrow>
      case modify_dgp (\<lambda>p. case add_field total_vesting_fund total_vesting_fund_update tokens p of Inl e \<Rightarrow> Inl e
                        | Inr p' \<Rightarrow> add_field total_vesting_shares total_vesting_shares_update new_vesting p') db1 of
        Inl e \<Rightarrow> Inl e
      | Inr db2 \<Rightarrow>
      case adjust_proxied_witness_votes n (amount new_vesting) 0 db2 of Inl e \<Rightarrow> Inl e
      | Inr db3 \<Rightarrow> Inr (new_vesting, db3))"

text \<open>Energy regained since the last vote, at most up to 100 percent.\<close>

definition regenerated :: "int \<Rightarrow> account_object \<Rightarrow> int" where
  "regenerated now a =
     (let elapsed_seconds = now - acc_last_vote_time a;
          regenerated_energy = (CHAIN_100_PERCENT * elapsed_seconds) sdiv CHAIN_ENERGY_REGENERATION_SECONDS
      in min (acc_energy a + regenerated_energy) CHAIN_100_PERCENT)"

definition recalc_energy :: "int \<Rightarrow> int \<Rightarrow> account_object \<Rightarrow> account_object" where
  "recalc_energy now shares s =
     (if effective_vesting_shares s > 0 then
        let current_energy = regenerated now s;
            new_energy = max (current_energy - (CHAIN_100_PERCENT * shares) sdiv effective_vesting_shares s)
                           (- CHAIN_100_PERCENT)
        in s\<lparr>acc_energy := i16 new_energy, acc_last_vote_time := now\<rparr>
      else s)"

definition shares_sender_recalc_energy :: "account_name_type \<Rightarrow> asset \<Rightarrow> database \<Rightarrow> database result" where
  "shares_sender_recalc_energy n tokens db =
     modify_account n (\<lambda>s. Inr (recalc_energy (head_block_time db) (amount tokens) s)) db"

section \<open>The reward pool\<close>

text \<open>The share of the reward fund that \<open>rs\<close> of \<open>total\<close> reward shares claim.\<close>

definition reward_payout :: "int \<Rightarrow> int \<Rightarrow> int \<Rightarrow> int result" where
  "reward_payout fund rs tot =
     (if u256 tot = 0 then Inl Division_by_zero
      else let payout = u256 (u256 fund * u256 rs) div u256 tot
           in if payout \<le> INT64_MAX then Inr payout else Inl (FC_Assert ''payout_u256 <= INT64_MAX''))"

definition claim_rshare_reward :: "int \<Rightarrow> database \<Rightarrow> (int \<times> database) result" where
  "claim_rshare_reward rshares db =
     (if \<not> rshares > 0 then Inl (FC_Assert ''rshares > 0'')
      else case reward_payout (amount (total_reward_fund (db_dgp db))) rshares (total_reward_shares (db_dgp db)) of
        Inl e \<Rightarrow> Inl e
      | Inr payout \<Rightarrow>
          Inr (payout, db\<lparr>db_dgp := (db_dgp db)\<lparr>total_reward_fund :=
            mk_asset (amount (total_reward_fund (db_dgp db)) - payout) (symbol (total_reward_fund (db_dgp db)))\<rparr>\<rparr>))"

definition calc_rshare_award :: "int \<Rightarrow> database \<Rightarrow> int result" where
  "calc_rshare_award rshares db =
     (if \<not> rshares > 0 then Inl (FC_Assert ''rshares > 0'')
      else reward_payout (amount (total_reward_fund (db_dgp db))) rshares
             (total_reward_shares (db_dgp db) + rshares))"

definition claim_rshare_award :: "int \<Rightarrow> database \<Rightarrow> (int \<times> database) result" where
  "claim_rshare_award rshares db =
     (if \<not> rshares > 0 then Inl (FC_Assert ''rshares > 0'')
      else case reward_payout (amount (total_reward_fund (db_dgp db))) rshares
                  (total_reward_shares (db_dgp db) + rshares) of Inl e \<Rightarrow> Inl e
      | Inr payout \<Rightarrow>
          Inr (payout,
            db\<lparr>db_dgp := (db_dgp db)\<lparr>
                 total_reward_fund :=
                   mk_asset (amount (total_reward_fund (db_dgp db)) - payout) (symbol (total_reward_fund (db_dgp db))),
                 total_reward_shares := u128 (total_reward_shares (db_dgp db) + rshares)\<rparr>,
               db_award_expires := db_award_expires db @
                 [\<lparr>ase_expires = head_block_time db + CHAIN_ENERGY_REGENERATION_SECONDS, ase_rshares = rshares\<rparr>]\<rparr>))"

definition calc_rshare_by_reward :: "asset \<Rightarrow> database \<Rightarrow> int result" where
  "calc_rshare_by_reward reward_amount db =
     (let ra = u256 (amount reward_amount);
          rf = u256 (amount (total_reward_fund (db_dgp db)));
          den = u256 (rf - ra)
      in if den = 0 then Inl Division_by_zero
         else let rs = u256 (ra * u256 (total_reward_shares (db_dgp db))) div den
              in if rs \<le> INT64_MAX then Inr rs else Inl (FC_Assert ''rs <= INT64_MAX''))"

definition expire_award_shares_processing :: "database \<Rightarrow> database" where
  "expire_award_shares_processing db =
     (let expired = filter (\<lambda>r. ase_expires r \<le> head_block_time db) (db_award_expires db)
      in db\<lparr>db_dgp := (db_dgp db)\<lparr>total_reward_shares :=
               fold (\<lambda>r t. u128 (t - ase_rshares r)) expired (total_reward_shares (db_dgp db))\<rparr>,
            db_award_expires := filter (\<lambda>r. \<not> ase_expires r \<le> head_block_time db) (db_award_expires db)\<rparr>)"

section \<open>Block slots\<close>

definition get_slot_time :: "int \<Rightarrow> database \<Rightarrow> int" where
  "get_slot_time slot_num db =
     (if slot_num = 0 then 0
      else if head_block_num db = 0
      then head_block_time db - CHAIN_BLOCK_INTERVAL + slot_num * CHAIN_BLOCK_INTERVAL
      else (head_block_time db div CHAIN_BLOCK_INTERVAL) * CHAIN_BLOCK_INTERVAL + slot_num * CHAIN_BLOCK_INTERVAL)"

definition get_slot_at_time :: "int \<Rightarrow> database \<Rightarrow> int" where
  "get_slot_at_time when db =
     (let first_slot_time = get_slot_time 1 db
      in if when < first_slot_time then 0
         else (when - first_slot_time) div CHAIN_BLOCK_INTERVAL + 1)"

definition get_scheduled_witness :: "int \<Rightarrow> database \<Rightarrow> account_name_type" where
  "get_scheduled_witness slot_num db =
     (let wso = db_schedule db; aslot = u64 (current_aslot (db_dgp db) + slot_num)
      in ws_current_shuffled_witnesses wso ! nat (aslot mod ws_num_scheduled_witnesses wso))"

end
