(* ===== verification/Chain_Ledger.thy ===== *)
theory Chain_Ledger
  imports Chain_Database
begin

text \<open>
  The ledger view of the state, against which the evaluators are judged.  \<open>token_total\<close> is every
  token the state holds: balances and reserved balances of accounts, escrow balances and pending
  fees, the balances of open invites, and the committee, vesting and reward funds.  \<open>excess\<close> is how far that is
  above the recorded supply, \<open>share_gap\<close> how far the recorded total of vesting shares is above the
  sum over the accounts; a correct operation moves neither.  \<open>ledger\<close> collects one rule per shared
  operation of the database: what it adds to each.
\<close>

definition account_tokens :: "account_object \<Rightarrow> int" where
  "account_tokens a = amount (acc_balance a) + amount (acc_reserved_balance a)"

definition escrow_tokens :: "escrow_object \<Rightarrow> int" where
  "escrow_tokens e = amount (esc_token_balance e) + amount (esc_pending_fee e)"

definition invite_tokens :: "invite_object \<Rightarrow> int" where
  "invite_tokens i = (if inv_status i = 0 then amount (inv_balance i) else 0)"

definition account_shares :: "account_object \<Rightarrow> int" where
  "account_shares a = amount (acc_vesting_shares a)"

definition fund_tokens :: "dynamic_global_property_object \<Rightarrow> int" where
  "fund_tokens p = amount (committee_fund p) + amount (total_vesting_fund p) + amount (total_reward_fund p)"

definition escrow_key :: "escrow_object \<Rightarrow> account_name_type \<times> int" where
  "escrow_key e = (esc_from e, esc_escrow_id e)"

definition token_total :: "database \<Rightarrow> int" where
  "token_total db = total account_tokens (db_accounts db) + total escrow_tokens (db_escrows db)
     + total invite_tokens (db_invites db) + fund_tokens (db_dgp db)"

definition excess :: "database \<Rightarrow> int" where
  "excess db = token_total db - amount (current_supply (db_dgp db))"

definition share_gap :: "database \<Rightarrow> int" where
  "share_gap db = amount (total_vesting_shares (db_dgp db)) - total account_shares (db_accounts db)"

text \<open>The unique indices of the tables the totals run over.\<close>

definition keys_ok :: "database \<Rightarrow> bool" where
  "keys_ok db = (unique_keys acc_name (db_accounts db) \<and> unique_keys escrow_key (db_escrows db) \<and>
     unique_keys inv_id (db_invites db))"

named_theorems ledger \<open>what an operation adds to the excess and to the share gap\<close>

section \<open>Field updates\<close>

lemma add_field_Inr [run_simps]:
  "add_field get upd x r = Inr r' \<longleftrightarrow>
     symbol (get r) = symbol x \<and> r' = upd (\<lambda>_. mk_asset (amount (get r) + amount x) (symbol x)) r"
  by (auto simp: add_field_def run_simps)

lemma sub_field_Inr [run_simps]:
  "sub_field get upd x r = Inr r' \<longleftrightarrow>
     symbol (get r) = symbol x \<and> r' = upd (\<lambda>_. mk_asset (amount (get r) - amount x) (symbol x)) r"
  by (auto simp: sub_field_def run_simps)

lemma get_account_Inr [run_simps]:
  "get_account n db = Inr a \<longleftrightarrow> find_row acc_name n (db_accounts db) = Some a"
  by (auto simp: get_account_def split: option.splits)

lemma get_escrow_Inr [run_simps]:
  "get_escrow n i db = Inr e \<longleftrightarrow> find_row escrow_key (n, i) (db_escrows db) = Some e"
  by (auto simp: get_escrow_def escrow_key_def [abs_def] split: option.splits)

lemma modify_account_Inr [run_simps]:
  "modify_account n f db = Inr db' \<longleftrightarrow>
     (\<exists>a a'. find_row acc_name n (db_accounts db) = Some a \<and> f a = Inr a' \<and>
        db' = db\<lparr>db_accounts := modify_row acc_name n (\<lambda>_. a') (db_accounts db)\<rparr>)"
  by (auto simp: modify_account_def run_simps update_row_Inr)

lemma modify_witness_Inr [run_simps]:
  "modify_witness i f db = Inr db' \<longleftrightarrow>
     (\<exists>w w'. find_row w_id i (db_witnesses db) = Some w \<and> f w = Inr w' \<and>
        db' = db\<lparr>db_witnesses := modify_row w_id i (\<lambda>_. w') (db_witnesses db)\<rparr>)"
  by (auto simp: modify_witness_def run_simps update_row_Inr)

lemma modify_dgp_Inr [run_simps]:
  "modify_dgp f db = Inr db' \<longleftrightarrow> (\<exists>p. f (db_dgp db) = Inr p \<and> db' = db\<lparr>db_dgp := p\<rparr>)"
  by (auto simp: modify_dgp_def run_simps)

section \<open>Frames: tables the totals do not run over\<close>

text \<open>Everything the totals depend on.\<close>

definition same_ledger :: "database \<Rightarrow> database \<Rightarrow> bool" where
  "same_ledger db db' = (db_accounts db' = db_accounts db \<and> db_escrows db' = db_escrows db \<and>
     db_invites db' = db_invites db \<and> db_dgp db' = db_dgp db)"

lemma same_ledger_moves:
  "same_ledger db db' \<Longrightarrow> keys_ok db' = keys_ok db \<and> excess db' = excess db \<and> share_gap db' = share_gap db"
  by (simp add: same_ledger_def keys_ok_def excess_def token_total_def share_gap_def)

lemma ledger_accounts:
  "excess (db\<lparr>db_accounts := accs\<rparr>) =
     excess db - total account_tokens (db_accounts db) + total account_tokens accs"
  "share_gap (db\<lparr>db_accounts := accs\<rparr>) =
     share_gap db + total account_shares (db_accounts db) - total account_shares accs"
  by (simp_all add: excess_def token_total_def share_gap_def)

lemma ledger_escrows:
  "excess (db\<lparr>db_escrows := es\<rparr>) = excess db - total escrow_tokens (db_escrows db) + total escrow_tokens es"
  "share_gap (db\<lparr>db_escrows := es\<rparr>) = share_gap db"
  by (simp_all add: excess_def token_total_def share_gap_def)

lemma ledger_invites:
  "excess (db\<lparr>db_invites := is\<rparr>) = excess db - total invite_tokens (db_invites db) + total invite_tokens is"
  "share_gap (db\<lparr>db_invites := is\<rparr>) = share_gap db"
  by (simp_all add: excess_def token_total_def share_gap_def)

lemma ledger_dgp:
  "excess (db\<lparr>db_dgp := p\<rparr>) = excess db - fund_tokens (db_dgp db) + amount (current_supply (db_dgp db))
     + fund_tokens p - amount (current_supply p)"
  "share_gap (db\<lparr>db_dgp := p\<rparr>) = share_gap db - amount (total_vesting_shares (db_dgp db)) + amount (total_vesting_shares p)"
  "keys_ok (db\<lparr>db_dgp := p\<rparr>) = keys_ok db"
  by (simp_all add: excess_def token_total_def share_gap_def keys_ok_def)

section \<open>Single rows\<close>

lemma modify_account_ledger:
  assumes "modify_account n f db = Inr db'" and "keys_ok db"
  obtains a a' where "find_row acc_name n (db_accounts db) = Some a" and "f a = Inr a'" and "acc_name a = n"
    and "excess db' = excess db - account_tokens a + account_tokens a'"
    and "share_gap db' = share_gap db + account_shares a - account_shares a'"
    and "acc_name a' = n \<Longrightarrow> keys_ok db'"
proof -
  from assms(1) obtain a a' where a: "find_row acc_name n (db_accounts db) = Some a" "f a = Inr a'"
    and db': "db' = db\<lparr>db_accounts := modify_row acc_name n (\<lambda>_. a') (db_accounts db)\<rparr>"
    by (auto simp: run_simps)
  have u: "unique_keys acc_name (db_accounts db)" using assms(2) by (simp add: keys_ok_def)
  have "acc_name a' = n \<Longrightarrow> keys_ok db'"
    using assms(2) db' unique_keys_modify_row [OF u, of a' n] by (simp add: keys_ok_def)
  with a find_row_key [OF a(1)] show ?thesis
    by (intro that [of a a'])
      (auto simp: db' ledger_accounts rows.sum_modify [OF u a(1)])
qed

text \<open>A modification that leaves the name and the shares of the account alone.\<close>

lemma modify_account_tokens:
  assumes "modify_account n f db = Inr db'" and "keys_ok db"
    and "\<And>a a'. f a = Inr a' \<Longrightarrow> acc_name a' = acc_name a \<and> account_tokens a' = account_tokens a + t \<and>
           account_shares a' = account_shares a + s"
  shows "keys_ok db' \<and> excess db' = excess db + t \<and> share_gap db' = share_gap db - s"
  using assms(1,2) by (elim modify_account_ledger) (auto dest: assms(3))

lemma modify_dgp_ledger:
  assumes "modify_dgp f db = Inr db'" and "keys_ok db"
    and "\<And>p p'. f p = Inr p' \<Longrightarrow> fund_tokens p' - amount (current_supply p') = fund_tokens p - amount (current_supply p) + t \<and>
           amount (total_vesting_shares p') = amount (total_vesting_shares p) + s"
  shows "keys_ok db' \<and> excess db' = excess db + t \<and> share_gap db' = share_gap db + s"
  using assms(1,2) by (auto simp: run_simps ledger_dgp dest!: assms(3))

lemma create_escrow_ledger [ledger]:
  assumes "create_row escrow_key e (db_escrows db) = Inr es" and "keys_ok db"
  shows "keys_ok (db\<lparr>db_escrows := es\<rparr>) \<and> excess (db\<lparr>db_escrows := es\<rparr>) = excess db + escrow_tokens e
    \<and> share_gap (db\<lparr>db_escrows := es\<rparr>) = share_gap db"
  using assms rows.sum_create [OF assms(1), of escrow_tokens] rows.invar_create [OF _ assms(1)]
  by (simp add: keys_ok_def ledger_escrows)

lemma remove_escrow_ledger:
  assumes "find_row escrow_key k (db_escrows db) = Some e" and "keys_ok db"
  defines "db' \<equiv> db\<lparr>db_escrows := remove_row escrow_key k (db_escrows db)\<rparr>"
  shows "keys_ok db' \<and> excess db' = excess db - escrow_tokens e \<and> share_gap db' = share_gap db"
  using assms(2) rows.invar_remove [of escrow_key "db_escrows db"]
  by (simp add: keys_ok_def db'_def ledger_escrows rows.sum_remove [OF _ assms(1)])

lemma modify_escrow_ledger:
  assumes "find_row escrow_key k (db_escrows db) = Some e" and "keys_ok db" and "escrow_key e' = k"
  defines "db' \<equiv> db\<lparr>db_escrows := modify_row escrow_key k (\<lambda>_. e') (db_escrows db)\<rparr>"
  shows "keys_ok db' \<and> excess db' = excess db - escrow_tokens e + escrow_tokens e' \<and> share_gap db' = share_gap db"
  using assms(2,3) unique_keys_modify_row [of escrow_key "db_escrows db" e' k]
  by (simp add: keys_ok_def db'_def ledger_escrows rows.sum_modify [OF _ assms(1)])

section \<open>Shared operations\<close>

lemma adjust_balance_ledger [ledger]:
  "adjust_balance n delta db = Inr db' \<Longrightarrow> keys_ok db \<Longrightarrow>
     keys_ok db' \<and> excess db' = excess db + amount delta \<and> share_gap db' = share_gap db"
  unfolding adjust_balance_def
  by (drule modify_account_tokens [where t = "amount delta" and s = 0])
    (auto simp: run_simps account_tokens_def account_shares_def)

lemma burn_asset_ledger [ledger]:
  "burn_asset delta db = Inr db' \<Longrightarrow> keys_ok db \<Longrightarrow>
     keys_ok db' \<and> excess db' = excess db - amount delta \<and> share_gap db' = share_gap db"
  unfolding burn_asset_def
  by (drule modify_dgp_ledger [where t = "- amount delta" and s = 0]) (auto simp: run_simps fund_tokens_def)

lemma adjust_witness_vote_same:
  "adjust_witness_vote i delta db = Inr db' \<Longrightarrow> same_ledger db db'"
  by (auto simp: adjust_witness_vote_def run_simps same_ledger_def Let_def)

lemma fold_witness_votes_same:
  "fold_result (\<lambda>i. adjust_witness_vote i delta) is db = Inr db' \<Longrightarrow> same_ledger db db'"
  by (rule fold_result_invariant [where P = "same_ledger db"])
    (auto simp: same_ledger_def dest!: adjust_witness_vote_same)

lemma adjust_witness_votes_ledger [ledger]:
  assumes "adjust_witness_votes n delta db = Inr db'" and "keys_ok db"
  shows "keys_ok db' \<and> excess db' = excess db \<and> share_gap db' = share_gap db"
proof -
  from assms(1) consider "db' = db"
    | d db1 where "modify_account n (\<lambda>acc. Inr (acc\<lparr>acc_witnesses_vote_weight := acc_witnesses_vote_weight acc + d\<rparr>)) db = Inr db1"
        "same_ledger db1 db'"
    | "same_ledger db db'"
    by (auto simp: adjust_witness_votes_def case_sum_Inr Let_def split: if_splits dest: fold_witness_votes_same)
  then show ?thesis
  proof cases
    case (2 d db1)
    from modify_account_tokens [OF 2(1) assms(2), of 0 0] same_ledger_moves [OF 2(2)]
    show ?thesis by (auto simp: account_tokens_def account_shares_def)
  qed (use assms(2) same_ledger_moves in auto)
qed

lemma adjust_proxied_witness_votes_ledger [ledger]:
  "adjust_proxied_witness_votes n delta depth db = Inr db' \<Longrightarrow> keys_ok db \<Longrightarrow>
     keys_ok db' \<and> excess db' = excess db \<and> share_gap db' = share_gap db"
proof (induction n delta depth db rule: adjust_proxied_witness_votes.induct)
  case (1 n delta depth db)
  from "1.prems"(1) obtain a where a: "get_account n db = Inr a"
    by (subst (asm) adjust_proxied_witness_votes.simps) (auto simp: case_sum_Inr)
  show ?case
  proof (cases "acc_proxy a = []")
    case True
    with "1.prems" a have "adjust_witness_votes n delta db = Inr db'"
      by (subst (asm) adjust_proxied_witness_votes.simps) simp
    then show ?thesis using "1.prems"(2) by (rule adjust_witness_votes_ledger)
  next
    case False
    show ?thesis
    proof (cases "CHAIN_MAX_PROXY_RECURSION_DEPTH \<le> depth")
      case True
      with False "1.prems" a show ?thesis
        by (subst (asm) adjust_proxied_witness_votes.simps) simp
    next
      case deep: False
      let ?f = "\<lambda>p. Inr (p\<lparr>acc_proxied_vsf_votes :=
                     (acc_proxied_vsf_votes p)[depth := acc_proxied_vsf_votes p ! depth + delta]\<rparr>)"
      from False deep "1.prems"(1) a obtain db1 where
        m: "modify_account (acc_proxy a) ?f db = Inr db1" and
        r: "adjust_proxied_witness_votes (acc_proxy a) delta (depth + 1) db1 = Inr db'"
        by (subst (asm) adjust_proxied_witness_votes.simps) (auto simp: case_sum_Inr)
      from modify_account_tokens [OF m "1.prems"(2), of 0 0]
      have "keys_ok db1 \<and> excess db1 = excess db \<and> share_gap db1 = share_gap db"
        by (auto simp: account_tokens_def account_shares_def)
      with "1.IH" [OF a False deep m r] show ?thesis by simp
    qed
  qed
qed

lemma create_vesting_ledger [ledger]:
  assumes "create_vesting n tokens db = Inr (v, db')" and "keys_ok db"
  shows "keys_ok db' \<and> excess db' = excess db + amount tokens \<and> share_gap db' = share_gap db"
proof -
  let ?f = "\<lambda>p. case add_field total_vesting_fund total_vesting_fund_update tokens p of Inl e \<Rightarrow> Inl e
                        | Inr p' \<Rightarrow> add_field total_vesting_shares total_vesting_shares_update v p'"
  from assms(1) obtain db1 db2 where
    m: "modify_account n (add_field acc_vesting_shares acc_vesting_shares_update v) db = Inr db1" and
    g: "modify_dgp ?f db1 = Inr db2" and
    p: "adjust_proxied_witness_votes n (amount v) 0 db2 = Inr db'"
    by (auto simp: create_vesting_def case_sum_Inr)
  from modify_account_tokens [OF m assms(2), of 0 "amount v"]
  have 1: "keys_ok db1 \<and> excess db1 = excess db \<and> share_gap db1 = share_gap db - amount v"
    by (auto simp: run_simps account_tokens_def account_shares_def)
  from modify_dgp_ledger [OF g conjunct1 [OF 1], of "amount tokens" "amount v"]
  have 2: "keys_ok db2 \<and> excess db2 = excess db1 + amount tokens \<and> share_gap db2 = share_gap db1 + amount v"
    by (auto simp: run_simps fund_tokens_def)
  from adjust_proxied_witness_votes_ledger [OF p conjunct1 [OF 2]] 1 2 show ?thesis by simp
qed

lemma recalc_energy_simps [simp]:
  "account_tokens (recalc_energy now x a) = account_tokens a"
  "account_shares (recalc_energy now x a) = account_shares a"
  "acc_name (recalc_energy now x a) = acc_name a"
  by (simp_all add: recalc_energy_def account_tokens_def account_shares_def Let_def)

lemma shares_sender_recalc_energy_ledger [ledger]:
  "shares_sender_recalc_energy n x db = Inr db' \<Longrightarrow> keys_ok db \<Longrightarrow>
     keys_ok db' \<and> excess db' = excess db \<and> share_gap db' = share_gap db"
  unfolding shares_sender_recalc_energy_def
  by (drule modify_account_tokens [where t = 0 and s = 0]) auto

lemma clear_witness_votes_ledger [ledger]:
  assumes "clear_witness_votes n db = Inr db'" and "keys_ok db"
  shows "keys_ok db' \<and> excess db' = excess db \<and> share_gap db' = share_gap db"
proof -
  from assms(1) obtain a :: account_object where m: "modify_account n (\<lambda>acc. Inr (acc\<lparr>acc_witnesses_voted_for := 0,
            acc_witnesses_vote_weight := if has_hardfork 5 db then 0 else acc_witnesses_vote_weight acc\<rparr>))
          (db\<lparr>db_witness_votes := filter (\<lambda>v. wvt_account v \<noteq> acc_id a) (db_witness_votes db)\<rparr>) = Inr db'"
    unfolding clear_witness_votes_def case_sum_Inr by blast
  have s: "same_ledger db (db\<lparr>db_witness_votes := filter (\<lambda>v. wvt_account v \<noteq> acc_id a) (db_witness_votes db)\<rparr>)"
    by (simp add: same_ledger_def)
  from modify_account_tokens [OF m, of 0 0] same_ledger_moves [OF s] assms(2)
  show ?thesis by (auto simp: account_tokens_def account_shares_def)
qed

lemma claim_rshare_award_ledger [ledger]:
  "claim_rshare_award rs db = Inr (payout, db') \<Longrightarrow> keys_ok db \<Longrightarrow>
     keys_ok db' \<and> excess db' = excess db - payout \<and> share_gap db' = share_gap db"
  by (auto simp: claim_rshare_award_def run_simps keys_ok_def excess_def token_total_def share_gap_def fund_tokens_def)

lemma claim_rshare_reward_ledger [ledger]:
  "claim_rshare_reward rs db = Inr (payout, db') \<Longrightarrow> keys_ok db \<Longrightarrow>
     keys_ok db' \<and> excess db' = excess db - payout \<and> share_gap db' = share_gap db"
  by (auto simp: claim_rshare_reward_def run_simps keys_ok_def excess_def token_total_def share_gap_def fund_tokens_def)

section \<open>Steps that keep the books\<close>

text \<open>
  The contract every evaluator and every part of the block processing is held to: the keys stay
  unique and neither the excess of tokens nor the share gap moves.  Whatever keeps it on single steps
  keeps it on every run.
\<close>

definition books :: "database \<Rightarrow> int \<times> int" where
  "books db = (excess db, share_gap db)"

locale bookkeeping =
  fixes step :: "database \<Rightarrow> database \<Rightarrow> bool"
  assumes step_keys: "step db db' \<Longrightarrow> keys_ok db \<Longrightarrow> keys_ok db'"
    and step_books: "step db db' \<Longrightarrow> keys_ok db \<Longrightarrow> books db' = books db"
begin

lemma run_books:
  assumes "step\<^sup>*\<^sup>* db db'" and "keys_ok db"
  shows "keys_ok db' \<and> books db' = books db"
  using assms by (induction rule: rtranclp_induct) (auto simp: step_keys step_books)

lemma run_solvency:
  assumes "step\<^sup>*\<^sup>* db db'" and "keys_ok db" and "excess db = 0" and "share_gap db = 0"
  shows "token_total db' = amount (current_supply (db_dgp db')) \<and>
         amount (total_vesting_shares (db_dgp db')) = total account_shares (db_accounts db')"
  using run_books [OF assms(1,2)] assms(3,4) by (simp add: books_def excess_def share_gap_def)

end

lemma books_kept:
  "keys_ok db' \<and> excess db' = excess db \<and> share_gap db' = share_gap db \<Longrightarrow> keys_ok db' \<and> books db' = books db"
  by (simp add: books_def)

section \<open>Balances that stay solvent\<close>

text \<open>No account is overdrawn, and balances are in tokens.\<close>

definition solvent :: "database \<Rightarrow> bool" where
  "solvent db = (\<forall>a \<in> set (db_accounts db). 0 \<le> amount (acc_balance a) \<and> symbol (acc_balance a) = TOKEN_SYMBOL)"

lemma solventD: "solvent db \<Longrightarrow> find_row acc_name n (db_accounts db) = Some a \<Longrightarrow>
    0 \<le> amount (acc_balance a) \<and> symbol (acc_balance a) = TOKEN_SYMBOL"
  by (auto simp: solvent_def dest: find_row_set)

lemma adjust_balance_solvent:
  assumes "adjust_balance n d db = Inr db'" and "solvent db"
    and "\<And>a. find_row acc_name n (db_accounts db) = Some a \<Longrightarrow> 0 \<le> amount (acc_balance a) + amount d"
  shows "solvent db'"
  using assms by (auto simp: adjust_balance_def run_simps solvent_def modify_row_def)

lemma adjust_balance_runs:
  assumes "solvent db" and "find_row acc_name n (db_accounts db) = Some a" and "symbol d = TOKEN_SYMBOL"
  obtains db' where "adjust_balance n d db = Inr db'"
proof -
  have "\<exists>db'. adjust_balance n d db = Inr db'"
    using assms solventD [OF assms(1,2)]
    by (auto simp: adjust_balance_def modify_account_def update_row_def add_field_def asset_add_def)
  then show ?thesis using that by blast
qed

lemma adjust_balance_frame:
  "adjust_balance n d db = Inr db' \<Longrightarrow> db_dgp db' = db_dgp db \<and> db_escrows db' = db_escrows db \<and>
     db_invites db' = db_invites db \<and> db_schedule db' = db_schedule db \<and>
     db_processed_hardforks db' = db_processed_hardforks db"
  by (auto simp: adjust_balance_def run_simps)

text \<open>What an adjustment does to each account.\<close>

lemma adjust_balance_find:
  assumes "adjust_balance n d db = Inr db'"
  shows "find_row acc_name m (db_accounts db') =
     (if m = n then map_option (\<lambda>a. a\<lparr>acc_balance := mk_asset (amount (acc_balance a) + amount d) (symbol d)\<rparr>)
                      (find_row acc_name n (db_accounts db))
      else find_row acc_name m (db_accounts db))"
proof -
  from assms obtain a :: account_object where a: "find_row acc_name n (db_accounts db) = Some a"
    and db': "db' = db\<lparr>db_accounts := modify_row acc_name n
        (\<lambda>_. a\<lparr>acc_balance := mk_asset (amount (acc_balance a) + amount d) (symbol d)\<rparr>) (db_accounts db)\<rparr>"
    by (auto simp: adjust_balance_def run_simps)
  have "acc_name a = n" using find_row_key [OF a] .
  then show ?thesis using a by (simp add: db' find_modify_row)
qed

lemma adjust_balance_finds:
  "adjust_balance n d db = Inr db' \<Longrightarrow>
     (find_row acc_name m (db_accounts db') = None) = (find_row acc_name m (db_accounts db) = None)"
  by (simp add: adjust_balance_find)

section \<open>A small chain, for concrete runs\<close>

definition sample_props :: chain_properties_hf9 where
  "sample_props =
     \<lparr>account_creation_fee = mk_asset 1000 TOKEN_SYMBOL, maximum_block_size = 131072,
      create_account_delegation_ratio = 10, create_account_delegation_time = 2592000,
      min_delegation = mk_asset 1 TOKEN_SYMBOL, min_curation_percent = 1600, max_curation_percent = 1600,
      bandwidth_reserve_percent = 1000, bandwidth_reserve_below = mk_asset 500000000 SHARES_SYMBOL,
      flag_energy_additional_cost = 0, vote_accounting_min_rshares = 5000000,
      committee_request_approve_min_percent = 1000, inflation_witness_percent = 2000,
      inflation_ratio_committee_vs_reward_fund = 5000, inflation_recalc_period = 806400,
      data_operations_cost_additional_bandwidth = 0, witness_miss_penalty_percent = 100,
      witness_miss_penalty_duration = 86400, create_invite_min_balance = mk_asset 10000 TOKEN_SYMBOL,
      committee_create_request_fee = mk_asset 100000 TOKEN_SYMBOL,
      create_paid_subscription_fee = mk_asset 100000 TOKEN_SYMBOL,
      account_on_sale_fee = mk_asset 10000 TOKEN_SYMBOL, subaccount_on_sale_fee = mk_asset 100000 TOKEN_SYMBOL,
      witness_declaration_fee = mk_asset 10000 TOKEN_SYMBOL, withdraw_intervals = 28\<rparr>"

definition sample_dgp :: dynamic_global_property_object where
  "sample_dgp =
     \<lparr>head_block_number = 10, head_block_id = [], genesis_time = 0, dgp_time = 1000000, current_witness = ''viz'',
      committee_fund = mk_asset 0 TOKEN_SYMBOL, committee_requests = 0,
      current_supply = mk_asset 3000000 TOKEN_SYMBOL, total_vesting_fund = mk_asset 1000000 TOKEN_SYMBOL,
      total_vesting_shares = mk_asset 1000000 SHARES_SYMBOL, total_reward_fund = mk_asset 1000000 TOKEN_SYMBOL,
      total_reward_shares = 0, inflation_calc_block_num = 0, dgp_inflation_witness_percent = 0, inflation_ratio = 0,
      average_block_size = 0, dgp_maximum_block_size = 131072, current_aslot = 10, recent_slots_filled = 0,
      participation_count = 0, last_irreversible_block_num = 0, last_irreversible_block_id = [],
      last_irreversible_block_ref_num = 0, last_irreversible_block_ref_prefix = 0, max_virtual_bandwidth = 0,
      current_reserve_ratio = 1, vote_regeneration_per_day = 1, bandwidth_reserve_candidates = 1\<rparr>"

definition sample_account :: "nat \<Rightarrow> account_name_type \<Rightarrow> int \<Rightarrow> int \<Rightarrow> account_object" where
  "sample_account i n b v = account_object_defaults\<lparr>acc_id := i, acc_name := n,
     acc_balance := mk_asset b TOKEN_SYMBOL, acc_vesting_shares := mk_asset v SHARES_SYMBOL\<rparr>"

definition sample_db :: database where
  "sample_db =
     \<lparr>db_accounts = [sample_account 0 ''alice'' 900000 500000, sample_account 1 ''bob'' 100000 500000,
                     sample_account 2 ''carol'' 0 0],
      db_next_account_id = 3, db_authorities = [], db_metadata = [], db_dgp = sample_dgp, db_witnesses = [],
      db_next_witness_id = 0, db_witness_votes = [],
      db_schedule = \<lparr>ws_current_virtual_time = 0, ws_next_shuffle_block_num = 21,
        ws_current_shuffled_witnesses = [''viz''], ws_num_scheduled_witnesses = 1,
        ws_median_props = sample_props, ws_majority_version = make_version 1 0 0\<rparr>,
      db_penalties = [], db_escrows = [], db_withdraw_routes = [], db_delegations = [], db_fix_delegations = [],
      db_delegation_expirations = [], db_master_history = [], db_recovery_requests = [],
      db_change_recovery_requests = [], db_award_expires = [], db_invites = [], db_next_invite_id = 0,
      db_committee_requests = [], db_next_committee_request_id = 0, db_committee_votes = [],
      db_paid_subscriptions = [], db_paid_subscribes = [], db_processed_hardforks = 12\<rparr>"

lemmas sample_defs = sample_db_def sample_account_def sample_dgp_def sample_props_def account_object_defaults_def

lemma sample_db_ok: "keys_ok sample_db" "solvent sample_db" "excess sample_db = 0" "share_gap sample_db = 0"
  by (simp_all add: sample_defs keys_ok_def solvent_def excess_def share_gap_def token_total_def
      account_tokens_def account_shares_def fund_tokens_def)

end
