(* ===== verification/Escrow.thy ===== *)
theory Escrow
  imports Chain_Ledger
begin

text \<open>
  Escrow transfers: the evaluators of \<open>chain/chain_evaluator.cpp\<close> and the expiry of unratified
  escrows in \<open>chain/database.cpp\<close>.  An escrow is created, approved by the receiver and by the agent
  (which pays the agent), possibly disputed, and released in parts until it is empty; it is refunded
  when a party rejects it or the ratification deadline passes.
\<close>

section \<open>The evaluators\<close>

definition modify_escrow :: "escrow_object \<Rightarrow> (escrow_object \<Rightarrow> escrow_object result) \<Rightarrow> database \<Rightarrow> database result" where
  "modify_escrow e f db =
     (case update_row escrow_key (escrow_key e) f (db_escrows db) of Inl err \<Rightarrow> Inl err
      | Inr es \<Rightarrow> Inr (db\<lparr>db_escrows := es\<rparr>))"

definition remove_escrow :: "escrow_object \<Rightarrow> database \<Rightarrow> database" where
  "remove_escrow e db = db\<lparr>db_escrows := remove_row escrow_key (escrow_key e) (db_escrows db)\<rparr>"

definition escrow_transfer_apply :: "escrow_transfer_operation \<Rightarrow> database \<Rightarrow> database result" where
  "escrow_transfer_apply o' db =
     (case get_account (et_from o') db of Inl e \<Rightarrow> Inl e
      | Inr from_account \<Rightarrow>
      case get_account (et_to o') db of Inl e \<Rightarrow> Inl e
      | Inr to_account \<Rightarrow>
      case get_account (et_agent o') db of Inl e \<Rightarrow> Inl e
      | Inr agent_account \<Rightarrow>
      if \<not> et_ratification_deadline o' > head_block_time db
      then Inl (FC_Assert ''The escorw ratification deadline must be after head block time.'')
      else if \<not> et_escrow_expiration o' > head_block_time db
      then Inl (FC_Assert ''The escrow expiration must be after head block time.'')
      else case (if symbol (et_fee o') = TOKEN_SYMBOL then asset_add (et_token_amount o') (et_fee o')
                 else Inr (et_token_amount o')) of Inl e \<Rightarrow> Inl e
      | Inr token_spent \<Rightarrow>
      case asset_ge (acc_balance from_account) token_spent of Inl e \<Rightarrow> Inl e
      | Inr covered \<Rightarrow>
      if \<not> covered then Inl (FC_Assert ''Account cannot cover token costs of escrow.'')
      else case adjust_balance (et_from o') (asset_neg token_spent) db of Inl e \<Rightarrow> Inl e
      | Inr db1 \<Rightarrow>
      case create_row escrow_key
             \<lparr>esc_escrow_id = et_escrow_id o', esc_from = et_from o', esc_to = et_to o', esc_agent = et_agent o',
              esc_ratification_deadline = et_ratification_deadline o',
              esc_escrow_expiration = et_escrow_expiration o',
              esc_token_balance = et_token_amount o', esc_pending_fee = et_fee o',
              esc_to_approved = False, esc_agent_approved = False, esc_disputed = False\<rparr>
             (db_escrows db1) of Inl e \<Rightarrow> Inl e
      | Inr es \<Rightarrow> Inr (db1\<lparr>db_escrows := es\<rparr>))"

definition approve_to :: "escrow_approve_operation \<Rightarrow> escrow_object \<Rightarrow> database \<Rightarrow> database result" where
  "approve_to o' e db =
     (if ea_who o' = ea_to o' then
        if esc_to_approved e then Inl (FC_Assert ''Account 'to' has already approved the escrow.'')
        else if ea_approve o' then modify_escrow e (\<lambda>esc. Inr (esc\<lparr>esc_to_approved := True\<rparr>)) db
        else Inr db
      else Inr db)"

definition approve_agent :: "escrow_approve_operation \<Rightarrow> escrow_object \<Rightarrow> database \<Rightarrow> database result" where
  "approve_agent o' e db =
     (if ea_who o' = ea_agent o' then
        if esc_agent_approved e then Inl (FC_Assert ''Account 'agent' has already approved the escrow.'')
        else if ea_approve o' then modify_escrow e (\<lambda>esc. Inr (esc\<lparr>esc_agent_approved := True\<rparr>)) db
        else Inr db
      else Inr db)"

definition escrow_approve_apply :: "escrow_approve_operation \<Rightarrow> database \<Rightarrow> database result" where
  "escrow_approve_apply o' db =
     (case get_escrow (ea_from o') (ea_escrow_id o') db of Inl e \<Rightarrow> Inl e
      | Inr escrow \<Rightarrow>
      if esc_to escrow \<noteq> ea_to o' then Inl (FC_Assert ''Operation 'to' does not match escrow 'to'.'')
      else if esc_agent escrow \<noteq> ea_agent o' then Inl (FC_Assert ''Operation 'agent' does not match escrow 'agent'.'')
      else if \<not> esc_ratification_deadline escrow \<ge> head_block_time db
      then Inl (FC_Assert ''The escrow ratification deadline has passed. Escrow can no longer be ratified.'')
      else case approve_to o' escrow db of Inl e \<Rightarrow> Inl e
      | Inr db1 \<Rightarrow>
      case get_escrow (ea_from o') (ea_escrow_id o') db1 of Inl e \<Rightarrow> Inl e
      | Inr escrow1 \<Rightarrow>
      case approve_agent o' escrow1 db1 of Inl e \<Rightarrow> Inl e
      | Inr db2 \<Rightarrow>
      case get_escrow (ea_from o') (ea_escrow_id o') db2 of Inl e \<Rightarrow> Inl e
      | Inr escrow2 \<Rightarrow>
      if \<not> ea_approve o' then
        (case adjust_balance (ea_from o') (esc_token_balance escrow2) db2 of Inl e \<Rightarrow> Inl e
         | Inr db3 \<Rightarrow>
         case adjust_balance (ea_from o') (esc_pending_fee escrow2) db3 of Inl e \<Rightarrow> Inl e
         | Inr db4 \<Rightarrow> Inr (remove_escrow escrow2 db4))
      else if esc_to_approved escrow2 \<and> esc_agent_approved escrow2 then
        (case adjust_balance (ea_agent o') (esc_pending_fee escrow2) db2 of Inl e \<Rightarrow> Inl e
         | Inr db3 \<Rightarrow> modify_escrow escrow2 (\<lambda>esc. Inr (esc\<lparr>esc_pending_fee := (esc_pending_fee esc)\<lparr>amount := 0\<rparr>\<rparr>)) db3)
      else Inr db2)"

definition escrow_dispute_apply :: "escrow_dispute_operation \<Rightarrow> database \<Rightarrow> database result" where
  "escrow_dispute_apply o' db =
     (case get_account (ed_from o') db of Inl e \<Rightarrow> Inl e
      | Inr _ \<Rightarrow>
      case get_escrow (ed_from o') (ed_escrow_id o') db of Inl e \<Rightarrow> Inl e
      | Inr e \<Rightarrow>
      if \<not> head_block_time db < esc_escrow_expiration e
      then Inl (FC_Assert ''Disputing the escrow must happen before expiration.'')
      else if \<not> (esc_to_approved e \<and> esc_agent_approved e)
      then Inl (FC_Assert ''The escrow must be approved by all parties before a dispute can be raised.'')
      else if esc_disputed e then Inl (FC_Assert ''The escrow is already under dispute.'')
      else if esc_to e \<noteq> ed_to o' then Inl (FC_Assert ''Operation 'to' does not match escrow 'to'.'')
      else if esc_agent e \<noteq> ed_agent o' then Inl (FC_Assert ''Operation 'agent' does not match escrow 'agent'.'')
      else modify_escrow e (\<lambda>esc. Inr (esc\<lparr>esc_disputed := True\<rparr>)) db)"

text \<open>Who may release to whom.\<close>

definition check_release :: "escrow_release_operation \<Rightarrow> escrow_object \<Rightarrow> int \<Rightarrow> unit result" where
  "check_release o' e now =
     (if esc_disputed e then
        fc_assert (er_who o' = esc_agent e) ''Only 'agent' can release funds in a disputed escrow.''
      else if \<not> (er_who o' = esc_from e \<or> er_who o' = esc_to e)
      then Inl (FC_Assert ''Only 'from' and 'to' can release funds from a non-disputed escrow'')
      else if esc_escrow_expiration e > now then
        if er_who o' = esc_from e then
          fc_assert (er_receiver o' = esc_to e) ''Only 'from' can release funds to 'to'.''
        else if er_who o' = esc_to e then
          fc_assert (er_receiver o' = esc_from e) ''Only 'to' can release funds to 'from'.''
        else Inr ()
      else Inr ())"

definition escrow_release_apply :: "escrow_release_operation \<Rightarrow> database \<Rightarrow> database result" where
  "escrow_release_apply o' db =
     (case get_account (er_from o') db of Inl e \<Rightarrow> Inl e
      | Inr _ \<Rightarrow>
      case get_account (er_receiver o') db of Inl e \<Rightarrow> Inl e
      | Inr receiver_account \<Rightarrow>
      case get_escrow (er_from o') (er_escrow_id o') db of Inl e \<Rightarrow> Inl e
      | Inr e \<Rightarrow>
      case asset_ge (esc_token_balance e) (er_token_amount o') of Inl err \<Rightarrow> Inl err
      | Inr enough \<Rightarrow>
      if \<not> enough then Inl (FC_Assert ''Release amount exceeds escrow balance.'')
      else if esc_to e \<noteq> er_to o' then Inl (FC_Assert ''Operation 'to' does not match escrow 'to'.'')
      else if esc_agent e \<noteq> er_agent o' then Inl (FC_Assert ''Operation 'agent' does not match escrow 'agent'.'')
      else if \<not> (er_receiver o' = esc_from e \<or> er_receiver o' = esc_to e)
      then Inl (FC_Assert ''Funds must be released to 'from' or 'to' '')
      else if \<not> (esc_to_approved e \<and> esc_agent_approved e)
      then Inl (FC_Assert ''Funds cannot be released prior to escrow approval.'')
      else case check_release o' e (head_block_time db) of Inl err \<Rightarrow> Inl err
      | Inr _ \<Rightarrow>
      case adjust_balance (er_receiver o') (er_token_amount o') db of Inl err \<Rightarrow> Inl err
      | Inr db1 \<Rightarrow>
      case modify_escrow e (sub_field esc_token_balance esc_token_balance_update (er_token_amount o')) db1 of
        Inl err \<Rightarrow> Inl err
      | Inr db2 \<Rightarrow>
      case get_escrow (er_from o') (er_escrow_id o') db2 of Inl err \<Rightarrow> Inl err
      | Inr e2 \<Rightarrow> if amount (esc_token_balance e2) = 0 then Inr (remove_escrow e2 db2) else Inr db2)"

text \<open>
  The loop walks the unapproved escrows whose deadline has passed, in the order of the index by
  deadline and id.
\<close>

definition refund_escrow :: "escrow_object \<Rightarrow> database \<Rightarrow> database result" where
  "refund_escrow e db =
     (case get_account (esc_from e) db of Inl err \<Rightarrow> Inl err
      | Inr _ \<Rightarrow>
      case adjust_balance (esc_from e) (esc_token_balance e) db of Inl err \<Rightarrow> Inl err
      | Inr db1 \<Rightarrow>
      case adjust_balance (esc_from e) (esc_pending_fee e) db1 of Inl err \<Rightarrow> Inl err
      | Inr db2 \<Rightarrow> Inr (remove_escrow e db2))"

definition unratified :: "database \<Rightarrow> escrow_object list" where
  "unratified db = sort_key esc_ratification_deadline
     (filter (\<lambda>e. \<not> is_approved e \<and> esc_ratification_deadline e \<le> head_block_time db) (db_escrows db))"

definition expire_escrow_ratification :: "database \<Rightarrow> database result" where
  "expire_escrow_ratification db = fold_result refund_escrow (unratified db) db"

section \<open>Well-formed escrows\<close>

text \<open>
  Balances are not negative, the agent is a third party, the fee of an approved escrow has been paid
  out, and only an approved escrow is under dispute.
\<close>

definition escrow_wf :: "escrow_object \<Rightarrow> bool" where
  "escrow_wf e = (0 \<le> amount (esc_token_balance e) \<and> 0 \<le> amount (esc_pending_fee e) \<and>
     symbol (esc_token_balance e) = TOKEN_SYMBOL \<and> symbol (esc_pending_fee e) = TOKEN_SYMBOL \<and>
     esc_from e \<noteq> esc_agent e \<and> esc_to e \<noteq> esc_agent e \<and>
     (is_approved e \<longrightarrow> amount (esc_pending_fee e) = 0) \<and> (esc_disputed e \<longrightarrow> is_approved e))"

definition escrows_ok :: "database \<Rightarrow> bool" where
  "escrows_ok db = (\<forall>e \<in> set (db_escrows db). escrow_wf e)"

section \<open>Tokens\<close>

lemma modify_escrow_Inr [run_simps]:
  "modify_escrow e f db = Inr db' \<longleftrightarrow>
     (\<exists>x x'. find_row escrow_key (escrow_key e) (db_escrows db) = Some x \<and> f x = Inr x' \<and>
        db' = db\<lparr>db_escrows := modify_row escrow_key (escrow_key e) (\<lambda>_. x') (db_escrows db)\<rparr>)"
  by (auto simp: modify_escrow_def run_simps update_row_Inr)

lemma modify_escrow_tokens:
  assumes "modify_escrow e f db = Inr db'" and "keys_ok db"
    and "\<And>x x'. f x = Inr x' \<Longrightarrow> escrow_key x' = escrow_key x \<and> escrow_tokens x' = escrow_tokens x + t"
  shows "keys_ok db' \<and> excess db' = excess db + t \<and> share_gap db' = share_gap db"
proof -
  from assms(1) obtain x x' where x: "find_row escrow_key (escrow_key e) (db_escrows db) = Some x" "f x = Inr x'"
    and db': "db' = db\<lparr>db_escrows := modify_row escrow_key (escrow_key e) (\<lambda>_. x') (db_escrows db)\<rparr>"
    by (auto simp: run_simps)
  have "escrow_key x' = escrow_key e" using assms(3) [OF x(2)] find_row_key [OF x(1)] by simp
  from modify_escrow_ledger [OF x(1) assms(2) this] assms(3) [OF x(2)] show ?thesis by (simp add: db')
qed

lemma adjust_balance_escrows [simp]:
  "adjust_balance n d db = Inr db' \<Longrightarrow> db_escrows db' = db_escrows db"
  by (auto simp: adjust_balance_def run_simps)

lemma adjust_balance_escrow_frame:
  "adjust_balance n d (db\<lparr>db_escrows := es\<rparr>) = Inr db' \<Longrightarrow>
     \<exists>db1. adjust_balance n d db = Inr db1 \<and> db' = db1\<lparr>db_escrows := es\<rparr>"
  unfolding adjust_balance_def modify_account_def
  by (auto split: sum.splits option.splits)

lemma remove_escrow_tokens:
  assumes "find_row escrow_key (escrow_key e) (db_escrows db) = Some e" and "keys_ok db"
  shows "keys_ok (remove_escrow e db) \<and> excess (remove_escrow e db) = excess db - escrow_tokens e \<and>
    share_gap (remove_escrow e db) = share_gap db"
  unfolding remove_escrow_def using remove_escrow_ledger [OF assms] .

lemma found_escrow_key: "find_row escrow_key k es = Some e \<Longrightarrow> find_row escrow_key (escrow_key e) es = Some e"
  using find_row_key by metis

lemma escrow_transfer_ledger [ledger]:
  assumes "escrow_transfer_apply o' db = Inr db'" and "keys_ok db" and "symbol (et_fee o') = TOKEN_SYMBOL"
  shows "keys_ok db' \<and> excess db' = excess db \<and> share_gap db' = share_gap db"
proof -
  from assms(1,3) obtain spent db1 es e where
    s: "asset_add (et_token_amount o') (et_fee o') = Inr spent" and
    a: "adjust_balance (et_from o') (asset_neg spent) db = Inr db1" and
    c: "create_row escrow_key e (db_escrows db1) = Inr es" "db' = db1\<lparr>db_escrows := es\<rparr>"
    and e: "esc_token_balance e = et_token_amount o'" "esc_pending_fee e = et_fee o'"
    by (auto simp: escrow_transfer_apply_def case_sum_Inr if_Inl_Inr)
  from adjust_balance_ledger [OF a assms(2)]
  have 1: "keys_ok db1 \<and> excess db1 = excess db - amount spent \<and> share_gap db1 = share_gap db" by simp
  from create_escrow_ledger [OF c(1) conjunct1 [OF 1]] 1 s e c(2) show ?thesis
    by (auto simp: run_simps escrow_tokens_def)
qed

lemma approve_same_tokens:
  "approve_to o' e db = Inr db' \<Longrightarrow> keys_ok db \<Longrightarrow>
     keys_ok db' \<and> excess db' = excess db \<and> share_gap db' = share_gap db"
  "approve_agent o' e db = Inr db' \<Longrightarrow> keys_ok db \<Longrightarrow>
     keys_ok db' \<and> excess db' = excess db \<and> share_gap db' = share_gap db"
  unfolding approve_to_def approve_agent_def
  by (auto simp del: modify_escrow_Inr split: if_splits dest!: modify_escrow_tokens [where t = 0]
      simp: escrow_key_def escrow_tokens_def)

lemma escrow_approve_ledger [ledger]:
  assumes "escrow_approve_apply o' db = Inr db'" and "keys_ok db"
  shows "keys_ok db' \<and> excess db' = excess db \<and> share_gap db' = share_gap db"
proof -
  from assms(1) obtain e e1 e2 db1 db2 where
    t: "approve_to o' e db = Inr db1" and g: "approve_agent o' e1 db1 = Inr db2" and
    e2: "get_escrow (ea_from o') (ea_escrow_id o') db2 = Inr e2" and
    rest: "(if \<not> ea_approve o' then
        (case adjust_balance (ea_from o') (esc_token_balance e2) db2 of Inl e \<Rightarrow> Inl e
         | Inr db3 \<Rightarrow>
         case adjust_balance (ea_from o') (esc_pending_fee e2) db3 of Inl e \<Rightarrow> Inl e
         | Inr db4 \<Rightarrow> Inr (remove_escrow e2 db4))
      else if esc_to_approved e2 \<and> esc_agent_approved e2 then
        (case adjust_balance (ea_agent o') (esc_pending_fee e2) db2 of Inl e \<Rightarrow> Inl e
         | Inr db3 \<Rightarrow> modify_escrow e2 (\<lambda>esc. Inr (esc\<lparr>esc_pending_fee := (esc_pending_fee esc)\<lparr>amount := 0\<rparr>\<rparr>)) db3)
      else Inr db2) = Inr db'"
    by (auto simp: escrow_approve_apply_def case_sum_Inr if_Inl_Inr)
  note 1 = approve_same_tokens(1) [OF t assms(2)]
  note 2 = approve_same_tokens(2) [OF g conjunct1 [OF 1]]
  have f: "find_row escrow_key (escrow_key e2) (db_escrows db2) = Some e2"
    using e2 by (auto simp: run_simps intro: found_escrow_key)
  consider db3 db4 where "adjust_balance (ea_from o') (esc_token_balance e2) db2 = Inr db3"
        "adjust_balance (ea_from o') (esc_pending_fee e2) db3 = Inr db4" "db' = remove_escrow e2 db4"
    | db3 where "adjust_balance (ea_agent o') (esc_pending_fee e2) db2 = Inr db3"
        "modify_escrow e2 (\<lambda>esc. Inr (esc\<lparr>esc_pending_fee := (esc_pending_fee esc)\<lparr>amount := 0\<rparr>\<rparr>)) db3 = Inr db'"
    | "db' = db2"
    using rest by (auto simp: case_sum_Inr split: if_splits)
  then show ?thesis
  proof cases
    case (1 db3 db4)
    note a = adjust_balance_ledger [OF 1(1) conjunct1 [OF 2]]
    note b = adjust_balance_ledger [OF 1(2) conjunct1 [OF a]]
    have "find_row escrow_key (escrow_key e2) (db_escrows db4) = Some e2" using f 1 by simp
    from remove_escrow_tokens [OF this conjunct1 [OF b]] a b 2 approve_same_tokens(1) [OF t assms(2)] 1(3)
    show ?thesis by (simp add: escrow_tokens_def)
  next
    case (2 db3)
    note a = adjust_balance_ledger [OF 2(1) conjunct1 [OF \<open>keys_ok db2 \<and> _\<close>]]
    have f3: "find_row escrow_key (escrow_key e2) (db_escrows db3) = Some e2" using f 2 by simp
    let ?e = "e2\<lparr>esc_pending_fee := (esc_pending_fee e2)\<lparr>amount := 0\<rparr>\<rparr>"
    have "db' = db3\<lparr>db_escrows := modify_row escrow_key (escrow_key e2) (\<lambda>_. ?e) (db_escrows db3)\<rparr>"
      using 2(2) f3 by (auto simp: run_simps)
    with modify_escrow_ledger [OF f3 conjunct1 [OF a], of ?e] a 1 \<open>keys_ok db2 \<and> _\<close>
    show ?thesis by (simp add: escrow_key_def escrow_tokens_def)
  next
    case 3
    then show ?thesis using 1 2 by simp
  qed
qed

lemma escrow_dispute_ledger [ledger]:
  assumes "escrow_dispute_apply o' db = Inr db'" and "keys_ok db"
  shows "keys_ok db' \<and> excess db' = excess db \<and> share_gap db' = share_gap db"
proof -
  from assms(1) obtain e where "modify_escrow e (\<lambda>esc. Inr (esc\<lparr>esc_disputed := True\<rparr>)) db = Inr db'"
    by (auto simp: escrow_dispute_apply_def case_sum_Inr if_Inl_Inr)
  from modify_escrow_tokens [OF this assms(2), of 0] show ?thesis
    by (auto simp: escrow_key_def escrow_tokens_def)
qed

text \<open>A release taken apart: the escrow it touches and what is left of it.\<close>

lemma escrow_release_cases:
  assumes "escrow_release_apply o' db = Inr db'"
  obtains e db1 where "get_escrow (er_from o') (er_escrow_id o') db = Inr e"
    and "symbol (esc_token_balance e) = symbol (er_token_amount o')"
    and "amount (er_token_amount o') \<le> amount (esc_token_balance e)"
    and "esc_to e = er_to o'" and "esc_agent e = er_agent o'"
    and "er_receiver o' = esc_from e \<or> er_receiver o' = esc_to e" and "is_approved e"
    and "check_release o' e (head_block_time db) = Inr ()"
    and "adjust_balance (er_receiver o') (er_token_amount o') db = Inr db1"
    and "db' = (if amount (esc_token_balance e) = amount (er_token_amount o')
       then db1\<lparr>db_escrows := remove_row escrow_key (escrow_key e) (db_escrows db)\<rparr>
       else db1\<lparr>db_escrows := modify_row escrow_key (escrow_key e)
              (\<lambda>_. e\<lparr>esc_token_balance := mk_asset (amount (esc_token_balance e) - amount (er_token_amount o'))
                       (symbol (er_token_amount o'))\<rparr>) (db_escrows db)\<rparr>)"
proof -
  from assms obtain e db1 db2 e2 where
    e: "get_escrow (er_from o') (er_escrow_id o') db = Inr e" and
    ge: "symbol (esc_token_balance e) = symbol (er_token_amount o')"
      "amount (er_token_amount o') \<le> amount (esc_token_balance e)" and
    p: "esc_to e = er_to o'" "esc_agent e = er_agent o'" "er_receiver o' = esc_from e \<or> er_receiver o' = esc_to e"
      "esc_to_approved e \<and> esc_agent_approved e" "check_release o' e (head_block_time db) = Inr ()" and
    a: "adjust_balance (er_receiver o') (er_token_amount o') db = Inr db1" and
    m: "modify_escrow e (sub_field esc_token_balance esc_token_balance_update (er_token_amount o')) db1 = Inr db2" and
    e2: "get_escrow (er_from o') (er_escrow_id o') db2 = Inr e2"
      "db' = (if amount (esc_token_balance e2) = 0 then remove_escrow e2 db2 else db2)"
    unfolding escrow_release_apply_def case_sum_Inr if_Inl_Inr asset_ge_Inr
    by (metis Inr_inject old.unit.exhaust)
  define e' where e': "e' = e\<lparr>esc_token_balance := mk_asset (amount (esc_token_balance e) - amount (er_token_amount o'))
                       (symbol (er_token_amount o'))\<rparr>"
  define es' where es': "es' = modify_row escrow_key (escrow_key e) (\<lambda>_. e') (db_escrows db)"
  have f: "find_row escrow_key (er_from o', er_escrow_id o') (db_escrows db) = Some e"
    using e by (simp add: get_escrow_Inr)
  have k: "escrow_key e = (er_from o', er_escrow_id o')" using find_row_key [OF f] .
  have k': "escrow_key e' = escrow_key e" by (simp add: escrow_key_def e')
  have db2: "db2 = db1\<lparr>db_escrows := es'\<rparr>"
    using m a f k by (auto simp: modify_escrow_Inr sub_field_Inr es' e')
  have "find_row escrow_key (escrow_key e) es' = Some e'"
    using f k k' by (simp add: find_modify_row es')
  with e2(1) db2 k have "e2 = e'" by (simp add: get_escrow_Inr)
  moreover have "remove_escrow e' db2 = db1\<lparr>db_escrows := remove_row escrow_key (escrow_key e) (db_escrows db)\<rparr>"
    using k' by (simp add: remove_escrow_def db2 es' remove_modify_row)
  ultimately have "db' = (if amount (esc_token_balance e) = amount (er_token_amount o')
       then db1\<lparr>db_escrows := remove_row escrow_key (escrow_key e) (db_escrows db)\<rparr>
       else db1\<lparr>db_escrows := es'\<rparr>)"
  proof -
    have "amount (esc_token_balance e') = amount (esc_token_balance e) - amount (er_token_amount o')"
      by (simp add: e')
    with e2(2) db2 \<open>e2 = e'\<close> \<open>remove_escrow e' db2 = _\<close> show ?thesis by simp
  qed
  then show ?thesis using that [of e db1] e ge p a by (simp add: is_approved_def es' e')
qed

lemma escrow_release_ledger [ledger]:
  assumes "escrow_release_apply o' db = Inr db'" and "keys_ok db" and "escrows_ok db"
  shows "keys_ok db' \<and> excess db' = excess db \<and> share_gap db' = share_gap db"
  using assms(1)
proof (rule escrow_release_cases)
  fix e db1
  assume e: "get_escrow (er_from o') (er_escrow_id o') db = Inr e"
    and a: "adjust_balance (er_receiver o') (er_token_amount o') db = Inr db1"
    and db': "db' = (if amount (esc_token_balance e) = amount (er_token_amount o')
       then db1\<lparr>db_escrows := remove_row escrow_key (escrow_key e) (db_escrows db)\<rparr>
       else db1\<lparr>db_escrows := modify_row escrow_key (escrow_key e)
              (\<lambda>_. e\<lparr>esc_token_balance := mk_asset (amount (esc_token_balance e) - amount (er_token_amount o'))
                       (symbol (er_token_amount o'))\<rparr>) (db_escrows db)\<rparr>)"
    and appr: "is_approved e"
  let ?e = "e\<lparr>esc_token_balance := mk_asset (amount (esc_token_balance e) - amount (er_token_amount o'))
                       (symbol (er_token_amount o'))\<rparr>"
  note l = adjust_balance_ledger [OF a assms(2)]
  have "find_row escrow_key (er_from o', er_escrow_id o') (db_escrows db) = Some e"
    using e by (simp add: get_escrow_Inr)
  then have f: "find_row escrow_key (escrow_key e) (db_escrows db1) = Some e" and "e \<in> set (db_escrows db)"
    using a by (auto intro: found_escrow_key find_row_set)
  then have fee: "amount (esc_pending_fee e) = 0"
    using assms(3) appr by (simp add: escrows_ok_def escrow_wf_def)
  have k: "escrow_key ?e = escrow_key e" by (simp add: escrow_key_def)
  show ?thesis
  proof (cases "amount (esc_token_balance e) = amount (er_token_amount o')")
    case True
    with remove_escrow_ledger [OF f conjunct1 [OF l]] l db' a fee show ?thesis by (simp add: escrow_tokens_def)
  next
    case False
    with modify_escrow_ledger [OF f conjunct1 [OF l] k] l db' a show ?thesis by (simp add: escrow_tokens_def)
  qed
qed

lemma refund_escrow_ledger [ledger]:
  assumes "refund_escrow e db = Inr db'" and "keys_ok db" and "find_row escrow_key (escrow_key e) (db_escrows db) = Some e"
  shows "keys_ok db' \<and> excess db' = excess db \<and> share_gap db' = share_gap db"
proof -
  from assms(1) obtain db1 db2 where
    a: "adjust_balance (esc_from e) (esc_token_balance e) db = Inr db1" and
    b: "adjust_balance (esc_from e) (esc_pending_fee e) db1 = Inr db2" and db': "db' = remove_escrow e db2"
    by (auto simp: refund_escrow_def case_sum_Inr)
  note 1 = adjust_balance_ledger [OF a assms(2)]
  note 2 = adjust_balance_ledger [OF b conjunct1 [OF 1]]
  have "find_row escrow_key (escrow_key e) (db_escrows db2) = Some e" using assms(3) a b by simp
  from remove_escrow_tokens [OF this conjunct1 [OF 2]] 1 2 db' show ?thesis by (simp add: escrow_tokens_def)
qed

lemma refund_escrow_escrows:
  "refund_escrow e db = Inr db' \<Longrightarrow> db_escrows db' = remove_row escrow_key (escrow_key e) (db_escrows db)"
  by (auto simp: refund_escrow_def case_sum_Inr remove_escrow_def)

lemma refund_all_ledger:
  assumes "fold_result refund_escrow es db = Inr db'" and "keys_ok db"
    and "distinct (map escrow_key es)" and "\<forall>e \<in> set es. find_row escrow_key (escrow_key e) (db_escrows db) = Some e"
  shows "keys_ok db' \<and> excess db' = excess db \<and> share_gap db' = share_gap db"
  using assms
proof (induction es arbitrary: db)
  case (Cons e es)
  from Cons.prems(1) obtain db1 where r: "refund_escrow e db = Inr db1" "fold_result refund_escrow es db1 = Inr db'"
    by (auto simp: case_sum_Inr)
  note l = refund_escrow_ledger [OF r(1) Cons.prems(2)]
  have "\<forall>x \<in> set es. find_row escrow_key (escrow_key x) (db_escrows db1) = Some x"
  proof
    fix x assume x: "x \<in> set es"
    with Cons.prems(3) have "escrow_key x \<noteq> escrow_key e" by (metis distinct.simps(2) image_eqI image_set list.simps(9))
    with x Cons.prems(4) show "find_row escrow_key (escrow_key x) (db_escrows db1) = Some x"
      by (simp only: refund_escrow_escrows [OF r(1)] find_remove_row) simp
  qed
  moreover have "find_row escrow_key (escrow_key e) (db_escrows db) = Some e" using Cons.prems(4) by simp
  ultimately show ?case using Cons.IH [OF r(2)] Cons.prems(3) l by simp
qed simp

lemma expire_escrow_ratification_ledger [ledger]:
  assumes "expire_escrow_ratification db = Inr db'" and "keys_ok db"
  shows "keys_ok db' \<and> excess db' = excess db \<and> share_gap db' = share_gap db"
proof -
  have u: "unique_keys escrow_key (db_escrows db)" using assms(2) by (simp add: keys_ok_def)
  have "set (unratified db) \<subseteq> set (db_escrows db)" by (auto simp: unratified_def)
  then have "\<forall>e \<in> set (unratified db). find_row escrow_key (escrow_key e) (db_escrows db) = Some e"
    using find_row_unique [OF u] by auto
  moreover have "distinct (unratified db)" "inj_on escrow_key (set (unratified db))"
    using u by (auto simp: unratified_def unique_keys_def distinct_map intro: inj_on_subset)
  ultimately show ?thesis
    using refund_all_ledger [OF assms(1)[unfolded expire_escrow_ratification_def] assms(2)] by (simp add: distinct_map)
qed

section \<open>Every operation keeps escrows well-formed\<close>

lemma modify_escrows_ok:
  assumes "modify_escrow e f db = Inr db'" and "escrows_ok db"
    and "\<And>x x'. f x = Inr x' \<Longrightarrow> find_row escrow_key (escrow_key e) (db_escrows db) = Some x \<Longrightarrow> escrow_wf x \<Longrightarrow> escrow_wf x'"
  shows "escrows_ok db'"
proof -
  from assms(1) obtain x x' where x: "find_row escrow_key (escrow_key e) (db_escrows db) = Some x" "f x = Inr x'"
    and db': "db' = db\<lparr>db_escrows := modify_row escrow_key (escrow_key e) (\<lambda>_. x') (db_escrows db)\<rparr>"
    by (auto simp: run_simps)
  have "escrow_wf x" using assms(2) find_row_set [OF x(1)] by (simp add: escrows_ok_def)
  then have "escrow_wf x'" using assms(3) [OF x(2,1)] by simp
  then show ?thesis using assms(2) by (auto simp: escrows_ok_def db' modify_row_def)
qed

lemma adjust_balance_escrows_ok:
  "adjust_balance n d db = Inr db' \<Longrightarrow> escrows_ok db' = escrows_ok db"
  by (simp add: escrows_ok_def)

lemma remove_escrow_ok: "escrows_ok db \<Longrightarrow> escrows_ok (remove_escrow e db)"
  by (auto simp: escrows_ok_def remove_escrow_def remove_row_def)

lemma escrow_transfer_wf:
  assumes "escrow_transfer_apply o' db = Inr db'" and "validate_escrow_transfer fc o' = Inr ()" and "escrows_ok db"
  shows "escrows_ok db'"
proof -
  from assms(1) obtain spent db1 es e where
    a: "adjust_balance (et_from o') (asset_neg spent) db = Inr db1" and
    c: "create_row escrow_key e (db_escrows db1) = Inr es" "db' = db1\<lparr>db_escrows := es\<rparr>" and
    e: "e = \<lparr>esc_escrow_id = et_escrow_id o', esc_from = et_from o', esc_to = et_to o', esc_agent = et_agent o',
              esc_ratification_deadline = et_ratification_deadline o',
              esc_escrow_expiration = et_escrow_expiration o',
              esc_token_balance = et_token_amount o', esc_pending_fee = et_fee o',
              esc_to_approved = False, esc_agent_approved = False, esc_disputed = False\<rparr>"
    unfolding escrow_transfer_apply_def case_sum_Inr if_Inl_Inr by blast
  have "escrow_wf e"
    using assms(2) by (simp add: e escrow_wf_def is_approved_def validate_escrow_transfer_def run_simps)
  then show ?thesis
    using assms(3) a c by (auto simp: escrows_ok_def create_row_def split: if_splits)
qed

text \<open>
  Approval runs through a state in which both parties have approved and the fee is not yet paid; the
  invariant is restored by the payment.  The last approval is therefore treated on its own.
\<close>

lemma find_escrow_modified:
  assumes "find_row escrow_key k (db_escrows db) = Some e" and "escrow_key e' = k"
  shows "find_row escrow_key k (db_escrows (db\<lparr>db_escrows := modify_row escrow_key k (\<lambda>_. e') (db_escrows db)\<rparr>)) = Some e'"
  using assms by (simp add: find_modify_row)

definition approved_escrow :: "escrow_approve_operation \<Rightarrow> escrow_object \<Rightarrow> escrow_object" where
  "approved_escrow o' e =
     e\<lparr>esc_to_approved := esc_to_approved e \<or> (ea_approve o' \<and> ea_who o' = ea_to o'),
       esc_agent_approved := esc_agent_approved e \<or> (ea_approve o' \<and> ea_who o' = ea_agent o')\<rparr>"

lemma approve_steps:
  assumes "approve_to o' e db = Inr db1" and "get_escrow (ea_from o') (ea_escrow_id o') db = Inr e"
    and "get_escrow (ea_from o') (ea_escrow_id o') db1 = Inr e1" and "approve_agent o' e1 db1 = Inr db2"
    and "unique_keys escrow_key (db_escrows db)"
  shows "db2 = db\<lparr>db_escrows := modify_row escrow_key (escrow_key e) (\<lambda>_. approved_escrow o' e) (db_escrows db)\<rparr>"
    and "ea_who o' = ea_to o' \<Longrightarrow> \<not> esc_to_approved e" and "ea_who o' = ea_agent o' \<Longrightarrow> \<not> esc_agent_approved e"
proof -
  let ?k = "(ea_from o', ea_escrow_id o')"
  define t where t: "t = e\<lparr>esc_to_approved := esc_to_approved e \<or> (ea_approve o' \<and> ea_who o' = ea_to o')\<rparr>"
  have f: "find_row escrow_key ?k (db_escrows db) = Some e" using assms(2) by (simp add: get_escrow_Inr)
  have k: "escrow_key e = ?k" using find_row_key [OF f] .
  have kt: "escrow_key t = ?k" "escrow_key (approved_escrow o' e) = ?k"
    using k by (simp_all add: t escrow_key_def approved_escrow_def)
  have te: "\<not> (ea_approve o' \<and> ea_who o' = ea_to o') \<Longrightarrow> t = e" by (cases e) (auto simp: t)
  have 1: "db1 = db\<lparr>db_escrows := modify_row escrow_key ?k (\<lambda>_. t) (db_escrows db)\<rparr>"
    using assms(1) f k te modify_row_same [OF assms(5) f]
    by (cases "ea_approve o' \<and> ea_who o' = ea_to o'")
      (auto simp: approve_to_def modify_escrow_Inr t split: if_splits)
  then have e1: "e1 = t" using assms(3) f kt by (simp add: get_escrow_Inr find_modify_row)
  have f1: "find_row escrow_key ?k (db_escrows db1) = Some t" using assms(3) e1 by (simp add: get_escrow_Inr)
  have u1: "unique_keys escrow_key (db_escrows db1)" using 1 kt assms(5) by (simp add: unique_keys_modify_row)
  have ae: "approved_escrow o' e = t\<lparr>esc_agent_approved := esc_agent_approved t \<or> (ea_approve o' \<and> ea_who o' = ea_agent o')\<rparr>"
    by (simp add: approved_escrow_def t)
  have "db2 = db1\<lparr>db_escrows := modify_row escrow_key ?k (\<lambda>_. approved_escrow o' e) (db_escrows db1)\<rparr>"
    using assms(4) f1 kt e1 ae modify_row_same [OF u1 f1]
    by (cases "ea_approve o' \<and> ea_who o' = ea_agent o'")
      (auto simp: approve_agent_def modify_escrow_Inr split: if_splits)
  then show "db2 = db\<lparr>db_escrows := modify_row escrow_key (escrow_key e) (\<lambda>_. approved_escrow o' e) (db_escrows db)\<rparr>"
    using 1 kt k by (simp add: modify_row_twice)
  show "ea_who o' = ea_to o' \<Longrightarrow> \<not> esc_to_approved e"
    using assms(1) by (auto simp: approve_to_def split: if_splits)
  show "ea_who o' = ea_agent o' \<Longrightarrow> \<not> esc_agent_approved e"
    using assms(4) e1 t by (auto simp: approve_agent_def split: if_splits)
qed

lemma escrow_approve_cases:
  assumes "escrow_approve_apply o' db = Inr db'" and "unique_keys escrow_key (db_escrows db)"
  obtains (reject) e db1 where "get_escrow (ea_from o') (ea_escrow_id o') db = Inr e" and "\<not> ea_approve o'"
      and "adjust_balance (ea_from o') (esc_token_balance e) db = Inr db1"
      and "\<exists>db2. adjust_balance (ea_from o') (esc_pending_fee e) db1 = Inr db2 \<and>
             db' = db2\<lparr>db_escrows := remove_row escrow_key (escrow_key e) (db_escrows db)\<rparr>"
  | (complete) e db1 where "get_escrow (ea_from o') (ea_escrow_id o') db = Inr e" and "ea_approve o'"
      and "is_approved (approved_escrow o' e)" and "\<not> is_approved e \<or> (ea_who o' \<noteq> ea_to o' \<and> ea_who o' \<noteq> ea_agent o')"
      and "adjust_balance (ea_agent o') (esc_pending_fee e) db = Inr db1"
      and "db' = db1\<lparr>db_escrows := modify_row escrow_key (escrow_key e)
             (\<lambda>_. (approved_escrow o' e)\<lparr>esc_pending_fee := (esc_pending_fee e)\<lparr>amount := 0\<rparr>\<rparr>) (db_escrows db)\<rparr>"
  | (partial) e where "get_escrow (ea_from o') (ea_escrow_id o') db = Inr e" and "ea_approve o'"
      and "\<not> is_approved (approved_escrow o' e)"
      and "db' = db\<lparr>db_escrows := modify_row escrow_key (escrow_key e) (\<lambda>_. approved_escrow o' e) (db_escrows db)\<rparr>"
proof -
  from assms(1) obtain e db1 e1 db2 e2 where
    e: "get_escrow (ea_from o') (ea_escrow_id o') db = Inr e" and t: "approve_to o' e db = Inr db1" and
    e1: "get_escrow (ea_from o') (ea_escrow_id o') db1 = Inr e1" and g: "approve_agent o' e1 db1 = Inr db2" and
    e2: "get_escrow (ea_from o') (ea_escrow_id o') db2 = Inr e2" and
    rest: "(if \<not> ea_approve o' then
        (case adjust_balance (ea_from o') (esc_token_balance e2) db2 of Inl e \<Rightarrow> Inl e
         | Inr db3 \<Rightarrow>
         case adjust_balance (ea_from o') (esc_pending_fee e2) db3 of Inl e \<Rightarrow> Inl e
         | Inr db4 \<Rightarrow> Inr (remove_escrow e2 db4))
      else if esc_to_approved e2 \<and> esc_agent_approved e2 then
        (case adjust_balance (ea_agent o') (esc_pending_fee e2) db2 of Inl e \<Rightarrow> Inl e
         | Inr db3 \<Rightarrow> modify_escrow e2 (\<lambda>esc. Inr (esc\<lparr>esc_pending_fee := (esc_pending_fee esc)\<lparr>amount := 0\<rparr>\<rparr>)) db3)
      else Inr db2) = Inr db'"
    unfolding escrow_approve_apply_def case_sum_Inr if_Inl_Inr by blast
  define a where a: "a = approved_escrow o' e"
  have f: "find_row escrow_key (escrow_key e) (db_escrows db) = Some e" and k0: "escrow_key e = (ea_from o', ea_escrow_id o')"
    using e found_escrow_key find_row_key unfolding get_escrow_Inr by fast+
  have k: "escrow_key a = escrow_key e" by (simp add: a approved_escrow_def escrow_key_def)
  have db2: "db2 = db\<lparr>db_escrows := modify_row escrow_key (escrow_key e) (\<lambda>_. a) (db_escrows db)\<rparr>"
    using approve_steps(1) [OF t e e1 g assms(2)] by (simp add: a)
  have "e2 = a" using e2 db2 f k k0 by (simp add: get_escrow_Inr find_modify_row)
  show ?thesis
  proof (cases "ea_approve o'")
    case False
    then have "a = e" by (cases e) (simp add: a approved_escrow_def)
    then have "db2 = db" using db2 modify_row_same [OF assms(2) f] by simp
    with False rest \<open>e2 = a\<close> \<open>a = e\<close> obtain db3 db4 where
      "adjust_balance (ea_from o') (esc_token_balance e) db = Inr db3"
      "adjust_balance (ea_from o') (esc_pending_fee e) db3 = Inr db4" "db' = remove_escrow e db4"
      by (auto simp: case_sum_Inr)
    then show ?thesis using reject [OF e False] by (simp add: remove_escrow_def)
  next
    case True
    show ?thesis
    proof (cases "is_approved a")
      case False
      then show ?thesis using partial [OF e True] rest True db2 \<open>e2 = a\<close> by (simp add: a is_approved_def split: if_splits)
    next
      case appr: True
      with rest True \<open>e2 = a\<close> obtain db3 where
        b: "adjust_balance (ea_agent o') (esc_pending_fee a) db2 = Inr db3" and
        m: "modify_escrow a (\<lambda>esc. Inr (esc\<lparr>esc_pending_fee := (esc_pending_fee esc)\<lparr>amount := 0\<rparr>\<rparr>)) db3 = Inr db'"
        by (auto simp: case_sum_Inr is_approved_def)
      have "\<exists>db1. adjust_balance (ea_agent o') (esc_pending_fee e) db = Inr db1 \<and>
          db3 = db1\<lparr>db_escrows := modify_row escrow_key (escrow_key e) (\<lambda>_. a) (db_escrows db)\<rparr>"
        using adjust_balance_escrow_frame [OF b [unfolded db2]] by (simp add: a approved_escrow_def)
      then obtain db1' where b1: "adjust_balance (ea_agent o') (esc_pending_fee e) db = Inr db1'"
        and db3: "db3 = db1'\<lparr>db_escrows := modify_row escrow_key (escrow_key e) (\<lambda>_. a) (db_escrows db)\<rparr>" by blast
      have "find_row escrow_key (escrow_key a) (db_escrows db3) = Some a" using f k by (simp add: db3 find_modify_row)
      with m k have "db' = db1'\<lparr>db_escrows := modify_row escrow_key (escrow_key e)
             (\<lambda>_. a\<lparr>esc_pending_fee := (esc_pending_fee a)\<lparr>amount := 0\<rparr>\<rparr>) (db_escrows db)\<rparr>"
        by (auto simp: modify_escrow_Inr db3 modify_row_twice)
      moreover have "\<not> is_approved e \<or> (ea_who o' \<noteq> ea_to o' \<and> ea_who o' \<noteq> ea_agent o')"
        using approve_steps(2,3) [OF t e e1 g assms(2)] by (auto simp: is_approved_def)
      moreover have "esc_pending_fee a = esc_pending_fee e" by (simp add: a approved_escrow_def)
      ultimately show ?thesis using complete [OF e True _ _ b1] appr by (simp add: a)
    qed
  qed
qed

lemma escrow_approve_wf:
  assumes "escrow_approve_apply o' db = Inr db'" and "keys_ok db" and "escrows_ok db"
  shows "escrows_ok db'"
proof -
  have u: "unique_keys escrow_key (db_escrows db)" using assms(2) by (simp add: keys_ok_def)
  have wf: "escrow_wf e" if "get_escrow (ea_from o') (ea_escrow_id o') db = Inr e" for e
    using assms(3) that find_row_set unfolding get_escrow_Inr escrows_ok_def by fast
  have set': "\<forall>x \<in> set (modify_row escrow_key k (\<lambda>_. y) (db_escrows db)). escrow_wf x" if "escrow_wf y" for k y
    using assms(3) that by (auto simp: escrows_ok_def modify_row_def)
  show ?thesis
    using assms(1) u
  proof (cases rule: escrow_approve_cases)
    case (reject e db1)
    then show ?thesis using assms(3) by (auto simp: escrows_ok_def remove_row_def)
  next
    case (complete e db1)
    have "escrow_wf ((approved_escrow o' e)\<lparr>esc_pending_fee := (esc_pending_fee e)\<lparr>amount := 0\<rparr>\<rparr>)"
      using wf [OF complete(1)] complete(3) by (auto simp: escrow_wf_def approved_escrow_def is_approved_def)
    then show ?thesis using complete(6) set' by (simp add: escrows_ok_def)
  next
    case (partial e)
    have "escrow_wf (approved_escrow o' e)"
      using wf [OF partial(1)] partial(3) by (auto simp: escrow_wf_def approved_escrow_def is_approved_def)
    then show ?thesis using partial(4) set' by (simp add: escrows_ok_def)
  qed
qed

lemma escrow_dispute_wf:
  assumes "escrow_dispute_apply o' db = Inr db'" and "escrows_ok db"
  shows "escrows_ok db'"
proof -
  from assms(1) obtain e where
    g: "get_escrow (ed_from o') (ed_escrow_id o') db = Inr e" "esc_to_approved e \<and> esc_agent_approved e" and
    m: "modify_escrow e (\<lambda>esc. Inr (esc\<lparr>esc_disputed := True\<rparr>)) db = Inr db'"
    unfolding escrow_dispute_apply_def case_sum_Inr if_Inl_Inr by blast
  have "find_row escrow_key (escrow_key e) (db_escrows db) = Some e"
    using g(1) found_escrow_key unfolding get_escrow_Inr by fast
  with m assms(2) g(2) show ?thesis
    by (elim modify_escrows_ok) (auto simp: escrow_wf_def is_approved_def)
qed

lemma escrow_release_wf:
  assumes "escrow_release_apply o' db = Inr db'" and "escrows_ok db" and "validate_escrow_release o' = Inr ()"
  shows "escrows_ok db'"
  using assms(1)
proof (rule escrow_release_cases)
  fix e db1
  assume e: "get_escrow (er_from o') (er_escrow_id o') db = Inr e" "is_approved e"
    and le: "amount (er_token_amount o') \<le> amount (esc_token_balance e)"
    and db': "db' = (if amount (esc_token_balance e) = amount (er_token_amount o')
       then db1\<lparr>db_escrows := remove_row escrow_key (escrow_key e) (db_escrows db)\<rparr>
       else db1\<lparr>db_escrows := modify_row escrow_key (escrow_key e)
              (\<lambda>_. e\<lparr>esc_token_balance := mk_asset (amount (esc_token_balance e) - amount (er_token_amount o'))
                       (symbol (er_token_amount o'))\<rparr>) (db_escrows db)\<rparr>)"
  have "escrow_wf e" using assms(2) e(1) find_row_set unfolding get_escrow_Inr escrows_ok_def by fast
  then have "escrow_wf (e\<lparr>esc_token_balance := mk_asset (amount (esc_token_balance e) - amount (er_token_amount o'))
                       (symbol (er_token_amount o'))\<rparr>)"
    using le assms(3) by (auto simp: escrow_wf_def is_approved_def validate_escrow_release_def run_simps)
  then show ?thesis using assms(2) db' by (auto simp: escrows_ok_def modify_row_def remove_row_def)
qed

lemma expire_escrow_ratification_wf:
  assumes "expire_escrow_ratification db = Inr db'" and "escrows_ok db"
  shows "escrows_ok db'"
  using assms unfolding expire_escrow_ratification_def
  by (rule fold_result_invariant)
    (auto simp: escrows_ok_def remove_row_def dest!: refund_escrow_escrows)

section \<open>The escrow state machine\<close>

text \<open>
  Any interleaving of validated escrow operations, of the expiry that runs with every block, and of
  the passage of time.
\<close>

inductive escrow_step :: "fc_text \<Rightarrow> database \<Rightarrow> database \<Rightarrow> bool" for fc where
  transfer: "validate_escrow_transfer fc o' = Inr () \<Longrightarrow> escrow_transfer_apply o' db = Inr db' \<Longrightarrow> escrow_step fc db db'"
| approve: "validate_escrow_approve p = Inr () \<Longrightarrow> escrow_approve_apply p db = Inr db' \<Longrightarrow> escrow_step fc db db'"
| dispute: "validate_escrow_dispute d = Inr () \<Longrightarrow> escrow_dispute_apply d db = Inr db' \<Longrightarrow> escrow_step fc db db'"
| release: "validate_escrow_release r = Inr () \<Longrightarrow> escrow_release_apply r db = Inr db' \<Longrightarrow> escrow_step fc db db'"
| expire: "expire_escrow_ratification db = Inr db' \<Longrightarrow> escrow_step fc db db'"
| tick: "dgp_time (db_dgp db) \<le> t \<Longrightarrow> escrow_step fc db (db\<lparr>db_dgp := (db_dgp db)\<lparr>dgp_time := t\<rparr>\<rparr>)"

lemma escrow_step_invariant:
  assumes "escrow_step fc db db'" and "keys_ok db" and "escrows_ok db"
  shows "keys_ok db' \<and> escrows_ok db' \<and> excess db' = excess db \<and> share_gap db' = share_gap db"
  using assms
proof cases
  case (transfer o')
  then have "symbol (et_fee o') = TOKEN_SYMBOL" by (simp add: validate_escrow_transfer_def run_simps)
  with transfer assms(2,3) show ?thesis using escrow_transfer_ledger escrow_transfer_wf by blast
next
  case (tick t)
  then show ?thesis using assms(2,3) by (simp add: ledger_dgp escrows_ok_def fund_tokens_def)
next
  case (approve p)
  then show ?thesis
    using escrow_approve_ledger [OF approve(2) assms(2)] escrow_approve_wf [OF approve(2) assms(2,3)] by simp
next
  case (dispute d)
  then show ?thesis
    using escrow_dispute_ledger [OF dispute(2) assms(2)] escrow_dispute_wf [OF dispute(2) assms(3)] by simp
next
  case (release r)
  then show ?thesis
    using escrow_release_ledger [OF release(2) assms(2,3)] escrow_release_wf [OF release(2) assms(3)] by simp
next
  case expire
  then show ?thesis
    using expire_escrow_ratification_ledger [OF expire assms(2)] expire_escrow_ratification_wf [OF expire assms(3)] by simp
qed


definition sample_escrow :: escrow_transfer_operation where
  "sample_escrow = \<lparr>et_from = ''alice'', et_to = ''bob'', et_agent = ''carol'', et_escrow_id = 30,
     et_token_amount = mk_asset 500 TOKEN_SYMBOL, et_fee = mk_asset 20 TOKEN_SYMBOL,
     et_ratification_deadline = 2000000, et_escrow_expiration = 3000000, et_json_metadata = []\<rparr>"

definition any_text :: fc_text where
  "any_text = \<lparr>is_utf8 = \<lambda>_. True, json_is_valid = \<lambda>_. True\<rparr>"

lemma sample_names: "is_valid_account_name ''alice''" "is_valid_account_name ''bob''" "is_valid_account_name ''carol''"
  by code_simp+

lemma sample_escrow_valid: "validate_escrow_transfer any_text sample_escrow = Inr ()"
  by (simp add: validate_escrow_transfer_def sample_escrow_def all_ok_Inr run_simps sample_names
      validate_json_metadata_def)

lemma sample_escrow_run: "\<exists>db'. escrow_transfer_apply sample_escrow sample_db = Inr db'"
  by (simp add: escrow_transfer_apply_def sample_escrow_def get_account_def sample_defs asset_add_def asset_ge_def
      asset_lt_def adjust_balance_def modify_account_def update_row_def add_field_def create_row_def)


section \<open>Who may release\<close>


definition sample_release :: escrow_release_operation where
  "sample_release = \<lparr>er_from = ''alice'', er_to = ''bob'', er_agent = ''carol'', er_who = ''alice'',
     er_receiver = ''bob'', er_escrow_id = 30, er_token_amount = mk_asset 500 TOKEN_SYMBOL\<rparr>"

definition sample_escrow_db :: database where
  "sample_escrow_db = sample_db\<lparr>db_escrows := [\<lparr>esc_escrow_id = 30, esc_from = ''alice'', esc_to = ''bob'',
     esc_agent = ''carol'', esc_ratification_deadline = 2000000, esc_escrow_expiration = 3000000,
     esc_token_balance = mk_asset 500 TOKEN_SYMBOL, esc_pending_fee = mk_asset 0 TOKEN_SYMBOL,
     esc_to_approved = True, esc_agent_approved = True, esc_disputed = False\<rparr>]\<rparr>"


section \<open>Expiry\<close>

lemma refund_escrow_runs:
  assumes "solvent db" and "escrow_wf e" and "find_row acc_name (esc_from e) (db_accounts db) \<noteq> None"
  obtains db' where "refund_escrow e db = Inr db'" and "solvent db'" and "db_dgp db' = db_dgp db"
    and "\<And>n. (find_row acc_name n (db_accounts db') = None) = (find_row acc_name n (db_accounts db) = None)"
proof -
  from assms(3) obtain a where a: "find_row acc_name (esc_from e) (db_accounts db) = Some a" by blast
  from assms(2) have t: "symbol (esc_token_balance e) = TOKEN_SYMBOL" "symbol (esc_pending_fee e) = TOKEN_SYMBOL"
    "0 \<le> amount (esc_token_balance e)" "0 \<le> amount (esc_pending_fee e)" by (simp_all add: escrow_wf_def)
  obtain db1 where 1: "adjust_balance (esc_from e) (esc_token_balance e) db = Inr db1"
    using adjust_balance_runs [OF assms(1) a t(1)] .
  have s1: "solvent db1" by (rule adjust_balance_solvent [OF 1 assms(1)]) (use t solventD [OF assms(1)] in force)
  obtain a1 where a1: "find_row acc_name (esc_from e) (db_accounts db1) = Some a1"
    using adjust_balance_finds [OF 1] assms(3) by (meson not_None_eq)
  obtain db2 where 2: "adjust_balance (esc_from e) (esc_pending_fee e) db1 = Inr db2"
    using adjust_balance_runs [OF s1 a1 t(2)] .
  have s2: "solvent db2" by (rule adjust_balance_solvent [OF 2 s1]) (use t solventD [OF s1] in force)
  have "refund_escrow e db = Inr (remove_escrow e db2)"
    using 1 2 a by (simp add: refund_escrow_def get_account_def)
  then show ?thesis
    using that [of "remove_escrow e db2"] s2 adjust_balance_finds [OF 1] adjust_balance_finds [OF 2]
      adjust_balance_frame [OF 1] adjust_balance_frame [OF 2]
    by (simp add: remove_escrow_def solvent_def)
qed

lemma unratified_iff:
  "e \<in> set (unratified db) \<longleftrightarrow>
     e \<in> set (db_escrows db) \<and> \<not> is_approved e \<and> esc_ratification_deadline e \<le> head_block_time db"
  by (simp add: unratified_def)

lemma refund_all_runs:
  assumes "solvent db" and "\<forall>e \<in> set es. escrow_wf e \<and> find_row acc_name (esc_from e) (db_accounts db) \<noteq> None"
  shows "\<exists>db'. fold_result refund_escrow es db = Inr db' \<and> db_dgp db' = db_dgp db \<and>
     set (db_escrows db') = {x \<in> set (db_escrows db). escrow_key x \<notin> escrow_key ` set es}"
  using assms
proof (induction es arbitrary: db)
  case (Cons e es)
  obtain db1 where r: "refund_escrow e db = Inr db1" and s: "solvent db1" and d: "db_dgp db1 = db_dgp db"
    and n: "\<And>n. (find_row acc_name n (db_accounts db1) = None) = (find_row acc_name n (db_accounts db) = None)"
    using refund_escrow_runs [of db e] Cons.prems by (metis list.set_intros(1))
  have "\<forall>x \<in> set es. escrow_wf x \<and> find_row acc_name (esc_from x) (db_accounts db1) \<noteq> None"
    using Cons.prems(2) n by simp
  from Cons.IH [OF s this] r d refund_escrow_escrows [OF r] show ?case
    by (auto simp: remove_row_def)
qed simp

text \<open>The expiry that runs with every block cannot fail on a well-formed state, and afterwards every
  escrow that is not approved by both parties still has its ratification deadline ahead of it.\<close>

theorem expire_escrow_ratification_complete:
  assumes "solvent db" and "escrows_ok db"
    and "\<forall>e \<in> set (db_escrows db). find_row acc_name (esc_from e) (db_accounts db) \<noteq> None"
  shows "\<exists>db'. expire_escrow_ratification db = Inr db' \<and>
     (\<forall>e \<in> set (db_escrows db'). is_approved e \<or> head_block_time db' < esc_ratification_deadline e)"
proof -
  have "\<forall>e \<in> set (unratified db). escrow_wf e \<and> find_row acc_name (esc_from e) (db_accounts db) \<noteq> None"
    using assms(2,3) by (auto simp: unratified_def escrows_ok_def)
  from refund_all_runs [OF assms(1) this] obtain db' where
    r: "expire_escrow_ratification db = Inr db'" "db_dgp db' = db_dgp db"
      "set (db_escrows db') = {x \<in> set (db_escrows db). escrow_key x \<notin> escrow_key ` set (unratified db)}"
    by (auto simp: expire_escrow_ratification_def)
  have "is_approved e \<or> head_block_time db' < esc_ratification_deadline e" if "e \<in> set (db_escrows db')" for e
  proof -
    from that r(3) have "e \<in> set (db_escrows db)" "e \<notin> set (unratified db)" by auto
    then show ?thesis unfolding unratified_iff r(2) by (meson not_le)
  qed
  with r(1) show ?thesis by blast
qed

theorem expire_escrow_ratification_complete_witness:
  "\<exists>db'. expire_escrow_ratification sample_escrow_db = Inr db' \<and>
     (\<forall>e \<in> set (db_escrows db'). is_approved e \<or> head_block_time db' < esc_ratification_deadline e)"
proof (rule expire_escrow_ratification_complete)
  show "solvent sample_escrow_db" using sample_db_ok(2) by (simp add: sample_escrow_db_def solvent_def)
  show "escrows_ok sample_escrow_db" by (simp add: escrows_ok_def sample_escrow_db_def escrow_wf_def is_approved_def)
  show "\<forall>e \<in> set (db_escrows sample_escrow_db).
      find_row acc_name (esc_from e) (db_accounts sample_escrow_db) \<noteq> None"
    by (simp add: sample_escrow_db_def sample_defs)
qed

end
