(* ===== verification/Chain_Frames.thy ===== *)
theory Chain_Frames
  imports Chain_Ledger "HOL-Library.Multiset"
begin

text \<open>
  What the shared operations leave alone.  \<open>only_votes\<close> says that two states differ in accounts and
  witnesses only; the view lemmas say which account fields a change of witness votes does not touch.
\<close>

lemma sum_sort_key: "sum_list (map f (sort_key k xs)) = sum_list (map (f :: 'a \<Rightarrow> int) xs)"
  by (metis mset_map mset_sort sum_mset_sum_list)

lemma total_zero: "(\<And>x. x \<in> set xs \<Longrightarrow> g x = 0) \<Longrightarrow> total g xs = 0"
  by (induction xs) auto

lemma total_partition: "total g (filter P xs) + total g (filter (\<lambda>x. \<not> P x) xs) = total g xs"
  by (induction xs) auto

definition only_votes :: "database \<Rightarrow> database \<Rightarrow> bool" where
  "only_votes db db' = (\<exists>accs ws. db' = db\<lparr>db_accounts := accs, db_witnesses := ws\<rparr>)"

lemma only_votes_refl [simp]: "only_votes db db"
  unfolding only_votes_def by (intro exI [of _ "db_accounts db"] exI [of _ "db_witnesses db"]) simp

lemma only_votes_trans: "only_votes a b \<Longrightarrow> only_votes b c \<Longrightarrow> only_votes a c"
  unfolding only_votes_def by (elim exE, rule exI, rule exI) simp

lemma only_votes_accounts: "only_votes db (db\<lparr>db_accounts := accs\<rparr>)"
  unfolding only_votes_def by (intro exI [of _ accs] exI [of _ "db_witnesses db"]) simp

lemma only_votes_witnesses: "only_votes db (db\<lparr>db_witnesses := ws\<rparr>)"
  unfolding only_votes_def by (intro exI [of _ "db_accounts db"] exI [of _ ws]) simp

lemma only_votes_fields:
  "only_votes db db' \<Longrightarrow> db_dgp db' = db_dgp db \<and> db_escrows db' = db_escrows db \<and> db_invites db' = db_invites db
     \<and> db_withdraw_routes db' = db_withdraw_routes db \<and> db_schedule db' = db_schedule db
     \<and> db_witness_votes db' = db_witness_votes db \<and> db_processed_hardforks db' = db_processed_hardforks db
     \<and> db_delegations db' = db_delegations db \<and> db_delegation_expirations db' = db_delegation_expirations db
     \<and> db_award_expires db' = db_award_expires db \<and> db_next_account_id db' = db_next_account_id db
     \<and> db_authorities db' = db_authorities db \<and> db_metadata db' = db_metadata db"
  unfolding only_votes_def by (elim exE) simp

lemma modify_account_only: "modify_account n f db = Inr db' \<Longrightarrow> only_votes db db'"
  unfolding modify_account_Inr by (elim exE conjE) (simp only: only_votes_accounts)

lemma adjust_witness_vote_only: "adjust_witness_vote i d db = Inr db' \<Longrightarrow> only_votes db db'"
  unfolding adjust_witness_vote_def Let_def modify_witness_Inr by (elim exE conjE) (simp only: only_votes_witnesses)

lemma fold_witness_votes_only:
  "fold_result (\<lambda>i. adjust_witness_vote i d) ids db = Inr db' \<Longrightarrow> only_votes db db'"
  by (rule fold_result_invariant [where P = "only_votes db"])
    (auto intro: only_votes_trans dest: adjust_witness_vote_only)

text \<open>What a modification of one account does to every lookup.\<close>

lemma modify_account_finds:
  assumes "modify_account n f db = Inr db'" and "\<And>a a'. f a = Inr a' \<Longrightarrow> acc_name a' = acc_name a"
  obtains a a' where "find_row acc_name n (db_accounts db) = Some a" and "f a = Inr a'"
    and "\<And>m. find_row acc_name m (db_accounts db') = (if m = n then Some a' else find_row acc_name m (db_accounts db))"
    and "only_votes db db'"
proof -
  from assms(1) obtain a a' where a: "find_row acc_name n (db_accounts db) = Some a" "f a = Inr a'"
    and db': "db' = db\<lparr>db_accounts := modify_row acc_name n (\<lambda>_. a') (db_accounts db)\<rparr>"
    by (auto simp: run_simps)
  have "acc_name a' = n" using assms(2) [OF a(2)] find_row_key [OF a(1)] by simp
  then have "find_row acc_name m (db_accounts db') = (if m = n then Some a' else find_row acc_name m (db_accounts db))" for m
    using a(1) by (simp add: db' find_modify_row)
  with a that modify_account_only [OF assms(1)] show ?thesis by blast
qed

section \<open>Account fields that votes do not touch\<close>

definition vote_free :: "(account_object \<Rightarrow> 'b) \<Rightarrow> bool" where
  "vote_free g = (\<forall>a. (\<forall>x. g (a\<lparr>acc_proxied_vsf_votes := x\<rparr>) = g a) \<and> (\<forall>x. g (a\<lparr>acc_witnesses_vote_weight := x\<rparr>) = g a))"

lemma modify_account_view:
  assumes "modify_account n f db = Inr db'" and "keys_ok db" and "\<And>a a'. f a = Inr a' \<Longrightarrow> g a' = g a"
  shows "map g (db_accounts db') = map g (db_accounts db)"
proof -
  from assms(1) obtain a a' where a: "find_row acc_name n (db_accounts db) = Some a" and fa: "f a = Inr a'"
    and db': "db_accounts db' = modify_row acc_name n (\<lambda>_. a') (db_accounts db)"
    by (auto simp: run_simps)
  have "map g (modify_row acc_name n (\<lambda>_. a') rows) = map g rows"
    if "unique_keys acc_name rows" "find_row acc_name n rows = Some a" for rows
    using that
  proof (induction rows)
    case (Cons r rows)
    then show ?case using assms(3) [OF fa]
      by (cases "acc_name r = n") (auto simp: modify_row_absent find_row_None)
  qed simp
  with a assms(2) show ?thesis by (simp add: db' keys_ok_def)
qed

lemma adjust_witness_votes_frame:
  assumes "adjust_witness_votes n d db = Inr db'" and "keys_ok db" and "vote_free g"
  shows "only_votes db db' \<and> map g (db_accounts db') = map g (db_accounts db)"
proof -
  from assms(1) consider "db' = db"
    | x db1 ids where "modify_account n (\<lambda>acc. Inr (acc\<lparr>acc_witnesses_vote_weight := acc_witnesses_vote_weight acc + x\<rparr>)) db = Inr db1"
        "fold_result (\<lambda>i. adjust_witness_vote i x) ids db1 = Inr db'"
    | ids where "fold_result (\<lambda>i. adjust_witness_vote i d) ids db = Inr db'"
    by (auto simp: adjust_witness_votes_def case_sum_Inr Let_def split: if_splits)
  then show ?thesis
  proof cases
    case 2
    have "map g (db_accounts db1) = map g (db_accounts db)"
      using modify_account_view [OF 2(1) assms(2)] assms(3) by (auto simp: vote_free_def)
    moreover have "db_accounts db' = db_accounts db1"
      using fold_witness_votes_same [OF 2(2)] by (simp add: same_ledger_def)
    ultimately show ?thesis
      using only_votes_trans [OF modify_account_only [OF 2(1)] fold_witness_votes_only [OF 2(2)]] by simp
  next
    case 3
    then show ?thesis using fold_witness_votes_same [OF 3] fold_witness_votes_only [OF 3] by (simp add: same_ledger_def)
  qed simp
qed

lemma adjust_proxied_witness_votes_frame:
  "adjust_proxied_witness_votes n d depth db = Inr db' \<Longrightarrow> keys_ok db \<Longrightarrow> vote_free g \<Longrightarrow>
     only_votes db db' \<and> map g (db_accounts db') = map g (db_accounts db)"
proof (induction n d depth db rule: adjust_proxied_witness_votes.induct)
  case (1 n d depth db)
  from "1.prems"(1) obtain a where a: "get_account n db = Inr a"
    by (subst (asm) adjust_proxied_witness_votes.simps) (auto simp: case_sum_Inr)
  consider "acc_proxy a = []" | "acc_proxy a \<noteq> []" "CHAIN_MAX_PROXY_RECURSION_DEPTH \<le> depth"
    | "acc_proxy a \<noteq> []" "\<not> CHAIN_MAX_PROXY_RECURSION_DEPTH \<le> depth" by blast
  then show ?case
  proof cases
    case 1
    with "1.prems" a have "adjust_witness_votes n d db = Inr db'"
      by (subst (asm) adjust_proxied_witness_votes.simps) simp
    then show ?thesis using "1.prems"(2,3) by (rule adjust_witness_votes_frame)
  next
    case 2
    with "1.prems" a show ?thesis by (subst (asm) adjust_proxied_witness_votes.simps) simp
  next
    case 3
    let ?f = "\<lambda>p. Inr (p\<lparr>acc_proxied_vsf_votes :=
                     (acc_proxied_vsf_votes p)[depth := acc_proxied_vsf_votes p ! depth + d]\<rparr>)"
    from 3 "1.prems"(1) a obtain db1 where
      m: "modify_account (acc_proxy a) ?f db = Inr db1" and
      r: "adjust_proxied_witness_votes (acc_proxy a) d (depth + 1) db1 = Inr db'"
      by (subst (asm) adjust_proxied_witness_votes.simps) (auto simp: case_sum_Inr)
    have v: "map g (db_accounts db1) = map g (db_accounts db)"
      using modify_account_view [OF m "1.prems"(2)] "1.prems"(3) by (auto simp: vote_free_def)
    have "keys_ok db1" using modify_account_tokens [OF m "1.prems"(2), of 0 0]
      by (auto simp: account_tokens_def account_shares_def)
    with "1.IH" [OF a 3 m r] "1.prems"(3) v only_votes_trans [OF modify_account_only [OF m]] show ?thesis by auto
  qed
qed

lemma create_vesting_frame:
  assumes "create_vesting n tokens db = Inr (v, db')" and "keys_ok db" and "vote_free g"
    and "\<And>a x. g (a\<lparr>acc_vesting_shares := x\<rparr>) = g a"
  shows "map g (db_accounts db') = map g (db_accounts db) \<and> db_escrows db' = db_escrows db \<and> db_invites db' = db_invites db
    \<and> db_schedule db' = db_schedule db"
proof -
  from assms(1) obtain db1 db2 where
    m: "modify_account n (add_field acc_vesting_shares acc_vesting_shares_update v) db = Inr db1" and
    p: "\<exists>q. db2 = db1\<lparr>db_dgp := q\<rparr>" and
    r: "adjust_proxied_witness_votes n (amount v) 0 db2 = Inr db'"
    by (auto simp: create_vesting_def case_sum_Inr modify_dgp_Inr)
  have "keys_ok db2" using p modify_account_tokens [OF m assms(2), of 0 "amount v"]
    by (auto simp: run_simps account_tokens_def account_shares_def ledger_dgp)
  from adjust_proxied_witness_votes_frame [OF r this assms(3)]
  have 1: "only_votes db2 db'" "map g (db_accounts db') = map g (db_accounts db2)" by auto
  have "map g (db_accounts db1) = map g (db_accounts db)"
    using modify_account_view [OF m assms(2)] assms(4) by (auto simp: run_simps)
  with 1 p only_votes_fields [OF 1(1)] only_votes_fields [OF modify_account_only [OF m]] show ?thesis by auto
qed

text \<open>A view of all accounts determines the view of every single one.\<close>

lemma find_row_view:
  assumes "map g (db_accounts db') = map g (db_accounts db)" and "\<And>a b. g a = g b \<Longrightarrow> acc_name a = acc_name b"
  shows "map_option g (find_row acc_name n (db_accounts db')) = map_option g (find_row acc_name n (db_accounts db))"
proof -
  have "map g xs = map g ys \<Longrightarrow> map_option g (find_row acc_name n xs) = map_option g (find_row acc_name n ys)" for xs ys
  proof (induction xs arbitrary: ys)
    case (Cons x xs)
    then obtain y ys' where "ys = y # ys'" "g x = g y" "map g xs = map g ys'" by (cases ys) auto
    with Cons.IH [of ys'] assms(2) [of x y] show ?case by auto
  qed auto
  then show ?thesis using assms(1) by blast
qed

end
