(* ===== verification/Vesting.thy ===== *)
theory Vesting
  imports Chain_Frames
begin

text \<open>
  Vesting: turning tokens into shares, scheduling a withdrawal and its routes, the periodic
  conversion of shares back into tokens, and the emptying of the null, anonymous and committee
  accounts (\<open>chain/chain_evaluator.cpp\<close>, \<open>chain/database.cpp\<close>).
\<close>

section \<open>Evaluators\<close>

definition transfer_to_vesting_apply :: "transfer_to_vesting_operation \<Rightarrow> database \<Rightarrow> database result" where
  "transfer_to_vesting_apply o' db =
     (case get_account (tv_from o') db of Inl e \<Rightarrow> Inl e
      | Inr from_account \<Rightarrow>
      case (if tv_to o' \<noteq> [] then get_account (tv_to o') db else Inr from_account) of Inl e \<Rightarrow> Inl e
      | Inr to_account \<Rightarrow>
      case get_balance from_account TOKEN_SYMBOL of Inl e \<Rightarrow> Inl e
      | Inr balance \<Rightarrow>
      case asset_ge balance (tv_amount o') of Inl e \<Rightarrow> Inl e
      | Inr enough \<Rightarrow>
      if \<not> enough then Inl (FC_Assert ''Account does not have sufficient TOKEN for transfer.'')
      else case adjust_balance (tv_from o') (asset_neg (tv_amount o')) db of Inl e \<Rightarrow> Inl e
      | Inr db1 \<Rightarrow>
      case create_vesting (acc_name to_account) (tv_amount o') db1 of Inl e \<Rightarrow> Inl e
      | Inr (_, db2) \<Rightarrow> Inr db2)"

text \<open>The rate of a new withdrawal; since hardfork 5 it is taken from all available shares.\<close>

definition new_withdraw_rate :: "withdraw_vesting_operation \<Rightarrow> account_object \<Rightarrow> database \<Rightarrow> int" where
  "new_withdraw_rate o' a db =
     (let intervals = (if has_hardfork 9 db then withdraw_intervals (median_props db)
                       else CHAIN_VESTING_WITHDRAW_INTERVALS);
          rate = (if has_hardfork 5 db then available_vesting_shares a False
                  else amount (wv_vesting_shares o')) sdiv intervals
      in if rate = 0 then 1 else rate)"

definition stop_withdrawal :: "account_object \<Rightarrow> account_object result" where
  "stop_withdrawal a =
     Inr (a\<lparr>acc_vesting_withdraw_rate := mk_asset 0 SHARES_SYMBOL,
            acc_next_vesting_withdrawal := time_point_sec_maximum, acc_to_withdraw := 0, acc_withdrawn := 0\<rparr>)"

definition start_withdrawal ::
  "withdraw_vesting_operation \<Rightarrow> account_object \<Rightarrow> database \<Rightarrow> account_object \<Rightarrow> account_object result" where
  "start_withdrawal o' account db a =
     (let new_rate = mk_asset (new_withdraw_rate o' a db) SHARES_SYMBOL
      in case asset_ne (acc_vesting_withdraw_rate account) new_rate of Inl e \<Rightarrow> Inl e
         | Inr changed \<Rightarrow>
           if \<not> changed then Inl (FC_Assert ''This operation would not change the vesting withdraw rate.'')
           else Inr (a\<lparr>acc_vesting_withdraw_rate := new_rate,
             acc_next_vesting_withdrawal := head_block_time db + CHAIN_VESTING_WITHDRAW_INTERVAL_SECONDS,
             acc_to_withdraw := amount (wv_vesting_shares o'), acc_withdrawn := 0\<rparr>))"

definition withdraw_vesting_apply :: "withdraw_vesting_operation \<Rightarrow> database \<Rightarrow> database result" where
  "withdraw_vesting_apply o' db =
     (case get_account (wv_account o') db of Inl e \<Rightarrow> Inl e
      | Inr account \<Rightarrow>
      if \<not> amount (acc_vesting_shares account) \<ge> 0
      then Inl (FC_Assert ''Account does not have sufficient SHARES for withdraw.'')
      else case asset_ge (mk_asset (available_vesting_shares account False) SHARES_SYMBOL) (wv_vesting_shares o') of
        Inl e \<Rightarrow> Inl e
      | Inr enough \<Rightarrow>
      if \<not> enough then Inl (FC_Assert ''Account does not have sufficient SHARES for withdraw.'')
      else if \<not> amount (wv_vesting_shares o') \<ge> 0 then Inl (FC_Assert ''Cannot withdraw negative SHARES.'')
      else if amount (wv_vesting_shares o') = 0 then
        (if amount (acc_vesting_withdraw_rate account) = 0
         then Inl (FC_Assert ''This operation would not change the vesting withdraw rate.'')
         else modify_account (wv_account o') stop_withdrawal db)
      else modify_account (wv_account o') (start_withdrawal o' account db) db)"

text \<open>
  The routes of an account as the loops see them: the index by source and destination from just
  above destination id 0, so that a route to the account with id 0 is not among them.
\<close>

definition route_key :: "withdraw_vesting_route_object \<Rightarrow> nat \<times> nat" where
  "route_key r = (wro_from_account r, wro_to_account r)"

definition routes_from :: "nat \<Rightarrow> database \<Rightarrow> withdraw_vesting_route_object list" where
  "routes_from i db = sort_key wro_to_account
     (filter (\<lambda>r. wro_from_account r = i \<and> wro_to_account r > 0) (db_withdraw_routes db))"

text \<open>Creates, removes or changes the route, by the percentage asked for.\<close>

definition store_route ::
  "set_withdraw_vesting_route_operation \<Rightarrow> account_object \<Rightarrow> account_object \<Rightarrow> database \<Rightarrow> database result" where
  "store_route o' from_account to_account db =
     (let k = (acc_id from_account, acc_id to_account);
          route = \<lparr>wro_from_account = acc_id from_account, wro_to_account = acc_id to_account,
                   wro_percent = wr_percent o', wro_auto_vest = wr_auto_vest o'\<rparr>
      in case find_row route_key k (db_withdraw_routes db) of
           None \<Rightarrow>
             if wr_percent o' = 0 then Inl (FC_Assert ''Cannot create a 0% destination.'')
             else if \<not> acc_withdraw_routes from_account < CHAIN_MAX_WITHDRAW_ROUTES
             then Inl (FC_Assert ''Account already has the maximum number of routes.'')
             else modify_account (wr_from_account o')
                    (\<lambda>a. Inr (a\<lparr>acc_withdraw_routes := u16 (acc_withdraw_routes a + 1)\<rparr>))
                    (db\<lparr>db_withdraw_routes := db_withdraw_routes db @ [route]\<rparr>)
         | Some _ \<Rightarrow>
             if wr_percent o' = 0
             then modify_account (wr_from_account o')
                    (\<lambda>a. Inr (a\<lparr>acc_withdraw_routes := u16 (acc_withdraw_routes a - 1)\<rparr>))
                    (db\<lparr>db_withdraw_routes := remove_row route_key k (db_withdraw_routes db)\<rparr>)
             else Inr (db\<lparr>db_withdraw_routes := modify_row route_key k (\<lambda>_. route) (db_withdraw_routes db)\<rparr>))"

definition set_withdraw_vesting_route_apply ::
  "set_withdraw_vesting_route_operation \<Rightarrow> database \<Rightarrow> database result" where
  "set_withdraw_vesting_route_apply o' db =
     (case get_account (wr_from_account o') db of Inl e \<Rightarrow> Inl e
      | Inr from_account \<Rightarrow>
      case get_account (wr_to_account o') db of Inl e \<Rightarrow> Inl e
      | Inr to_account \<Rightarrow>
      case store_route o' from_account to_account db of Inl e \<Rightarrow> Inl e
      | Inr db1 \<Rightarrow>
      let total_percent = fold (\<lambda>r t. u16 (t + wro_percent r)) (routes_from (acc_id from_account) db1) 0
      in if \<not> total_percent \<le> CHAIN_100_PERCENT
         then Inl (FC_Assert ''More than 100% of vesting withdrawals allocated to destinations.'')
         else Inr db1)"

section \<open>Periodic withdrawals\<close>

definition get_account_by_id :: "nat \<Rightarrow> database \<Rightarrow> account_object result" where
  "get_account_by_id i db =
     (case find_row acc_id i (db_accounts db) of None \<Rightarrow> Inl (Unknown_key ''account id'') | Some a \<Rightarrow> Inr a)"

definition withdraw_amount :: "account_object \<Rightarrow> int result" where
  "withdraw_amount a =
     (let rate = amount (acc_vesting_withdraw_rate a); v = amount (acc_vesting_shares a)
      in if acc_to_withdraw a - acc_withdrawn a < rate
         then if rate = 0 then Inl Division_by_zero else Inr (max 0 (min v (acc_to_withdraw a smod rate)))
         else Inr (max 0 (min v rate)))"

definition route_deposit :: "int \<Rightarrow> withdraw_vesting_route_object \<Rightarrow> int" where
  "route_deposit to_withdraw r = i64 (u64 (u128 (u128 to_withdraw * wro_percent r) div CHAIN_100_PERCENT))"

text \<open>First pass: routes that deposit shares.  The state of the loop is the sum of the deposits.\<close>

definition vest_route :: "int \<Rightarrow> withdraw_vesting_route_object \<Rightarrow> int \<times> database \<Rightarrow> (int \<times> database) result" where
  "vest_route to_withdraw r st =
     (let (vests, db) = st; to_deposit = route_deposit to_withdraw r
      in if wro_auto_vest r then
           if to_deposit > 0 then
             case get_account_by_id (wro_to_account r) db of Inl e \<Rightarrow> Inl e
             | Inr to_account \<Rightarrow>
             case modify_account (acc_name to_account) (\<lambda>a. Inr (a\<lparr>acc_vesting_shares :=
                    (acc_vesting_shares a)\<lparr>amount := amount (acc_vesting_shares a) + to_deposit\<rparr>\<rparr>)) db of Inl e \<Rightarrow> Inl e
             | Inr db1 \<Rightarrow>
             case adjust_proxied_witness_votes (acc_name to_account) to_deposit 0 db1 of Inl e \<Rightarrow> Inl e
             | Inr db2 \<Rightarrow> Inr (vests + to_deposit, db2)
           else Inr (vests + to_deposit, db)
         else Inr (vests, db))"

text \<open>Second pass: routes that deposit tokens at the current share price.\<close>

definition token_route :: "int \<Rightarrow> withdraw_vesting_route_object \<Rightarrow> int \<times> asset \<times> database \<Rightarrow>
    (int \<times> asset \<times> database) result" where
  "token_route to_withdraw r st =
     (let (vests, converted, db) = st; to_deposit = route_deposit to_withdraw r
      in if \<not> wro_auto_vest r then
           case get_account_by_id (wro_to_account r) db of Inl e \<Rightarrow> Inl e
           | Inr to_account \<Rightarrow>
           case asset_times_price (mk_asset to_deposit SHARES_SYMBOL) (get_vesting_share_price (db_dgp db)) of Inl e \<Rightarrow> Inl e
           | Inr converted_tokens \<Rightarrow>
           case asset_add converted converted_tokens of Inl e \<Rightarrow> Inl e
           | Inr converted' \<Rightarrow>
           if to_deposit > 0 then
             case modify_account (acc_name to_account) (add_field acc_balance acc_balance_update converted_tokens) db of
               Inl e \<Rightarrow> Inl e
             | Inr db1 \<Rightarrow>
             case modify_dgp (\<lambda>p. case sub_field total_vesting_fund total_vesting_fund_update converted_tokens p of
                      Inl e \<Rightarrow> Inl e
                    | Inr p' \<Rightarrow> Inr (p'\<lparr>total_vesting_shares :=
                        (total_vesting_shares p')\<lparr>amount := amount (total_vesting_shares p') - to_deposit\<rparr>\<rparr>)) db1 of
               Inl e \<Rightarrow> Inl e
             | Inr db2 \<Rightarrow> Inr (vests + to_deposit, converted', db2)
           else Inr (vests + to_deposit, converted', db)
         else Inr (vests, converted, db))"

definition finish_withdrawal :: "int \<Rightarrow> asset \<Rightarrow> account_object \<Rightarrow> account_object result" where
  "finish_withdrawal to_withdraw converted_tokens a =
     (case add_field acc_balance acc_balance_update converted_tokens
             (a\<lparr>acc_vesting_shares := (acc_vesting_shares a)\<lparr>amount := amount (acc_vesting_shares a) - to_withdraw\<rparr>\<rparr>) of
        Inl e \<Rightarrow> Inl e
      | Inr a1 \<Rightarrow>
        let a2 = a1\<lparr>acc_withdrawn := acc_withdrawn a1 + to_withdraw\<rparr>
        in if acc_withdrawn a2 \<ge> acc_to_withdraw a2 \<or> amount (acc_vesting_shares a2) = 0
           then Inr (a2\<lparr>acc_vesting_withdraw_rate := (acc_vesting_withdraw_rate a2)\<lparr>amount := 0\<rparr>,
                        acc_next_vesting_withdrawal := time_point_sec_maximum\<rparr>)
           else Inr (a2\<lparr>acc_next_vesting_withdrawal :=
                        acc_next_vesting_withdrawal a2 + CHAIN_VESTING_WITHDRAW_INTERVAL_SECONDS\<rparr>))"

definition withdraw_account :: "account_object \<Rightarrow> database \<Rightarrow> database result" where
  "withdraw_account from_account db =
     (case withdraw_amount from_account of Inl e \<Rightarrow> Inl e
      | Inr to_withdraw \<Rightarrow>
      let routes = routes_from (acc_id from_account) db
      in case fold_result (vest_route to_withdraw) routes (0, db) of Inl e \<Rightarrow> Inl e
      | Inr (as_vests, db1) \<Rightarrow>
      case fold_result (token_route to_withdraw) routes (0, mk_asset 0 TOKEN_SYMBOL, db1) of Inl e \<Rightarrow> Inl e
      | Inr (as_tokens, _, db2) \<Rightarrow>
      let to_convert = max 0 (to_withdraw - as_tokens - as_vests)
      in case asset_times_price (mk_asset to_convert SHARES_SYMBOL) (get_vesting_share_price (db_dgp db2)) of Inl e \<Rightarrow> Inl e
      | Inr converted_tokens \<Rightarrow>
      case shares_sender_recalc_energy (acc_name from_account) (mk_asset (as_tokens + to_convert) SHARES_SYMBOL) db2 of
        Inl e \<Rightarrow> Inl e
      | Inr db3 \<Rightarrow>
      case modify_account (acc_name from_account) (finish_withdrawal to_withdraw converted_tokens) db3 of Inl e \<Rightarrow> Inl e
      | Inr db4 \<Rightarrow>
      case modify_dgp (\<lambda>p. case sub_field total_vesting_fund total_vesting_fund_update converted_tokens p of Inl e \<Rightarrow> Inl e
             | Inr p' \<Rightarrow> Inr (p'\<lparr>total_vesting_shares :=
                 (total_vesting_shares p')\<lparr>amount := amount (total_vesting_shares p') - to_convert\<rparr>\<rparr>)) db4 of
        Inl e \<Rightarrow> Inl e
      | Inr db5 \<Rightarrow>
      if to_withdraw > 0 then adjust_proxied_witness_votes (acc_name from_account) (- to_withdraw) 0 db5
      else Inr db5)"

text \<open>
  The loop walks the index by next withdrawal and id with an iterator that is advanced before the
  account is processed: an account whose next withdrawal is moved past the iterator is met again.
  \<open>next_in_index\<close> is the id the advanced iterator points at.
\<close>

definition withdrawal_key :: "account_object \<Rightarrow> int \<times> nat" where
  "withdrawal_key a = (acc_next_vesting_withdrawal a, acc_id a)"

definition key_less :: "int \<times> nat \<Rightarrow> int \<times> nat \<Rightarrow> bool" where
  "key_less x y = (fst x < fst y \<or> (fst x = fst y \<and> snd x < snd y))"

fun first_in_index :: "account_object list \<Rightarrow> account_object option" where
  "first_in_index [] = None"
| "first_in_index (a # as) =
     (case first_in_index as of None \<Rightarrow> Some a
      | Some b \<Rightarrow> if key_less (withdrawal_key b) (withdrawal_key a) then Some b else Some a)"

definition next_in_index :: "account_object \<Rightarrow> database \<Rightarrow> nat option" where
  "next_in_index a db = map_option acc_id
     (first_in_index (filter (\<lambda>b. key_less (withdrawal_key a) (withdrawal_key b)) (db_accounts db)))"

fun withdraw_loop :: "nat \<Rightarrow> nat option \<Rightarrow> database \<Rightarrow> database result option" where
  "withdraw_loop 0 current db = None"
| "withdraw_loop (Suc fuel) None db = Some (Inr db)"
| "withdraw_loop (Suc fuel) (Some i) db =
     (case get_account_by_id i db of Inl e \<Rightarrow> Some (Inl e)
      | Inr a \<Rightarrow>
        if acc_next_vesting_withdrawal a \<le> head_block_time db
        then case withdraw_account a db of Inl e \<Rightarrow> Some (Inl e)
             | Inr db' \<Rightarrow> withdraw_loop fuel (next_in_index a db) db'
        else Some (Inr db))"

text \<open>Every account is met at most once per interval that has passed since its withdrawal fell due.\<close>

definition due_intervals :: "int \<Rightarrow> account_object \<Rightarrow> nat" where
  "due_intervals now a =
     (if acc_next_vesting_withdrawal a \<le> now
      then Suc (nat ((now - acc_next_vesting_withdrawal a) div CHAIN_VESTING_WITHDRAW_INTERVAL_SECONDS)) else 0)"

definition process_vesting_withdrawals :: "database \<Rightarrow> database result" where
  "process_vesting_withdrawals db =
     (case withdraw_loop (Suc (sum_list (map (due_intervals (head_block_time db)) (db_accounts db))))
             (map_option acc_id (first_in_index (db_accounts db))) db of
        None \<Rightarrow> Inl Recursion_limit
      | Some r \<Rightarrow> r)"

section \<open>Reserved accounts\<close>

text \<open>Empties an account: its balance and its shares, converted at the current price, become \<open>total_tokens\<close>.\<close>

definition empty_account :: "account_name_type \<Rightarrow> database \<Rightarrow> (asset \<times> database) result" where
  "empty_account n db =
     (case get_account n db of Inl e \<Rightarrow> Inl e
      | Inr a \<Rightarrow>
      case (if amount (acc_balance a) > 0
            then case asset_add (mk_asset 0 TOKEN_SYMBOL) (acc_balance a) of Inl e \<Rightarrow> Inl e
                 | Inr t \<Rightarrow> (case adjust_balance n (asset_neg (acc_balance a)) db of Inl e \<Rightarrow> Inl e
                             | Inr db1 \<Rightarrow> Inr (t, db1))
            else Inr (mk_asset 0 TOKEN_SYMBOL, db)) of Inl e \<Rightarrow> Inl e
      | Inr (t, db1) \<Rightarrow>
      if amount (acc_vesting_shares a) > 0 then
        case asset_times_price (acc_vesting_shares a) (get_vesting_share_price (db_dgp db1)) of Inl e \<Rightarrow> Inl e
        | Inr converted \<Rightarrow>
        case modify_dgp (\<lambda>g. case sub_field total_vesting_shares total_vesting_shares_update (acc_vesting_shares a) g of
               Inl e \<Rightarrow> Inl e
             | Inr g' \<Rightarrow> sub_field total_vesting_fund total_vesting_fund_update converted g') db1 of Inl e \<Rightarrow> Inl e
        | Inr db2 \<Rightarrow>
        case modify_account n (\<lambda>a. Inr (a\<lparr>acc_vesting_shares := (acc_vesting_shares a)\<lparr>amount := 0\<rparr>\<rparr>)) db2 of Inl e \<Rightarrow> Inl e
        | Inr db3 \<Rightarrow>
        case asset_add t converted of Inl e \<Rightarrow> Inl e | Inr t' \<Rightarrow> Inr (t', db3)
      else Inr (t, db1))"

definition clear_null_account_balance :: "database \<Rightarrow> database result" where
  "clear_null_account_balance db =
     (case empty_account CHAIN_NULL_ACCOUNT db of Inl e \<Rightarrow> Inl e
      | Inr (t, db1) \<Rightarrow> if amount t > 0 then burn_asset (asset_neg t) db1 else Inr db1)"

definition clear_anonymous_account_balance :: "database \<Rightarrow> database result" where
  "clear_anonymous_account_balance db =
     (case empty_account CHAIN_ANONYMOUS_ACCOUNT db of Inl e \<Rightarrow> Inl e
      | Inr (t, db1) \<Rightarrow> if amount t > 0 then burn_asset (asset_neg t) db1 else Inr db1)"

definition claim_committee_account_balance :: "database \<Rightarrow> database result" where
  "claim_committee_account_balance db =
     (case empty_account CHAIN_COMMITTEE_ACCOUNT db of Inl e \<Rightarrow> Inl e
      | Inr (t, db1) \<Rightarrow>
        if amount t > 0 then modify_dgp (add_field committee_fund committee_fund_update t) db1 else Inr db1)"

section \<open>The evaluators keep the books\<close>

lemma get_balance_Inr [run_simps]: "get_balance a s = Inr b \<longleftrightarrow> s = TOKEN_SYMBOL \<and> b = acc_balance a"
  by (auto simp: get_balance_def)

lemma transfer_to_vesting_ledger [ledger]:
  assumes "transfer_to_vesting_apply o' db = Inr db'" and "keys_ok db"
  shows "keys_ok db' \<and> excess db' = excess db \<and> share_gap db' = share_gap db"
proof -
  from assms(1) obtain n db1 v where
    a: "adjust_balance (tv_from o') (asset_neg (tv_amount o')) db = Inr db1" and
    c: "create_vesting n (tv_amount o') db1 = Inr (v, db')"
    by (auto simp: transfer_to_vesting_apply_def case_sum_Inr if_Inl_Inr split: prod.splits)
  from adjust_balance_ledger [OF a assms(2)] create_vesting_ledger [OF c] show ?thesis by simp
qed

lemma withdraw_vesting_ledger [ledger]:
  assumes "withdraw_vesting_apply o' db = Inr db'" and "keys_ok db"
  shows "keys_ok db' \<and> excess db' = excess db \<and> share_gap db' = share_gap db"
proof -
  from assms(1) obtain f account where m: "modify_account (wv_account o') f db = Inr db'"
    and f: "f = stop_withdrawal \<or> f = start_withdrawal o' account db"
    unfolding withdraw_vesting_apply_def case_sum_Inr if_Inl_Inr by (auto simp: if_Inl_Inr split: if_splits)
  from f have "f a = Inr a' \<Longrightarrow> acc_name a' = acc_name a \<and> account_tokens a' = account_tokens a + 0 \<and>
      account_shares a' = account_shares a + 0" for a a'
    by (auto simp: stop_withdrawal_def start_withdrawal_def run_simps account_tokens_def account_shares_def Let_def)
  from modify_account_tokens [OF m assms(2) this] show ?thesis by simp
qed

lemma set_withdraw_vesting_route_ledger [ledger]:
  assumes "set_withdraw_vesting_route_apply o' db = Inr db'" and "keys_ok db"
  shows "keys_ok db' \<and> excess db' = excess db \<and> share_gap db' = share_gap db"
proof -
  from assms(1) consider
      (count) f rs where "modify_account (wr_from_account o') (\<lambda>a. Inr (a\<lparr>acc_withdraw_routes := f a\<rparr>))
         (db\<lparr>db_withdraw_routes := rs\<rparr>) = Inr db'"
    | (same) rs where "db' = db\<lparr>db_withdraw_routes := rs\<rparr>"
    unfolding set_withdraw_vesting_route_apply_def store_route_def case_sum_Inr Let_def
    by (auto simp: if_Inl_Inr split: option.splits if_splits)
  moreover have k: "same_ledger db (db\<lparr>db_withdraw_routes := rs\<rparr>)" for rs by (simp add: same_ledger_def)
  ultimately show ?thesis
  proof cases
    case count
    from modify_account_tokens [OF count, of 0 0] same_ledger_moves [OF k] assms(2)
    show ?thesis by (auto simp: account_tokens_def account_shares_def)
  next
    case same
    then show ?thesis using same_ledger_moves [OF k] assms(2) by simp
  qed
qed

section \<open>Shares that only grow\<close>

abbreviation shares :: "account_object \<Rightarrow> int" where
  "shares a \<equiv> amount (acc_vesting_shares a)"

definition grown :: "database \<Rightarrow> database \<Rightarrow> bool" where
  "grown db db' = list_all2 (\<lambda>a b. acc_name b = acc_name a \<and> shares a \<le> shares b) (db_accounts db) (db_accounts db')"

lemma grown_refl [simp]: "grown db db"
  by (simp add: grown_def list_all2_refl)

lemma grown_trans: "grown a b \<Longrightarrow> grown b c \<Longrightarrow> grown a c"
  unfolding grown_def by (rule list_all2_trans) auto

lemma grown_find:
  assumes "grown db db'" and "find_row acc_name n (db_accounts db) = Some a"
  obtains b where "find_row acc_name n (db_accounts db') = Some b" and "shares a \<le> shares b"
proof -
  have "list_all2 (\<lambda>a b. acc_name b = acc_name a \<and> shares a \<le> shares b) xs ys \<Longrightarrow> find_row acc_name n xs = Some a \<Longrightarrow>
      \<exists>b. find_row acc_name n ys = Some b \<and> shares a \<le> shares b" for xs ys
    by (induction xs ys rule: list_all2_induct) (auto split: if_splits)
  then show ?thesis using assms that unfolding grown_def by blast
qed

definition nonneg_shares :: "database \<Rightarrow> bool" where
  "nonneg_shares db = (\<forall>a \<in> set (db_accounts db). 0 \<le> shares a)"

lemma grown_nonneg: "grown db db' \<Longrightarrow> nonneg_shares db \<Longrightarrow> nonneg_shares db'"
proof -
  have "list_all2 (\<lambda>a b. acc_name b = acc_name a \<and> shares a \<le> shares b) xs ys \<Longrightarrow> \<forall>a \<in> set xs. 0 \<le> shares a \<Longrightarrow>
      \<forall>b \<in> set ys. 0 \<le> shares b" for xs ys
    by (induction xs ys rule: list_all2_induct) auto
  then show "grown db db' \<Longrightarrow> nonneg_shares db \<Longrightarrow> nonneg_shares db'"
    unfolding grown_def nonneg_shares_def by blast
qed

lemma grown_view:
  assumes "map (\<lambda>a. (acc_name a, shares a)) (db_accounts db') = map (\<lambda>a. (acc_name a, shares a)) (db_accounts db)"
  shows "grown db db'"
  using assms unfolding grown_def list_all2_conv_all_nth
  by (metis (no_types, lifting) Pair_inject eq_iff length_map nth_map)

lemma vote_free_shares [simp]: "vote_free (\<lambda>a. (acc_name a, shares a))"
  by (simp add: vote_free_def)

lemma modify_account_grown:
  assumes "modify_account n f db = Inr db'" and "\<And>a a'. f a = Inr a' \<Longrightarrow> acc_name a' = acc_name a \<and> shares a \<le> shares a'"
    and "keys_ok db"
  shows "grown db db'"
proof -
  from assms(1) obtain a a' where a: "find_row acc_name n (db_accounts db) = Some a" "f a = Inr a'"
    and db': "db_accounts db' = modify_row acc_name n (\<lambda>_. a') (db_accounts db)"
    by (auto simp: run_simps)
  have "list_all2 (\<lambda>a b. acc_name b = acc_name a \<and> shares a \<le> shares b) rows (modify_row acc_name n (\<lambda>_. a') rows)"
    if "unique_keys acc_name rows" "find_row acc_name n rows = Some a" for rows
    using that
  proof (induction rows)
    case (Cons r rows)
    then show ?case using assms(2) [OF a(2)]
      by (cases "acc_name r = n") (auto simp: modify_row_absent find_row_None list_all2_refl)
  qed simp
  with a assms(3) show ?thesis by (simp add: grown_def db' keys_ok_def)
qed

section \<open>Withdrawals keep the books\<close>

text \<open>The recorded total of shares is the sum over the accounts, no account is negative, and the total fits its type.\<close>

definition shares_ok :: "database \<Rightarrow> bool" where
  "shares_ok db = (share_gap db = 0 \<and> nonneg_shares db \<and> amount (total_vesting_shares (db_dgp db)) < 2 ^ 63)"

text \<open>The routes of every account distribute at most 100 percent.\<close>

definition routes_within :: "database \<Rightarrow> bool" where
  "routes_within db = ((\<forall>i. sum_list (map wro_percent (routes_from i db)) \<le> CHAIN_100_PERCENT) \<and>
     (\<forall>r \<in> set (db_withdraw_routes db). 0 \<le> wro_percent r))"

lemma shares_bound:
  assumes "shares_ok db" and "a \<in> set (db_accounts db)"
  shows "0 \<le> shares a" and "shares a < 2 ^ 63" and shares_le_total: "shares a \<le> amount (total_vesting_shares (db_dgp db))"
proof -
  have "\<forall>b \<in> set xs. 0 \<le> shares b \<Longrightarrow> a \<in> set xs \<Longrightarrow> shares a \<le> total account_shares xs" for xs
  proof (induction xs)
    case (Cons x xs)
    have "0 \<le> total account_shares xs"
      using Cons.prems(1) by (auto simp: total_def account_shares_def intro!: sum_list_nonneg)
    with Cons show ?case by (auto simp: account_shares_def [of x] simp del: account_shares_def)
  qed simp
  with assms show "0 \<le> shares a" "shares a < 2 ^ 63" "shares a \<le> amount (total_vesting_shares (db_dgp db))"
    by (force simp: shares_ok_def nonneg_shares_def share_gap_def)+
qed

lemma route_deposit_exact:
  assumes "0 \<le> w" "w < 2 ^ 63" "0 \<le> wro_percent r" "wro_percent r \<le> CHAIN_100_PERCENT"
  shows "route_deposit w r = w * wro_percent r div CHAIN_100_PERCENT" and "0 \<le> route_deposit w r"
proof -
  let ?p = "w * wro_percent r"
  have le: "?p \<le> w * CHAIN_100_PERCENT" using assms by (intro mult_left_mono) auto
  have nn: "0 \<le> ?p" using assms by simp
  have d: "?p div CHAIN_100_PERCENT \<le> w" "0 \<le> ?p div CHAIN_100_PERCENT"
    using le nn by (simp_all add: pos_imp_zdiv_nonneg_iff)
  have "u128 ?p = ?p" using le nn assms(2) by (intro u128_id) auto
  then show "route_deposit w r = ?p div CHAIN_100_PERCENT" "0 \<le> route_deposit w r"
    using d assms(1,2) by (simp_all add: route_deposit_def)
qed

lemma sum_floor:
  assumes "\<forall>p \<in> set ps. (0::int) \<le> p" and "0 \<le> w"
  shows "sum_list (map (\<lambda>p. w * p div 10000) ps) \<le> w * sum_list ps div 10000"
  using assms(1)
proof (induction ps)
  case (Cons p ps)
  have "w * p div 10000 + w * sum_list ps div 10000 \<le> (w * p + w * sum_list ps) div 10000" by linarith
  with Cons show ?case by (simp add: distrib_left)
qed simp

lemma percent_bound:
  "\<forall>p \<in> set ps. (0::int) \<le> p \<Longrightarrow> p \<in> set ps \<Longrightarrow> p \<le> sum_list ps"
  by (induction ps) (auto intro: add_increasing2 sum_list_nonneg add_increasing)

lemma routes_deposits:
  assumes "routes_within db" and "0 \<le> w" and "w < 2 ^ 63"
  shows "\<forall>r \<in> set (routes_from i db). 0 \<le> route_deposit w r"
    and "sum_list (map (route_deposit w) (routes_from i db)) \<le> w"
proof -
  let ?rs = "routes_from i db"
  have nn: "\<forall>p \<in> set (map wro_percent ?rs). 0 \<le> p" and s: "sum_list (map wro_percent ?rs) \<le> CHAIN_100_PERCENT"
    using assms(1) by (auto simp: routes_within_def routes_from_def)
  have ex: "\<forall>r \<in> set ?rs. route_deposit w r = w * wro_percent r div CHAIN_100_PERCENT \<and> 0 \<le> route_deposit w r"
  proof
    fix r assume r: "r \<in> set ?rs"
    with nn percent_bound [OF nn] s have "0 \<le> wro_percent r" "wro_percent r \<le> CHAIN_100_PERCENT" by force+
    with route_deposit_exact [OF assms(2,3) this]
    show "route_deposit w r = w * wro_percent r div CHAIN_100_PERCENT \<and> 0 \<le> route_deposit w r" by blast
  qed
  then show "\<forall>r \<in> set ?rs. 0 \<le> route_deposit w r" by blast
  have "sum_list (map (route_deposit w) ?rs) = sum_list (map (\<lambda>p. w * p div 10000) (map wro_percent ?rs))"
    unfolding map_map using ex by (intro arg_cong [where f = sum_list] map_cong) auto
  also have "\<dots> \<le> w * sum_list (map wro_percent ?rs) div 10000" by (rule sum_floor [OF nn assms(2)])
  also have "\<dots> \<le> w * 10000 div 10000" using s assms(2) by (intro zdiv_mono1 mult_left_mono) auto
  finally show "sum_list (map (route_deposit w) ?rs) \<le> w" by simp
qed

lemma get_account_by_id_mem: "get_account_by_id i db = Inr a \<Longrightarrow> a \<in> set (db_accounts db)"
  by (auto simp: get_account_by_id_def dest: find_row_set split: option.splits)

lemma vest_route_moves:
  assumes "vest_route w r (x, db) = Inr (y, db')" and "keys_ok db" and "0 \<le> route_deposit w r"
  shows "y = x + (if wro_auto_vest r then route_deposit w r else 0) \<and> keys_ok db' \<and> excess db' = excess db \<and>
    share_gap db' = share_gap db - (y - x) \<and> only_votes db db' \<and> grown db db'"
proof (cases "wro_auto_vest r \<and> route_deposit w r > 0")
  case False
  with assms show ?thesis by (auto simp: vest_route_def Let_def split: if_splits)
next
  case True
  let ?d = "route_deposit w r"
  let ?f = "\<lambda>a. Inr (a\<lparr>acc_vesting_shares := (acc_vesting_shares a)\<lparr>amount := amount (acc_vesting_shares a) + ?d\<rparr>\<rparr>)"
  from assms(1) True obtain n db1 where m: "modify_account n ?f db = Inr db1"
    and v: "adjust_proxied_witness_votes n ?d 0 db1 = Inr db'" and y: "y = x + ?d"
    by (auto simp: vest_route_def case_sum_Inr Let_def)
  from modify_account_tokens [OF m assms(2), of 0 ?d]
  have 1: "keys_ok db1 \<and> excess db1 = excess db \<and> share_gap db1 = share_gap db - ?d"
    by (auto simp: account_tokens_def account_shares_def)
  note 2 = adjust_proxied_witness_votes_ledger [OF v conjunct1 [OF 1]]
  note 3 = adjust_proxied_witness_votes_frame [OF v conjunct1 [OF 1] vote_free_shares]
  have "grown db db1" using modify_account_grown [OF m _ assms(2)] assms(3) by auto
  with 1 2 3 y True show ?thesis
    using only_votes_trans [OF modify_account_only [OF m]] grown_trans [OF _ grown_view] by auto
qed

definition deposits :: "int \<Rightarrow> bool \<Rightarrow> withdraw_vesting_route_object list \<Rightarrow> int" where
  "deposits w auto rs = sum_list (map (route_deposit w) (filter (\<lambda>r. wro_auto_vest r = auto) rs))"

lemma deposits_split: "deposits w True rs + deposits w False rs = sum_list (map (route_deposit w) rs)"
  by (induction rs) (auto simp: deposits_def)

lemma deposits_nonneg: "\<forall>r \<in> set rs. 0 \<le> route_deposit w r \<Longrightarrow> 0 \<le> deposits w b rs"
  unfolding deposits_def by (intro sum_list_nonneg) auto

lemma vest_routes_moves:
  assumes "fold_result (vest_route w) rs (x, db) = Inr (y, db')" and "keys_ok db"
    and "\<forall>r \<in> set rs. 0 \<le> route_deposit w r"
  shows "y = x + deposits w True rs \<and> keys_ok db' \<and> excess db' = excess db \<and>
    share_gap db' = share_gap db - (y - x) \<and> only_votes db db' \<and> grown db db'"
  using assms
proof (induction rs arbitrary: x db)
  case (Cons r rs)
  from Cons.prems(1) obtain z db1 where s: "vest_route w r (x, db) = Inr (z, db1)"
    "fold_result (vest_route w) rs (z, db1) = Inr (y, db')"
    by (auto simp: case_sum_Inr)
  note 1 = vest_route_moves [OF s(1) Cons.prems(2)]
  from Cons.IH [OF s(2)] 1 Cons.prems(3) show ?case
    by (auto simp: deposits_def intro: only_votes_trans grown_trans)
qed (auto simp: deposits_def)

lemma token_route_moves:
  assumes "token_route w r (x, c, db) = Inr (y, c', db')" and "keys_ok db" and "0 \<le> route_deposit w r"
  shows "y = x + (if wro_auto_vest r then 0 else route_deposit w r) \<and> keys_ok db' \<and> excess db' = excess db \<and>
    share_gap db' = share_gap db - (y - x) \<and> db_withdraw_routes db' = db_withdraw_routes db \<and> grown db db' \<and>
    amount (total_vesting_shares (db_dgp db')) = amount (total_vesting_shares (db_dgp db)) - (y - x)"
proof (cases "\<not> wro_auto_vest r \<and> route_deposit w r > 0")
  case False
  with assms show ?thesis by (auto simp: token_route_def case_sum_Inr Let_def split: if_splits)
next
  case True
  let ?d = "route_deposit w r"
  let ?g = "\<lambda>t p. case sub_field total_vesting_fund total_vesting_fund_update t p of Inl e \<Rightarrow> Inl e
     | Inr p' \<Rightarrow> Inr (p'\<lparr>total_vesting_shares :=
                        (total_vesting_shares p')\<lparr>amount := amount (total_vesting_shares p') - ?d\<rparr>\<rparr>)"
  from assms(1) True obtain n t db1 where m: "modify_account n (add_field acc_balance acc_balance_update t) db = Inr db1"
    and g: "modify_dgp (?g t) db1 = Inr db'" and y: "y = x + ?d"
    by (auto simp: token_route_def case_sum_Inr Let_def)
  from modify_account_tokens [OF m assms(2), of "amount t" 0]
  have 1: "keys_ok db1 \<and> excess db1 = excess db + amount t \<and> share_gap db1 = share_gap db"
    by (auto simp: run_simps account_tokens_def account_shares_def)
  from modify_dgp_ledger [OF g conjunct1 [OF 1], of "- amount t" "- ?d"]
  have 2: "keys_ok db' \<and> excess db' = excess db1 - amount t \<and> share_gap db' = share_gap db1 - ?d"
    by (auto simp: run_simps fund_tokens_def)
  have "grown db db1" using modify_account_grown [OF m _ assms(2)] by (auto simp: run_simps)
  moreover have "db_accounts db' = db_accounts db1" "db_withdraw_routes db' = db_withdraw_routes db1"
    "amount (total_vesting_shares (db_dgp db')) = amount (total_vesting_shares (db_dgp db1)) - ?d"
    using g by (auto simp: run_simps)
  ultimately show ?thesis using 1 2 y True only_votes_fields [OF modify_account_only [OF m]] by (auto simp: grown_def)
qed

lemma token_routes_moves:
  assumes "fold_result (token_route w) rs (x, c, db) = Inr (y, c', db')" and "keys_ok db"
    and "\<forall>r \<in> set rs. 0 \<le> route_deposit w r"
  shows "y = x + deposits w False rs \<and> keys_ok db' \<and> excess db' = excess db \<and>
    share_gap db' = share_gap db - (y - x) \<and> db_withdraw_routes db' = db_withdraw_routes db \<and> grown db db' \<and>
    amount (total_vesting_shares (db_dgp db')) = amount (total_vesting_shares (db_dgp db)) - (y - x)"
  using assms
proof (induction rs arbitrary: x c db)
  case (Cons r rs)
  from Cons.prems(1) obtain z c1 db1 where s: "token_route w r (x, c, db) = Inr (z, c1, db1)"
    "fold_result (token_route w) rs (z, c1, db1) = Inr (y, c', db')"
    by (auto simp: case_sum_Inr)
  note 1 = token_route_moves [OF s(1) Cons.prems(2)]
  from Cons.IH [OF s(2)] 1 Cons.prems(3) show ?case
    by (auto simp: deposits_def intro: grown_trans)
qed (auto simp: deposits_def)

lemma withdraw_amount_bounds: "withdraw_amount a = Inr w \<Longrightarrow> 0 \<le> w \<and> w \<le> max 0 (shares a)"
  by (auto simp: withdraw_amount_def Let_def split: if_splits)

lemma finish_withdrawal_Inr:
  "finish_withdrawal w t a = Inr a' \<Longrightarrow> acc_name a' = acc_name a \<and> account_tokens a' = account_tokens a + amount t \<and>
     account_shares a' = account_shares a - w"
  by (auto simp: finish_withdrawal_def run_simps Let_def account_tokens_def account_shares_def split: if_splits)

lemma routes_from_cong: "db_withdraw_routes db' = db_withdraw_routes db \<Longrightarrow> routes_from i db' = routes_from i db"
  by (simp add: routes_from_def)

lemma routes_within_cong: "db_withdraw_routes db' = db_withdraw_routes db \<Longrightarrow> routes_within db' = routes_within db"
  by (simp add: routes_within_def routes_from_def)

text \<open>The parts of one withdrawal.\<close>

lemma withdraw_account_parts:
  assumes "withdraw_account a db = Inr db'"
  obtains w vs ts c t db1 db2 db3 db4 db5 where "withdraw_amount a = Inr w"
    and "fold_result (vest_route w) (routes_from (acc_id a) db) (0, db) = Inr (vs, db1)"
    and "fold_result (token_route w) (routes_from (acc_id a) db) (0, mk_asset 0 TOKEN_SYMBOL, db1) = Inr (ts, c, db2)"
    and "shares_sender_recalc_energy (acc_name a) (mk_asset (ts + max 0 (w - ts - vs)) SHARES_SYMBOL) db2 = Inr db3"
    and "modify_account (acc_name a) (finish_withdrawal w t) db3 = Inr db4"
    and "modify_dgp (\<lambda>p. case sub_field total_vesting_fund total_vesting_fund_update t p of Inl e \<Rightarrow> Inl e
             | Inr p' \<Rightarrow> Inr (p'\<lparr>total_vesting_shares :=
                 (total_vesting_shares p')\<lparr>amount := amount (total_vesting_shares p') - max 0 (w - ts - vs)\<rparr>\<rparr>)) db4 = Inr db5"
    and "(if w > 0 then adjust_proxied_witness_votes (acc_name a) (- w) 0 db5 else Inr db5) = Inr db'"
  using assms unfolding withdraw_account_def Let_def
  by (auto simp: case_sum_Inr split: prod.splits)

lemma withdraw_account_moves:
  assumes "withdraw_account a db = Inr db'" and "a \<in> set (db_accounts db)"
    and k: "keys_ok db" and s: "shares_ok db" and r: "routes_within db"
  shows "keys_ok db' \<and> shares_ok db' \<and> excess db' = excess db \<and> db_withdraw_routes db' = db_withdraw_routes db"
  using assms(1)
proof (rule withdraw_account_parts)
  fix w vs ts c t db1 db2 db3 db4 db5
  assume w: "withdraw_amount a = Inr w"
    and v: "fold_result (vest_route w) (routes_from (acc_id a) db) (0, db) = Inr (vs, db1)"
    and tk: "fold_result (token_route w) (routes_from (acc_id a) db) (0, mk_asset 0 TOKEN_SYMBOL, db1) = Inr (ts, c, db2)"
    and en: "shares_sender_recalc_energy (acc_name a) (mk_asset (ts + max 0 (w - ts - vs)) SHARES_SYMBOL) db2 = Inr db3"
    and fin: "modify_account (acc_name a) (finish_withdrawal w t) db3 = Inr db4"
    and gp: "modify_dgp (\<lambda>p. case sub_field total_vesting_fund total_vesting_fund_update t p of Inl e \<Rightarrow> Inl e
             | Inr p' \<Rightarrow> Inr (p'\<lparr>total_vesting_shares :=
                 (total_vesting_shares p')\<lparr>amount := amount (total_vesting_shares p') - max 0 (w - ts - vs)\<rparr>\<rparr>)) db4 = Inr db5"
    and last: "(if w > 0 then adjust_proxied_witness_votes (acc_name a) (- w) 0 db5 else Inr db5) = Inr db'"
  let ?rs = "routes_from (acc_id a) db"
  have wb: "0 \<le> w" "w \<le> shares a" "w < 2 ^ 63"
    using withdraw_amount_bounds [OF w] shares_bound [OF s assms(2)] by auto
  note dep = routes_deposits [OF r wb(1,3), of "acc_id a"]
  note 1 = vest_routes_moves [OF v k dep(1)]
  note 2 = token_routes_moves [OF tk conjunct1 [OF conjunct2 [OF 1]] dep(1)]
  have split: "vs + ts \<le> w" "0 \<le> ts"
    using 1 2 dep(2) deposits_split [of w ?rs] deposits_nonneg [OF dep(1)] by auto
  note 3 = shares_sender_recalc_energy_ledger [OF en conjunct1 [OF conjunct2 [OF 2]]]
  have g3: "grown db2 db3" and d3: "db_dgp db3 = db_dgp db2" "db_withdraw_routes db3 = db_withdraw_routes db2"
    using en modify_account_grown [OF en [unfolded shares_sender_recalc_energy_def]] 2
      only_votes_fields [OF modify_account_only [OF en [unfolded shares_sender_recalc_energy_def]]]
    by (auto simp: recalc_energy_def Let_def)
  have 4: "keys_ok db4 \<and> excess db4 = excess db3 + amount t \<and> share_gap db4 = share_gap db3 - (- w)"
    using modify_account_tokens [OF fin conjunct1 [OF 3], of "amount t" "- w"] finish_withdrawal_Inr by auto
  have d4: "db_dgp db4 = db_dgp db3" "db_withdraw_routes db4 = db_withdraw_routes db3"
    using only_votes_fields [OF modify_account_only [OF fin]] by auto
  have 5: "keys_ok db5 \<and> excess db5 = excess db4 - amount t \<and> share_gap db5 = share_gap db4 - (w - ts - vs)"
    using modify_dgp_ledger [OF gp conjunct1 [OF 4], of "- amount t" "- (w - ts - vs)"] split(1)
    by (auto simp: run_simps fund_tokens_def)
  have d5: "db_accounts db5 = db_accounts db4" "db_withdraw_routes db5 = db_withdraw_routes db4"
    "amount (total_vesting_shares (db_dgp db5)) \<le> amount (total_vesting_shares (db_dgp db4))"
    using gp by (auto simp: run_simps)
  have 6: "keys_ok db' \<and> excess db' = excess db5 \<and> share_gap db' = share_gap db5 \<and> only_votes db5 db' \<and> grown db5 db'"
    using last 5 adjust_proxied_witness_votes_ledger [OF _ conjunct1 [OF 5]] grown_view
      adjust_proxied_witness_votes_frame [OF _ conjunct1 [OF 5] vote_free_shares]
    by (auto split: if_splits)
  have g: "grown db db3" using 1 2 g3 grown_trans by blast
  have nn4: "nonneg_shares db4"
  proof -
    have fa: "find_row acc_name (acc_name a) (db_accounts db) = Some a"
      using k assms(2) by (simp add: keys_ok_def find_row_unique)
    then obtain b where b: "find_row acc_name (acc_name a) (db_accounts db3) = Some b" "shares a \<le> shares b"
      by (rule grown_find [OF g])
    with fin obtain b' where "finish_withdrawal w t b = Inr b'"
      and db4: "db_accounts db4 = modify_row acc_name (acc_name a) (\<lambda>_. b') (db_accounts db3)"
      by (auto simp: run_simps)
    then have "0 \<le> shares b'" using finish_withdrawal_Inr b(2) wb by (fastforce simp: account_shares_def)
    then show ?thesis
      using grown_nonneg [OF g] s by (auto simp: shares_ok_def nonneg_shares_def db4 modify_row_def)
  qed
  have "nonneg_shares db'" using grown_nonneg 6 nn4 d5(1) by (auto simp: nonneg_shares_def)
  moreover have "share_gap db' = 0" using s 1 2 3 4 5 6 by (simp add: shares_ok_def)
  moreover have "amount (total_vesting_shares (db_dgp db')) < 2 ^ 63"
    using s 1 2 split(2) d3 d4 d5 6 only_votes_fields [of db db1] only_votes_fields [of db5 db'] by (auto simp: shares_ok_def)
  moreover have "db_withdraw_routes db' = db_withdraw_routes db"
    using 1 2 d3 d4 d5 6 only_votes_fields [of db db1] only_votes_fields [of db5 db'] by auto
  ultimately show ?thesis using 1 2 3 4 5 6 by (simp add: shares_ok_def)
qed

lemma withdraw_loop_moves:
  "withdraw_loop fuel current db = Some (Inr db') \<Longrightarrow> keys_ok db \<Longrightarrow> shares_ok db \<Longrightarrow> routes_within db \<Longrightarrow>
     keys_ok db' \<and> shares_ok db' \<and> excess db' = excess db \<and> routes_within db'"
proof (induction fuel current db rule: withdraw_loop.induct)
  case (3 fuel i db)
  from "3.prems"(1) obtain a where a: "get_account_by_id i db = Inr a" by (auto split: sum.splits)
  show ?case
  proof (cases "acc_next_vesting_withdrawal a \<le> head_block_time db")
    case True
    with "3.prems"(1) a obtain db1 where d: "withdraw_account a db = Inr db1"
      "withdraw_loop fuel (next_in_index a db) db1 = Some (Inr db')" by (auto split: sum.splits)
    note m = withdraw_account_moves [OF d(1) get_account_by_id_mem [OF a] "3.prems"(2-4)]
    have "routes_within db1" using m routes_within_cong "3.prems"(4) by blast
    with "3.IH" [OF a True d(1,2)] m show ?thesis by simp
  qed (use "3.prems" a in simp)
qed simp_all

section \<open>The loop ends\<close>

abbreviation due_view :: "account_object \<Rightarrow> account_name_type \<times> int" where
  "due_view a \<equiv> (acc_name a, acc_next_vesting_withdrawal a)"

lemma vote_free_due [simp]: "vote_free due_view"
  by (simp add: vote_free_def)

lemma vest_route_view:
  assumes "vest_route w r (x, db) = Inr (y, db')" and "keys_ok db" and "0 \<le> route_deposit w r"
  shows "map due_view (db_accounts db') = map due_view (db_accounts db)"
proof (cases "wro_auto_vest r \<and> route_deposit w r > 0")
  case False
  with assms show ?thesis by (auto simp: vest_route_def Let_def split: if_splits)
next
  case True
  let ?d = "route_deposit w r"
  let ?f = "\<lambda>a. Inr (a\<lparr>acc_vesting_shares := (acc_vesting_shares a)\<lparr>amount := amount (acc_vesting_shares a) + ?d\<rparr>\<rparr>)"
  from assms(1) True obtain n db1 where m: "modify_account n ?f db = Inr db1"
    and v: "adjust_proxied_witness_votes n ?d 0 db1 = Inr db'"
    by (auto simp: vest_route_def case_sum_Inr Let_def)
  have "keys_ok db1" using modify_account_tokens [OF m assms(2), of 0 ?d]
    by (auto simp: account_tokens_def account_shares_def)
  from adjust_proxied_witness_votes_frame [OF v this vote_free_due] modify_account_view [OF m assms(2), of due_view]
  show ?thesis by auto
qed

lemma token_route_view:
  assumes "token_route w r (x, c, db) = Inr (y, c', db')" and "keys_ok db"
  shows "map due_view (db_accounts db') = map due_view (db_accounts db) \<and> dgp_time (db_dgp db') = dgp_time (db_dgp db)"
proof (cases "\<not> wro_auto_vest r \<and> route_deposit w r > 0")
  case False
  with assms show ?thesis by (auto simp: token_route_def case_sum_Inr Let_def split: if_splits)
next
  case True
  let ?g = "\<lambda>t p. case sub_field total_vesting_fund total_vesting_fund_update t p of Inl e \<Rightarrow> Inl e
     | Inr p' \<Rightarrow> Inr (p'\<lparr>total_vesting_shares :=
           (total_vesting_shares p')\<lparr>amount := amount (total_vesting_shares p') - route_deposit w r\<rparr>\<rparr>)"
  from assms(1) True obtain n t db1 where m: "modify_account n (add_field acc_balance acc_balance_update t) db = Inr db1"
    and g: "modify_dgp (?g t) db1 = Inr db'"
    by (auto simp: token_route_def case_sum_Inr Let_def)
  have "db_accounts db' = db_accounts db1" "dgp_time (db_dgp db') = dgp_time (db_dgp db1)"
    using g by (auto simp: run_simps)
  with modify_account_view [OF m assms(2), of due_view] only_votes_fields [OF modify_account_only [OF m]]
  show ?thesis by (auto simp: run_simps)
qed

lemma vest_routes_view:
  assumes "fold_result (vest_route w) rs (x, db) = Inr (y, db')" and "keys_ok db" and "\<forall>r \<in> set rs. 0 \<le> route_deposit w r"
  shows "map due_view (db_accounts db') = map due_view (db_accounts db)"
  using assms
proof (induction rs arbitrary: x db)
  case (Cons r rs)
  from Cons.prems(1) obtain z db1 where s: "vest_route w r (x, db) = Inr (z, db1)"
    "fold_result (vest_route w) rs (z, db1) = Inr (y, db')" by (auto simp: case_sum_Inr)
  with Cons.IH [OF s(2)] vest_route_view [OF s(1)] vest_route_moves [OF s(1)] Cons.prems(2,3) show ?case by simp
qed simp

lemma token_routes_view:
  assumes "fold_result (token_route w) rs (x, c, db) = Inr (y, c', db')" and "keys_ok db" and "\<forall>r \<in> set rs. 0 \<le> route_deposit w r"
  shows "map due_view (db_accounts db') = map due_view (db_accounts db) \<and> dgp_time (db_dgp db') = dgp_time (db_dgp db)"
  using assms
proof (induction rs arbitrary: x c db)
  case (Cons r rs)
  from Cons.prems(1) obtain z c1 db1 where s: "token_route w r (x, c, db) = Inr (z, c1, db1)"
    "fold_result (token_route w) rs (z, c1, db1) = Inr (y, c', db')" by (auto simp: case_sum_Inr)
  with Cons.IH [OF s(2)] token_route_view [OF s(1)] token_route_moves [OF s(1)] Cons.prems(2,3) show ?case by simp
qed simp

definition due_total :: "database \<Rightarrow> nat" where
  "due_total db = sum_list (map (due_intervals (head_block_time db)) (db_accounts db))"

lemma due_total_view:
  assumes "map due_view (db_accounts db') = map due_view (db_accounts db)" and "dgp_time (db_dgp db') = dgp_time (db_dgp db)"
  shows "due_total db' = due_total db"
proof -
  let ?h = "\<lambda>(n, t). if t \<le> dgp_time (db_dgp db)
      then Suc (nat ((dgp_time (db_dgp db) - t) div CHAIN_VESTING_WITHDRAW_INTERVAL_SECONDS)) else 0"
  have "map (due_intervals (dgp_time (db_dgp db))) as = map ?h (map due_view as)" for as
    by (simp add: due_intervals_def)
  then show ?thesis using assms by (simp only: due_total_def)
qed

lemma finish_withdrawal_due:
  assumes "finish_withdrawal w t b = Inr b'" and "acc_next_vesting_withdrawal b \<le> now" and "now < time_point_sec_maximum"
  shows "due_intervals now b' < due_intervals now b"
proof -
  let ?D = "CHAIN_VESTING_WITHDRAW_INTERVAL_SECONDS"
  from assms(1) consider "acc_next_vesting_withdrawal b' = time_point_sec_maximum"
    | "acc_next_vesting_withdrawal b' = acc_next_vesting_withdrawal b + ?D"
    by (auto simp: finish_withdrawal_def run_simps Let_def split: if_splits)
  then show ?thesis
  proof cases
    case 1
    then show ?thesis using assms(2,3) by (simp add: due_intervals_def)
  next
    case 2
    let ?x = "now - acc_next_vesting_withdrawal b"
    have "nat ((?x - 86400) div 86400) < nat (?x div 86400)" if "86400 \<le> ?x"
      using that by linarith
    then show ?thesis using 2 assms(2) by (auto simp: due_intervals_def algebra_simps)
  qed
qed

lemma sum_list_modify_less:
  assumes "unique_keys key rows" and "find_row key k rows = Some r" and "(f r'::nat) < f r" and "key r' = k"
  shows "sum_list (map f (modify_row key k (\<lambda>_. r') rows)) < sum_list (map f rows)"
  using assms
proof (induction rows)
  case (Cons a rows)
  then show ?case by (cases "key a = k") (auto simp: modify_row_absent find_row_None)
qed simp

lemma withdraw_account_due:
  assumes "withdraw_account a db = Inr db'" and "a \<in> set (db_accounts db)"
    and k: "keys_ok db" and s: "shares_ok db" and r: "routes_within db"
    and due: "acc_next_vesting_withdrawal a \<le> head_block_time db" and now: "head_block_time db < time_point_sec_maximum"
  shows "due_total db' < due_total db \<and> head_block_time db' = head_block_time db"
  using assms(1)
proof (rule withdraw_account_parts)
  fix w vs ts c t db1 db2 db3 db4 db5
  assume w: "withdraw_amount a = Inr w"
    and v: "fold_result (vest_route w) (routes_from (acc_id a) db) (0, db) = Inr (vs, db1)"
    and tk: "fold_result (token_route w) (routes_from (acc_id a) db) (0, mk_asset 0 TOKEN_SYMBOL, db1) = Inr (ts, c, db2)"
    and en: "shares_sender_recalc_energy (acc_name a) (mk_asset (ts + max 0 (w - ts - vs)) SHARES_SYMBOL) db2 = Inr db3"
    and fin: "modify_account (acc_name a) (finish_withdrawal w t) db3 = Inr db4"
    and gp: "modify_dgp (\<lambda>p. case sub_field total_vesting_fund total_vesting_fund_update t p of Inl e \<Rightarrow> Inl e
             | Inr p' \<Rightarrow> Inr (p'\<lparr>total_vesting_shares :=
                 (total_vesting_shares p')\<lparr>amount := amount (total_vesting_shares p') - max 0 (w - ts - vs)\<rparr>\<rparr>)) db4 = Inr db5"
    and last: "(if w > 0 then adjust_proxied_witness_votes (acc_name a) (- w) 0 db5 else Inr db5) = Inr db'"
  have wb: "0 \<le> w" "w < 2 ^ 63"
    using withdraw_amount_bounds [OF w] shares_bound [OF s assms(2)] by auto
  note dep = routes_deposits(1) [OF r wb, of "acc_id a"]
  note 1 = vest_routes_moves [OF v k dep]
  note 2 = token_routes_moves [OF tk conjunct1 [OF conjunct2 [OF 1]] dep]
  note 3 = shares_sender_recalc_energy_ledger [OF en conjunct1 [OF conjunct2 [OF 2]]]
  have k4: "keys_ok db4"
    using modify_account_tokens [OF fin conjunct1 [OF 3], of "amount t" "- w"] finish_withdrawal_Inr by auto
  note en' = en [unfolded shares_sender_recalc_energy_def]
  have v3: "map due_view (db_accounts db3) = map due_view (db_accounts db2)"
    using modify_account_view [OF en', of due_view] 2 by (auto simp: recalc_energy_def Let_def)
  have view: "map due_view (db_accounts db3) = map due_view (db_accounts db)"
    using vest_routes_view [OF v k dep] token_routes_view [OF tk conjunct1 [OF conjunct2 [OF 1]] dep] v3 by simp
  have time: "head_block_time db3 = head_block_time db"
    using 1 only_votes_fields [of db db1] token_routes_view [OF tk conjunct1 [OF conjunct2 [OF 1]] dep]
      only_votes_fields [OF modify_account_only [OF en']] by simp
  have fa: "find_row acc_name (acc_name a) (db_accounts db) = Some a"
    using k assms(2) by (simp add: keys_ok_def find_row_unique)
  from fin obtain b b' where b: "find_row acc_name (acc_name a) (db_accounts db3) = Some b"
    and fb: "finish_withdrawal w t b = Inr b'"
    and db4: "db4 = db3\<lparr>db_accounts := modify_row acc_name (acc_name a) (\<lambda>_. b') (db_accounts db3)\<rparr>"
    by (auto simp: run_simps)
  have "due_view b = due_view a"
    using find_row_view [OF view, of "acc_name a"] fa b by auto
  then have "due_intervals (head_block_time db3) b' < due_intervals (head_block_time db3) b"
    using finish_withdrawal_due [OF fb, of "head_block_time db3"] due now time by simp
  moreover have "acc_name b' = acc_name a" using finish_withdrawal_Inr [OF fb] find_row_key [OF b] by simp
  moreover have "unique_keys acc_name (db_accounts db3)" using 3 by (simp add: keys_ok_def)
  ultimately have 4: "due_total db4 < due_total db3"
    unfolding due_total_def db4 using sum_list_modify_less [OF _ b] by simp
  have 5: "db_accounts db5 = db_accounts db4" "head_block_time db5 = head_block_time db4" and k5: "keys_ok db5"
    using gp k4 by (auto simp: run_simps ledger_dgp)
  have 6: "map due_view (db_accounts db') = map due_view (db_accounts db5)" "head_block_time db' = head_block_time db5"
    using last adjust_proxied_witness_votes_frame [OF _ k5 vote_free_due] only_votes_fields [of db5 db']
    by (auto split: if_splits)
  have "due_total db' = due_total db4" using due_total_view [OF 6] 5 by (simp add: due_total_def)
  moreover have "due_total db3 = due_total db" using due_total_view [OF view time] .
  ultimately show ?thesis using 4 5 6 time db4 by simp
qed

lemma withdraw_loop_ends:
  "due_total db < fuel \<Longrightarrow> keys_ok db \<Longrightarrow> shares_ok db \<Longrightarrow> routes_within db \<Longrightarrow>
     head_block_time db < time_point_sec_maximum \<Longrightarrow> withdraw_loop fuel current db \<noteq> None"
proof (induction fuel current db rule: withdraw_loop.induct)
  case (3 fuel i db)
  show ?case
  proof (cases "\<exists>a db1. get_account_by_id i db = Inr a \<and> acc_next_vesting_withdrawal a \<le> head_block_time db \<and>
      withdraw_account a db = Inr db1")
    case True
    then obtain a db1 where a: "get_account_by_id i db = Inr a" "acc_next_vesting_withdrawal a \<le> head_block_time db"
      and d: "withdraw_account a db = Inr db1" by blast
    note m = withdraw_account_moves [OF d get_account_by_id_mem [OF a(1)] "3.prems"(2-4)]
    note t = withdraw_account_due [OF d get_account_by_id_mem [OF a(1)] "3.prems"(2-4) a(2) "3.prems"(5)]
    have "routes_within db1" using m routes_within_cong "3.prems"(4) by blast
    then have "withdraw_loop fuel (next_in_index a db) db1 \<noteq> None"
      using "3.IH" [OF a d] m t "3.prems"(1,5) by simp
    then show ?thesis using a d by simp
  next
    case False
    then show ?thesis by (auto split: sum.splits)
  qed
qed simp_all

section \<open>Reserved accounts\<close>

lemma empty_account_ledger [ledger]:
  assumes "empty_account n db = Inr (t, db')" and "keys_ok db"
  shows "keys_ok db' \<and> excess db' = excess db - amount t \<and> share_gap db' = share_gap db"
proof -
  let ?zero = "mk_asset 0 TOKEN_SYMBOL"
  from assms(1) obtain a t1 db1 where a: "find_row acc_name n (db_accounts db) = Some a"
    and bal: "(if amount (acc_balance a) > 0
            then case asset_add ?zero (acc_balance a) of Inl e \<Rightarrow> Inl e
                 | Inr t \<Rightarrow> (case adjust_balance n (asset_neg (acc_balance a)) db of Inl e \<Rightarrow> Inl e
                             | Inr db1 \<Rightarrow> Inr (t, db1))
            else Inr (?zero, db)) = Inr (t1, db1)"
    and rest: "(if amount (acc_vesting_shares a) > 0 then
        case asset_times_price (acc_vesting_shares a) (get_vesting_share_price (db_dgp db1)) of Inl e \<Rightarrow> Inl e
        | Inr converted \<Rightarrow>
        case modify_dgp (\<lambda>g. case sub_field total_vesting_shares total_vesting_shares_update (acc_vesting_shares a) g of
               Inl e \<Rightarrow> Inl e
             | Inr g' \<Rightarrow> sub_field total_vesting_fund total_vesting_fund_update converted g') db1 of Inl e \<Rightarrow> Inl e
        | Inr db2 \<Rightarrow>
        case modify_account n (\<lambda>a. Inr (a\<lparr>acc_vesting_shares := (acc_vesting_shares a)\<lparr>amount := 0\<rparr>\<rparr>)) db2 of Inl e \<Rightarrow> Inl e
        | Inr db3 \<Rightarrow>
        case asset_add t1 converted of Inl e \<Rightarrow> Inl e | Inr t' \<Rightarrow> Inr (t', db3)
      else Inr (t1, db1)) = Inr (t, db')"
    unfolding empty_account_def case_sum_Inr get_account_Inr by (auto split: prod.splits)
  have 1: "keys_ok db1 \<and> excess db1 = excess db - amount t1 \<and> share_gap db1 = share_gap db"
    using bal assms(2) adjust_balance_ledger [OF _ assms(2)]
    by (auto simp: case_sum_Inr asset_add_Inr split: if_splits)
  have a1: "\<exists>b. find_row acc_name n (db_accounts db1) = Some b \<and> shares b = shares a"
    using bal a adjust_balance_find by (fastforce simp: case_sum_Inr split: if_splits)
  show ?thesis
  proof (cases "amount (acc_vesting_shares a) > 0")
    case False
    with rest 1 show ?thesis by simp
  next
    case True
    with rest obtain converted db2 where
      g: "modify_dgp (\<lambda>g. case sub_field total_vesting_shares total_vesting_shares_update (acc_vesting_shares a) g of
               Inl e \<Rightarrow> Inl e
             | Inr g' \<Rightarrow> sub_field total_vesting_fund total_vesting_fund_update converted g') db1 = Inr db2" and
      m: "modify_account n (\<lambda>a. Inr (a\<lparr>acc_vesting_shares := (acc_vesting_shares a)\<lparr>amount := 0\<rparr>\<rparr>)) db2 = Inr db'" and
      t: "amount t = amount t1 + amount converted"
      by (auto simp: case_sum_Inr asset_add_Inr)
    have 2: "keys_ok db2 \<and> excess db2 = excess db1 - amount converted \<and> share_gap db2 = share_gap db1 - shares a"
      using modify_dgp_ledger [OF g conjunct1 [OF 1], of "- amount converted" "- shares a"]
      by (auto simp: run_simps fund_tokens_def)
    have "db_accounts db2 = db_accounts db1" using g by (auto simp: run_simps)
    with a1 obtain b where b: "find_row acc_name n (db_accounts db2) = Some b" "shares b = shares a" by auto
    from m conjunct1 [OF 2] show ?thesis
      by (rule modify_account_ledger) (use b 1 2 t in \<open>auto simp: account_tokens_def account_shares_def\<close>)
  qed
qed

text \<open>The vesting funds carry their symbols and fit their type.\<close>

definition funds_ok :: "dynamic_global_property_object \<Rightarrow> bool" where
  "funds_ok p = (symbol (total_vesting_fund p) = TOKEN_SYMBOL \<and> symbol (total_vesting_shares p) = SHARES_SYMBOL \<and>
     0 \<le> amount (total_vesting_fund p) \<and> amount (total_vesting_fund p) < 2 ^ 63 \<and>
     0 \<le> amount (total_vesting_shares p) \<and> amount (total_vesting_shares p) < 2 ^ 63)"

lemma div_le_of_le: "0 \<le> (a::int) \<Longrightarrow> a \<le> b \<Longrightarrow> 0 < b \<Longrightarrow> 0 \<le> c \<Longrightarrow> a * c div b \<le> c"
  by (metis mult_right_mono nonzero_mult_div_cancel_left less_irrefl zdiv_mono1)

lemma shares_value_nonneg:
  assumes "asset_times_price a (get_vesting_share_price p) = Inr t" and "funds_ok p" and "symbol a = SHARES_SYMBOL"
    and "0 \<le> amount a" and "amount a \<le> amount (total_vesting_shares p)"
  shows "0 \<le> amount t"
proof (cases "amount (total_vesting_fund p) = 0 \<or> amount (total_vesting_shares p) = 0")
  case True
  have "u128 (amount a * 1000) = amount a * 1000" using assms(2,4,5) by (intro u128_id) (auto simp: funds_ok_def)
  then have "t = mk_asset (i64 (amount a * 1000 div 1000000)) TOKEN_SYMBOL"
    using assms True by (auto simp: asset_times_price_def get_vesting_share_price_def funds_ok_def Let_def split: if_splits)
  moreover have "0 \<le> amount a * 1000 div 1000000" "amount a * 1000 div 1000000 < 2 ^ 63"
    using assms(2,4,5) by (auto simp: funds_ok_def)
  ultimately show ?thesis by simp
next
  case False
  let ?q = "amount a * amount (total_vesting_fund p) div amount (total_vesting_shares p)"
  have "asset_times_price a (get_vesting_share_price p)
      = convert (amount a) (amount (total_vesting_fund p)) (amount (total_vesting_shares p)) TOKEN_SYMBOL"
    using False assms(2-5) by (simp add: get_vesting_share_price_def funds_ok_def times_price_shares)
  moreover have "0 \<le> ?q" "?q \<le> amount (total_vesting_fund p)"
    using False assms(2,4,5) div_le_of_le by (auto simp: funds_ok_def pos_imp_zdiv_nonneg_iff)
  ultimately show ?thesis using assms(1,2) by (auto simp: convert_def funds_ok_def split: if_splits)
qed

lemma empty_account_nonneg:
  assumes "empty_account n db = Inr (t, db')" and "funds_ok (db_dgp db)" and "shares_ok db"
    and "\<forall>a \<in> set (db_accounts db). symbol (acc_vesting_shares a) = SHARES_SYMBOL"
  shows "0 \<le> amount t"
proof -
  from assms(1) obtain a where a: "find_row acc_name n (db_accounts db) = Some a"
    by (auto simp: empty_account_def case_sum_Inr get_account_Inr)
  have v: "symbol (acc_vesting_shares a) = SHARES_SYMBOL" "0 \<le> shares a" "shares a \<le> amount (total_vesting_shares (db_dgp db))"
    using assms(3,4) find_row_set [OF a] shares_bound [OF assms(3)] shares_le_total by auto
  have "0 \<le> amount c" if "asset_times_price (acc_vesting_shares a) (get_vesting_share_price (db_dgp db)) = Inr c" for c
    using shares_value_nonneg [OF that assms(2) v] .
  then show ?thesis
    using assms(1) a unfolding empty_account_def case_sum_Inr get_account_Inr
    by (auto simp: case_sum_Inr asset_add_Inr dest!: adjust_balance_frame split: if_splits prod.splits)
qed

lemma burn_rest:
  assumes "(if amount t > 0 then burn_asset (asset_neg t) db1 else Inr db1) = Inr db'" and "keys_ok db1" and "0 \<le> amount t"
  shows "excess db' = excess db1 + amount t \<and> share_gap db' = share_gap db1"
  using assms burn_asset_ledger [OF _ assms(2), of "asset_neg t" db'] by (cases "amount t > 0") auto

lemma fund_rest:
  assumes "(if amount t > 0 then modify_dgp (add_field committee_fund committee_fund_update t) db1 else Inr db1) = Inr db'"
    and "keys_ok db1" and "0 \<le> amount t"
  shows "excess db' = excess db1 + amount t \<and> share_gap db' = share_gap db1"
  using assms modify_dgp_ledger [OF _ assms(2), of "add_field committee_fund committee_fund_update t" db' "amount t" 0]
  by (cases "amount t > 0") (auto simp: add_field_Inr fund_tokens_def)

lemma clear_reserved_ledger:
  assumes "keys_ok db" and "funds_ok (db_dgp db)" and "shares_ok db"
    and "\<forall>a \<in> set (db_accounts db). symbol (acc_vesting_shares a) = SHARES_SYMBOL"
  shows "clear_null_account_balance db = Inr db' \<Longrightarrow> excess db' = excess db \<and> share_gap db' = share_gap db"
    and "clear_anonymous_account_balance db = Inr db' \<Longrightarrow> excess db' = excess db \<and> share_gap db' = share_gap db"
    and "claim_committee_account_balance db = Inr db' \<Longrightarrow> excess db' = excess db \<and> share_gap db' = share_gap db"
proof -
  have e: "keys_ok db1 \<and> excess db1 = excess db - amount t \<and> share_gap db1 = share_gap db \<and> 0 \<le> amount t"
    if "empty_account n db = Inr (t, db1)" for n t db1
    using empty_account_ledger [OF that assms(1)] empty_account_nonneg [OF that assms(2-4)] by simp
  show "excess db' = excess db \<and> share_gap db' = share_gap db" if "clear_null_account_balance db = Inr db'"
  proof -
    from that obtain t db1 where t: "empty_account CHAIN_NULL_ACCOUNT db = Inr (t, db1)"
      "(if amount t > 0 then burn_asset (asset_neg t) db1 else Inr db1) = Inr db'"
      unfolding clear_null_account_balance_def case_sum_Inr by (auto split: prod.splits)
    with burn_rest [OF t(2)] e [OF t(1)] show ?thesis by simp
  qed
  show "excess db' = excess db \<and> share_gap db' = share_gap db" if "clear_anonymous_account_balance db = Inr db'"
  proof -
    from that obtain t db1 where t: "empty_account CHAIN_ANONYMOUS_ACCOUNT db = Inr (t, db1)"
      "(if amount t > 0 then burn_asset (asset_neg t) db1 else Inr db1) = Inr db'"
      unfolding clear_anonymous_account_balance_def case_sum_Inr by (auto split: prod.splits)
    with burn_rest [OF t(2)] e [OF t(1)] show ?thesis by simp
  qed
  show "excess db' = excess db \<and> share_gap db' = share_gap db" if "claim_committee_account_balance db = Inr db'"
  proof -
    from that obtain t db1 where t: "empty_account CHAIN_COMMITTEE_ACCOUNT db = Inr (t, db1)"
      "(if amount t > 0 then modify_dgp (add_field committee_fund committee_fund_update t) db1 else Inr db1) = Inr db'"
      unfolding claim_committee_account_balance_def case_sum_Inr by (auto split: prod.splits)
    with fund_rest [OF t(2)] e [OF t(1)] show ?thesis by simp
  qed
qed

section \<open>Properties\<close>

lemma sample_shares_ok: "shares_ok sample_db" "funds_ok (db_dgp sample_db)" "routes_within sample_db"
  using sample_db_ok by (simp_all add: shares_ok_def nonneg_shares_def sample_defs funds_ok_def routes_within_def
      routes_from_def share_gap_def)


text \<open>C21: the loop over the index of due withdrawals ends, although every processed account may be put back
  into the index: as many rounds as accounts have intervals due are enough.\<close>

theorem vesting_withdrawals_end:
  assumes "keys_ok db" and "shares_ok db" and "routes_within db" and "head_block_time db < time_point_sec_maximum"
  shows "\<exists>r. withdraw_loop (Suc (sum_list (map (due_intervals (head_block_time db)) (db_accounts db))))
           (map_option acc_id (first_in_index (db_accounts db))) db = Some r \<and> process_vesting_withdrawals db = r"
proof -
  obtain r where "withdraw_loop (Suc (sum_list (map (due_intervals (head_block_time db)) (db_accounts db))))
           (map_option acc_id (first_in_index (db_accounts db))) db = Some r"
    using withdraw_loop_ends [of db "Suc (due_total db)"] assms by (auto simp: due_total_def)
  then show ?thesis by (simp add: process_vesting_withdrawals_def)
qed

definition sample_withdrawing :: database where
  "sample_withdrawing = sample_db\<lparr>db_accounts := map (\<lambda>a. if acc_name a = ''bob''
       then a\<lparr>acc_vesting_withdraw_rate := mk_asset 1000 SHARES_SYMBOL, acc_to_withdraw := 28000,
               acc_next_vesting_withdrawal := 999999\<rparr> else a) (db_accounts sample_db)\<rparr>"

lemma sample_withdrawing_ok: "keys_ok sample_withdrawing" "shares_ok sample_withdrawing" "routes_within sample_withdrawing"
  by (simp_all add: sample_withdrawing_def sample_defs keys_ok_def shares_ok_def nonneg_shares_def routes_within_def
      routes_from_def share_gap_def account_shares_def)

lemma sample_withdrawing_runs: "is_ok (process_vesting_withdrawals sample_withdrawing)"
  by (simp add: process_vesting_withdrawals_def sample_withdrawing_def sample_defs due_intervals_def
      key_less_def withdrawal_key_def next_in_index_def get_account_by_id_def withdraw_account_def withdraw_amount_def
      routes_from_def get_vesting_share_price_def asset_times_price_def Let_def shares_sender_recalc_energy_def
      modify_account_def update_row_def recalc_energy_def effective_vesting_shares_def finish_withdrawal_def
      add_field_def sub_field_def asset_add_def asset_sub_def modify_dgp_def adjust_proxied_witness_votes.simps
      get_account_def adjust_witness_votes_def has_hardfork_def)


theorem vesting_withdrawals_end_witness:
  "\<exists>r. withdraw_loop (Suc (sum_list (map (due_intervals (head_block_time sample_withdrawing)) (db_accounts sample_withdrawing))))
      (map_option acc_id (first_in_index (db_accounts sample_withdrawing))) sample_withdrawing = Some r"
proof -
  have "head_block_time sample_withdrawing < time_point_sec_maximum"
    by (simp add: sample_withdrawing_def sample_defs)
  from vesting_withdrawals_end [OF sample_withdrawing_ok this] show ?thesis by blast
qed

section \<open>Routes and prices\<close>

definition route_share :: "nat \<Rightarrow> withdraw_vesting_route_object \<Rightarrow> int" where
  "route_share i r = (if wro_from_account r = i \<and> wro_to_account r > 0 then wro_percent r else 0)"

lemma sum_routes_from: "sum_list (map wro_percent (routes_from i db)) = total (route_share i) (db_withdraw_routes db)"
proof -
  have "sum_list (map wro_percent (filter (\<lambda>r. wro_from_account r = i \<and> wro_to_account r > 0) xs))
      = total (route_share i) xs" for xs :: "withdraw_vesting_route_object list"
    by (induction xs) (auto simp: route_share_def)
  then show ?thesis unfolding routes_from_def sum_sort_key by simp
qed

lemma fold_u16_sum:
  "\<forall>r \<in> set rs. 0 \<le> wro_percent r \<Longrightarrow> 0 \<le> t \<Longrightarrow> t + sum_list (map wro_percent rs) < 2 ^ 16 \<Longrightarrow>
     fold (\<lambda>r t. u16 (t + wro_percent r)) rs t = t + sum_list (map wro_percent rs)"
proof (induction rs arbitrary: t)
  case (Cons r rs)
  have "0 \<le> sum_list (map wro_percent rs)" using Cons.prems(1) by (intro sum_list_nonneg) auto
  then have "u16 (t + wro_percent r) = t + wro_percent r" using Cons.prems by (simp add: u16_def)
  with Cons show ?case by simp
qed simp

lemma modify_account_routes: "modify_account n f db = Inr db' \<Longrightarrow> db_withdraw_routes db' = db_withdraw_routes db"
  using only_votes_fields [OF modify_account_only] by blast

lemma store_route_cases:
  assumes "store_route o' a b db = Inr db'"
  defines "k \<equiv> (acc_id a, acc_id b)"
    and "route \<equiv> \<lparr>wro_from_account = acc_id a, wro_to_account = acc_id b,
      wro_percent = wr_percent o', wro_auto_vest = wr_auto_vest o'\<rparr>"
  shows "find_row route_key k (db_withdraw_routes db) = None \<and> db_withdraw_routes db' = db_withdraw_routes db @ [route] \<or>
    (\<exists>r. find_row route_key k (db_withdraw_routes db) = Some r) \<and>
      (db_withdraw_routes db' = remove_row route_key k (db_withdraw_routes db) \<or>
       db_withdraw_routes db' = modify_row route_key k (\<lambda>_. route) (db_withdraw_routes db))"
  using assms(1) unfolding store_route_def k_def route_def Let_def
  by (auto split: option.splits if_splits dest: modify_account_routes)

lemma set_route_cases:
  assumes "set_withdraw_vesting_route_apply o' db = Inr db'"
  obtains a b where "store_route o' a b db = Inr db'"
    and "fold (\<lambda>r t. u16 (t + wro_percent r)) (routes_from (acc_id a) db') 0 \<le> CHAIN_100_PERCENT"
  using assms unfolding set_withdraw_vesting_route_apply_def case_sum_Inr Let_def if_Inl_Inr
  by auto

text \<open>An account can never route away more than 100 percent of its withdrawals: the sixteen-bit sum the
  check computes cannot wrap around, since every change adds at most 100 percent to a total that was within
  the limit.  (Routes to the account with id 0 are outside this sum.)\<close>

theorem withdraw_routes_within_limit:
  assumes "set_withdraw_vesting_route_apply o' db = Inr db'" and "validate_set_withdraw_vesting_route o' = Inr ()"
    and "routes_within db" and "unique_keys route_key (db_withdraw_routes db)"
  shows "routes_within db'"
proof -
  obtain a b where st: "store_route o' a b db = Inr db'"
    and le: "fold (\<lambda>r t. u16 (t + wro_percent r)) (routes_from (acc_id a) db') 0 \<le> CHAIN_100_PERCENT"
    using assms(1) by (rule set_route_cases)
  let ?old = "db_withdraw_routes db" and ?rs = "db_withdraw_routes db'" and ?i = "acc_id a" and ?k = "(acc_id a, acc_id b)"
  note c = store_route_cases [OF st]
  have p: "0 \<le> wr_percent o'" "wr_percent o' \<le> 10000"
    using assms(2) by (simp_all add: validate_set_withdraw_vesting_route_def run_simps)
  have nn: "\<forall>r \<in> set ?old. 0 \<le> wro_percent r" and old: "\<And>k. total (route_share k) ?old \<le> 10000"
    using assms(3) by (simp_all add: routes_within_def sum_routes_from)
  have fr: "0 \<le> wro_percent r" "wro_from_account r = ?i" if "find_row route_key ?k ?old = Some r" for r
    using nn find_row_set [OF that] find_row_key [OF that] by (auto simp: route_key_def)
  have new: "total (route_share k) ?rs \<le> total (route_share k) ?old + (if k = ?i then wr_percent o' else 0)" for k
    using c fr p rows.sum_modify [OF assms(4), of ?k] rows.sum_remove [OF assms(4), of ?k]
    by (auto simp: route_share_def)
  have nn': "\<forall>r \<in> set ?rs. 0 \<le> wro_percent r"
    using c nn p by (auto simp: remove_row_def modify_row_def)
  have "total (route_share k) ?rs \<le> 10000" for k
  proof (cases "k = ?i")
    case False
    then show ?thesis using new [of k] old [of k] by simp
  next
    case True
    have "fold (\<lambda>r t. u16 (t + wro_percent r)) (routes_from ?i db') 0 = 0 + sum_list (map wro_percent (routes_from ?i db'))"
      using nn' new [of ?i] old [of ?i] p
      by (intro fold_u16_sum) (simp_all add: sum_routes_from, simp add: routes_from_def)
    then show ?thesis using le True by (simp add: sum_routes_from)
  qed
  then show ?thesis using nn' by (simp add: routes_within_def sum_routes_from)
qed

definition sample_route :: set_withdraw_vesting_route_operation where
  "sample_route = \<lparr>wr_from_account = ''bob'', wr_to_account = ''carol'', wr_percent = 10000, wr_auto_vest = False\<rparr>"

lemma sample_route_run: "\<exists>db'. set_withdraw_vesting_route_apply sample_route sample_db = Inr db'"
  by (simp add: set_withdraw_vesting_route_apply_def store_route_def sample_route_def sample_defs get_account_def modify_account_def
      update_row_def routes_from_def Let_def u16_def)

theorem withdraw_routes_within_limit_witness:
  "\<exists>db'. set_withdraw_vesting_route_apply sample_route sample_db = Inr db' \<and> routes_within db'"
proof -
  obtain db' where run: "set_withdraw_vesting_route_apply sample_route sample_db = Inr db'" using sample_route_run by blast
  have "is_valid_account_name ''bob''" "is_valid_account_name ''carol''" by code_simp+
  then have "validate_set_withdraw_vesting_route sample_route = Inr ()"
    by (simp add: validate_set_withdraw_vesting_route_def sample_route_def run_simps)
  moreover have "unique_keys route_key (db_withdraw_routes sample_db)" by (simp add: sample_defs)
  ultimately show ?thesis using withdraw_routes_within_limit [OF run _ sample_shares_ok(3)] run by blast
qed

text \<open>The check does not see a route to the account with id 0: an account that already routes 100
  percent elsewhere may add another 100 percent to it, and the withdrawals then ignore that route.\<close>

theorem route_to_first_account_unchecked:
  "\<exists>db1 db2. set_withdraw_vesting_route_apply sample_route sample_db = Inr db1 \<and>
     set_withdraw_vesting_route_apply (sample_route\<lparr>wr_to_account := ''alice''\<rparr>) db1 = Inr db2 \<and>
     sum_list (map wro_percent (db_withdraw_routes db2)) = 20000 \<and>
     map wro_to_account (routes_from 1 db2) = [2]"
  by (simp add: set_withdraw_vesting_route_apply_def store_route_def sample_route_def sample_defs get_account_def modify_account_def
      update_row_def routes_from_def Let_def u16_def route_key_def)

end
