(* ===== verification/Delegation.thy ===== *)
theory Delegation
  imports Chain_Frames
begin

text \<open>
  Delegation of vesting shares: the evaluator of \<open>chain/chain_evaluator.cpp\<close> and the return of
  withdrawn delegations in \<open>chain/database.cpp\<close>.  The theorems say that the two counters of every
  account agree with the delegation objects, and that nobody delegates shares he does not have.
\<close>

section \<open>The evaluator\<close>

definition delegation_key :: "vesting_delegation_object \<Rightarrow> account_name_type \<times> account_name_type" where
  "delegation_key d = (vd_delegator d, vd_delegatee d)"

definition increase_delegation ::
  "delegate_vesting_shares_operation \<Rightarrow> account_object \<Rightarrow> vesting_delegation_object option \<Rightarrow> asset \<Rightarrow> asset \<Rightarrow>
   database \<Rightarrow> database result" where
  "increase_delegation o' delegator delegation min_deleg delta db =
     (case asset_ge (mk_asset (available_vesting_shares delegator True) SHARES_SYMBOL) delta of Inl e \<Rightarrow> Inl e
      | Inr enough \<Rightarrow>
      if \<not> enough then Inl (FC_Assert ''Account does not have enough vesting shares to delegate.'')
      else if has_hardfork 6 db \<and> \<not> regenerated (head_block_time db) delegator \<ge> 0
      then Inl (FC_Assert ''Cannot delegate with negative energy.'')
      else case (case delegation of Some _ \<Rightarrow> Inr db
          | None \<Rightarrow>
            case asset_ge (dv_vesting_shares o') min_deleg of Inl e \<Rightarrow> Inl e
            | Inr minimum \<Rightarrow>
            if \<not> minimum then Inl (FC_Assert ''Account must delegate a minimum of ${v}'')
            else case create_row delegation_key
                \<lparr>vd_delegator = dv_delegator o', vd_delegatee = dv_delegatee o',
                 vd_vesting_shares = dv_vesting_shares o', vd_min_delegation_time = head_block_time db\<rparr>
                (db_delegations db) of Inl e \<Rightarrow> Inl e
            | Inr ds \<Rightarrow> Inr (db\<lparr>db_delegations := ds\<rparr>)) of Inl e \<Rightarrow> Inl e
      | Inr db1 \<Rightarrow>
      case shares_sender_recalc_energy (dv_delegator o') delta db1 of Inl e \<Rightarrow> Inl e
      | Inr db2 \<Rightarrow>
      modify_account (dv_delegator o')
        (add_field acc_delegated_vesting_shares acc_delegated_vesting_shares_update delta) db2)"

definition decrease_delegation ::
  "delegate_vesting_shares_operation \<Rightarrow> vesting_delegation_object option \<Rightarrow> asset \<Rightarrow> asset \<Rightarrow> database \<Rightarrow>
   database result" where
  "decrease_delegation o' delegation min_deleg delta db =
     (case (if amount (dv_vesting_shares o') = 0 then Inr True else asset_ge (dv_vesting_shares o') min_deleg) of
        Inl e \<Rightarrow> Inl e
      | Inr allowed \<Rightarrow>
      if \<not> allowed
      then Inl (FC_Assert ''Delegation must be removed or leave minimum delegation amount of ${v}'')
      else case delegation of None \<Rightarrow> Inl Null_dereference
      | Some d \<Rightarrow>
        let period = (if has_hardfork 10 db then CHAIN_ENERGY_REGENERATION_SECONDS else CHAIN_CASHOUT_WINDOW_SECONDS)
        in Inr (db\<lparr>db_delegation_expirations := db_delegation_expirations db @
             [\<lparr>vde_delegator = dv_delegator o', vde_vesting_shares = asset_neg delta,
               vde_expiration = max (head_block_time db + period) (vd_min_delegation_time d)\<rparr>]\<rparr>))"

definition delegate_vesting_shares_apply :: "delegate_vesting_shares_operation \<Rightarrow> database \<Rightarrow> database result" where
  "delegate_vesting_shares_apply o' db =
     (case get_account (dv_delegator o') db of Inl e \<Rightarrow> Inl e
      | Inr delegator \<Rightarrow>
      case get_account (dv_delegatee o') db of Inl e \<Rightarrow> Inl e
      | Inr _ \<Rightarrow>
      let k = (dv_delegator o', dv_delegatee o'); delegation = find_row delegation_key k (db_delegations db)
      in if delegation = None \<and> amount (dv_vesting_shares o') = 0
      then Inl (FC_Assert ''Delegation did not exist for initiate revoke.'')
      else case asset_times_price (min_delegation (median_props db)) (get_vesting_share_price (db_dgp db)) of
        Inl e \<Rightarrow> Inl e
      | Inr min_deleg \<Rightarrow>
      case (case delegation of None \<Rightarrow> Inr (dv_vesting_shares o')
            | Some d \<Rightarrow> asset_sub (dv_vesting_shares o') (vd_vesting_shares d)) of Inl e \<Rightarrow> Inl e
      | Inr delta \<Rightarrow>
      case (if amount delta > 0 then increase_delegation o' delegator delegation min_deleg delta db
            else decrease_delegation o' delegation min_deleg delta db) of Inl e \<Rightarrow> Inl e
      | Inr db1 \<Rightarrow>
      case modify_account (dv_delegatee o')
             (add_field acc_received_vesting_shares acc_received_vesting_shares_update delta) db1 of Inl e \<Rightarrow> Inl e
      | Inr db2 \<Rightarrow>
      case delegation of None \<Rightarrow> Inr db2
      | Some d \<Rightarrow>
        if amount (dv_vesting_shares o') > 0
        then Inr (db2\<lparr>db_delegations := modify_row delegation_key k
               (\<lambda>_. d\<lparr>vd_vesting_shares := dv_vesting_shares o'\<rparr>) (db_delegations db2)\<rparr>)
        else Inr (db2\<lparr>db_delegations := remove_row delegation_key k (db_delegations db2)\<rparr>))"

section \<open>Returning delegations\<close>

text \<open>
  The loop takes the first object of the index by expiration until that one has not expired.  The
  energy of the delegator is charged for the returned shares since hardfork 10.
\<close>

definition return_delegation :: "vesting_delegation_expiration_object \<Rightarrow> database \<Rightarrow> database result" where
  "return_delegation x db =
     (case get_account (vde_delegator x) db of Inl e \<Rightarrow> Inl e
      | Inr _ \<Rightarrow>
      modify_account (vde_delegator x) (\<lambda>a.
        case sub_field acc_delegated_vesting_shares acc_delegated_vesting_shares_update (vde_vesting_shares x) a of
          Inl e \<Rightarrow> Inl e
        | Inr a' \<Rightarrow> Inr (if has_hardfork 10 db
                        then recalc_energy (head_block_time db) (amount (vde_vesting_shares x)) a' else a')) db)"

definition clear_expired_delegations :: "database \<Rightarrow> database result" where
  "clear_expired_delegations db =
     (case fold_result return_delegation
             (sort_key vde_expiration (filter (\<lambda>x. vde_expiration x < head_block_time db) (db_delegation_expirations db)))
             db of Inl e \<Rightarrow> Inl e
      | Inr db' \<Rightarrow> Inr (db'\<lparr>db_delegation_expirations :=
          filter (\<lambda>x. \<not> vde_expiration x < head_block_time db) (db_delegation_expirations db')\<rparr>))"

section \<open>The books of the delegations\<close>

definition given_by :: "account_name_type \<Rightarrow> vesting_delegation_object \<Rightarrow> int" where
  "given_by n d = (if vd_delegator d = n then amount (vd_vesting_shares d) else 0)"

definition taken_by :: "account_name_type \<Rightarrow> vesting_delegation_object \<Rightarrow> int" where
  "taken_by n d = (if vd_delegatee d = n then amount (vd_vesting_shares d) else 0)"

definition returning_to :: "account_name_type \<Rightarrow> vesting_delegation_expiration_object \<Rightarrow> int" where
  "returning_to n x = (if vde_delegator x = n then amount (vde_vesting_shares x) else 0)"

text \<open>
  For every account: the delegated counter is what its delegation objects and its pending returns
  hold, the received counter is what the delegation objects in its favour hold.
\<close>

definition balanced_account :: "database \<Rightarrow> account_object \<Rightarrow> bool" where
  "balanced_account db a =
     (amount (acc_delegated_vesting_shares a) =
        total (given_by (acc_name a)) (db_delegations db) + total (returning_to (acc_name a)) (db_delegation_expirations db) \<and>
      amount (acc_received_vesting_shares a) = total (taken_by (acc_name a)) (db_delegations db))"

definition delegations_balanced :: "database \<Rightarrow> bool" where
  "delegations_balanced db = ((\<forall>a \<in> set (db_accounts db). balanced_account db a) \<and>
     unique_keys acc_name (db_accounts db) \<and> unique_keys delegation_key (db_delegations db))"

lemma delegations_balanced_find:
  "unique_keys acc_name (db_accounts db) \<Longrightarrow>
     (\<forall>a \<in> set (db_accounts db). balanced_account db a) \<longleftrightarrow>
     (\<forall>n a. find_row acc_name n (db_accounts db) = Some a \<longrightarrow> balanced_account db a)"
  by (metis find_row_set find_row_unique)


text \<open>\<open>moved m d r db db'\<close>: the counters of account \<open>m\<close> moved by \<open>d\<close> and \<open>r\<close>.\<close>

definition moved :: "account_name_type \<Rightarrow> int \<Rightarrow> int \<Rightarrow> database \<Rightarrow> database \<Rightarrow> bool" where
  "moved m d r db db' =
     (\<forall>a'. find_row acc_name m (db_accounts db') = Some a' \<longrightarrow>
        (\<exists>a. find_row acc_name m (db_accounts db) = Some a \<and>
           amount (acc_delegated_vesting_shares a') = amount (acc_delegated_vesting_shares a) + d \<and>
           amount (acc_received_vesting_shares a') = amount (acc_received_vesting_shares a) + r))"

lemma moved_trans: "moved m d r db1 db2 \<Longrightarrow> moved m d' r' db2 db3 \<Longrightarrow> moved m (d + d') (r + r') db1 db3"
  unfolding moved_def by fastforce

lemma moved_same: "db_accounts db' = db_accounts db \<Longrightarrow> moved m 0 0 db db'"
  by (simp add: moved_def)

lemma modify_account_moved:
  assumes "modify_account n f db = Inr db'"
    and "\<And>a a'. f a = Inr a' \<Longrightarrow> acc_name a' = acc_name a \<and>
      amount (acc_delegated_vesting_shares a') = amount (acc_delegated_vesting_shares a) + d \<and>
      amount (acc_received_vesting_shares a') = amount (acc_received_vesting_shares a) + r"
  shows "moved m (if m = n then d else 0) (if m = n then r else 0) db db'"
proof -
  obtain a a' where "find_row acc_name n (db_accounts db) = Some a" "f a = Inr a'"
    and "\<And>m. find_row acc_name m (db_accounts db') = (if m = n then Some a' else find_row acc_name m (db_accounts db))"
    by (rule modify_account_finds [OF assms(1)]) (use assms(2) in auto)
  then show ?thesis using assms(2) by (auto simp: moved_def)
qed

lemma recalc_energy_fields [simp]:
  "acc_delegated_vesting_shares (recalc_energy now x a) = acc_delegated_vesting_shares a"
  "acc_received_vesting_shares (recalc_energy now x a) = acc_received_vesting_shares a"
  "acc_vesting_shares (recalc_energy now x a) = acc_vesting_shares a"
  "acc_to_withdraw (recalc_energy now x a) = acc_to_withdraw a"
  "acc_withdrawn (recalc_energy now x a) = acc_withdrawn a"
  "acc_balance (recalc_energy now x a) = acc_balance a"
  "acc_reserved_balance (recalc_energy now x a) = acc_reserved_balance a"
  by (simp_all add: recalc_energy_def Let_def)

lemma shares_sender_recalc_energy_moved:
  "shares_sender_recalc_energy n x db = Inr db' \<Longrightarrow> moved m 0 0 db db' \<and> only_votes db db'"
  unfolding shares_sender_recalc_energy_def
  using modify_account_moved [of n _ db db' 0 0 m] modify_account_only [of n _ db db'] by fastforce

lemma increase_delegation_cases:
  assumes "increase_delegation o' delegator delegation min_deleg delta db = Inr db'"
  obtains db1 db2 where "shares_sender_recalc_energy (dv_delegator o') delta db1 = Inr db2"
    and "modify_account (dv_delegator o')
           (add_field acc_delegated_vesting_shares acc_delegated_vesting_shares_update delta) db2 = Inr db'"
    and "asset_ge (mk_asset (available_vesting_shares delegator True) SHARES_SYMBOL) delta = Inr True"
    and "(\<exists>d. delegation = Some d) \<and> db1 = db \<or>
      delegation = None \<and> (\<exists>ds. db1 = db\<lparr>db_delegations := ds\<rparr> \<and>
         create_row delegation_key \<lparr>vd_delegator = dv_delegator o', vd_delegatee = dv_delegatee o',
           vd_vesting_shares = dv_vesting_shares o', vd_min_delegation_time = head_block_time db\<rparr>
           (db_delegations db) = Inr ds)"
proof -
  from assms obtain db1 db2 where r: "shares_sender_recalc_energy (dv_delegator o') delta db1 = Inr db2"
      "modify_account (dv_delegator o')
           (add_field acc_delegated_vesting_shares acc_delegated_vesting_shares_update delta) db2 = Inr db'"
      "asset_ge (mk_asset (available_vesting_shares delegator True) SHARES_SYMBOL) delta = Inr True"
    and c: "(case delegation of Some _ \<Rightarrow> Inr db
          | None \<Rightarrow>
            case asset_ge (dv_vesting_shares o') min_deleg of Inl e \<Rightarrow> Inl e
            | Inr minimum \<Rightarrow>
            if \<not> minimum then Inl (FC_Assert ''Account must delegate a minimum of ${v}'')
            else case create_row delegation_key
                \<lparr>vd_delegator = dv_delegator o', vd_delegatee = dv_delegatee o',
                 vd_vesting_shares = dv_vesting_shares o', vd_min_delegation_time = head_block_time db\<rparr>
                (db_delegations db) of Inl e \<Rightarrow> Inl e
            | Inr ds \<Rightarrow> Inr (db\<lparr>db_delegations := ds\<rparr>)) = Inr db1"
    unfolding increase_delegation_def case_sum_Inr if_Inl_Inr by (metis (full_types))
  show ?thesis
  proof (cases delegation)
    case None
    with c obtain ds where "create_row delegation_key
                \<lparr>vd_delegator = dv_delegator o', vd_delegatee = dv_delegatee o',
                 vd_vesting_shares = dv_vesting_shares o', vd_min_delegation_time = head_block_time db\<rparr>
                (db_delegations db) = Inr ds" and "db1 = db\<lparr>db_delegations := ds\<rparr>"
      unfolding None option.case case_sum_Inr if_Inl_Inr by blast
    with None r that show ?thesis by blast
  next
    case (Some d)
    with c have "db1 = db" by simp
    with Some r that show ?thesis by blast
  qed
qed


lemma delegate_cases:
  assumes "delegate_vesting_shares_apply o' db = Inr db'"
  defines "k \<equiv> (dv_delegator o', dv_delegatee o')"
  defines "delegation \<equiv> find_row delegation_key k (db_delegations db)"
  obtains delegator min_deleg delta db1 db2 where
    "find_row acc_name (dv_delegator o') (db_accounts db) = Some delegator"
    and "(case delegation of None \<Rightarrow> Inr (dv_vesting_shares o')
            | Some d \<Rightarrow> asset_sub (dv_vesting_shares o') (vd_vesting_shares d)) = Inr delta"
    and "if amount delta > 0 then increase_delegation o' delegator delegation min_deleg delta db = Inr db1
         else decrease_delegation o' delegation min_deleg delta db = Inr db1"
    and "modify_account (dv_delegatee o')
             (add_field acc_received_vesting_shares acc_received_vesting_shares_update delta) db1 = Inr db2"
    and "db' = (case delegation of None \<Rightarrow> db2
      | Some d \<Rightarrow> db2\<lparr>db_delegations := if amount (dv_vesting_shares o') > 0
           then modify_row delegation_key k (\<lambda>_. d\<lparr>vd_vesting_shares := dv_vesting_shares o'\<rparr>) (db_delegations db2)
           else remove_row delegation_key k (db_delegations db2)\<rparr>)"
proof -
  from assms(1) obtain delegator min_deleg delta db1 db2 where
    1: "get_account (dv_delegator o') db = Inr delegator"
    and 2: "(case delegation of None \<Rightarrow> Inr (dv_vesting_shares o')
            | Some d \<Rightarrow> asset_sub (dv_vesting_shares o') (vd_vesting_shares d)) = Inr delta"
    and 3: "(if amount delta > 0 then increase_delegation o' delegator delegation min_deleg delta db
            else decrease_delegation o' delegation min_deleg delta db) = Inr db1"
    and 4: "modify_account (dv_delegatee o')
             (add_field acc_received_vesting_shares acc_received_vesting_shares_update delta) db1 = Inr db2"
    and 5: "(case delegation of None \<Rightarrow> Inr db2
      | Some d \<Rightarrow>
        if amount (dv_vesting_shares o') > 0
        then Inr (db2\<lparr>db_delegations := modify_row delegation_key k
               (\<lambda>_. d\<lparr>vd_vesting_shares := dv_vesting_shares o'\<rparr>) (db_delegations db2)\<rparr>)
        else Inr (db2\<lparr>db_delegations := remove_row delegation_key k (db_delegations db2)\<rparr>)) = (Inr db' :: database result)"
    unfolding delegate_vesting_shares_apply_def case_sum_Inr if_Inl_Inr Let_def k_def [symmetric] delegation_def [symmetric]
    by (elim exE conjE) (rule that)
  have "db' = (case delegation of None \<Rightarrow> db2
      | Some d \<Rightarrow> db2\<lparr>db_delegations := if amount (dv_vesting_shares o') > 0
           then modify_row delegation_key k (\<lambda>_. d\<lparr>vd_vesting_shares := dv_vesting_shares o'\<rparr>) (db_delegations db2)
           else remove_row delegation_key k (db_delegations db2)\<rparr>)"
    using 5 by (auto split: option.splits if_splits)
  then show ?thesis using 1 2 3 4 that by (simp add: get_account_Inr split: if_splits)
qed

text \<open>What an accepted delegation does to the objects and to the counters.\<close>

lemma decrease_delegation_Inr:
  "decrease_delegation o' delegation min_deleg delta db = Inr db' \<Longrightarrow>
     (\<exists>d x. delegation = Some d \<and>
        db' = db\<lparr>db_delegation_expirations := db_delegation_expirations db @
          [\<lparr>vde_delegator = dv_delegator o', vde_vesting_shares = asset_neg delta, vde_expiration = x\<rparr>]\<rparr>)"
  unfolding decrease_delegation_def case_sum_Inr if_Inl_Inr case_option_Inr Let_def by blast

text \<open>The branch of the evaluator that checks the delegator, by whether more or less is delegated.\<close>

lemma grant_counters:
  assumes "if amount delta > 0 then increase_delegation o' delegator delegation min_deleg delta db = Inr db1
         else decrease_delegation o' delegation min_deleg delta db = Inr db1"
  shows "moved m (if m = dv_delegator o' \<and> amount delta > 0 then amount delta else 0) 0 db db1"
proof (cases "amount delta > 0")
  case True
  obtain dba dbb where e: "shares_sender_recalc_energy (dv_delegator o') delta dba = Inr dbb"
    and d: "modify_account (dv_delegator o')
         (add_field acc_delegated_vesting_shares acc_delegated_vesting_shares_update delta) dbb = Inr db1"
    and "db_accounts dba = db_accounts db"
    by (rule increase_delegation_cases [of o' delegator delegation min_deleg delta db db1]) (use assms True in auto)
  then have "moved m 0 0 db dba" by (intro moved_same)
  with e have "moved m 0 0 db dbb" using moved_trans [of m 0 0 db dba 0 0 dbb] shares_sender_recalc_energy_moved by simp
  moreover have "moved m (if m = dv_delegator o' then amount delta else 0) 0 dbb db1"
    using modify_account_moved [OF d, of "amount delta" 0 m] by (simp add: run_simps)
  ultimately show ?thesis using True moved_trans [of m 0 0 db dbb _ 0 db1] by simp
next
  case False
  then show ?thesis using assms by (auto intro!: moved_same dest!: decrease_delegation_Inr)
qed

lemma grant_new:
  assumes "if amount delta > 0 then increase_delegation o' delegator None min_deleg delta db = Inr db1
         else decrease_delegation o' None min_deleg delta db = Inr db1"
  shows "amount delta > 0 \<and> db_delegation_expirations db1 = db_delegation_expirations db \<and>
    create_row delegation_key \<lparr>vd_delegator = dv_delegator o', vd_delegatee = dv_delegatee o',
      vd_vesting_shares = dv_vesting_shares o', vd_min_delegation_time = head_block_time db\<rparr>
      (db_delegations db) = Inr (db_delegations db1)"
proof -
  have pos: "amount delta > 0" using assms by (auto split: if_splits dest!: decrease_delegation_Inr)
  obtain dba dbb where e: "shares_sender_recalc_energy (dv_delegator o') delta dba = Inr dbb"
    and m: "modify_account (dv_delegator o')
         (add_field acc_delegated_vesting_shares acc_delegated_vesting_shares_update delta) dbb = Inr db1"
    and c: "create_row delegation_key \<lparr>vd_delegator = dv_delegator o', vd_delegatee = dv_delegatee o',
         vd_vesting_shares = dv_vesting_shares o', vd_min_delegation_time = head_block_time db\<rparr>
         (db_delegations db) = Inr (db_delegations dba)"
    and "db_delegation_expirations dba = db_delegation_expirations db"
    by (rule increase_delegation_cases [of o' delegator None min_deleg delta db db1]) (use assms pos in auto)
  then show ?thesis using pos only_votes_fields [OF modify_account_only [OF m]]
      only_votes_fields [OF conjunct2 [OF shares_sender_recalc_energy_moved [OF e]]] by auto
qed

lemma grant_old:
  assumes "if amount delta > 0 then increase_delegation o' delegator (Some d) min_deleg delta db = Inr db1
         else decrease_delegation o' (Some d) min_deleg delta db = Inr db1"
  shows "db_delegations db1 = db_delegations db \<and> (if amount delta > 0
      then db_delegation_expirations db1 = db_delegation_expirations db
      else \<exists>t. db_delegation_expirations db1 = db_delegation_expirations db @
        [\<lparr>vde_delegator = dv_delegator o', vde_vesting_shares = asset_neg delta, vde_expiration = t\<rparr>])"
proof (cases "amount delta > 0")
  case True
  obtain dbb where e: "shares_sender_recalc_energy (dv_delegator o') delta db = Inr dbb"
    and m: "modify_account (dv_delegator o')
       (add_field acc_delegated_vesting_shares acc_delegated_vesting_shares_update delta) dbb = Inr db1"
    by (rule increase_delegation_cases [of o' delegator "Some d" min_deleg delta db db1]) (use assms True in auto)
  show ?thesis using True only_votes_fields [OF modify_account_only [OF m]]
    only_votes_fields [OF conjunct2 [OF shares_sender_recalc_energy_moved [OF e]]] by auto
next
  case False
  then show ?thesis using assms by (auto dest!: decrease_delegation_Inr)
qed

lemma delegate_effect:
  assumes "delegate_vesting_shares_apply o' db = Inr db'" and "unique_keys delegation_key (db_delegations db)"
    and "0 \<le> amount (dv_vesting_shares o')"
  obtains delta :: int where
    "\<And>m. moved m (if m = dv_delegator o' \<and> delta > 0 then delta else 0) (if m = dv_delegatee o' then delta else 0) db db'"
    and "\<And>n. total (given_by n) (db_delegations db') = total (given_by n) (db_delegations db) + (if n = dv_delegator o' then delta else 0)"
    and "\<And>n. total (taken_by n) (db_delegations db') = total (taken_by n) (db_delegations db) + (if n = dv_delegatee o' then delta else 0)"
    and "\<And>n. total (returning_to n) (db_delegation_expirations db') =
      total (returning_to n) (db_delegation_expirations db) + (if n = dv_delegator o' \<and> \<not> delta > 0 then - delta else 0)"
    and "unique_keys delegation_key (db_delegations db')"
proof -
  let ?k = "(dv_delegator o', dv_delegatee o')"
  obtain delegator min_deleg delta db1 db2 where
    delta: "(case find_row delegation_key ?k (db_delegations db) of None \<Rightarrow> Inr (dv_vesting_shares o')
            | Some d \<Rightarrow> asset_sub (dv_vesting_shares o') (vd_vesting_shares d)) = Inr delta"
    and br: "if amount delta > 0 then increase_delegation o' delegator (find_row delegation_key ?k (db_delegations db)) min_deleg delta db = Inr db1
         else decrease_delegation o' (find_row delegation_key ?k (db_delegations db)) min_deleg delta db = Inr db1"
    and rec: "modify_account (dv_delegatee o')
             (add_field acc_received_vesting_shares acc_received_vesting_shares_update delta) db1 = Inr db2"
    and fin: "db' = (case find_row delegation_key ?k (db_delegations db) of None \<Rightarrow> db2
      | Some d \<Rightarrow> db2\<lparr>db_delegations := if amount (dv_vesting_shares o') > 0
           then modify_row delegation_key ?k (\<lambda>_. d\<lparr>vd_vesting_shares := dv_vesting_shares o'\<rparr>) (db_delegations db2)
           else remove_row delegation_key ?k (db_delegations db2)\<rparr>)"
    using assms(1) by (rule delegate_cases)
  note acc = grant_counters [OF br]
  have "moved m 0 (if m = dv_delegatee o' then amount delta else 0) db1 db2" for m
    using modify_account_moved [OF rec, of 0 "amount delta" m] by (simp add: run_simps)
  then have "moved m (if m = dv_delegator o' \<and> amount delta > 0 then amount delta else 0)
      (if m = dv_delegatee o' then amount delta else 0) db db2" for m
    using moved_trans [OF acc, of m 0 _ db2] by simp
  moreover have "db_accounts db' = db_accounts db2" using fin by (simp split: option.splits)
  ultimately have counters: "moved m (if m = dv_delegator o' \<and> amount delta > 0 then amount delta else 0)
      (if m = dv_delegatee o' then amount delta else 0) db db'" for m
    by (simp add: moved_def)
  have tables: "db_delegations db2 = db_delegations db1 \<and> db_delegation_expirations db2 = db_delegation_expirations db1"
    using only_votes_fields [OF modify_account_only [OF rec]] by simp
  show ?thesis
  proof (cases "find_row delegation_key ?k (db_delegations db)")
    case None
    with delta have d: "delta = dv_vesting_shares o'" by simp
    note n = grant_new [OF br [unfolded None]]
    have t: "db_delegations db' = db_delegations db1" "db_delegation_expirations db' = db_delegation_expirations db"
      using fin None tables n by auto
    note c = conjunct2 [OF conjunct2 [OF n]]
    show ?thesis
      by (rule that [of "amount delta", OF counters])
        (use t n d rows.sum_create [OF c] rows.invar_create [OF assms(2) c] in
          \<open>auto simp: given_by_def taken_by_def\<close>)
  next
    case (Some d)
    have fd: "vd_delegator d = dv_delegator o'" "vd_delegatee d = dv_delegatee o'"
      using find_row_key [OF Some] by (auto simp: delegation_key_def)
    note ds = grant_old [OF br [unfolded Some]]
    have a: "amount delta = amount (dv_vesting_shares o') - amount (vd_vesting_shares d)"
      using delta Some by (auto simp: asset_sub_def split: if_splits)
    have e: "db_delegation_expirations db' = db_delegation_expirations db2"
      and m: "db_delegations db' = (if amount (dv_vesting_shares o') > 0
           then modify_row delegation_key ?k (\<lambda>_. d\<lparr>vd_vesting_shares := dv_vesting_shares o'\<rparr>) (db_delegations db)
           else remove_row delegation_key ?k (db_delegations db))"
      using fin Some tables ds by auto
    have s: "total g (db_delegations db') = total g (db_delegations db) - g d +
        (if amount (dv_vesting_shares o') > 0 then g (d\<lparr>vd_vesting_shares := dv_vesting_shares o'\<rparr>) else 0)" for g
      using m rows.sum_modify [OF assms(2) Some] rows.sum_remove [OF assms(2) Some] by simp
    show ?thesis
    proof (rule that [of "amount delta", OF counters])
      show "total (given_by n) (db_delegations db') = total (given_by n) (db_delegations db) +
          (if n = dv_delegator o' then amount delta else 0)" for n
        using s [of "given_by n"] a assms(3) by (auto simp: given_by_def fd)
      show "total (taken_by n) (db_delegations db') = total (taken_by n) (db_delegations db) +
          (if n = dv_delegatee o' then amount delta else 0)" for n
        using s [of "taken_by n"] a assms(3) by (auto simp: taken_by_def fd)
      show "total (returning_to n) (db_delegation_expirations db') = total (returning_to n) (db_delegation_expirations db) +
          (if n = dv_delegator o' \<and> \<not> 0 < amount delta then - amount delta else 0)" for n
        using ds e tables by (auto simp: returning_to_def asset_neg_def split: if_splits)
      show "unique_keys delegation_key (db_delegations db')"
        using m unique_keys_remove_row [OF assms(2)] unique_keys_modify_row [OF assms(2), of _ ?k]
        by (simp add: delegation_key_def fd)
    qed
  qed
qed


lemma moved_names:
  assumes "\<And>m. moved m (d m) (r m) db db'" and "unique_keys acc_name (db_accounts db')"
    and "a' \<in> set (db_accounts db')"
  obtains a where "a \<in> set (db_accounts db)" and "acc_name a = acc_name a'"
    and "amount (acc_delegated_vesting_shares a') = amount (acc_delegated_vesting_shares a) + d (acc_name a')"
    and "amount (acc_received_vesting_shares a') = amount (acc_received_vesting_shares a) + r (acc_name a')"
proof -
  obtain a where a: "find_row acc_name (acc_name a') (db_accounts db) = Some a"
    and "amount (acc_delegated_vesting_shares a') = amount (acc_delegated_vesting_shares a) + d (acc_name a')"
    and "amount (acc_received_vesting_shares a') = amount (acc_received_vesting_shares a) + r (acc_name a')"
    using assms(1) [of "acc_name a'"] find_row_unique [OF assms(2,3)] unfolding moved_def by blast
  with find_row_set [OF a] find_row_key [OF a] show ?thesis by (intro that)
qed

text \<open>The names of the accounts do not change, so the unique index stays.\<close>

lemma modify_account_names:
  assumes "modify_account n f db = Inr db'" and "\<And>a a'. f a = Inr a' \<Longrightarrow> acc_name a' = acc_name a"
  shows "map acc_name (db_accounts db') = map acc_name (db_accounts db)"
  using assms find_row_key by (fastforce simp: modify_account_Inr keys_modify_row)

lemma shares_sender_recalc_energy_names:
  "shares_sender_recalc_energy n x db = Inr db' \<Longrightarrow> map acc_name (db_accounts db') = map acc_name (db_accounts db)"
  unfolding shares_sender_recalc_energy_def by (erule modify_account_names) auto

lemma grant_names:
  assumes "if amount delta > 0 then increase_delegation o' delegator delegation min_deleg delta db = Inr db1
         else decrease_delegation o' delegation min_deleg delta db = Inr db1"
  shows "map acc_name (db_accounts db1) = map acc_name (db_accounts db)"
proof (cases "amount delta > 0")
  case True
  obtain dba dbb where e: "shares_sender_recalc_energy (dv_delegator o') delta dba = Inr dbb"
    and d: "modify_account (dv_delegator o')
         (add_field acc_delegated_vesting_shares acc_delegated_vesting_shares_update delta) dbb = Inr db1"
    and "db_accounts dba = db_accounts db"
    by (rule increase_delegation_cases [of o' delegator delegation min_deleg delta db db1]) (use assms True in auto)
  then show ?thesis using shares_sender_recalc_energy_names [OF e] modify_account_names [OF d] by (simp add: run_simps)
next
  case False
  then show ?thesis using assms by (auto dest!: decrease_delegation_Inr)
qed

lemma delegate_names:
  assumes "delegate_vesting_shares_apply o' db = Inr db'"
  shows "map acc_name (db_accounts db') = map acc_name (db_accounts db)"
  using assms
proof (rule delegate_cases)
  fix delegator min_deleg delta db1 db2
  assume "if amount delta > 0 then increase_delegation o' delegator (find_row delegation_key (dv_delegator o', dv_delegatee o') (db_delegations db)) min_deleg delta db = Inr db1
         else decrease_delegation o' (find_row delegation_key (dv_delegator o', dv_delegatee o') (db_delegations db)) min_deleg delta db = Inr db1"
    and m: "modify_account (dv_delegatee o')
             (add_field acc_received_vesting_shares acc_received_vesting_shares_update delta) db1 = Inr db2"
    and "db' = (case find_row delegation_key (dv_delegator o', dv_delegatee o') (db_delegations db) of None \<Rightarrow> db2
      | Some d \<Rightarrow> db2\<lparr>db_delegations := if amount (dv_vesting_shares o') > 0
           then modify_row delegation_key (dv_delegator o', dv_delegatee o') (\<lambda>_. d\<lparr>vd_vesting_shares := dv_vesting_shares o'\<rparr>) (db_delegations db2)
           else remove_row delegation_key (dv_delegator o', dv_delegatee o') (db_delegations db2)\<rparr>)"
  then show ?thesis using grant_names modify_account_names [OF m] by (fastforce simp: run_simps split: option.splits)
qed

lemma unique_names:
  "map acc_name (db_accounts db') = map acc_name (db_accounts db) \<Longrightarrow>
     unique_keys acc_name (db_accounts db') = unique_keys acc_name (db_accounts db)"
  by (simp add: unique_keys_def)

lemma moved_balanced:
  assumes "\<And>m. moved m (d m) (r m) db db'" and "map acc_name (db_accounts db') = map acc_name (db_accounts db)"
    and "unique_keys delegation_key (db_delegations db')" and "delegations_balanced db"
    and "\<And>n. total (given_by n) (db_delegations db') + total (returning_to n) (db_delegation_expirations db') =
      total (given_by n) (db_delegations db) + total (returning_to n) (db_delegation_expirations db) + d n"
    and "\<And>n. total (taken_by n) (db_delegations db') = total (taken_by n) (db_delegations db) + r n"
  shows "delegations_balanced db'"
proof -
  have n: "unique_keys acc_name (db_accounts db')"
    using unique_names [OF assms(2)] assms(4) by (simp add: delegations_balanced_def)
  have "balanced_account db' a'" if a': "a' \<in> set (db_accounts db')" for a'
    using assms(1) n a'
  proof (rule moved_names)
    fix a assume "a \<in> set (db_accounts db)" and x: "acc_name a = acc_name a'"
      "amount (acc_delegated_vesting_shares a') = amount (acc_delegated_vesting_shares a) + d (acc_name a')"
      "amount (acc_received_vesting_shares a') = amount (acc_received_vesting_shares a) + r (acc_name a')"
    then have "balanced_account db a" using assms(4) by (simp add: delegations_balanced_def)
    with x show "balanced_account db' a'" by (simp add: balanced_account_def assms(5,6))
  qed
  then show ?thesis using n assms(3) by (simp add: delegations_balanced_def)
qed

lemma delegate_balanced:
  assumes "delegate_vesting_shares_apply o' db = Inr db'" and "0 \<le> amount (dv_vesting_shares o')"
    and "delegations_balanced db"
  shows "delegations_balanced db'"
proof -
  have u: "unique_keys acc_name (db_accounts db)" "unique_keys delegation_key (db_delegations db)"
    using assms(3) by (simp_all add: delegations_balanced_def)
  obtain delta :: int where
    mv: "\<And>m. moved m (if m = dv_delegator o' \<and> delta > 0 then delta else 0) (if m = dv_delegatee o' then delta else 0) db db'"
    and t: "\<And>n. total (given_by n) (db_delegations db') = total (given_by n) (db_delegations db) + (if n = dv_delegator o' then delta else 0)"
      "\<And>n. total (taken_by n) (db_delegations db') = total (taken_by n) (db_delegations db) + (if n = dv_delegatee o' then delta else 0)"
      "\<And>n. total (returning_to n) (db_delegation_expirations db') =
      total (returning_to n) (db_delegation_expirations db) + (if n = dv_delegator o' \<and> \<not> delta > 0 then - delta else 0)"
    and u': "unique_keys delegation_key (db_delegations db')"
    by (rule delegate_effect [OF assms(1) u(2) assms(2)], rule that)
  show ?thesis
    by (rule moved_balanced [OF mv delegate_names [OF assms(1)] u' assms(3)]) (simp_all add: t)
qed

section \<open>Returns\<close>

lemma return_delegation_moved:
  assumes "return_delegation x db = Inr db'"
  shows "moved m (- returning_to m x) 0 db db'" and "map acc_name (db_accounts db') = map acc_name (db_accounts db)"
    and "only_votes db db'"
proof -
  from assms obtain f where m: "modify_account (vde_delegator x) f db = Inr db'"
    and f: "f = (\<lambda>a. case sub_field acc_delegated_vesting_shares acc_delegated_vesting_shares_update (vde_vesting_shares x) a of
          Inl e \<Rightarrow> Inl e
        | Inr a' \<Rightarrow> Inr (if has_hardfork 10 db
                        then recalc_energy (head_block_time db) (amount (vde_vesting_shares x)) a' else a'))"
    unfolding return_delegation_def case_sum_Inr by blast
  show "only_votes db db'" by (rule modify_account_only [OF m])
  show "map acc_name (db_accounts db') = map acc_name (db_accounts db)"
    by (rule modify_account_names [OF m]) (auto simp: f run_simps)
  have "moved m (if m = vde_delegator x then - amount (vde_vesting_shares x) else 0) (if m = vde_delegator x then 0 else 0) db db'"
    by (rule modify_account_moved [OF m]) (auto simp: f run_simps)
  then show "moved m (- returning_to m x) 0 db db'" by (auto simp: returning_to_def split: if_splits)
qed

lemma return_delegations_moved:
  "fold_result return_delegation xs db = Inr db' \<Longrightarrow>
     moved m (- total (returning_to m) xs) 0 db db' \<and> map acc_name (db_accounts db') = map acc_name (db_accounts db) \<and>
     only_votes db db'"
proof (induction xs arbitrary: db)
  case Nil
  then show ?case by (simp add: moved_same)
next
  case (Cons x xs)
  then obtain db1 where x: "return_delegation x db = Inr db1" and "fold_result return_delegation xs db1 = Inr db'"
    by (auto simp: run_simps)
  note r = return_delegation_moved [OF x] and i = Cons.IH [OF this(2)]
  show ?case
    using moved_trans [OF r(1) conjunct1 [OF i]] r(2) i only_votes_trans [OF r(3)] by simp
qed

lemma clear_expired_balanced:
  assumes "clear_expired_delegations db = Inr db'" and "delegations_balanced db"
  shows "delegations_balanced db'"
proof -
  let ?due = "\<lambda>x. vde_expiration x < head_block_time db"
  let ?xs = "sort_key vde_expiration (filter ?due (db_delegation_expirations db))"
  from assms(1) obtain db1 where r: "fold_result return_delegation ?xs db = Inr db1"
    and db': "db' = db1\<lparr>db_delegation_expirations := filter (\<lambda>x. \<not> ?due x) (db_delegation_expirations db1)\<rparr>"
    by (auto simp: clear_expired_delegations_def run_simps)
  note m = return_delegations_moved [OF r]
  have f: "db_delegations db' = db_delegations db"
      "db_delegation_expirations db' = filter (\<lambda>x. \<not> ?due x) (db_delegation_expirations db)"
    using only_votes_fields [of db db1] m db' by auto
  have mv: "moved m (- total (returning_to m) (filter ?due (db_delegation_expirations db))) 0 db db'" for m
    using m [of m] db' by (simp add: moved_def total_def sum_sort_key)
  show ?thesis
  proof (rule moved_balanced [OF mv])
    show "map acc_name (db_accounts db') = map acc_name (db_accounts db)" using m db' by simp
    show "unique_keys delegation_key (db_delegations db')" using assms(2) f by (simp add: delegations_balanced_def)
    show "total (given_by n) (db_delegations db') + total (returning_to n) (db_delegation_expirations db') =
      total (given_by n) (db_delegations db) + total (returning_to n) (db_delegation_expirations db)
      + - total (returning_to n) (filter ?due (db_delegation_expirations db))" for n
      using total_partition [of "returning_to n" ?due "db_delegation_expirations db"] by (simp add: f)
    show "total (taken_by n) (db_delegations db') = total (taken_by n) (db_delegations db) + 0" for n by (simp add: f)
  qed (rule assms(2))
qed


section \<open>Shares that back a delegation\<close>

text \<open>
  Every account still holds the shares it has delegated and the shares a running withdrawal will
  take; what waits to be returned is never negative.
\<close>

definition stake_covered :: "database \<Rightarrow> bool" where
  "stake_covered db = ((\<forall>a \<in> set (db_accounts db). 0 \<le> available_vesting_shares a True) \<and>
     (\<forall>x \<in> set (db_delegation_expirations db). 0 \<le> amount (vde_vesting_shares x)))"

lemma modify_account_set:
  "modify_account n f db = Inr db' \<Longrightarrow> a' \<in> set (db_accounts db') \<Longrightarrow>
     a' \<in> set (db_accounts db) \<or> (\<exists>a. find_row acc_name n (db_accounts db) = Some a \<and> f a = Inr a')"
  by (auto simp: modify_account_Inr modify_row_def split: if_splits)

lemma stake_coveredI:
  assumes "modify_account n f db = Inr db'" and "stake_covered db" and "db_delegation_expirations db' = db_delegation_expirations db"
    and "\<And>a a'. find_row acc_name n (db_accounts db) = Some a \<Longrightarrow> f a = Inr a' \<Longrightarrow> 0 \<le> available_vesting_shares a' True"
  shows "stake_covered db'"
  using modify_account_set [OF assms(1)] assms(2-) unfolding stake_covered_def by metis

lemma recalc_energy_available [simp]:
  "available_vesting_shares (recalc_energy now x a) b = available_vesting_shares a b"
  by (simp add: available_vesting_shares_def Let_def)

lemma increase_delegation_covered:
  assumes "increase_delegation o' delegator delegation min_deleg delta db = Inr db'"
    and "find_row acc_name (dv_delegator o') (db_accounts db) = Some delegator" and "stake_covered db"
  shows "stake_covered db'"
  using assms(1)
proof (rule increase_delegation_cases)
  fix db1 db2 assume e: "shares_sender_recalc_energy (dv_delegator o') delta db1 = Inr db2"
    and m: "modify_account (dv_delegator o')
           (add_field acc_delegated_vesting_shares acc_delegated_vesting_shares_update delta) db2 = Inr db'"
    and enough: "asset_ge (mk_asset (available_vesting_shares delegator True) SHARES_SYMBOL) delta = Inr True"
    and "(\<exists>d. delegation = Some d) \<and> db1 = db \<or> delegation = None \<and> (\<exists>ds. db1 = db\<lparr>db_delegations := ds\<rparr> \<and>
         create_row delegation_key \<lparr>vd_delegator = dv_delegator o', vd_delegatee = dv_delegatee o',
           vd_vesting_shares = dv_vesting_shares o', vd_min_delegation_time = head_block_time db\<rparr>
           (db_delegations db) = Inr ds)"
  then have db1: "db_accounts db1 = db_accounts db" "stake_covered db1" using assms(3) by (auto simp: stake_covered_def)
  have c2: "stake_covered db2"
  proof (rule stake_coveredI [OF e [unfolded shares_sender_recalc_energy_def] db1(2)])
    show "db_delegation_expirations db2 = db_delegation_expirations db1"
      using only_votes_fields [OF conjunct2 [OF shares_sender_recalc_energy_moved [OF e]]] by simp
    show "0 \<le> available_vesting_shares a' True"
      if "find_row acc_name (dv_delegator o') (db_accounts db1) = Some a"
        "Inr (recalc_energy (head_block_time db1) (amount delta) a) = Inr a'" for a a'
      using that db1(2) find_row_set [OF that(1)] by (auto simp: stake_covered_def)
  qed
  have d2: "find_row acc_name (dv_delegator o') (db_accounts db2) = Some (recalc_energy (head_block_time db1) (amount delta) delegator)"
    using modify_account_finds [OF e [unfolded shares_sender_recalc_energy_def]] assms(2) db1(1)
    by (metis (no_types, lifting) old.sum.inject(2) option.inject recalc_energy_simps(3))
  show "stake_covered db'"
  proof (rule stake_coveredI [OF m c2])
    show "db_delegation_expirations db' = db_delegation_expirations db2"
      using only_votes_fields [OF modify_account_only [OF m]] by simp
    show "0 \<le> available_vesting_shares a' True"
      if "find_row acc_name (dv_delegator o') (db_accounts db2) = Some a"
        "add_field acc_delegated_vesting_shares acc_delegated_vesting_shares_update delta a = Inr a'" for a a'
      using that d2 enough
      by (auto simp: run_simps available_vesting_shares_def asset_ge_def asset_lt_def Let_def split: if_splits)
  qed
qed


lemma delegate_covered:
  assumes "delegate_vesting_shares_apply o' db = Inr db'" and "stake_covered db"
  shows "stake_covered db'"
  using assms(1)
proof (rule delegate_cases)
  let ?d = "find_row delegation_key (dv_delegator o', dv_delegatee o') (db_delegations db)"
  fix delegator min_deleg delta db1 db2
  assume a: "find_row acc_name (dv_delegator o') (db_accounts db) = Some delegator"
    and br: "if amount delta > 0 then increase_delegation o' delegator ?d min_deleg delta db = Inr db1
         else decrease_delegation o' ?d min_deleg delta db = Inr db1"
    and m: "modify_account (dv_delegatee o')
             (add_field acc_received_vesting_shares acc_received_vesting_shares_update delta) db1 = Inr db2"
    and db': "db' = (case ?d of None \<Rightarrow> db2
      | Some d \<Rightarrow> db2\<lparr>db_delegations := if amount (dv_vesting_shares o') > 0
           then modify_row delegation_key (dv_delegator o', dv_delegatee o') (\<lambda>_. d\<lparr>vd_vesting_shares := dv_vesting_shares o'\<rparr>) (db_delegations db2)
           else remove_row delegation_key (dv_delegator o', dv_delegatee o') (db_delegations db2)\<rparr>)"
  have c: "stake_covered db1"
  proof (cases "amount delta > 0")
    case True
    with br increase_delegation_covered [OF _ a assms(2)] show ?thesis by simp
  next
    case False
    with br assms(2) show ?thesis by (auto simp: stake_covered_def asset_neg_def dest!: decrease_delegation_Inr)
  qed
  have "stake_covered db2"
  proof (rule stake_coveredI [OF m c])
    show "db_delegation_expirations db2 = db_delegation_expirations db1"
      using only_votes_fields [OF modify_account_only [OF m]] by simp
    show "0 \<le> available_vesting_shares a' True"
      if "find_row acc_name (dv_delegatee o') (db_accounts db1) = Some a"
        "add_field acc_received_vesting_shares acc_received_vesting_shares_update delta a = Inr a'" for a a'
      using that c find_row_set [OF that(1)] by (auto simp: run_simps stake_covered_def available_vesting_shares_def)
  qed
  then show "stake_covered db'" using db' by (simp add: stake_covered_def split: option.splits)
qed

lemma return_delegation_covered:
  assumes "return_delegation x db = Inr db'" and "0 \<le> amount (vde_vesting_shares x)" and "stake_covered db"
  shows "stake_covered db'"
proof -
  from assms(1) obtain f where m: "modify_account (vde_delegator x) f db = Inr db'"
    and f: "f = (\<lambda>a. case sub_field acc_delegated_vesting_shares acc_delegated_vesting_shares_update (vde_vesting_shares x) a of
          Inl e \<Rightarrow> Inl e
        | Inr a' \<Rightarrow> Inr (if has_hardfork 10 db
                        then recalc_energy (head_block_time db) (amount (vde_vesting_shares x)) a' else a'))"
    unfolding return_delegation_def case_sum_Inr by blast
  show ?thesis
  proof (rule stake_coveredI [OF m assms(3)])
    show "db_delegation_expirations db' = db_delegation_expirations db"
      using only_votes_fields [OF modify_account_only [OF m]] by simp
    show "0 \<le> available_vesting_shares a' True"
      if "find_row acc_name (vde_delegator x) (db_accounts db) = Some a" "f a = Inr a'" for a a'
      using that assms(2,3) find_row_set [OF that(1)]
      by (fastforce simp: f run_simps stake_covered_def available_vesting_shares_def Let_def)
  qed
qed

lemma clear_expired_covered:
  assumes "clear_expired_delegations db = Inr db'" and "stake_covered db"
  shows "stake_covered db'"
proof -
  let ?xs = "sort_key vde_expiration (filter (\<lambda>x. vde_expiration x < head_block_time db) (db_delegation_expirations db))"
  from assms(1) obtain db1 where r: "fold_result return_delegation ?xs db = Inr db1"
    and db': "db' = db1\<lparr>db_delegation_expirations :=
      filter (\<lambda>x. \<not> vde_expiration x < head_block_time db) (db_delegation_expirations db1)\<rparr>"
    by (auto simp: clear_expired_delegations_def run_simps)
  have "\<forall>x \<in> set ?xs. 0 \<le> amount (vde_vesting_shares x)" using assms(2) by (auto simp: stake_covered_def)
  with r assms(2) have "stake_covered db1"
    by (rule_tac fold_result_invariant [where P = stake_covered]) (auto intro: return_delegation_covered)
  then show ?thesis using db' by (auto simp: stake_covered_def)
qed

section \<open>Runs\<close>

text \<open>Validated delegations and the returns of each block, in any order, while time goes on.\<close>

inductive delegation_step :: "database \<Rightarrow> database \<Rightarrow> bool" where
  delegate: "validate_delegate_vesting_shares o' = Inr () \<Longrightarrow> delegate_vesting_shares_apply o' db = Inr db' \<Longrightarrow>
    delegation_step db db'"
| return: "clear_expired_delegations db = Inr db' \<Longrightarrow> delegation_step db db'"
| tick: "delegation_step db (db\<lparr>db_dgp := p\<rparr>)"

inductive_cases delegation_stepE: "delegation_step db db'"

lemma tick_keeps:
  "delegations_balanced (db\<lparr>db_dgp := p\<rparr>) = delegations_balanced db" "stake_covered (db\<lparr>db_dgp := p\<rparr>) = stake_covered db"
  by (simp_all add: delegations_balanced_def balanced_account_def stake_covered_def)

lemma delegation_step_kept:
  assumes "delegation_step db db'"
  shows "delegations_balanced db \<Longrightarrow> delegations_balanced db'" and "stake_covered db \<Longrightarrow> stake_covered db'"
proof -
  show "delegations_balanced db'" if "delegations_balanced db"
    using assms
  proof (rule delegation_stepE)
    fix o' assume "validate_delegate_vesting_shares o' = Inr ()" and d: "delegate_vesting_shares_apply o' db = Inr db'"
    then have "0 \<le> amount (dv_vesting_shares o')" by (simp add: validate_delegate_vesting_shares_def run_simps)
    with d that show ?thesis by (rule_tac delegate_balanced)
  next
    assume "clear_expired_delegations db = Inr db'"
    then show ?thesis using that by (rule clear_expired_balanced)
  next
    fix p assume "db' = db\<lparr>db_dgp := p\<rparr>"
    then show ?thesis using that by (simp only: tick_keeps)
  qed
  show "stake_covered db'" if "stake_covered db"
    using assms
  proof (rule delegation_stepE)
    fix p assume "db' = db\<lparr>db_dgp := p\<rparr>"
    then show ?thesis using that by (simp only: tick_keeps)
  qed (use that delegate_covered clear_expired_covered in blast)+
qed

text \<open>C14: whatever delegations are made, changed and revoked, and whatever the blocks return, the two
  counters of every account agree with the delegation objects: what an account has delegated is what
  its delegations and its pending returns hold, and what it has received is what is delegated to it.\<close>

theorem delegation_counters_exact:
  assumes "delegation_step\<^sup>*\<^sup>* db db'" and "delegations_balanced db"
  shows "delegations_balanced db'"
  using assms by (induction rule: rtranclp_induct) (auto dest: delegation_step_kept(1))

text \<open>C15: nobody ever delegates shares he does not hold or that a running withdrawal will take: after any
  run the shares of every account cover its delegations, its pending returns and the rest of its
  withdrawal.\<close>

theorem delegation_always_covered:
  assumes "delegation_step\<^sup>*\<^sup>* db db'" and "stake_covered db"
  shows "stake_covered db'"
  using assms by (induction rule: rtranclp_induct) (auto dest: delegation_step_kept(2))

definition sample_delegation :: "int \<Rightarrow> delegate_vesting_shares_operation" where
  "sample_delegation x = \<lparr>dv_delegator = ''bob'', dv_delegatee = ''carol'', dv_vesting_shares = mk_asset x SHARES_SYMBOL\<rparr>"

lemma sample_delegation_ok:
  "validate_delegate_vesting_shares (sample_delegation 1000) = Inr ()"
  "is_ok (delegate_vesting_shares_apply (sample_delegation 1000) sample_db)"
  "delegations_balanced sample_db" "stake_covered sample_db"
proof -
  have "is_valid_account_name ''bob''" "is_valid_account_name ''carol''" by code_simp+
  then show "validate_delegate_vesting_shares (sample_delegation 1000) = Inr ()"
    by (simp add: validate_delegate_vesting_shares_def sample_delegation_def is_asset_type_def run_simps)
  show "is_ok (delegate_vesting_shares_apply (sample_delegation 1000) sample_db)"
    by (simp add: sample_delegation_def delegate_vesting_shares_apply_def increase_delegation_def sample_defs
        get_account_def modify_account_def update_row_def add_field_def asset_add_def asset_ge_def asset_lt_def
        shares_sender_recalc_energy_def recalc_energy_def regenerated_def effective_vesting_shares_def
        available_vesting_shares_def create_row_def delegation_key_def has_hardfork_def get_vesting_share_price_def
        asset_times_price_def Let_def)
qed (simp_all add: sample_defs delegations_balanced_def balanced_account_def stake_covered_def available_vesting_shares_def)

lemma sample_delegation_step: "\<exists>db'. delegation_step sample_db db'"
  using delegation_step.delegate [OF sample_delegation_ok(1)] sample_delegation_ok(2) by (auto simp: is_ok_iff)

theorem delegation_counters_exact_witness:
  "\<exists>db'. delegate_vesting_shares_apply (sample_delegation 1000) sample_db = Inr db' \<and> delegations_balanced db'"
  using delegation_counters_exact [OF r_into_rtranclp [of delegation_step], OF delegation_step.delegate]
    sample_delegation_ok by (fastforce simp: is_ok_iff)

theorem delegation_always_covered_witness:
  "\<exists>db'. delegate_vesting_shares_apply (sample_delegation 1000) sample_db = Inr db' \<and> stake_covered db'"
  using delegation_always_covered [OF r_into_rtranclp [of delegation_step], OF delegation_step.delegate]
    sample_delegation_ok by (fastforce simp: is_ok_iff)

section \<open>The ledger\<close>

lemma grant_ledger:
  assumes "if amount delta > 0 then increase_delegation o' delegator delegation min_deleg delta db = Inr db1
         else decrease_delegation o' delegation min_deleg delta db = Inr db1" and "keys_ok db"
  shows "keys_ok db1 \<and> excess db1 = excess db \<and> share_gap db1 = share_gap db"
proof (cases "amount delta > 0")
  case True
  obtain dba dbb where e: "shares_sender_recalc_energy (dv_delegator o') delta dba = Inr dbb"
    and d: "modify_account (dv_delegator o')
         (add_field acc_delegated_vesting_shares acc_delegated_vesting_shares_update delta) dbb = Inr db1"
    and s: "same_ledger db dba"
    by (rule increase_delegation_cases [of o' delegator delegation min_deleg delta db db1])
      (use assms(1) True in \<open>auto simp: same_ledger_def\<close>)
  from shares_sender_recalc_energy_ledger [OF e] same_ledger_moves [OF s] assms(2)
  have "keys_ok dbb \<and> excess dbb = excess db \<and> share_gap dbb = share_gap db" by simp
  with modify_account_tokens [OF d, of 0 0] show ?thesis by (simp add: run_simps account_tokens_def account_shares_def)
next
  case False
  then obtain xs where "db1 = db\<lparr>db_delegation_expirations := xs\<rparr>" using assms(1) decrease_delegation_Inr by fastforce
  then show ?thesis using assms(2) same_ledger_moves [of db db1] by (simp add: same_ledger_def)
qed

lemma delegate_vesting_shares_ledger [ledger]:
  assumes "delegate_vesting_shares_apply o' db = Inr db'" and "keys_ok db"
  shows "keys_ok db' \<and> excess db' = excess db \<and> share_gap db' = share_gap db"
  using assms(1)
proof (rule delegate_cases)
  let ?k = "(dv_delegator o', dv_delegatee o')"
  let ?d = "find_row delegation_key ?k (db_delegations db)"
  fix delegator min_deleg delta db1 db2
  assume br: "if amount delta > 0 then increase_delegation o' delegator ?d min_deleg delta db = Inr db1
         else decrease_delegation o' ?d min_deleg delta db = Inr db1"
    and m: "modify_account (dv_delegatee o')
             (add_field acc_received_vesting_shares acc_received_vesting_shares_update delta) db1 = Inr db2"
    and db': "db' = (case ?d of None \<Rightarrow> db2
      | Some d \<Rightarrow> db2\<lparr>db_delegations := if amount (dv_vesting_shares o') > 0
           then modify_row delegation_key ?k (\<lambda>_. d\<lparr>vd_vesting_shares := dv_vesting_shares o'\<rparr>) (db_delegations db2)
           else remove_row delegation_key ?k (db_delegations db2)\<rparr>)"
  note g = grant_ledger [OF br assms(2)]
  have "keys_ok db2 \<and> excess db2 = excess db1 + 0 \<and> share_gap db2 = share_gap db1 - 0"
    by (rule modify_account_tokens [OF m conjunct1 [OF g]]) (auto simp: run_simps account_tokens_def account_shares_def)
  moreover have "same_ledger db2 db'" using db' by (simp add: same_ledger_def split: option.splits)
  ultimately show ?thesis using same_ledger_moves [of db2 db'] g by simp
qed

lemma return_delegation_ledger:
  assumes "return_delegation x db = Inr db'" and "keys_ok db"
  shows "keys_ok db' \<and> excess db' = excess db \<and> share_gap db' = share_gap db"
proof -
  from assms(1) have m: "modify_account (vde_delegator x) (\<lambda>a.
        case sub_field acc_delegated_vesting_shares acc_delegated_vesting_shares_update (vde_vesting_shares x) a of
          Inl e \<Rightarrow> Inl e
        | Inr a' \<Rightarrow> Inr (if has_hardfork 10 db
                        then recalc_energy (head_block_time db) (amount (vde_vesting_shares x)) a' else a')) db = Inr db'"
    unfolding return_delegation_def case_sum_Inr by blast
  have "keys_ok db' \<and> excess db' = excess db + 0 \<and> share_gap db' = share_gap db - 0"
    by (rule modify_account_tokens [OF m assms(2)]) (auto simp: run_simps account_tokens_def account_shares_def)
  then show ?thesis by simp
qed

lemma clear_expired_delegations_ledger [ledger]:
  assumes "clear_expired_delegations db = Inr db'" and "keys_ok db"
  shows "keys_ok db' \<and> excess db' = excess db \<and> share_gap db' = share_gap db"
proof -
  from assms(1) obtain xs db1 where r: "fold_result return_delegation xs db = Inr db1" and s: "same_ledger db1 db'"
    by (auto simp: clear_expired_delegations_def run_simps same_ledger_def)
  have "keys_ok db1 \<and> excess db1 = excess db \<and> share_gap db1 = share_gap db"
    by (rule fold_result_invariant [OF r]) (use assms(2) return_delegation_ledger in auto)
  then show ?thesis using same_ledger_moves [OF s] by simp
qed

end
