(* ===== verification/Witness_Votes.thy ===== *)
theory Witness_Votes
  imports Chain_Frames
begin

text \<open>
  Voting for witnesses and naming a proxy: the two evaluators of \<open>chain/chain_evaluator.cpp\<close>.  The
  theorems say that proxies never form a cycle and that the number of votes an account has cast is
  counted exactly and stays within its limit.
\<close>

section \<open>Proxies\<close>

text \<open>The votes of an account with the opposite sign: its own shares, then what is proxied to it by level.\<close>

definition negated_votes :: "account_object \<Rightarrow> int list" where
  "negated_votes a = - amount (acc_vesting_shares a) #
     map (\<lambda>i. - (acc_proxied_vsf_votes a ! i)) [0..<CHAIN_MAX_PROXY_RECURSION_DEPTH]"

lemma length_flat_insert: "k \<notin> set xs \<Longrightarrow> length (flat_insert k xs) = Suc (length xs)"
  by (induction xs) auto

text \<open>
  The walk along the proxies of the new proxy.  Every round adds an account to the chain or fails, and
  the chain is at most \<open>CHAIN_MAX_PROXY_RECURSION_DEPTH\<close> long.
\<close>

function check_proxy_chain :: "nat list \<Rightarrow> account_object \<Rightarrow> database \<Rightarrow> unit result" where
  "check_proxy_chain chain cprox db =
     (if acc_proxy cprox = [] then Inr ()
      else case get_account (acc_proxy cprox) db of Inl e \<Rightarrow> Inl e
      | Inr next_proxy \<Rightarrow>
        if acc_id next_proxy \<in> set chain then Inl (FC_Assert ''This proxy would create a proxy loop.'')
        else if \<not> length (flat_insert (acc_id next_proxy) chain) \<le> CHAIN_MAX_PROXY_RECURSION_DEPTH
        then Inl (FC_Assert ''Proxy chain is too long.'')
        else check_proxy_chain (flat_insert (acc_id next_proxy) chain) next_proxy db)"
  by pat_completeness auto
termination
  by (relation "measure (\<lambda>(chain, c, db). CHAIN_MAX_PROXY_RECURSION_DEPTH - length chain)")
    (auto simp: length_flat_insert)

declare check_proxy_chain.simps [simp del]

definition set_proxy :: "account_name_type \<Rightarrow> account_name_type \<Rightarrow> database \<Rightarrow> database result" where
  "set_proxy n p db = modify_account n (\<lambda>a. Inr (a\<lparr>acc_proxy := p\<rparr>)) db"

definition account_witness_proxy_apply :: "account_witness_proxy_operation \<Rightarrow> database \<Rightarrow> database result" where
  "account_witness_proxy_apply o' db =
     (case get_account (wp_account o') db of Inl e \<Rightarrow> Inl e
      | Inr account \<Rightarrow>
      if acc_proxy account = wp_proxy o' then Inl (FC_Assert ''Proxy must change.'')
      else let delta = negated_votes account
      in case adjust_proxied_witness_votes_array (wp_account o') delta 0 db of Inl e \<Rightarrow> Inl e
      | Inr db1 \<Rightarrow>
      if wp_proxy o' \<noteq> [] then
        case get_account (wp_proxy o') db1 of Inl e \<Rightarrow> Inl e
        | Inr new_proxy \<Rightarrow>
        case check_proxy_chain (flat_insert (acc_id new_proxy) [acc_id account]) new_proxy db1 of Inl e \<Rightarrow> Inl e
        | Inr _ \<Rightarrow>
        case clear_witness_votes (wp_account o') db1 of Inl e \<Rightarrow> Inl e
        | Inr db2 \<Rightarrow>
        case set_proxy (wp_account o') (wp_proxy o') db2 of Inl e \<Rightarrow> Inl e
        | Inr db3 \<Rightarrow>
        adjust_proxied_witness_votes_array (wp_account o') (map uminus delta) 0 db3
      else set_proxy (wp_account o') (wp_proxy o') db1)"

section \<open>Votes\<close>

definition vote_key :: "witness_vote_object \<Rightarrow> nat \<times> nat" where
  "vote_key v = (wvt_account v, wvt_witness v)"

text \<open>Adds the weight of the voter to every witness it votes for.\<close>

definition add_to_votes :: "account_name_type \<Rightarrow> (account_object \<Rightarrow> int) \<Rightarrow> database \<Rightarrow> database result" where
  "add_to_votes n weight db =
     (case get_account n db of Inl e \<Rightarrow> Inl e
      | Inr voter \<Rightarrow> fold_result (\<lambda>i. adjust_witness_vote i (weight voter)) (votes_of (acc_id voter) db) db)"

definition count_vote :: "account_name_type \<Rightarrow> int \<Rightarrow> database \<Rightarrow> database result" where
  "count_vote n c db =
     modify_account n (\<lambda>a. Inr (a\<lparr>acc_witnesses_voted_for := u16 (acc_witnesses_voted_for a + c)\<rparr>)) db"

definition change_votes ::
  "(witness_vote_object list \<Rightarrow> witness_vote_object list result) \<Rightarrow> database \<Rightarrow> database result" where
  "change_votes f db =
     (case f (db_witness_votes db) of Inl e \<Rightarrow> Inl e | Inr vs \<Rightarrow> Inr (db\<lparr>db_witness_votes := vs\<rparr>))"

text \<open>Since hardfork 5: all votes are taken back, the set of votes changes, the fair weight is computed anew.\<close>

definition revote_hf5 ::
  "account_name_type \<Rightarrow> (witness_vote_object list \<Rightarrow> witness_vote_object list result) \<Rightarrow> int \<Rightarrow> database \<Rightarrow> database result" where
  "revote_hf5 n f c db =
     (case add_to_votes n (\<lambda>v. - acc_witnesses_vote_weight v) db of Inl e \<Rightarrow> Inl e
      | Inr db1 \<Rightarrow>
      case change_votes f db1 of Inl e \<Rightarrow> Inl e
      | Inr db2 \<Rightarrow>
      case count_vote n c db2 of Inl e \<Rightarrow> Inl e
      | Inr db3 \<Rightarrow>
      case modify_account n (\<lambda>a. Inr (a\<lparr>acc_witnesses_vote_weight := witness_vote_fair_weight a\<rparr>)) db3 of
        Inl e \<Rightarrow> Inl e
      | Inr db4 \<Rightarrow> add_to_votes n acc_witnesses_vote_weight db4)"

definition revote_hf4 ::
  "account_name_type \<Rightarrow> (witness_vote_object list \<Rightarrow> witness_vote_object list result) \<Rightarrow> int \<Rightarrow> database \<Rightarrow> database result" where
  "revote_hf4 n f c db =
     (case add_to_votes n (\<lambda>v. - witness_vote_fair_weight_prehf5 v) db of Inl e \<Rightarrow> Inl e
      | Inr db1 \<Rightarrow>
      case change_votes f db1 of Inl e \<Rightarrow> Inl e
      | Inr db2 \<Rightarrow>
      case count_vote n c db2 of Inl e \<Rightarrow> Inl e
      | Inr db3 \<Rightarrow> add_to_votes n witness_vote_fair_weight_prehf5 db3)"

text \<open>Before voting an account leaves its proxy (before hardfork 4 it had to do so by itself).\<close>

definition leave_proxy :: "account_name_type \<Rightarrow> account_object \<Rightarrow> database \<Rightarrow> database result" where
  "leave_proxy n voter db =
     (if acc_proxy voter = [] then Inr db
      else if has_hardfork 4 db then
        case adjust_proxied_witness_votes_array n (negated_votes voter) 0 db of Inl e \<Rightarrow> Inl e
        | Inr db1 \<Rightarrow> set_proxy n [] db1
      else Inl (FC_Assert ''A proxy is currently set, please clear the proxy before voting for a witness.''))"

definition cast_or_withdraw ::
  "account_witness_vote_operation \<Rightarrow> account_object \<Rightarrow> witness_object \<Rightarrow> database \<Rightarrow> database result" where
  "cast_or_withdraw o' voter witness db =
     (let k = (acc_id voter, w_id witness); n = wvo_account o';
          vote = \<lparr>wvt_witness = w_id witness, wvt_account = acc_id voter\<rparr>;
          limit = (if has_hardfork 4 db then CHAIN_MAX_ACCOUNT_WITNESS_VOTES else CHAIN_MAX_ACCOUNT_WITNESS_VOTES_PRE_HF4)
      in case find_row vote_key k (db_witness_votes db) of
        None \<Rightarrow>
          if \<not> wvo_approve o' then Inl (FC_Assert ''Vote doesn't exist, user must indicate a desire to approve witness.'')
          else if \<not> acc_witnesses_voted_for voter < limit
          then Inl (FC_Assert ''Account has voted for too many witnesses.'')
          else if has_hardfork 5 db then revote_hf5 n (create_row vote_key vote) 1 db
          else if has_hardfork 4 db then revote_hf4 n (create_row vote_key vote) 1 db
          else (case change_votes (create_row vote_key vote) db of Inl e \<Rightarrow> Inl e
            | Inr db1 \<Rightarrow>
            case adjust_witness_vote (w_id witness) (witness_vote_weight voter) db1 of Inl e \<Rightarrow> Inl e
            | Inr db2 \<Rightarrow> count_vote n 1 db2)
      | Some _ \<Rightarrow>
          if wvo_approve o' then Inl (FC_Assert ''Vote currently exists, user must indicate a desire to reject witness.'')
          else if has_hardfork 5 db then revote_hf5 n (\<lambda>vs. Inr (remove_row vote_key k vs)) (- 1) db
          else if has_hardfork 4 db then revote_hf4 n (\<lambda>vs. Inr (remove_row vote_key k vs)) (- 1) db
          else (case adjust_witness_vote (w_id witness) (- witness_vote_weight voter) db of Inl e \<Rightarrow> Inl e
            | Inr db1 \<Rightarrow>
            case count_vote n (- 1) db1 of Inl e \<Rightarrow> Inl e
            | Inr db2 \<Rightarrow> change_votes (\<lambda>vs. Inr (remove_row vote_key k vs)) db2))"

definition account_witness_vote_apply :: "account_witness_vote_operation \<Rightarrow> database \<Rightarrow> database result" where
  "account_witness_vote_apply o' db =
     (case get_account (wvo_account o') db of Inl e \<Rightarrow> Inl e
      | Inr account \<Rightarrow>
      case leave_proxy (wvo_account o') account db of Inl e \<Rightarrow> Inl e
      | Inr db1 \<Rightarrow>
      case get_witness (wvo_witness o') db1 of Inl e \<Rightarrow> Inl e
      | Inr witness \<Rightarrow>
      case get_account (wvo_account o') db1 of Inl e \<Rightarrow> Inl e
      | Inr voter \<Rightarrow> cast_or_withdraw o' voter witness db1)"

section \<open>Frames\<close>

text \<open>
  Everything here moves votes only: the books stay as they are, other tables too, and so does every
  view of the accounts that does not look at vote weights.
\<close>

definition votes_moved :: "(account_object \<Rightarrow> 'b) \<Rightarrow> database \<Rightarrow> database \<Rightarrow> bool" where
  "votes_moved g db db' = (keys_ok db' \<and> excess db' = excess db \<and> share_gap db' = share_gap db \<and> only_votes db db' \<and>
     map g (db_accounts db') = map g (db_accounts db))"

lemma votes_moved_trans: "votes_moved g a b \<Longrightarrow> votes_moved g b c \<Longrightarrow> votes_moved g a c"
  unfolding votes_moved_def using only_votes_trans by auto

lemma modify_account_votes_moved:
  assumes "modify_account n f db = Inr db'" and "keys_ok db"
    and "\<And>a a'. f a = Inr a' \<Longrightarrow> acc_name a' = acc_name a \<and> account_tokens a' = account_tokens a \<and>
           account_shares a' = account_shares a \<and> g a' = g a"
  shows "votes_moved g db db'"
  using modify_account_tokens [OF assms(1,2), of 0 0] modify_account_only [OF assms(1)]
    modify_account_view [OF assms(1,2), of g] assms(3) by (simp add: votes_moved_def)

lemma adjust_witness_votes_moved:
  "adjust_witness_votes n d db = Inr db' \<Longrightarrow> keys_ok db \<Longrightarrow> vote_free g \<Longrightarrow> votes_moved g db db'"
  using adjust_witness_votes_ledger [of n d db db'] adjust_witness_votes_frame [of n d db db' g]
  by (simp add: votes_moved_def)

lemma adjust_array_moved:
  "adjust_proxied_witness_votes_array n delta depth db = Inr db' \<Longrightarrow> keys_ok db \<Longrightarrow> vote_free g \<Longrightarrow> votes_moved g db db'"
proof (induction n delta depth db rule: adjust_proxied_witness_votes_array.induct)
  case (1 n delta depth db)
  from "1.prems"(1) obtain a where a: "get_account n db = Inr a"
    by (subst (asm) adjust_proxied_witness_votes_array.simps) (auto simp: case_sum_Inr)
  consider "acc_proxy a = []" | "acc_proxy a \<noteq> []" "CHAIN_MAX_PROXY_RECURSION_DEPTH \<le> depth"
    | "acc_proxy a \<noteq> []" "\<not> CHAIN_MAX_PROXY_RECURSION_DEPTH \<le> depth" by blast
  then show ?case
  proof cases
    case 1
    with "1.prems" a show ?thesis
      by (subst (asm) adjust_proxied_witness_votes_array.simps) (auto intro: adjust_witness_votes_moved)
  next
    case 2
    with "1.prems" a show ?thesis
      by (subst (asm) adjust_proxied_witness_votes_array.simps) (simp add: votes_moved_def)
  next
    case 3
    let ?f = "\<lambda>p. Inr (p\<lparr>acc_proxied_vsf_votes := add_proxied depth delta (acc_proxied_vsf_votes p)\<rparr>)"
    from 3 "1.prems"(1) a obtain db1 where
      m: "modify_account (acc_proxy a) ?f db = Inr db1" and
      r: "adjust_proxied_witness_votes_array (acc_proxy a) delta (depth + 1) db1 = Inr db'"
      by (subst (asm) adjust_proxied_witness_votes_array.simps) (auto simp: case_sum_Inr)
    have v: "votes_moved g db db1"
      by (rule modify_account_votes_moved [OF m "1.prems"(2)])
        (use "1.prems"(3) in \<open>auto simp: account_tokens_def account_shares_def vote_free_def\<close>)
    then have "keys_ok db1" by (simp add: votes_moved_def)
    from votes_moved_trans [OF v "1.IH" [OF a 3 m r this "1.prems"(3)]] show ?thesis .
  qed
qed

lemma adjust_witness_vote_moved:
  assumes "adjust_witness_vote i d db = Inr db'" and "keys_ok db"
  shows "votes_moved g db db'"
  using adjust_witness_vote_only [OF assms(1)] adjust_witness_vote_same [OF assms(1)] assms(2)
    same_ledger_moves [of db db'] by (simp add: votes_moved_def same_ledger_def)

lemma add_to_votes_moved:
  assumes "add_to_votes n w db = Inr db'" and "keys_ok db"
  shows "votes_moved g db db'"
proof -
  from assms(1) obtain ids d where f: "fold_result (\<lambda>i. adjust_witness_vote i d) ids db = Inr db'"
    unfolding add_to_votes_def case_sum_Inr by blast
  show ?thesis
    using fold_witness_votes_only [OF f] fold_witness_votes_same [OF f] assms(2) same_ledger_moves [of db db']
    by (simp add: votes_moved_def same_ledger_def)
qed

text \<open>The two ways in which a vote changes the state beyond that: the table of votes and the counter.\<close>

lemma revote_hf5_cases:
  assumes "revote_hf5 n f c db = Inr db'" and "keys_ok db" and "vote_free g"
  obtains db1 vs db3 where "votes_moved g db db1" and "f (db_witness_votes db1) = Inr vs"
    and "count_vote n c (db1\<lparr>db_witness_votes := vs\<rparr>) = Inr db3" and "keys_ok db3 \<Longrightarrow> votes_moved g db3 db'"
proof -
  from assms(1) obtain db1 db2 db3 db4 where a: "add_to_votes n (\<lambda>v. - acc_witnesses_vote_weight v) db = Inr db1"
    and b: "change_votes f db1 = Inr db2" and c: "count_vote n c db2 = Inr db3"
    and m: "modify_account n (\<lambda>a. Inr (a\<lparr>acc_witnesses_vote_weight := witness_vote_fair_weight a\<rparr>)) db3 = Inr db4"
    and d: "add_to_votes n acc_witnesses_vote_weight db4 = Inr db'"
    unfolding revote_hf5_def case_sum_Inr by blast
  from b obtain vs where vs: "f (db_witness_votes db1) = Inr vs" "db2 = db1\<lparr>db_witness_votes := vs\<rparr>"
    unfolding change_votes_def case_sum_Inr by blast
  have "votes_moved g db3 db'" if k: "keys_ok db3"
  proof -
    have v: "votes_moved g db3 db4"
      by (rule modify_account_votes_moved [OF m k])
        (use assms(3) in \<open>auto simp: account_tokens_def account_shares_def vote_free_def\<close>)
    then have "keys_ok db4" by (simp add: votes_moved_def)
    then show ?thesis using votes_moved_trans [OF v add_to_votes_moved [OF d]] by simp
  qed
  with add_to_votes_moved [OF a assms(2)] vs c that show ?thesis by blast
qed

lemma revote_hf4_cases:
  assumes "revote_hf4 n f c db = Inr db'" and "keys_ok db"
  obtains db1 vs db3 where "votes_moved g db db1" and "f (db_witness_votes db1) = Inr vs"
    and "count_vote n c (db1\<lparr>db_witness_votes := vs\<rparr>) = Inr db3" and "keys_ok db3 \<Longrightarrow> votes_moved g db3 db'"
proof -
  from assms(1) obtain db1 db2 db3 where a: "add_to_votes n (\<lambda>v. - witness_vote_fair_weight_prehf5 v) db = Inr db1"
    and b: "change_votes f db1 = Inr db2" and c: "count_vote n c db2 = Inr db3"
    and d: "add_to_votes n witness_vote_fair_weight_prehf5 db3 = Inr db'"
    unfolding revote_hf4_def case_sum_Inr by blast
  from b obtain vs where vs: "f (db_witness_votes db1) = Inr vs" "db2 = db1\<lparr>db_witness_votes := vs\<rparr>"
    unfolding change_votes_def case_sum_Inr by blast
  with add_to_votes_moved [OF a assms(2)] add_to_votes_moved [OF d] c that show ?thesis by blast
qed


section \<open>The number of votes\<close>

definition identity :: "account_object \<Rightarrow> account_name_type \<times> nat" where
  "identity a = (acc_name a, acc_id a)"

definition voted_for :: "account_name_type \<Rightarrow> database \<Rightarrow> int option" where
  "voted_for m db = map_option acc_witnesses_voted_for (find_row acc_name m (db_accounts db))"

text \<open>\<open>recounted n F\<close>: the books stay, accounts keep name and id, and only the counter of \<open>n\<close> moves, by \<open>F\<close>.\<close>

definition recounted :: "account_name_type \<Rightarrow> (int \<Rightarrow> int) \<Rightarrow> database \<Rightarrow> database \<Rightarrow> bool" where
  "recounted n F db db' = (keys_ok db' \<and> excess db' = excess db \<and> share_gap db' = share_gap db \<and>
     map identity (db_accounts db') = map identity (db_accounts db) \<and>
     (\<forall>m. voted_for m db' = map_option (if m = n then F else (\<lambda>x. x)) (voted_for m db)))"

lemma recounted_trans: "recounted n F a b \<Longrightarrow> recounted n G b c \<Longrightarrow> recounted n (\<lambda>x. G (F x)) a c"
  by (auto simp: recounted_def option.map_comp o_def)

lemma recounted_refl: "keys_ok db \<Longrightarrow> recounted n (\<lambda>x. x) db db"
  by (simp add: recounted_def option.map_ident)

lemma recounted_tables:
  "recounted n F db (db'\<lparr>db_witness_votes := vs\<rparr>) = recounted n F db db'"
  "recounted n F (db\<lparr>db_witness_votes := vs\<rparr>) db' = recounted n F db db'"
  by (simp_all add: recounted_def voted_for_def keys_ok_def excess_def token_total_def share_gap_def)

definition counted_view :: "account_object \<Rightarrow> account_name_type \<times> nat \<times> int" where
  "counted_view a = (acc_name a, acc_id a, acc_witnesses_voted_for a)"

lemma counted_view_vote_free: "vote_free counted_view"
  by (simp add: vote_free_def counted_view_def)

lemma voted_for_view:
  assumes "map counted_view (db_accounts db') = map counted_view (db_accounts db)"
  shows "voted_for m db' = voted_for m db" and "map identity (db_accounts db') = map identity (db_accounts db)"
proof -
  have "map_option counted_view (find_row acc_name m (db_accounts db')) = map_option counted_view (find_row acc_name m (db_accounts db))"
    by (rule find_row_view [OF assms]) (simp add: counted_view_def)
  then have "map_option (snd \<circ> snd) (map_option counted_view (find_row acc_name m (db_accounts db'))) =
      map_option (snd \<circ> snd) (map_option counted_view (find_row acc_name m (db_accounts db)))" by simp
  then show "voted_for m db' = voted_for m db"
    unfolding voted_for_def option.map_comp by (simp add: o_def counted_view_def)
  have "identity = (\<lambda>(n, i, _). (n, i)) \<circ> counted_view" by (auto simp: identity_def counted_view_def)
  with assms show "map identity (db_accounts db') = map identity (db_accounts db)" by (metis map_map)
qed

lemma votes_moved_recounted: "votes_moved counted_view db db' \<Longrightarrow> recounted n (\<lambda>x. x) db db'"
  using voted_for_view [of db' db] by (simp add: votes_moved_def recounted_def option.map_ident)

lemma modify_identity:
  assumes "modify_account n f db = Inr db'" and "keys_ok db"
    and "\<And>a a'. f a = Inr a' \<Longrightarrow> acc_name a' = acc_name a \<and> acc_id a' = acc_id a \<and> account_tokens a' = account_tokens a \<and>
           account_shares a' = account_shares a \<and> acc_witnesses_voted_for a' = F (acc_witnesses_voted_for a)"
  shows "recounted n F db db'"
proof -
  obtain a a' where a: "find_row acc_name n (db_accounts db) = Some a" and f: "f a = Inr a'"
    and m: "\<And>m. find_row acc_name m (db_accounts db') = (if m = n then Some a' else find_row acc_name m (db_accounts db))"
    by (rule modify_account_finds [OF assms(1)]) (use assms(3) in auto)
  then have "voted_for m db' = map_option (if m = n then F else (\<lambda>x. x)) (voted_for m db)" for m
    using assms(3) [OF f] by (simp add: voted_for_def option.map_ident)
  moreover have "map identity (db_accounts db') = map identity (db_accounts db)"
    by (rule modify_account_view [OF assms(1,2)]) (use assms(3) in \<open>auto simp: identity_def\<close>)
  ultimately show ?thesis
    using modify_account_tokens [OF assms(1,2), of 0 0] assms(3) by (simp add: recounted_def)
qed

lemma count_vote_recounted:
  "count_vote n c db = Inr db' \<Longrightarrow> keys_ok db \<Longrightarrow> recounted n (\<lambda>x. u16 (x + c)) db db' \<and> only_votes db db'"
  unfolding count_vote_def using modify_account_only
  by (auto elim!: modify_identity simp: account_tokens_def account_shares_def)

lemma recounted_keys: "recounted n F db db' \<Longrightarrow> keys_ok db'"
  by (simp add: recounted_def)

lemma only_votes_table: "only_votes db db' \<Longrightarrow> db_witness_votes db' = db_witness_votes db"
  using only_votes_fields by blast

text \<open>A vote that is cast or withdrawn, whatever the hardfork: one row of the table, one step of the counter.\<close>

lemma revote_effect:
  assumes "votes_moved counted_view db db1" and "f (db_witness_votes db1) = Inr vs"
    and "count_vote n c (db1\<lparr>db_witness_votes := vs\<rparr>) = Inr db3" and "keys_ok db3 \<Longrightarrow> votes_moved counted_view db3 db'"
  shows "recounted n (\<lambda>x. u16 (x + c)) db db' \<and> f (db_witness_votes db) = Inr (db_witness_votes db')"
proof -
  have k1: "keys_ok (db1\<lparr>db_witness_votes := vs\<rparr>)" using assms(1) by (simp add: votes_moved_def keys_ok_def)
  note c = count_vote_recounted [OF assms(3) k1]
  then have k3: "keys_ok db3" by (auto dest: recounted_keys)
  have "recounted n (\<lambda>x. u16 (x + c)) db db3"
    using recounted_trans [OF votes_moved_recounted [OF assms(1)] conjunct1 [OF c, unfolded recounted_tables]] .
  from recounted_trans [OF this votes_moved_recounted [OF assms(4) [OF k3]]]
  have "recounted n (\<lambda>x. u16 (x + c)) db db'" .
  moreover have "db_witness_votes db' = vs" "db_witness_votes db1 = db_witness_votes db"
    using only_votes_table c assms(4) [OF k3] assms(1) by (auto simp: votes_moved_def)
  ultimately show ?thesis using assms(2) by simp
qed

lemma cast_early:
  assumes "change_votes f db = Inr db2" and "adjust_witness_vote i w db2 = Inr db3" and "count_vote n c db3 = Inr db'"
    and "keys_ok db"
  shows "recounted n (\<lambda>x. u16 (x + c)) db db' \<and> f (db_witness_votes db) = Inr (db_witness_votes db')"
proof -
  from assms(1) obtain vs where vs: "f (db_witness_votes db) = Inr vs" "db2 = db\<lparr>db_witness_votes := vs\<rparr>"
    unfolding change_votes_def case_sum_Inr by blast
  have "keys_ok db2" using assms(4) vs by (simp add: keys_ok_def)
  note a = adjust_witness_vote_moved [OF assms(2) this, of counted_view]
  then have "keys_ok db3" by (simp add: votes_moved_def)
  note c = count_vote_recounted [OF assms(3) this]
  from recounted_trans [OF votes_moved_recounted [OF a] conjunct1 [OF c]] vs c a only_votes_table
  show ?thesis by (auto simp: recounted_tables votes_moved_def)
qed

lemma withdraw_early:
  assumes "adjust_witness_vote i w db = Inr db2" and "count_vote n c db2 = Inr db3" and "change_votes f db3 = Inr db'"
    and "keys_ok db"
  shows "recounted n (\<lambda>x. u16 (x + c)) db db' \<and> f (db_witness_votes db) = Inr (db_witness_votes db')"
proof -
  from assms(3) obtain vs where vs: "f (db_witness_votes db3) = Inr vs" "db' = db3\<lparr>db_witness_votes := vs\<rparr>"
    unfolding change_votes_def case_sum_Inr by blast
  note a = adjust_witness_vote_moved [OF assms(1,4), of counted_view]
  then have "keys_ok db2" by (simp add: votes_moved_def)
  note c = count_vote_recounted [OF assms(2) this]
  from recounted_trans [OF votes_moved_recounted [OF a] conjunct1 [OF c]] vs c a only_votes_table
  show ?thesis by (auto simp: recounted_tables votes_moved_def)
qed


lemma set_proxy_moved:
  "set_proxy n p db = Inr db' \<Longrightarrow> keys_ok db \<Longrightarrow> recounted n (\<lambda>x. x) db db' \<and> only_votes db db'"
  unfolding set_proxy_def using modify_account_only
  by (auto elim!: modify_identity simp: account_tokens_def account_shares_def)

lemma leave_proxy_moved:
  assumes "leave_proxy n a db = Inr db'" and "keys_ok db"
  shows "recounted n (\<lambda>x. x) db db' \<and> db_witness_votes db' = db_witness_votes db"
proof (cases "acc_proxy a = []")
  case True
  then show ?thesis using assms by (simp add: leave_proxy_def recounted_refl)
next
  case False
  then obtain db1 where m: "adjust_proxied_witness_votes_array n (negated_votes a) 0 db = Inr db1"
    and p: "set_proxy n [] db1 = Inr db'"
    using assms(1) by (auto simp: leave_proxy_def case_sum_Inr split: if_splits)
  note v = adjust_array_moved [OF m assms(2) counted_view_vote_free]
  then have "keys_ok db1" by (simp add: votes_moved_def)
  note s = set_proxy_moved [OF p this]
  from recounted_trans [OF votes_moved_recounted [OF v] conjunct1 [OF s]] s v only_votes_table
  show ?thesis by (auto simp: votes_moved_def)
qed

lemma identity_find:
  assumes "map identity (db_accounts db') = map identity (db_accounts db)" and "find_row acc_name n (db_accounts db') = Some a'"
  obtains a where "find_row acc_name n (db_accounts db) = Some a" and "acc_id a = acc_id a'" and "acc_name a = acc_name a'"
proof -
  have "map_option identity (find_row acc_name n (db_accounts db')) = map_option identity (find_row acc_name n (db_accounts db))"
    by (rule find_row_view [OF assms(1)]) (simp add: identity_def)
  with assms(2) that show ?thesis by (cases "find_row acc_name n (db_accounts db)") (auto simp: identity_def)
qed

lemma recounted_find:
  assumes "recounted n F db db'" and "find_row acc_name m (db_accounts db') = Some a'"
  obtains a where "find_row acc_name m (db_accounts db) = Some a" and "acc_id a = acc_id a'" and "acc_name a = acc_name a'"
    and "acc_witnesses_voted_for a' = (if m = n then F else (\<lambda>x. x)) (acc_witnesses_voted_for a)"
proof -
  have i: "map identity (db_accounts db') = map identity (db_accounts db)"
    and v: "voted_for m db' = map_option (if m = n then F else (\<lambda>x. x)) (voted_for m db)"
    using assms(1) by (auto simp: recounted_def)
  obtain a where "find_row acc_name m (db_accounts db) = Some a" "acc_id a = acc_id a'" "acc_name a = acc_name a'"
    by (rule identity_find [OF i assms(2)])
  with v assms(2) that show ?thesis by (auto simp: voted_for_def)
qed

text \<open>The decision of the evaluator once the proxy is out of the way.\<close>

definition decided :: "account_witness_vote_operation \<Rightarrow> account_object \<Rightarrow> nat \<Rightarrow> database \<Rightarrow> database \<Rightarrow> bool" where
  "decided o' voter w db db' =
     (recounted (wvo_account o') (\<lambda>x. u16 (x + 1)) db db' \<and> acc_witnesses_voted_for voter < CHAIN_MAX_ACCOUNT_WITNESS_VOTES \<and>
        create_row vote_key \<lparr>wvt_witness = w, wvt_account = acc_id voter\<rparr> (db_witness_votes db) = Inr (db_witness_votes db') \<or>
      recounted (wvo_account o') (\<lambda>x. u16 (x - 1)) db db' \<and>
        (\<exists>v. find_row vote_key (acc_id voter, w) (db_witness_votes db) = Some v) \<and>
        db_witness_votes db' = remove_row vote_key (acc_id voter, w) (db_witness_votes db))"

lemma revotes_effect:
  assumes "keys_ok db"
  shows "revote_hf5 n f c db = Inr db' \<Longrightarrow> recounted n (\<lambda>x. u16 (x + c)) db db' \<and> f (db_witness_votes db) = Inr (db_witness_votes db')"
    and "revote_hf4 n f c db = Inr db' \<Longrightarrow> recounted n (\<lambda>x. u16 (x + c)) db db' \<and> f (db_witness_votes db) = Inr (db_witness_votes db')"
  by (erule revote_hf5_cases [OF _ assms counted_view_vote_free]; rule revote_effect; assumption)
    (erule revote_hf4_cases [OF _ assms, where g = counted_view]; rule revote_effect; assumption)

lemma cast_or_withdraw_decided:
  assumes "cast_or_withdraw o' voter witness db = Inr db'" and "keys_ok db"
  shows "decided o' voter (w_id witness) db db'"
proof (cases "find_row vote_key (acc_id voter, w_id witness) (db_witness_votes db)")
  case None
  let ?f = "create_row vote_key \<lparr>wvt_witness = w_id witness, wvt_account = acc_id voter\<rparr>"
  from assms(1) None have l: "acc_witnesses_voted_for voter < CHAIN_MAX_ACCOUNT_WITNESS_VOTES"
    by (auto simp: cast_or_withdraw_def Let_def split: if_splits)
  from assms(1) None consider "revote_hf5 (wvo_account o') ?f 1 db = Inr db'" | "revote_hf4 (wvo_account o') ?f 1 db = Inr db'"
    | db1 db2 where "change_votes ?f db = Inr db1"
      "adjust_witness_vote (w_id witness) (witness_vote_weight voter) db1 = Inr db2" "count_vote (wvo_account o') 1 db2 = Inr db'"
    by (auto simp: cast_or_withdraw_def Let_def case_sum_Inr split: if_splits)
  then have "recounted (wvo_account o') (\<lambda>x. u16 (x + 1)) db db' \<and> ?f (db_witness_votes db) = Inr (db_witness_votes db')"
    by cases (use revotes_effect [OF assms(2)] cast_early [OF _ _ _ assms(2)] in blast)+
  with l show ?thesis by (simp add: decided_def)
next
  case (Some v)
  let ?f = "\<lambda>vs. Inr (remove_row vote_key (acc_id voter, w_id witness) vs) :: witness_vote_object list result"
  from assms(1) Some consider "revote_hf5 (wvo_account o') ?f (- 1) db = Inr db'" | "revote_hf4 (wvo_account o') ?f (- 1) db = Inr db'"
    | db1 db2 where "adjust_witness_vote (w_id witness) (- witness_vote_weight voter) db = Inr db1"
      "count_vote (wvo_account o') (- 1) db1 = Inr db2" "change_votes ?f db2 = Inr db'"
    by (auto simp: cast_or_withdraw_def Let_def case_sum_Inr split: if_splits)
  then have "recounted (wvo_account o') (\<lambda>x. u16 (x + - 1)) db db' \<and> ?f (db_witness_votes db) = Inr (db_witness_votes db')"
    by cases (use revotes_effect [OF assms(2)] withdraw_early [OF _ _ _ assms(2)] in blast)+
  with Some show ?thesis by (simp add: decided_def)
qed

lemma vote_effect:
  assumes "account_witness_vote_apply o' db = Inr db'" and "keys_ok db"
  obtains account db1 voter w where "find_row acc_name (wvo_account o') (db_accounts db) = Some account"
    and "leave_proxy (wvo_account o') account db = Inr db1"
    and "find_row acc_name (wvo_account o') (db_accounts db1) = Some voter" and "decided o' voter w db1 db'"
proof -
  from assms(1) obtain account db1 witness voter where
    a: "get_account (wvo_account o') db = Inr account" and l: "leave_proxy (wvo_account o') account db = Inr db1"
    and v: "get_account (wvo_account o') db1 = Inr voter" and c: "cast_or_withdraw o' voter witness db1 = Inr db'"
    unfolding account_witness_vote_apply_def case_sum_Inr by blast
  have "keys_ok db1" using leave_proxy_moved [OF l assms(2)] by (auto dest: recounted_keys)
  from that [OF _ l _ cast_or_withdraw_decided [OF c this]] a v show ?thesis by (simp add: get_account_Inr)
qed


definition votes_by :: "nat \<Rightarrow> database \<Rightarrow> int" where
  "votes_by i db = int (length (filter (\<lambda>v. wvt_account v = i) (db_witness_votes db)))"

definition votes_counted :: "database \<Rightarrow> bool" where
  "votes_counted db = (keys_ok db \<and> unique_keys acc_id (db_accounts db) \<and> unique_keys vote_key (db_witness_votes db) \<and>
     (\<forall>a \<in> set (db_accounts db). acc_witnesses_voted_for a = votes_by (acc_id a) db \<and>
        votes_by (acc_id a) db \<le> CHAIN_MAX_ACCOUNT_WITNESS_VOTES))"

lemma unique_ids:
  "map identity (db_accounts db') = map identity (db_accounts db) \<Longrightarrow>
     unique_keys acc_id (db_accounts db') = unique_keys acc_id (db_accounts db)"
proof -
  have "map acc_id xs = map snd (map identity xs)" for xs by (simp add: identity_def)
  then show "map identity (db_accounts db') = map identity (db_accounts db) \<Longrightarrow> ?thesis"
    by (simp only: unique_keys_def)
qed

lemma recounted_votes_counted:
  assumes "recounted n F db db'" and "votes_counted db" and "unique_keys vote_key (db_witness_votes db')"
    and "\<And>a. find_row acc_name n (db_accounts db) = Some a \<Longrightarrow>
      F (acc_witnesses_voted_for a) = votes_by (acc_id a) db' \<and> votes_by (acc_id a) db' \<le> CHAIN_MAX_ACCOUNT_WITNESS_VOTES"
    and "\<And>a. a \<in> set (db_accounts db) \<Longrightarrow> acc_name a \<noteq> n \<Longrightarrow> votes_by (acc_id a) db' = votes_by (acc_id a) db"
  shows "votes_counted db'"
proof -
  have k: "keys_ok db'" and i: "map identity (db_accounts db') = map identity (db_accounts db)"
    using assms(1) by (auto simp: recounted_def)
  have "acc_witnesses_voted_for a' = votes_by (acc_id a') db' \<and> votes_by (acc_id a') db' \<le> CHAIN_MAX_ACCOUNT_WITNESS_VOTES"
    if a': "a' \<in> set (db_accounts db')" for a'
  proof -
    have "find_row acc_name (acc_name a') (db_accounts db') = Some a'"
      using k a' by (intro find_row_unique) (simp_all add: keys_ok_def)
    then obtain a where a: "find_row acc_name (acc_name a') (db_accounts db) = Some a" "acc_id a = acc_id a'" "acc_name a = acc_name a'"
      and c: "acc_witnesses_voted_for a' = (if acc_name a' = n then F else (\<lambda>x. x)) (acc_witnesses_voted_for a)"
      by (rule recounted_find [OF assms(1)])
    show ?thesis
    proof (cases "acc_name a' = n")
      case True
      then show ?thesis using assms(4) [of a] a c by simp
    next
      case False
      then show ?thesis using assms(5) [OF find_row_set [OF a(1)]] find_row_set [OF a(1)] assms(2) a c
        by (auto simp: votes_counted_def)
    qed
  qed
  then show ?thesis using k unique_ids [OF i] assms(2,3) by (simp add: votes_counted_def)
qed

lemma votes_by_same: "db_witness_votes db' = db_witness_votes db \<Longrightarrow> votes_by i db' = votes_by i db"
  by (simp add: votes_by_def)

lemma moved_votes_counted:
  assumes "recounted n (\<lambda>x. x) db db'" and "db_witness_votes db' = db_witness_votes db" and "votes_counted db"
  shows "votes_counted db'"
proof (rule recounted_votes_counted [OF assms(1,3)])
  show "unique_keys vote_key (db_witness_votes db')" using assms(2,3) by (simp add: votes_counted_def)
  show "acc_witnesses_voted_for a = votes_by (acc_id a) db' \<and> votes_by (acc_id a) db' \<le> CHAIN_MAX_ACCOUNT_WITNESS_VOTES"
    if "find_row acc_name n (db_accounts db) = Some a" for a
    using find_row_set [OF that] assms(3) unfolding votes_by_same [OF assms(2)] votes_counted_def by blast
qed (rule votes_by_same [OF assms(2)])

text \<open>Another account has another id.\<close>

lemma other_id:
  assumes "votes_counted db" and "find_row acc_name n (db_accounts db) = Some v" and "a \<in> set (db_accounts db)" and "acc_name a \<noteq> n"
  shows "acc_id a \<noteq> acc_id v"
proof
  assume "acc_id a = acc_id v"
  moreover have "unique_keys acc_id (db_accounts db)" using assms(1) by (simp add: votes_counted_def)
  ultimately have "a = v"
    using find_row_unique [of acc_id "db_accounts db"] find_row_set [OF assms(2)] assms(3) by (metis option.inject)
  then show False using find_row_key [OF assms(2)] assms(4) by simp
qed

lemma votes_by_total: "votes_by j db = total (\<lambda>v. if wvt_account v = j then 1 else 0) (db_witness_votes db)"
proof -
  have "int (length (filter (\<lambda>v. wvt_account v = j) vs)) = total (\<lambda>v. if wvt_account v = j then 1 else 0) vs" for vs
    by (induction vs) auto
  then show ?thesis by (simp add: votes_by_def)
qed

lemma votes_by_create:
  assumes "create_row vote_key \<lparr>wvt_witness = w, wvt_account = i\<rparr> (db_witness_votes db) = Inr (db_witness_votes db')"
  shows "votes_by j db' = votes_by j db + (if j = i then 1 else 0)"
  unfolding votes_by_total rows.sum_create [OF assms] by auto

lemma votes_by_remove:
  assumes "db_witness_votes db' = remove_row vote_key (i, w) (db_witness_votes db)"
    and "find_row vote_key (i, w) (db_witness_votes db) = Some v" and "unique_keys vote_key (db_witness_votes db)"
  shows "votes_by j db' = votes_by j db - (if j = i then 1 else 0)"
  unfolding votes_by_total assms(1) rows.sum_remove [OF assms(3,2)]
  using find_row_key [OF assms(2)] by (auto simp: vote_key_def)

lemma decided_votes_counted:
  assumes "decided o' voter w db db'" and "find_row acc_name (wvo_account o') (db_accounts db) = Some voter" and "votes_counted db"
  shows "votes_counted db'"
  using assms(1) unfolding decided_def
proof (elim disjE conjE exE)
  have v: "acc_witnesses_voted_for voter = votes_by (acc_id voter) db" "votes_by (acc_id voter) db \<le> CHAIN_MAX_ACCOUNT_WITNESS_VOTES"
    and u: "unique_keys vote_key (db_witness_votes db)"
    using assms(3) find_row_set [OF assms(2)] by (auto simp: votes_counted_def)
  have pos: "0 \<le> votes_by (acc_id voter) db" by (simp add: votes_by_def)
  { assume r: "recounted (wvo_account o') (\<lambda>x. u16 (x + 1)) db db'"
      and l: "acc_witnesses_voted_for voter < CHAIN_MAX_ACCOUNT_WITNESS_VOTES"
      and c: "create_row vote_key \<lparr>wvt_witness = w, wvt_account = acc_id voter\<rparr> (db_witness_votes db) = Inr (db_witness_votes db')"
    show "votes_counted db'"
    proof (rule recounted_votes_counted [OF r assms(3) rows.invar_create [OF u c]])
      fix a assume "find_row acc_name (wvo_account o') (db_accounts db) = Some a"
      then show "u16 (acc_witnesses_voted_for a + 1) = votes_by (acc_id a) db' \<and> votes_by (acc_id a) db' \<le> CHAIN_MAX_ACCOUNT_WITNESS_VOTES"
        using assms(2) l v pos by (simp add: votes_by_create [OF c] u16_def)
    next
      fix a assume "a \<in> set (db_accounts db)" "acc_name a \<noteq> wvo_account o'"
      then show "votes_by (acc_id a) db' = votes_by (acc_id a) db"
        using other_id [OF assms(3,2)] by (simp add: votes_by_create [OF c])
    qed }
  { fix x assume r: "recounted (wvo_account o') (\<lambda>x. u16 (x - 1)) db db'"
      and d: "db_witness_votes db' = remove_row vote_key (acc_id voter, w) (db_witness_votes db)"
      and x: "find_row vote_key (acc_id voter, w) (db_witness_votes db) = Some x"
    note n = votes_by_remove [OF d x u]
    have one: "0 \<le> votes_by (acc_id voter) db'" by (simp add: votes_by_def)
    show "votes_counted db'"
    proof (rule recounted_votes_counted [OF r assms(3)])
      show "unique_keys vote_key (db_witness_votes db')" using u d by (simp add: unique_keys_remove_row)
      fix a assume "find_row acc_name (wvo_account o') (db_accounts db) = Some a"
      then show "u16 (acc_witnesses_voted_for a - 1) = votes_by (acc_id a) db' \<and> votes_by (acc_id a) db' \<le> CHAIN_MAX_ACCOUNT_WITNESS_VOTES"
        using assms(2) v one by (simp add: n u16_def)
    next
      fix a assume "a \<in> set (db_accounts db)" "acc_name a \<noteq> wvo_account o'"
      then show "votes_by (acc_id a) db' = votes_by (acc_id a) db"
        using other_id [OF assms(3,2)] by (simp add: n)
    qed }
qed

lemma vote_votes_counted:
  assumes "account_witness_vote_apply o' db = Inr db'" and "votes_counted db"
  shows "votes_counted db'"
proof -
  have k: "keys_ok db" using assms(2) by (simp add: votes_counted_def)
  obtain account db1 voter w where l: "leave_proxy (wvo_account o') account db = Inr db1"
    and v: "find_row acc_name (wvo_account o') (db_accounts db1) = Some voter" and d: "decided o' voter w db1 db'"
    using assms(1) k by (rule vote_effect)
  have "votes_counted db1" using leave_proxy_moved [OF l k] assms(2) by (blast intro: moved_votes_counted)
  from decided_votes_counted [OF d v this] show ?thesis .
qed


section \<open>Naming a proxy\<close>

lemma clear_witness_votes_effect:
  assumes "clear_witness_votes n db = Inr db'" and "keys_ok db"
  obtains a :: account_object where "find_row acc_name n (db_accounts db) = Some a" and "recounted n (\<lambda>_. 0) db db'"
    and "db_witness_votes db' = filter (\<lambda>v. wvt_account v \<noteq> acc_id a) (db_witness_votes db)"
proof -
  from assms(1) obtain a :: account_object where a: "get_account n db = Inr a"
    and m: "modify_account n (\<lambda>acc. Inr (acc\<lparr>acc_witnesses_voted_for := 0,
            acc_witnesses_vote_weight := if has_hardfork 5 db then 0 else acc_witnesses_vote_weight acc\<rparr>))
          (db\<lparr>db_witness_votes := filter (\<lambda>v. wvt_account v \<noteq> acc_id a) (db_witness_votes db)\<rparr>) = Inr db'"
    unfolding clear_witness_votes_def case_sum_Inr by blast
  have "keys_ok (db\<lparr>db_witness_votes := filter (\<lambda>v. wvt_account v \<noteq> acc_id a) (db_witness_votes db)\<rparr>)"
    using assms(2) by (simp add: keys_ok_def)
  from modify_identity [OF m this, of "\<lambda>_. 0"] have "recounted n (\<lambda>_. 0) db db'"
    by (auto simp: account_tokens_def account_shares_def recounted_tables)
  with a only_votes_table [OF modify_account_only [OF m]] that show ?thesis by (simp add: get_account_Inr)
qed

lemma clear_witness_votes_counted:
  assumes "clear_witness_votes n db = Inr db'" and "votes_counted db"
  shows "votes_counted db'"
proof -
  have "keys_ok db" using assms(2) by (simp add: votes_counted_def)
  then obtain a :: account_object where a: "find_row acc_name n (db_accounts db) = Some a" and r: "recounted n (\<lambda>_. 0) db db'"
    and v: "db_witness_votes db' = filter (\<lambda>v. wvt_account v \<noteq> acc_id a) (db_witness_votes db)"
    by (rule clear_witness_votes_effect [OF assms(1)])
  have n: "votes_by j db' = (if j = acc_id a then 0 else votes_by j db)" for j
    by (auto simp: votes_by_def v intro!: arg_cong [of _ _ length] filter_cong)
  show ?thesis
  proof (rule recounted_votes_counted [OF r assms(2)])
    show "unique_keys vote_key (db_witness_votes db')"
      using assms(2) by (simp add: votes_counted_def v unique_keys_def distinct_map_filter)
    show "votes_by (acc_id b) db' = votes_by (acc_id b) db" if "b \<in> set (db_accounts db)" "acc_name b \<noteq> n" for b
      using other_id [OF assms(2) a that] by (simp add: n)
  qed (use a in \<open>auto simp: n\<close>)
qed

text \<open>The parts of a successful change of proxy.\<close>

lemma proxy_cases:
  assumes "account_witness_proxy_apply o' db = Inr db'"
  obtains (name) account db1 new_proxy db2 db3 where "find_row acc_name (wp_account o') (db_accounts db) = Some account"
      and "adjust_proxied_witness_votes_array (wp_account o') (negated_votes account) 0 db = Inr db1"
      and "find_row acc_name (wp_proxy o') (db_accounts db1) = Some new_proxy" and "wp_proxy o' \<noteq> []"
      and "check_proxy_chain (flat_insert (acc_id new_proxy) [acc_id account]) new_proxy db1 = Inr ()"
      and "clear_witness_votes (wp_account o') db1 = Inr db2" and "set_proxy (wp_account o') (wp_proxy o') db2 = Inr db3"
      and "adjust_proxied_witness_votes_array (wp_account o') (map uminus (negated_votes account)) 0 db3 = Inr db'"
  | (drop) account db1 where "adjust_proxied_witness_votes_array (wp_account o') (negated_votes account) 0 db = Inr db1"
      and "set_proxy (wp_account o') [] db1 = Inr db'"
proof -
  from assms obtain account db1 where a: "get_account (wp_account o') db = Inr account"
    and m: "adjust_proxied_witness_votes_array (wp_account o') (negated_votes account) 0 db = Inr db1"
    and r: "if wp_proxy o' \<noteq> [] then \<exists>new_proxy db2 db3. get_account (wp_proxy o') db1 = Inr new_proxy \<and>
        check_proxy_chain (flat_insert (acc_id new_proxy) [acc_id account]) new_proxy db1 = Inr () \<and>
        clear_witness_votes (wp_account o') db1 = Inr db2 \<and> set_proxy (wp_account o') (wp_proxy o') db2 = Inr db3 \<and>
        adjust_proxied_witness_votes_array (wp_account o') (map uminus (negated_votes account)) 0 db3 = Inr db'
      else set_proxy (wp_account o') (wp_proxy o') db1 = Inr db'"
    unfolding account_witness_proxy_apply_def case_sum_Inr if_Inl_Inr Let_def
    by (elim exE conjE) (rule that; auto simp: case_sum_Inr split: if_splits)
  show ?thesis
  proof (cases "wp_proxy o' = []")
    case True
    with r m show ?thesis by (auto intro: drop)
  next
    case False
    with r a m show ?thesis by (auto simp: get_account_Inr intro: name)
  qed
qed

lemma moved_kept:
  assumes "votes_moved counted_view db db'" and "votes_counted db"
  shows "votes_counted db'"
  using moved_votes_counted [OF votes_moved_recounted [OF assms(1)] _ assms(2)] assms(1) only_votes_table
  by (auto simp: votes_moved_def)

lemma votes_counted_keys: "votes_counted db \<Longrightarrow> keys_ok db"
  by (simp add: votes_counted_def)

lemma set_proxy_kept: "set_proxy n p db = Inr db' \<Longrightarrow> votes_counted db \<Longrightarrow> votes_counted db'"
  using set_proxy_moved only_votes_table moved_votes_counted votes_counted_keys by blast

lemma adjust_array_kept:
  "adjust_proxied_witness_votes_array n delta 0 db = Inr db' \<Longrightarrow> votes_counted db \<Longrightarrow> votes_counted db'"
  using adjust_array_moved [OF _ _ counted_view_vote_free] moved_kept votes_counted_keys by blast

lemma proxy_votes_counted:
  assumes "account_witness_proxy_apply o' db = Inr db'" and "votes_counted db"
  shows "votes_counted db'"
  using assms(1)
proof (cases rule: proxy_cases)
  case name
  then show ?thesis using assms(2) by (metis adjust_array_kept clear_witness_votes_counted set_proxy_kept)
next
  case drop
  then show ?thesis using assms(2) adjust_array_kept set_proxy_kept by blast
qed


section \<open>Proxies have no cycles\<close>

text \<open>Who is represented by whom.\<close>

definition proxies :: "database \<Rightarrow> (account_name_type \<times> account_name_type) set" where
  "proxies db = {(acc_name a, acc_proxy a) | a. a \<in> set (db_accounts db) \<and> acc_proxy a \<noteq> []}"

definition proxy_view :: "account_object \<Rightarrow> account_name_type \<times> nat \<times> account_name_type" where
  "proxy_view a = (acc_name a, acc_id a, acc_proxy a)"

lemma proxy_view_vote_free: "vote_free proxy_view"
  by (simp add: vote_free_def proxy_view_def)

lemma proxies_view:
  assumes "map proxy_view (db_accounts db') = map proxy_view (db_accounts db)"
  shows "proxies db' = proxies db"
proof -
  have p: "proxies db = {(n, p). (\<exists>i. (n, i, p) \<in> set (map proxy_view (db_accounts db))) \<and> p \<noteq> []}" for db
    by (auto simp: proxies_def proxy_view_def image_iff)
  show ?thesis unfolding p assms ..
qed

lemma proxies_find:
  assumes "keys_ok db" and "(n, p) \<in> proxies db"
  obtains a where "find_row acc_name n (db_accounts db) = Some a" and "acc_proxy a = p" and "p \<noteq> []"
proof -
  from assms(2) obtain a where a: "a \<in> set (db_accounts db)" "acc_name a = n" "acc_proxy a = p" "p \<noteq> []"
    by (auto simp: proxies_def)
  have "find_row acc_name (acc_name a) (db_accounts db) = Some a"
    using assms(1) a(1) by (intro find_row_unique) (simp_all add: keys_ok_def)
  with a that show ?thesis by simp
qed

lemma set_proxy_proxies:
  assumes "set_proxy n p db = Inr db'" and "keys_ok db"
  shows "proxies db' \<subseteq> {(m, q) \<in> proxies db. m \<noteq> n} \<union> (if p = [] then {} else {(n, p)})"
proof
  fix e assume e: "e \<in> proxies db'"
  obtain m q where mq: "e = (m, q)" by (cases e)
  have k': "keys_ok db'" using set_proxy_moved [OF assms] by (auto dest: recounted_keys)
  obtain b where b: "find_row acc_name m (db_accounts db') = Some b" "acc_proxy b = q" "q \<noteq> []"
    using e mq by (auto elim: proxies_find [OF k'])
  obtain a where f: "\<And>m. find_row acc_name m (db_accounts db') = (if m = n then Some (a\<lparr>acc_proxy := p\<rparr>) else find_row acc_name m (db_accounts db))"
    by (rule modify_account_finds [OF assms(1) [unfolded set_proxy_def]]) auto
  show "e \<in> {(m, q) \<in> proxies db. m \<noteq> n} \<union> (if p = [] then {} else {(n, p)})"
    using b f [of m] mq find_row_set [of acc_name m "db_accounts db" b] find_row_key [of acc_name m "db_accounts db" b]
    by (auto simp: proxies_def split: if_splits)
qed

text \<open>An accepted chain is the whole path: no account on it has an id that was in the chain before.\<close>

lemma check_proxy_chain_path:
  assumes "check_proxy_chain chain c db = Inr ()" and "keys_ok db"
    and "find_row acc_name n (db_accounts db) = Some c" and "(n, m) \<in> (proxies db)\<^sup>+"
  shows "\<exists>b. find_row acc_name m (db_accounts db) = Some b \<and> acc_id b \<notin> set chain"
  using assms
proof (induction chain c db arbitrary: n rule: check_proxy_chain.induct)
  case (1 chain c db)
  from "1.prems"(4) obtain q where q: "(n, q) \<in> proxies db" "(q, m) \<in> (proxies db)\<^sup>*" by (meson tranclD)
  then have "acc_proxy c = q" "q \<noteq> []" using "1.prems"(2,3) by (auto elim: proxies_find)
  then obtain b where b: "get_account q db = Inr b" and new: "acc_id b \<notin> set chain"
    and len: "length (flat_insert (acc_id b) chain) \<le> CHAIN_MAX_PROXY_RECURSION_DEPTH"
    and r: "check_proxy_chain (flat_insert (acc_id b) chain) b db = Inr ()"
    using "1.prems"(1) by (subst (asm) check_proxy_chain.simps) (auto simp: case_sum_Inr split: if_splits)
  then have fb: "find_row acc_name q (db_accounts db) = Some b" by (simp add: get_account_Inr)
  show ?case
  proof (cases "q = m")
    case True
    then show ?thesis using fb new by blast
  next
    case False
    then have "(q, m) \<in> (proxies db)\<^sup>+" using q(2) by (simp add: rtrancl_eq_or_trancl)
    then have "\<exists>d. find_row acc_name m (db_accounts db) = Some d \<and> acc_id d \<notin> set (flat_insert (acc_id b) chain)"
      using \<open>acc_proxy c = q\<close> \<open>q \<noteq> []\<close> b new len r "1.prems"(2) fb by (intro "1.IH" [of b q]) simp_all
    then show ?thesis unfolding set_flat_insert by blast
  qed
qed

lemma proxy_moved_proxies: "votes_moved proxy_view db db' \<Longrightarrow> proxies db' = proxies db"
  unfolding votes_moved_def by (elim conjE) (rule proxies_view)

lemma clear_witness_votes_proxies:
  assumes "clear_witness_votes n db = Inr db'" and "keys_ok db"
  shows "proxies db' = proxies db"
proof -
  from assms(1) obtain vs where m: "modify_account n (\<lambda>acc. Inr (acc\<lparr>acc_witnesses_voted_for := 0,
            acc_witnesses_vote_weight := if has_hardfork 5 db then 0 else acc_witnesses_vote_weight acc\<rparr>))
          (db\<lparr>db_witness_votes := vs\<rparr>) = Inr db'"
    unfolding clear_witness_votes_def case_sum_Inr by blast
  have "keys_ok (db\<lparr>db_witness_votes := vs\<rparr>)" using assms(2) by (simp add: keys_ok_def)
  from modify_account_view [OF m this, of proxy_view]
  have "map proxy_view (db_accounts db') = map proxy_view (db_accounts db)" by (auto simp: proxy_view_def)
  then show ?thesis by (rule proxies_view)
qed

lemma proxy_acyclic:
  assumes "account_witness_proxy_apply o' db = Inr db'" and "wp_proxy o' \<noteq> wp_account o'" and "keys_ok db" and "acyclic (proxies db)"
  shows "acyclic (proxies db')"
  using assms(1)
proof (cases rule: proxy_cases)
  case (name account db1 new_proxy db2 db3)
  let ?n = "wp_account o'" and ?p = "wp_proxy o'"
  note v1 = adjust_array_moved [OF name(2) assms(3) proxy_view_vote_free]
  have k1: "keys_ok db1" and p1: "proxies db1 = proxies db" using v1 by (auto simp: votes_moved_def proxy_moved_proxies)
  have k2: "keys_ok db2" using clear_witness_votes_ledger [OF name(6) k1] by simp
  have p2: "proxies db2 = proxies db" using clear_witness_votes_proxies [OF name(6) k1] p1 by simp
  have k3: "keys_ok db3" using set_proxy_moved [OF name(7) k2] by (auto dest: recounted_keys)
  have p': "proxies db' = proxies db3"
    by (rule proxy_moved_proxies [OF adjust_array_moved [OF name(8) k3 proxy_view_vote_free]])
  have sub: "proxies db' \<subseteq> insert (?n, ?p) (proxies db)"
    using set_proxy_proxies [OF name(7) k2] p2 p' name(4) by auto
  have "(?p, ?n) \<notin> (proxies db)\<^sup>*"
  proof
    assume "(?p, ?n) \<in> (proxies db)\<^sup>*"
    then have "(?p, ?n) \<in> (proxies db1)\<^sup>+" using assms(2) p1 by (simp add: rtrancl_eq_or_trancl)
    from check_proxy_chain_path [OF name(5) k1 name(3) this] obtain b
      where b: "find_row acc_name ?n (db_accounts db1) = Some b" "acc_id b \<noteq> acc_id account"
      unfolding set_flat_insert by auto
    have "map_option proxy_view (find_row acc_name ?n (db_accounts db1)) = map_option proxy_view (find_row acc_name ?n (db_accounts db))"
      using v1 by (intro find_row_view) (auto simp: votes_moved_def proxy_view_def)
    with b name(1) show False by (simp add: proxy_view_def)
  qed
  with assms(4) have "acyclic (insert (?n, ?p) (proxies db))" by (simp add: acyclic_insert)
  then show ?thesis using sub by (rule acyclic_subset)
next
  case (drop account db1)
  note v1 = adjust_array_moved [OF drop(1) assms(3) proxy_view_vote_free]
  have "proxies db' \<subseteq> proxies db"
    using set_proxy_proxies [OF drop(2)] v1 proxy_moved_proxies [OF v1] by (auto simp: votes_moved_def)
  with assms(4) show ?thesis by (rule acyclic_subset)
qed


lemma count_vote_proxies:
  assumes "count_vote n c db = Inr db'" and "keys_ok db"
  shows "proxies db' = proxies db \<and> keys_ok db'"
proof -
  have "map proxy_view (db_accounts db') = map proxy_view (db_accounts db)"
    by (rule modify_account_view [OF assms(1) [unfolded count_vote_def] assms(2)]) (auto simp: proxy_view_def)
  then show ?thesis using proxies_view count_vote_recounted [OF assms] recounted_keys by blast
qed

lemma change_votes_proxies: "change_votes f db = Inr db' \<Longrightarrow> keys_ok db \<Longrightarrow> proxies db' = proxies db \<and> keys_ok db'"
  by (auto simp: change_votes_def case_sum_Inr proxies_def keys_ok_def)

lemma adjust_witness_vote_proxies:
  "adjust_witness_vote i d db = Inr db' \<Longrightarrow> keys_ok db \<Longrightarrow> proxies db' = proxies db \<and> keys_ok db'"
  using adjust_witness_vote_moved [where g = proxy_view] proxy_moved_proxies by (auto simp: votes_moved_def)

lemma revote_proxies:
  assumes "votes_moved proxy_view db db1" and "f (db_witness_votes db1) = Inr vs"
    and "count_vote n c (db1\<lparr>db_witness_votes := vs\<rparr>) = Inr db3" and "keys_ok db3 \<Longrightarrow> votes_moved proxy_view db3 db'"
  shows "proxies db' = proxies db"
proof -
  have "keys_ok (db1\<lparr>db_witness_votes := vs\<rparr>)" using assms(1) by (simp add: votes_moved_def keys_ok_def)
  from count_vote_proxies [OF assms(3) this] have "proxies db3 = proxies db1" "keys_ok db3" by (auto simp: proxies_def)
  then show ?thesis using proxy_moved_proxies [OF assms(1)] proxy_moved_proxies [OF assms(4)] by simp
qed

lemma cast_or_withdraw_proxies:
  assumes "cast_or_withdraw o' voter witness db = Inr db'" and "keys_ok db"
  shows "proxies db' = proxies db"
proof -
  let ?n = "wvo_account o'"
  from assms(1) consider f c where "revote_hf5 ?n f c db = Inr db'" | f c where "revote_hf4 ?n f c db = Inr db'"
    | f i w c db1 db2 where "change_votes f db = Inr db1" "adjust_witness_vote i w db1 = Inr db2" "count_vote ?n c db2 = Inr db'"
    | f i w c db1 db2 where "adjust_witness_vote i w db = Inr db1" "count_vote ?n c db1 = Inr db2" "change_votes f db2 = Inr db'"
    by (auto simp: cast_or_withdraw_def Let_def case_sum_Inr split: if_splits option.splits)
  then show ?thesis
  proof cases
    case 1
    then show ?thesis by (rule revote_hf5_cases [OF _ assms(2) proxy_view_vote_free]) (rule revote_proxies)
  next
    case 2
    then show ?thesis by (rule revote_hf4_cases [OF _ assms(2), where g = proxy_view]) (rule revote_proxies)
  next
    case 3
    then show ?thesis using assms(2) change_votes_proxies adjust_witness_vote_proxies count_vote_proxies by metis
  next
    case 4
    then show ?thesis using assms(2) change_votes_proxies adjust_witness_vote_proxies count_vote_proxies by metis
  qed
qed

lemma leave_proxy_proxies:
  assumes "leave_proxy n a db = Inr db'" and "keys_ok db"
  shows "proxies db' \<subseteq> proxies db"
proof (cases "acc_proxy a = []")
  case True
  then show ?thesis using assms(1) by (simp add: leave_proxy_def)
next
  case False
  then obtain db1 where m: "adjust_proxied_witness_votes_array n (negated_votes a) 0 db = Inr db1" and p: "set_proxy n [] db1 = Inr db'"
    using assms(1) by (auto simp: leave_proxy_def case_sum_Inr split: if_splits)
  note v = adjust_array_moved [OF m assms(2) proxy_view_vote_free]
  then show ?thesis using set_proxy_proxies [OF p] proxy_moved_proxies [OF v] by (auto simp: votes_moved_def)
qed

lemma vote_proxies:
  assumes "account_witness_vote_apply o' db = Inr db'" and "keys_ok db"
  shows "proxies db' \<subseteq> proxies db"
proof -
  from assms(1) obtain account db1 voter witness where l: "leave_proxy (wvo_account o') account db = Inr db1"
    and c: "cast_or_withdraw o' voter witness db1 = Inr db'"
    unfolding account_witness_vote_apply_def case_sum_Inr by blast
  have "keys_ok db1" using leave_proxy_moved [OF l assms(2)] by (auto dest: recounted_keys)
  from cast_or_withdraw_proxies [OF c this] leave_proxy_proxies [OF l assms(2)] show ?thesis by simp
qed

section \<open>Runs\<close>

inductive voting_step :: "database \<Rightarrow> database \<Rightarrow> bool" where
  vote: "account_witness_vote_apply o' db = Inr db' \<Longrightarrow> voting_step db db'"
| proxy: "validate_account_witness_proxy o' = Inr () \<Longrightarrow> account_witness_proxy_apply o' db = Inr db' \<Longrightarrow> voting_step db db'"

inductive_cases voting_stepE: "voting_step db db'"

lemma voting_step_counted: "voting_step db db' \<Longrightarrow> votes_counted db \<Longrightarrow> votes_counted db'"
  by (auto elim!: voting_stepE intro: vote_votes_counted proxy_votes_counted)

lemma voting_step_acyclic:
  assumes "voting_step db db'" and "keys_ok db" and "acyclic (proxies db)"
  shows "acyclic (proxies db')"
  using assms(1)
proof (rule voting_stepE)
  fix o' assume "account_witness_vote_apply o' db = Inr db'"
  from vote_proxies [OF this assms(2)] assms(3) show ?thesis by (rule_tac acyclic_subset)
next
  fix o' assume v: "validate_account_witness_proxy o' = Inr ()" and a: "account_witness_proxy_apply o' db = Inr db'"
  from v have "wp_proxy o' \<noteq> wp_account o'" by (simp add: validate_account_witness_proxy_def run_simps)
  from proxy_acyclic [OF a this assms(2,3)] show ?thesis .
qed

text \<open>C24: proxies never form a cycle: after any run of votes and changes of proxy, nobody is represented by
  himself, directly or through others, so the passing on of stake along proxies ends.\<close>

theorem proxies_never_cycle:
  assumes "voting_step\<^sup>*\<^sup>* db db'" and "votes_counted db" and "acyclic (proxies db)"
  shows "acyclic (proxies db')"
proof -
  from assms have "votes_counted db' \<and> acyclic (proxies db')"
    by (induction rule: rtranclp_induct)
      (auto dest: voting_step_counted voting_step_acyclic [OF _ votes_counted_keys])
  then show ?thesis ..
qed

text \<open>C25: the sixteen-bit counter of an account is exactly the number of its vote objects and never exceeds the
  limit of 100 votes, so that it cannot wrap around; names and ids of accounts stay unique.\<close>

theorem witness_votes_counted:
  assumes "voting_step\<^sup>*\<^sup>* db db'" and "votes_counted db"
  shows "votes_counted db'"
  using assms by (induction rule: rtranclp_induct) (auto dest: voting_step_counted)


section \<open>The ledger\<close>

lemma account_witness_vote_ledger [ledger]:
  assumes "account_witness_vote_apply o' db = Inr db'" and "keys_ok db"
  shows "keys_ok db' \<and> excess db' = excess db \<and> share_gap db' = share_gap db"
proof -
  obtain account db1 voter w where l: "leave_proxy (wvo_account o') account db = Inr db1" and d: "decided o' voter w db1 db'"
    by (rule vote_effect [OF assms])
  from leave_proxy_moved [OF l assms(2)] d show ?thesis by (auto simp: decided_def recounted_def)
qed

lemma account_witness_proxy_ledger [ledger]:
  assumes "account_witness_proxy_apply o' db = Inr db'" and "keys_ok db"
  shows "keys_ok db' \<and> excess db' = excess db \<and> share_gap db' = share_gap db"
  using assms(1)
proof (cases rule: proxy_cases)
  case (name account db1 new_proxy db2 db3)
  note v1 = adjust_array_moved [OF name(2) assms(2) proxy_view_vote_free]
  then have k1: "keys_ok db1" by (simp add: votes_moved_def)
  note c = clear_witness_votes_ledger [OF name(6) k1]
  then have k2: "keys_ok db2" by simp
  note p = conjunct1 [OF set_proxy_moved [OF name(7) k2]]
  note v2 = adjust_array_moved [OF name(8) recounted_keys [OF p] proxy_view_vote_free]
  show ?thesis using v1 c p v2 by (simp add: votes_moved_def recounted_def)
next
  case (drop account db1)
  note v1 = adjust_array_moved [OF drop(1) assms(2) proxy_view_vote_free]
  then have "keys_ok db1" by (simp add: votes_moved_def)
  with v1 set_proxy_moved [OF drop(2)] show ?thesis by (simp add: votes_moved_def recounted_def)
qed

section \<open>Concrete runs\<close>

definition sample_witness :: "nat \<Rightarrow> account_name_type \<Rightarrow> int \<Rightarrow> witness_object" where
  "sample_witness i n v =
     \<lparr>w_id = i, w_owner = n, w_created = 0, w_url = [], w_total_missed = 0, w_last_aslot = 0,
      w_last_confirmed_block_num = 0, w_current_run = 0, w_last_supported_block_num = 0, w_signing_key = ''key'',
      w_props = sample_props, w_votes = v, w_penalty_percent = 0, w_counted_votes = v, w_schedule = Top,
      w_virtual_last_update = 0, w_virtual_position = 0, w_virtual_scheduled_time = 0,
      w_running_version = make_version 1 0 0, w_hardfork_version_vote = make_version 1 0 0, w_hardfork_time_vote = 0\<rparr>"

definition sample_proxy :: account_witness_proxy_operation where
  "sample_proxy = \<lparr>wp_account = ''bob'', wp_proxy = ''carol''\<rparr>"

lemmas voting_run_defs = account_witness_proxy_apply_def sample_proxy_def sample_defs get_account_def modify_account_def
  update_row_def adjust_proxied_witness_votes_array.simps adjust_witness_votes_def has_hardfork_def negated_votes_def
  check_proxy_chain.simps clear_witness_votes_def set_proxy_def add_proxied_def Let_def upt_conv_Cons

lemma sample_proxy_ok:
  "validate_account_witness_proxy sample_proxy = Inr ()" "is_ok (account_witness_proxy_apply sample_proxy sample_db)"
  "votes_counted sample_db" "acyclic (proxies sample_db)"
proof -
  have "is_valid_account_name ''bob''" "is_valid_account_name ''carol''" by code_simp+
  then show "validate_account_witness_proxy sample_proxy = Inr ()"
    by (simp add: validate_account_witness_proxy_def sample_proxy_def run_simps)
  show "is_ok (account_witness_proxy_apply sample_proxy sample_db)" by (simp add: voting_run_defs)
  have "proxies sample_db = {}" by (auto simp: proxies_def sample_defs)
  then show "acyclic (proxies sample_db)" by (simp add: acyclic_def)
  show "votes_counted sample_db" using sample_db_ok(1) by (simp add: votes_counted_def sample_defs votes_by_def)
qed

theorem proxies_never_cycle_witness:
  "\<exists>db'. account_witness_proxy_apply sample_proxy sample_db = Inr db' \<and> acyclic (proxies db')"
  using proxies_never_cycle [OF r_into_rtranclp [of voting_step], OF voting_step.proxy] sample_proxy_ok
  by (fastforce simp: is_ok_iff)

theorem witness_votes_counted_witness:
  "\<exists>db'. account_witness_proxy_apply sample_proxy sample_db = Inr db' \<and> votes_counted db'"
  using witness_votes_counted [OF r_into_rtranclp [of voting_step], OF voting_step.proxy] sample_proxy_ok
  by (fastforce simp: is_ok_iff)

definition sample_voting :: database where
  "sample_voting = sample_db\<lparr>
     db_witnesses := [sample_witness 0 ''alice'' 750000, sample_witness 1 ''bob'' 250000],
     db_witness_votes := [\<lparr>wvt_witness = 0, wvt_account = 0\<rparr>, \<lparr>wvt_witness = 0, wvt_account = 1\<rparr>, \<lparr>wvt_witness = 1, wvt_account = 1\<rparr>],
     db_accounts := map (\<lambda>a. if acc_name a = ''alice'' then a\<lparr>acc_witnesses_voted_for := 1, acc_witnesses_vote_weight := 500000\<rparr>
       else if acc_name a = ''bob'' then a\<lparr>acc_witnesses_voted_for := 2, acc_witnesses_vote_weight := 250000\<rparr> else a)
       (db_accounts sample_db)\<rparr>"

text \<open>Bob's stake grows by one share twice and shrinks by two.\<close>

definition drift_run :: "database result" where
  "drift_run =
     (case adjust_proxied_witness_votes ''bob'' 1 0 sample_voting of Inl e \<Rightarrow> Inl e
      | Inr db1 \<Rightarrow>
      case adjust_proxied_witness_votes ''bob'' 1 0 db1 of Inl e \<Rightarrow> Inl e
      | Inr db2 \<Rightarrow> adjust_proxied_witness_votes ''bob'' (- 2) 0 db2)"


end
