(* ===== verification/Awards.thy ===== *)
theory Awards
  imports Chain_Frames
begin

text \<open>
  Awards (\<open>award_evaluator\<close> and \<open>fixed_award_evaluator\<close> of \<open>chain/chain_evaluator.cpp\<close>): an account
  spends energy to claim tokens of the reward fund for a receiver and its beneficiaries.  The theorems
  say that an award pays out exactly what it claims, never more than the fund, and spends exactly the
  energy it names; and that a fixed award does not always do the first.
\<close>

section \<open>Claiming and paying\<close>

text \<open>The reward shares an amount of energy is worth: the product is taken in 128 bits.\<close>

definition energy_rshares :: "account_object \<Rightarrow> int \<Rightarrow> int" where
  "energy_rshares a energy =
     i64 (u64 (u128 (u128 (effective_vesting_shares a) * u128 energy) div CHAIN_100_PERCENT))"

text \<open>One beneficiary: its part of the tokens becomes vesting shares.  The state carries the sum paid so far.\<close>

definition benefactor_tokens :: "int \<Rightarrow> beneficiary_route_type \<Rightarrow> int" where
  "benefactor_tokens tokens b = (tokens * ben_weight b) sdiv CHAIN_100_PERCENT"

definition pay_beneficiary :: "int \<Rightarrow> beneficiary_route_type \<Rightarrow> int \<times> database \<Rightarrow> (int \<times> database) result" where
  "pay_beneficiary tokens b s =
     (case find_account (ben_account b) (snd s) of None \<Rightarrow> Inl (FC_Assert ''Beneficiary must exist.'')
      | Some _ \<Rightarrow>
      case create_vesting (ben_account b) (mk_asset (benefactor_tokens tokens b) TOKEN_SYMBOL) (snd s) of Inl e \<Rightarrow> Inl e
      | Inr (_, db1) \<Rightarrow>
      case modify_account (ben_account b) (\<lambda>a. Inr (a\<lparr>acc_benefactor_awards :=
             acc_benefactor_awards a + benefactor_tokens tokens b\<rparr>)) db1 of Inl e \<Rightarrow> Inl e
      | Inr db2 \<Rightarrow> Inr (fst s + benefactor_tokens tokens b, db2))"

definition pay_receiver :: "account_name_type \<Rightarrow> int \<Rightarrow> database \<Rightarrow> database result" where
  "pay_receiver n receiver_tokens db =
     (if receiver_tokens > 0 then
        case create_vesting n (mk_asset receiver_tokens TOKEN_SYMBOL) db of Inl e \<Rightarrow> Inl e
        | Inr (_, db1) \<Rightarrow>
          modify_account n (\<lambda>a. Inr (a\<lparr>acc_receiver_awards := acc_receiver_awards a + receiver_tokens\<rparr>)) db1
      else Inr db)"

text \<open>
  The payment of an award: while a block is produced the number of beneficiaries is limited; the
  receiver gets \<open>receiver_tokens\<close> less what the beneficiaries got.
\<close>

definition pay_award ::
  "bool \<Rightarrow> beneficiary_route_type list \<Rightarrow> account_name_type \<Rightarrow> int \<Rightarrow> int \<Rightarrow> database \<Rightarrow> database result" where
  "pay_award is_producing beneficiaries receiver tokens receiver_tokens db =
     (if is_producing \<and> \<not> length beneficiaries \<le> CHAIN_MAX_COMMENT_BENEFICIARIES
      then Inl (FC_Assert ''Cannot specify more than ${m} beneficiaries.'')
      else case fold_result (pay_beneficiary tokens) beneficiaries (0, db) of Inl e \<Rightarrow> Inl e
      | Inr (total_beneficiary, db1) \<Rightarrow> pay_receiver receiver (receiver_tokens - total_beneficiary) db1)"

definition spend_energy :: "account_name_type \<Rightarrow> int \<Rightarrow> database \<Rightarrow> database result" where
  "spend_energy n energy db = modify_account n (\<lambda>a. Inr (a\<lparr>acc_energy := i16 energy,
     acc_last_vote_time := head_block_time db, acc_vote_count := u32 (acc_vote_count a + 1)\<rparr>)) db"

section \<open>Awards\<close>

definition award_claim :: "int \<Rightarrow> database \<Rightarrow> (int \<times> database) result" where
  "award_claim rshares db =
     (if rshares < vote_accounting_min_rshares (median_props db) then Inr (0, db)
      else case claim_rshare_award rshares db of Inl e \<Rightarrow> Inl e
      | Inr (reward_tokens, db1) \<Rightarrow> Inr (i64 (u64 (u128 reward_tokens)), db1))"

definition award_apply :: "bool \<Rightarrow> award_operation \<Rightarrow> database \<Rightarrow> database result" where
  "award_apply is_producing o' db =
     (if \<not> has_hardfork 4 db then Inl (FC_Assert ''award_evaluator not enabled until HF 4'')
      else case get_account (aw_initiator o') db of Inl e \<Rightarrow> Inl e
      | Inr initiator \<Rightarrow>
      case get_account (aw_receiver o') db of Inl e \<Rightarrow> Inl e
      | Inr _ \<Rightarrow>
      let current_energy = regenerated (head_block_time db) initiator
      in if \<not> current_energy > 0 then Inl (FC_Assert ''Account currently does not have voting energy.'')
      else if \<not> aw_energy o' \<le> current_energy then Inl (FC_Assert ''Account does not have enough energy to award.'')
      else case award_claim (energy_rshares initiator (aw_energy o')) db of Inl e \<Rightarrow> Inl e
      | Inr (tokens, db1) \<Rightarrow>
      case spend_energy (aw_initiator o') (current_energy - aw_energy o') db1 of Inl e \<Rightarrow> Inl e
      | Inr db2 \<Rightarrow>
      if tokens > 0 then pay_award is_producing (aw_beneficiaries o') (aw_receiver o') tokens tokens db2 else Inr db2)"

text \<open>
  A fixed award works out the reward shares for a wanted amount, spends the energy for them (rounded
  up by one unit) and gives what the claim yields above the wanted amount to the committee fund.
\<close>

definition fixed_award_energy :: "fixed_award_operation \<Rightarrow> account_object \<Rightarrow> database \<Rightarrow> int result" where
  "fixed_award_energy o' initiator db =
     (let max_rshares = energy_rshares initiator (fa_max_energy o')
      in case calc_rshare_award max_rshares db of Inl e \<Rightarrow> Inl e
      | Inr max_reward \<Rightarrow>
      if \<not> u128 max_reward \<ge> u128 (amount (fa_reward_amount o'))
      then Inl (FC_Assert ''Max available reward: ${r}, requested reward amount: ${u}'')
      else case calc_rshare_by_reward (fa_reward_amount o') db of Inl e \<Rightarrow> Inl e
      | Inr rs \<Rightarrow>
      if \<not> rs \<le> max_rshares then Inl (FC_Assert ''Account does not have enough potential to fixed award.'')
      else Inr (min (i64 (u64 (u128 (u128 rs * u128 (fa_max_energy o')) div u128 max_rshares)) + 1) CHAIN_100_PERCENT))"

definition fixed_award_claim :: "fixed_award_operation \<Rightarrow> int \<Rightarrow> database \<Rightarrow> (int \<times> database) result" where
  "fixed_award_claim o' rshares db =
     (case (if rshares < vote_accounting_min_rshares (median_props db) then Inr 0
            else calc_rshare_award rshares db) of Inl e \<Rightarrow> Inl e
      | Inr expected \<Rightarrow>
      if \<not> i64 (u64 (u128 expected)) \<ge> amount (fa_reward_amount o')
      then Inl (FC_Assert ''Calculated reward is lesser than fixed reward amount.'')
      else if rshares < vote_accounting_min_rshares (median_props db) \<or> rshares = 0
      then Inl (FC_Assert ''Potential rshares is 0'')
      else case claim_rshare_award rshares db of Inl e \<Rightarrow> Inl e
      | Inr (reward_tokens, db1) \<Rightarrow>
      if i64 (u64 (u128 reward_tokens)) > 0 then Inr (i64 (u64 (u128 reward_tokens)), db1)
      else Inl (FC_Assert ''Potential reward is 0''))"

definition donate :: "int \<Rightarrow> database \<Rightarrow> database" where
  "donate donation_tokens db =
     (if donation_tokens > 0 then db\<lparr>db_dgp := (db_dgp db)\<lparr>committee_fund :=
        mk_asset (amount (committee_fund (db_dgp db)) + donation_tokens) (symbol (committee_fund (db_dgp db)))\<rparr>\<rparr>
      else db)"

definition fixed_award_apply :: "bool \<Rightarrow> fixed_award_operation \<Rightarrow> database \<Rightarrow> database result" where
  "fixed_award_apply is_producing o' db =
     (if \<not> has_hardfork 11 db then Inl (FC_Assert ''fixed_award_evaluator not enabled until HF 11'')
      else case get_account (fa_initiator o') db of Inl e \<Rightarrow> Inl e
      | Inr initiator \<Rightarrow>
      case get_account (fa_receiver o') db of Inl e \<Rightarrow> Inl e
      | Inr _ \<Rightarrow>
      let current_energy = regenerated (head_block_time db) initiator; wanted = amount (fa_reward_amount o')
      in if \<not> current_energy > 0 then Inl (FC_Assert ''Account currently does not have voting energy.'')
      else if \<not> fa_max_energy o' \<le> current_energy then Inl (FC_Assert ''Account does not have enough energy to award.'')
      else case fixed_award_energy o' initiator db of Inl e \<Rightarrow> Inl e
      | Inr need_energy \<Rightarrow>
      case fixed_award_claim o' (energy_rshares initiator need_energy) db of Inl e \<Rightarrow> Inl e
      | Inr (tokens, db1) \<Rightarrow>
      case spend_energy (fa_initiator o') (current_energy - need_energy) db1 of Inl e \<Rightarrow> Inl e
      | Inr db2 \<Rightarrow>
      case pay_award is_producing (fa_beneficiaries o') (fa_receiver o') tokens wanted db2 of Inl e \<Rightarrow> Inl e
      | Inr db3 \<Rightarrow> Inr (donate (tokens - wanted) db3))"

section \<open>What is claimed and what is paid\<close>

lemma create_vesting_dgp:
  assumes "create_vesting n tokens db = Inr (v, db')" and "keys_ok db"
  shows "amount (total_reward_fund (db_dgp db')) = amount (total_reward_fund (db_dgp db)) \<and>
    amount (committee_fund (db_dgp db')) = amount (committee_fund (db_dgp db)) \<and>
    amount (current_supply (db_dgp db')) = amount (current_supply (db_dgp db)) \<and>
    amount (total_vesting_fund (db_dgp db')) = amount (total_vesting_fund (db_dgp db)) + amount tokens"
proof -
  from assms(1) obtain db1 db2 where
    m: "modify_account n (add_field acc_vesting_shares acc_vesting_shares_update v) db = Inr db1" and
    p: "modify_dgp (\<lambda>p. case add_field total_vesting_fund total_vesting_fund_update tokens p of Inl e \<Rightarrow> Inl e
                        | Inr p' \<Rightarrow> add_field total_vesting_shares total_vesting_shares_update v p') db1 = Inr db2" and
    r: "adjust_proxied_witness_votes n (amount v) 0 db2 = Inr db'"
    by (auto simp: create_vesting_def case_sum_Inr)
  have "keys_ok db2" using modify_account_tokens [OF m assms(2), of 0 "amount v"] p
    by (auto simp: run_simps account_tokens_def account_shares_def ledger_dgp)
  then have "db_dgp db' = db_dgp db2"
    using only_votes_fields [of db2 db'] adjust_proxied_witness_votes_frame [OF r, of "\<lambda>_. ()"] by (simp add: vote_free_def)
  moreover have "db_dgp db1 = db_dgp db" using only_votes_fields [OF modify_account_only [OF m]] by simp
  ultimately show ?thesis using p by (auto simp: run_simps)
qed

text \<open>The funds an award touches, and the tokens it leaves the ledger with.\<close>

definition paid :: "int \<Rightarrow> database \<Rightarrow> database \<Rightarrow> bool" where
  "paid t db db' = (keys_ok db' \<and> excess db' = excess db + t \<and> share_gap db' = share_gap db \<and>
     amount (total_reward_fund (db_dgp db')) = amount (total_reward_fund (db_dgp db)) \<and>
     amount (committee_fund (db_dgp db')) = amount (committee_fund (db_dgp db)) \<and>
     amount (current_supply (db_dgp db')) = amount (current_supply (db_dgp db)) \<and>
     amount (total_vesting_fund (db_dgp db')) = amount (total_vesting_fund (db_dgp db)) + t)"

lemma paid_keys: "paid t db db' \<Longrightarrow> keys_ok db'"
  by (simp add: paid_def)

lemma paid_trans: "paid t db1 db2 \<Longrightarrow> paid u db2 db3 \<Longrightarrow> paid (t + u) db1 db3"
  by (simp add: paid_def)

lemma paid_refl: "keys_ok db \<Longrightarrow> paid 0 db db"
  by (simp add: paid_def)

lemma create_vesting_paid: "create_vesting n tokens db = Inr (v, db') \<Longrightarrow> keys_ok db \<Longrightarrow> paid (amount tokens) db db'"
  using create_vesting_dgp [of n tokens db v db'] create_vesting_ledger [of n tokens db v db'] by (simp add: paid_def)

lemma modify_account_paid:
  assumes "modify_account n f db = Inr db'" and "keys_ok db"
    and "\<And>a a'. f a = Inr a' \<Longrightarrow> acc_name a' = acc_name a \<and> account_tokens a' = account_tokens a \<and> account_shares a' = account_shares a"
  shows "paid 0 db db'"
  using modify_account_tokens [OF assms(1,2), of 0 0] assms(3) only_votes_fields [OF modify_account_only [OF assms(1)]]
  by (auto simp: paid_def)

lemma pay_beneficiary_paid:
  assumes "pay_beneficiary tokens b (t, db) = Inr (t', db')" and "keys_ok db"
  shows "t' = t + benefactor_tokens tokens b \<and> paid (benefactor_tokens tokens b) db db'"
proof -
  from assms(1) obtain v db1 where
    v: "create_vesting (ben_account b) (mk_asset (benefactor_tokens tokens b) TOKEN_SYMBOL) db = Inr (v, db1)" and
    m: "modify_account (ben_account b) (\<lambda>a. Inr (a\<lparr>acc_benefactor_awards :=
             acc_benefactor_awards a + benefactor_tokens tokens b\<rparr>)) db1 = Inr db'" and
    t: "t' = t + benefactor_tokens tokens b"
    by (auto simp: pay_beneficiary_def case_sum_Inr case_option_Inr)
  have 1: "paid (benefactor_tokens tokens b) db db1" using create_vesting_paid [OF v assms(2)] by simp
  have "paid 0 db1 db'"
    by (rule modify_account_paid [OF m paid_keys [OF 1]]) (auto simp: account_tokens_def account_shares_def)
  from paid_trans [OF 1 this] t show ?thesis by simp
qed

lemma pay_beneficiaries_paid:
  "fold_result (pay_beneficiary tokens) bs (t, db) = Inr (t', db') \<Longrightarrow> keys_ok db \<Longrightarrow>
     t' = t + total (benefactor_tokens tokens) bs \<and> paid (total (benefactor_tokens tokens) bs) db db'"
proof (induction bs arbitrary: t db)
  case Nil
  then show ?case by (simp add: paid_refl)
next
  case (Cons b bs)
  from Cons.prems(1) obtain s where s: "pay_beneficiary tokens b (t, db) = Inr s"
    "fold_result (pay_beneficiary tokens) bs s = Inr (t', db')" by (auto simp: case_sum_Inr)
  obtain t1 db1 where "s = (t1, db1)" by fastforce
  note s = s [unfolded this]
  from pay_beneficiary_paid [OF s(1) Cons.prems(2)]
  have 1: "t1 = t + benefactor_tokens tokens b" "paid (benefactor_tokens tokens b) db db1" by auto
  from Cons.IH [OF s(2) paid_keys [OF 1(2)]] paid_trans [OF 1(2)] 1(1) show ?case by simp
qed

lemma pay_receiver_paid:
  assumes "pay_receiver n x db = Inr db'" and "keys_ok db"
  shows "paid (max x 0) db db'"
proof (cases "x > 0")
  case True
  with assms(1) obtain v db1 where v: "create_vesting n (mk_asset x TOKEN_SYMBOL) db = Inr (v, db1)" and
    m: "modify_account n (\<lambda>a. Inr (a\<lparr>acc_receiver_awards := acc_receiver_awards a + x\<rparr>)) db1 = Inr db'"
    by (auto simp: pay_receiver_def case_sum_Inr)
  have 1: "paid x db db1" using create_vesting_paid [OF v assms(2)] by simp
  have "paid 0 db1 db'"
    by (rule modify_account_paid [OF m paid_keys [OF 1]]) (auto simp: account_tokens_def account_shares_def)
  from paid_trans [OF 1 this] True show ?thesis by (simp add: max_def)
qed (use assms in \<open>auto simp: pay_receiver_def paid_refl max_def\<close>)

lemma pay_award_paid:
  assumes "pay_award p bs n tokens receiver_tokens db = Inr db'" and "keys_ok db"
  defines "s \<equiv> total (benefactor_tokens tokens) bs"
  shows "paid (s + max (receiver_tokens - s) 0) db db'"
proof -
  from assms(1) obtain t db1 where f: "fold_result (pay_beneficiary tokens) bs (0, db) = Inr (t, db1)"
    and r: "pay_receiver n (receiver_tokens - t) db1 = Inr db'"
    by (auto simp: pay_award_def case_sum_Inr if_Inl_Inr)
  from pay_beneficiaries_paid [OF f assms(2)] have "t = s" "paid s db db1" by (simp_all add: s_def)
  with paid_trans [OF this(2) pay_receiver_paid [OF r paid_keys]] show ?thesis by auto
qed

text \<open>Validated weights are at most 100 percent in all, so the parts never exceed the whole.\<close>

lemma validated_weights:
  "validate_beneficiaries_from acc bs = Inr u \<Longrightarrow> \<forall>b \<in> set bs. 0 \<le> ben_weight b \<Longrightarrow> 0 \<le> acc \<Longrightarrow> acc \<le> CHAIN_100_PERCENT \<Longrightarrow>
     acc + total ben_weight bs \<le> CHAIN_100_PERCENT"
proof (induction bs arbitrary: acc u)
  case (Cons b bs)
  then have "acc + ben_weight b \<le> 2 * CHAIN_100_PERCENT" "0 \<le> acc + ben_weight b" by (auto simp: run_simps)
  then have "u32 (acc + ben_weight b) = acc + ben_weight b" by simp
  with Cons.prems have "validate_beneficiaries_from (acc + ben_weight b) bs = Inr ()" "acc + ben_weight b \<le> CHAIN_100_PERCENT"
    by (auto simp: run_simps)
  with Cons.IH [of "acc + ben_weight b" "()"] Cons.prems show ?case by (simp add: algebra_simps)
qed simp

lemma parts_at_most:
  assumes "0 \<le> t" and "\<forall>b \<in> set bs. 0 \<le> ben_weight b"
  shows "0 \<le> total (benefactor_tokens t) bs \<and> CHAIN_100_PERCENT * total (benefactor_tokens t) bs \<le> t * total ben_weight bs"
  using assms(2)
proof (induction bs)
  case (Cons b bs)
  have "benefactor_tokens t b = (t * ben_weight b) div CHAIN_100_PERCENT"
    using assms(1) Cons.prems by (simp add: benefactor_tokens_def sdiv_nonneg)
  moreover have "CHAIN_100_PERCENT * ((t * ben_weight b) div CHAIN_100_PERCENT) \<le> t * ben_weight b" by simp
  moreover have "0 \<le> t * ben_weight b" using assms(1) Cons.prems by simp
  then have "0 \<le> (t * ben_weight b) div CHAIN_100_PERCENT" by (simp add: pos_imp_zdiv_nonneg_iff)
  ultimately show ?case using Cons by (simp add: algebra_simps)
qed simp

lemma parts_within:
  assumes "validate_beneficiaries_from 0 bs = Inr u" and "\<forall>b \<in> set bs. 0 \<le> ben_weight b" and "0 \<le> t"
  shows "0 \<le> total (benefactor_tokens t) bs \<and> total (benefactor_tokens t) bs \<le> t"
proof -
  have "total ben_weight bs \<le> CHAIN_100_PERCENT" using validated_weights [OF assms(1,2)] by simp
  then have "t * total ben_weight bs \<le> t * CHAIN_100_PERCENT" using assms(3) by (intro mult_left_mono) auto
  with parts_at_most [OF assms(3,2)] show ?thesis by simp
qed

section \<open>Awards pay what they claim\<close>

text \<open>A claim is at most the fund when the fund and the competing shares are in their ranges.\<close>

definition fund_ranges :: "database \<Rightarrow> bool" where
  "fund_ranges db = (0 \<le> amount (total_reward_fund (db_dgp db)) \<and> amount (total_reward_fund (db_dgp db)) \<le> INT64_MAX \<and>
     0 \<le> total_reward_shares (db_dgp db) \<and> total_reward_shares (db_dgp db) < 2 ^ 128)"

lemma reward_payout_within:
  assumes "reward_payout fund rs tot = Inr payout" and "0 \<le> fund" "fund \<le> INT64_MAX" and "0 \<le> rs" "rs \<le> tot" and "tot < 2 ^ 129"
  shows "0 \<le> payout \<and> payout \<le> fund"
proof -
  have "rs < 2 ^ 129" using assms(5,6) by simp
  have "fund * rs \<le> INT64_MAX * (2 ^ 129)"
    using assms(3,4) \<open>rs < 2 ^ 129\<close> assms(2) by (intro mult_mono) auto
  then have "fund * rs < 2 ^ 256" by simp
  moreover have "0 \<le> fund * rs" using assms(2,4) by simp
  ultimately have u: "u256 fund = fund" "u256 rs = rs" "u256 tot = tot" "u256 (fund * rs) = fund * rs"
    using assms by simp_all
  then have "payout = fund * rs div tot" and "tot \<noteq> 0"
    using assms(1) by (auto simp: reward_payout_def Let_def u split: if_splits)
  moreover from this assms(4,5) have "0 < tot" by simp
  moreover have "fund * rs div tot \<le> fund * tot div tot"
    using assms(2,5) \<open>0 < tot\<close> by (intro zdiv_mono1 mult_left_mono) auto
  ultimately show ?thesis using \<open>0 \<le> fund * rs\<close> by (simp add: pos_imp_zdiv_nonneg_iff)
qed

lemma claim_within:
  assumes "claim_rshare_award rs db = Inr (payout, db')" and "fund_ranges db" and "rs < 2 ^ 63" and "keys_ok db"
  shows "0 \<le> payout \<and> payout \<le> amount (total_reward_fund (db_dgp db)) \<and> i64 (u64 (u128 payout)) = payout \<and>
    keys_ok db' \<and> excess db' = excess db - payout \<and> share_gap db' = share_gap db \<and>
    amount (total_reward_fund (db_dgp db')) = amount (total_reward_fund (db_dgp db)) - payout \<and>
    committee_fund (db_dgp db') = committee_fund (db_dgp db) \<and> current_supply (db_dgp db') = current_supply (db_dgp db) \<and>
    total_vesting_fund (db_dgp db') = total_vesting_fund (db_dgp db)"
proof -
  from assms(1) have r: "reward_payout (amount (total_reward_fund (db_dgp db))) rs (total_reward_shares (db_dgp db) + rs) = Inr payout"
    and rs: "0 < rs" by (auto simp: claim_rshare_award_def run_simps)
  have b: "0 \<le> payout \<and> payout \<le> amount (total_reward_fund (db_dgp db))"
    by (rule reward_payout_within [OF r]) (use assms(2,3) rs in \<open>auto simp: fund_ranges_def\<close>)
  then have "i64 (u64 (u128 payout)) = payout" using assms(2) by (simp add: fund_ranges_def)
  with b claim_rshare_award_ledger [OF assms(1,4)] assms(1) show ?thesis
    by (auto simp: claim_rshare_award_def run_simps)
qed

lemma spend_energy_paid: "spend_energy n x db = Inr db' \<Longrightarrow> keys_ok db \<Longrightarrow> paid 0 db db'"
  unfolding spend_energy_def by (drule modify_account_paid) (auto simp: account_tokens_def account_shares_def)

lemma award_cases:
  assumes "award_apply p o' db = Inr db'"
  obtains a tokens db1 db2 where "get_account (aw_initiator o') db = Inr a"
    and "0 < regenerated (head_block_time db) a" and "aw_energy o' \<le> regenerated (head_block_time db) a"
    and "award_claim (energy_rshares a (aw_energy o')) db = Inr (tokens, db1)"
    and "spend_energy (aw_initiator o') (regenerated (head_block_time db) a - aw_energy o') db1 = Inr db2"
    and "if tokens > 0 then pay_award p (aw_beneficiaries o') (aw_receiver o') tokens tokens db2 = Inr db' else db' = db2"
  using assms by (force simp: award_apply_def Let_def if_Inl_Inr case_sum_Inr split: if_splits)

lemma reward_payout_range: "reward_payout fund rs tot = Inr payout \<Longrightarrow> 0 \<le> payout \<and> payout \<le> INT64_MAX"
proof -
  assume "reward_payout fund rs tot = Inr payout"
  then have "payout = u256 (u256 fund * u256 rs) div u256 tot" "payout \<le> INT64_MAX" "u256 tot \<noteq> 0"
    by (auto simp: reward_payout_def Let_def split: if_splits)
  moreover have "0 \<le> u256 (u256 fund * u256 rs)" "0 < u256 tot" using \<open>u256 tot \<noteq> 0\<close> u256_nonneg [of tot] by (simp, linarith)
  ultimately show ?thesis by (simp only: pos_imp_zdiv_nonneg_iff)
qed

lemma claim_amount:
  assumes "claim_rshare_award rs db = Inr (payout, db')"
  shows "0 \<le> payout \<and> i64 (u64 (u128 payout)) = payout"
proof -
  from assms have "reward_payout (amount (total_reward_fund (db_dgp db))) rs (total_reward_shares (db_dgp db) + rs) = Inr payout"
    by (auto simp: claim_rshare_award_def run_simps)
  from reward_payout_range [OF this] show ?thesis by simp
qed

lemma award_claim_ledger:
  "award_claim rs db = Inr (tokens, db') \<Longrightarrow> keys_ok db \<Longrightarrow>
     0 \<le> tokens \<and> keys_ok db' \<and> excess db' = excess db - tokens \<and> share_gap db' = share_gap db"
  by (auto simp: award_claim_def case_sum_Inr claim_amount split: if_splits dest: claim_rshare_award_ledger)

lemma award_effect:
  assumes "award_apply p o' db = Inr db'" and "validate_award fc o' = Inr ()"
    and "\<forall>b \<in> set (aw_beneficiaries o'). 0 \<le> ben_weight b" and "keys_ok db"
  obtains a tokens db1 where "award_claim (energy_rshares a (aw_energy o')) db = Inr (tokens, db1)" and "paid tokens db1 db'"
  using assms(1)
proof (rule award_cases)
  fix a tokens db1 db2
  assume c: "award_claim (energy_rshares a (aw_energy o')) db = Inr (tokens, db1)"
    and s: "spend_energy (aw_initiator o') (regenerated (head_block_time db) a - aw_energy o') db1 = Inr db2"
    and pay: "if tokens > 0 then pay_award p (aw_beneficiaries o') (aw_receiver o') tokens tokens db2 = Inr db' else db' = db2"
  have cl: "0 \<le> tokens" "keys_ok db1" using award_claim_ledger [OF c assms(4)] by auto
  have 2: "paid 0 db1 db2" by (rule spend_energy_paid [OF s cl(2)])
  have "validate_beneficiaries_from 0 (aw_beneficiaries o') = Inr ()" using assms(2) by (simp add: validate_award_def run_simps)
  from parts_within [OF this assms(3) cl(1)]
  have w: "0 \<le> total (benefactor_tokens tokens) (aw_beneficiaries o')" "total (benefactor_tokens tokens) (aw_beneficiaries o') \<le> tokens" by auto
  have "paid tokens db2 db'"
  proof (cases "tokens > 0")
    case True
    with pay have "pay_award p (aw_beneficiaries o') (aw_receiver o') tokens tokens db2 = Inr db'" by simp
    from pay_award_paid [OF this paid_keys [OF 2]] w show ?thesis by (simp add: max_def split: if_splits)
  next
    case False
    with pay cl have "db' = db2" "tokens = 0" by auto
    then show ?thesis using paid_refl [OF paid_keys [OF 2]] by simp
  qed
  from that [OF c] paid_trans [OF 2 this] show ?thesis by simp
qed

lemma award_ledger [ledger]:
  assumes "award_apply p o' db = Inr db'" and "validate_award fc o' = Inr ()"
    and "\<forall>b \<in> set (aw_beneficiaries o'). 0 \<le> ben_weight b" and "keys_ok db"
  shows "keys_ok db' \<and> excess db' = excess db \<and> share_gap db' = share_gap db"
  by (rule award_effect [OF assms]) (auto simp: paid_def dest: award_claim_ledger [OF _ assms(4)])

text \<open>
  An award takes from the reward fund at most what is there, and all of it becomes vesting of the
  receiver and the beneficiaries: the vesting fund grows by exactly the tokens the reward fund loses,
  the supply and the committee fund do not move, and neither does the total of tokens or the gap
  between recorded and held shares.
\<close>

theorem award_pays_what_it_claims:
  assumes "award_apply p o' db = Inr db'" and "validate_award fc o' = Inr ()"
    and "\<forall>b \<in> set (aw_beneficiaries o'). 0 \<le> ben_weight b" and "keys_ok db" and "fund_ranges db"
  shows "\<exists>t. 0 \<le> t \<and> t \<le> amount (total_reward_fund (db_dgp db)) \<and>
    amount (total_reward_fund (db_dgp db')) = amount (total_reward_fund (db_dgp db)) - t \<and>
    amount (total_vesting_fund (db_dgp db')) = amount (total_vesting_fund (db_dgp db)) + t \<and>
    amount (committee_fund (db_dgp db')) = amount (committee_fund (db_dgp db)) \<and>
    amount (current_supply (db_dgp db')) = amount (current_supply (db_dgp db)) \<and>
    keys_ok db' \<and> token_total db' = token_total db \<and> share_gap db' = share_gap db"
proof (rule award_effect [OF assms(1-4)])
  fix a tokens db1
  assume c: "award_claim (energy_rshares a (aw_energy o')) db = Inr (tokens, db1)" and p: "paid tokens db1 db'"
  have rs: "energy_rshares a (aw_energy o') < 2 ^ 63" unfolding energy_rshares_def by (rule i64_bounds)
  have "0 \<le> tokens \<and> tokens \<le> amount (total_reward_fund (db_dgp db)) \<and> excess db1 = excess db - tokens \<and>
     share_gap db1 = share_gap db \<and> amount (total_reward_fund (db_dgp db1)) = amount (total_reward_fund (db_dgp db)) - tokens \<and>
     committee_fund (db_dgp db1) = committee_fund (db_dgp db) \<and> current_supply (db_dgp db1) = current_supply (db_dgp db) \<and>
     total_vesting_fund (db_dgp db1) = total_vesting_fund (db_dgp db)"
    using c assms(4,5) claim_within [OF _ assms(5) rs assms(4)]
    by (auto simp: award_claim_def case_sum_Inr fund_ranges_def split: if_splits)
  with p show ?thesis by (intro exI [of _ tokens]) (auto simp: paid_def excess_def)
qed

section \<open>Fixed awards\<close>

lemma fixed_award_cases:
  assumes "fixed_award_apply p o' db = Inr db'"
  obtains a need tokens db1 db2 db3 where "get_account (fa_initiator o') db = Inr a"
    and "fixed_award_energy o' a db = Inr need"
    and "fixed_award_claim o' (energy_rshares a need) db = Inr (tokens, db1)"
    and "spend_energy (fa_initiator o') (regenerated (head_block_time db) a - need) db1 = Inr db2"
    and "pay_award p (fa_beneficiaries o') (fa_receiver o') tokens (amount (fa_reward_amount o')) db2 = Inr db3"
    and "db' = donate (tokens - amount (fa_reward_amount o')) db3"
  using assms by (force simp: fixed_award_apply_def Let_def if_Inl_Inr case_sum_Inr split: if_splits)

lemma donate_ledger: "keys_ok db \<Longrightarrow> keys_ok (donate x db) \<and> excess (donate x db) = excess db + max x 0 \<and> share_gap (donate x db) = share_gap db"
  by (simp add: donate_def ledger_dgp fund_tokens_def max_def)

lemma fixed_award_claim_within:
  assumes "fixed_award_claim o' rs db = Inr (tokens, db1)" and "keys_ok db"
  shows "amount (fa_reward_amount o') \<le> tokens \<and> 0 < tokens \<and> keys_ok db1 \<and> excess db1 = excess db - tokens \<and> share_gap db1 = share_gap db"
proof -
  from assms(1) obtain expected payout where
    e: "calc_rshare_award rs db = Inr expected" and "amount (fa_reward_amount o') \<le> i64 (u64 (u128 expected))" and
    c: "claim_rshare_award rs db = Inr (payout, db1)" and "0 < tokens" and "tokens = i64 (u64 (u128 payout))"
    by (auto simp: fixed_award_claim_def case_sum_Inr if_Inl_Inr split: if_splits)
  moreover have "expected = payout" using e c by (auto simp: calc_rshare_award_def claim_rshare_award_def run_simps)
  ultimately show ?thesis using claim_amount [OF c] claim_rshare_award_ledger [OF c assms(2)] by simp
qed

text \<open>A fixed award moves the total of tokens by what the beneficiaries get above the wanted amount.\<close>

lemma fixed_award_excess:
  assumes "fixed_award_apply p o' db = Inr db'" and "keys_ok db"
  obtains tokens where "keys_ok db'" and "share_gap db' = share_gap db" and "amount (fa_reward_amount o') \<le> tokens"
    and "excess db' = excess db + max 0 (total (benefactor_tokens tokens) (fa_beneficiaries o') - amount (fa_reward_amount o'))"
    and "\<exists>a need db1. get_account (fa_initiator o') db = Inr a \<and> fixed_award_energy o' a db = Inr need \<and>
           fixed_award_claim o' (energy_rshares a need) db = Inr (tokens, db1)"
  using assms(1)
proof (rule fixed_award_cases)
  fix a need tokens db1 db2 db3
  assume a: "get_account (fa_initiator o') db = Inr a" "fixed_award_energy o' a db = Inr need"
    and c: "fixed_award_claim o' (energy_rshares a need) db = Inr (tokens, db1)"
    and s: "spend_energy (fa_initiator o') (regenerated (head_block_time db) a - need) db1 = Inr db2"
    and pay: "pay_award p (fa_beneficiaries o') (fa_receiver o') tokens (amount (fa_reward_amount o')) db2 = Inr db3"
    and db': "db' = donate (tokens - amount (fa_reward_amount o')) db3"
  note 1 = fixed_award_claim_within [OF c assms(2)]
  have 2: "paid 0 db1 db2" using spend_energy_paid [OF s] 1 by blast
  note 3 = pay_award_paid [OF pay paid_keys [OF 2]]
  note 4 = donate_ledger [OF paid_keys [OF 3], of "tokens - amount (fa_reward_amount o')"]
  show ?thesis
    by (rule that [of tokens]) (use 1 2 3 4 db' a c in \<open>auto simp: paid_def max_def\<close>)
qed

text \<open>A fixed award without beneficiaries keeps the books.\<close>

lemma fixed_award_ledger [ledger]:
  assumes "fixed_award_apply p o' db = Inr db'" and "keys_ok db"
    and "fa_beneficiaries o' = []" and "0 \<le> amount (fa_reward_amount o')"
  shows "keys_ok db' \<and> excess db' = excess db \<and> share_gap db' = share_gap db"
  by (rule fixed_award_excess [OF assms(1,2)]) (use assms(3,4) in auto)

definition sample_award_db :: database where
  "sample_award_db = sample_db\<lparr>
     db_accounts := [sample_account 0 ''alice'' 900000 1000000000000, sample_account 1 ''bob'' 100000 0],
     db_dgp := sample_dgp\<lparr>total_vesting_shares := mk_asset 1000000000000 SHARES_SYMBOL, total_reward_shares := 1000000000000\<rparr>\<rparr>"

definition sample_fixed_award :: fixed_award_operation where
  "sample_fixed_award = \<lparr>fa_initiator = ''alice'', fa_receiver = ''alice'', fa_reward_amount = mk_asset 1000 TOKEN_SYMBOL,
     fa_max_energy = 1000, fa_custom_sequence = 0, fa_memo = [],
     fa_beneficiaries = [\<lparr>ben_account = ''bob'', ben_weight = 10000\<rparr>]\<rparr>"

lemmas award_run_defs = sample_award_db_def sample_fixed_award_def sample_defs get_account_def find_account_def modify_account_def update_row_def
  regenerated_def energy_rshares_def effective_vesting_shares_def Let_def signed_divide_int_def

lemma sample_award_books: "keys_ok sample_award_db" "excess sample_award_db = 0" "share_gap sample_award_db = 0" "fund_ranges sample_award_db"
  by (simp_all add: sample_award_db_def sample_defs keys_ok_def excess_def share_gap_def token_total_def
      account_tokens_def account_shares_def fund_tokens_def fund_ranges_def)

lemma sample_award_energy:
  "get_account ''alice'' sample_award_db = Inr (sample_account 0 ''alice'' 900000 1000000000000)"
  "regenerated (head_block_time sample_award_db) (sample_account 0 ''alice'' 900000 1000000000000) = 10000"
  "fixed_award_energy sample_fixed_award (sample_account 0 ''alice'' 900000 1000000000000) sample_award_db = Inr 11"
  "energy_rshares (sample_account 0 ''alice'' 900000 1000000000000) 11 = 1100000000"
  by (simp_all add: award_run_defs fixed_award_energy_def calc_rshare_award_def calc_rshare_by_reward_def reward_payout_def)

definition sample_claimed_db :: database where
  "sample_claimed_db = snd (projr (claim_rshare_award 1100000000 sample_award_db))"

lemma sample_claim: "fixed_award_claim sample_fixed_award 1100000000 sample_award_db = Inr (1098, sample_claimed_db)"
  by (simp add: award_run_defs fixed_award_claim_def calc_rshare_award_def claim_rshare_award_def reward_payout_def
      sample_claimed_db_def)

lemma sample_fixed_award_runs: "\<exists>db'. fixed_award_apply True sample_fixed_award sample_award_db = Inr db'"
proof -
  have "\<exists>db2 db3. spend_energy ''alice'' (10000 - 11) sample_claimed_db = Inr db2 \<and>
     pay_award True (fa_beneficiaries sample_fixed_award) ''alice'' 1098 1000 db2 = Inr db3"
    by (simp add: sample_claimed_db_def award_run_defs claim_rshare_award_def reward_payout_def spend_energy_def pay_award_def
        pay_beneficiary_def benefactor_tokens_def pay_receiver_def create_vesting_def asset_times_price_def
        get_vesting_share_price_def modify_dgp_def add_field_def asset_add_def adjust_proxied_witness_votes.simps
        adjust_witness_votes_def has_hardfork_def)
  moreover have "has_hardfork 11 sample_award_db" by (simp add: has_hardfork_def sample_award_db_def sample_db_def)
  ultimately show ?thesis using sample_award_energy sample_claim
    by (auto simp: fixed_award_apply_def sample_fixed_award_def Let_def get_account_def)
qed

lemma sample_fixed_award_valid: "validate_fixed_award \<lparr>is_utf8 = (\<lambda>_. True), json_is_valid = (\<lambda>_. True)\<rparr> sample_fixed_award = Inr ()"
proof -
  have "is_valid_account_name ''alice''" "is_valid_account_name ''bob''" by code_simp+
  then show ?thesis
    by (simp add: validate_fixed_award_def sample_fixed_award_def validate_account_name_def is_asset_type_def fc_assert_def)
qed

text \<open>
  C27: The parts of the beneficiaries of a fixed award are taken from the whole claim, also from the
  part above the wanted amount that goes to the committee fund: alice asks for 1.000 tokens, all for
  bob as beneficiary, claims 1.098, and 1.196 tokens are paid out: 0.098 tokens come from nowhere.
\<close>

theorem fixed_award_creates_tokens:
  "validate_fixed_award \<lparr>is_utf8 = (\<lambda>_. True), json_is_valid = (\<lambda>_. True)\<rparr> sample_fixed_award = Inr () \<and>
   keys_ok sample_award_db \<and> token_total sample_award_db = amount (current_supply (db_dgp sample_award_db)) \<and>
   (\<exists>db'. fixed_award_apply True sample_fixed_award sample_award_db = Inr db' \<and>
      token_total db' = amount (current_supply (db_dgp db')) + 98)"
proof -
  obtain db' where r: "fixed_award_apply True sample_fixed_award sample_award_db = Inr db'"
    using sample_fixed_award_runs by blast
  have "excess db' = 98"
  proof (rule fixed_award_excess [OF r sample_award_books(1)])
    fix tokens
    assume e: "excess db' = excess sample_award_db + max 0 (total (benefactor_tokens tokens) (fa_beneficiaries sample_fixed_award) -
        amount (fa_reward_amount sample_fixed_award))"
      and "\<exists>a need db1. get_account (fa_initiator sample_fixed_award) sample_award_db = Inr a \<and>
        fixed_award_energy sample_fixed_award a sample_award_db = Inr need \<and>
        fixed_award_claim sample_fixed_award (energy_rshares a need) sample_award_db = Inr (tokens, db1)"
    moreover have "fa_initiator sample_fixed_award = ''alice''" by (simp add: sample_fixed_award_def)
    ultimately have "tokens = 1098" using sample_award_energy sample_claim by auto
    with e show ?thesis by (simp add: sample_award_books sample_fixed_award_def benefactor_tokens_def signed_divide_int_def)
  qed
  then show ?thesis using r sample_award_books sample_fixed_award_valid by (auto simp: excess_def)
qed

text \<open>Alice gives bob an award with a beneficiary; the fund pays ninety-nine tokens.\<close>

definition sample_award :: award_operation where
  "sample_award = \<lparr>aw_initiator = ''alice'', aw_receiver = ''bob'', aw_energy = 10, aw_custom_sequence = 0, aw_memo = [],
     aw_beneficiaries = [\<lparr>ben_account = ''alice'', ben_weight = 2500\<rparr>]\<rparr>"

lemma sample_award_ok: "validate_award \<lparr>is_utf8 = (\<lambda>_. True), json_is_valid = (\<lambda>_. True)\<rparr> sample_award = Inr ()"
proof -
  have "is_valid_account_name ''alice''" "is_valid_account_name ''bob''" by code_simp+
  then show ?thesis
    by (simp add: validate_award_def sample_award_def validate_account_name_def fc_assert_def)
qed

lemma sample_award_runs: "\<exists>db'. award_apply True sample_award sample_award_db = Inr db'"
  by (simp add: award_apply_def sample_award_def award_run_defs award_claim_def claim_rshare_award_def reward_payout_def
        spend_energy_def pay_award_def
        pay_beneficiary_def benefactor_tokens_def pay_receiver_def create_vesting_def asset_times_price_def
        get_vesting_share_price_def modify_dgp_def add_field_def asset_add_def adjust_proxied_witness_votes.simps
        adjust_witness_votes_def has_hardfork_def)

theorem award_pays_what_it_claims_witness:
  "\<exists>db' t. award_apply True sample_award sample_award_db = Inr db' \<and> 0 \<le> t \<and>
     amount (total_reward_fund (db_dgp db')) = amount (total_reward_fund (db_dgp sample_award_db)) - t \<and>
     amount (total_vesting_fund (db_dgp db')) = amount (total_vesting_fund (db_dgp sample_award_db)) + t"
proof -
  obtain db' where r: "award_apply True sample_award sample_award_db = Inr db'" using sample_award_runs by blast
  have "\<forall>b \<in> set (aw_beneficiaries sample_award). 0 \<le> ben_weight b" by (simp add: sample_award_def)
  from award_pays_what_it_claims [OF r sample_award_ok this sample_award_books(1,4)] r show ?thesis by blast
qed

section \<open>Energy\<close>

lemma pay_award_energy:
  assumes "pay_award p bs n tokens rt db = Inr db'" and "keys_ok db"
  shows "map (\<lambda>a. (acc_name a, acc_energy a)) (db_accounts db') = map (\<lambda>a. (acc_name a, acc_energy a)) (db_accounts db)"
proof -
  let ?g = "\<lambda>a :: account_object. (acc_name a, acc_energy a)"
  have vf: "vote_free ?g" by (simp add: vote_free_def)
  have cv: "map ?g (db_accounts y) = map ?g (db_accounts x)" if "create_vesting m v x = Inr (w, y)" "keys_ok x" for m v x w y
    using create_vesting_frame [OF that vf] by simp
  have step: "map ?g (db_accounts y) = map ?g (db_accounts x) \<and> keys_ok y"
    if "pay_beneficiary tokens b (t, x) = Inr (t', y)" "keys_ok x" for b t x t' y
  proof -
    from that(1) obtain v z where v: "create_vesting (ben_account b) (mk_asset (benefactor_tokens tokens b) TOKEN_SYMBOL) x = Inr (v, z)" and
      m: "modify_account (ben_account b) (\<lambda>a. Inr (a\<lparr>acc_benefactor_awards :=
             acc_benefactor_awards a + benefactor_tokens tokens b\<rparr>)) z = Inr y"
      by (auto simp: pay_beneficiary_def case_sum_Inr case_option_Inr)
    have "keys_ok z" by (rule paid_keys [OF create_vesting_paid [OF v that(2)]])
    then have "map ?g (db_accounts y) = map ?g (db_accounts z)" by (rule modify_account_view [OF m]) auto
    then show ?thesis using cv [OF v that(2)] pay_beneficiary_paid [OF that] by (auto simp: paid_def)
  qed
  have step': "map ?g (db_accounts (snd s')) = map ?g (db_accounts db) \<and> keys_ok (snd s')"
    if "pay_beneficiary tokens b s = Inr s'" "map ?g (db_accounts (snd s)) = map ?g (db_accounts db) \<and> keys_ok (snd s)" for b s s'
    using step [of b "fst s" "snd s" "fst s'" "snd s'"] that(1) that(2) by simp
  from assms(1) obtain t db1 where f: "fold_result (pay_beneficiary tokens) bs (0, db) = Inr (t, db1)"
    and r: "pay_receiver n (rt - t) db1 = Inr db'"
    by (auto simp: pay_award_def case_sum_Inr if_Inl_Inr)
  have 1: "map ?g (db_accounts (snd (t, db1))) = map ?g (db_accounts db) \<and> keys_ok (snd (t, db1))"
    by (rule fold_result_invariant [where P = "\<lambda>s. map ?g (db_accounts (snd s)) = map ?g (db_accounts db) \<and> keys_ok (snd s)", OF f])
      (use assms(2) in simp, use step' in blast)
  have "map ?g (db_accounts db') = map ?g (db_accounts db1)"
  proof (cases "rt - t > 0")
    case True
    with r obtain v z where v: "create_vesting n (mk_asset (rt - t) TOKEN_SYMBOL) db1 = Inr (v, z)" and
      m: "modify_account n (\<lambda>a. Inr (a\<lparr>acc_receiver_awards := acc_receiver_awards a + (rt - t)\<rparr>)) z = Inr db'"
      by (auto simp: pay_receiver_def case_sum_Inr)
    have k: "keys_ok db1" using 1 by simp
    have "keys_ok z" by (rule paid_keys [OF create_vesting_paid [OF v k]])
    then have "map ?g (db_accounts db') = map ?g (db_accounts z)" by (rule modify_account_view [OF m]) auto
    then show ?thesis using cv [OF v k] by simp
  qed (use r in \<open>auto simp: pay_receiver_def\<close>)
  with 1 show ?thesis by simp
qed

text \<open>
  An award costs the initiator exactly the energy it names, counted from the energy regenerated
  since the last vote: what is left is never negative and never more than 100 percent, and no other
  account loses or gains energy, beneficiaries and receiver included.
\<close>

theorem award_spends_energy:
  assumes "award_apply p o' db = Inr db'" and "validate_award fc o' = Inr ()" and "keys_ok db"
    and "find_row acc_name (aw_initiator o') (db_accounts db) = Some a"
  shows "0 \<le> regenerated (head_block_time db) a - aw_energy o' \<and> regenerated (head_block_time db) a - aw_energy o' \<le> CHAIN_100_PERCENT \<and>
    (\<forall>n. map_option acc_energy (find_row acc_name n (db_accounts db')) =
       (if n = aw_initiator o' then Some (regenerated (head_block_time db) a - aw_energy o')
        else map_option acc_energy (find_row acc_name n (db_accounts db))))"
  using assms(1)
proof (rule award_cases)
  let ?g = "\<lambda>a :: account_object. (acc_name a, acc_energy a)"
  fix a' tokens db1 db2
  assume "get_account (aw_initiator o') db = Inr a'"
    and e: "0 < regenerated (head_block_time db) a'" "aw_energy o' \<le> regenerated (head_block_time db) a'"
    and c: "award_claim (energy_rshares a' (aw_energy o')) db = Inr (tokens, db1)"
    and s: "spend_energy (aw_initiator o') (regenerated (head_block_time db) a' - aw_energy o') db1 = Inr db2"
    and pay: "if tokens > 0 then pay_award p (aw_beneficiaries o') (aw_receiver o') tokens tokens db2 = Inr db' else db' = db2"
  then have a': "a' = a" using assms(4) by (simp add: get_account_Inr)
  have b: "0 \<le> regenerated (head_block_time db) a - aw_energy o'" "regenerated (head_block_time db) a - aw_energy o' \<le> CHAIN_100_PERCENT"
    using e assms(2) by (auto simp: a' validate_award_def run_simps regenerated_def Let_def)
  have acc1: "db_accounts db1 = db_accounts db"
    using c by (auto simp: award_claim_def claim_rshare_award_def run_simps split: if_splits)
  have k1: "keys_ok db1"
    using c assms(3) by (auto simp: award_claim_def case_sum_Inr split: if_splits dest!: claim_rshare_award_ledger)
  have k2: "keys_ok db2" by (rule paid_keys [OF spend_energy_paid [OF s k1]])
  have f2: "map_option acc_energy (find_row acc_name n (db_accounts db2)) =
       (if n = aw_initiator o' then Some (regenerated (head_block_time db) a - aw_energy o')
        else map_option acc_energy (find_row acc_name n (db_accounts db)))" for n
    by (rule modify_account_finds [OF s [unfolded spend_energy_def]]) (use b acc1 in \<open>auto simp: a'\<close>)
  have "map ?g (db_accounts db') = map ?g (db_accounts db2)"
    using pay pay_award_energy [OF _ k2] by (auto split: if_splits)
  then have "map_option ?g (find_row acc_name n (db_accounts db')) = map_option ?g (find_row acc_name n (db_accounts db2))" for n
    by (rule find_row_view) simp
  then have "map_option acc_energy (find_row acc_name n (db_accounts db')) = map_option acc_energy (find_row acc_name n (db_accounts db2))" for n
    by (metis (no_types, lifting) option.map_comp comp_def snd_conv option.map_cong0)
  with f2 b show ?thesis by simp
qed

theorem award_spends_energy_witness:
  "\<exists>db'. award_apply True sample_award sample_award_db = Inr db' \<and>
     map_option acc_energy (find_row acc_name ''alice'' (db_accounts db')) = Some 9990"
proof -
  obtain db' where r: "award_apply True sample_award sample_award_db = Inr db'" using sample_award_runs by blast
  have "find_row acc_name (aw_initiator sample_award) (db_accounts sample_award_db) = Some (sample_account 0 ''alice'' 900000 1000000000000)"
    by (simp add: sample_award_def sample_award_db_def sample_defs)
  from award_spends_energy [OF r sample_award_ok sample_award_books(1) this]
  have "map_option acc_energy (find_row acc_name ''alice'' (db_accounts db')) = Some (10000 - aw_energy sample_award)"
    unfolding sample_award_energy(2) by (simp add: sample_award_def)
  then have "map_option acc_energy (find_row acc_name ''alice'' (db_accounts db')) = Some 9990" by (simp add: sample_award_def)
  with r show ?thesis by blast
qed

end
