(* ===== verification/Accounts.thy ===== *)
theory Accounts
  imports Delegation "HOL-Library.Product_Lexorder"
begin

text \<open>
  Creating and updating accounts, transfers (with the accounts the anonymous account creates), custom
  operations, and the recovery of accounts (\<open>chain/chain_evaluator.cpp\<close>, \<open>chain/database.cpp\<close>).
\<close>

section \<open>Rows of a new account\<close>

text \<open>\<open>create\<close> numbers the objects of a table; the unique index by name may refuse the row.\<close>

definition create_account :: "account_object \<Rightarrow> database \<Rightarrow> database result" where
  "create_account a db =
     (case create_row acc_name (a\<lparr>acc_id := db_next_account_id db\<rparr>) (db_accounts db) of Inl e \<Rightarrow> Inl e
      | Inr accs \<Rightarrow> Inr (db\<lparr>db_accounts := accs, db_next_account_id := db_next_account_id db + 1\<rparr>))"

definition create_authority :: "account_authority_object \<Rightarrow> database \<Rightarrow> database result" where
  "create_authority x db =
     (case create_row aa_account x (db_authorities db) of Inl e \<Rightarrow> Inl e
      | Inr xs \<Rightarrow> Inr (db\<lparr>db_authorities := xs\<rparr>))"

definition create_metadata :: "account_metadata_object \<Rightarrow> database \<Rightarrow> database result" where
  "create_metadata x db =
     (case create_row amo_account x (db_metadata db) of Inl e \<Rightarrow> Inl e
      | Inr xs \<Rightarrow> Inr (db\<lparr>db_metadata := xs\<rparr>))"

definition get_authority :: "account_name_type \<Rightarrow> database \<Rightarrow> account_authority_object result" where
  "get_authority n db =
     (case find_row aa_account n (db_authorities db) of None \<Rightarrow> Inl (Unknown_key n) | Some x \<Rightarrow> Inr x)"

definition modify_authority ::
  "account_name_type \<Rightarrow> (account_authority_object \<Rightarrow> account_authority_object) \<Rightarrow> database \<Rightarrow> database" where
  "modify_authority n f db = db\<lparr>db_authorities := modify_row aa_account n f (db_authorities db)\<rparr>"

definition store_account_json_metadata :: "account_name_type \<Rightarrow> string \<Rightarrow> bool \<Rightarrow> database \<Rightarrow> database" where
  "store_account_json_metadata account json_metadata skip_empty db =
     (if skip_empty \<and> json_metadata = [] then db
      else case find_row amo_account account (db_metadata db) of
        Some _ \<Rightarrow> db\<lparr>db_metadata := modify_row amo_account account (\<lambda>m. m\<lparr>amo_json_metadata := json_metadata\<rparr>) (db_metadata db)\<rparr>
      | None \<Rightarrow> db\<lparr>db_metadata := db_metadata db @ [\<lparr>amo_account = account, amo_json_metadata = json_metadata\<rparr>]\<rparr>)"

definition accounts_exist :: "authority \<Rightarrow> database \<Rightarrow> unit result" where
  "accounts_exist auth db =
     check_all (\<lambda>a. case get_account (fst a) db of Inl e \<Rightarrow> Inl e | Inr _ \<Rightarrow> Inr ()) (account_auths auth)"

section \<open>Creating an account\<close>

text \<open>The checks of the creator and of the price of the account, paid as a fee or as a delegation.\<close>

definition check_account_price :: "account_create_operation \<Rightarrow> account_object \<Rightarrow> database \<Rightarrow> unit result" where
  "check_account_price o' creator db =
     (case asset_ge (acc_balance creator) (ac_fee o') of Inl e \<Rightarrow> Inl e
      | Inr funds \<Rightarrow>
      if \<not> funds then Inl (FC_Assert ''Insufficient balance to create account.'')
      else case asset_ge (mk_asset (available_vesting_shares creator True) SHARES_SYMBOL) (ac_delegation o') of Inl e \<Rightarrow> Inl e
      | Inr shares \<Rightarrow>
      if \<not> shares then Inl (FC_Assert ''Insufficient vesting shares to delegate to new account.'')
      else if has_hardfork 6 db \<and> amount (ac_delegation o') > 0 \<and> \<not> regenerated (head_block_time db) creator \<ge> 0
      then Inl (FC_Assert ''Cannot delegate with negative energy.'')
      else let price = get_vesting_share_price (db_dgp db);
               ratio = i32 (create_account_delegation_ratio (median_props db))
      in case asset_times_price (asset_mult (account_creation_fee (median_props db)) ratio) price of Inl e \<Rightarrow> Inl e
      | Inr target_delegation \<Rightarrow>
      case asset_times_price (asset_mult (ac_fee o') ratio) price of Inl e \<Rightarrow> Inl e
      | Inr fee_delegation \<Rightarrow>
      case asset_add fee_delegation (ac_delegation o') of Inl e \<Rightarrow> Inl e
      | Inr current_delegation \<Rightarrow>
      case asset_ge current_delegation target_delegation of Inl e \<Rightarrow> Inl e
      | Inr enough \<Rightarrow>
      if \<not> enough then Inl (FC_Assert ''Inssufficient Delegation ${f} required, ${p} provided.'') else Inr ())"

definition charge_creator :: "account_create_operation \<Rightarrow> account_object \<Rightarrow> account_object result" where
  "charge_creator o' c =
     (case sub_field acc_balance acc_balance_update (ac_fee o') c of Inl e \<Rightarrow> Inl e
      | Inr c' \<Rightarrow> add_field acc_delegated_vesting_shares acc_delegated_vesting_shares_update (ac_delegation o') c')"

definition new_account :: "account_create_operation \<Rightarrow> database \<Rightarrow> account_object result" where
  "new_account o' db =
     (case (if ac_referrer o' \<noteq> [] then (case get_account (ac_referrer o') db of Inl e \<Rightarrow> Inl e | Inr r \<Rightarrow> Inr (acc_name r))
            else Inr (acc_referrer account_object_defaults)) of Inl e \<Rightarrow> Inl e
      | Inr referrer \<Rightarrow>
        Inr (account_object_defaults\<lparr>acc_name := ac_new_account_name o', acc_memo_key := ac_memo_key o',
          acc_created := head_block_time db, acc_energy := CHAIN_100_PERCENT, acc_last_vote_time := head_block_time db,
          acc_recovery_account := ac_creator o', acc_received_vesting_shares := ac_delegation o',
          acc_referrer := referrer\<rparr>))"

definition create_account_delegation :: "account_create_operation \<Rightarrow> database \<Rightarrow> database result" where
  "create_account_delegation o' db =
     (if amount (ac_delegation o') > 0 then
        case create_row delegation_key \<lparr>vd_delegator = ac_creator o', vd_delegatee = ac_new_account_name o',
          vd_vesting_shares = ac_delegation o',
          vd_min_delegation_time = head_block_time db + create_account_delegation_time (median_props db)\<rparr>
          (db_delegations db) of Inl e \<Rightarrow> Inl e
        | Inr ds \<Rightarrow> Inr (db\<lparr>db_delegations := ds\<rparr>)
      else Inr db)"

definition create_account_objects :: "account_create_operation \<Rightarrow> database \<Rightarrow> database result" where
  "create_account_objects o' db =
     (case new_account o' db of Inl e \<Rightarrow> Inl e
      | Inr acc \<Rightarrow>
      case create_account acc db of Inl e \<Rightarrow> Inl e
      | Inr db1 \<Rightarrow>
      case create_authority \<lparr>aa_account = ac_new_account_name o', aa_master = ac_master o', aa_active = ac_active o',
             aa_regular = ac_regular o', aa_last_master_update = 0\<rparr>
             (store_account_json_metadata (ac_new_account_name o') (ac_json_metadata o') False db1) of Inl e \<Rightarrow> Inl e
      | Inr db2 \<Rightarrow> create_account_delegation o' db2)"

definition account_create_apply :: "account_create_operation \<Rightarrow> database \<Rightarrow> database result" where
  "account_create_apply o' db =
     (case get_account (ac_creator o') db of Inl e \<Rightarrow> Inl e
      | Inr creator \<Rightarrow>
      case check_account_price o' creator db of Inl e \<Rightarrow> Inl e
      | Inr _ \<Rightarrow>
      case all_ok [accounts_exist (ac_master o') db, accounts_exist (ac_active o') db, accounts_exist (ac_regular o') db] of
        Inl e \<Rightarrow> Inl e
      | Inr _ \<Rightarrow>
      case shares_sender_recalc_energy (ac_creator o') (ac_delegation o') db of Inl e \<Rightarrow> Inl e
      | Inr db1 \<Rightarrow>
      case modify_account (ac_creator o') (charge_creator o') db1 of Inl e \<Rightarrow> Inl e
      | Inr db2 \<Rightarrow>
      case create_account_objects o' db2 of Inl e \<Rightarrow> Inl e
      | Inr db3 \<Rightarrow>
      if amount (ac_fee o') > 0 then
        case create_vesting (ac_new_account_name o') (ac_fee o') db3 of Inl e \<Rightarrow> Inl e
        | Inr (_, db4) \<Rightarrow> Inr db4
      else Inr db3)"

section \<open>Updating an account\<close>

definition update_master_authority :: "account_name_type \<Rightarrow> authority \<Rightarrow> database \<Rightarrow> database result" where
  "update_master_authority n master db =
     (case get_authority n db of Inl e \<Rightarrow> Inl e
      | Inr auth \<Rightarrow>
        let db1 = (if head_block_num db \<ge> 1
              then db\<lparr>db_master_history := db_master_history db @
                 [\<lparr>mh_account = n, mh_previous_master_authority = aa_master auth, mh_last_valid_time = head_block_time db\<rparr>]\<rparr>
              else db)
        in Inr (modify_authority n (\<lambda>x. x\<lparr>aa_master := master, aa_last_master_update := head_block_time db\<rparr>) db1))"

definition change_master :: "account_update_operation \<Rightarrow> account_authority_object \<Rightarrow> database \<Rightarrow> database result" where
  "change_master o' account_auth db =
     (case au_master o' of None \<Rightarrow> Inr db
      | Some m \<Rightarrow>
        if \<not> head_block_time db - aa_last_master_update account_auth > CHAIN_MASTER_UPDATE_LIMIT
        then Inl (FC_Assert ''Master authority can only be updated once an hour.'')
        else case accounts_exist m db of Inl e \<Rightarrow> Inl e
        | Inr _ \<Rightarrow> update_master_authority (au_account o') m db)"

definition change_authorities :: "account_update_operation \<Rightarrow> database \<Rightarrow> database" where
  "change_authorities o' db =
     (if au_active o' \<noteq> None \<or> au_regular o' \<noteq> None
      then modify_authority (au_account o') (\<lambda>x. x\<lparr>
             aa_active := (case au_active o' of None \<Rightarrow> aa_active x | Some a \<Rightarrow> a),
             aa_regular := (case au_regular o' of None \<Rightarrow> aa_regular x | Some r \<Rightarrow> r)\<rparr>) db
      else db)"

definition account_update_apply :: "account_update_operation \<Rightarrow> database \<Rightarrow> database result" where
  "account_update_apply o' db =
     (if au_account o' = CHAIN_INVITE_ACCOUNT then Inl (FC_Assert ''Cannot update invite account.'')
      else case (case au_regular o' of None \<Rightarrow> Inr () | Some r \<Rightarrow> authority_validate r) of Inl e \<Rightarrow> Inl e
      | Inr _ \<Rightarrow>
      case get_account (au_account o') db of Inl e \<Rightarrow> Inl e
      | Inr _ \<Rightarrow>
      case get_authority (au_account o') db of Inl e \<Rightarrow> Inl e
      | Inr account_auth \<Rightarrow>
      case change_master o' account_auth db of Inl e \<Rightarrow> Inl e
      | Inr db1 \<Rightarrow>
      case all_ok [case au_active o' of None \<Rightarrow> Inr () | Some a \<Rightarrow> accounts_exist a db1,
                   case au_regular o' of None \<Rightarrow> Inr () | Some r \<Rightarrow> accounts_exist r db1] of Inl e \<Rightarrow> Inl e
      | Inr _ \<Rightarrow>
      case modify_account (au_account o') (\<lambda>acc. Inr (acc\<lparr>
             acc_memo_key := (if au_memo_key o' \<noteq> [] then au_memo_key o' else acc_memo_key acc),
             acc_last_account_update := head_block_time db1\<rparr>)) db1 of Inl e \<Rightarrow> Inl e
      | Inr db2 \<Rightarrow>
        Inr (change_authorities o' (store_account_json_metadata (au_account o') (au_json_metadata o') True db2)))"

definition account_metadata_apply :: "account_metadata_operation \<Rightarrow> database \<Rightarrow> database result" where
  "account_metadata_apply o' db =
     (case modify_account (am_account o') (\<lambda>a. Inr (a\<lparr>acc_last_account_update := head_block_time db\<rparr>)) db of
        Inl e \<Rightarrow> Inl e
      | Inr db1 \<Rightarrow> Inr (store_account_json_metadata (am_account o') (am_json_metadata o') False db1))"


section \<open>Transfers\<close>

text \<open>
  What the memo of a transfer to the anonymous account is read with: trimming of blanks and the
  constructor of a public key from its text are functions of the fc library.
\<close>

record memo_reader =
  fc_trim :: "string \<Rightarrow> string"
  public_key_of :: "string \<Rightarrow> public_key_type result"

text \<open>\<open>std::stoi\<close>: leading blanks, an optional sign, then digits up to the first other character.\<close>

definition stoi :: "string \<Rightarrow> int result" where
  "stoi s =
     (let t = dropWhile is_blank s;
          neg = (t \<noteq> [] \<and> hd t = CHR ''-'');
          u = (if t \<noteq> [] \<and> (hd t = CHR ''-'' \<or> hd t = CHR ''+'') then tl t else t);
          ds = takeWhile is_digit u; v = (if neg then - int (digits_value ds) else int (digits_value ds))
      in if ds = [] then Inl (FC_Assert ''stoi: invalid_argument'')
         else if v < - (2 ^ 31) \<or> v \<ge> 2 ^ 31 then Inl (FC_Assert ''stoi: out_of_range'')
         else Inr v)"

definition int_string :: "int \<Rightarrow> string" where
  "int_string i = (if i < 0 then CHR ''-'' # nat_digits (nat (- i)) else nat_digits (nat i))"

text \<open>The next numbered name of the anonymous account, whose metadata holds the counter.\<close>

definition next_anonymous :: "memo_reader \<Rightarrow> string \<Rightarrow> database \<Rightarrow> (account_name_type \<times> public_key_type \<times> bool \<times> database) result" where
  "next_anonymous env memo db =
     (case public_key_of env memo of Inl e \<Rightarrow> Inl e
      | Inr key \<Rightarrow>
      case find_row amo_account CHAIN_ANONYMOUS_ACCOUNT (db_metadata db) of None \<Rightarrow> Inl (Unknown_key CHAIN_ANONYMOUS_ACCOUNT)
      | Some meta \<Rightarrow>
      case stoi (amo_json_metadata meta) of Inl e \<Rightarrow> Inl e
      | Inr num \<Rightarrow>
        Inr (CHR ''n'' # int_string (num + 1) @ ''.'' @ CHAIN_ANONYMOUS_ACCOUNT, key, True,
             store_account_json_metadata CHAIN_ANONYMOUS_ACCOUNT (int_string (num + 1)) False db))"

text \<open>The name and key of the new account: \<open>login:key\<close> since hardfork 6, otherwise the next number.\<close>

definition anonymous_login :: "memo_reader \<Rightarrow> string \<Rightarrow> nat \<Rightarrow> database \<Rightarrow>
    (account_name_type \<times> public_key_type \<times> bool \<times> database) result" where
  "anonymous_login env memo colon_pos db =
     (let login_part = take colon_pos memo;
          domain = is_valid_domain_name login_part CHAIN_ANONYMOUS_ACCOUNT; name = is_valid_account_name login_part
      in if find_account login_part db \<noteq> None then Inl (FC_Assert ''Account login must be free.'')
         else if has_hardfork 7 db \<and> \<not> domain then Inl (FC_Assert ''Domain name ${n} is invalid, creator name ${c}'')
         else if has_hardfork 7 db \<and> \<not> name then Inl (FC_Assert ''Account name ${n} is invalid'')
         else case public_key_of env (drop (colon_pos + 1) memo) of Inl e \<Rightarrow> Inl e
         | Inr key \<Rightarrow> Inr (login_part, key, domain \<and> name, db))"

definition anonymous_name :: "memo_reader \<Rightarrow> string \<Rightarrow> database \<Rightarrow> (account_name_type \<times> public_key_type \<times> bool \<times> database) result" where
  "anonymous_name env memo db =
     (if has_hardfork 6 db then
        case index_of (CHR '':'') (fc_trim env memo) of
          Some colon_pos \<Rightarrow> anonymous_login env (fc_trim env memo) colon_pos db
        | None \<Rightarrow> next_anonymous env memo db
      else next_anonymous env memo db)"

definition new_anonymous_account :: "account_name_type \<Rightarrow> public_key_type \<Rightarrow> bool \<Rightarrow> database \<Rightarrow> account_object" where
  "new_anonymous_account n key valid db =
     account_object_defaults\<lparr>acc_name := n, acc_memo_key := key, acc_created := head_block_time db,
       acc_energy := CHAIN_100_PERCENT, acc_last_vote_time := head_block_time db, acc_recovery_account := [],
       acc_valid := valid\<rparr>"

definition create_anonymous_objects :: "account_name_type \<Rightarrow> public_key_type \<Rightarrow> bool \<Rightarrow> database \<Rightarrow> database result" where
  "create_anonymous_objects n key valid db =
     (let auth = (add_key_authority key 1 empty_authority)\<lparr>weight_threshold := 1\<rparr>
      in case create_account (new_anonymous_account n key valid db) db of Inl e \<Rightarrow> Inl e
      | Inr db1 \<Rightarrow>
      case create_authority \<lparr>aa_account = n, aa_master = auth, aa_active = auth, aa_regular = auth,
             aa_last_master_update = 0\<rparr> db1 of Inl e \<Rightarrow> Inl e
      | Inr db2 \<Rightarrow> create_metadata \<lparr>amo_account = n, amo_json_metadata = []\<rparr> db2)"

definition create_anonymous_account :: "memo_reader \<Rightarrow> transfer_operation \<Rightarrow> database \<Rightarrow> database result" where
  "create_anonymous_account env o' db =
     (case anonymous_name env (tr_memo o') db of Inl e \<Rightarrow> Inl e
      | Inr (n, key, valid, db1) \<Rightarrow>
      case create_anonymous_objects n key valid db1 of Inl e \<Rightarrow> Inl e
      | Inr db2 \<Rightarrow>
      case adjust_balance (tr_to o') (asset_neg (tr_amount o')) db2 of Inl e \<Rightarrow> Inl e
      | Inr db3 \<Rightarrow>
      case create_vesting n (tr_amount o') db3 of Inl e \<Rightarrow> Inl e
      | Inr (_, db4) \<Rightarrow> Inr db4)"

definition fund_anonymous :: "memo_reader \<Rightarrow> transfer_operation \<Rightarrow> database \<Rightarrow> database result" where
  "fund_anonymous env o' db =
     (case asset_ge (tr_amount o') (account_creation_fee (median_props db)) of Inl e \<Rightarrow> Inl e
      | Inr enough \<Rightarrow>
      if \<not> enough then Inl (FC_Assert ''Inssufficient amount ${f} required, ${p} provided.'')
      else if tr_memo o' = [] then Inr db else create_anonymous_account env o' db)"

definition transfer_apply :: "memo_reader \<Rightarrow> transfer_operation \<Rightarrow> database \<Rightarrow> database result" where
  "transfer_apply env o' db =
     (case get_account (tr_from o') db of Inl e \<Rightarrow> Inl e
      | Inr from_account \<Rightarrow>
      case get_account (tr_to o') db of Inl e \<Rightarrow> Inl e
      | Inr to_account \<Rightarrow>
      case get_balance from_account (symbol (tr_amount o')) of Inl e \<Rightarrow> Inl e
      | Inr balance \<Rightarrow>
      case asset_ge balance (tr_amount o') of Inl e \<Rightarrow> Inl e
      | Inr enough \<Rightarrow>
      if \<not> enough then Inl (FC_Assert ''Account does not have sufficient funds for transfer.'')
      else case adjust_balance (tr_from o') (asset_neg (tr_amount o')) db of Inl e \<Rightarrow> Inl e
      | Inr db1 \<Rightarrow>
      case adjust_balance (tr_to o') (tr_amount o') db1 of Inl e \<Rightarrow> Inl e
      | Inr db2 \<Rightarrow>
      if acc_name to_account \<noteq> CHAIN_ANONYMOUS_ACCOUNT then Inr db2 else fund_anonymous env o' db2)"

section \<open>Custom operations\<close>

definition bump_sequence :: "account_name_type \<Rightarrow> database \<Rightarrow> database result" where
  "bump_sequence n db = modify_account n (\<lambda>a. Inr (a\<lparr>acc_custom_sequence := u64 (acc_custom_sequence a + 1),
     acc_custom_sequence_block_num := u64 (1 + head_block_num db)\<rparr>)) db"

text \<open>
  A registered interpreter is code of a plugin: it leaves a state and possibly an fc exception, which is
  passed on only while a block is being produced; any other exception is dropped (no error here).
\<close>

type_synonym interpreter = "custom_operation \<Rightarrow> database \<Rightarrow> error option \<times> database"

definition custom_apply :: "(string \<Rightarrow> interpreter option) \<Rightarrow> bool \<Rightarrow> custom_operation \<Rightarrow> database \<Rightarrow> database result" where
  "custom_apply get_custom_evaluator is_producing o' db =
     (case fold_result bump_sequence (cu_required_active_auths o' @ cu_required_regular_auths o') db of Inl e \<Rightarrow> Inl e
      | Inr db1 \<Rightarrow>
      case get_custom_evaluator (cu_id o') of None \<Rightarrow> Inr db1
      | Some eval \<Rightarrow>
        (case eval o' db1 of
           (Some e, db2) \<Rightarrow> if is_producing then Inl e else Inr db2
         | (None, db2) \<Rightarrow> Inr db2))"


section \<open>Recovery\<close>

text \<open>The first witness of the index by votes (descending) and name.\<close>

definition top_witness :: "database \<Rightarrow> witness_object option" where
  "top_witness db =
     (case sort_key (\<lambda>w. (- w_votes w, w_owner w)) (db_witnesses db) of [] \<Rightarrow> None | w # _ \<Rightarrow> Some w)"

definition check_recovery_partner :: "request_account_recovery_operation \<Rightarrow> account_object \<Rightarrow> database \<Rightarrow> unit result" where
  "check_recovery_partner o' account_to_recover db =
     (if acc_recovery_account account_to_recover \<noteq> [] then
        fc_assert (acc_recovery_account account_to_recover = rr_recovery_account o')
          ''Cannot recover an account that does not have you as there recovery partner.''
      else case top_witness db of None \<Rightarrow> Inl Null_dereference
        | Some w \<Rightarrow> fc_assert (w_owner w = rr_recovery_account o')
            ''Top witness must recover an account with no recovery partner.'')"

definition request_account_recovery_apply :: "request_account_recovery_operation \<Rightarrow> database \<Rightarrow> database result" where
  "request_account_recovery_apply o' db =
     (case get_account (rr_recovery_account o') db of Inl e \<Rightarrow> Inl e
      | Inr _ \<Rightarrow>
      case get_account (rr_account_to_recover o') db of Inl e \<Rightarrow> Inl e
      | Inr account_to_recover \<Rightarrow>
      case check_recovery_partner o' account_to_recover db of Inl e \<Rightarrow> Inl e
      | Inr _ \<Rightarrow>
      let k = rr_account_to_recover o'; auth = rr_new_master_authority o';
          request = \<lparr>arr_account_to_recover = k, arr_new_master_authority = auth,
            arr_expires = head_block_time db + CHAIN_ACCOUNT_RECOVERY_REQUEST_EXPIRATION_PERIOD\<rparr>;
          possible = fc_assert (\<not> is_impossible auth) ''Cannot recover using an impossible authority.''
      in case find_row arr_account_to_recover k (db_recovery_requests db) of
        None \<Rightarrow>
          (case all_ok [possible, fc_assert (weight_threshold auth \<noteq> 0) ''Cannot recover using an open authority.'',
                 accounts_exist auth db] of Inl e \<Rightarrow> Inl e
           | Inr _ \<Rightarrow> Inr (db\<lparr>db_recovery_requests := db_recovery_requests db @ [request]\<rparr>))
      | Some _ \<Rightarrow>
          if weight_threshold auth = 0
          then Inr (db\<lparr>db_recovery_requests := remove_row arr_account_to_recover k (db_recovery_requests db)\<rparr>)
          else (case all_ok [possible, accounts_exist auth db] of Inl e \<Rightarrow> Inl e
           | Inr _ \<Rightarrow> Inr (db\<lparr>db_recovery_requests :=
               modify_row arr_account_to_recover k (\<lambda>_. request) (db_recovery_requests db)\<rparr>)))"

definition reset_sale :: "database \<Rightarrow> account_object \<Rightarrow> account_object" where
  "reset_sale db a =
     (let a' = a\<lparr>acc_last_account_recovery := head_block_time db\<rparr>
      in if has_hardfork 9 db
         then a'\<lparr>acc_account_seller := [], acc_account_offer_price := mk_asset 0 TOKEN_SYMBOL,
                acc_account_on_sale := False, acc_account_on_sale_start_time := 0\<rparr>
         else a')"

definition recover_account_apply :: "recover_account_operation \<Rightarrow> database \<Rightarrow> database result" where
  "recover_account_apply o' db =
     (let k = ra_account_to_recover o'
      in case get_account k db of Inl e \<Rightarrow> Inl e
      | Inr account \<Rightarrow>
      if \<not> head_block_time db - acc_last_account_recovery account > CHAIN_MASTER_UPDATE_LIMIT
      then Inl (FC_Assert ''Master authority can only be updated once an hour.'')
      else case find_row arr_account_to_recover k (db_recovery_requests db) of
        None \<Rightarrow> Inl (FC_Assert ''There are no active recovery requests for this account.'')
      | Some request \<Rightarrow>
      if \<not> authority_eq (arr_new_master_authority request) (ra_new_master_authority o')
      then Inl (FC_Assert ''New master authority does not match recovery request.'')
      else if \<not> list_ex (\<lambda>h. mh_account h = k \<and> authority_eq (mh_previous_master_authority h) (ra_recent_master_authority o'))
             (db_master_history db)
      then Inl (FC_Assert ''Recent authority not found in authority history.'')
      else case update_master_authority k (ra_new_master_authority o')
             (db\<lparr>db_recovery_requests := remove_row arr_account_to_recover k (db_recovery_requests db)\<rparr>) of Inl e \<Rightarrow> Inl e
      | Inr db1 \<Rightarrow> modify_account k (\<lambda>a. Inr (reset_sale db1 a)) db1)"

definition change_recovery_account_apply :: "change_recovery_account_operation \<Rightarrow> database \<Rightarrow> database result" where
  "change_recovery_account_apply o' db =
     (case get_account (cr_new_recovery_account o') db of Inl e \<Rightarrow> Inl e
      | Inr _ \<Rightarrow>
      case get_account (cr_account_to_recover o') db of Inl e \<Rightarrow> Inl e
      | Inr account_to_recover \<Rightarrow>
      let k = cr_account_to_recover o';
          request = \<lparr>crr_account_to_recover = k, crr_recovery_account = cr_new_recovery_account o',
            crr_effective_on = head_block_time db + CHAIN_MASTER_AUTH_RECOVERY_PERIOD\<rparr>
      in Inr (db\<lparr>db_change_recovery_requests :=
        (case find_row crr_account_to_recover k (db_change_recovery_requests db) of
           None \<Rightarrow> db_change_recovery_requests db @ [request]
         | Some _ \<Rightarrow>
             if acc_recovery_account account_to_recover \<noteq> cr_new_recovery_account o'
             then modify_row crr_account_to_recover k (\<lambda>_. request) (db_change_recovery_requests db)
             else remove_row crr_account_to_recover k (db_change_recovery_requests db))\<rparr>))"

text \<open>
  The processing of every block.  Requests leave by expiry, old authorities in the order of their ids
  up to the first that is still valid, changes of the recovery account in the order of their dates.
\<close>

definition change_recovery :: "change_recovery_account_request_object \<Rightarrow> database \<Rightarrow> database result" where
  "change_recovery r db =
     modify_account (crr_account_to_recover r) (\<lambda>a. Inr (a\<lparr>acc_recovery_account := crr_recovery_account r\<rparr>)) db"

definition account_recovery_processing :: "database \<Rightarrow> database result" where
  "account_recovery_processing db =
     (let now = head_block_time db;
          db1 = db\<lparr>db_recovery_requests := filter (\<lambda>r. \<not> arr_expires r \<le> now) (db_recovery_requests db),
                  db_master_history := dropWhile (\<lambda>h. mh_last_valid_time h + CHAIN_MASTER_AUTH_RECOVERY_PERIOD < now)
                    (db_master_history db)\<rparr>
      in case fold_result change_recovery
            (sort_key crr_effective_on (filter (\<lambda>r. crr_effective_on r \<le> now) (db_change_recovery_requests db))) db1 of
           Inl e \<Rightarrow> Inl e
         | Inr db2 \<Rightarrow> Inr (db2\<lparr>db_change_recovery_requests :=
             filter (\<lambda>r. \<not> crr_effective_on r \<le> now) (db_change_recovery_requests db2)\<rparr>))"

section \<open>What the evaluators do to the books\<close>

lemma create_account_ledger [ledger]:
  assumes "create_account a db = Inr db'" and "keys_ok db"
  shows "keys_ok db' \<and> excess db' = excess db + account_tokens a \<and> share_gap db' = share_gap db - account_shares a"
proof -
  from assms(1) obtain accs where c: "create_row acc_name (a\<lparr>acc_id := db_next_account_id db\<rparr>) (db_accounts db) = Inr accs"
    and db': "db' = db\<lparr>db_accounts := accs, db_next_account_id := db_next_account_id db + 1\<rparr>"
    by (auto simp: create_account_def case_sum_Inr)
  from rows.sum_create [OF c, of account_tokens] rows.sum_create [OF c, of account_shares] rows.invar_create [OF _ c] assms(2)
  show ?thesis
    by (simp add: db' keys_ok_def excess_def token_total_def share_gap_def account_tokens_def account_shares_def)
qed

lemma metadata_same: "same_ledger db (store_account_json_metadata n j skip db)"
  by (auto simp: store_account_json_metadata_def same_ledger_def split: option.splits)

lemma modify_authority_same: "same_ledger db (modify_authority n f db)"
  by (simp add: modify_authority_def same_ledger_def)

lemma create_authority_same: "create_authority x db = Inr db' \<Longrightarrow> same_ledger db db'"
  by (auto simp: create_authority_def same_ledger_def case_sum_Inr)

lemma create_metadata_same: "create_metadata x db = Inr db' \<Longrightarrow> same_ledger db db'"
  by (auto simp: create_metadata_def same_ledger_def case_sum_Inr)

lemma update_master_same: "update_master_authority n m db = Inr db' \<Longrightarrow> same_ledger db db'"
  by (auto simp: update_master_authority_def same_ledger_def case_sum_Inr Let_def modify_authority_def)

lemma account_delegation_same: "create_account_delegation o' db = Inr db' \<Longrightarrow> same_ledger db db'"
  by (auto simp: create_account_delegation_def same_ledger_def run_simps split: if_splits)

lemma same_ledger_refl [simp]: "same_ledger db db"
  by (simp add: same_ledger_def)

lemma same_ledger_trans: "same_ledger a b \<Longrightarrow> same_ledger b c \<Longrightarrow> same_ledger a c"
  by (simp add: same_ledger_def)

lemma new_account_fields:
  "new_account o' db = Inr a \<Longrightarrow> account_tokens a = 0 \<and> account_shares a = 0 \<and> acc_name a = ac_new_account_name o'
     \<and> acc_received_vesting_shares a = ac_delegation o' \<and> acc_delegated_vesting_shares a = mk_asset 0 SHARES_SYMBOL
     \<and> acc_to_withdraw a = 0 \<and> acc_withdrawn a = 0 \<and> acc_vesting_shares a = mk_asset 0 SHARES_SYMBOL
     \<and> acc_balance a = mk_asset 0 TOKEN_SYMBOL"
  by (auto simp: new_account_def case_sum_Inr account_object_defaults_def account_tokens_def account_shares_def)

lemma create_account_objects_cases:
  assumes "create_account_objects o' db = Inr db'"
  obtains a db1 where "new_account o' db = Inr a" and "create_account a db = Inr db1" and "same_ledger db1 db'"
    and "\<exists>db2. create_account_delegation o' db2 = Inr db' \<and> db_delegations db2 = db_delegations db1
           \<and> db_delegation_expirations db2 = db_delegation_expirations db1"
proof -
  from assms obtain a db1 db2 where na: "new_account o' db = Inr a" and c: "create_account a db = Inr db1"
    and auth: "create_authority \<lparr>aa_account = ac_new_account_name o', aa_master = ac_master o', aa_active = ac_active o',
             aa_regular = ac_regular o', aa_last_master_update = 0\<rparr>
             (store_account_json_metadata (ac_new_account_name o') (ac_json_metadata o') False db1) = Inr db2"
    and d: "create_account_delegation o' db2 = Inr db'"
    by (auto simp: create_account_objects_def case_sum_Inr)
  have "same_ledger db1 db'"
    by (rule same_ledger_trans [OF metadata_same same_ledger_trans [OF create_authority_same [OF auth] account_delegation_same [OF d]]])
  moreover have "db_delegations db2 = db_delegations db1 \<and> db_delegation_expirations db2 = db_delegation_expirations db1"
    using auth by (auto simp: create_authority_def store_account_json_metadata_def case_sum_Inr split: option.splits)
  ultimately show ?thesis using na c d that by blast
qed

lemma account_create_cases:
  assumes "account_create_apply o' db = Inr db'"
  obtains creator db1 db2 db3 where "get_account (ac_creator o') db = Inr creator" and "check_account_price o' creator db = Inr ()"
    and "shares_sender_recalc_energy (ac_creator o') (ac_delegation o') db = Inr db1"
    and "modify_account (ac_creator o') (charge_creator o') db1 = Inr db2"
    and "create_account_objects o' db2 = Inr db3"
    and "if amount (ac_fee o') > 0 then (\<exists>v. create_vesting (ac_new_account_name o') (ac_fee o') db3 = Inr (v, db')) else db' = db3"
  using assms by (force simp: account_create_apply_def case_sum_Inr split: if_splits)

lemma account_create_ledger [ledger]:
  assumes "account_create_apply o' db = Inr db'" and "keys_ok db" and "0 \<le> amount (ac_fee o')"
  shows "keys_ok db' \<and> excess db' = excess db \<and> share_gap db' = share_gap db"
  using assms(1)
proof (rule account_create_cases)
  fix creator db1 db2 db3
  assume e: "shares_sender_recalc_energy (ac_creator o') (ac_delegation o') db = Inr db1"
    and m: "modify_account (ac_creator o') (charge_creator o') db1 = Inr db2"
    and c: "create_account_objects o' db2 = Inr db3"
    and v: "if amount (ac_fee o') > 0 then (\<exists>v. create_vesting (ac_new_account_name o') (ac_fee o') db3 = Inr (v, db')) else db' = db3"
  have 1: "keys_ok db1 \<and> excess db1 = excess db \<and> share_gap db1 = share_gap db"
    by (rule shares_sender_recalc_energy_ledger [OF e assms(2)])
  have 2: "keys_ok db2 \<and> excess db2 = excess db1 + - amount (ac_fee o') \<and> share_gap db2 = share_gap db1 - 0"
    by (rule modify_account_tokens [OF m conjunct1 [OF 1]])
      (auto simp: charge_creator_def run_simps account_tokens_def account_shares_def)
  from c have 3: "keys_ok db3 \<and> excess db3 = excess db2 \<and> share_gap db3 = share_gap db2"
  proof (rule create_account_objects_cases)
    fix a dba assume "new_account o' db2 = Inr a" "create_account a db2 = Inr dba" "same_ledger dba db3"
    then show ?thesis
      using create_account_ledger [of a db2 dba] 2 new_account_fields [of o' db2 a] same_ledger_moves [of dba db3] by simp
  qed
  show ?thesis
  proof (cases "amount (ac_fee o') > 0")
    case True
    with v obtain x where "create_vesting (ac_new_account_name o') (ac_fee o') db3 = Inr (x, db')" by auto
    from create_vesting_ledger [OF this] 1 2 3 show ?thesis by simp
  qed (use v 1 2 3 assms(3) in auto)
qed

lemma kept_then_same: "keys_ok db1 \<and> excess db1 = e \<and> share_gap db1 = g \<Longrightarrow> same_ledger db1 db2 \<Longrightarrow>
    keys_ok db2 \<and> excess db2 = e \<and> share_gap db2 = g"
  using same_ledger_moves [of db1 db2] by simp

text \<open>A modification of account fields that hold no tokens and no shares.\<close>

lemma modify_account_kept:
  assumes "modify_account n f db = Inr db'" and "keys_ok db"
    and "\<And>a a'. f a = Inr a' \<Longrightarrow> acc_name a' = acc_name a \<and> account_tokens a' = account_tokens a \<and> account_shares a' = account_shares a"
  shows "keys_ok db' \<and> excess db' = excess db \<and> share_gap db' = share_gap db"
  using modify_account_tokens [OF assms(1,2), of 0 0] assms(3) by auto

lemma change_master_same: "change_master o' x db = Inr db' \<Longrightarrow> same_ledger db db'"
  by (auto simp: change_master_def run_simps dest: update_master_same split: option.splits)

lemma change_authorities_same: "same_ledger db (change_authorities o' db)"
  by (simp add: change_authorities_def modify_authority_same)

lemma account_update_ledger [ledger]:
  assumes "account_update_apply o' db = Inr db'" and "keys_ok db"
  shows "keys_ok db' \<and> excess db' = excess db \<and> share_gap db' = share_gap db"
proof -
  from assms(1) obtain x db1 db2 where
    1: "change_master o' x db = Inr db1" and
    2: "modify_account (au_account o') (\<lambda>acc. Inr (acc\<lparr>
             acc_memo_key := (if au_memo_key o' \<noteq> [] then au_memo_key o' else acc_memo_key acc),
             acc_last_account_update := head_block_time db1\<rparr>)) db1 = Inr db2" and
    3: "db' = change_authorities o' (store_account_json_metadata (au_account o') (au_json_metadata o') True db2)"
    unfolding account_update_apply_def if_Inl_Inr case_sum_Inr by blast
  have "keys_ok db1" using same_ledger_moves [OF change_master_same [OF 1]] assms(2) by simp
  from modify_account_kept [OF 2 this]
  have k: "keys_ok db2 \<and> excess db2 = excess db1 \<and> share_gap db2 = share_gap db1"
    by (auto simp: account_tokens_def account_shares_def)
  have "same_ledger db2 db'" unfolding 3 by (rule same_ledger_trans [OF metadata_same change_authorities_same])
  from kept_then_same [OF k this] same_ledger_moves [OF change_master_same [OF 1]] show ?thesis by simp
qed

lemma account_metadata_ledger [ledger]:
  assumes "account_metadata_apply o' db = Inr db'" and "keys_ok db"
  shows "keys_ok db' \<and> excess db' = excess db \<and> share_gap db' = share_gap db"
proof -
  from assms(1) obtain db1 where
    1: "modify_account (am_account o') (\<lambda>a. Inr (a\<lparr>acc_last_account_update := head_block_time db\<rparr>)) db = Inr db1"
    and 2: "db' = store_account_json_metadata (am_account o') (am_json_metadata o') False db1"
    by (auto simp: account_metadata_apply_def case_sum_Inr)
  from modify_account_kept [OF 1 assms(2)]
  have "keys_ok db1 \<and> excess db1 = excess db \<and> share_gap db1 = share_gap db"
    by (auto simp: account_tokens_def account_shares_def)
  from kept_then_same [OF this] 2 metadata_same show ?thesis by blast
qed

lemma next_anonymous_same: "next_anonymous env memo db = Inr (n, key, v, db') \<Longrightarrow> same_ledger db db'"
  by (auto simp: next_anonymous_def run_simps metadata_same)

lemma anonymous_login_same: "anonymous_login env memo p db = Inr (n, key, v, db') \<Longrightarrow> db' = db"
  by (simp add: anonymous_login_def Let_def run_simps)

lemma anonymous_name_same: "anonymous_name env memo db = Inr (n, key, v, db') \<Longrightarrow> same_ledger db db'"
  by (auto simp: anonymous_name_def split: if_splits option.splits dest: next_anonymous_same anonymous_login_same)

lemma create_anonymous_objects_cases:
  assumes "create_anonymous_objects n key v db = Inr db'"
  obtains dba where "create_account (new_anonymous_account n key v db) db = Inr dba" and "same_ledger dba db'"
proof -
  from assms obtain x y dba dbb where "create_account (new_anonymous_account n key v db) db = Inr dba"
    and "create_authority x dba = Inr dbb" and "create_metadata y dbb = Inr db'"
    unfolding create_anonymous_objects_def Let_def case_sum_Inr by blast
  then show ?thesis
    using that same_ledger_trans [OF create_authority_same create_metadata_same] by blast
qed

lemma create_anonymous_objects_ledger:
  assumes "create_anonymous_objects n key v db = Inr db'" and "keys_ok db"
  shows "keys_ok db' \<and> excess db' = excess db \<and> share_gap db' = share_gap db"
  using assms(1)
proof (rule create_anonymous_objects_cases)
  fix dba
  assume c: "create_account (new_anonymous_account n key v db) db = Inr dba" and s: "same_ledger dba db'"
  from create_account_ledger [OF c assms(2)] same_ledger_moves [OF s] show ?thesis
    by (simp add: new_anonymous_account_def account_tokens_def account_shares_def account_object_defaults_def)
qed

lemma create_anonymous_ledger:
  assumes "create_anonymous_account env o' db = Inr db'" and "keys_ok db"
  shows "keys_ok db' \<and> excess db' = excess db \<and> share_gap db' = share_gap db"
proof -
  from assms(1) obtain n key v db1 db2 db3 s where
    1: "anonymous_name env (tr_memo o') db = Inr (n, key, v, db1)" and
    2: "create_anonymous_objects n key v db1 = Inr db2" and
    3: "adjust_balance (tr_to o') (asset_neg (tr_amount o')) db2 = Inr db3" and
    4: "create_vesting n (tr_amount o') db3 = Inr (s, db')"
    by (auto simp: create_anonymous_account_def case_sum_Inr)
  have k1: "keys_ok db1 \<and> excess db1 = excess db \<and> share_gap db1 = share_gap db"
    using same_ledger_moves [OF anonymous_name_same [OF 1]] assms(2) by simp
  have k2: "keys_ok db2 \<and> excess db2 = excess db1 \<and> share_gap db2 = share_gap db1"
    by (rule create_anonymous_objects_ledger [OF 2 conjunct1 [OF k1]])
  have k3: "keys_ok db3 \<and> excess db3 = excess db2 - amount (tr_amount o') \<and> share_gap db3 = share_gap db2"
    using adjust_balance_ledger [OF 3] k2 by (simp add: asset_neg_def)
  from create_vesting_ledger [OF 4] k1 k2 k3 show ?thesis by simp
qed

lemma transfer_cases:
  assumes "transfer_apply env o' db = Inr db'"
  obtains a b db1 db2 where "find_row acc_name (tr_from o') (db_accounts db) = Some a"
    and "find_row acc_name (tr_to o') (db_accounts db) = Some b"
    and "symbol (tr_amount o') = TOKEN_SYMBOL" and "amount (tr_amount o') \<le> amount (acc_balance a)"
    and "adjust_balance (tr_from o') (asset_neg (tr_amount o')) db = Inr db1"
    and "adjust_balance (tr_to o') (tr_amount o') db1 = Inr db2"
    and "db' = db2 \<or> (tr_to o' = CHAIN_ANONYMOUS_ACCOUNT \<and> create_anonymous_account env o' db2 = Inr db')"
  using assms
  by (auto simp: transfer_apply_def fund_anonymous_def get_balance_def run_simps
      split: if_splits dest!: find_row_key)

lemma transfer_ledger [ledger]:
  assumes "transfer_apply env o' db = Inr db'" and "keys_ok db"
  shows "keys_ok db' \<and> excess db' = excess db \<and> share_gap db' = share_gap db"
  using assms(1)
proof (rule transfer_cases)
  fix db1 db2
  assume 1: "adjust_balance (tr_from o') (asset_neg (tr_amount o')) db = Inr db1"
    and 2: "adjust_balance (tr_to o') (tr_amount o') db1 = Inr db2"
    and 3: "db' = db2 \<or> (tr_to o' = CHAIN_ANONYMOUS_ACCOUNT \<and> create_anonymous_account env o' db2 = Inr db')"
  have k1: "keys_ok db1 \<and> excess db1 = excess db - amount (tr_amount o') \<and> share_gap db1 = share_gap db"
    using adjust_balance_ledger [OF 1 assms(2)] by (simp add: asset_neg_def)
  have k2: "keys_ok db2 \<and> excess db2 = excess db1 + amount (tr_amount o') \<and> share_gap db2 = share_gap db1"
    by (rule adjust_balance_ledger [OF 2 conjunct1 [OF k1]])
  from 3 show ?thesis using k1 k2 create_anonymous_ledger [of env o' db2 db'] by auto
qed

lemma bump_sequences_ledger:
  "fold_result bump_sequence ns db = Inr db' \<Longrightarrow> keys_ok db \<Longrightarrow>
     keys_ok db' \<and> excess db' = excess db \<and> share_gap db' = share_gap db"
  by (rule fold_result_invariant [where P = "\<lambda>s. keys_ok s \<and> excess s = excess db \<and> share_gap s = share_gap db"])
    (auto simp: bump_sequence_def account_tokens_def account_shares_def dest!: modify_account_kept)

lemma custom_ledger [ledger]:
  assumes "custom_apply evals producing o' db = Inr db'" and "keys_ok db"
    and "\<And>i eval db e db'. evals i = Some eval \<Longrightarrow> eval o' db = (e, db') \<Longrightarrow> same_ledger db db'"
  shows "keys_ok db' \<and> excess db' = excess db \<and> share_gap db' = share_gap db"
proof -
  from assms(1) obtain db1 where f: "fold_result bump_sequence (cu_required_active_auths o' @ cu_required_regular_auths o') db = Inr db1"
    and d: "(case evals (cu_id o') of None \<Rightarrow> Inr db1
      | Some eval \<Rightarrow> (case eval o' db1 of (Some e, db2) \<Rightarrow> if producing then Inl e else Inr db2 | (None, db2) \<Rightarrow> Inr db2)) = Inr db'"
    unfolding custom_apply_def case_sum_Inr by blast
  have "same_ledger db1 db'"
  proof (cases "evals (cu_id o')")
    case (Some eval)
    obtain e db2 where r: "eval o' db1 = (e, db2)" by fastforce
    with d Some have "db2 = db'" by (auto split: option.splits if_splits)
    with assms(3) [OF Some r] show ?thesis by simp
  qed (use d in simp)
  with bump_sequences_ledger [OF f assms(2)] show ?thesis by (rule kept_then_same)
qed

lemma recovery_tables_same:
  "same_ledger db (db\<lparr>db_recovery_requests := x\<rparr>)" "same_ledger db (db\<lparr>db_change_recovery_requests := y\<rparr>)"
  "same_ledger db (db\<lparr>db_recovery_requests := x, db_master_history := z\<rparr>)"
  by (simp_all add: same_ledger_def)

lemma request_account_recovery_ledger [ledger]:
  "request_account_recovery_apply o' db = Inr db' \<Longrightarrow> keys_ok db \<Longrightarrow>
     keys_ok db' \<and> excess db' = excess db \<and> share_gap db' = share_gap db"
  by (auto simp: request_account_recovery_apply_def Let_def case_sum_Inr split: option.splits if_splits
      intro!: kept_then_same [OF _ recovery_tables_same(1)])

lemma change_recovery_account_ledger [ledger]:
  "change_recovery_account_apply o' db = Inr db' \<Longrightarrow> keys_ok db \<Longrightarrow>
     keys_ok db' \<and> excess db' = excess db \<and> share_gap db' = share_gap db"
  by (auto simp: change_recovery_account_apply_def Let_def case_sum_Inr
      intro!: kept_then_same [OF _ recovery_tables_same(2)])

lemma recover_account_cases:
  assumes "recover_account_apply o' db = Inr db'"
  obtains request h a db1 where
    "find_row arr_account_to_recover (ra_account_to_recover o') (db_recovery_requests db) = Some request"
    and "authority_eq (arr_new_master_authority request) (ra_new_master_authority o')"
    and "h \<in> set (db_master_history db)" and "mh_account h = ra_account_to_recover o'"
    and "authority_eq (mh_previous_master_authority h) (ra_recent_master_authority o')"
    and "find_row acc_name (ra_account_to_recover o') (db_accounts db) = Some a"
    and "CHAIN_MASTER_UPDATE_LIMIT < head_block_time db - acc_last_account_recovery a"
    and "update_master_authority (ra_account_to_recover o') (ra_new_master_authority o') (db\<lparr>db_recovery_requests :=
             remove_row arr_account_to_recover (ra_account_to_recover o') (db_recovery_requests db)\<rparr>) = Inr db1"
    and "modify_account (ra_account_to_recover o') (\<lambda>a. Inr (reset_sale db1 a)) db1 = Inr db'"
  using assms
  by (auto simp: recover_account_apply_def Let_def case_sum_Inr case_option_Inr if_Inl_Inr get_account_Inr list_ex_iff)

lemma reset_sale_fields [simp]:
  "acc_name (reset_sale db a) = acc_name a" "account_tokens (reset_sale db a) = account_tokens a"
  "account_shares (reset_sale db a) = account_shares a"
  by (simp_all add: reset_sale_def Let_def account_tokens_def account_shares_def)

lemma recover_account_ledger [ledger]:
  assumes "recover_account_apply o' db = Inr db'" and "keys_ok db"
  shows "keys_ok db' \<and> excess db' = excess db \<and> share_gap db' = share_gap db"
  using assms(1)
proof (rule recover_account_cases)
  fix db1
  assume u: "update_master_authority (ra_account_to_recover o') (ra_new_master_authority o') (db\<lparr>db_recovery_requests :=
             remove_row arr_account_to_recover (ra_account_to_recover o') (db_recovery_requests db)\<rparr>) = Inr db1"
    and m: "modify_account (ra_account_to_recover o') (\<lambda>a. Inr (reset_sale db1 a)) db1 = Inr db'"
  have "same_ledger db db1"
    by (rule same_ledger_trans [OF recovery_tables_same(1) update_master_same [OF u]])
  from same_ledger_moves [OF this] assms(2) modify_account_kept [OF m] show ?thesis by auto
qed

lemma account_recovery_processing_ledger [ledger]:
  assumes "account_recovery_processing db = Inr db'" and "keys_ok db"
  shows "keys_ok db' \<and> excess db' = excess db \<and> share_gap db' = share_gap db"
proof -
  from assms(1) obtain x y z rs db2 where f: "fold_result change_recovery rs (db\<lparr>db_recovery_requests := x, db_master_history := y\<rparr>) = Inr db2"
    and db': "db' = db2\<lparr>db_change_recovery_requests := z\<rparr>"
    by (auto simp: account_recovery_processing_def Let_def case_sum_Inr)
  have "keys_ok db2 \<and> excess db2 = excess db \<and> share_gap db2 = share_gap db"
    by (rule fold_result_invariant [where P = "\<lambda>s. keys_ok s \<and> excess s = excess db \<and> share_gap s = share_gap db", OF f])
      (use same_ledger_moves [OF recovery_tables_same(3)] assms(2) in
        \<open>auto simp: change_recovery_def account_tokens_def account_shares_def dest!: modify_account_kept\<close>)
  then show ?thesis unfolding db' by (rule kept_then_same [OF _ recovery_tables_same(2)])
qed

section \<open>What a transfer does\<close>

definition credited :: "int \<Rightarrow> account_object \<Rightarrow> account_object" where
  "credited x a = a\<lparr>acc_balance := mk_asset (amount (acc_balance a) + x) TOKEN_SYMBOL\<rparr>"

lemma adjust_balance_credited:
  "adjust_balance n d db = Inr db' \<Longrightarrow> symbol d = TOKEN_SYMBOL \<Longrightarrow>
     find_row acc_name m (db_accounts db') =
       (if m = n then map_option (credited (amount d)) (find_row acc_name n (db_accounts db)) else find_row acc_name m (db_accounts db))"
  by (simp add: adjust_balance_find credited_def [abs_def])

lemma credited_twice: "credited x (credited y a) = credited (y + x) a"
  by (simp add: credited_def)

lemma credited_none: "symbol (acc_balance a) = TOKEN_SYMBOL \<Longrightarrow> credited 0 a = a"
  by (cases a) (simp add: credited_def mk_asset_def)

lemma transfer_success:
  assumes "solvent db" and "tr_to o' \<noteq> CHAIN_ANONYMOUS_ACCOUNT"
    and a: "find_row acc_name (tr_from o') (db_accounts db) = Some a" and b: "find_row acc_name (tr_to o') (db_accounts db) = Some b"
    and s: "symbol (tr_amount o') = TOKEN_SYMBOL" and le: "amount (tr_amount o') \<le> amount (acc_balance a)"
  shows "\<exists>db'. transfer_apply env o' db = Inr db'"
proof -
  have sn: "symbol (asset_neg (tr_amount o')) = TOKEN_SYMBOL" using s by (simp add: asset_neg_def)
  have sa: "symbol (acc_balance a) = TOKEN_SYMBOL" using solventD [OF assms(1) a] by simp
  obtain db1 where 1: "adjust_balance (tr_from o') (asset_neg (tr_amount o')) db = Inr db1"
    by (rule adjust_balance_runs [OF assms(1) a sn])
  have "solvent db1"
    by (rule adjust_balance_solvent [OF 1 assms(1)]) (use a le in \<open>auto simp: asset_neg_def\<close>)
  moreover obtain b' where "find_row acc_name (tr_to o') (db_accounts db1) = Some b'"
    using adjust_balance_finds [OF 1, of "tr_to o'"] b by auto
  ultimately obtain db2 where 2: "adjust_balance (tr_to o') (tr_amount o') db1 = Inr db2"
    by (rule adjust_balance_runs [OF _ _ s])
  from a b s sa le 1 2 assms(2) find_row_key [OF b] show ?thesis
    by (simp add: transfer_apply_def get_account_def get_balance_def asset_cmp_defs)
qed

lemma transfer_effect:
  assumes "transfer_apply env o' db = Inr db'" and "solvent db" and "tr_to o' \<noteq> CHAIN_ANONYMOUS_ACCOUNT"
    and pos: "0 < amount (tr_amount o')"
  defines "d \<equiv> (\<lambda>n. (if n = tr_to o' then amount (tr_amount o') else 0) - (if n = tr_from o' then amount (tr_amount o') else 0))"
  shows "solvent db' \<and> (\<exists>accs. db' = db\<lparr>db_accounts := accs\<rparr>) \<and>
    (\<forall>n. find_row acc_name n (db_accounts db') = map_option (credited (d n)) (find_row acc_name n (db_accounts db)))"
  using assms(1)
proof (rule transfer_cases)
  fix a b db1 db2
  assume a: "find_row acc_name (tr_from o') (db_accounts db) = Some a"
    and s: "symbol (tr_amount o') = TOKEN_SYMBOL" and le: "amount (tr_amount o') \<le> amount (acc_balance a)"
    and 1: "adjust_balance (tr_from o') (asset_neg (tr_amount o')) db = Inr db1"
    and 2: "adjust_balance (tr_to o') (tr_amount o') db1 = Inr db2"
    and "db' = db2 \<or> (tr_to o' = CHAIN_ANONYMOUS_ACCOUNT \<and> create_anonymous_account env o' db2 = Inr db')"
  then have db': "db' = db2" using assms(3) by simp
  have s1: "solvent db1"
    by (rule adjust_balance_solvent [OF 1 assms(2)]) (use a le in \<open>auto simp: asset_neg_def\<close>)
  have s2: "solvent db2"
    by (rule adjust_balance_solvent [OF 2 s1]) (use solventD [OF s1] pos in force)
  have f: "find_row acc_name n (db_accounts db') = map_option (credited (d n)) (find_row acc_name n (db_accounts db))" for n
    using credited_none solventD [OF assms(2)] adjust_balance_credited [OF 2 s, of n]
      adjust_balance_credited [OF 1, of n] adjust_balance_credited [OF 1, of "tr_to o'"] s
    by (cases "find_row acc_name n (db_accounts db)") (auto simp: db' d_def asset_neg_def credited_twice)
  have "\<exists>accs. db' = db\<lparr>db_accounts := accs\<rparr>"
    using 1 2 by (auto simp: db' adjust_balance_def modify_account_Inr)
  with s2 f show ?thesis by (simp add: db')
qed

text \<open>
  A transfer between existing accounts (the anonymous account apart) succeeds exactly when it is
  in tokens and the sender holds the amount; it then takes the amount from the sender, gives it to
  the receiver, changes no other account and no other field, and leaves no account overdrawn.
\<close>


theorem transfer_exact:
  assumes "solvent db" and "tr_to o' \<noteq> CHAIN_ANONYMOUS_ACCOUNT"
    and "find_row acc_name (tr_from o') (db_accounts db) = Some a" and "find_row acc_name (tr_to o') (db_accounts db) = Some b"
    and "0 < amount (tr_amount o')"
  shows "((\<exists>db'. transfer_apply env o' db = Inr db') \<longleftrightarrow>
           symbol (tr_amount o') = TOKEN_SYMBOL \<and> amount (tr_amount o') \<le> amount (acc_balance a)) \<and>
    (\<forall>db'. transfer_apply env o' db = Inr db' \<longrightarrow> solvent db' \<and> (\<exists>accs. db' = db\<lparr>db_accounts := accs\<rparr>) \<and>
       (\<forall>n. find_row acc_name n (db_accounts db') = map_option
          (credited ((if n = tr_to o' then amount (tr_amount o') else 0) - (if n = tr_from o' then amount (tr_amount o') else 0)))
          (find_row acc_name n (db_accounts db))))"
proof -
  have "symbol (tr_amount o') = TOKEN_SYMBOL \<and> amount (tr_amount o') \<le> amount (acc_balance a)"
    if "transfer_apply env o' db = Inr db'" for db'
    using that by (rule transfer_cases) (use assms(3) in auto)
  with transfer_success [OF assms(1-4)] transfer_effect [OF _ assms(1,2,5)] show ?thesis by blast
qed

theorem transfer_exact_witness:
  "\<exists>db'. transfer_apply \<lparr>fc_trim = (\<lambda>s. s), public_key_of = Inr\<rparr>
     \<lparr>tr_from = ''alice'', tr_to = ''bob'', tr_amount = mk_asset 5000 TOKEN_SYMBOL, tr_memo = ''hi''\<rparr> sample_db = Inr db'
     \<and> solvent db'"
proof -
  let ?o = "\<lparr>tr_from = ''alice'', tr_to = ''bob'', tr_amount = mk_asset 5000 TOKEN_SYMBOL, tr_memo = ''hi''\<rparr>"
  have "find_row acc_name ''alice'' (db_accounts sample_db) = Some (sample_account 0 ''alice'' 900000 500000)"
    "find_row acc_name ''bob'' (db_accounts sample_db) = Some (sample_account 1 ''bob'' 100000 500000)"
    by (simp_all add: sample_defs)
  then have "find_row acc_name (tr_from ?o) (db_accounts sample_db) = Some (sample_account 0 ''alice'' 900000 500000)"
    "find_row acc_name (tr_to ?o) (db_accounts sample_db) = Some (sample_account 1 ''bob'' 100000 500000)" by simp_all
  from transfer_exact [OF sample_db_ok(2) _ this, of "\<lparr>fc_trim = (\<lambda>s. s), public_key_of = Inr\<rparr>"] show ?thesis
    by (simp add: CHAIN_ANONYMOUS_ACCOUNT_def sample_account_def) blast
qed

section \<open>The windows of account recovery\<close>

text \<open>
  Old master authorities are kept in the order of their last valid times and none is older than the
  recovery period; pending requests are not expired and expire within a day.
\<close>

definition history_ok :: "int \<Rightarrow> master_authority_history_object list \<Rightarrow> bool" where
  "history_ok now hs = (sorted_wrt (\<lambda>x y. mh_last_valid_time x \<le> mh_last_valid_time y) hs \<and>
     (\<forall>h \<in> set hs. mh_last_valid_time h \<le> now))"

definition recovery_fresh :: "database \<Rightarrow> bool" where
  "recovery_fresh db = (history_ok (head_block_time db) (db_master_history db) \<and>
     (\<forall>h \<in> set (db_master_history db). head_block_time db \<le> mh_last_valid_time h + CHAIN_MASTER_AUTH_RECOVERY_PERIOD) \<and>
     (\<forall>r \<in> set (db_recovery_requests db). head_block_time db < arr_expires r \<and>
        arr_expires r \<le> head_block_time db + CHAIN_ACCOUNT_RECOVERY_REQUEST_EXPIRATION_PERIOD))"

text \<open>
  The operations that write these tables, and a block: its time is at least the time of the block
  before, and the processing runs after its transactions.
\<close>

inductive recovery_step :: "database \<Rightarrow> database \<Rightarrow> bool" where
  request: "request_account_recovery_apply r db = Inr db' \<Longrightarrow> recovery_step db db'"
| recover: "recover_account_apply ra db = Inr db' \<Longrightarrow> recovery_step db db'"
| change: "change_recovery_account_apply c db = Inr db' \<Longrightarrow> recovery_step db db'"
| update: "account_update_apply u db = Inr db' \<Longrightarrow> recovery_step db db'"
| block: "head_block_time db \<le> dgp_time p \<Longrightarrow> account_recovery_processing (db\<lparr>db_dgp := p\<rparr>) = Inr db' \<Longrightarrow> recovery_step db db'"

inductive_cases recovery_stepE: "recovery_step db db'"

text \<open>The part of the state the invariant reads.\<close>

definition recovery_view :: "database \<Rightarrow> int \<times> master_authority_history_object list \<times> account_recovery_request_object list" where
  "recovery_view db = (head_block_time db, db_master_history db, db_recovery_requests db)"

lemma recovery_fresh_view: "recovery_view db' = recovery_view db \<Longrightarrow> recovery_fresh db' = recovery_fresh db"
  by (simp add: recovery_view_def recovery_fresh_def)

lemma modify_account_recovery_view: "modify_account n f db = Inr db' \<Longrightarrow> recovery_view db' = recovery_view db"
  by (auto simp: modify_account_Inr recovery_view_def)

lemma metadata_recovery_view: "recovery_view (store_account_json_metadata n j b db) = recovery_view db"
  by (simp add: store_account_json_metadata_def recovery_view_def split: option.splits)

lemma change_authorities_view: "recovery_view (change_authorities o' db) = recovery_view db"
  by (simp add: change_authorities_def modify_authority_def recovery_view_def)

lemma history_ok_append:
  "history_ok now hs \<Longrightarrow> mh_last_valid_time h = now \<Longrightarrow> history_ok now (hs @ [h])"
  by (auto simp: history_ok_def sorted_wrt_append)

lemma update_master_view:
  assumes "update_master_authority n m db = Inr db'"
  shows "recovery_view db' = recovery_view db \<or> (\<exists>x. mh_last_valid_time x = head_block_time db \<and>
    recovery_view db' = (head_block_time db, db_master_history db @ [x], db_recovery_requests db))"
  using assms
  by (cases "1 \<le> head_block_num db")
    (auto simp: update_master_authority_def Let_def case_sum_Inr recovery_view_def modify_authority_def)

lemma update_master_fresh:
  assumes "update_master_authority n m db = Inr db'" and "recovery_fresh db"
  shows "recovery_fresh db'"
  using update_master_view [OF assms(1)]
proof
  assume "recovery_view db' = recovery_view db"
  then show ?thesis using assms(2) recovery_fresh_view by blast
next
  assume "\<exists>x. mh_last_valid_time x = head_block_time db \<and>
    recovery_view db' = (head_block_time db, db_master_history db @ [x], db_recovery_requests db)"
  then show ?thesis using assms(2) history_ok_append
    by (auto simp: recovery_view_def recovery_fresh_def)
qed

text \<open>On a sorted history the loop up to the first valid entry removes exactly the stale ones.\<close>

lemma dropWhile_stale:
  assumes "history_ok now hs"
  shows "dropWhile (\<lambda>h. mh_last_valid_time h + p < t) hs = filter (\<lambda>h. \<not> mh_last_valid_time h + p < t) hs"
proof -
  have "sorted_wrt (\<lambda>x y. mh_last_valid_time x \<le> mh_last_valid_time y) hs" using assms by (simp add: history_ok_def)
  then show ?thesis
  proof (induction hs)
    case (Cons h hs)
    then have "\<forall>x \<in> set hs. \<not> mh_last_valid_time h + p < t \<longrightarrow> \<not> mh_last_valid_time x + p < t" by force
    with Cons show ?case by (auto simp: filter_id_conv)
  qed simp
qed

lemma request_fresh:
  "request_account_recovery_apply r db = Inr db' \<Longrightarrow> recovery_fresh db \<Longrightarrow> recovery_fresh db'"
  by (auto simp: request_account_recovery_apply_def Let_def case_sum_Inr recovery_fresh_def remove_row_def modify_row_def
      split: option.splits if_splits)

lemma recover_fresh:
  assumes "recover_account_apply o' db = Inr db'" and "recovery_fresh db"
  shows "recovery_fresh db'"
  using assms(1)
proof (rule recover_account_cases)
  let ?db = "db\<lparr>db_recovery_requests := remove_row arr_account_to_recover (ra_account_to_recover o') (db_recovery_requests db)\<rparr>"
  fix db1
  assume u: "update_master_authority (ra_account_to_recover o') (ra_new_master_authority o') ?db = Inr db1"
    and m: "modify_account (ra_account_to_recover o') (\<lambda>a. Inr (reset_sale db1 a)) db1 = Inr db'"
  have "recovery_fresh ?db" using assms(2) by (auto simp: recovery_fresh_def remove_row_def)
  from update_master_fresh [OF u this] show ?thesis
    using recovery_fresh_view [OF modify_account_recovery_view [OF m]] by simp
qed

lemma account_update_fresh:
  assumes "account_update_apply o' db = Inr db'" and "recovery_fresh db"
  shows "recovery_fresh db'"
proof -
  from assms(1) obtain x f db1 db2 where
    1: "change_master o' x db = Inr db1" and 2: "modify_account (au_account o') f db1 = Inr db2" and
    3: "db' = change_authorities o' (store_account_json_metadata (au_account o') (au_json_metadata o') True db2)"
    unfolding account_update_apply_def if_Inl_Inr case_sum_Inr by blast
  have "recovery_fresh db1" using 1 assms(2)
    by (auto simp: change_master_def run_simps dest: update_master_fresh split: option.splits)
  moreover have "recovery_view db' = recovery_view db1"
    using modify_account_recovery_view [OF 2] by (simp add: 3 change_authorities_view metadata_recovery_view)
  ultimately show ?thesis using recovery_fresh_view by blast
qed

lemma processing_view:
  assumes "account_recovery_processing db = Inr db'"
  shows "recovery_view db' = (head_block_time db,
    dropWhile (\<lambda>h. mh_last_valid_time h + CHAIN_MASTER_AUTH_RECOVERY_PERIOD < head_block_time db) (db_master_history db),
    filter (\<lambda>r. \<not> arr_expires r \<le> head_block_time db) (db_recovery_requests db))"
proof -
  let ?db = "db\<lparr>db_recovery_requests := filter (\<lambda>r. \<not> arr_expires r \<le> head_block_time db) (db_recovery_requests db),
      db_master_history := dropWhile (\<lambda>h. mh_last_valid_time h + CHAIN_MASTER_AUTH_RECOVERY_PERIOD < head_block_time db)
        (db_master_history db)\<rparr>"
  from assms obtain z rs db2 where f: "fold_result change_recovery rs ?db = Inr db2"
    and db': "db' = db2\<lparr>db_change_recovery_requests := z\<rparr>"
    unfolding account_recovery_processing_def Let_def case_sum_Inr by blast
  have "recovery_view db2 = recovery_view ?db"
    by (rule fold_result_invariant [where P = "\<lambda>s. recovery_view s = recovery_view ?db", OF f])
      (auto simp: change_recovery_def dest!: modify_account_recovery_view)
  then show ?thesis by (simp add: db' recovery_view_def)
qed

lemma block_fresh:
  assumes "account_recovery_processing (db\<lparr>db_dgp := p\<rparr>) = Inr db'" and "head_block_time db \<le> dgp_time p" and "recovery_fresh db"
  shows "recovery_fresh db'"
proof -
  have h: "history_ok (dgp_time p) (db_master_history db)" "history_ok (head_block_time db) (db_master_history db)"
    using assms(2,3) by (auto simp: recovery_fresh_def history_ok_def)
  from processing_view [OF assms(1)] have v: "head_block_time db' = dgp_time p"
    "db_master_history db' = filter (\<lambda>h. \<not> mh_last_valid_time h + CHAIN_MASTER_AUTH_RECOVERY_PERIOD < dgp_time p) (db_master_history db)"
    "db_recovery_requests db' = filter (\<lambda>r. \<not> arr_expires r \<le> dgp_time p) (db_recovery_requests db)"
    by (simp_all add: recovery_view_def dropWhile_stale [OF h(1)])
  have "history_ok (dgp_time p) (db_master_history db')"
    using h(1) by (auto simp: v history_ok_def sorted_wrt_filter)
  then show ?thesis using assms(2,3) by (auto simp: recovery_fresh_def v)
qed

lemma change_fresh: "change_recovery_account_apply c db = Inr db' \<Longrightarrow> recovery_fresh db \<Longrightarrow> recovery_fresh db'"
  by (auto simp: change_recovery_account_apply_def Let_def case_sum_Inr recovery_fresh_def)

lemma recovery_step_fresh: "recovery_step db db' \<Longrightarrow> recovery_fresh db \<Longrightarrow> recovery_fresh db'"
  by (erule recovery_stepE; (erule (1) request_fresh recover_fresh change_fresh account_update_fresh | rule block_fresh; assumption))

text \<open>
  C23: However the recovery operations, master key updates and blocks are interleaved, an account can
  only be recovered with a request that was filed at most a day ago and names the very authority, and
  with an authority that was the master authority of this account within the last thirty days.
\<close>

theorem recovery_within_windows:
  assumes "recovery_step\<^sup>*\<^sup>* db0 db" and "recovery_fresh db0" and "recover_account_apply o' db = Inr db'"
  shows "\<exists>r \<in> set (db_recovery_requests db). \<exists>h \<in> set (db_master_history db).
     arr_account_to_recover r = ra_account_to_recover o' \<and>
     authority_eq (arr_new_master_authority r) (ra_new_master_authority o') \<and>
     head_block_time db < arr_expires r \<and> arr_expires r \<le> head_block_time db + CHAIN_ACCOUNT_RECOVERY_REQUEST_EXPIRATION_PERIOD \<and>
     mh_account h = ra_account_to_recover o' \<and>
     authority_eq (mh_previous_master_authority h) (ra_recent_master_authority o') \<and>
     head_block_time db - CHAIN_MASTER_AUTH_RECOVERY_PERIOD \<le> mh_last_valid_time h \<and> mh_last_valid_time h \<le> head_block_time db"
proof -
  have "recovery_fresh db"
    using assms(1,2) by (induction rule: rtranclp_induct) (auto intro: recovery_step_fresh)
  note fresh = this [unfolded recovery_fresh_def history_ok_def]
  show ?thesis
  proof (rule recover_account_cases [OF assms(3)])
    fix r h
    assume r: "find_row arr_account_to_recover (ra_account_to_recover o') (db_recovery_requests db) = Some r"
      and e: "authority_eq (arr_new_master_authority r) (ra_new_master_authority o')"
      and h: "h \<in> set (db_master_history db)" "mh_account h = ra_account_to_recover o'"
        "authority_eq (mh_previous_master_authority h) (ra_recent_master_authority o')"
    have "mh_last_valid_time h \<le> head_block_time db"
      "head_block_time db - CHAIN_MASTER_AUTH_RECOVERY_PERIOD \<le> mh_last_valid_time h" using fresh h(1) by auto
    moreover have "head_block_time db < arr_expires r"
      "arr_expires r \<le> head_block_time db + CHAIN_ACCOUNT_RECOVERY_REQUEST_EXPIRATION_PERIOD"
      using fresh find_row_set [OF r] by blast+
    ultimately show ?thesis using e h find_row_key [OF r] find_row_set [OF r] by blast
  qed
qed

definition sample_recovery_authority :: "string \<Rightarrow> authority" where
  "sample_recovery_authority k = (add_key_authority k 1 empty_authority)\<lparr>weight_threshold := 1\<rparr>"

text \<open>Bob, the recovery partner of alice, asks to recover her account with the key \<open>new\<close>; her key was \<open>old\<close> an hour ago.\<close>

definition sample_recovery_db :: database where
  "sample_recovery_db = sample_db\<lparr>
     db_accounts := [(sample_account 0 ''alice'' 900000 500000)\<lparr>acc_recovery_account := ''bob''\<rparr>, sample_account 1 ''bob'' 100000 500000],
     db_authorities := [\<lparr>aa_account = ''alice'', aa_master = sample_recovery_authority ''stolen'',
       aa_active = sample_recovery_authority ''stolen'', aa_regular = sample_recovery_authority ''stolen'', aa_last_master_update = 0\<rparr>],
     db_master_history := [\<lparr>mh_account = ''alice'', mh_previous_master_authority = sample_recovery_authority ''old'',
       mh_last_valid_time = 996400\<rparr>]\<rparr>"

definition sample_request :: request_account_recovery_operation where
  "sample_request = \<lparr>rr_recovery_account = ''bob'', rr_account_to_recover = ''alice'',
     rr_new_master_authority = sample_recovery_authority ''new''\<rparr>"

definition sample_recover :: recover_account_operation where
  "sample_recover = \<lparr>ra_account_to_recover = ''alice'', ra_new_master_authority = sample_recovery_authority ''new'',
     ra_recent_master_authority = sample_recovery_authority ''old''\<rparr>"

lemmas sample_recovery_defs = sample_recovery_db_def sample_request_def sample_recover_def sample_recovery_authority_def sample_defs

lemma sample_recovery_run:
  "\<exists>db db'. request_account_recovery_apply sample_request sample_recovery_db = Inr db \<and> recover_account_apply sample_recover db = Inr db'"
  by (simp add: sample_recovery_defs request_account_recovery_apply_def recover_account_apply_def get_account_def get_authority_def
      check_recovery_partner_def accounts_exist_def update_master_authority_def modify_authority_def modify_account_def update_row_def
      reset_sale_def authority_eq_def add_key_authority_def empty_authority_def is_impossible_def Let_def fc_assert_def
      CHAIN_MASTER_UPDATE_LIMIT_def)

theorem recovery_within_windows_witness:
  "\<exists>db r h. recovery_step\<^sup>*\<^sup>* sample_recovery_db db \<and> r \<in> set (db_recovery_requests db) \<and> h \<in> set (db_master_history db) \<and>
     head_block_time db < arr_expires r \<and> head_block_time db - CHAIN_MASTER_AUTH_RECOVERY_PERIOD \<le> mh_last_valid_time h"
proof -
  obtain db db' where r: "request_account_recovery_apply sample_request sample_recovery_db = Inr db"
    and a: "recover_account_apply sample_recover db = Inr db'" using sample_recovery_run by blast
  have f: "recovery_fresh sample_recovery_db"
    by (simp add: recovery_fresh_def history_ok_def sample_recovery_defs)
  have s: "recovery_step\<^sup>*\<^sup>* sample_recovery_db db" using r by (blast intro: recovery_step.request)
  from recovery_within_windows [OF s f a] s show ?thesis by blast
qed

end
