(* ===== verification/Key_Conversion.thy ===== *)
theory Key_Conversion
  imports Viz_Prelude
begin

text \<open>
  Private keys in wallet import format (\<open>utilities/key_conversion.cpp\<close>).  Base 58, SHA-256 and the
  reading of a private key are functions of the fc library and parameters here; a private key is its
  secret, a string of bytes.
\<close>

record key_env =
  to_base58 :: "string \<Rightarrow> string"
  from_base58 :: "string \<Rightarrow> string option"
  sha256 :: "string \<Rightarrow> string"
  read_private_key :: "string \<Rightarrow> string result"
  get_public_key :: "string \<Rightarrow> string"

definition key_to_wif :: "key_env \<Rightarrow> string \<Rightarrow> string" where
  "key_to_wif env secret =
     (let data = CHR 0x80 # secret; digest = sha256 env (sha256 env data)
      in to_base58 env (data @ take 4 digest))"

text \<open>\<open>Inr None\<close> is an empty optional, \<open>Inl\<close> an exception of the reader of the key.\<close>

definition wif_to_key :: "key_env \<Rightarrow> string \<Rightarrow> string option result" where
  "wif_to_key env wif_key =
     (case from_base58 env wif_key of None \<Rightarrow> Inr None
      | Some wif_bytes \<Rightarrow>
        if length wif_bytes < 5 then Inr None
        else
          let body = take (length wif_bytes - 4) wif_bytes; tail = drop (length wif_bytes - 4) wif_bytes
          in case read_private_key env (drop 1 body) of Inl e \<Rightarrow> Inl e
             | Inr key \<Rightarrow>
               let check = sha256 env body; check2 = sha256 env check
               in Inr (if take 4 check = tail \<or> take 4 check2 = tail then Some key else None))"

text \<open>
  A key written in wallet import format and read again is the same key, when base 58 is decoded
  to what was encoded, digests have at least four bytes and the secret is one the key reader accepts.
\<close>

theorem wif_roundtrip:
  assumes "\<And>s. from_base58 env (to_base58 env s) = Some s" and "\<And>s. length (sha256 env s) = 32"
    and "read_private_key env secret = Inr secret"
  shows "wif_to_key env (key_to_wif env secret) = Inr (Some secret)"
  using assms by (simp add: wif_to_key_def key_to_wif_def Let_def)

text \<open>
  Only strings with a correct checksum are keys: whatever \<open>wif_to_key\<close> accepts ends with the first
  four bytes of the single or the double hash of the rest.
\<close>

lemma wif_checksum:
  assumes "wif_to_key env wif = Inr (Some key)"
  shows "\<exists>body tail. from_base58 env wif = Some (body @ tail) \<and> length tail = 4 \<and> read_private_key env (drop 1 body) = Inr key \<and>
     (tail = take 4 (sha256 env body) \<or> tail = take 4 (sha256 env (sha256 env body)))"
proof -
  from assms obtain bytes where b: "from_base58 env wif = Some bytes" "\<not> length bytes < 5"
    and r: "read_private_key env (drop 1 (take (length bytes - 4) bytes)) = Inr key"
    and c: "take 4 (sha256 env (take (length bytes - 4) bytes)) = drop (length bytes - 4) bytes \<or>
      take 4 (sha256 env (sha256 env (take (length bytes - 4) bytes))) = drop (length bytes - 4) bytes"
    by (auto simp: wif_to_key_def Let_def case_sum_Inr split: option.splits if_splits)
  have "bytes = take (length bytes - 4) bytes @ drop (length bytes - 4) bytes" by simp
  with b r c show ?thesis
    by (intro exI [of _ "take (length bytes - 4) bytes"] exI [of _ "drop (length bytes - 4) bytes"]) auto
qed

definition sample_keys :: key_env where
  "sample_keys = \<lparr>to_base58 = (\<lambda>s. s), from_base58 = Some, sha256 = (\<lambda>s. take 32 (s @ replicate 32 (CHR 0x00))),
     read_private_key = Inr, get_public_key = (\<lambda>s. CHR ''V'' # s)\<rparr>"

theorem wif_roundtrip_witness: "wif_to_key sample_keys (key_to_wif sample_keys ''secret'') = Inr (Some ''secret'')"
  by (rule wif_roundtrip) (simp_all add: sample_keys_def)

end
