(* ===== verification/Invites.thy ===== *)
theory Invites
  imports Accounts Key_Conversion
begin

text \<open>
  Invites (\<open>chain/invite_evaluator.cpp\<close> and \<open>clear_used_invites\<close> of \<open>chain/database.cpp\<close>): tokens set
  aside under a public key, which whoever knows the private key may claim once, as balance, as vesting
  shares or as a new account.
\<close>

section \<open>The evaluators\<close>

definition create_invite_apply :: "create_invite_operation \<Rightarrow> database \<Rightarrow> database result" where
  "create_invite_apply o' db =
     (case get_account (ci_creator o') db of Inl e \<Rightarrow> Inl e
      | Inr creator \<Rightarrow>
      case asset_ge (acc_balance creator) (ci_balance o') of Inl e \<Rightarrow> Inl e
      | Inr funds \<Rightarrow>
      if \<not> funds then Inl (FC_Assert ''Insufficient balance to create invite.'')
      else if ci_invite_key o' = [] then Inl (FC_Assert ''Invite key cannot be blank.'')
      else case asset_ge (ci_balance o') (if has_hardfork 9 db then create_invite_min_balance (median_props db)
                                       else account_creation_fee (median_props db)) of Inl e \<Rightarrow> Inl e
      | Inr enough \<Rightarrow>
      if \<not> enough then Inl (FC_Assert (if has_hardfork 9 db
        then ''Invite balance must be more or equal consensus create_invite_min_balance.''
        else ''Invite balance must be more or equal consensus account_creation_fee.''))
      else if find_row inv_invite_key (ci_invite_key o') (db_invites db) \<noteq> None
      then Inl (FC_Assert ''Invite with same key was found. Use another invite key.'')
      else case adjust_balance (ci_creator o') (asset_neg (ci_balance o')) db of Inl e \<Rightarrow> Inl e
      | Inr db1 \<Rightarrow>
      case create_row inv_id \<lparr>inv_id = db_next_invite_id db1, inv_creator = ci_creator o', inv_receiver = [],
             inv_invite_key = ci_invite_key o', inv_invite_secret = [], inv_balance = ci_balance o',
             inv_claimed_balance = mk_asset 0 TOKEN_SYMBOL, inv_create_time = head_block_time db1,
             inv_claim_time = 0, inv_status = 0\<rparr> (db_invites db1) of Inl e \<Rightarrow> Inl e
      | Inr is \<Rightarrow> Inr (db1\<lparr>db_invites := is, db_next_invite_id := db_next_invite_id db1 + 1\<rparr>))"

text \<open>The invite a secret opens: it must be in wallet import format and its public key the key of an open invite.\<close>

definition open_invite :: "key_env \<Rightarrow> string \<Rightarrow> database \<Rightarrow> invite_object result" where
  "open_invite env secret db =
     (if secret = [] then Inl (FC_Assert ''Invite secret cannot be blank.'')
      else case wif_to_key env secret of Inl e \<Rightarrow> Inl e
      | Inr key \<Rightarrow>
      case key of None \<Rightarrow> Inl (FC_Assert ''Invite secret must be WIF.'')
      | Some k \<Rightarrow>
      case find_row inv_invite_key (get_public_key env k) (db_invites db) of None \<Rightarrow> Inl (FC_Assert ''Invite was not found.'')
      | Some i \<Rightarrow> if inv_status i = 0 then Inr i else Inl (FC_Assert ''Invite already claimed.''))"

definition close_invite :: "invite_object \<Rightarrow> int \<Rightarrow> string \<Rightarrow> account_name_type \<Rightarrow> database \<Rightarrow> database" where
  "close_invite i status secret receiver db =
     db\<lparr>db_invites := modify_row inv_id (inv_id i) (\<lambda>c. c\<lparr>inv_status := status, inv_invite_secret := secret,
       inv_receiver := receiver, inv_claimed_balance := inv_balance c, inv_balance := mk_asset 0 TOKEN_SYMBOL,
       inv_claim_time := head_block_time db\<rparr>) (db_invites db)\<rparr>"

definition claim_invite_balance_apply :: "key_env \<Rightarrow> claim_invite_balance_operation \<Rightarrow> database \<Rightarrow> database result" where
  "claim_invite_balance_apply env o' db =
     (case get_account (cb_initiator o') db of Inl e \<Rightarrow> Inl e
      | Inr _ \<Rightarrow>
      case get_account (cb_receiver o') db of Inl e \<Rightarrow> Inl e
      | Inr _ \<Rightarrow>
      case open_invite env (cb_invite_secret o') db of Inl e \<Rightarrow> Inl e
      | Inr i \<Rightarrow>
      case adjust_balance (cb_receiver o') (inv_balance i) db of Inl e \<Rightarrow> Inl e
      | Inr db1 \<Rightarrow> Inr (close_invite i 1 (cb_invite_secret o') (cb_receiver o') db1))"

definition new_invited_account :: "invite_registration_operation \<Rightarrow> invite_object \<Rightarrow> database \<Rightarrow> account_object" where
  "new_invited_account o' i db =
     account_object_defaults\<lparr>acc_name := ir_new_account_name o', acc_memo_key := ir_new_account_key o',
       acc_created := head_block_time db, acc_recovery_account := inv_creator i, acc_referrer := inv_creator i\<rparr>"

definition create_invited_objects :: "invite_registration_operation \<Rightarrow> invite_object \<Rightarrow> database \<Rightarrow> database result" where
  "create_invited_objects o' i db =
     (let auth = (add_key_authority (ir_new_account_key o') 1 empty_authority)\<lparr>weight_threshold := 1\<rparr>
      in case create_account (new_invited_account o' i db) db of Inl e \<Rightarrow> Inl e
      | Inr db1 \<Rightarrow>
      case create_authority \<lparr>aa_account = ir_new_account_name o', aa_master = auth, aa_active = auth, aa_regular = auth,
             aa_last_master_update = 0\<rparr> db1 of Inl e \<Rightarrow> Inl e
      | Inr db2 \<Rightarrow> create_metadata \<lparr>amo_account = ir_new_account_name o', amo_json_metadata = []\<rparr> db2)"

definition invite_registration_apply :: "key_env \<Rightarrow> invite_registration_operation \<Rightarrow> database \<Rightarrow> database result" where
  "invite_registration_apply env o' db =
     (if ir_invite_secret o' = [] then Inl (FC_Assert ''Invite secret cannot be blank.'')
      else case get_account (ir_initiator o') db of Inl e \<Rightarrow> Inl e
      | Inr _ \<Rightarrow>
      case open_invite env (ir_invite_secret o') db of Inl e \<Rightarrow> Inl e
      | Inr i \<Rightarrow>
      case create_invited_objects o' i db of Inl e \<Rightarrow> Inl e
      | Inr db1 \<Rightarrow>
      case create_vesting (ir_new_account_name o') (inv_balance i) db1 of Inl e \<Rightarrow> Inl e
      | Inr (_, db2) \<Rightarrow> Inr (close_invite i 2 (ir_invite_secret o') (ir_new_account_name o') db2))"

definition use_invite_balance_apply :: "key_env \<Rightarrow> use_invite_balance_operation \<Rightarrow> database \<Rightarrow> database result" where
  "use_invite_balance_apply env o' db =
     (if \<not> has_hardfork 9 db then Inl (FC_Assert ''use_invite_balance not enabled until HF 9'')
      else case get_account (ub_initiator o') db of Inl e \<Rightarrow> Inl e
      | Inr _ \<Rightarrow>
      case get_account (ub_receiver o') db of Inl e \<Rightarrow> Inl e
      | Inr _ \<Rightarrow>
      case open_invite env (ub_invite_secret o') db of Inl e \<Rightarrow> Inl e
      | Inr i \<Rightarrow>
      case create_vesting (ub_receiver o') (inv_balance i) db of Inl e \<Rightarrow> Inl e
      | Inr (_, db1) \<Rightarrow> Inr (close_invite i 3 (ub_invite_secret o') (ub_receiver o') db1))"

text \<open>Used invites are dropped a day after they were claimed.\<close>

definition clear_used_invites :: "database \<Rightarrow> database" where
  "clear_used_invites db =
     (let remove_time = u32 (head_block_time db - CHAIN_CLEAR_USED_INVITE_DELAY)
      in db\<lparr>db_invites := filter (\<lambda>i. \<not> (inv_status i \<ge> 1 \<and> remove_time > inv_claim_time i)) (db_invites db)\<rparr>)"

section \<open>What a claim does to the invites\<close>

definition closed :: "int \<Rightarrow> string \<Rightarrow> account_name_type \<Rightarrow> int \<Rightarrow> invite_object \<Rightarrow> invite_object" where
  "closed status secret receiver now c = c\<lparr>inv_status := status, inv_invite_secret := secret,
       inv_receiver := receiver, inv_claimed_balance := inv_balance c, inv_balance := mk_asset 0 TOKEN_SYMBOL,
       inv_claim_time := now\<rparr>"

lemma close_invite_rows:
  "db_invites (close_invite i st s r db) = modify_row inv_id (inv_id i) (closed st s r (head_block_time db)) (db_invites db)"
  by (simp add: close_invite_def closed_def [abs_def])

lemma open_invite_row: "open_invite env s db = Inr i \<Longrightarrow> i \<in> set (db_invites db) \<and> inv_status i = 0"
  by (auto simp: open_invite_def case_sum_Inr case_option_Inr if_Inl_Inr dest!: find_row_set)

text \<open>The invites and funds of a state in which an open invite was paid out and closed.\<close>

definition claimed_from :: "database \<Rightarrow> database \<Rightarrow> bool" where
  "claimed_from db db' = (\<exists>i st s r db1. i \<in> set (db_invites db) \<and> inv_status i = 0 \<and> 0 < st \<and>
     db_invites db1 = db_invites db \<and> db_next_invite_id db1 = db_next_invite_id db \<and> keys_ok db1 \<and>
     excess db1 = excess db + amount (inv_balance i) \<and> share_gap db1 = share_gap db \<and>
     db' = close_invite i st s r db1)"

lemma claimed_fromI:
  assumes "open_invite env s db = Inr i" and "keys_ok db1 \<and> excess db1 = excess db + amount (inv_balance i) \<and> share_gap db1 = share_gap db"
    and "db_invites db1 = db_invites db" "db_next_invite_id db1 = db_next_invite_id db" and "db' = close_invite i st s r db1" and "0 < st"
  shows "claimed_from db db'"
  using open_invite_row [OF assms(1)] assms(2-) unfolding claimed_from_def by blast

lemma close_invite_ledger:
  assumes "i \<in> set (db_invites db)" and "inv_status i = 0" and "0 < st" and "keys_ok db"
  shows "keys_ok (close_invite i st s r db) \<and> excess (close_invite i st s r db) = excess db - amount (inv_balance i) \<and>
    share_gap (close_invite i st s r db) = share_gap db"
proof -
  have u: "unique_keys inv_id (db_invites db)" using assms(4) by (simp add: keys_ok_def)
  have f: "find_row inv_id (inv_id i) (db_invites db) = Some i" by (rule find_row_unique [OF u assms(1)])
  have "unique_keys inv_id (modify_row inv_id (inv_id i) (closed st s r (head_block_time db)) (db_invites db))"
    by (rule rows.invar_modify [OF u]) (simp add: closed_def)
  then show ?thesis
    using assms(2-4) rows.sum_modify [OF u f, of invite_tokens "closed st s r (head_block_time db)"]
    by (simp add: close_invite_def closed_def [abs_def] keys_ok_def ledger_invites invite_tokens_def)
qed

lemma claimed_ledger: "claimed_from db db' \<Longrightarrow> keys_ok db' \<and> excess db' = excess db \<and> share_gap db' = share_gap db"
  unfolding claimed_from_def by (elim exE conjE) (use close_invite_ledger in auto)

lemma create_vesting_next_invite:
  assumes "create_vesting n tokens db = Inr (v, db')" and "keys_ok db"
  shows "db_next_invite_id db' = db_next_invite_id db \<and> db_invites db' = db_invites db"
proof -
  from assms(1) obtain db1 db2 where
    m: "modify_account n (add_field acc_vesting_shares acc_vesting_shares_update v) db = Inr db1" and
    p: "\<exists>q. db2 = db1\<lparr>db_dgp := q\<rparr>" and r: "adjust_proxied_witness_votes n (amount v) 0 db2 = Inr db'"
    by (auto simp: create_vesting_def case_sum_Inr modify_dgp_Inr)
  have "keys_ok db2" using p modify_account_tokens [OF m assms(2), of 0 "amount v"]
    by (auto simp: run_simps account_tokens_def account_shares_def ledger_dgp)
  then have "only_votes db2 db'"
    using adjust_proxied_witness_votes_frame [OF r, of "\<lambda>_. ()"] by (simp add: vote_free_def)
  with p modify_account_only [OF m] show ?thesis by (auto simp: only_votes_def)
qed

lemma claim_invite_claimed:
  assumes "claim_invite_balance_apply env o' db = Inr db'" and "keys_ok db"
  shows "claimed_from db db'"
proof -
  from assms(1) obtain i db1 where i: "open_invite env (cb_invite_secret o') db = Inr i"
    and b: "adjust_balance (cb_receiver o') (inv_balance i) db = Inr db1"
    and db': "db' = close_invite i 1 (cb_invite_secret o') (cb_receiver o') db1"
    by (auto simp: claim_invite_balance_apply_def case_sum_Inr)
  have "db_next_invite_id db1 = db_next_invite_id db" using b by (auto simp: adjust_balance_def modify_account_Inr)
  then show ?thesis
    using claimed_fromI [OF i adjust_balance_ledger [OF b assms(2)] _ _ db'] adjust_balance_frame [OF b] by simp
qed

lemma use_invite_claimed:
  assumes "use_invite_balance_apply env o' db = Inr db'" and "keys_ok db"
  shows "claimed_from db db'"
proof -
  from assms(1) obtain i v db1 where i: "open_invite env (ub_invite_secret o') db = Inr i"
    and b: "create_vesting (ub_receiver o') (inv_balance i) db = Inr (v, db1)"
    and db': "db' = close_invite i 3 (ub_invite_secret o') (ub_receiver o') db1"
    by (auto simp: use_invite_balance_apply_def case_sum_Inr if_Inl_Inr)
  show ?thesis
    using claimed_fromI [OF i create_vesting_ledger [OF b assms(2)] _ _ db'] create_vesting_next_invite [OF b assms(2)] by simp
qed

lemma create_invited_objects_same:
  assumes "create_invited_objects o' i db = Inr db'" and "keys_ok db"
  shows "keys_ok db' \<and> excess db' = excess db \<and> share_gap db' = share_gap db \<and> db_invites db' = db_invites db \<and>
    db_next_invite_id db' = db_next_invite_id db"
proof -
  from assms(1) obtain x y dba dbb where c: "create_account (new_invited_account o' i db) db = Inr dba"
    and a: "create_authority x dba = Inr dbb" and m: "create_metadata y dbb = Inr db'"
    unfolding create_invited_objects_def Let_def case_sum_Inr by blast
  have "account_tokens (new_invited_account o' i db) = 0" "account_shares (new_invited_account o' i db) = 0"
    by (simp_all add: new_invited_account_def account_tokens_def account_shares_def account_object_defaults_def)
  then have k: "keys_ok dba \<and> excess dba = excess db \<and> share_gap dba = share_gap db"
    using create_account_ledger [OF c assms(2)] by simp
  have "db_invites db' = db_invites db \<and> db_next_invite_id db' = db_next_invite_id db"
    using c a m by (auto simp: create_account_def create_authority_def create_metadata_def case_sum_Inr)
  with kept_then_same [OF k same_ledger_trans [OF create_authority_same [OF a] create_metadata_same [OF m]]] show ?thesis by simp
qed

lemma invite_registration_claimed:
  assumes "invite_registration_apply env o' db = Inr db'" and "keys_ok db"
  shows "claimed_from db db'"
proof -
  from assms(1) obtain i v db1 db2 where i: "open_invite env (ir_invite_secret o') db = Inr i"
    and c: "create_invited_objects o' i db = Inr db1"
    and b: "create_vesting (ir_new_account_name o') (inv_balance i) db1 = Inr (v, db2)"
    and db': "db' = close_invite i 2 (ir_invite_secret o') (ir_new_account_name o') db2"
    by (auto simp: invite_registration_apply_def case_sum_Inr if_Inl_Inr)
  note 1 = create_invited_objects_same [OF c assms(2)]
  then have k: "keys_ok db1" by simp
  show ?thesis
    using claimed_fromI [OF i _ _ _ db'] create_vesting_ledger [OF b k] create_vesting_next_invite [OF b k] 1 by simp
qed

lemmas claim_invite_balance_ledger [ledger] = claimed_ledger [OF claim_invite_claimed]
lemmas use_invite_balance_ledger [ledger] = claimed_ledger [OF use_invite_claimed]
lemmas invite_registration_ledger [ledger] = claimed_ledger [OF invite_registration_claimed]

lemma create_invite_cases:
  assumes "create_invite_apply o' db = Inr db'" and "keys_ok db"
  obtains i db1 where "adjust_balance (ci_creator o') (asset_neg (ci_balance o')) db = Inr db1"
    and "db_invites db' = db_invites db @ [i]" and "db_next_invite_id db' = db_next_invite_id db + 1"
    and "inv_id i = db_next_invite_id db" and "inv_status i = 0" and "inv_balance i = ci_balance o'"
    and "amount (inv_claimed_balance i) = 0" and "inv_id i \<notin> inv_id ` set (db_invites db)"
    and "db' = db1\<lparr>db_invites := db_invites db', db_next_invite_id := db_next_invite_id db'\<rparr>"
    and "find_row inv_invite_key (ci_invite_key o') (db_invites db) = None" and "inv_invite_key i = ci_invite_key o'"
proof -
  let ?i = "\<lambda>db1. \<lparr>inv_id = db_next_invite_id db1, inv_creator = ci_creator o', inv_receiver = [],
             inv_invite_key = ci_invite_key o', inv_invite_secret = [], inv_balance = ci_balance o',
             inv_claimed_balance = mk_asset 0 TOKEN_SYMBOL, inv_create_time = head_block_time db1,
             inv_claim_time = 0, inv_status = 0\<rparr>"
  from assms(1) obtain db1 rows where b: "adjust_balance (ci_creator o') (asset_neg (ci_balance o')) db = Inr db1"
    and n: "find_row inv_invite_key (ci_invite_key o') (db_invites db) = None"
    and c: "create_row inv_id (?i db1) (db_invites db1) = Inr rows"
    and db': "db' = db1\<lparr>db_invites := rows, db_next_invite_id := db_next_invite_id db1 + 1\<rparr>"
    unfolding create_invite_apply_def case_sum_Inr if_Inl_Inr by auto
  have "db_next_invite_id db1 = db_next_invite_id db" "db_invites db1 = db_invites db"
    using b by (auto simp: adjust_balance_def modify_account_Inr)
  then show ?thesis
    by (intro that [of db1 "?i db1"]) (use b n c db' in \<open>auto simp: create_row_def split: if_splits\<close>)
qed

lemma create_invite_ledger [ledger]:
  assumes "create_invite_apply o' db = Inr db'" and "keys_ok db"
  shows "keys_ok db' \<and> excess db' = excess db \<and> share_gap db' = share_gap db"
proof (rule create_invite_cases [OF assms])
  fix i db1
  assume b: "adjust_balance (ci_creator o') (asset_neg (ci_balance o')) db = Inr db1"
    and i: "db_invites db' = db_invites db @ [i]" "inv_status i = 0" "inv_balance i = ci_balance o'"
      "inv_id i \<notin> inv_id ` set (db_invites db)"
    and db': "db' = db1\<lparr>db_invites := db_invites db', db_next_invite_id := db_next_invite_id db'\<rparr>"
  note k = adjust_balance_ledger [OF b assms(2)]
  have same: "db_invites db1 = db_invites db" using adjust_balance_frame [OF b] by simp
  have "keys_ok db' \<and> excess db' = excess db1 + invite_tokens i \<and> share_gap db' = share_gap db1"
    by (subst (1 2 3) db') (use k i same in \<open>auto simp: keys_ok_def excess_def token_total_def share_gap_def unique_keys_def\<close>)
  with k i show ?thesis by (simp add: invite_tokens_def asset_neg_def)
qed

lemma clear_used_invites_ledger [ledger]:
  assumes "keys_ok db"
  shows "keys_ok (clear_used_invites db) \<and> excess (clear_used_invites db) = excess db \<and> share_gap (clear_used_invites db) = share_gap db"
proof -
  let ?gone = "\<lambda>i. inv_status i \<ge> 1 \<and> u32 (head_block_time db - CHAIN_CLEAR_USED_INVITE_DELAY) > inv_claim_time i"
  have "total invite_tokens (filter ?gone (db_invites db)) = 0"
    by (rule total_zero) (auto simp: invite_tokens_def)
  then have "total invite_tokens (filter (\<lambda>i. \<not> ?gone i) (db_invites db)) = total invite_tokens (db_invites db)"
    using total_partition [of invite_tokens ?gone "db_invites db"] by simp
  moreover have "unique_keys inv_id (filter (\<lambda>i. \<not> ?gone i) (db_invites db))"
    using assms by (simp add: keys_ok_def unique_keys_def distinct_map_filter)
  ultimately show ?thesis
    using assms by (simp add: clear_used_invites_def Let_def keys_ok_def ledger_invites)
qed

section \<open>Every invite is paid out once\<close>

text \<open>Ids are below the next one; open invites have paid nothing, used ones hold nothing; open keys differ.\<close>

definition invites_ok :: "database \<Rightarrow> bool" where
  "invites_ok db = (keys_ok db \<and> unique_keys inv_invite_key (db_invites db) \<and>
     (\<forall>i \<in> set (db_invites db). inv_id i < db_next_invite_id db \<and>
        (if inv_status i = 0 then amount (inv_claimed_balance i) = 0 else amount (inv_balance i) = 0)))"

inductive invite_step :: "database \<Rightarrow> database \<Rightarrow> bool" where
  create: "create_invite_apply c db = Inr db' \<Longrightarrow> invite_step db db'"
| claim: "claim_invite_balance_apply env b db = Inr db' \<Longrightarrow> invite_step db db'"
| use: "use_invite_balance_apply env u db = Inr db' \<Longrightarrow> invite_step db db'"
| register: "invite_registration_apply env r db = Inr db' \<Longrightarrow> invite_step db db'"
| clear: "invite_step db (clear_used_invites db)"
| tick: "keys_ok (db\<lparr>db_dgp := p\<rparr>) \<Longrightarrow> invite_step db (db\<lparr>db_dgp := p\<rparr>)"

inductive_cases invite_stepE: "invite_step db db'"

text \<open>What an invite that exists before and after has become.\<close>

definition continues :: "invite_object \<Rightarrow> invite_object \<Rightarrow> bool" where
  "continues i i' = (inv_id i' = inv_id i \<and> inv_creator i' = inv_creator i \<and> inv_invite_key i' = inv_invite_key i \<and>
     amount (inv_balance i') + amount (inv_claimed_balance i') = amount (inv_balance i) + amount (inv_claimed_balance i) \<and>
     (inv_status i \<noteq> 0 \<longrightarrow> i' = i))"

lemma continues_trans: "continues i j \<Longrightarrow> continues j k \<Longrightarrow> continues i k"
  by (auto simp: continues_def)

definition descends :: "database \<Rightarrow> database \<Rightarrow> bool" where
  "descends db db' = (db_next_invite_id db \<le> db_next_invite_id db' \<and>
     (\<forall>i' \<in> set (db_invites db'). db_next_invite_id db \<le> inv_id i' \<or> (\<exists>i \<in> set (db_invites db). continues i i')))"

lemma claimed_kept:
  assumes "claimed_from db db'" and "invites_ok db"
  shows "invites_ok db' \<and> descends db db'"
proof -
  from assms(1) obtain i st s r db1 where i: "i \<in> set (db_invites db)" "inv_status i = 0" "0 < st"
    and same: "db_invites db1 = db_invites db" "db_next_invite_id db1 = db_next_invite_id db"
    and db': "db' = close_invite i st s r db1"
    by (auto simp: claimed_from_def)
  have k: "keys_ok db'" using claimed_ledger [OF assms(1)] by simp
  have rows: "db_invites db' = modify_row inv_id (inv_id i) (closed st s r (head_block_time db1)) (db_invites db)"
    "db_next_invite_id db' = db_next_invite_id db"
    by (simp_all add: db' close_invite_rows same) (simp add: close_invite_def same)
  have "map inv_invite_key (db_invites db') = map inv_invite_key (db_invites db)"
    by (simp add: rows modify_row_def closed_def)
  then have u: "unique_keys inv_invite_key (db_invites db')" using assms(2) by (simp add: invites_ok_def unique_keys_def)
  have ids: "unique_keys inv_id (db_invites db)" using assms(2) by (simp add: invites_ok_def keys_ok_def)
  have row: "(i' \<in> set (db_invites db) \<and> inv_id i' \<noteq> inv_id i) \<or> i' = closed st s r (head_block_time db1) i"
    if "i' \<in> set (db_invites db')" for i'
    using that i(1) ids by (auto simp: rows modify_row_def unique_keys_def distinct_map inj_on_def)
  have c: "continues i (closed st s r (head_block_time db1) i)"
    using assms(2) i by (auto simp: continues_def closed_def invites_ok_def)
  have "inv_id i' < db_next_invite_id db' \<and>
        (if inv_status i' = 0 then amount (inv_claimed_balance i') = 0 else amount (inv_balance i') = 0)"
    if "i' \<in> set (db_invites db')" for i'
    using row [OF that] assms(2) i rows(2) unfolding invites_ok_def by (elim disjE) (auto simp: closed_def)
  then have "invites_ok db'" using k u by (simp add: invites_ok_def)
  moreover have "descends db db'"
    using row c i(1) rows(2) unfolding descends_def by (auto simp: continues_def)
  ultimately show ?thesis by simp
qed

lemma descends_refl: "invites_ok db \<Longrightarrow> descends db db"
  by (auto simp: descends_def continues_def)

lemma descends_trans: "descends a b \<Longrightarrow> descends b c \<Longrightarrow> descends a c"
proof -
  assume 1: "descends a b" and 2: "descends b c"
  have "db_next_invite_id a \<le> inv_id k \<or> (\<exists>i \<in> set (db_invites a). continues i k)" if k: "k \<in> set (db_invites c)" for k
  proof -
    from 2 k consider "db_next_invite_id b \<le> inv_id k" | j where "j \<in> set (db_invites b)" "continues j k"
      unfolding descends_def by blast
    then show ?thesis
    proof cases
      case 1
      with \<open>descends a b\<close> show ?thesis by (auto simp: descends_def)
    next
      case 2
      with 1 consider "db_next_invite_id a \<le> inv_id j" | i where "i \<in> set (db_invites a)" "continues i j"
        unfolding descends_def by blast
      then show ?thesis using 2 continues_trans by cases (auto simp: continues_def)
    qed
  qed
  with 1 2 show "descends a c" by (auto simp: descends_def)
qed

lemma create_invite_kept:
  assumes "create_invite_apply o' db = Inr db'" and "invites_ok db"
  shows "invites_ok db' \<and> descends db db'"
proof -
  have k: "keys_ok db" using assms(2) by (simp add: invites_ok_def)
  show ?thesis
  proof (rule create_invite_cases [OF assms(1) k])
    fix i
    assume r: "db_invites db' = db_invites db @ [i]" "db_next_invite_id db' = db_next_invite_id db + 1"
      and i: "inv_id i = db_next_invite_id db" "inv_status i = 0" "amount (inv_claimed_balance i) = 0"
      and key: "find_row inv_invite_key (ci_invite_key o') (db_invites db) = None" "inv_invite_key i = ci_invite_key o'"
    have "keys_ok db'" using create_invite_ledger [OF assms(1) k] by simp
    moreover have "unique_keys inv_invite_key (db_invites db')"
      using assms(2) key by (auto simp: r invites_ok_def unique_keys_def find_row_None)
    ultimately have "invites_ok db'"
      using assms(2) i by (auto simp: r invites_ok_def less_SucI)
    moreover have "descends db db'" using i by (auto simp: r descends_def continues_def)
    ultimately show ?thesis by simp
  qed
qed

lemma clear_used_kept:
  assumes "invites_ok db"
  shows "invites_ok (clear_used_invites db) \<and> descends db (clear_used_invites db)"
proof -
  have "keys_ok db" using assms by (simp add: invites_ok_def)
  then have "keys_ok (clear_used_invites db)" using clear_used_invites_ledger by simp
  moreover have "set (db_invites (clear_used_invites db)) \<subseteq> set (db_invites db)"
    "db_next_invite_id (clear_used_invites db) = db_next_invite_id db"
    "unique_keys inv_invite_key (db_invites (clear_used_invites db))"
    using assms by (auto simp: clear_used_invites_def Let_def invites_ok_def unique_keys_def distinct_map_filter)
  ultimately show ?thesis using assms
    unfolding invites_ok_def descends_def by (auto simp: continues_def)
qed

lemma invite_step_kept:
  assumes "invite_step db db'" and "invites_ok db"
  shows "invites_ok db' \<and> descends db db'"
proof -
  have k: "keys_ok db" using assms(2) by (simp add: invites_ok_def)
  show ?thesis
    using assms(1)
  proof (rule invite_stepE)
    fix c assume "create_invite_apply c db = Inr db'"
    then show ?thesis using assms(2) by (rule create_invite_kept)
  next
    assume "db' = clear_used_invites db"
    then show ?thesis using clear_used_kept [OF assms(2)] by simp
  next
    fix p assume "db' = db\<lparr>db_dgp := p\<rparr>" "keys_ok (db\<lparr>db_dgp := p\<rparr>)"
    then show ?thesis using assms(2) by (auto simp: invites_ok_def descends_def continues_def)
  qed (use claimed_kept [OF _ assms(2)] claim_invite_claimed use_invite_claimed invite_registration_claimed k in blast)+
qed


definition sample_invite :: invite_object where
  "sample_invite = \<lparr>inv_id = 0, inv_creator = ''alice'', inv_receiver = [], inv_invite_key = ''Vsecret'', inv_invite_secret = [],
     inv_balance = mk_asset 5000 TOKEN_SYMBOL, inv_claimed_balance = mk_asset 0 TOKEN_SYMBOL, inv_create_time = 0,
     inv_claim_time = 0, inv_status = 0\<rparr>"

definition sample_invite_db :: database where
  "sample_invite_db = sample_db\<lparr>db_invites := [sample_invite], db_next_invite_id := 1\<rparr>"

definition sample_claim_invite :: claim_invite_balance_operation where
  "sample_claim_invite = \<lparr>cb_initiator = ''bob'', cb_receiver = ''bob'', cb_invite_secret = key_to_wif sample_keys ''secret''\<rparr>"

definition sample_closed :: invite_object where
  "sample_closed = closed 1 (key_to_wif sample_keys ''secret'') ''bob'' 1000000 sample_invite"

lemma sample_claim_invite_runs:
  "\<exists>db'. claim_invite_balance_apply sample_keys sample_claim_invite sample_invite_db = Inr db' \<and> sample_closed \<in> set (db_invites db')"
  by (simp add: claim_invite_balance_apply_def sample_claim_invite_def sample_invite_db_def sample_invite_def sample_closed_def closed_def
      sample_defs get_account_def open_invite_def wif_to_key_def key_to_wif_def sample_keys_def Let_def adjust_balance_def
      modify_account_def update_row_def add_field_def asset_add_def close_invite_def)


end
