(* ===== verification/Committee.thy ===== *)
theory Committee
  imports Chain_Frames
begin

text \<open>
  Requests to the committee (\<open>chain/committee_evaluator.cpp\<close>, \<open>committee_processing\<close> and
  \<open>clear_closed_committee_requests\<close> of \<open>chain/database.cpp\<close>).  The states of a request are the numbers of
  the source: 0 open, 1 cancelled by its creator, 2 and 3 refused, 4 approved and being paid, 5 paid.
\<close>

section \<open>Requests and votes\<close>

text \<open>A consensus fee goes from the balance of an account to the committee fund.\<close>

definition pay_committee :: "account_name_type \<Rightarrow> asset \<Rightarrow> database \<Rightarrow> database result" where
  "pay_committee n fee db =
     (case adjust_balance n (asset_neg fee) db of Inl e \<Rightarrow> Inl e
      | Inr db1 \<Rightarrow> modify_dgp (add_field committee_fund committee_fund_update fee) db1)"

definition check_new_request :: "committee_worker_create_request_operation \<Rightarrow> account_object \<Rightarrow> database \<Rightarrow> unit result" where
  "check_new_request o' creator db =
     (case (if has_hardfork 9 db then asset_ge (acc_balance creator) (committee_create_request_fee (median_props db)) else Inr True) of
        Inl e \<Rightarrow> Inl e
      | Inr funds \<Rightarrow>
      if \<not> funds then Inl (FC_Assert ''Account does not have sufficient funds to create a committee request: required ${a}.'')
      else if list_ex (\<lambda>c. cro_creator c = cw_creator o' \<and> cro_url c = cw_url o') (db_committee_requests db)
      then Inl (FC_Assert ''Committee request with same creator and url already exist.'')
      else if list_ex (\<lambda>c. cro_creator c = cw_creator o' \<and> COMMITTEE_REQUEST_PER_TIME > head_block_time db - cro_start_time c)
             (db_committee_requests db)
      then Inl (FC_Assert ''Committee request can not be created by same creator before COMMITTEE_REQUEST_PER_TIME ends.'')
      else Inr ())"

definition new_request :: "committee_worker_create_request_operation \<Rightarrow> int \<Rightarrow> database \<Rightarrow> committee_request_object" where
  "new_request o' request_id db =
     \<lparr>cro_id = db_next_committee_request_id db, cro_request_id = request_id, cro_url = cw_url o', cro_creator = cw_creator o',
      cro_worker = cw_worker o', cro_required_amount_min = cw_required_amount_min o',
      cro_required_amount_max = cw_required_amount_max o', cro_start_time = head_block_time db, cro_duration = cw_duration o',
      cro_end_time = head_block_time db + cw_duration o', cro_status = 0, cro_votes_count = 0, cro_conclusion_time = 0,
      cro_conclusion_payout_amount = mk_asset 0 TOKEN_SYMBOL, cro_payout_amount = mk_asset 0 TOKEN_SYMBOL,
      cro_remain_payout_amount = mk_asset 0 TOKEN_SYMBOL, cro_last_payout_time = 0, cro_payout_time = 0\<rparr>"

definition committee_worker_create_request_apply :: "committee_worker_create_request_operation \<Rightarrow> database \<Rightarrow> database result" where
  "committee_worker_create_request_apply o' db =
     (case get_account (cw_creator o') db of Inl e \<Rightarrow> Inl e
      | Inr creator \<Rightarrow>
      case get_account (cw_worker o') db of Inl e \<Rightarrow> Inl e
      | Inr _ \<Rightarrow>
      case check_new_request o' creator db of Inl e \<Rightarrow> Inl e
      | Inr _ \<Rightarrow>
        let request_id = u32 (committee_requests (db_dgp db) + 1);
            db1 = db\<lparr>db_committee_requests := db_committee_requests db @ [new_request o' request_id db],
                    db_next_committee_request_id := db_next_committee_request_id db + 1,
                    db_dgp := (db_dgp db)\<lparr>committee_requests := request_id\<rparr>\<rparr>
        in if has_hardfork 9 db then pay_committee (cw_creator o') (committee_create_request_fee (median_props db)) db1
           else Inr db1)"

definition modify_request :: "nat \<Rightarrow> (committee_request_object \<Rightarrow> committee_request_object) \<Rightarrow> database \<Rightarrow> database" where
  "modify_request i f db = db\<lparr>db_committee_requests := modify_row cro_id i f (db_committee_requests db)\<rparr>"

definition committee_worker_cancel_request_apply :: "committee_worker_cancel_request_operation \<Rightarrow> database \<Rightarrow> database result" where
  "committee_worker_cancel_request_apply o' db =
     (case get_account (cc_creator o') db of Inl e \<Rightarrow> Inl e
      | Inr _ \<Rightarrow>
      case find_row cro_request_id (cc_request_id o') (db_committee_requests db) of
        None \<Rightarrow> Inl (FC_Assert ''Committee request id not found.'')
      | Some c \<Rightarrow>
      if cro_creator c \<noteq> cc_creator o' then Inl (FC_Assert ''Committee request can canceled only by creator.'')
      else if cro_status c = 0
      then Inr (modify_request (cro_id c) (\<lambda>c. c\<lparr>cro_status := 1, cro_conclusion_time := head_block_time db\<rparr>) db)
      else Inl (FC_Assert ''Committee request is not active.''))"

text \<open>A vote changes every vote object of the voter on the request (there is at most one), or creates one.\<close>

definition committee_vote_request_apply :: "committee_vote_request_operation \<Rightarrow> database \<Rightarrow> database result" where
  "committee_vote_request_apply o' db =
     (case get_account (cv_voter o') db of Inl e \<Rightarrow> Inl e
      | Inr _ \<Rightarrow>
      case find_row cro_request_id (cv_request_id o') (db_committee_requests db) of
        None \<Rightarrow> Inl (FC_Assert ''Committee request id not found.'')
      | Some c \<Rightarrow>
      if cro_status c \<noteq> 0 then Inl (FC_Assert ''Committee request is not active.'')
      else let mine = (\<lambda>v. cvo_request_id v = cro_request_id c \<and> cvo_voter v = cv_voter o')
      in if list_ex (\<lambda>v. mine v \<and> cvo_vote_percent v = cv_vote_percent o') (db_committee_votes db)
      then Inl (FC_Assert ''Committee vote percent equal last vote.'')
      else if list_ex mine (db_committee_votes db)
      then Inr (db\<lparr>db_committee_votes := map (\<lambda>v. if mine v then v\<lparr>cvo_vote_percent := cv_vote_percent o',
                 cvo_last_update := head_block_time db\<rparr> else v) (db_committee_votes db)\<rparr>)
      else Inr (modify_request (cro_id c) (\<lambda>c. c\<lparr>cro_votes_count := u32 (cro_votes_count c + 1)\<rparr>)
             (db\<lparr>db_committee_votes := db_committee_votes db @ [\<lparr>cvo_request_id = cro_request_id c, cvo_voter = cv_voter o',
                 cvo_vote_percent = cv_vote_percent o', cvo_last_update = head_block_time db\<rparr>]\<rparr>)))"

section \<open>Conclusions and payments\<close>

text \<open>The stake behind the votes on a request and the part of it the votes give.\<close>

definition count_committee_vote :: "database \<Rightarrow> committee_vote_object \<Rightarrow> int \<times> int \<Rightarrow> (int \<times> int) result" where
  "count_committee_vote db v s =
     (case get_account (cvo_voter v) db of Inl e \<Rightarrow> Inl e
      | Inr a \<Rightarrow> Inr (fst s + effective_vesting_shares a,
                     snd s + (effective_vesting_shares a * cvo_vote_percent v) sdiv CHAIN_100_PERCENT))"

definition request_rshares :: "committee_request_object \<Rightarrow> database \<Rightarrow> (int \<times> int) result" where
  "request_rshares c db =
     fold_result (count_committee_vote db) (filter (\<lambda>v. cvo_request_id v = cro_request_id c) (db_committee_votes db)) (0, 0)"

definition calculated_payment :: "int \<Rightarrow> int \<Rightarrow> int \<Rightarrow> int result" where
  "calculated_payment required_max actual_rshares max_rshares =
     (if u128 max_rshares = 0 then Inl Division_by_zero
      else Inr (i64 (u64 (u128 (u128 required_max * (u128 (CHAIN_100_PERCENT * u128 actual_rshares) div u128 max_rshares))
              div CHAIN_100_PERCENT))))"

definition conclude_request :: "database \<Rightarrow> int \<Rightarrow> int \<Rightarrow> committee_request_object \<Rightarrow> committee_request_object result" where
  "conclude_request db max_rshares actual_rshares c =
     (let now = head_block_time db;
          approve_min_shares = (amount (total_vesting_shares (db_dgp db)) * committee_request_approve_min_percent (median_props db))
             sdiv CHAIN_100_PERCENT
      in if \<not> has_hardfork 2 db \<or> approve_min_shares > max_rshares
         then Inr (c\<lparr>cro_conclusion_time := now, cro_status := 2\<rparr>)
         else if actual_rshares \<le> 0
         then Inr (c\<lparr>cro_conclusion_payout_amount := mk_asset 0 TOKEN_SYMBOL, cro_conclusion_time := now, cro_status := 3\<rparr>)
         else case calculated_payment (amount (cro_required_amount_max c)) actual_rshares max_rshares of Inl e \<Rightarrow> Inl e
         | Inr payment \<Rightarrow>
           if amount (cro_required_amount_min c) > payment
           then Inr (c\<lparr>cro_conclusion_payout_amount := mk_asset payment TOKEN_SYMBOL, cro_conclusion_time := now, cro_status := 3\<rparr>)
           else Inr (c\<lparr>cro_conclusion_payout_amount := mk_asset payment TOKEN_SYMBOL, cro_conclusion_time := now,
                      cro_remain_payout_amount := mk_asset payment TOKEN_SYMBOL, cro_status := 4\<rparr>))"

definition process_open_request :: "committee_request_object \<Rightarrow> database \<Rightarrow> database result" where
  "process_open_request c db =
     (if cro_end_time c \<le> head_block_time db then
        case request_rshares c db of Inl e \<Rightarrow> Inl e
        | Inr (max_rshares, actual_rshares) \<Rightarrow>
        case conclude_request db max_rshares actual_rshares c of Inl e \<Rightarrow> Inl e
        | Inr c' \<Rightarrow> Inr (modify_request (cro_id c) (\<lambda>_. c') db)
      else Inr db)"

definition pay_request :: "int \<Rightarrow> committee_request_object \<Rightarrow> database \<Rightarrow> database result" where
  "pay_request max_payment c db =
     (let current_payment = min max_payment (amount (cro_remain_payout_amount c)); now = head_block_time db;
          remain = amount (cro_remain_payout_amount c) - current_payment;
          c' = c\<lparr>cro_payout_amount := mk_asset (amount (cro_payout_amount c) + current_payment) (symbol (cro_payout_amount c)),
                 cro_remain_payout_amount := mk_asset remain (symbol (cro_remain_payout_amount c)), cro_last_payout_time := now\<rparr>
      in case modify_account (cro_worker c) (add_field acc_balance acc_balance_update (mk_asset current_payment TOKEN_SYMBOL)) db of
           Inl e \<Rightarrow> Inl e
         | Inr db1 \<Rightarrow>
           Inr (modify_request (cro_id c) (\<lambda>_. if remain \<le> 0 then c'\<lparr>cro_status := 5, cro_payout_time := now\<rparr> else c')
             (db1\<lparr>db_dgp := (db_dgp db1)\<lparr>committee_fund :=
                mk_asset (amount (committee_fund (db_dgp db1)) - current_payment) (symbol (committee_fund (db_dgp db1)))\<rparr>\<rparr>)))"

definition with_status :: "int \<Rightarrow> database \<Rightarrow> committee_request_object list" where
  "with_status st db = filter (\<lambda>c. cro_status c = st) (db_committee_requests db)"

definition committee_processing :: "database \<Rightarrow> database result" where
  "committee_processing db =
     (case fold_result process_open_request (with_status 0 db) db of Inl e \<Rightarrow> Inl e
      | Inr db1 \<Rightarrow>
      if head_block_num db1 mod COMMITTEE_REQUEST_PROCESSING \<noteq> 0 then Inr db1
      else let approved = with_status 4 db1; count = 1 + int (length approved)
           in fold_result (pay_request (amount (committee_fund (db_dgp db1)) sdiv count)) approved db1)"

definition clear_closed_committee_requests :: "database \<Rightarrow> database" where
  "clear_closed_committee_requests db =
     (let remove_time = u32 (head_block_time db - CHAIN_CLEAR_CLOSED_COMMITTEE_REQUEST_DELAY);
          gone = (\<lambda>c. cro_status c \<ge> 1 \<and> cro_status c \<noteq> 4 \<and> cro_status c \<noteq> 5 \<and> remove_time > cro_conclusion_time c);
          ids = map cro_request_id (filter gone (db_committee_requests db))
      in db\<lparr>db_committee_requests := filter (\<lambda>c. \<not> gone c) (db_committee_requests db),
            db_committee_votes := filter (\<lambda>v. cvo_request_id v \<notin> set ids) (db_committee_votes db)\<rparr>)"

section \<open>What the operations do to the books\<close>

lemma pay_committee_ledger [ledger]:
  assumes "pay_committee n fee db = Inr db'" and "keys_ok db"
  shows "keys_ok db' \<and> excess db' = excess db \<and> share_gap db' = share_gap db"
proof -
  from assms(1) obtain db1 where b: "adjust_balance n (asset_neg fee) db = Inr db1"
    and f: "modify_dgp (add_field committee_fund committee_fund_update fee) db1 = Inr db'"
    by (auto simp: pay_committee_def case_sum_Inr)
  have k: "keys_ok db1 \<and> excess db1 = excess db - amount fee \<and> share_gap db1 = share_gap db"
    using adjust_balance_ledger [OF b assms(2)] by (simp add: asset_neg_def)
  have "keys_ok db' \<and> excess db' = excess db1 + amount fee \<and> share_gap db' = share_gap db1 + 0"
    by (rule modify_dgp_ledger [OF f conjunct1 [OF k]]) (auto simp: run_simps fund_tokens_def)
  with k show ?thesis by simp
qed

lemma pay_committee_frame:
  "pay_committee n fee db = Inr db' \<Longrightarrow> db_committee_requests db' = db_committee_requests db \<and>
     db_next_committee_request_id db' = db_next_committee_request_id db \<and> db_committee_votes db' = db_committee_votes db \<and>
     amount (committee_fund (db_dgp db')) = amount (committee_fund (db_dgp db)) + amount fee"
  by (auto simp: pay_committee_def adjust_balance_def run_simps)

lemma modify_request_same: "same_ledger db (modify_request i f db)"
  by (simp add: modify_request_def same_ledger_def)

lemma create_request_ledger [ledger]:
  assumes "committee_worker_create_request_apply o' db = Inr db'" and "keys_ok db"
  shows "keys_ok db' \<and> excess db' = excess db \<and> share_gap db' = share_gap db"
proof -
  let ?id = "u32 (committee_requests (db_dgp db) + 1)"
  let ?db = "db\<lparr>db_committee_requests := db_committee_requests db @ [new_request o' ?id db],
      db_next_committee_request_id := db_next_committee_request_id db + 1, db_dgp := (db_dgp db)\<lparr>committee_requests := ?id\<rparr>\<rparr>"
  have k: "keys_ok ?db \<and> excess ?db = excess db \<and> share_gap ?db = share_gap db"
    using assms(2) by (simp add: keys_ok_def excess_def token_total_def share_gap_def fund_tokens_def)
  from assms(1) have "(if has_hardfork 9 db then pay_committee (cw_creator o') (committee_create_request_fee (median_props db)) ?db
      else Inr ?db) = Inr db'"
    unfolding committee_worker_create_request_apply_def Let_def case_sum_Inr by blast
  then have "db' = ?db \<or> pay_committee (cw_creator o') (committee_create_request_fee (median_props db)) ?db = Inr db'"
    by (cases "has_hardfork 9 db") simp_all
  then show ?thesis using k pay_committee_ledger [OF _ conjunct1 [OF k]] by auto
qed

lemma cancel_request_ledger [ledger]:
  "committee_worker_cancel_request_apply o' db = Inr db' \<Longrightarrow> keys_ok db \<Longrightarrow>
     keys_ok db' \<and> excess db' = excess db \<and> share_gap db' = share_gap db"
  by (auto simp: committee_worker_cancel_request_apply_def run_simps same_ledger_moves [OF modify_request_same])

lemma vote_request_same: "committee_vote_request_apply o' db = Inr db' \<Longrightarrow> same_ledger db db'"
  unfolding committee_vote_request_apply_def Let_def case_sum_Inr case_option_Inr if_Inl_Inr
  by (elim exE conjE) (auto simp: same_ledger_def modify_request_def split: if_splits)

lemma vote_request_ledger [ledger]:
  "committee_vote_request_apply o' db = Inr db' \<Longrightarrow> keys_ok db \<Longrightarrow>
     keys_ok db' \<and> excess db' = excess db \<and> share_gap db' = share_gap db"
  using same_ledger_moves [OF vote_request_same] by blast

lemma process_open_cases:
  assumes "process_open_request c db = Inr db'"
  obtains "db' = db" | mx act c' where "request_rshares c db = Inr (mx, act)" and "conclude_request db mx act c = Inr c'"
    and "db' = modify_request (cro_id c) (\<lambda>_. c') db"
proof (cases "cro_end_time c \<le> head_block_time db")
  case True
  with assms obtain s where r: "request_rshares c db = Inr s"
    and u: "(case s of (mx, act) \<Rightarrow> case conclude_request db mx act c of Inl e \<Rightarrow> Inl e
        | Inr c' \<Rightarrow> Inr (modify_request (cro_id c) (\<lambda>_. c') db)) = Inr db'"
    unfolding process_open_request_def by (simp only: if_True case_sum_Inr) blast
  obtain mx act where s: "s = (mx, act)" by (cases s)
  from u obtain c' where "conclude_request db mx act c = Inr c'" "db' = modify_request (cro_id c) (\<lambda>_. c') db"
    unfolding s prod.case case_sum_Inr by blast
  with r s show ?thesis by (intro that(2)) simp_all
next
  case False
  with assms show ?thesis by (intro that(1)) (simp add: process_open_request_def)
qed

lemma process_open_same: "process_open_request c db = Inr db' \<Longrightarrow> same_ledger db db'"
  by (elim process_open_cases) (auto simp: modify_request_def same_ledger_def)

lemma pay_request_ledger:
  assumes "pay_request mx c db = Inr db'" and "keys_ok db"
  shows "keys_ok db' \<and> excess db' = excess db \<and> share_gap db' = share_gap db"
proof -
  let ?p = "min mx (amount (cro_remain_payout_amount c))"
  from assms(1) obtain f db1 where m: "modify_account (cro_worker c) (add_field acc_balance acc_balance_update (mk_asset ?p TOKEN_SYMBOL)) db = Inr db1"
    and db': "db' = modify_request (cro_id c) f (db1\<lparr>db_dgp := (db_dgp db1)\<lparr>committee_fund :=
                mk_asset (amount (committee_fund (db_dgp db1)) - ?p) (symbol (committee_fund (db_dgp db1)))\<rparr>\<rparr>)"
    by (auto simp: pay_request_def Let_def case_sum_Inr)
  have "keys_ok db1 \<and> excess db1 = excess db + ?p \<and> share_gap db1 = share_gap db - 0"
    by (rule modify_account_tokens [OF m assms(2)]) (auto simp: run_simps account_tokens_def account_shares_def)
  then show ?thesis
    unfolding db' using same_ledger_moves [OF modify_request_same] by (simp add: ledger_dgp fund_tokens_def)
qed

lemma committee_processing_ledger [ledger]:
  assumes "committee_processing db = Inr db'" and "keys_ok db"
  shows "keys_ok db' \<and> excess db' = excess db \<and> share_gap db' = share_gap db"
proof -
  let ?P = "\<lambda>s. keys_ok s \<and> excess s = excess db \<and> share_gap s = share_gap db"
  from assms(1) obtain db1 where o: "fold_result process_open_request (with_status 0 db) db = Inr db1"
    and p: "db' = db1 \<or> (\<exists>mx cs. fold_result (pay_request mx) cs db1 = Inr db')"
    by (auto simp: committee_processing_def Let_def case_sum_Inr split: if_splits)
  have 1: "?P db1"
    by (rule fold_result_invariant [where P = ?P, OF o])
      (use assms(2) in simp, use same_ledger_moves [OF process_open_same] in auto)
  from p show ?thesis
  proof (elim disjE exE)
    fix mx cs assume f: "fold_result (pay_request mx) cs db1 = Inr db'"
    show ?thesis by (rule fold_result_invariant [where P = ?P, OF f]) (use 1 in simp, auto dest!: pay_request_ledger)
  qed (use 1 in simp)
qed

lemma clear_closed_same: "same_ledger db (clear_closed_committee_requests db)"
  by (simp add: clear_closed_committee_requests_def Let_def same_ledger_def)

section \<open>The committee never overdraws its fund\<close>

text \<open>What has been paid on an approved request and what remains make up the concluded amount.\<close>

definition request_ok :: "committee_request_object \<Rightarrow> bool" where
  "request_ok c = (0 \<le> amount (cro_required_amount_min c) \<and>
     (cro_status c < 4 \<longrightarrow> amount (cro_payout_amount c) = 0) \<and>
     (4 \<le> cro_status c \<longrightarrow>
        amount (cro_payout_amount c) + amount (cro_remain_payout_amount c) = amount (cro_conclusion_payout_amount c) \<and>
        0 \<le> amount (cro_payout_amount c) \<and> 0 \<le> amount (cro_remain_payout_amount c) \<and>
        amount (cro_required_amount_min c) \<le> amount (cro_conclusion_payout_amount c)))"

definition requests_ok :: "database \<Rightarrow> bool" where
  "requests_ok db = (unique_keys cro_id (db_committee_requests db) \<and>
     (\<forall>c \<in> set (db_committee_requests db). cro_id c < db_next_committee_request_id db \<and> request_ok c) \<and>
     0 \<le> amount (committee_fund (db_dgp db)))"

lemma requests_ok_cong:
  "requests_ok db \<Longrightarrow> db_committee_requests db' = db_committee_requests db \<Longrightarrow>
     db_next_committee_request_id db' = db_next_committee_request_id db \<Longrightarrow> 0 \<le> amount (committee_fund (db_dgp db')) \<Longrightarrow> requests_ok db'"
  by (simp add: requests_ok_def)

lemma modify_request_ok:
  assumes "requests_ok db" and "find_row cro_id (cro_id c) (db_committee_requests db) = Some c"
    and "cro_id c' = cro_id c" and "request_ok c'"
  shows "requests_ok (modify_request (cro_id c) (\<lambda>_. c') db)"
proof -
  have "cro_id c < db_next_committee_request_id db"
    using assms(1) find_row_set [OF assms(2)] by (simp add: requests_ok_def)
  then have row: "cro_id d < db_next_committee_request_id db \<and> request_ok d"
    if "d \<in> set (modify_row cro_id (cro_id c) (\<lambda>_. c') (db_committee_requests db))" for d
    using that assms(1,3,4) unfolding modify_row_def requests_ok_def by (auto split: if_splits)
  have "unique_keys cro_id (modify_row cro_id (cro_id c) (\<lambda>_. c') (db_committee_requests db))"
    by (rule unique_keys_modify_row) (use assms(1,3) in \<open>simp_all add: requests_ok_def\<close>)
  with row assms(1) show ?thesis unfolding requests_ok_def modify_request_def by simp
qed

lemma modify_request_find:
  "cro_id c' = cro_id c \<Longrightarrow> find_row cro_id i (db_committee_requests (modify_request (cro_id c) (\<lambda>_. c') db)) =
     (if i = cro_id c then map_option (\<lambda>_. c') (find_row cro_id i (db_committee_requests db)) else find_row cro_id i (db_committee_requests db))"
  by (simp add: modify_request_def find_modify_row)

lemma conclude_request_ok:
  assumes "conclude_request db mx act c = Inr c'" and "request_ok c" and "cro_status c = 0"
  shows "request_ok c' \<and> cro_id c' = cro_id c"
proof -
  let ?min = "(amount (total_vesting_shares (db_dgp db)) * committee_request_approve_min_percent (median_props db)) sdiv CHAIN_100_PERCENT"
  consider "\<not> has_hardfork 2 db \<or> ?min > mx" | "\<not> (\<not> has_hardfork 2 db \<or> ?min > mx)" "act \<le> 0"
    | "\<not> (\<not> has_hardfork 2 db \<or> ?min > mx)" "\<not> act \<le> 0" by blast
  then show ?thesis
  proof cases
    case 3
    with assms(1) obtain payment where
      "(if amount (cro_required_amount_min c) > payment
           then Inr (c\<lparr>cro_conclusion_payout_amount := mk_asset payment TOKEN_SYMBOL, cro_conclusion_time := head_block_time db, cro_status := 3\<rparr>)
           else Inr (c\<lparr>cro_conclusion_payout_amount := mk_asset payment TOKEN_SYMBOL, cro_conclusion_time := head_block_time db,
                      cro_remain_payout_amount := mk_asset payment TOKEN_SYMBOL, cro_status := 4\<rparr>)) = (Inr c' :: committee_request_object result)"
      unfolding conclude_request_def Let_def by (simp only: if_False case_sum_Inr) blast
    then show ?thesis using assms(2,3)
      by (cases "amount (cro_required_amount_min c) > payment") (auto simp: request_ok_def)
  qed (use assms in \<open>auto simp: conclude_request_def Let_def request_ok_def\<close>)
qed

text \<open>Loops over requests that are each changed once: the rows not yet visited are still the ones of the list.\<close>

definition pending :: "committee_request_object list \<Rightarrow> database \<Rightarrow> bool" where
  "pending cs db = (distinct (map cro_id cs) \<and> (\<forall>c \<in> set cs. find_row cro_id (cro_id c) (db_committee_requests db) = Some c))"

lemma pending_filter:
  assumes "unique_keys cro_id (db_committee_requests db)"
  shows "pending (with_status st db) db"
  using assms find_row_unique [OF assms]
  by (auto simp: pending_def with_status_def unique_keys_def distinct_map_filter)

lemma pending_Cons: "pending (c # cs) db \<Longrightarrow> cro_id c' = cro_id c \<Longrightarrow> pending cs (modify_request (cro_id c) (\<lambda>_. c') db)"
proof -
  assume p: "pending (c # cs) db" and i: "cro_id c' = cro_id c"
  have "find_row cro_id (cro_id d) (db_committee_requests (modify_request (cro_id c) (\<lambda>_. c') db)) = Some d" if "d \<in> set cs" for d
  proof -
    have "cro_id d \<noteq> cro_id c" using p that by (auto simp: pending_def image_iff)
    then show ?thesis unfolding modify_request_find [OF i] using p that by (simp add: pending_def)
  qed
  moreover have "distinct (map cro_id cs)" using p by (simp add: pending_def)
  ultimately show ?thesis unfolding pending_def by blast
qed

lemma pending_same: "pending cs db \<Longrightarrow> db_committee_requests db' = db_committee_requests db \<Longrightarrow> pending cs db'"
  by (simp add: pending_def)

lemma process_open_requests_ok:
  "fold_result process_open_request cs db = Inr db' \<Longrightarrow> pending cs db \<Longrightarrow> \<forall>c \<in> set cs. cro_status c = 0 \<Longrightarrow> requests_ok db \<Longrightarrow>
     requests_ok db'"
proof (induction cs arbitrary: db)
  case (Cons c cs)
  from Cons.prems(1) obtain db1 where 1: "process_open_request c db = Inr db1" and r: "fold_result process_open_request cs db1 = Inr db'"
    by (auto simp: case_sum_Inr)
  have f: "find_row cro_id (cro_id c) (db_committee_requests db) = Some c" using Cons.prems(2) by (simp add: pending_def)
  have ok: "request_ok c" using Cons.prems(4) find_row_set [OF f] by (simp add: requests_ok_def)
  have "requests_ok db1 \<and> pending cs db1"
    using 1
  proof (rule process_open_cases)
    assume "db1 = db"
    then show ?thesis using Cons.prems by (simp add: pending_def)
  next
    fix mx act c' assume c': "conclude_request db mx act c = Inr c'" and db1: "db1 = modify_request (cro_id c) (\<lambda>_. c') db"
    from conclude_request_ok [OF c' ok] Cons.prems(3) have "request_ok c'" "cro_id c' = cro_id c" by auto
    then show ?thesis
      unfolding db1 using modify_request_ok [OF Cons.prems(4) f] pending_Cons [OF Cons.prems(2)] by blast
  qed
  with Cons.IH [OF r] Cons.prems(3) show ?case by simp
qed simp

lemma pay_request_ok:
  assumes "pay_request mx c db = Inr db'" and "requests_ok db" and "pending (c # cs) db" and "cro_status c = 4" and "0 \<le> mx"
    and "mx \<le> amount (committee_fund (db_dgp db))"
  shows "requests_ok db' \<and> pending cs db' \<and> amount (committee_fund (db_dgp db)) - mx \<le> amount (committee_fund (db_dgp db'))"
proof -
  let ?p = "min mx (amount (cro_remain_payout_amount c))"
  let ?c = "c\<lparr>cro_payout_amount := mk_asset (amount (cro_payout_amount c) + ?p) (symbol (cro_payout_amount c)),
       cro_remain_payout_amount := mk_asset (amount (cro_remain_payout_amount c) - ?p) (symbol (cro_remain_payout_amount c)),
       cro_last_payout_time := head_block_time db\<rparr>"
  let ?c' = "if amount (cro_remain_payout_amount c) - ?p \<le> 0 then ?c\<lparr>cro_status := 5, cro_payout_time := head_block_time db\<rparr> else ?c"
  from assms(1) obtain db1 where m: "modify_account (cro_worker c) (add_field acc_balance acc_balance_update (mk_asset ?p TOKEN_SYMBOL)) db = Inr db1"
    and db': "db' = modify_request (cro_id c) (\<lambda>_. ?c') (db1\<lparr>db_dgp := (db_dgp db1)\<lparr>committee_fund :=
                mk_asset (amount (committee_fund (db_dgp db1)) - ?p) (symbol (committee_fund (db_dgp db1)))\<rparr>\<rparr>)"
    unfolding pay_request_def Let_def case_sum_Inr by blast
  have f: "find_row cro_id (cro_id c) (db_committee_requests db) = Some c" using assms(3) by (simp add: pending_def)
  have ok: "request_ok c" using assms(2) find_row_set [OF f] by (simp add: requests_ok_def)
  have p: "0 \<le> ?p" "?p \<le> mx" "?p \<le> amount (cro_remain_payout_amount c)" using ok assms(4,5) by (auto simp: request_ok_def)
  let ?db = "db1\<lparr>db_dgp := (db_dgp db1)\<lparr>committee_fund :=
                mk_asset (amount (committee_fund (db_dgp db1)) - ?p) (symbol (committee_fund (db_dgp db1)))\<rparr>\<rparr>"
  have same: "db_committee_requests ?db = db_committee_requests db" "db_next_committee_request_id ?db = db_next_committee_request_id db"
    "db_dgp db1 = db_dgp db" using m by (auto simp: modify_account_Inr)
  have 1: "requests_ok ?db"
    by (rule requests_ok_cong [OF assms(2) same(1,2)]) (use p assms(6) same(3) in simp)
  have c': "request_ok ?c'" "cro_id ?c' = cro_id c" using ok p assms(4) by (auto simp: request_ok_def)
  have f': "find_row cro_id (cro_id c) (db_committee_requests ?db) = Some c" using f same(1) by simp
  from modify_request_ok [OF 1 f' c'(2,1)] pending_Cons [OF pending_same [OF assms(3) same(1)] c'(2)] p same(3)
  show ?thesis by (auto simp: db' modify_request_def)
qed

lemma pay_requests_ok:
  "fold_result (pay_request mx) cs db = Inr db' \<Longrightarrow> requests_ok db \<Longrightarrow> pending cs db \<Longrightarrow> \<forall>c \<in> set cs. cro_status c = 4 \<Longrightarrow> 0 \<le> mx \<Longrightarrow>
     int (length cs) * mx \<le> amount (committee_fund (db_dgp db)) \<Longrightarrow> requests_ok db'"
proof (induction cs arbitrary: db)
  case (Cons c cs)
  from Cons.prems(1) obtain db1 where 1: "pay_request mx c db = Inr db1" and r: "fold_result (pay_request mx) cs db1 = Inr db'"
    by (auto simp: case_sum_Inr)
  have "0 \<le> int (length cs) * mx" using Cons.prems(5) by simp
  then have "mx \<le> amount (committee_fund (db_dgp db))" using Cons.prems(6) by (simp add: algebra_simps)
  with pay_request_ok [OF 1 Cons.prems(2,3) _ Cons.prems(5)] Cons.prems(4)
  have "requests_ok db1" "pending cs db1" "amount (committee_fund (db_dgp db)) - mx \<le> amount (committee_fund (db_dgp db1))" by auto
  then show ?case using Cons.IH [OF r] Cons.prems(4-6) by (simp add: algebra_simps)
qed simp

lemma committee_processing_ok:
  assumes "committee_processing db = Inr db'" and "requests_ok db"
  shows "requests_ok db'"
proof -
  from assms(1) obtain db1 where o: "fold_result process_open_request (with_status 0 db) db = Inr db1"
    and p: "(if head_block_num db1 mod COMMITTEE_REQUEST_PROCESSING \<noteq> 0 then Inr db1
      else fold_result (pay_request (amount (committee_fund (db_dgp db1)) sdiv (1 + int (length (with_status 4 db1))))) (with_status 4 db1) db1) = Inr db'"
    unfolding committee_processing_def Let_def case_sum_Inr by blast
  have u: "unique_keys cro_id (db_committee_requests db)" using assms(2) by (simp add: requests_ok_def)
  have 1: "requests_ok db1"
    by (rule process_open_requests_ok [OF o pending_filter [OF u] _ assms(2)]) (simp add: with_status_def)
  let ?F = "amount (committee_fund (db_dgp db1))" and ?n = "int (length (with_status 4 db1))"
  have F: "0 \<le> ?F" and u1: "unique_keys cro_id (db_committee_requests db1)" using 1 by (simp_all add: requests_ok_def)
  have d: "?F sdiv (1 + ?n) = ?F div (1 + ?n)" using F by (simp add: sdiv_nonneg)
  have "?n * (?F div (1 + ?n)) \<le> (1 + ?n) * (?F div (1 + ?n))" using F by (simp add: distrib_right pos_imp_zdiv_nonneg_iff)
  also have "\<dots> \<le> ?F" using F by (metis minus_mod_eq_mult_div diff_le_eq le_add_same_cancel1 pos_mod_sign of_nat_0_le_iff add_pos_nonneg zero_less_one)
  finally have le: "?n * (?F div (1 + ?n)) \<le> ?F" .
  show ?thesis
  proof (cases "head_block_num db1 mod COMMITTEE_REQUEST_PROCESSING \<noteq> 0")
    case False
    with p have f: "fold_result (pay_request (?F div (1 + ?n))) (with_status 4 db1) db1 = Inr db'" by (simp add: d)
    show ?thesis
      by (rule pay_requests_ok [OF f 1 pending_filter [OF u1] _ _ le]) (use F in \<open>auto simp: with_status_def pos_imp_zdiv_nonneg_iff\<close>)
  qed (use p 1 in auto)
qed

section \<open>Runs of the committee\<close>

inductive committee_step :: "database \<Rightarrow> database \<Rightarrow> bool" where
  create: "validate_committee_worker_create_request r = Inr () \<Longrightarrow>
    0 \<le> amount (committee_create_request_fee (median_props db)) \<Longrightarrow>
    committee_worker_create_request_apply r db = Inr db' \<Longrightarrow> committee_step db db'"
| cancel: "committee_worker_cancel_request_apply c db = Inr db' \<Longrightarrow> committee_step db db'"
| vote: "committee_vote_request_apply v db = Inr db' \<Longrightarrow> committee_step db db'"
| process: "committee_processing db = Inr db' \<Longrightarrow> committee_step db db'"
| clear: "committee_step db (clear_closed_committee_requests db)"
| income: "0 \<le> amount (committee_fund p) \<Longrightarrow> committee_step db (db\<lparr>db_dgp := p\<rparr>)"

inductive_cases committee_stepE: "committee_step db db'"

lemma create_request_ok:
  assumes "committee_worker_create_request_apply r db = Inr db'" and "validate_committee_worker_create_request r = Inr ()"
    and "0 \<le> amount (committee_create_request_fee (median_props db))" and "requests_ok db"
  shows "requests_ok db'"
proof -
  let ?id = "u32 (committee_requests (db_dgp db) + 1)"
  let ?db = "db\<lparr>db_committee_requests := db_committee_requests db @ [new_request r ?id db],
      db_next_committee_request_id := db_next_committee_request_id db + 1, db_dgp := (db_dgp db)\<lparr>committee_requests := ?id\<rparr>\<rparr>"
  have "request_ok (new_request r ?id db)"
    using assms(2) by (simp add: request_ok_def new_request_def validate_committee_worker_create_request_def run_simps)
  then have ok: "requests_ok ?db"
    using assms(4) by (force simp: requests_ok_def unique_keys_def new_request_def)
  from assms(1) have "(if has_hardfork 9 db then pay_committee (cw_creator r) (committee_create_request_fee (median_props db)) ?db
      else Inr ?db) = Inr db'"
    unfolding committee_worker_create_request_apply_def Let_def case_sum_Inr by blast
  then have "db' = ?db \<or> pay_committee (cw_creator r) (committee_create_request_fee (median_props db)) ?db = Inr db'"
    by (cases "has_hardfork 9 db") simp_all
  then show ?thesis
  proof
    assume "pay_committee (cw_creator r) (committee_create_request_fee (median_props db)) ?db = Inr db'"
    from pay_committee_frame [OF this] ok assms(3) show ?thesis by (intro requests_ok_cong [OF ok]) (auto simp: requests_ok_def)
  qed (use ok in simp)
qed

lemma cancel_request_ok:
  assumes "committee_worker_cancel_request_apply o' db = Inr db'" and "requests_ok db"
  shows "requests_ok db'"
proof -
  from assms(1) obtain c where c: "find_row cro_request_id (cc_request_id o') (db_committee_requests db) = Some c" "cro_status c = 0"
    and db': "db' = modify_request (cro_id c) (\<lambda>c. c\<lparr>cro_status := 1, cro_conclusion_time := head_block_time db\<rparr>) db"
    by (auto simp: committee_worker_cancel_request_apply_def run_simps)
  have u: "unique_keys cro_id (db_committee_requests db)" using assms(2) by (simp add: requests_ok_def)
  have f: "find_row cro_id (cro_id c) (db_committee_requests db) = Some c" by (rule find_row_unique [OF u find_row_set [OF c(1)]])
  have ok: "request_ok c" using assms(2) find_row_set [OF c(1)] by (simp add: requests_ok_def)
  let ?c = "c\<lparr>cro_status := 1, cro_conclusion_time := head_block_time db\<rparr>"
  have "modify_row cro_id (cro_id c) (\<lambda>c. c\<lparr>cro_status := 1, cro_conclusion_time := head_block_time db\<rparr>) (db_committee_requests db) =
      modify_row cro_id (cro_id c) (\<lambda>_. ?c) (db_committee_requests db)"
    using u find_row_set [OF c(1)] by (auto simp: modify_row_def unique_keys_def distinct_map inj_on_def)
  then have "db' = modify_request (cro_id c) (\<lambda>_. ?c) db" by (simp add: db' modify_request_def)
  moreover have "request_ok ?c" using ok c(2) by (simp add: request_ok_def)
  ultimately show ?thesis using modify_request_ok [OF assms(2) f, of ?c] by simp
qed

lemma vote_request_ok:
  assumes "committee_vote_request_apply o' db = Inr db'" and "requests_ok db"
  shows "requests_ok db'"
proof -
  let ?g = "\<lambda>c :: committee_request_object. c\<lparr>cro_votes_count := u32 (cro_votes_count c + 1)\<rparr>"
  from assms(1) have "((\<exists>i. db_committee_requests db' = modify_row cro_id i ?g (db_committee_requests db)) \<or>
      db_committee_requests db' = db_committee_requests db) \<and>
      db_next_committee_request_id db' = db_next_committee_request_id db \<and> db_dgp db' = db_dgp db"
    unfolding committee_vote_request_apply_def Let_def case_sum_Inr case_option_Inr if_Inl_Inr
    by (elim exE conjE) (auto simp: modify_request_def split: if_splits)
  then have c: "(\<exists>i. db_committee_requests db' = modify_row cro_id i ?g (db_committee_requests db)) \<or>
      db_committee_requests db' = db_committee_requests db"
    and n: "db_next_committee_request_id db' = db_next_committee_request_id db" "db_dgp db' = db_dgp db" by blast+
  from c show ?thesis
  proof (elim disjE exE)
    fix i assume r: "db_committee_requests db' = modify_row cro_id i ?g (db_committee_requests db)"
    have g: "\<forall>c. cro_id (?g c) = cro_id c \<and> request_ok (?g c) = request_ok c" by (simp add: request_ok_def)
    have "map cro_id (db_committee_requests db') = map cro_id (db_committee_requests db)" using g by (simp add: r modify_row_def)
    moreover have "\<forall>d \<in> set (db_committee_requests db'). cro_id d < db_next_committee_request_id db \<and> request_ok d"
      using assms(2) g by (auto simp: r modify_row_def requests_ok_def)
    ultimately show ?thesis using assms(2) n by (simp add: requests_ok_def unique_keys_def)
  qed (use assms(2) n in \<open>simp add: requests_ok_def\<close>)
qed

lemma clear_closed_ok: "requests_ok db \<Longrightarrow> requests_ok (clear_closed_committee_requests db)"
  by (auto simp: clear_closed_committee_requests_def Let_def requests_ok_def unique_keys_def distinct_map_filter)

lemma committee_step_ok:
  assumes "committee_step db db'" and "requests_ok db"
  shows "requests_ok db'"
  using assms(1)
proof (rule committee_stepE)
  fix r assume "validate_committee_worker_create_request r = Inr ()" "0 \<le> amount (committee_create_request_fee (median_props db))"
    "committee_worker_create_request_apply r db = Inr db'"
  then show ?thesis using create_request_ok assms(2) by blast
next
  fix p assume "db' = db\<lparr>db_dgp := p\<rparr>" "0 \<le> amount (committee_fund p)"
  then show ?thesis using assms(2) by (simp add: requests_ok_def)
qed (use assms(2) cancel_request_ok vote_request_ok committee_processing_ok clear_closed_ok in blast)+

text \<open>
  C29: However requests are created, cancelled, voted on, concluded and paid in instalments, and
  whatever else flows into the fund, the committee fund never becomes negative, and what was paid on
  a request and what remains to be paid always make up exactly the amount concluded, which is at
  least the minimum the creator asked for.
\<close>

theorem committee_never_overdraws:
  assumes "committee_step\<^sup>*\<^sup>* db db'" and "requests_ok db"
  shows "0 \<le> amount (committee_fund (db_dgp db')) \<and>
    (\<forall>c \<in> set (db_committee_requests db'). 4 \<le> cro_status c \<longrightarrow>
       amount (cro_payout_amount c) + amount (cro_remain_payout_amount c) = amount (cro_conclusion_payout_amount c) \<and>
       0 \<le> amount (cro_payout_amount c) \<and> 0 \<le> amount (cro_remain_payout_amount c) \<and>
       amount (cro_required_amount_min c) \<le> amount (cro_conclusion_payout_amount c))"
proof -
  have "requests_ok db'"
    using assms by (induction rule: rtranclp_induct) (auto intro: committee_step_ok)
  then show ?thesis by (simp add: requests_ok_def request_ok_def)
qed

section \<open>The amount of a conclusion\<close>

lemma share_at_most:
  assumes "0 \<le> e" and "p \<le> CHAIN_100_PERCENT"
  shows "(e * p) sdiv CHAIN_100_PERCENT \<le> e"
proof (cases "0 \<le> p")
  case True
  have "e * p \<le> e * CHAIN_100_PERCENT" using assms by (intro mult_left_mono) auto
  then have "(e * p) div CHAIN_100_PERCENT \<le> (e * CHAIN_100_PERCENT) div CHAIN_100_PERCENT" by (intro zdiv_mono1) auto
  then show ?thesis using True assms(1) by (simp add: sdiv_nonneg)
next
  case False
  then have "e * p \<le> 0" using assms(1) by (simp add: mult_nonneg_nonpos)
  then have "(e * p) sdiv CHAIN_100_PERCENT \<le> 0"
    by (simp add: signed_divide_int_def sgn_if pos_imp_zdiv_nonneg_iff)
  with assms(1) show ?thesis by simp
qed

lemma counted_rshares:
  assumes "fold_result (count_committee_vote db) vs (m, a) = Inr (m', a')" and "a \<le> m" and "0 \<le> m"
    and "\<forall>x \<in> set (db_accounts db). 0 \<le> effective_vesting_shares x"
    and "\<forall>v \<in> set vs. cvo_vote_percent v \<le> CHAIN_100_PERCENT"
  shows "a' \<le> m' \<and> 0 \<le> m'"
  using assms
proof (induction vs arbitrary: m a)
  case (Cons v vs)
  from Cons.prems(1) obtain s where s: "count_committee_vote db v (m, a) = Inr s" "fold_result (count_committee_vote db) vs s = Inr (m', a')"
    by (auto simp: case_sum_Inr)
  then obtain x where x: "get_account (cvo_voter v) db = Inr x"
    and r: "fold_result (count_committee_vote db) vs (m + effective_vesting_shares x,
        a + (effective_vesting_shares x * cvo_vote_percent v) sdiv CHAIN_100_PERCENT) = Inr (m', a')"
    unfolding count_committee_vote_def case_sum_Inr by auto
  have e: "0 \<le> effective_vesting_shares x" using x Cons.prems(4) by (auto simp: get_account_Inr dest: find_row_set)
  have "(effective_vesting_shares x * cvo_vote_percent v) sdiv CHAIN_100_PERCENT \<le> effective_vesting_shares x"
    using e Cons.prems(5) by (rule_tac share_at_most) auto
  with e Cons.prems show ?case by (intro Cons.IH [OF r]) auto
qed simp

lemma calculated_payment_within:
  assumes "calculated_payment r act mx = Inr p" and "0 \<le> r" and "r < 2 ^ 63" and "0 < act" and "act \<le> mx" and "mx < 2 ^ 100"
  shows "0 \<le> p \<and> p \<le> r"
proof -
  have u: "u128 mx = mx" "u128 act = act" "u128 r = r" using assms by simp_all
  have "10000 * act < 2 ^ 128" using assms(5,6) by simp
  then have u2: "u128 (CHAIN_100_PERCENT * act) = CHAIN_100_PERCENT * act" using assms(4) by simp
  have mx: "0 < mx" using assms(4,5) by simp
  have "CHAIN_100_PERCENT * act div mx \<le> CHAIN_100_PERCENT * mx div mx" using assms(5) mx by (intro zdiv_mono1) auto
  then have q: "CHAIN_100_PERCENT * act div mx \<le> CHAIN_100_PERCENT" "0 \<le> CHAIN_100_PERCENT * act div mx"
    using mx assms(4) by (auto simp: pos_imp_zdiv_nonneg_iff)
  then have le: "r * (CHAIN_100_PERCENT * act div mx) \<le> r * CHAIN_100_PERCENT" using assms(2) by (intro mult_left_mono) auto
  have nn: "0 \<le> r * (CHAIN_100_PERCENT * act div mx)" using assms(2) q by simp
  have "r * (CHAIN_100_PERCENT * act div mx) < 2 ^ 128" using le assms(3) by simp
  then have u3: "u128 (r * (CHAIN_100_PERCENT * act div mx)) = r * (CHAIN_100_PERCENT * act div mx)" using nn by simp
  have v: "r * (CHAIN_100_PERCENT * act div mx) div CHAIN_100_PERCENT \<le> r"
    using zdiv_mono1 [OF le, of CHAIN_100_PERCENT] by simp
  have v0: "0 \<le> r * (CHAIN_100_PERCENT * act div mx) div CHAIN_100_PERCENT" using nn by (simp add: pos_imp_zdiv_nonneg_iff)
  have "p = i64 (u64 (r * (CHAIN_100_PERCENT * act div mx) div CHAIN_100_PERCENT))"
    using assms(1) unfolding calculated_payment_def u u2 u3 using mx by simp
  also have "\<dots> = r * (CHAIN_100_PERCENT * act div mx) div CHAIN_100_PERCENT"
    using v v0 assms(3) by (subst u64_id) (auto intro!: i64_id)
  finally show ?thesis using v v0 by simp
qed

text \<open>
  When the voters hold no negative stake and votes are at most 100 percent, a request that is
  approved gets an amount between the minimum and the maximum its creator asked for.
\<close>

theorem committee_conclusion_bounds:
  assumes "request_rshares c db = Inr (mx, act)" and "conclude_request db mx act c = Inr c'" and "cro_status c' = 4" and "cro_status c = 0"
    and "\<forall>x \<in> set (db_accounts db). 0 \<le> effective_vesting_shares x" and "\<forall>v \<in> set (db_committee_votes db). cvo_vote_percent v \<le> CHAIN_100_PERCENT"
    and "0 \<le> amount (cro_required_amount_max c)" and "amount (cro_required_amount_max c) < 2 ^ 63" and "mx < 2 ^ 100"
  shows "amount (cro_required_amount_min c) \<le> amount (cro_conclusion_payout_amount c') \<and>
    amount (cro_conclusion_payout_amount c') \<le> amount (cro_required_amount_max c) \<and>
    cro_remain_payout_amount c' = cro_conclusion_payout_amount c'"
proof -
  let ?min = "(amount (total_vesting_shares (db_dgp db)) * committee_request_approve_min_percent (median_props db)) sdiv CHAIN_100_PERCENT"
  have le: "act \<le> mx"
    using counted_rshares [OF assms(1) [unfolded request_rshares_def] _ _ assms(5)] assms(6) by simp
  have a: "\<not> (\<not> has_hardfork 2 db \<or> ?min > mx)"
  proof
    assume x: "\<not> has_hardfork 2 db \<or> ?min > mx"
    have "(Inr c' :: committee_request_object result) = Inr (c\<lparr>cro_conclusion_time := head_block_time db, cro_status := 2\<rparr>)"
      using assms(2) [symmetric] unfolding conclude_request_def Let_def using x by (simp only: if_True)
    then show False using assms(3) by simp
  qed
  have "\<not> act \<le> 0"
  proof
    assume y: "act \<le> 0"
    have "(Inr c' :: committee_request_object result) = Inr (c\<lparr>cro_conclusion_payout_amount := mk_asset 0 TOKEN_SYMBOL, cro_conclusion_time := head_block_time db, cro_status := 3\<rparr>)"
      using assms(2) [symmetric] unfolding conclude_request_def Let_def using a y by (simp only: if_True if_False)
    then show False using assms(3) by simp
  qed
  with a assms(2) obtain payment where p: "calculated_payment (amount (cro_required_amount_max c)) act mx = Inr payment"
    and c': "(if amount (cro_required_amount_min c) > payment
           then Inr (c\<lparr>cro_conclusion_payout_amount := mk_asset payment TOKEN_SYMBOL, cro_conclusion_time := head_block_time db, cro_status := 3\<rparr>)
           else Inr (c\<lparr>cro_conclusion_payout_amount := mk_asset payment TOKEN_SYMBOL, cro_conclusion_time := head_block_time db,
                      cro_remain_payout_amount := mk_asset payment TOKEN_SYMBOL, cro_status := 4\<rparr>)) = (Inr c' :: committee_request_object result)"
    unfolding conclude_request_def Let_def by (simp only: if_False case_sum_Inr) blast
  have "0 \<le> payment \<and> payment \<le> amount (cro_required_amount_max c)"
    by (rule calculated_payment_within [OF p assms(7,8) _ le assms(9)]) (use \<open>\<not> act \<le> 0\<close> in simp)
  with c' assms(3) show ?thesis by (cases "amount (cro_required_amount_min c) > payment") auto
qed

section \<open>A small committee\<close>

definition sample_request_object :: committee_request_object where
  "sample_request_object = \<lparr>cro_id = 0, cro_request_id = 1, cro_url = ''url'', cro_creator = ''alice'', cro_worker = ''carol'',
     cro_required_amount_min = mk_asset 1000 TOKEN_SYMBOL, cro_required_amount_max = mk_asset 10000 TOKEN_SYMBOL,
     cro_start_time = 0, cro_duration = 432000, cro_end_time = 432000, cro_status = 0, cro_votes_count = 1, cro_conclusion_time = 0,
     cro_conclusion_payout_amount = mk_asset 0 TOKEN_SYMBOL, cro_payout_amount = mk_asset 0 TOKEN_SYMBOL,
     cro_remain_payout_amount = mk_asset 0 TOKEN_SYMBOL, cro_last_payout_time = 0, cro_payout_time = 0\<rparr>"

definition sample_committee_db :: database where
  "sample_committee_db = sample_db\<lparr>db_committee_requests := [sample_request_object], db_next_committee_request_id := 1,
     db_committee_votes := [\<lparr>cvo_request_id = 1, cvo_voter = ''alice'', cvo_vote_percent = 5000, cvo_last_update = 0\<rparr>],
     db_dgp := sample_dgp\<lparr>head_block_number := 200, committee_fund := mk_asset 2000 TOKEN_SYMBOL\<rparr>\<rparr>"

lemmas committee_run_defs = sample_committee_db_def sample_request_object_def sample_defs request_rshares_def count_committee_vote_def
  get_account_def effective_vesting_shares_def conclude_request_def calculated_payment_def has_hardfork_def Let_def signed_divide_int_def

definition sample_concluded :: committee_request_object where
  "sample_concluded = sample_request_object\<lparr>cro_conclusion_payout_amount := mk_asset 5000 TOKEN_SYMBOL, cro_conclusion_time := 1000000,
     cro_remain_payout_amount := mk_asset 5000 TOKEN_SYMBOL, cro_status := 4\<rparr>"

lemma sample_conclusion: "request_rshares sample_request_object sample_committee_db = Inr (500000, 250000)"
  "conclude_request sample_committee_db 500000 250000 sample_request_object = Inr sample_concluded"
  by (simp_all add: committee_run_defs sample_concluded_def)

lemma sample_processing: "\<exists>db'. committee_processing sample_committee_db = Inr db'"
  by (simp add: committee_processing_def with_status_def process_open_request_def pay_request_def modify_account_def update_row_def
      add_field_def asset_add_def modify_request_def committee_run_defs)

theorem committee_never_overdraws_witness:
  "\<exists>db'. committee_processing sample_committee_db = Inr db' \<and> 0 \<le> amount (committee_fund (db_dgp db'))"
proof -
  obtain db' where r: "committee_processing sample_committee_db = Inr db'" using sample_processing by blast
  have "requests_ok sample_committee_db"
    by (simp add: requests_ok_def request_ok_def sample_committee_db_def sample_request_object_def sample_defs)
  from committee_never_overdraws [OF _ this, of db'] r show ?thesis by (blast intro: committee_step.process)
qed

theorem committee_conclusion_bounds_witness:
  "1000 \<le> amount (cro_conclusion_payout_amount sample_concluded) \<and> amount (cro_conclusion_payout_amount sample_concluded) \<le> 10000"
proof -
  have "\<forall>x \<in> set (db_accounts sample_committee_db). 0 \<le> effective_vesting_shares x"
    "\<forall>v \<in> set (db_committee_votes sample_committee_db). cvo_vote_percent v \<le> CHAIN_100_PERCENT"
    by (simp_all add: committee_run_defs)
  from committee_conclusion_bounds [OF sample_conclusion _ _ this] show ?thesis
    by (simp add: sample_concluded_def sample_request_object_def)
qed

end
