(* ===== verification/Subscriptions.thy ===== *)
theory Subscriptions
  imports Committee
begin

text \<open>
  Paid subscriptions (\<open>chain/paid_subscription_evaluator.cpp\<close>, \<open>paid_subscribe_processing\<close> of
  \<open>chain/database.cpp\<close>): an account offers a subscription with levels, a price per level and a period;
  others subscribe, change their subscription or let it renew.
\<close>

section \<open>Offering and subscribing\<close>

definition set_paid_subscription_apply :: "set_paid_subscription_operation \<Rightarrow> database \<Rightarrow> database result" where
  "set_paid_subscription_apply o' db =
     (if \<not> has_hardfork 5 db then Inl (FC_Assert ''set_paid_subscription_evaluator not enabled until HF 5'')
      else case get_account (sp_account o') db of Inl e \<Rightarrow> Inl e
      | Inr account \<Rightarrow>
      let now = head_block_time db; fee = create_paid_subscription_fee (median_props db)
      in case find_row pso_creator (sp_account o') (db_paid_subscriptions db) of
        Some _ \<Rightarrow> Inr (db\<lparr>db_paid_subscriptions := modify_row pso_creator (sp_account o') (\<lambda>ps. ps\<lparr>pso_url := sp_url o',
            pso_levels := sp_levels o', pso_amount := amount (sp_amount o'), pso_period := sp_period o', pso_update_time := now\<rparr>)
            (db_paid_subscriptions db)\<rparr>)
      | None \<Rightarrow>
        case (if has_hardfork 9 db then
                case asset_ge (acc_balance account) fee of Inl e \<Rightarrow> Inl e
                | Inr funds \<Rightarrow>
                  if \<not> funds then Inl (FC_Assert ''Account does not have sufficient funds to create a paid subscription: required ${a}.'')
                  else pay_committee (sp_account o') fee db
              else Inr db) of Inl e \<Rightarrow> Inl e
        | Inr db1 \<Rightarrow> Inr (db1\<lparr>db_paid_subscriptions := db_paid_subscriptions db1 @ [\<lparr>pso_creator = sp_account o', pso_url = sp_url o',
            pso_levels = sp_levels o', pso_amount = amount (sp_amount o'), pso_period = sp_period o', pso_update_time = now\<rparr>]\<rparr>))"

definition subscribe_key :: "paid_subscribe_object \<Rightarrow> account_name_type \<times> account_name_type" where
  "subscribe_key s = (psb_subscriber s, psb_creator s)"

text \<open>
  \<open>time + fc::seconds(s)\<close>: the sum is taken in microseconds in a signed 64-bit integer and stored as a
  32-bit number of seconds.
\<close>

definition time_plus :: "int \<Rightarrow> int \<Rightarrow> int" where
  "time_plus now s = u32 (i64 (now * 1000000 + i64 (i64 s * 1000000)) sdiv 1000000)"

definition check_offer :: "paid_subscribe_operation \<Rightarrow> paid_subscription_object \<Rightarrow> unit result" where
  "check_offer o' offer = all_ok
     [fc_assert (pso_levels offer \<noteq> 0) ''Paid subscription was closed.'',
      fc_assert (pso_levels offer \<ge> ps_level o') ''Paid subscribe level greater that allowed in subscription options.'',
      fc_assert (pso_period offer = ps_period o') ''Paid subscribe period must be equal period in subscription options.'',
      fc_assert (pso_amount offer = amount (ps_amount o')) ''Paid subscribe amount must be equal amount per level in subscription options.'']"

text \<open>A payment from the subscriber to the creator, refused when the subscriber does not hold it.\<close>

definition pay_subscription :: "account_name_type \<Rightarrow> account_name_type \<Rightarrow> asset \<Rightarrow> database \<Rightarrow> database result" where
  "pay_subscription subscriber creator cost db =
     (case get_account subscriber db of Inl e \<Rightarrow> Inl e
      | Inr a \<Rightarrow>
      case asset_ge (acc_balance a) cost of Inl e \<Rightarrow> Inl e
      | Inr funds \<Rightarrow>
      if \<not> funds then Inl (FC_Assert ''Account does not have sufficient TOKEN for paid subscribe.'')
      else case adjust_balance subscriber (asset_neg cost) db of Inl e \<Rightarrow> Inl e
      | Inr db1 \<Rightarrow> adjust_balance creator cost db1)"

definition restart :: "paid_subscribe_operation \<Rightarrow> int \<Rightarrow> int \<Rightarrow> paid_subscribe_object \<Rightarrow> paid_subscribe_object" where
  "restart o' now seconds ps = ps\<lparr>psb_level := ps_level o', psb_amount := amount (ps_amount o'), psb_period := ps_period o',
     psb_start_time := now, psb_next_time := time_plus now seconds, psb_end_time := time_point_sec_maximum,
     psb_active := True, psb_auto_renewal := ps_auto_renewal o'\<rparr>"

definition modify_subscribe :: "account_name_type \<times> account_name_type \<Rightarrow> (paid_subscribe_object \<Rightarrow> paid_subscribe_object) \<Rightarrow>
    database \<Rightarrow> database" where
  "modify_subscribe k f db = db\<lparr>db_paid_subscribes := modify_row subscribe_key k f (db_paid_subscribes db)\<rparr>"

text \<open>What is left of the running period, in tokens: the product is taken in 128 bits, the time as a signed number.\<close>

definition remaining_tokens :: "paid_subscribe_object \<Rightarrow> int \<Rightarrow> int result" where
  "remaining_tokens s now =
     (if u128 (psb_period s * 86400) = 0 then Inl Division_by_zero
      else Inr (i64 (u64 (u128 (u128 (psb_amount s * psb_level s) * u128 (psb_next_time s - now)) div u128 (psb_period s * 86400)))))"

definition change_model :: "paid_subscribe_operation \<Rightarrow> paid_subscribe_object \<Rightarrow> database \<Rightarrow> database result" where
  "change_model o' s db =
     (let now = head_block_time db; summary = amount (ps_amount o') * ps_level o'; k = (ps_subscriber o', ps_account o')
      in case remaining_tokens s now of Inl e \<Rightarrow> Inl e
      | Inr remain \<Rightarrow>
      if remain \<ge> summary then
        if u128 summary = 0 then Inl Division_by_zero
        else let new_period_sec = u64 (u128 (u128 (u128 remain * u128 (ps_period o')) * 86400) div u128 summary)
             in Inr (modify_subscribe k (restart o' now new_period_sec) db)
      else case pay_subscription (ps_subscriber o') (ps_account o') (mk_asset (summary - remain) TOKEN_SYMBOL) db of Inl e \<Rightarrow> Inl e
        | Inr db1 \<Rightarrow> Inr (modify_subscribe k (restart o' now (ps_period o' * 86400)) db1))"

definition new_subscribe :: "paid_subscribe_operation \<Rightarrow> database \<Rightarrow> database result" where
  "new_subscribe o' db =
     (let now = head_block_time db
      in case pay_subscription (ps_subscriber o') (ps_account o') (mk_asset (amount (ps_amount o') * ps_level o') TOKEN_SYMBOL) db of
           Inl e \<Rightarrow> Inl e
         | Inr db1 \<Rightarrow>
           Inr (db1\<lparr>db_paid_subscribes := db_paid_subscribes db1 @ [\<lparr>psb_subscriber = ps_subscriber o', psb_creator = ps_account o',
             psb_level = ps_level o', psb_amount = amount (ps_amount o'), psb_period = ps_period o', psb_start_time = now,
             psb_next_time = time_plus now (ps_period o' * 86400), psb_end_time = time_point_sec_maximum, psb_active = True,
             psb_auto_renewal = ps_auto_renewal o'\<rparr>]\<rparr>))"

definition renew_or_change :: "paid_subscribe_operation \<Rightarrow> paid_subscribe_object \<Rightarrow> database \<Rightarrow> database result" where
  "renew_or_change o' s db =
     (if psb_amount s = amount (ps_amount o') \<and> psb_level s = ps_level o' \<and> psb_period s = ps_period o' then
        if psb_auto_renewal s = ps_auto_renewal o'
        then Inl (FC_Assert ''Paid subscribe auto_renewal must be change if subscription model not changed.'')
        else Inr (modify_subscribe (ps_subscriber o', ps_account o') (\<lambda>ps. ps\<lparr>psb_auto_renewal := ps_auto_renewal o'\<rparr>) db)
      else change_model o' s db)"

definition paid_subscribe_apply :: "paid_subscribe_operation \<Rightarrow> database \<Rightarrow> database result" where
  "paid_subscribe_apply o' db =
     (if \<not> has_hardfork 5 db then Inl (FC_Assert ''paid_subscribe_evaluator not enabled until HF 5'')
      else if \<not> ps_level o' > 0 then Inl (FC_Assert ''Paid subscibe can not be turn off manually.'')
      else case get_account (ps_subscriber o') db of Inl e \<Rightarrow> Inl e
      | Inr _ \<Rightarrow>
      case get_account (ps_account o') db of Inl e \<Rightarrow> Inl e
      | Inr _ \<Rightarrow>
      case find_row pso_creator (ps_account o') (db_paid_subscriptions db) of None \<Rightarrow> Inl (FC_Assert ''Paid subscription was not found.'')
      | Some offer \<Rightarrow>
      case check_offer o' offer of Inl e \<Rightarrow> Inl e
      | Inr _ \<Rightarrow>
      case find_row subscribe_key (ps_subscriber o', ps_account o') (db_paid_subscribes db) of
        None \<Rightarrow> new_subscribe o' db
      | Some s \<Rightarrow>
        if psb_active s then renew_or_change o' s db
        else new_subscribe o' (db\<lparr>db_paid_subscribes :=
               remove_row subscribe_key (ps_subscriber o', ps_account o') (db_paid_subscribes db)\<rparr>))"

section \<open>Renewals\<close>

text \<open>
  The renewal of one due subscription: it renews when the offer has become no worse (the period is at
  least as long and the price at most the old one) and the subscriber can pay, and closes otherwise.
\<close>

definition close_subscribe :: "paid_subscribe_object \<Rightarrow> database \<Rightarrow> database" where
  "close_subscribe s db = modify_subscribe (subscribe_key s) (\<lambda>ps. ps\<lparr>psb_end_time := psb_next_time ps,
     psb_next_time := time_point_sec_maximum, psb_active := False, psb_auto_renewal := False\<rparr>) db"

definition renew_subscribe :: "paid_subscribe_object \<Rightarrow> paid_subscription_object \<Rightarrow> database \<Rightarrow> database result" where
  "renew_subscribe s offer db =
     (case get_account (psb_subscriber s) db of Inl e \<Rightarrow> Inl e
      | Inr subscriber \<Rightarrow>
      case get_account (psb_creator s) db of Inl e \<Rightarrow> Inl e
      | Inr _ \<Rightarrow>
      let new_level = min (psb_level s) (pso_levels offer); summary = pso_amount offer * new_level; now = head_block_time db;
          cost = mk_asset summary TOKEN_SYMBOL
      in if pso_period offer \<ge> psb_period s \<and> psb_amount s * psb_level s \<ge> summary then
        case asset_ge (acc_balance subscriber) cost of Inl e \<Rightarrow> Inl e
        | Inr funds \<Rightarrow>
        if funds then
          case adjust_balance (psb_subscriber s) (asset_neg cost) db of Inl e \<Rightarrow> Inl e
          | Inr db1 \<Rightarrow>
          case adjust_balance (psb_creator s) cost db1 of Inl e \<Rightarrow> Inl e
          | Inr db2 \<Rightarrow> Inr (modify_subscribe (subscribe_key s) (\<lambda>ps. ps\<lparr>psb_amount := pso_amount offer, psb_level := new_level,
              psb_start_time := now, psb_next_time := time_plus now (pso_period offer * 86400),
              psb_end_time := time_point_sec_maximum\<rparr>) db2)
        else Inr (close_subscribe s db)
      else Inr (close_subscribe s db))"

definition process_subscribe :: "paid_subscribe_object \<Rightarrow> database \<Rightarrow> database result" where
  "process_subscribe s db =
     (case find_row pso_creator (psb_creator s) (db_paid_subscriptions db) of
        None \<Rightarrow> Inr (close_subscribe s db)
      | Some offer \<Rightarrow> if psb_auto_renewal s then renew_subscribe s offer db else Inr (close_subscribe s db))"

text \<open>
  The loop runs over the index by next time while it changes that very time.  The row it works on moves
  to its new place, at or after the present (a renewal adds a period to it, a closure sets it to the
  maximum; the clock is taken to be far from the end of its 32 bits), and the iterator goes on from
  there: behind it there are only rows that are not due.  So the first due row that is active is
  processed, and the loop ends.
\<close>

definition due_subscribes :: "database \<Rightarrow> paid_subscribe_object list" where
  "due_subscribes db = filter (\<lambda>s. psb_next_time s \<le> head_block_time db \<and> psb_active s) (sort_key psb_next_time (db_paid_subscribes db))"

definition paid_subscribe_processing :: "database \<Rightarrow> database result" where
  "paid_subscribe_processing db =
     (case due_subscribes db of [] \<Rightarrow> Inr db | s # _ \<Rightarrow> process_subscribe s db)"

section \<open>What the operations do to the books\<close>

lemma modify_subscribe_same: "same_ledger db (modify_subscribe k f db)"
  by (simp add: modify_subscribe_def same_ledger_def)

lemma pay_subscription_cases:
  assumes "pay_subscription n m cost db = Inr db'"
  obtains a db1 where "find_row acc_name n (db_accounts db) = Some a" and "amount cost \<le> amount (acc_balance a)"
    and "adjust_balance n (asset_neg cost) db = Inr db1" and "adjust_balance m cost db1 = Inr db'"
  using assms by (auto simp: pay_subscription_def run_simps)

lemma payment_ledger:
  assumes "adjust_balance n (asset_neg cost) db = Inr db1" and "adjust_balance m cost db1 = Inr db'" and "keys_ok db"
  shows "keys_ok db' \<and> excess db' = excess db \<and> share_gap db' = share_gap db"
proof -
  have k: "keys_ok db1 \<and> excess db1 = excess db - amount cost \<and> share_gap db1 = share_gap db"
    using adjust_balance_ledger [OF assms(1,3)] by (simp add: asset_neg_def)
  from adjust_balance_ledger [OF assms(2) conjunct1 [OF k]] k show ?thesis by simp
qed

lemma pay_subscription_ledger [ledger]:
  "pay_subscription n m cost db = Inr db' \<Longrightarrow> keys_ok db \<Longrightarrow> keys_ok db' \<and> excess db' = excess db \<and> share_gap db' = share_gap db"
  by (elim pay_subscription_cases) (rule payment_ledger)

lemma set_paid_subscription_ledger [ledger]:
  assumes "set_paid_subscription_apply o' db = Inr db'" and "keys_ok db"
  shows "keys_ok db' \<and> excess db' = excess db \<and> share_gap db' = share_gap db"
proof -
  from assms(1) have "(\<exists>x. db' = db\<lparr>db_paid_subscriptions := x\<rparr>) \<or>
      (\<exists>db1 x. (db1 = db \<or> pay_committee (sp_account o') (create_paid_subscription_fee (median_props db)) db = Inr db1) \<and>
        db' = db1\<lparr>db_paid_subscriptions := x\<rparr>)"
    unfolding set_paid_subscription_apply_def Let_def case_sum_Inr if_Inl_Inr
    by (elim exE conjE) (auto simp: case_sum_Inr if_Inl_Inr split: option.splits if_splits)
  then obtain db1 x where "db1 = db \<or> pay_committee (sp_account o') (create_paid_subscription_fee (median_props db)) db = Inr db1"
    and db': "db' = db1\<lparr>db_paid_subscriptions := x\<rparr>" by blast
  then have "keys_ok db1 \<and> excess db1 = excess db \<and> share_gap db1 = share_gap db"
    using assms(2) pay_committee_ledger by blast
  moreover have "same_ledger db1 db'" by (simp add: db' same_ledger_def)
  ultimately show ?thesis using same_ledger_moves by metis
qed

lemma new_subscribe_ledger:
  assumes "new_subscribe o' db = Inr db'" and "keys_ok db"
  shows "keys_ok db' \<and> excess db' = excess db \<and> share_gap db' = share_gap db"
proof -
  from assms(1) obtain db1 x where p: "pay_subscription (ps_subscriber o') (ps_account o') (mk_asset (amount (ps_amount o') * ps_level o') TOKEN_SYMBOL) db = Inr db1"
    and db': "db' = db1\<lparr>db_paid_subscribes := x\<rparr>"
    by (auto simp: new_subscribe_def Let_def case_sum_Inr)
  have "same_ledger db1 db'" by (simp add: db' same_ledger_def)
  with same_ledger_moves pay_subscription_ledger [OF p assms(2)] show ?thesis by metis
qed

lemma change_model_ledger:
  assumes "change_model o' s db = Inr db'" and "keys_ok db"
  shows "keys_ok db' \<and> excess db' = excess db \<and> share_gap db' = share_gap db"
proof -
  let ?summary = "amount (ps_amount o') * ps_level o'"
  from assms(1) obtain remain where
    "(if remain \<ge> ?summary then
        if u128 ?summary = 0 then Inl Division_by_zero
        else Inr (modify_subscribe (ps_subscriber o', ps_account o') (restart o' (head_block_time db)
          (u64 (u128 (u128 (u128 remain * u128 (ps_period o')) * 86400) div u128 ?summary))) db)
      else case pay_subscription (ps_subscriber o') (ps_account o') (mk_asset (?summary - remain) TOKEN_SYMBOL) db of Inl e \<Rightarrow> Inl e
        | Inr db1 \<Rightarrow> Inr (modify_subscribe (ps_subscriber o', ps_account o') (restart o' (head_block_time db) (ps_period o' * 86400)) db1)) = Inr db'"
    unfolding change_model_def Let_def case_sum_Inr by blast
  then obtain k f c db1 where "db' = modify_subscribe k f db1"
    and "db1 = db \<or> pay_subscription (ps_subscriber o') (ps_account o') c db = Inr db1"
    by (cases "remain \<ge> ?summary") (simp only: if_True if_Inl_Inr, blast, simp only: if_False case_sum_Inr, blast)
  then have "keys_ok db1 \<and> excess db1 = excess db \<and> share_gap db1 = share_gap db" "same_ledger db1 db'"
    using assms(2) pay_subscription_ledger modify_subscribe_same by blast+
  then show ?thesis using same_ledger_moves by metis
qed

lemma paid_subscribe_ledger [ledger]:
  assumes "paid_subscribe_apply o' db = Inr db'" and "keys_ok db"
  shows "keys_ok db' \<and> excess db' = excess db \<and> share_gap db' = share_gap db"
proof -
  let ?k = "(ps_subscriber o', ps_account o')"
  from assms(1) have "(case find_row subscribe_key ?k (db_paid_subscribes db) of
        None \<Rightarrow> new_subscribe o' db
      | Some s \<Rightarrow> if psb_active s then renew_or_change o' s db
        else new_subscribe o' (db\<lparr>db_paid_subscribes := remove_row subscribe_key ?k (db_paid_subscribes db)\<rparr>)) = Inr db'"
    unfolding paid_subscribe_apply_def case_sum_Inr case_option_Inr if_Inl_Inr by blast
  then consider "new_subscribe o' db = Inr db'" | x where "new_subscribe o' (db\<lparr>db_paid_subscribes := x\<rparr>) = Inr db'"
    | s where "renew_or_change o' s db = Inr db'"
    by (cases "find_row subscribe_key ?k (db_paid_subscribes db)") (auto split: if_splits)
  then show ?thesis
  proof cases
    case (2 x)
    have "same_ledger db (db\<lparr>db_paid_subscribes := x\<rparr>)" by (simp add: same_ledger_def)
    with same_ledger_moves new_subscribe_ledger [OF 2] assms(2) show ?thesis by metis
  next
    case (3 s)
    then consider "change_model o' s db = Inr db'" | k f where "db' = modify_subscribe k f db"
      unfolding renew_or_change_def by (auto split: if_splits)
    then show ?thesis
      using change_model_ledger assms(2) same_ledger_moves [OF modify_subscribe_same] by cases auto
  qed (rule new_subscribe_ledger [OF _ assms(2)])
qed

lemma renew_subscribe_cases:
  assumes "renew_subscribe s offer db = Inr db'"
  obtains "db' = close_subscribe s db"
  | a db1 db2 f where "find_row acc_name (psb_subscriber s) (db_accounts db) = Some a"
    and "pso_amount offer * min (psb_level s) (pso_levels offer) \<le> psb_amount s * psb_level s"
    and "pso_amount offer * min (psb_level s) (pso_levels offer) \<le> amount (acc_balance a)"
    and "adjust_balance (psb_subscriber s) (asset_neg (mk_asset (pso_amount offer * min (psb_level s) (pso_levels offer)) TOKEN_SYMBOL)) db = Inr db1"
    and "adjust_balance (psb_creator s) (mk_asset (pso_amount offer * min (psb_level s) (pso_levels offer)) TOKEN_SYMBOL) db1 = Inr db2"
    and "db' = modify_subscribe (subscribe_key s) f db2"
proof -
  let ?t = "pso_amount offer * min (psb_level s) (pso_levels offer)"
  from assms obtain a where a: "get_account (psb_subscriber s) db = Inr a" and
    r: "(if pso_period offer \<ge> psb_period s \<and> psb_amount s * psb_level s \<ge> ?t then
        case asset_ge (acc_balance a) (mk_asset ?t TOKEN_SYMBOL) of Inl e \<Rightarrow> Inl e
        | Inr funds \<Rightarrow>
        if funds then
          case adjust_balance (psb_subscriber s) (asset_neg (mk_asset ?t TOKEN_SYMBOL)) db of Inl e \<Rightarrow> Inl e
          | Inr db1 \<Rightarrow>
          case adjust_balance (psb_creator s) (mk_asset ?t TOKEN_SYMBOL) db1 of Inl e \<Rightarrow> Inl e
          | Inr db2 \<Rightarrow> Inr (modify_subscribe (subscribe_key s) (\<lambda>ps. ps\<lparr>psb_amount := pso_amount offer,
              psb_level := min (psb_level s) (pso_levels offer),
              psb_start_time := head_block_time db, psb_next_time := time_plus (head_block_time db) (pso_period offer * 86400),
              psb_end_time := time_point_sec_maximum\<rparr>) db2)
        else Inr (close_subscribe s db)
      else Inr (close_subscribe s db)) = Inr db'"
    unfolding renew_subscribe_def Let_def case_sum_Inr by blast
  show ?thesis
  proof (cases "pso_period offer \<ge> psb_period s \<and> psb_amount s * psb_level s \<ge> ?t")
    case True
    with r obtain funds where f: "asset_ge (acc_balance a) (mk_asset ?t TOKEN_SYMBOL) = Inr funds"
      by (simp only: simp_thms if_True case_sum_Inr) blast
    show ?thesis
    proof (cases funds)
      case go: True
      with r True f show ?thesis
        by (simp only: simp_thms if_True sum.case case_sum_Inr) (use that(2) a f go in \<open>auto simp: run_simps\<close>)
    next
      case False
      with r True f show ?thesis by (intro that(1)) (simp only: simp_thms if_True if_False sum.case sum.inject)
    qed
  next
    case False
    with r show ?thesis by (intro that(1)) (simp only: if_False sum.inject)
  qed
qed

lemma close_subscribe_same: "same_ledger db (close_subscribe s db)"
  by (simp add: close_subscribe_def modify_subscribe_same)

lemma process_subscribe_cases:
  assumes "process_subscribe s db = Inr db'"
  obtains "db' = close_subscribe s db" | offer where "offer \<in> set (db_paid_subscriptions db)" and "renew_subscribe s offer db = Inr db'"
proof (cases "find_row pso_creator (psb_creator s) (db_paid_subscriptions db)")
  case None
  with assms show ?thesis by (intro that(1)) (simp add: process_subscribe_def)
next
  case (Some offer)
  show ?thesis
  proof (cases "psb_auto_renewal s")
    case True
    with assms Some show ?thesis by (intro that(2) [OF find_row_set [OF Some]]) (simp add: process_subscribe_def)
  next
    case False
    with assms Some show ?thesis by (intro that(1)) (simp add: process_subscribe_def)
  qed
qed

lemma process_subscribe_ledger:
  assumes "process_subscribe s db = Inr db'" and "keys_ok db"
  shows "keys_ok db' \<and> excess db' = excess db \<and> share_gap db' = share_gap db"
  using assms(1)
proof (rule process_subscribe_cases)
  assume "db' = close_subscribe s db"
  then show ?thesis using same_ledger_moves [OF close_subscribe_same] assms(2) by simp
next
  fix offer assume "renew_subscribe s offer db = Inr db'"
  then show ?thesis
  proof (rule renew_subscribe_cases)
    assume "db' = close_subscribe s db"
    then show ?thesis using same_ledger_moves [OF close_subscribe_same] assms(2) by simp
  next
    fix db1 db2 f
    assume "adjust_balance (psb_subscriber s) (asset_neg (mk_asset (pso_amount offer * min (psb_level s) (pso_levels offer)) TOKEN_SYMBOL)) db = Inr db1"
      "adjust_balance (psb_creator s) (mk_asset (pso_amount offer * min (psb_level s) (pso_levels offer)) TOKEN_SYMBOL) db1 = Inr db2"
      and db': "db' = modify_subscribe (subscribe_key s) f db2"
    from payment_ledger [OF this(1,2) assms(2)] show ?thesis
      unfolding db' using same_ledger_moves [OF modify_subscribe_same] by simp
  qed
qed

lemma paid_subscribe_processing_ledger [ledger]:
  "paid_subscribe_processing db = Inr db' \<Longrightarrow> keys_ok db \<Longrightarrow> keys_ok db' \<and> excess db' = excess db \<and> share_gap db' = share_gap db"
  by (cases "due_subscribes db") (auto simp: paid_subscribe_processing_def dest!: process_subscribe_ledger)

section \<open>A renewal costs no more than was agreed\<close>

text \<open>Offers and subscriptions as the validation of the operations leaves them.\<close>

definition prices_ok :: "database \<Rightarrow> bool" where
  "prices_ok db = ((\<forall>p \<in> set (db_paid_subscriptions db). 0 \<le> pso_amount p \<and> 0 \<le> pso_levels p) \<and>
     (\<forall>s \<in> set (db_paid_subscribes db). 0 \<le> psb_level s \<and> 0 \<le> psb_amount s))"

definition agreed_cost :: "account_name_type \<Rightarrow> database \<Rightarrow> int" where
  "agreed_cost n db = (case due_subscribes db of [] \<Rightarrow> 0
     | s # _ \<Rightarrow> if psb_subscriber s = n then psb_amount s * psb_level s else 0)"

lemma due_in_table: "due_subscribes db = s # rest \<Longrightarrow> s \<in> set (db_paid_subscribes db)"
proof -
  assume "due_subscribes db = s # rest"
  then have "s \<in> set (due_subscribes db)" by simp
  then show ?thesis by (simp add: due_subscribes_def)
qed

lemma payment_balances:
  assumes "adjust_balance n (asset_neg (mk_asset t TOKEN_SYMBOL)) db = Inr db1" and "adjust_balance m (mk_asset t TOKEN_SYMBOL) db1 = Inr db2"
    and "solvent db" and "0 \<le> t" and "find_row acc_name n (db_accounts db) = Some a" and "t \<le> amount (acc_balance a)"
  shows "solvent db2 \<and> (\<forall>k b b'. find_row acc_name k (db_accounts db) = Some b \<longrightarrow> find_row acc_name k (db_accounts db2) = Some b' \<longrightarrow>
     amount (acc_balance b) - (if k = n then t else 0) \<le> amount (acc_balance b'))"
proof -
  have s1: "solvent db1" by (rule adjust_balance_solvent [OF assms(1,3)]) (use assms(5,6) in \<open>auto simp: asset_neg_def\<close>)
  have "solvent db2" by (rule adjust_balance_solvent [OF assms(2) s1]) (use solventD [OF s1] assms(4) in force)
  moreover have "amount (acc_balance b) - (if k = n then t else 0) \<le> amount (acc_balance b')"
    if "find_row acc_name k (db_accounts db) = Some b" "find_row acc_name k (db_accounts db2) = Some b'" for k b b'
    using that assms(4) by (auto simp: adjust_balance_find [OF assms(2)] adjust_balance_find [OF assms(1)] asset_neg_def split: if_splits)
  ultimately show ?thesis by blast
qed

text \<open>
  The processing of subscriptions never takes from a subscriber more than the price agreed for the
  subscription that is due, takes nothing from anyone else and overdraws nobody.
\<close>

theorem renewal_never_dearer:
  assumes "paid_subscribe_processing db = Inr db'" and "solvent db" and "prices_ok db"
    and "find_row acc_name n (db_accounts db) = Some a" and "find_row acc_name n (db_accounts db') = Some a'"
  shows "solvent db' \<and> amount (acc_balance a) - agreed_cost n db \<le> amount (acc_balance a')"
proof (cases "due_subscribes db")
  case Nil
  with assms show ?thesis by (simp add: paid_subscribe_processing_def agreed_cost_def)
next
  case (Cons s rest)
  with assms(1) have p: "process_subscribe s db = Inr db'" by (simp add: paid_subscribe_processing_def)
  have s: "0 \<le> psb_level s" "0 \<le> psb_amount s" using due_in_table [OF Cons] assms(3) by (auto simp: prices_ok_def)
  then have c: "0 \<le> agreed_cost n db" by (simp add: agreed_cost_def Cons)
  have closed: ?thesis if "db' = close_subscribe s db"
    using that assms c by (simp add: solvent_def close_subscribe_def modify_subscribe_def)
  from p show ?thesis
  proof (rule process_subscribe_cases)
    fix offer assume o: "offer \<in> set (db_paid_subscriptions db)" and "renew_subscribe s offer db = Inr db'"
    from this(2) show ?thesis
    proof (rule renew_subscribe_cases)
      let ?t = "pso_amount offer * min (psb_level s) (pso_levels offer)"
      fix b db1 db2 f
      assume b: "find_row acc_name (psb_subscriber s) (db_accounts db) = Some b" "?t \<le> amount (acc_balance b)"
        and le: "?t \<le> psb_amount s * psb_level s"
        and 1: "adjust_balance (psb_subscriber s) (asset_neg (mk_asset ?t TOKEN_SYMBOL)) db = Inr db1"
        and 2: "adjust_balance (psb_creator s) (mk_asset ?t TOKEN_SYMBOL) db1 = Inr db2"
        and db': "db' = modify_subscribe (subscribe_key s) f db2"
      have "0 \<le> ?t" using o assms(3) s by (simp add: prices_ok_def)
      from payment_balances [OF 1 2 assms(2) this b] assms(4,5) db'
      have "solvent db2" "amount (acc_balance a) - (if n = psb_subscriber s then ?t else 0) \<le> amount (acc_balance a')"
        by (auto simp: modify_subscribe_def)
      then show ?thesis using le by (auto simp: db' modify_subscribe_def solvent_def agreed_cost_def Cons split: if_splits)
    qed (rule closed)
  qed (rule closed)
qed

section \<open>Subscriptions that are due together\<close>

lemma modify_subscribe_rows:
  "x \<in> set (db_paid_subscribes db) \<Longrightarrow> subscribe_key x \<noteq> k \<Longrightarrow> x \<in> set (db_paid_subscribes (modify_subscribe k f db))"
  by (force simp: modify_subscribe_def modify_row_def)

lemma process_subscribe_rows:
  assumes "process_subscribe s db = Inr db'" and "x \<in> set (db_paid_subscribes db)" and "subscribe_key x \<noteq> subscribe_key s"
  shows "x \<in> set (db_paid_subscribes db') \<and> head_block_time db' = head_block_time db"
proof -
  have c: "x \<in> set (db_paid_subscribes (close_subscribe s db)) \<and> head_block_time (close_subscribe s db) = head_block_time db"
    using modify_subscribe_rows [OF assms(2,3)] by (simp add: close_subscribe_def) (simp add: modify_subscribe_def)
  from assms(1) show ?thesis
  proof (rule process_subscribe_cases)
    fix offer assume "renew_subscribe s offer db = Inr db'"
    then show ?thesis
    proof (rule renew_subscribe_cases)
      let ?t = "mk_asset (pso_amount offer * min (psb_level s) (pso_levels offer)) TOKEN_SYMBOL"
      fix db1 db2 f
      assume "adjust_balance (psb_subscriber s) (asset_neg ?t) db = Inr db1" "adjust_balance (psb_creator s) ?t db1 = Inr db2"
        and db': "db' = modify_subscribe (subscribe_key s) f db2"
      then have "db_paid_subscribes db2 = db_paid_subscribes db" "db_dgp db2 = db_dgp db"
        by (auto simp: adjust_balance_def modify_account_Inr)
      then show ?thesis using modify_subscribe_rows [of x db2 "subscribe_key s" f] assms(2,3)
        by (simp add: db') (simp add: modify_subscribe_def)
    qed (use c in simp)
  qed (use c in simp)
qed

text \<open>
  A block renews or closes only one subscription: every other subscription that is due stays active
  and due, without being paid for, because the loop loses its place in the index it is changing.
\<close>

theorem one_subscription_per_block:
  assumes "paid_subscribe_processing db = Inr db'" and "due_subscribes db = s # rest" and "x \<in> set rest"
    and "unique_keys subscribe_key (db_paid_subscribes db)"
  shows "x \<in> set (due_subscribes db')"
proof -
  have p: "process_subscribe s db = Inr db'" using assms(1,2) by (simp add: paid_subscribe_processing_def)
  have "distinct (map subscribe_key (due_subscribes db))"
  proof -
    have "mset (map subscribe_key (sort_key psb_next_time (db_paid_subscribes db))) = mset (map subscribe_key (db_paid_subscribes db))"
      by (metis mset_map mset_sort)
    then have "distinct (map subscribe_key (sort_key psb_next_time (db_paid_subscribes db)))"
      using assms(4) unfolding unique_keys_def by (metis mset_eq_imp_distinct_iff)
    then show ?thesis unfolding due_subscribes_def by (rule distinct_map_filter)
  qed
  then have k: "subscribe_key x \<noteq> subscribe_key s" using assms(2,3) by (auto simp: image_iff)
  have "x \<in> set (due_subscribes db)" using assms(2,3) by simp
  then have d: "x \<in> set (db_paid_subscribes db)" "psb_next_time x \<le> head_block_time db" "psb_active x" by (auto simp: due_subscribes_def)
  from process_subscribe_rows [OF p d(1) k] d(2,3) show ?thesis by (simp add: due_subscribes_def)
qed

section \<open>Runs\<close>

text \<open>
  Bob and carol have subscribed to alice for 1.000 a month; both subscriptions are due since three
  seconds.
\<close>

definition sample_subscribe :: "account_name_type \<Rightarrow> paid_subscribe_object" where
  "sample_subscribe n = \<lparr>psb_subscriber = n, psb_creator = ''alice'', psb_level = 1, psb_amount = 1000, psb_period = 30,
     psb_start_time = 0, psb_next_time = 999997, psb_end_time = time_point_sec_maximum, psb_active = True, psb_auto_renewal = True\<rparr>"

definition sample_subscription_db :: database where
  "sample_subscription_db = sample_db\<lparr>
     db_paid_subscriptions := [\<lparr>pso_creator = ''alice'', pso_url = [], pso_levels = 5, pso_amount = 1000, pso_period = 30, pso_update_time = 0\<rparr>],
     db_paid_subscribes := [sample_subscribe ''bob'', sample_subscribe ''carol'']\<rparr>"

lemmas subscription_run_defs = sample_subscription_db_def sample_subscribe_def sample_defs get_account_def modify_account_def update_row_def
  adjust_balance_def add_field_def asset_add_def asset_cmp_defs asset_neg_def modify_subscribe_def subscribe_key_def has_hardfork_def Let_def

lemma sample_due: "due_subscribes sample_subscription_db = [sample_subscribe ''bob'', sample_subscribe ''carol'']"
  by (simp add: due_subscribes_def sample_subscription_db_def sample_subscribe_def sample_defs)

lemma sample_renewal: "\<exists>db'. paid_subscribe_processing sample_subscription_db = Inr db' \<and> (\<exists>a'. find_row acc_name ''bob'' (db_accounts db') = Some a')"
  unfolding paid_subscribe_processing_def sample_due
  by (simp add: process_subscribe_def renew_subscribe_def close_subscribe_def subscription_run_defs)

theorem renewal_never_dearer_witness:
  "\<exists>db' a'. paid_subscribe_processing sample_subscription_db = Inr db' \<and> find_row acc_name ''bob'' (db_accounts db') = Some a' \<and>
     99000 \<le> amount (acc_balance a')"
proof -
  obtain db' a' where r: "paid_subscribe_processing sample_subscription_db = Inr db'" and a': "find_row acc_name ''bob'' (db_accounts db') = Some a'"
    using sample_renewal by blast
  have b: "find_row acc_name ''bob'' (db_accounts sample_subscription_db) = Some (sample_account 1 ''bob'' 100000 500000)"
    by (simp add: sample_subscription_db_def sample_defs)
  have "solvent sample_subscription_db" "prices_ok sample_subscription_db"
    by (simp_all add: solvent_def prices_ok_def sample_subscription_db_def sample_subscribe_def sample_defs)
  from renewal_never_dearer [OF r this b a'] r a' show ?thesis
    by (auto simp: agreed_cost_def sample_due sample_subscribe_def sample_account_def)
qed

theorem one_subscription_per_block_witness:
  "\<exists>db'. paid_subscribe_processing sample_subscription_db = Inr db' \<and> sample_subscribe ''carol'' \<in> set (due_subscribes db')"
proof -
  obtain db' where r: "paid_subscribe_processing sample_subscription_db = Inr db'" using sample_renewal by blast
  have "unique_keys subscribe_key (db_paid_subscribes sample_subscription_db)"
    by (simp add: sample_subscription_db_def sample_subscribe_def subscribe_key_def)
  from one_subscription_per_block [OF r sample_due _ this, of "sample_subscribe ''carol''"] r show ?thesis by auto
qed

definition sample_upgrade :: paid_subscribe_operation where
  "sample_upgrade = \<lparr>ps_subscriber = ''bob'', ps_account = ''alice'', ps_level = 2, ps_amount = mk_asset 1000 TOKEN_SYMBOL,
     ps_period = 30, ps_auto_renewal = False\<rparr>"

lemma overdue_rest: "remaining_tokens (sample_subscribe ''bob'') 1000000 = Inr 6943263374311812465"
  by (simp add: remaining_tokens_def sample_subscribe_def u128_def u64_def i64_def)

lemma sample_upgrade_model:
  "\<exists>x. change_model sample_upgrade (sample_subscribe ''bob'') sample_subscription_db =
     Inr (modify_subscribe (''bob'', ''alice'') (restart sample_upgrade 1000000 x) sample_subscription_db)"
proof -
  have "head_block_time sample_subscription_db = 1000000" by (simp add: sample_subscription_db_def sample_db_def sample_dgp_def)
  then show ?thesis by (simp add: change_model_def overdue_rest Let_def) (simp add: sample_upgrade_def, blast)
qed

lemma sample_upgrade_runs:
  "paid_subscribe_apply sample_upgrade sample_subscription_db = change_model sample_upgrade (sample_subscribe ''bob'') sample_subscription_db"
proof -
  have "find_row subscribe_key (''bob'', ''alice'') (db_paid_subscribes sample_subscription_db) = Some (sample_subscribe ''bob'')"
    by (simp add: sample_subscription_db_def sample_subscribe_def subscribe_key_def)
  moreover have "renew_or_change sample_upgrade (sample_subscribe ''bob'') db = change_model sample_upgrade (sample_subscribe ''bob'') db" for db
    by (simp add: renew_or_change_def sample_upgrade_def sample_subscribe_def)
  moreover have "psb_active (sample_subscribe ''bob'')" by (simp add: sample_subscribe_def)
  moreover have "get_account ''bob'' sample_subscription_db = Inr (sample_account 1 ''bob'' 100000 500000)"
    "get_account ''alice'' sample_subscription_db = Inr (sample_account 0 ''alice'' 900000 500000)"
    "has_hardfork 5 sample_subscription_db"
    by (simp_all add: sample_subscription_db_def get_account_def has_hardfork_def sample_defs)
  moreover have "\<exists>p. find_row pso_creator ''alice'' (db_paid_subscriptions sample_subscription_db) = Some p \<and> check_offer sample_upgrade p = Inr ()"
    by (simp add: sample_subscription_db_def check_offer_def sample_upgrade_def fc_assert_def)
  ultimately show ?thesis unfolding paid_subscribe_apply_def by (auto simp: sample_upgrade_def)
qed

text \<open>
  A subscription that is overdue (as the second of two that fell due together) can be changed to a
  dearer level for nothing: the negative rest of the period becomes a huge number of tokens in 128
  bits.  Bob goes from one to two levels and no balance changes.
\<close>

theorem overdue_upgrade_is_free:
  "\<exists>db'. paid_subscribe_apply sample_upgrade sample_subscription_db = Inr db' \<and>
     db_accounts db' = db_accounts sample_subscription_db \<and>
     (\<exists>s \<in> set (db_paid_subscribes db'). subscribe_key s = (''bob'', ''alice'') \<and> psb_active s \<and> psb_level s = 2)"
proof -
  obtain x where "paid_subscribe_apply sample_upgrade sample_subscription_db =
     Inr (modify_subscribe (''bob'', ''alice'') (restart sample_upgrade 1000000 x) sample_subscription_db)"
    using sample_upgrade_model sample_upgrade_runs by auto
  then show ?thesis
    by (simp add: modify_subscribe_def restart_def sample_upgrade_def sample_subscription_db_def sample_subscribe_def subscribe_key_def)
qed

end
