(* ===== verification/Account_Sales.thy ===== *)
theory Account_Sales
  imports Accounts Committee
begin

text \<open>
  Accounts for sale: the evaluators of \<open>set_account_price\<close>, \<open>target_account_sale\<close>,
  \<open>set_subaccount_price\<close> and \<open>buy_account\<close> (\<open>chain/chain_evaluator.cpp\<close>) and the auctions that end
  with a block, \<open>account_on_auction_expiration\<close> (\<open>chain/database.cpp\<close>).  The source nests the
  modification of the bidder in that of the account on sale, which may be the same object; here they
  are one after the other on the state, so both see each other's effect as in the source.
\<close>

section \<open>Bids\<close>

text \<open>\<open>modify\<close> with a lambda that cannot throw.\<close>

definition assign :: "account_name_type \<Rightarrow> (account_object \<Rightarrow> account_object) \<Rightarrow> database \<Rightarrow> database result" where
  "assign n f db = modify_account n (\<lambda>a. Inr (f a)) db"

text \<open>The tokens of the current bid on \<open>n\<close> go back from the reserve to the balance of the bidder.\<close>

definition unreserve :: "asset \<Rightarrow> account_object \<Rightarrow> account_object result" where
  "unreserve bid ab =
     (case sub_field acc_reserved_balance acc_reserved_balance_update bid ab of Inl e \<Rightarrow> Inl e
      | Inr ab' \<Rightarrow> add_field acc_balance acc_balance_update bid ab')"

definition return_bid :: "account_name_type \<Rightarrow> database \<Rightarrow> database result" where
  "return_bid n db =
     (case get_account n db of Inl e \<Rightarrow> Inl e
      | Inr account \<Rightarrow> modify_account (acc_current_bidder account) (unreserve (acc_current_bid account)) db)"

definition clear_auction :: "account_object \<Rightarrow> account_object" where
  "clear_auction a = a\<lparr>acc_account_on_auction := False, acc_current_bid := mk_asset 0 TOKEN_SYMBOL, acc_current_bidder := [],
     acc_current_bidder_key := [], acc_last_bid := mk_asset 0 TOKEN_SYMBOL\<rparr>"

definition drop_bid :: "account_name_type \<Rightarrow> database \<Rightarrow> database result" where
  "drop_bid n db = (case return_bid n db of Inl e \<Rightarrow> Inl e | Inr db1 \<Rightarrow> assign n clear_auction db1)"

definition end_sale :: "account_object \<Rightarrow> account_object" where
  "end_sale a = a\<lparr>acc_account_on_sale := False, acc_account_offer_price := mk_asset 0 TOKEN_SYMBOL,
     acc_account_on_sale_start_time := 0\<rparr>"

section \<open>Setting a price\<close>

text \<open>The fee is due when no seller is set yet.\<close>

definition pay_sale_fee :: "bool \<Rightarrow> account_object \<Rightarrow> asset \<Rightarrow> database \<Rightarrow> database result" where
  "pay_sale_fee due account fee db =
     (if due then
        case asset_ge (acc_balance account) fee of Inl e \<Rightarrow> Inl e
        | Inr funds \<Rightarrow>
        if \<not> funds then Inl (FC_Assert ''Account does not have sufficient funds to place account for sale: required ${a}.'')
        else pay_committee (acc_name account) fee db
      else Inr db)"

definition withdraw_sale :: "account_name_type \<Rightarrow> (account_object \<Rightarrow> account_object) \<Rightarrow> account_object \<Rightarrow> database \<Rightarrow> database result" where
  "withdraw_sale n clear a db =
     (case (if acc_account_on_auction a \<and> acc_current_bidder a \<noteq> [] then return_bid n db else Inr db) of Inl e \<Rightarrow> Inl e
      | Inr db1 \<Rightarrow> assign n clear db1)"

definition put_on_sale :: "bool \<Rightarrow> asset \<Rightarrow> int \<Rightarrow> account_object \<Rightarrow> account_object" where
  "put_on_sale on_sale price now a =
     (let start = (if \<not> acc_account_on_sale a \<and> on_sale then now + CHAIN_ACCOUNT_ON_SALE_DELAY else acc_account_on_sale_start_time a)
      in a\<lparr>acc_account_offer_price := price, acc_account_on_sale_start_time := start, acc_account_on_sale := on_sale\<rparr>)"

definition reprice :: "set_account_price_operation \<Rightarrow> account_object \<Rightarrow> database \<Rightarrow> database result" where
  "reprice o' a db =
     (if \<not> sa_account_on_sale o' then withdraw_sale (sa_account o') (\<lambda>a. clear_auction (end_sale a)) a db
      else case asset_lt (acc_account_offer_price a) (sa_account_offer_price o') of Inl e \<Rightarrow> Inl e
      | Inr dearer \<Rightarrow>
        if dearer \<and> acc_current_bidder a \<noteq> [] \<and> \<not> amount (acc_current_bid a) \<ge> amount (sa_account_offer_price o')
        then drop_bid (sa_account o') db else Inr db)"

definition old_price :: "set_account_price_operation \<Rightarrow> database \<Rightarrow> account_object \<Rightarrow> account_object" where
  "old_price o' db a =
     (let a1 = a\<lparr>acc_account_seller := sa_account_seller o', acc_account_offer_price := sa_account_offer_price o'\<rparr>;
          a2 = (if has_hardfork 9 db then
                  let a3 = (if \<not> acc_account_on_sale a1 \<and> sa_account_on_sale o'
                            then a1\<lparr>acc_account_on_sale_start_time := head_block_time db + CHAIN_ACCOUNT_ON_SALE_DELAY\<rparr> else a1)
                  in if \<not> sa_account_on_sale o' then a3\<lparr>acc_account_on_sale_start_time := 0\<rparr> else a3
                else a1)
      in a2\<lparr>acc_account_on_sale := sa_account_on_sale o'\<rparr>)"

definition set_account_price_apply :: "set_account_price_operation \<Rightarrow> database \<Rightarrow> database result" where
  "set_account_price_apply o' db =
     (case get_account (sa_account o') db of Inl e \<Rightarrow> Inl e
      | Inr account \<Rightarrow>
      case get_account (sa_account_seller o') db of Inl e \<Rightarrow> Inl e
      | Inr _ \<Rightarrow>
      case pay_sale_fee (has_hardfork 9 db \<and> acc_account_seller account = []) account (account_on_sale_fee (median_props db)) db of
        Inl e \<Rightarrow> Inl e
      | Inr db1 \<Rightarrow>
      if has_hardfork 11 db then
        case assign (sa_account o') (\<lambda>a. a\<lparr>acc_account_seller := sa_account_seller o'\<rparr>) db1 of Inl e \<Rightarrow> Inl e
        | Inr db2 \<Rightarrow>
        case reprice o' account db2 of Inl e \<Rightarrow> Inl e
        | Inr db3 \<Rightarrow> assign (sa_account o')
            (put_on_sale (sa_account_on_sale o') (sa_account_offer_price o') (head_block_time db)) db3
      else assign (sa_account o') (old_price o' db) db1)"

text \<open>A sale to one buyer: a bid of somebody else is dropped.\<close>

definition retarget :: "target_account_sale_operation \<Rightarrow> account_object \<Rightarrow> database \<Rightarrow> database result" where
  "retarget o' a db =
     (if \<not> ta_account_on_sale o'
      then withdraw_sale (ta_account o') (\<lambda>a. clear_auction ((end_sale a)\<lparr>acc_target_buyer := []\<rparr>)) a db
      else case asset_lt (acc_account_offer_price a) (ta_account_offer_price o') of Inl e \<Rightarrow> Inl e
      | Inr dearer \<Rightarrow>
      case (if acc_current_bidder a \<noteq> [] then
              if dearer then
                if amount (acc_current_bid a) \<ge> amount (ta_account_offer_price o') then
                  if acc_current_bidder a \<noteq> ta_target_buyer o' then drop_bid (ta_account o') db else Inr db
                else drop_bid (ta_account o') db
              else if acc_current_bidder a \<noteq> ta_target_buyer o' then drop_bid (ta_account o') db else Inr db
            else Inr db) of Inl e \<Rightarrow> Inl e
      | Inr db1 \<Rightarrow> assign (ta_account o') (\<lambda>a. (put_on_sale True (ta_account_offer_price o') (head_block_time db) a)
                       \<lparr>acc_target_buyer := ta_target_buyer o'\<rparr>) db1)"

definition target_price :: "target_account_sale_operation \<Rightarrow> int \<Rightarrow> account_object \<Rightarrow> account_object" where
  "target_price o' now a =
     (let a1 = a\<lparr>acc_account_offer_price := ta_account_offer_price o'\<rparr>;
          a2 = (if \<not> acc_account_on_sale a1 \<and> ta_account_on_sale o'
                then a1\<lparr>acc_account_on_sale_start_time := now + CHAIN_ACCOUNT_ON_SALE_DELAY\<rparr> else a1);
          a3 = (if \<not> ta_account_on_sale o' then a2\<lparr>acc_target_buyer := [], acc_account_on_sale_start_time := 0\<rparr>
                else a2\<lparr>acc_target_buyer := ta_target_buyer o'\<rparr>)
      in a3\<lparr>acc_account_on_sale := ta_account_on_sale o'\<rparr>)"

definition target_account_sale_apply :: "target_account_sale_operation \<Rightarrow> database \<Rightarrow> database result" where
  "target_account_sale_apply o' db =
     (case get_account (ta_account o') db of Inl e \<Rightarrow> Inl e
      | Inr account \<Rightarrow>
      case get_account (ta_account_seller o') db of Inl e \<Rightarrow> Inl e
      | Inr _ \<Rightarrow>
      case get_account (ta_target_buyer o') db of Inl e \<Rightarrow> Inl e
      | Inr _ \<Rightarrow>
      case pay_sale_fee (acc_account_seller account = []) account (account_on_sale_fee (median_props db)) db of Inl e \<Rightarrow> Inl e
      | Inr db1 \<Rightarrow>
      case assign (ta_account o') (\<lambda>a. a\<lparr>acc_account_seller := ta_account_seller o'\<rparr>) db1 of Inl e \<Rightarrow> Inl e
      | Inr db2 \<Rightarrow>
      case retarget o' account db2 of Inl e \<Rightarrow> Inl e
      | Inr db3 \<Rightarrow> assign (ta_account o') (target_price o' (head_block_time db)) db3)"

definition set_subaccount_price_apply :: "set_subaccount_price_operation \<Rightarrow> database \<Rightarrow> database result" where
  "set_subaccount_price_apply o' db =
     (case get_account (ss_account o') db of Inl e \<Rightarrow> Inl e
      | Inr account \<Rightarrow>
      case get_account (ss_subaccount_seller o') db of Inl e \<Rightarrow> Inl e
      | Inr _ \<Rightarrow>
      case pay_sale_fee (has_hardfork 9 db \<and> acc_subaccount_seller account = []) account (subaccount_on_sale_fee (median_props db)) db of
        Inl e \<Rightarrow> Inl e
      | Inr db1 \<Rightarrow> assign (ss_account o') (\<lambda>a. a\<lparr>acc_subaccount_seller := ss_subaccount_seller o',
          acc_subaccount_offer_price := ss_subaccount_offer_price o', acc_subaccount_on_sale := ss_subaccount_on_sale o'\<rparr>) db1)"

section \<open>Buying an account\<close>

text \<open>The authorities of an account that changed hands: one key, and the old threshold and accounts are gone.\<close>

definition owned_by :: "public_key_type \<Rightarrow> int \<Rightarrow> account_authority_object \<Rightarrow> account_authority_object" where
  "owned_by key now auth =
     (let m = (add_key_authority key 1 (clear_authority (aa_master auth)))\<lparr>weight_threshold := 1\<rparr>
      in auth\<lparr>aa_master := m, aa_active := m, aa_regular := m, aa_last_master_update := now\<rparr>)"

text \<open>The price goes to the seller, the account gets the shares, and the buyer's key the authority.\<close>

definition sold :: "buy_account_operation \<Rightarrow> database \<Rightarrow> account_object \<Rightarrow> account_object" where
  "sold o' db a =
     a\<lparr>acc_account_seller := [], acc_account_offer_price := mk_asset 0 TOKEN_SYMBOL, acc_account_on_sale := False,
       acc_account_on_sale_start_time := if has_hardfork 9 db then 0 else acc_account_on_sale_start_time a,
       acc_subaccount_seller := [], acc_subaccount_offer_price := mk_asset 0 TOKEN_SYMBOL, acc_subaccount_on_sale := False,
       acc_memo_key := ba_account_authorities_key o', acc_recovery_account := ba_buyer o',
       acc_last_account_update := head_block_time db\<rparr>"

text \<open>The price and the shares are checked against the balance of the buyer.\<close>

definition check_price :: "buy_account_operation \<Rightarrow> asset \<Rightarrow> account_object \<Rightarrow> unit result" where
  "check_price o' price buyer =
     (case asset_eq price (ba_account_offer_price o') of Inl e \<Rightarrow> Inl e
      | Inr same \<Rightarrow>
      if \<not> same then Inl (FC_Assert ''Account offer price must be equal account_offer_price in target account: required ${a}, ${p} provided.'')
      else case asset_add price (ba_tokens_to_shares o') of Inl e \<Rightarrow> Inl e
      | Inr cost \<Rightarrow>
      case asset_ge (acc_balance buyer) cost of Inl e \<Rightarrow> Inl e
      | Inr funds \<Rightarrow>
      if \<not> funds then Inl (FC_Assert ''Inssufficient balance for account_offer_price and tokens_to_shares: required ${a}, ${b} available,'')
      else Inr ())"

definition pay_seller :: "account_name_type \<Rightarrow> account_name_type \<Rightarrow> asset \<Rightarrow> database \<Rightarrow> database result" where
  "pay_seller buyer seller price db =
     (case adjust_balance buyer (asset_neg price) db of Inl e \<Rightarrow> Inl e
      | Inr db1 \<Rightarrow> adjust_balance seller price db1)"

definition pay_shares :: "account_name_type \<Rightarrow> account_name_type \<Rightarrow> asset \<Rightarrow> database \<Rightarrow> database result" where
  "pay_shares buyer n tokens db =
     (case adjust_balance buyer (asset_neg tokens) db of Inl e \<Rightarrow> Inl e
      | Inr db1 \<Rightarrow>
      case create_vesting n tokens db1 of Inl e \<Rightarrow> Inl e
      | Inr (_, db2) \<Rightarrow> Inr db2)"

definition purchase :: "buy_account_operation \<Rightarrow> account_object \<Rightarrow> account_object \<Rightarrow> database \<Rightarrow> database result" where
  "purchase o' buyer account db =
     (case get_account (acc_account_seller account) db of Inl e \<Rightarrow> Inl e
      | Inr seller \<Rightarrow>
      case check_price o' (acc_account_offer_price account) buyer of Inl e \<Rightarrow> Inl e
      | Inr _ \<Rightarrow>
      case pay_seller (ba_buyer o') (acc_name seller) (acc_account_offer_price account) db of Inl e \<Rightarrow> Inl e
      | Inr db1 \<Rightarrow>
      case pay_shares (ba_buyer o') (ba_account o') (ba_tokens_to_shares o') db1 of Inl e \<Rightarrow> Inl e
      | Inr db2 \<Rightarrow>
      case assign (ba_account o') (sold o' db) db2 of Inl e \<Rightarrow> Inl e
      | Inr db3 \<Rightarrow> Inr (modify_authority (ba_account o') (owned_by (ba_account_authorities_key o') (head_block_time db)) db3))"

text \<open>A bid: at least the current one plus a step; the first is at least the offered price.\<close>

definition auction_step :: "account_object \<Rightarrow> asset" where
  "auction_step a =
     (let step = (amount (acc_account_offer_price a) * CHAIN_ACCOUNT_AUCTION_MIN_STEP) sdiv CHAIN_100_PERCENT;
          step' = (if amount (acc_last_bid a) \<noteq> 0 then max step (amount (acc_current_bid a) - amount (acc_last_bid a)) else step)
      in if amount (acc_current_bid a) = 0 then acc_account_offer_price a else mk_asset step' TOKEN_SYMBOL)"

definition new_bid :: "buy_account_operation \<Rightarrow> int \<Rightarrow> account_object \<Rightarrow> account_object" where
  "new_bid o' wall a =
     a\<lparr>acc_current_bid := ba_account_offer_price o', acc_current_bidder := ba_buyer o',
       acc_current_bidder_key := ba_account_authorities_key o', acc_account_on_auction := True,
       acc_account_on_sale_start_time := max (acc_account_on_sale_start_time a) (wall + CHAIN_ACCOUNT_AUCTION_EXTENSION_TIME)\<rparr>"

definition reserve :: "asset \<Rightarrow> account_object \<Rightarrow> account_object result" where
  "reserve bid nab =
     (case add_field acc_reserved_balance acc_reserved_balance_update bid nab of Inl e \<Rightarrow> Inl e
      | Inr nab' \<Rightarrow> sub_field acc_balance acc_balance_update bid nab')"

definition outbid :: "buy_account_operation \<Rightarrow> account_object \<Rightarrow> database \<Rightarrow> database result" where
  "outbid o' account db =
     (if acc_current_bidder account \<noteq> [] then
        case return_bid (ba_account o') db of Inl e \<Rightarrow> Inl e
        | Inr db1 \<Rightarrow> if acc_current_bidder account \<noteq> ba_buyer o'
                     then assign (ba_account o') (\<lambda>a. a\<lparr>acc_last_bid := acc_current_bid a\<rparr>) db1 else Inr db1
      else Inr db)"

definition place_bid :: "int \<Rightarrow> buy_account_operation \<Rightarrow> account_object \<Rightarrow> database \<Rightarrow> database result" where
  "place_bid wall o' account db =
     (case asset_add (acc_current_bid account) (auction_step account) of Inl e \<Rightarrow> Inl e
      | Inr least \<Rightarrow>
      case asset_ge (ba_account_offer_price o') least of Inl e \<Rightarrow> Inl e
      | Inr enough \<Rightarrow>
      if \<not> enough then Inl (FC_Assert ''Account offer price must be equal or dearer minimal bid price: ${bp}.'')
      else case outbid o' account db of Inl e \<Rightarrow> Inl e
      | Inr db1 \<Rightarrow>
      case assign (ba_account o') (new_bid o' wall) db1 of Inl e \<Rightarrow> Inl e
      | Inr db2 \<Rightarrow> modify_account (ba_buyer o') (reserve (ba_account_offer_price o')) db2)"

definition check_recovery :: "account_name_type \<Rightarrow> database \<Rightarrow> unit result" where
  "check_recovery n db =
     (case find_row arr_account_to_recover n (db_recovery_requests db) of
        None \<Rightarrow> Inr () | Some _ \<Rightarrow> Inl (FC_Assert ''Account have recovery request.''))"

text \<open>
  The wall clock \<open>wall\<close> (seconds) is an argument: a bid reads \<open>fc::time_point::now()\<close> and not the time
  of the block.
\<close>

definition buy_existing :: "int \<Rightarrow> buy_account_operation \<Rightarrow> account_object \<Rightarrow> account_object \<Rightarrow> database \<Rightarrow> database result" where
  "buy_existing wall o' buyer account db =
     (case get_authority (ba_account o') db of Inl e \<Rightarrow> Inl e
      | Inr _ \<Rightarrow>
      if \<not> acc_account_on_sale account then Inl (FC_Assert ''Account not on sale.'')
      else if has_hardfork 11 db then
        case check_recovery (ba_account o') db of Inl e \<Rightarrow> Inl e
        | Inr _ \<Rightarrow>
        if acc_target_buyer account \<noteq> [] \<and> acc_target_buyer account \<noteq> ba_buyer o'
        then Inl (FC_Assert ''Account have target buyer: ${b}.'')
        else if acc_account_on_sale_start_time account > head_block_time db then place_bid wall o' account db
        else if acc_current_bidder account = [] then purchase o' buyer account db
        else Inl (FC_Assert ''Account already have bid and waiting release.'')
      else
        case (if has_hardfork 9 db then
                case check_recovery (ba_account o') db of Inl e \<Rightarrow> Inl e
                | Inr _ \<Rightarrow> fc_assert (acc_account_on_sale_start_time account \<le> head_block_time db) ''Account selling will start on ${t}.''
              else Inr ()) of Inl e \<Rightarrow> Inl e
        | Inr _ \<Rightarrow> purchase o' buyer account db)"

definition new_subaccount :: "buy_account_operation \<Rightarrow> database \<Rightarrow> account_object" where
  "new_subaccount o' db =
     account_object_defaults\<lparr>acc_name := ba_account o', acc_memo_key := ba_account_authorities_key o',
       acc_created := head_block_time db, acc_energy := CHAIN_100_PERCENT, acc_last_vote_time := head_block_time db,
       acc_recovery_account := ba_buyer o'\<rparr>"

definition create_subaccount :: "buy_account_operation \<Rightarrow> database \<Rightarrow> database result" where
  "create_subaccount o' db =
     (let auth = (add_key_authority (ba_account_authorities_key o') 1 empty_authority)\<lparr>weight_threshold := 1\<rparr>
      in case create_account (new_subaccount o' db) db of Inl e \<Rightarrow> Inl e
      | Inr db1 \<Rightarrow>
      case create_authority \<lparr>aa_account = ba_account o', aa_master = auth, aa_active = auth, aa_regular = auth,
             aa_last_master_update = 0\<rparr> db1 of Inl e \<Rightarrow> Inl e
      | Inr db2 \<Rightarrow> create_metadata \<lparr>amo_account = ba_account o', amo_json_metadata = []\<rparr> db2)"

definition buy_subaccount :: "buy_account_operation \<Rightarrow> account_object \<Rightarrow> account_object \<Rightarrow> database \<Rightarrow> database result" where
  "buy_subaccount o' buyer account db =
     (if \<not> acc_subaccount_on_sale account then Inl (FC_Assert ''Subccount not on sale.'')
      else case get_account (acc_subaccount_seller account) db of Inl e \<Rightarrow> Inl e
      | Inr seller \<Rightarrow>
      case check_price o' (acc_subaccount_offer_price account) buyer of Inl e \<Rightarrow> Inl e
      | Inr _ \<Rightarrow>
      case pay_seller (ba_buyer o') (acc_name seller) (acc_subaccount_offer_price account) db of Inl e \<Rightarrow> Inl e
      | Inr db1 \<Rightarrow>
      case create_subaccount o' db1 of Inl e \<Rightarrow> Inl e
      | Inr db2 \<Rightarrow> pay_shares (ba_buyer o') (ba_account o') (ba_tokens_to_shares o') db2)"

text \<open>\<open>trim\<close> is \<open>fc::trim\<close>; the name is cut at its first dot.\<close>

definition buy_account_apply :: "(string \<Rightarrow> string) \<Rightarrow> int \<Rightarrow> buy_account_operation \<Rightarrow> database \<Rightarrow> database result" where
  "buy_account_apply trim wall o' db =
     (case get_account (ba_buyer o') db of Inl e \<Rightarrow> Inl e
      | Inr buyer \<Rightarrow>
      if ba_account_authorities_key o' = [] then Inl (FC_Assert ''Account authorities key cannot be blank.'')
      else case asset_ge (ba_tokens_to_shares o') (account_creation_fee (median_props db)) of Inl e \<Rightarrow> Inl e
      | Inr enough \<Rightarrow>
      if \<not> enough then Inl (FC_Assert ''Inssufficient amount tokens_to_shares: required ${f}, ${p} provided.'')
      else case find_account (ba_account o') db of
        Some account \<Rightarrow> buy_existing wall o' buyer account db
      | None \<Rightarrow>
      let account_string = trim (ba_account o')
      in case index_of (CHR ''.'') account_string of
        None \<Rightarrow> Inl (FC_Assert ''Account not found.'')
      | Some colon_pos \<Rightarrow>
      let subaccount_part = take colon_pos account_string; account_part = drop (colon_pos + 1) account_string
      in case find_account account_part db of
        None \<Rightarrow> Inl (FC_Assert ''Account not found.'')
      | Some account \<Rightarrow>
      case all_ok [fc_assert (is_valid_account_name account_part) ''Account part ${n} is invalid'',
                   fc_assert (is_valid_account_name subaccount_part) ''Subaccount part name ${n} is invalid'',
                   fc_assert (is_valid_domain_name subaccount_part account_part) ''Subaccount part ${s} is invalid, account part ${c}''] of
        Inl e \<Rightarrow> Inl e
      | Inr _ \<Rightarrow> buy_subaccount o' buyer account db)"

section \<open>The end of an auction\<close>

text \<open>The bidder's reserve pays the seller, and the account is the bidder's.\<close>

definition awarded :: "int \<Rightarrow> account_object \<Rightarrow> account_object" where
  "awarded now a =
     (clear_auction (end_sale a))\<lparr>acc_account_seller := [], acc_target_buyer := [], acc_subaccount_seller := [],
       acc_subaccount_offer_price := mk_asset 0 TOKEN_SYMBOL, acc_subaccount_on_sale := False,
       acc_memo_key := acc_current_bidder_key a, acc_recovery_account := acc_current_bidder a, acc_last_account_update := now\<rparr>"

definition settle_auction :: "account_object \<Rightarrow> database \<Rightarrow> database result" where
  "settle_auction a db =
     (case get_account (acc_account_seller a) db of Inl e \<Rightarrow> Inl e
      | Inr seller \<Rightarrow>
      case modify_account (acc_current_bidder a)
             (sub_field acc_reserved_balance acc_reserved_balance_update (acc_current_bid a)) db of Inl e \<Rightarrow> Inl e
      | Inr db1 \<Rightarrow>
      case modify_account (acc_account_seller a) (add_field acc_balance acc_balance_update (acc_current_bid a)) db1 of
        Inl e \<Rightarrow> Inl e
      | Inr db2 \<Rightarrow>
      case get_authority (acc_name a) db2 of Inl e \<Rightarrow> Inl e
      | Inr _ \<Rightarrow> assign (acc_name a) (awarded (head_block_time db))
          (modify_authority (acc_name a) (owned_by (acc_current_bidder_key a) (head_block_time db)) db2))"

definition expire_auction :: "account_name_type \<Rightarrow> database \<Rightarrow> database result" where
  "expire_auction n db =
     (case get_account n db of Inl e \<Rightarrow> Inl e
      | Inr a \<Rightarrow>
      if \<not> acc_account_on_sale_start_time a \<le> head_block_time db then Inr db
      else if acc_current_bidder a = [] then assign n clear_auction db
      else case get_account (acc_current_bidder a) db of Inl e \<Rightarrow> Inl e
      | Inr _ \<Rightarrow>
      if acc_target_buyer a \<noteq> [] \<and> acc_current_bidder a \<noteq> acc_target_buyer a then drop_bid n db
      else if acc_account_on_sale a \<and> amount (acc_current_bid a) \<ge> amount (acc_account_offer_price a) then
        if find_row arr_account_to_recover n (db_recovery_requests db) \<noteq> None then
          case return_bid n db of Inl e \<Rightarrow> Inl e
          | Inr db1 \<Rightarrow> assign n (\<lambda>a. (clear_auction (end_sale a))\<lparr>acc_target_buyer := []\<rparr>) db1
        else settle_auction a db
      else drop_bid n db)"

text \<open>
  The loop visits every account on auction once.  The index is by the flag alone, so that the source
  does not fix the order of the accounts; here it is that of the table.
\<close>

definition account_on_auction_expiration :: "database \<Rightarrow> database result" where
  "account_on_auction_expiration db =
     fold_result expire_auction (map acc_name (filter acc_account_on_auction (db_accounts db))) db"

section \<open>The reserve and the bids\<close>

text \<open>
  What the reserved balance of \<open>m\<close> has over the bids of \<open>m\<close> that stand, row by row.
\<close>

definition bid_gap :: "account_name_type \<Rightarrow> account_object \<Rightarrow> int" where
  "bid_gap m a = (if acc_name a = m then amount (acc_reserved_balance a) else 0)
     - (if acc_current_bidder a = m then amount (acc_current_bid a) else 0)"

text \<open>An account is on auction exactly when somebody has bid.\<close>

definition bid_flags :: "account_object \<Rightarrow> bool" where
  "bid_flags a = (acc_account_on_auction a = (acc_current_bidder a \<noteq> []) \<and>
     (acc_current_bidder a = [] \<longrightarrow> amount (acc_current_bid a) = 0))"

definition auctions_ok :: "database \<Rightarrow> bool" where
  "auctions_ok db = ((\<forall>m. total (bid_gap m) (db_accounts db) = 0) \<and> (\<forall>a \<in> set (db_accounts db). bid_flags a))"

text \<open>The fields the invariant reads; an operation that leaves them alone keeps it.\<close>

definition auction_view :: "account_object \<Rightarrow> account_name_type \<times> asset \<times> bool \<times> account_name_type \<times> asset" where
  "auction_view a = (acc_name a, acc_reserved_balance a, acc_account_on_auction a, acc_current_bidder a, acc_current_bid a)"

lemma bid_gap_view: "auction_view a = auction_view b \<Longrightarrow> bid_gap m a = bid_gap m b \<and> bid_flags a = bid_flags b"
  by (simp add: auction_view_def bid_gap_def bid_flags_def)

lemma views_same:
  "map auction_view xs = map auction_view ys \<Longrightarrow>
     total (bid_gap m) xs = total (bid_gap m) ys \<and> (\<forall>a \<in> set xs. bid_flags a) = (\<forall>a \<in> set ys. bid_flags a)"
proof (induction xs arbitrary: ys)
  case (Cons x xs)
  then obtain y ys' where "ys = y # ys'" "auction_view x = auction_view y" "map auction_view xs = map auction_view ys'"
    by (cases ys) auto
  with Cons.IH [of ys'] bid_gap_view [of x y m] show ?case by auto
qed simp

lemma auctions_ok_view:
  "map auction_view (db_accounts db') = map auction_view (db_accounts db) \<Longrightarrow> auctions_ok db' = auctions_ok db"
  using views_same [of "db_accounts db'" "db_accounts db"] by (simp add: auctions_ok_def)

abbreviation kept :: "database \<Rightarrow> database \<Rightarrow> bool" where
  "kept db db' \<equiv> keys_ok db' \<and> excess db' = excess db \<and> share_gap db' = share_gap db"

text \<open>What a step does to both invariants.\<close>

definition sale_kept :: "database \<Rightarrow> database \<Rightarrow> bool" where
  "sale_kept db db' = (keys_ok db \<longrightarrow> kept db db' \<and> (auctions_ok db \<longrightarrow> auctions_ok db'))"

lemma sale_kept_refl [simp]: "sale_kept db db"
  by (simp add: sale_kept_def)

lemma sale_kept_trans [trans]: "sale_kept db db1 \<Longrightarrow> sale_kept db1 db2 \<Longrightarrow> sale_kept db db2"
  by (simp add: sale_kept_def)

lemma sale_kept_same: "same_ledger db db' \<Longrightarrow> sale_kept db db'"
  using same_ledger_moves [of db db'] auctions_ok_view [of db' db] by (simp add: sale_kept_def same_ledger_def)

text \<open>A step that does not touch bids and reserves.\<close>

definition quiet :: "database \<Rightarrow> database \<Rightarrow> bool" where
  "quiet db db' = (keys_ok db \<longrightarrow> kept db db' \<and> map auction_view (db_accounts db') = map auction_view (db_accounts db))"

lemma quiet_refl [simp]: "quiet db db"
  by (simp add: quiet_def)

lemma quiet_trans [trans]: "quiet db db1 \<Longrightarrow> quiet db1 db2 \<Longrightarrow> quiet db db2"
  by (simp add: quiet_def)

lemma quiet_kept: "quiet db db' \<Longrightarrow> sale_kept db db'"
  using auctions_ok_view [of db' db] by (auto simp: sale_kept_def quiet_def)

lemma quiet_same: "same_ledger db db' \<Longrightarrow> quiet db db'"
  using same_ledger_moves [of db db'] by (simp add: quiet_def same_ledger_def)

lemma quiet_find:
  assumes "quiet db db'" and "keys_ok db" and "find_row acc_name n (db_accounts db) = Some a"
  obtains a' where "find_row acc_name n (db_accounts db') = Some a'" and "auction_view a' = auction_view a"
proof -
  have "map_option auction_view (find_row acc_name n (db_accounts db')) = map_option auction_view (find_row acc_name n (db_accounts db))"
    by (rule find_row_view) (use assms(1,2) in \<open>auto simp: quiet_def auction_view_def\<close>)
  with assms(3) that show ?thesis by auto
qed

lemma assign_quiet:
  assumes "assign n f db = Inr db'"
    and "\<And>a. account_tokens (f a) = account_tokens a \<and> account_shares (f a) = account_shares a \<and> auction_view (f a) = auction_view a"
  shows "quiet db db'"
  unfolding quiet_def
proof (intro impI conjI)
  assume k: "keys_ok db"
  have n: "acc_name (f a) = acc_name a" for a using assms(2) [of a] by (simp add: auction_view_def)
  have "kept db db'"
    by (rule modify_account_kept [OF assms(1) [unfolded assign_def] k]) (use assms(2) n in auto)
  then show "keys_ok db'" "excess db' = excess db" "share_gap db' = share_gap db" by simp_all
  show "map auction_view (db_accounts db') = map auction_view (db_accounts db)"
    by (rule modify_account_view [OF assms(1) [unfolded assign_def] k]) (use assms(2) in auto)
qed

lemma adjust_balance_view:
  "adjust_balance n d db = Inr db' \<Longrightarrow> keys_ok db \<Longrightarrow> map auction_view (db_accounts db') = map auction_view (db_accounts db)"
  unfolding adjust_balance_def
  by (erule modify_account_view) (auto simp: run_simps auction_view_def)

lemma pay_committee_quiet: "pay_committee n fee db = Inr db' \<Longrightarrow> quiet db db'"
  using pay_committee_ledger [of n fee db db']
  by (auto simp: quiet_def pay_committee_def case_sum_Inr modify_dgp_Inr dest: adjust_balance_view)

lemma pay_sale_fee_quiet: "pay_sale_fee due a fee db = Inr db' \<Longrightarrow> quiet db db'"
  by (auto simp: pay_sale_fee_def case_sum_Inr if_Inl_Inr dest: pay_committee_quiet split: if_splits)

lemma pay_seller_quiet:
  assumes "pay_seller n m price db = Inr db'"
  shows "quiet db db'"
  unfolding quiet_def
proof
  assume k: "keys_ok db"
  from assms obtain db1 where 1: "adjust_balance n (asset_neg price) db = Inr db1" and 2: "adjust_balance m price db1 = Inr db'"
    by (auto simp: pay_seller_def case_sum_Inr)
  have k1: "keys_ok db1 \<and> excess db1 = excess db - amount price \<and> share_gap db1 = share_gap db"
    using adjust_balance_ledger [OF 1 k] by (simp add: asset_neg_def)
  with adjust_balance_ledger [OF 2] adjust_balance_view [OF 1 k] adjust_balance_view [OF 2]
  show "kept db db' \<and> map auction_view (db_accounts db') = map auction_view (db_accounts db)" by simp
qed

lemma pay_shares_quiet:
  assumes "pay_shares n m tokens db = Inr db'"
  shows "quiet db db'"
  unfolding quiet_def
proof
  assume k: "keys_ok db"
  from assms obtain db1 v where 1: "adjust_balance n (asset_neg tokens) db = Inr db1" and 2: "create_vesting m tokens db1 = Inr (v, db')"
    by (auto simp: pay_shares_def case_sum_Inr)
  have k1: "keys_ok db1 \<and> excess db1 = excess db - amount tokens \<and> share_gap db1 = share_gap db"
    using adjust_balance_ledger [OF 1 k] by (simp add: asset_neg_def)
  have "map auction_view (db_accounts db') = map auction_view (db_accounts db1)"
    using create_vesting_frame [OF 2, of auction_view] k1 by (simp add: vote_free_def auction_view_def)
  with create_vesting_ledger [OF 2] k1 adjust_balance_view [OF 1 k]
  show "kept db db' \<and> map auction_view (db_accounts db') = map auction_view (db_accounts db)" by simp
qed

text \<open>One row: the change of the gaps, of the flags and of the books.\<close>

lemma modify_account_gap:
  assumes "modify_account n f db = Inr db'" and "keys_ok db" and "\<And>a a'. f a = Inr a' \<Longrightarrow> acc_name a' = acc_name a"
  obtains a a' where "find_row acc_name n (db_accounts db) = Some a" and "f a = Inr a'" and "keys_ok db'"
    and "\<And>k. find_row acc_name k (db_accounts db') = (if k = n then Some a' else find_row acc_name k (db_accounts db))"
    and "\<And>m. total (bid_gap m) (db_accounts db') = total (bid_gap m) (db_accounts db) - bid_gap m a + bid_gap m a'"
    and "set (db_accounts db') \<subseteq> insert a' {x \<in> set (db_accounts db). acc_name x \<noteq> n}"
    and "excess db' = excess db - account_tokens a + account_tokens a'"
    and "share_gap db' = share_gap db + account_shares a - account_shares a'"
proof -
  obtain a a' where a: "find_row acc_name n (db_accounts db) = Some a" "f a = Inr a'"
    and e: "excess db' = excess db - account_tokens a + account_tokens a'"
      "share_gap db' = share_gap db + account_shares a - account_shares a'" and k: "acc_name a' = n \<Longrightarrow> keys_ok db'"
    by (rule modify_account_ledger [OF assms(1,2)]) blast
  have n: "acc_name a = n" "acc_name a' = n" using find_row_key [OF a(1)] assms(3) [OF a(2)] by simp_all
  have db': "db_accounts db' = modify_row acc_name n (\<lambda>_. a') (db_accounts db)"
    using assms(1) a by (auto simp: run_simps)
  have u: "unique_keys acc_name (db_accounts db)" using assms(2) by (simp add: keys_ok_def)
  have "find_row acc_name m (db_accounts db') = (if m = n then Some a' else find_row acc_name m (db_accounts db))" for m
    using a(1) n by (simp add: db' find_modify_row)
  moreover have "total (bid_gap m) (db_accounts db') = total (bid_gap m) (db_accounts db) - bid_gap m a + bid_gap m a'" for m
    by (simp add: db' rows.sum_modify [OF u a(1)])
  moreover have "set (db_accounts db') \<subseteq> insert a' {x \<in> set (db_accounts db). acc_name x \<noteq> n}"
    by (auto simp: db' modify_row_def)
  ultimately show ?thesis using a e k [OF n(2)] that by blast
qed

lemma unreserve_Inr: "unreserve bid a = Inr a' \<Longrightarrow>
    a' = a\<lparr>acc_reserved_balance := mk_asset (amount (acc_reserved_balance a) - amount bid) (symbol bid),
           acc_balance := mk_asset (amount (acc_balance a) + amount bid) (symbol bid)\<rparr>"
  by (auto simp: unreserve_def run_simps)

lemma reserve_Inr: "reserve bid a = Inr a' \<Longrightarrow>
    a' = a\<lparr>acc_reserved_balance := mk_asset (amount (acc_reserved_balance a) + amount bid) (symbol bid),
           acc_balance := mk_asset (amount (acc_balance a) - amount bid) (symbol bid)\<rparr>"
  by (auto simp: reserve_def run_simps)

text \<open>Taking the bid on \<open>n\<close> out of the reserve of the bidder: every other gap and all flags stay.\<close>

lemma release_moves:
  assumes "modify_account (acc_current_bidder a) f db = Inr db'" and "keys_ok db"
    and a: "find_row acc_name n (db_accounts db) = Some a"
    and f: "\<And>b b'. f b = Inr b' \<Longrightarrow> acc_name b' = acc_name b \<and> acc_current_bidder b' = acc_current_bidder b \<and>
      acc_current_bid b' = acc_current_bid b \<and> acc_account_on_auction b' = acc_account_on_auction b \<and>
      amount (acc_reserved_balance b') = amount (acc_reserved_balance b) - amount (acc_current_bid a) \<and>
      account_tokens b' = account_tokens b + t \<and> account_shares b' = account_shares b"
  obtains a' where "find_row acc_name n (db_accounts db') = Some a'" and "acc_current_bidder a' = acc_current_bidder a"
    and "acc_current_bid a' = acc_current_bid a" and "keys_ok db' \<and> excess db' = excess db + t \<and> share_gap db' = share_gap db"
    and "\<forall>m. total (bid_gap m) (db_accounts db') =
           total (bid_gap m) (db_accounts db) - (if acc_current_bidder a = m then amount (acc_current_bid a) else 0)"
    and "(\<forall>x \<in> set (db_accounts db). bid_flags x) \<longrightarrow> (\<forall>x \<in> set (db_accounts db'). bid_flags x)"
proof -
  obtain b b' where b: "find_row acc_name (acc_current_bidder a) (db_accounts db) = Some b" "f b = Inr b'"
    "keys_ok db'" and fi: "\<And>k. find_row acc_name k (db_accounts db') = (if k = acc_current_bidder a then Some b' else find_row acc_name k (db_accounts db))"
    and g: "\<And>m. total (bid_gap m) (db_accounts db') = total (bid_gap m) (db_accounts db) - bid_gap m b + bid_gap m b'"
    and s: "set (db_accounts db') \<subseteq> insert b' {x \<in> set (db_accounts db). acc_name x \<noteq> acc_current_bidder a}"
    and e: "excess db' = excess db - account_tokens b + account_tokens b'" "share_gap db' = share_gap db + account_shares b - account_shares b'"
    by (rule modify_account_gap [OF assms(1,2)]) (auto dest: f)
  note u = f [OF b(2)]
  have nb: "acc_name b = acc_current_bidder a" using find_row_key [OF b(1)] .
  let ?a' = "if n = acc_current_bidder a then b' else a"
  have "n = acc_current_bidder a \<Longrightarrow> a = b" using a b(1) by simp
  then have v: "acc_current_bidder ?a' = acc_current_bidder a" "acc_current_bid ?a' = acc_current_bid a" using u by auto
  show ?thesis
  proof (rule that [of ?a'])
    show "find_row acc_name n (db_accounts db') = Some ?a'" using a by (simp add: fi)
    show "\<forall>m. total (bid_gap m) (db_accounts db') = total (bid_gap m) (db_accounts db)
        - (if acc_current_bidder a = m then amount (acc_current_bid a) else 0)"
      using u by (simp add: g bid_gap_def nb)
    show "keys_ok db' \<and> excess db' = excess db + t \<and> share_gap db' = share_gap db" using e b(3) u by simp
    have "bid_flags b' = bid_flags b" using u by (simp add: bid_flags_def)
    then show "(\<forall>x \<in> set (db_accounts db). bid_flags x) \<longrightarrow> (\<forall>x \<in> set (db_accounts db'). bid_flags x)"
      using s find_row_set [OF b(1)] by auto
  qed (use v in simp_all)
qed

lemma return_bid_moves:
  assumes "return_bid n db = Inr db'" and "keys_ok db"
  obtains a a' where "find_row acc_name n (db_accounts db) = Some a" and "find_row acc_name n (db_accounts db') = Some a'"
    and "acc_current_bidder a' = acc_current_bidder a" and "acc_current_bid a' = acc_current_bid a" and "kept db db'"
    and "\<forall>m. total (bid_gap m) (db_accounts db') =
           total (bid_gap m) (db_accounts db) - (if acc_current_bidder a = m then amount (acc_current_bid a) else 0)"
    and "(\<forall>x \<in> set (db_accounts db). bid_flags x) \<longrightarrow> (\<forall>x \<in> set (db_accounts db'). bid_flags x)"
proof -
  from assms(1) obtain a where a: "find_row acc_name n (db_accounts db) = Some a"
    and m: "modify_account (acc_current_bidder a) (unreserve (acc_current_bid a)) db = Inr db'"
    by (auto simp: return_bid_def case_sum_Inr get_account_Inr)
  show ?thesis
    by (rule release_moves [OF m assms(2) a, of 0])
      (auto dest!: unreserve_Inr simp: account_tokens_def account_shares_def intro: that [OF a])
qed

text \<open>An assignment that clears the auction.\<close>

definition clears :: "(account_object \<Rightarrow> account_object) \<Rightarrow> bool" where
  "clears f = (\<forall>a. account_tokens (f a) = account_tokens a \<and> account_shares (f a) = account_shares a \<and>
     auction_view (f a) = (acc_name a, acc_reserved_balance a, False, [], mk_asset 0 TOKEN_SYMBOL))"

lemma clears_auction [simp]:
  "clears clear_auction" "clears (\<lambda>a. clear_auction (end_sale a))"
  "clears (\<lambda>a. clear_auction ((end_sale a)\<lparr>acc_target_buyer := []\<rparr>))"
  "clears (\<lambda>a. (clear_auction (end_sale a))\<lparr>acc_target_buyer := []\<rparr>)" "clears (awarded now)"
  by (simp_all add: clears_def clear_auction_def end_sale_def awarded_def auction_view_def account_tokens_def account_shares_def)

lemma assign_clears:
  assumes "assign n f db = Inr db'" and "clears f" and "keys_ok db"
  obtains a where "find_row acc_name n (db_accounts db) = Some a" and "kept db db'"
    and "\<forall>m. total (bid_gap m) (db_accounts db') =
           total (bid_gap m) (db_accounts db) + (if acc_current_bidder a = m then amount (acc_current_bid a) else 0)"
    and "(\<forall>x \<in> set (db_accounts db). acc_name x \<noteq> n \<longrightarrow> bid_flags x) \<longrightarrow> (\<forall>x \<in> set (db_accounts db'). bid_flags x)"
proof -
  have c: "account_tokens (f a) = account_tokens a" "account_shares (f a) = account_shares a" "acc_name (f a) = acc_name a"
      "acc_reserved_balance (f a) = acc_reserved_balance a" "\<not> acc_account_on_auction (f a)" "acc_current_bidder (f a) = []"
      "acc_current_bid (f a) = mk_asset 0 TOKEN_SYMBOL" for a
    using assms(2) by (simp_all add: clears_def auction_view_def)
  obtain a a' where a: "find_row acc_name n (db_accounts db) = Some a" and f: "Inr (f a) = (Inr a' :: account_object result)" and k: "keys_ok db'"
    and g: "\<And>m. total (bid_gap m) (db_accounts db') = total (bid_gap m) (db_accounts db) - bid_gap m a + bid_gap m a'"
    and s: "set (db_accounts db') \<subseteq> insert a' {x \<in> set (db_accounts db). acc_name x \<noteq> n}"
    and e: "excess db' = excess db - account_tokens a + account_tokens a'" "share_gap db' = share_gap db + account_shares a - account_shares a'"
    by (rule modify_account_gap [OF assms(1) [unfolded assign_def] assms(3)]) (use c in auto)
  have a': "a' = f a" using f by simp
  show ?thesis
  proof (rule that [OF a])
    show "kept db db'" using e k by (simp add: a' c)
    show "\<forall>m. total (bid_gap m) (db_accounts db') =
           total (bid_gap m) (db_accounts db) + (if acc_current_bidder a = m then amount (acc_current_bid a) else 0)"
      by (simp add: g a' bid_gap_def c)
    show "(\<forall>x \<in> set (db_accounts db). acc_name x \<noteq> n \<longrightarrow> bid_flags x) \<longrightarrow> (\<forall>x \<in> set (db_accounts db'). bid_flags x)"
      using s by (auto simp: a' c bid_flags_def)
  qed
qed

lemma return_clear_kept:
  assumes "return_bid n db = Inr db1" and "assign n f db1 = Inr db'" and "clears f"
  shows "sale_kept db db'"
  unfolding sale_kept_def
proof
  assume k: "keys_ok db"
  obtain a a1 where "find_row acc_name n (db_accounts db) = Some a" and 1: "find_row acc_name n (db_accounts db1) = Some a1"
    "acc_current_bidder a1 = acc_current_bidder a" "acc_current_bid a1 = acc_current_bid a" "kept db db1"
    and g1: "\<forall>m. total (bid_gap m) (db_accounts db1) =
           total (bid_gap m) (db_accounts db) - (if acc_current_bidder a = m then amount (acc_current_bid a) else 0)"
    and f1: "(\<forall>x \<in> set (db_accounts db). bid_flags x) \<longrightarrow> (\<forall>x \<in> set (db_accounts db1). bid_flags x)"
    by (rule return_bid_moves [OF assms(1) k])
  obtain a2 where 2: "find_row acc_name n (db_accounts db1) = Some a2" "kept db1 db'"
    and g2: "\<forall>m. total (bid_gap m) (db_accounts db') =
           total (bid_gap m) (db_accounts db1) + (if acc_current_bidder a2 = m then amount (acc_current_bid a2) else 0)"
    and f2: "(\<forall>x \<in> set (db_accounts db1). acc_name x \<noteq> n \<longrightarrow> bid_flags x) \<longrightarrow> (\<forall>x \<in> set (db_accounts db'). bid_flags x)"
    by (rule assign_clears [OF assms(2,3) conjunct1 [OF 1(4)]])
  have "a2 = a1" using 1(1) 2(1) by simp
  then have "total (bid_gap m) (db_accounts db') = total (bid_gap m) (db_accounts db)" for m
    by (simp add: g2 g1 1(2,3))
  then have "auctions_ok db \<longrightarrow> auctions_ok db'" using f1 f2 unfolding auctions_ok_def by simp
  then show "kept db db' \<and> (auctions_ok db \<longrightarrow> auctions_ok db')" using 1(4) 2(2) by simp
qed

lemma drop_bid_kept: "drop_bid n db = Inr db' \<Longrightarrow> sale_kept db db'"
  by (auto simp: drop_bid_def case_sum_Inr intro: return_clear_kept)

text \<open>Clearing when there is no bid.\<close>

lemma clear_no_bid_kept:
  assumes "assign n f db = Inr db'" and "clears f" and "find_row acc_name n (db_accounts db) = Some a"
    and "bid_flags a \<Longrightarrow> acc_current_bidder a = []"
  shows "sale_kept db db'"
  unfolding sale_kept_def
proof
  assume "keys_ok db"
  from assms(1,2) this show "kept db db' \<and> (auctions_ok db \<longrightarrow> auctions_ok db')"
  proof (rule assign_clears)
    fix x assume x: "find_row acc_name n (db_accounts db) = Some x" and k: "kept db db'"
      and g: "\<forall>m. total (bid_gap m) (db_accounts db') =
           total (bid_gap m) (db_accounts db) + (if acc_current_bidder x = m then amount (acc_current_bid x) else 0)"
      and f: "(\<forall>x \<in> set (db_accounts db). acc_name x \<noteq> n \<longrightarrow> bid_flags x) \<longrightarrow> (\<forall>x \<in> set (db_accounts db'). bid_flags x)"
    have xa: "x = a" using x assms(3) by simp
    have "auctions_ok db'" if ok: "auctions_ok db"
    proof -
      have fl: "\<forall>y \<in> set (db_accounts db). bid_flags y" using ok by (simp add: auctions_ok_def)
      then have b: "bid_flags a" using find_row_set [OF assms(3)] by blast
      have "amount (acc_current_bid a) = 0" using b assms(4) [OF b] by (simp add: bid_flags_def)
      then have "total (bid_gap m) (db_accounts db') = total (bid_gap m) (db_accounts db)" for m by (simp add: g xa)
      with ok f fl show ?thesis by (simp add: auctions_ok_def)
    qed
    with k show ?thesis by blast
  qed
qed

lemma withdraw_sale_kept:
  assumes "withdraw_sale n f a db = Inr db'" and "clears f"
    and "find_row acc_name n (db_accounts db) = Some a1" and "auction_view a1 = auction_view a"
  shows "sale_kept db db'"
proof (cases "acc_account_on_auction a \<and> acc_current_bidder a \<noteq> []")
  case True
  with assms(1) obtain db1 where "return_bid n db = Inr db1" and "assign n f db1 = Inr db'"
    by (auto simp: withdraw_sale_def case_sum_Inr)
  then show ?thesis using assms(2) by (rule return_clear_kept)
next
  case False
  with assms(1) have "assign n f db = Inr db'" by (auto simp: withdraw_sale_def split: if_splits)
  moreover have "bid_flags a1 \<Longrightarrow> acc_current_bidder a1 = []" using False assms(4) by (auto simp: bid_flags_def auction_view_def)
  ultimately show ?thesis using assms(2,3) by (intro clear_no_bid_kept)
qed

lemma reprice_kept:
  assumes "reprice o' a db = Inr db'" and "find_row acc_name (sa_account o') (db_accounts db) = Some a1"
    and "auction_view a1 = auction_view a"
  shows "sale_kept db db'"
proof (cases "sa_account_on_sale o'")
  case True
  with assms(1) show ?thesis
    by (auto simp: reprice_def case_sum_Inr dest: drop_bid_kept split: if_splits)
next
  case False
  with assms(1) have "withdraw_sale (sa_account o') (\<lambda>a. clear_auction (end_sale a)) a db = Inr db'" by (simp add: reprice_def)
  then show ?thesis using clears_auction(2) assms(2,3) by (rule withdraw_sale_kept)
qed

lemma retarget_kept:
  assumes "retarget o' a db = Inr db'" and "find_row acc_name (ta_account o') (db_accounts db) = Some a1"
    and "auction_view a1 = auction_view a"
  shows "sale_kept db db'"
proof (cases "ta_account_on_sale o'")
  case True
  with assms(1) obtain db1 dearer where d: "(if acc_current_bidder a \<noteq> [] then
              if dearer then
                if amount (acc_current_bid a) \<ge> amount (ta_account_offer_price o') then
                  if acc_current_bidder a \<noteq> ta_target_buyer o' then drop_bid (ta_account o') db else Inr db
                else drop_bid (ta_account o') db
              else if acc_current_bidder a \<noteq> ta_target_buyer o' then drop_bid (ta_account o') db else Inr db
            else Inr db) = Inr db1"
    and 2: "assign (ta_account o') (\<lambda>a. (put_on_sale True (ta_account_offer_price o') (head_block_time db) a)
                       \<lparr>acc_target_buyer := ta_target_buyer o'\<rparr>) db1 = Inr db'"
    unfolding retarget_def by (simp only: not_True_eq_False if_False case_sum_Inr) blast
  from d have "sale_kept db db1" by (auto dest: drop_bid_kept split: if_splits)
  also have "sale_kept db1 db'"
    by (rule quiet_kept [OF assign_quiet [OF 2]])
      (simp add: put_on_sale_def Let_def account_tokens_def account_shares_def auction_view_def)
  finally show ?thesis .
next
  case False
  with assms(1) have "withdraw_sale (ta_account o') (\<lambda>a. clear_auction ((end_sale a)\<lparr>acc_target_buyer := []\<rparr>)) a db = Inr db'"
    by (simp add: retarget_def)
  then show ?thesis using clears_auction(3) assms(2,3) by (rule withdraw_sale_kept)
qed

lemma set_account_price_kept:
  assumes "set_account_price_apply o' db = Inr db'"
  shows "sale_kept db db'"
proof (cases "keys_ok db")
  case k: True
  from assms obtain a db1 where a: "find_row acc_name (sa_account o') (db_accounts db) = Some a"
    and p: "pay_sale_fee (has_hardfork 9 db \<and> acc_account_seller a = []) a (account_on_sale_fee (median_props db)) db = Inr db1"
    and r: "(if has_hardfork 11 db then
        case assign (sa_account o') (\<lambda>a. a\<lparr>acc_account_seller := sa_account_seller o'\<rparr>) db1 of Inl e \<Rightarrow> Inl e
        | Inr db2 \<Rightarrow>
        case reprice o' a db2 of Inl e \<Rightarrow> Inl e
        | Inr db3 \<Rightarrow> assign (sa_account o')
            (put_on_sale (sa_account_on_sale o') (sa_account_offer_price o') (head_block_time db)) db3
      else assign (sa_account o') (old_price o' db) db1) = Inr db'"
    unfolding set_account_price_apply_def case_sum_Inr get_account_Inr by blast
  note q1 = pay_sale_fee_quiet [OF p]
  show ?thesis
  proof (cases "has_hardfork 11 db")
    case True
    with r obtain db2 db3 where 2: "assign (sa_account o') (\<lambda>a. a\<lparr>acc_account_seller := sa_account_seller o'\<rparr>) db1 = Inr db2"
      and 3: "reprice o' a db2 = Inr db3"
      and 4: "assign (sa_account o') (put_on_sale (sa_account_on_sale o') (sa_account_offer_price o') (head_block_time db)) db3 = Inr db'"
      by (auto simp: case_sum_Inr)
    have "quiet db1 db2"
      by (rule assign_quiet [OF 2]) (simp add: account_tokens_def account_shares_def auction_view_def)
    with q1 have q: "quiet db db2" by (rule quiet_trans)
    obtain a1 where "find_row acc_name (sa_account o') (db_accounts db2) = Some a1" "auction_view a1 = auction_view a"
      by (rule quiet_find [OF q k a])
    from quiet_kept [OF q] reprice_kept [OF 3 this] have "sale_kept db db3" by (rule sale_kept_trans)
    also have "sale_kept db3 db'"
      by (rule quiet_kept [OF assign_quiet [OF 4]])
        (simp add: put_on_sale_def Let_def account_tokens_def account_shares_def auction_view_def)
    finally show ?thesis .
  next
    case False
    with r have "assign (sa_account o') (old_price o' db) db1 = Inr db'" by simp
    then have "quiet db1 db'"
      by (rule assign_quiet) (simp add: old_price_def Let_def account_tokens_def account_shares_def auction_view_def)
    with q1 show ?thesis using quiet_trans quiet_kept by blast
  qed
qed (simp add: sale_kept_def)

lemma target_account_sale_kept:
  assumes "target_account_sale_apply o' db = Inr db'"
  shows "sale_kept db db'"
proof (cases "keys_ok db")
  case k: True
  from assms obtain a db1 db2 db3 where a: "find_row acc_name (ta_account o') (db_accounts db) = Some a"
    and p: "pay_sale_fee (acc_account_seller a = []) a (account_on_sale_fee (median_props db)) db = Inr db1"
    and 2: "assign (ta_account o') (\<lambda>a. a\<lparr>acc_account_seller := ta_account_seller o'\<rparr>) db1 = Inr db2"
    and 3: "retarget o' a db2 = Inr db3"
    and 4: "assign (ta_account o') (target_price o' (head_block_time db)) db3 = Inr db'"
    unfolding target_account_sale_apply_def case_sum_Inr get_account_Inr by blast
  have "quiet db1 db2"
    by (rule assign_quiet [OF 2]) (simp add: account_tokens_def account_shares_def auction_view_def)
  with pay_sale_fee_quiet [OF p] have q: "quiet db db2" by (rule quiet_trans)
  obtain a1 where "find_row acc_name (ta_account o') (db_accounts db2) = Some a1" "auction_view a1 = auction_view a"
    by (rule quiet_find [OF q k a])
  from quiet_kept [OF q] retarget_kept [OF 3 this] have "sale_kept db db3" by (rule sale_kept_trans)
  also have "sale_kept db3 db'"
    by (rule quiet_kept [OF assign_quiet [OF 4]])
      (simp add: target_price_def Let_def account_tokens_def account_shares_def auction_view_def)
  finally show ?thesis .
qed (simp add: sale_kept_def)

lemma set_subaccount_price_kept:
  assumes "set_subaccount_price_apply o' db = Inr db'"
  shows "sale_kept db db'"
proof -
  from assms obtain a fee due f db1 where "pay_sale_fee due a fee db = Inr db1" and 2: "assign (ss_account o') f db1 = Inr db'"
    and f: "f = (\<lambda>a. a\<lparr>acc_subaccount_seller := ss_subaccount_seller o',
          acc_subaccount_offer_price := ss_subaccount_offer_price o', acc_subaccount_on_sale := ss_subaccount_on_sale o'\<rparr>)"
    unfolding set_subaccount_price_apply_def case_sum_Inr by blast
  then have "quiet db db1" by (intro pay_sale_fee_quiet)
  also have "quiet db1 db'"
    by (rule assign_quiet [OF 2]) (simp add: f account_tokens_def account_shares_def auction_view_def)
  finally show ?thesis by (rule quiet_kept)
qed

lemma purchase_kept:
  assumes "purchase o' buyer account db = Inr db'"
  shows "sale_kept db db'"
proof -
  from assms obtain seller db1 db2 db3 where 1: "pay_seller (ba_buyer o') (acc_name (seller :: account_object)) (acc_account_offer_price account) db = Inr db1"
    and 2: "pay_shares (ba_buyer o') (ba_account o') (ba_tokens_to_shares o') db1 = Inr db2"
    and 3: "assign (ba_account o') (sold o' db) db2 = Inr db3"
    and db': "db' = modify_authority (ba_account o') (owned_by (ba_account_authorities_key o') (head_block_time db)) db3"
    unfolding purchase_def case_sum_Inr by blast
  from pay_seller_quiet [OF 1] pay_shares_quiet [OF 2] have "quiet db db2" by (rule quiet_trans)
  also have "quiet db2 db3"
    by (rule assign_quiet [OF 3]) (simp add: sold_def account_tokens_def account_shares_def auction_view_def)
  also have "quiet db3 db'" by (simp add: db' quiet_same modify_authority_same)
  finally show ?thesis by (rule quiet_kept)
qed

text \<open>A bid: what the state is when the reserve of the new bidder is made.\<close>

lemma new_bid_moves:
  assumes "assign n (new_bid o' wall) db = Inr db'" and "keys_ok db" and "ba_buyer o' \<noteq> []"
  obtains a where "find_row acc_name n (db_accounts db) = Some a" and "kept db db'"
    and "\<forall>m. total (bid_gap m) (db_accounts db') =
           total (bid_gap m) (db_accounts db) + (if acc_current_bidder a = m then amount (acc_current_bid a) else 0)
             - (if ba_buyer o' = m then amount (ba_account_offer_price o') else 0)"
    and "(\<forall>x \<in> set (db_accounts db). acc_name x \<noteq> n \<longrightarrow> bid_flags x) \<longrightarrow> (\<forall>x \<in> set (db_accounts db'). bid_flags x)"
proof -
  obtain a a' where a: "find_row acc_name n (db_accounts db) = Some a" and f: "Inr (new_bid o' wall a) = (Inr a' :: account_object result)" and k: "keys_ok db'"
    and g: "\<And>m. total (bid_gap m) (db_accounts db') = total (bid_gap m) (db_accounts db) - bid_gap m a + bid_gap m a'"
    and s: "set (db_accounts db') \<subseteq> insert a' {x \<in> set (db_accounts db). acc_name x \<noteq> n}"
    and e: "excess db' = excess db - account_tokens a + account_tokens a'" "share_gap db' = share_gap db + account_shares a - account_shares a'"
    by (rule modify_account_gap [OF assms(1) [unfolded assign_def] assms(2)]) (auto simp: new_bid_def)
  have a': "a' = new_bid o' wall a" using f by simp
  have fl: "bid_flags a'" using assms(3) by (simp add: a' bid_flags_def new_bid_def)
  show ?thesis
  proof (rule that [OF a])
    show "kept db db'" using e k by (simp add: a' new_bid_def account_tokens_def account_shares_def)
    show "\<forall>m. total (bid_gap m) (db_accounts db') =
           total (bid_gap m) (db_accounts db) + (if acc_current_bidder a = m then amount (acc_current_bid a) else 0)
             - (if ba_buyer o' = m then amount (ba_account_offer_price o') else 0)"
      by (simp add: g a' bid_gap_def new_bid_def)
    show "(\<forall>x \<in> set (db_accounts db). acc_name x \<noteq> n \<longrightarrow> bid_flags x) \<longrightarrow> (\<forall>x \<in> set (db_accounts db'). bid_flags x)"
      using s fl by auto
  qed
qed

lemma reserve_moves:
  assumes "modify_account n (reserve bid) db = Inr db'" and "keys_ok db"
  shows "kept db db' \<and> (\<forall>m. total (bid_gap m) (db_accounts db') = total (bid_gap m) (db_accounts db) + (if n = m then amount bid else 0)) \<and>
    ((\<forall>x \<in> set (db_accounts db). bid_flags x) \<longrightarrow> (\<forall>x \<in> set (db_accounts db'). bid_flags x))"
proof -
  obtain b b' where b: "find_row acc_name n (db_accounts db) = Some b" "reserve bid b = Inr b'" "keys_ok db'"
    and g: "\<And>m. total (bid_gap m) (db_accounts db') = total (bid_gap m) (db_accounts db) - bid_gap m b + bid_gap m b'"
    and s: "set (db_accounts db') \<subseteq> insert b' {x \<in> set (db_accounts db). acc_name x \<noteq> n}"
    and e: "excess db' = excess db - account_tokens b + account_tokens b'" "share_gap db' = share_gap db + account_shares b - account_shares b'"
    by (rule modify_account_gap [OF assms]) (auto dest: reserve_Inr)
  note u = reserve_Inr [OF b(2)]
  have nb: "acc_name b = n" using find_row_key [OF b(1)] .
  have "bid_flags b' = bid_flags b" by (simp add: u bid_flags_def)
  then have "(\<forall>x \<in> set (db_accounts db). bid_flags x) \<longrightarrow> (\<forall>x \<in> set (db_accounts db'). bid_flags x)"
    using s find_row_set [OF b(1)] by auto
  moreover have "\<forall>m. total (bid_gap m) (db_accounts db') = total (bid_gap m) (db_accounts db) + (if n = m then amount bid else 0)"
    by (simp add: g u bid_gap_def nb)
  moreover have "kept db db'" using e b(3) by (simp add: u account_tokens_def account_shares_def)
  ultimately show ?thesis by blast
qed

text \<open>The old bid, if there is one, has been returned and still stands in the row of the account.\<close>

lemma outbid_moves:
  assumes "outbid o' account db = Inr db'" and "keys_ok db" and "find_row acc_name (ba_account o') (db_accounts db) = Some account"
    and "auctions_ok db"
  shows "kept db db' \<and> (\<forall>x \<in> set (db_accounts db'). bid_flags x) \<and>
    (\<exists>a'. find_row acc_name (ba_account o') (db_accounts db') = Some a' \<and>
      (\<forall>m. total (bid_gap m) (db_accounts db') = - (if acc_current_bidder a' = m then amount (acc_current_bid a') else 0)))"
proof (cases "acc_current_bidder account = []")
  case True
  have "bid_flags account" using assms(4) find_row_set [OF assms(3)] by (simp add: auctions_ok_def)
  with True have "amount (acc_current_bid account) = 0" by (simp add: bid_flags_def)
  with True assms show ?thesis by (auto simp: outbid_def auctions_ok_def)
next
  case False
  with assms(1) obtain db1 where 1: "return_bid (ba_account o') db = Inr db1"
    and 2: "db' = db1 \<or> assign (ba_account o') (\<lambda>a. a\<lparr>acc_last_bid := acc_current_bid a\<rparr>) db1 = Inr db'"
    by (auto simp: outbid_def case_sum_Inr split: if_splits)
  obtain a a1 where a: "find_row acc_name (ba_account o') (db_accounts db) = Some a" and r: "find_row acc_name (ba_account o') (db_accounts db1) = Some a1"
    "acc_current_bidder a1 = acc_current_bidder a" "acc_current_bid a1 = acc_current_bid a" "kept db db1"
    and g1: "\<forall>m. total (bid_gap m) (db_accounts db1) =
           total (bid_gap m) (db_accounts db) - (if acc_current_bidder a = m then amount (acc_current_bid a) else 0)"
    and f1: "(\<forall>x \<in> set (db_accounts db). bid_flags x) \<longrightarrow> (\<forall>x \<in> set (db_accounts db1). bid_flags x)"
    by (rule return_bid_moves [OF 1 assms(2)])
  have "quiet db1 db'"
    using 2 by (auto intro: assign_quiet simp: account_tokens_def account_shares_def auction_view_def)
  then have q: "kept db1 db'" "map auction_view (db_accounts db') = map auction_view (db_accounts db1)"
    using r(4) by (simp_all add: quiet_def)
  obtain a2 where a2: "find_row acc_name (ba_account o') (db_accounts db') = Some a2" "auction_view a2 = auction_view a1"
    by (rule quiet_find [OF \<open>quiet db1 db'\<close> conjunct1 [OF r(4)] r(1)])
  have v: "acc_current_bidder a2 = acc_current_bidder a" "acc_current_bid a2 = acc_current_bid a"
    using a2(2) r(2,3) by (simp_all add: auction_view_def)
  have same: "total (bid_gap m) (db_accounts db') = total (bid_gap m) (db_accounts db1) \<and>
      (\<forall>x \<in> set (db_accounts db'). bid_flags x) = (\<forall>x \<in> set (db_accounts db1). bid_flags x)" for m
    by (rule views_same [OF q(2)])
  have "total (bid_gap m) (db_accounts db') = - (if acc_current_bidder a2 = m then amount (acc_current_bid a2) else 0)" for m
    using same g1 assms(4) by (simp add: v auctions_ok_def)
  moreover have "\<forall>x \<in> set (db_accounts db'). bid_flags x" using same f1 assms(4) by (simp add: auctions_ok_def)
  ultimately show ?thesis using a2(1) r(4) q(1) by auto
qed

lemma outbid_kept:
  assumes "outbid o' account db = Inr db'" and "keys_ok db"
  shows "kept db db'"
proof (cases "acc_current_bidder account = []")
  case False
  with assms(1) obtain db1 where 1: "return_bid (ba_account o') db = Inr db1"
    and 2: "db' = db1 \<or> assign (ba_account o') (\<lambda>a. a\<lparr>acc_last_bid := acc_current_bid a\<rparr>) db1 = Inr db'"
    by (auto simp: outbid_def case_sum_Inr split: if_splits)
  have k: "kept db db1" by (rule return_bid_moves [OF 1 assms(2)])
  have "quiet db1 db'"
    using 2 by (auto intro: assign_quiet simp: account_tokens_def account_shares_def auction_view_def)
  with k show ?thesis by (simp add: quiet_def)
qed (use assms in \<open>auto simp: outbid_def\<close>)

lemma place_bid_kept:
  assumes "place_bid wall o' account db = Inr db'" and "find_row acc_name (ba_account o') (db_accounts db) = Some account"
    and "ba_buyer o' \<noteq> []"
  shows "sale_kept db db'"
  unfolding sale_kept_def
proof
  assume k: "keys_ok db"
  from assms(1) obtain db1 db2 where 1: "outbid o' account db = Inr db1" and 2: "assign (ba_account o') (new_bid o' wall) db1 = Inr db2"
    and 3: "modify_account (ba_buyer o') (reserve (ba_account_offer_price o')) db2 = Inr db'"
    by (auto simp: place_bid_def case_sum_Inr if_Inl_Inr)
  note k1 = outbid_kept [OF 1 k]
  obtain a where a: "find_row acc_name (ba_account o') (db_accounts db1) = Some a" and k2: "kept db1 db2"
    and g2: "\<forall>m. total (bid_gap m) (db_accounts db2) =
           total (bid_gap m) (db_accounts db1) + (if acc_current_bidder a = m then amount (acc_current_bid a) else 0)
             - (if ba_buyer o' = m then amount (ba_account_offer_price o') else 0)"
    and f2: "(\<forall>x \<in> set (db_accounts db1). acc_name x \<noteq> ba_account o' \<longrightarrow> bid_flags x) \<longrightarrow> (\<forall>x \<in> set (db_accounts db2). bid_flags x)"
    by (rule new_bid_moves [OF 2 conjunct1 [OF k1] assms(3)])
  note r = reserve_moves [OF 3 conjunct1 [OF k2]]
  have "auctions_ok db'" if ok: "auctions_ok db"
  proof -
    from outbid_moves [OF 1 k assms(2) ok] a
    have g1: "\<forall>m. total (bid_gap m) (db_accounts db1) = - (if acc_current_bidder a = m then amount (acc_current_bid a) else 0)"
      and f1: "\<forall>x \<in> set (db_accounts db1). bid_flags x" by auto
    have "total (bid_gap m) (db_accounts db') = 0" for m using r g1 g2 by simp
    with f1 f2 r show ?thesis unfolding auctions_ok_def by simp
  qed
  with r k1 k2 show "kept db db' \<and> (auctions_ok db \<longrightarrow> auctions_ok db')" by simp
qed

lemma settle_auction_kept:
  assumes "settle_auction a db = Inr db'" and a: "find_row acc_name (acc_name a) (db_accounts db) = Some a"
  shows "sale_kept db db'"
  unfolding sale_kept_def
proof
  assume k: "keys_ok db"
  from assms(1) obtain db1 db2 where
    1: "modify_account (acc_current_bidder a) (sub_field acc_reserved_balance acc_reserved_balance_update (acc_current_bid a)) db = Inr db1"
    and 2: "modify_account (acc_account_seller a) (add_field acc_balance acc_balance_update (acc_current_bid a)) db1 = Inr db2"
    and 3: "assign (acc_name a) (awarded (head_block_time db))
          (modify_authority (acc_name a) (owned_by (acc_current_bidder_key a) (head_block_time db)) db2) = Inr db'"
    unfolding settle_auction_def case_sum_Inr by blast
  obtain a1 where r: "find_row acc_name (acc_name a) (db_accounts db1) = Some a1" "acc_current_bidder a1 = acc_current_bidder a"
    "acc_current_bid a1 = acc_current_bid a" "keys_ok db1 \<and> excess db1 = excess db + - amount (acc_current_bid a) \<and> share_gap db1 = share_gap db"
    and g1: "\<forall>m. total (bid_gap m) (db_accounts db1) =
           total (bid_gap m) (db_accounts db) - (if acc_current_bidder a = m then amount (acc_current_bid a) else 0)"
    and f1: "(\<forall>x \<in> set (db_accounts db). bid_flags x) \<longrightarrow> (\<forall>x \<in> set (db_accounts db1). bid_flags x)"
    by (rule release_moves [OF 1 k a, of "- amount (acc_current_bid a)"])
      (auto simp: run_simps account_tokens_def account_shares_def)
  let ?db3 = "modify_authority (acc_name a) (owned_by (acc_current_bidder_key a) (head_block_time db)) db2"
  have 4: "keys_ok db2 \<and> excess db2 = excess db1 + amount (acc_current_bid a) \<and> share_gap db2 = share_gap db1 - 0"
    by (rule modify_account_tokens [OF 2 conjunct1 [OF r(4)]]) (auto simp: run_simps account_tokens_def account_shares_def)
  have v: "map auction_view (db_accounts db2) = map auction_view (db_accounts db1)"
    by (rule modify_account_view [OF 2 conjunct1 [OF r(4)]]) (auto simp: run_simps auction_view_def)
  have s: "db_accounts ?db3 = db_accounts db2" "kept db2 ?db3"
    using same_ledger_moves [OF modify_authority_same] 4 by (simp_all add: modify_authority_def)
  have "map_option auction_view (find_row acc_name (acc_name a) (db_accounts db2)) =
      map_option auction_view (find_row acc_name (acc_name a) (db_accounts db1))"
    by (rule find_row_view [OF v]) (simp add: auction_view_def)
  then obtain a2 where a2: "find_row acc_name (acc_name a) (db_accounts ?db3) = Some a2" "auction_view a2 = auction_view a1"
    using r(1) s(1) by auto
  obtain a3 where a3: "find_row acc_name (acc_name a) (db_accounts ?db3) = Some a3" "kept ?db3 db'"
    and g2: "\<forall>m. total (bid_gap m) (db_accounts db') =
           total (bid_gap m) (db_accounts ?db3) + (if acc_current_bidder a3 = m then amount (acc_current_bid a3) else 0)"
    and f2: "(\<forall>x \<in> set (db_accounts ?db3). acc_name x \<noteq> acc_name a \<longrightarrow> bid_flags x) \<longrightarrow> (\<forall>x \<in> set (db_accounts db'). bid_flags x)"
    by (rule assign_clears [OF 3 clears_auction(5) conjunct1 [OF s(2)]])
  have b: "acc_current_bidder a3 = acc_current_bidder a" "acc_current_bid a3 = acc_current_bid a"
    using a2 a3(1) r(2,3) by (simp_all add: auction_view_def)
  have same: "total (bid_gap m) (db_accounts db2) = total (bid_gap m) (db_accounts db1) \<and>
      (\<forall>x \<in> set (db_accounts db2). bid_flags x) = (\<forall>x \<in> set (db_accounts db1). bid_flags x)" for m
    by (rule views_same [OF v])
  have "total (bid_gap m) (db_accounts db') = total (bid_gap m) (db_accounts db)" for m
    using g1 g2 same [of m] by (simp add: b s(1))
  moreover have "(\<forall>x \<in> set (db_accounts db2). bid_flags x) \<longrightarrow> (\<forall>x \<in> set (db_accounts db'). bid_flags x)"
    using f2 unfolding s(1) by blast
  then have "(\<forall>x \<in> set (db_accounts db). bid_flags x) \<longrightarrow> (\<forall>x \<in> set (db_accounts db'). bid_flags x)"
    using f1 conjunct2 [OF same] by blast
  ultimately have "auctions_ok db \<longrightarrow> auctions_ok db'" unfolding auctions_ok_def by simp
  moreover have "kept db db'" using r(4) 4 s(2) a3(2) by simp
  ultimately show "kept db db' \<and> (auctions_ok db \<longrightarrow> auctions_ok db')" by blast
qed

lemma expire_auction_kept:
  assumes "expire_auction n db = Inr db'"
  shows "sale_kept db db'"
proof -
  from assms obtain a where a: "find_row acc_name n (db_accounts db) = Some a"
    by (auto simp: expire_auction_def case_sum_Inr get_account_Inr)
  then have n: "acc_name a = n" by (rule find_row_key)
  have e: "(if \<not> acc_account_on_sale_start_time a \<le> head_block_time db then Inr db
      else if acc_current_bidder a = [] then assign n clear_auction db
      else case get_account (acc_current_bidder a) db of Inl e \<Rightarrow> Inl e
      | Inr _ \<Rightarrow>
      if acc_target_buyer a \<noteq> [] \<and> acc_current_bidder a \<noteq> acc_target_buyer a then drop_bid n db
      else if acc_account_on_sale a \<and> amount (acc_current_bid a) \<ge> amount (acc_account_offer_price a) then
        if find_row arr_account_to_recover n (db_recovery_requests db) \<noteq> None then
          case return_bid n db of Inl e \<Rightarrow> Inl e
          | Inr db1 \<Rightarrow> assign n (\<lambda>a. (clear_auction (end_sale a))\<lparr>acc_target_buyer := []\<rparr>) db1
        else settle_auction a db
      else drop_bid n db) = Inr db'"
    using assms a by (simp add: expire_auction_def get_account_def [of n])
  show ?thesis
  proof (cases "acc_account_on_sale_start_time a \<le> head_block_time db")
    case False
    with e show ?thesis by simp
  next
    case t: True
    show ?thesis
    proof (cases "acc_current_bidder a = []")
      case True
      with e t have "assign n clear_auction db = Inr db'" by simp
      then show ?thesis by (rule clear_no_bid_kept [OF _ clears_auction(1) a]) (rule True)
    next
      case False
      with e t consider "drop_bid n db = Inr db'" | "settle_auction a db = Inr db'"
      | db1 where "return_bid n db = Inr db1" "assign n (\<lambda>a. (clear_auction (end_sale a))\<lparr>acc_target_buyer := []\<rparr>) db1 = Inr db'"
      by (simp only: not_True_eq_False if_False case_sum_Inr split: if_split_asm) blast+
      then show ?thesis
      proof cases
        case 1 then show ?thesis by (rule drop_bid_kept)
      next
        case 2 then show ?thesis by (rule settle_auction_kept) (unfold n, rule a)
      next
        case 3 then show ?thesis using clears_auction(4) by (rule return_clear_kept)
      qed
    qed
  qed
qed

lemma auction_expiration_kept:
  assumes "account_on_auction_expiration db = Inr db'"
  shows "sale_kept db db'"
  by (rule fold_result_invariant [where P = "sale_kept db", OF assms [unfolded account_on_auction_expiration_def]])
    (auto intro: sale_kept_trans dest: expire_auction_kept)

lemma create_subaccount_kept:
  assumes "create_subaccount o' db = Inr db'"
  shows "sale_kept db db'"
  unfolding sale_kept_def
proof
  assume k: "keys_ok db"
  from assms obtain x y dba dbb where c: "create_account (new_subaccount o' db) db = Inr dba"
    and au: "create_authority x dba = Inr dbb" and m: "create_metadata y dbb = Inr db'"
    unfolding create_subaccount_def Let_def case_sum_Inr by blast
  have s: "same_ledger dba db'" by (rule same_ledger_trans [OF create_authority_same [OF au] create_metadata_same [OF m]])
  have "account_tokens (new_subaccount o' db) = 0" "account_shares (new_subaccount o' db) = 0"
    by (simp_all add: new_subaccount_def account_tokens_def account_shares_def account_object_defaults_def)
  with create_account_ledger [OF c k] same_ledger_moves [OF s] have kept: "kept db db'" by simp
  have "db_accounts db' = db_accounts db @ [(new_subaccount o' db)\<lparr>acc_id := db_next_account_id db\<rparr>]"
    using c s by (auto simp: create_account_def create_row_def case_sum_Inr same_ledger_def split: if_splits)
  then have "auctions_ok db \<longrightarrow> auctions_ok db'"
    by (auto simp: auctions_ok_def bid_gap_def bid_flags_def new_subaccount_def account_object_defaults_def)
  with kept show "kept db db' \<and> (auctions_ok db \<longrightarrow> auctions_ok db')" by blast
qed

lemma buy_subaccount_kept:
  assumes "buy_subaccount o' buyer account db = Inr db'"
  shows "sale_kept db db'"
proof -
  from assms obtain n p db1 db2 where 1: "pay_seller (ba_buyer o') n p db = Inr db1"
    and 2: "create_subaccount o' db1 = Inr db2" and 3: "pay_shares (ba_buyer o') (ba_account o') (ba_tokens_to_shares o') db2 = Inr db'"
    unfolding buy_subaccount_def case_sum_Inr if_Inl_Inr by blast
  have "sale_kept db db1" by (rule quiet_kept [OF pay_seller_quiet [OF 1]])
  also have "sale_kept db1 db2" by (rule create_subaccount_kept [OF 2])
  also have "sale_kept db2 db'" by (rule quiet_kept [OF pay_shares_quiet [OF 3]])
  finally show ?thesis .
qed

lemma buy_account_cases:
  assumes "buy_account_apply trim wall o' db = Inr db'"
  obtains (bid) account where "find_row acc_name (ba_account o') (db_accounts db) = Some account" and "has_hardfork 11 db"
      and "acc_account_on_sale account" and "head_block_time db < acc_account_on_sale_start_time account"
      and "place_bid wall o' account db = Inr db'"
    | (buy) buyer account where "purchase o' buyer account db = Inr db'"
    | (sub) buyer account where "buy_subaccount o' buyer account db = Inr db'"
proof -
  from assms obtain buyer where b: "get_account (ba_buyer o') db = Inr buyer"
    and r: "(case find_account (ba_account o') db of
        Some account \<Rightarrow> buy_existing wall o' buyer account db
      | None \<Rightarrow>
      let account_string = trim (ba_account o')
      in case index_of (CHR ''.'') account_string of
        None \<Rightarrow> Inl (FC_Assert ''Account not found.'')
      | Some colon_pos \<Rightarrow>
      let subaccount_part = take colon_pos account_string; account_part = drop (colon_pos + 1) account_string
      in case find_account account_part db of
        None \<Rightarrow> Inl (FC_Assert ''Account not found.'')
      | Some account \<Rightarrow>
      case all_ok [fc_assert (is_valid_account_name account_part) ''Account part ${n} is invalid'',
                   fc_assert (is_valid_account_name subaccount_part) ''Subaccount part name ${n} is invalid'',
                   fc_assert (is_valid_domain_name subaccount_part account_part) ''Subaccount part ${s} is invalid, account part ${c}''] of
        Inl e \<Rightarrow> Inl e
      | Inr _ \<Rightarrow> buy_subaccount o' buyer account db) = Inr db'"
    unfolding buy_account_apply_def case_sum_Inr if_Inl_Inr by blast
  show ?thesis
  proof (cases "find_account (ba_account o') db")
    case None
    with r obtain account where "buy_subaccount o' buyer account db = Inr db'"
      by (auto simp: Let_def case_option_Inr case_sum_Inr)
    then show ?thesis by (rule sub)
  next
    case (Some account)
    with r have e: "buy_existing wall o' buyer account db = Inr db'" by simp
    show ?thesis
    proof (cases "has_hardfork 11 db \<and> head_block_time db < acc_account_on_sale_start_time account")
      case True
      with e have "place_bid wall o' account db = Inr db'" "acc_account_on_sale account"
        by (auto simp: buy_existing_def case_sum_Inr split: if_splits)
      with True Some show ?thesis by (intro bid) (simp_all add: find_account_def)
    next
      case False
      with e have "purchase o' buyer account db = Inr db'"
        by (auto simp: buy_existing_def case_sum_Inr split: if_splits)
      then show ?thesis by (rule buy)
    qed
  qed
qed

lemma buy_account_kept:
  assumes "buy_account_apply trim wall o' db = Inr db'" and "ba_buyer o' \<noteq> []"
  shows "sale_kept db db'"
  using assms(1)
proof (cases rule: buy_account_cases)
  case (bid account)
  from bid(5,1) assms(2) show ?thesis by (rule place_bid_kept)
next
  case buy then show ?thesis by (rule purchase_kept)
next
  case sub then show ?thesis by (rule buy_subaccount_kept)
qed

lemma reserved_total:
  "unique_keys acc_name accs \<Longrightarrow> b \<in> set accs \<Longrightarrow>
     total (\<lambda>a. if acc_name a = acc_name b then amount (acc_reserved_balance a) else 0) accs = amount (acc_reserved_balance b)"
proof (induction accs)
  case (Cons x accs)
  then show ?case
    by (cases "x = b") (auto simp: unique_keys_def intro!: total_zero, metis image_eqI)
qed simp

lemma gap_split:
  "total (bid_gap m) accs = total (\<lambda>a. if acc_name a = m then amount (acc_reserved_balance a) else 0) accs -
     total (\<lambda>a. if acc_current_bidder a = m then amount (acc_current_bid a) else 0) accs"
  by (induction accs) (auto simp: bid_gap_def)

inductive sale_step :: "database \<Rightarrow> database \<Rightarrow> bool" where
  price: "validate_set_account_price o' = Inr () \<Longrightarrow> set_account_price_apply o' db = Inr db' \<Longrightarrow> sale_step db db'"
| target: "validate_target_account_sale o' = Inr () \<Longrightarrow> target_account_sale_apply o' db = Inr db' \<Longrightarrow> sale_step db db'"
| subaccounts: "validate_set_subaccount_price o' = Inr () \<Longrightarrow> set_subaccount_price_apply o' db = Inr db' \<Longrightarrow> sale_step db db'"
| buy: "validate_buy_account o' = Inr () \<Longrightarrow> buy_account_apply trim wall o' db = Inr db' \<Longrightarrow> sale_step db db'"
| expire: "account_on_auction_expiration db = Inr db' \<Longrightarrow> sale_step db db'"

lemma validated_buyer: "validate_buy_account o' = Inr () \<Longrightarrow> ba_buyer o' \<noteq> []"
  by (auto simp: validate_buy_account_def validate_account_name_def run_simps is_valid_account_name_def)

lemma sale_step_kept: "sale_step db db' \<Longrightarrow> sale_kept db db'"
  by (induction rule: sale_step.induct)
    (auto intro: set_account_price_kept target_account_sale_kept set_subaccount_price_kept buy_account_kept
      auction_expiration_kept dest: validated_buyer)

text \<open>
  C30: the reserved balance of every account is exactly the sum of its bids that stand, and an account
  is on auction exactly when there is a bid on it, after any sequence of sale operations, bids and
  ends of auctions.
\<close>

theorem reserve_is_bids:
  assumes "sale_step\<^sup>*\<^sup>* db db'" and "keys_ok db" and "auctions_ok db"
  shows "\<forall>b \<in> set (db_accounts db'). amount (acc_reserved_balance b) =
           total (\<lambda>a. if acc_current_bidder a = acc_name b then amount (acc_current_bid a) else 0) (db_accounts db') \<and>
           acc_account_on_auction b = (acc_current_bidder b \<noteq> [])"
proof -
  from assms have "keys_ok db' \<and> auctions_ok db'"
    by (induction rule: rtranclp_induct) (auto dest: sale_step_kept simp: sale_kept_def)
  then show ?thesis
    using reserved_total [of "db_accounts db'"] gap_split [of _ "db_accounts db'"]
    by (auto simp: auctions_ok_def keys_ok_def bid_flags_def)
qed

text \<open>Alice is on sale for 1000 and the sale has not started; bob has 100000 tokens and bids 5000000.\<close>

definition sample_sale_db :: database where
  "sample_sale_db = sample_db\<lparr>
     db_accounts := [(sample_account 0 ''alice'' 900000 500000)\<lparr>acc_account_seller := ''alice'', acc_account_on_sale := True,
         acc_account_offer_price := mk_asset 1000 TOKEN_SYMBOL, acc_account_on_sale_start_time := 1600000\<rparr>,
       sample_account 1 ''bob'' 100000 500000, sample_account 2 ''carol'' 0 0],
     db_authorities := [\<lparr>aa_account = ''alice'', aa_master = empty_authority, aa_active = empty_authority,
       aa_regular = empty_authority, aa_last_master_update = 0\<rparr>]\<rparr>"

definition sample_bid :: "int \<Rightarrow> buy_account_operation" where
  "sample_bid x = \<lparr>ba_buyer = ''bob'', ba_account = ''alice'', ba_account_offer_price = mk_asset x TOKEN_SYMBOL,
     ba_account_authorities_key = ''VIZkey'', ba_tokens_to_shares = mk_asset 1000 TOKEN_SYMBOL\<rparr>"

lemmas sale_run = buy_account_apply_def buy_existing_def place_bid_def outbid_def auction_step_def new_bid_def reserve_def
  check_recovery_def assign_def modify_account_def update_row_def get_account_def find_account_def get_authority_def
  add_field_def sub_field_def asset_add_def asset_sub_def asset_cmp_defs sample_bid_def sample_sale_db_def sample_defs
  has_hardfork_def signed_divide_int_def

lemma sample_bid_run:
  "buy_account_apply (\<lambda>s. s) wall (sample_bid 5000000) sample_sale_db = Inr (sample_sale_db\<lparr>db_accounts :=
     [(sample_account 0 ''alice'' 900000 500000)\<lparr>acc_account_seller := ''alice'', acc_account_on_sale := True,
         acc_account_offer_price := mk_asset 1000 TOKEN_SYMBOL, acc_account_on_sale_start_time := max 1600000 (wall + 300),
         acc_current_bid := mk_asset 5000000 TOKEN_SYMBOL, acc_current_bidder := ''bob'', acc_current_bidder_key := ''VIZkey'',
         acc_account_on_auction := True\<rparr>,
      (sample_account 1 ''bob'' (- 4900000) 500000)\<lparr>acc_reserved_balance := mk_asset 5000000 TOKEN_SYMBOL\<rparr>,
      sample_account 2 ''carol'' 0 0]\<rparr>)"
  by (simp add: sale_run)

theorem reserve_is_bids_witness:
  "\<exists>db'. buy_account_apply (\<lambda>s. s) 1000000 (sample_bid 5000000) sample_sale_db = Inr db' \<and>
     (\<forall>b \<in> set (db_accounts db'). amount (acc_reserved_balance b) =
           total (\<lambda>a. if acc_current_bidder a = acc_name b then amount (acc_current_bid a) else 0) (db_accounts db') \<and>
           acc_account_on_auction b = (acc_current_bidder b \<noteq> []))"
proof -
  have v: "validate_buy_account (sample_bid 5000000) = Inr ()"
    unfolding validate_buy_account_def sample_bid_def validate_account_name_def by code_simp
  have k: "keys_ok sample_sale_db" "auctions_ok sample_sale_db"
    by (auto simp: keys_ok_def auctions_ok_def sample_sale_db_def sample_defs bid_gap_def bid_flags_def)
  from reserve_is_bids [OF r_into_rtranclp [of sale_step, OF sale_step.buy [OF v sample_bid_run]] k] sample_bid_run
  show ?thesis by blast
qed


text \<open>Two nodes that apply the same bid at different wall-clock times end in different states.\<close>

lemma bid_reads_wall_clock:
  "buy_account_apply (\<lambda>s. s) 1000000 (sample_bid 5000000) sample_sale_db \<noteq>
   buy_account_apply (\<lambda>s. s) 1600000 (sample_bid 5000000) sample_sale_db"
  unfolding sample_bid_run by (simp add: sample_sale_db_def sample_defs)

end
