(* ===== verification/Witness_Schedule.thy ===== *)
theory Witness_Schedule
  imports Committee
begin

text \<open>
  Witnesses as block producers: their declaration and the properties they propose
  (\<open>chain/chain_properties_evaluators.cpp\<close>), and the schedule of a round with the median of the
  properties (\<open>update_witness_schedule\<close>, \<open>update_median_witness_props\<close> and
  \<open>reset_virtual_schedule_time\<close> of \<open>chain/database.cpp\<close>).
\<close>

section \<open>Declaring a witness\<close>

definition default_props :: chain_properties_hf9 where
  "default_props =
     \<lparr>account_creation_fee = mk_asset CHAIN_MIN_ACCOUNT_CREATION_FEE TOKEN_SYMBOL,
      maximum_block_size = CHAIN_MIN_BLOCK_SIZE_LIMIT * 2,
      create_account_delegation_ratio = CHAIN_CREATE_ACCOUNT_DELEGATION_RATIO,
      create_account_delegation_time = CHAIN_CREATE_ACCOUNT_DELEGATION_TIME,
      min_delegation = mk_asset CHAIN_MIN_DELEGATION TOKEN_SYMBOL,
      min_curation_percent = 1600, max_curation_percent = 1600,
      bandwidth_reserve_percent = CHAIN_100_PERCENT div 10,
      bandwidth_reserve_below = mk_asset 500000000 SHARES_SYMBOL, flag_energy_additional_cost = 0,
      vote_accounting_min_rshares = 5000000, committee_request_approve_min_percent = 1000,
      inflation_witness_percent = 2000, inflation_ratio_committee_vs_reward_fund = 5000, inflation_recalc_period = 806400,
      data_operations_cost_additional_bandwidth = 0, witness_miss_penalty_percent = 100, witness_miss_penalty_duration = 86400,
      create_invite_min_balance = mk_asset 10000 TOKEN_SYMBOL, committee_create_request_fee = mk_asset 100000 TOKEN_SYMBOL,
      create_paid_subscription_fee = mk_asset 100000 TOKEN_SYMBOL, account_on_sale_fee = mk_asset 10000 TOKEN_SYMBOL,
      subaccount_on_sale_fee = mk_asset 100000 TOKEN_SYMBOL, witness_declaration_fee = mk_asset 10000 TOKEN_SYMBOL,
      withdraw_intervals = CHAIN_VESTING_WITHDRAW_INTERVALS\<rparr>"

definition new_witness :: "account_name_type \<Rightarrow> int \<Rightarrow> nat \<Rightarrow> witness_object" where
  "new_witness owner now i =
     \<lparr>w_id = i, w_owner = owner, w_created = now, w_url = [], w_total_missed = 0, w_last_aslot = 0,
      w_last_confirmed_block_num = 0, w_current_run = 0, w_last_supported_block_num = 0, w_signing_key = [],
      w_props = default_props, w_votes = 0, w_penalty_percent = 0, w_counted_votes = 0, w_schedule = No_schedule,
      w_virtual_last_update = 0, w_virtual_position = 0, w_virtual_scheduled_time = UINT128_MAX,
      w_running_version = make_version 0 0 0, w_hardfork_version_vote = make_version 0 0 0, w_hardfork_time_vote = 0\<rparr>"

text \<open>The constructor lambda runs on the fields of a new witness; the unique index by name may refuse the row.\<close>

definition create_witness :: "account_name_type \<Rightarrow> (witness_object \<Rightarrow> witness_object) \<Rightarrow> database \<Rightarrow> database result" where
  "create_witness owner f db =
     (case create_row w_owner (f (new_witness owner (head_block_time db) (db_next_witness_id db))) (db_witnesses db) of Inl e \<Rightarrow> Inl e
      | Inr ws \<Rightarrow> Inr (db\<lparr>db_witnesses := ws, db_next_witness_id := db_next_witness_id db + 1\<rparr>))"

definition set_witness :: "account_name_type \<Rightarrow> (witness_object \<Rightarrow> witness_object) \<Rightarrow> database \<Rightarrow> database" where
  "set_witness n f db = db\<lparr>db_witnesses := modify_row w_owner n f (db_witnesses db)\<rparr>"

definition witness_update_apply :: "witness_update_operation \<Rightarrow> database \<Rightarrow> database result" where
  "witness_update_apply o' db =
     (let f = (\<lambda>w. w\<lparr>w_url := wu_url o', w_signing_key := wu_block_signing_key o'\<rparr>)
      in case get_account (wu_owner o') db of Inl e \<Rightarrow> Inl e
      | Inr owner \<Rightarrow>
      case find_row w_owner (wu_owner o') (db_witnesses db) of
        Some _ \<Rightarrow> Inr (set_witness (wu_owner o') f db)
      | None \<Rightarrow>
        case (if has_hardfork 9 db then
                case asset_ge (acc_balance owner) (witness_declaration_fee (median_props db)) of Inl e \<Rightarrow> Inl e
                | Inr funds \<Rightarrow>
                if \<not> funds then Inl (FC_Assert ''Account does not have sufficient funds to declare himself as witness: required ${a}.'')
                else pay_committee (wu_owner o') (witness_declaration_fee (median_props db)) db
              else Inr db) of Inl e \<Rightarrow> Inl e
        | Inr db1 \<Rightarrow> create_witness (wu_owner o') f db1)"

definition propose :: "account_name_type \<Rightarrow> (chain_properties_hf9 \<Rightarrow> chain_properties_hf9) \<Rightarrow> database \<Rightarrow> database result" where
  "propose n f db =
     (let g = (\<lambda>w. w\<lparr>w_props := f (w_props w)\<rparr>)
      in case get_account n db of Inl e \<Rightarrow> Inl e
      | Inr _ \<Rightarrow>
      case find_row w_owner n (db_witnesses db) of
        Some _ \<Rightarrow> Inr (set_witness n g db)
      | None \<Rightarrow> create_witness n g db)"

definition chain_properties_update_apply :: "chain_properties_update_operation \<Rightarrow> database \<Rightarrow> database result" where
  "chain_properties_update_apply o' db = propose (cp_owner o') (\<lambda>p. assign_init p (cp_props o')) db"

text \<open>The visitor \<open>chain_properties_update\<close>: newer properties need their hardfork.\<close>

definition assign_props :: "versioned_chain_properties \<Rightarrow> chain_properties_hf9 \<Rightarrow> chain_properties_hf9" where
  "assign_props v p = (case v of Properties_init x \<Rightarrow> assign_init p x | Properties_hf4 x \<Rightarrow> assign_hf4 p x
     | Properties_hf6 x \<Rightarrow> assign_hf6 p x | Properties_hf9 x \<Rightarrow> x)"

definition props_enabled :: "versioned_chain_properties \<Rightarrow> database \<Rightarrow> unit result" where
  "props_enabled v db = (case v of Properties_init _ \<Rightarrow> Inr ()
     | Properties_hf4 _ \<Rightarrow> fc_assert (has_hardfork 4 db) ''chain_properties_hf4''
     | Properties_hf6 _ \<Rightarrow> fc_assert (has_hardfork 6 db) ''chain_properties_hf6''
     | Properties_hf9 _ \<Rightarrow> fc_assert (has_hardfork 9 db) ''chain_properties_hf9'')"

definition versioned_chain_properties_update_apply :: "versioned_chain_properties_update_operation \<Rightarrow> database \<Rightarrow> database result" where
  "versioned_chain_properties_update_apply o' db =
     (if \<not> has_hardfork 4 db then Inl (FC_Assert ''versioned_chain_properties_update_evaluator not enabled until HF 4'')
      else case get_account (vp_owner o') db of Inl e \<Rightarrow> Inl e
      | Inr _ \<Rightarrow>
      case props_enabled (vp_props o') db of Inl e \<Rightarrow> Inl e
      | Inr _ \<Rightarrow> propose (vp_owner o') (assign_props (vp_props o')) db)"

section \<open>The schedule of a round\<close>

record hardfork_property_object =
  hpo_processed_hardforks :: "int list"
  hpo_last_hardfork :: int
  hpo_current_hardfork_version :: version
  hpo_next_hardfork :: version
  hpo_next_hardfork_time :: int

definition penalised_votes :: "witness_object \<Rightarrow> int" where
  "penalised_votes w = i64 (u64 (u128 (u128 (w_votes w) -
     u128 (u128 (w_votes w) * min (w_penalty_percent w) CHAIN_100_PERCENT) div CHAIN_100_PERCENT)))"

definition lift_penalty :: "witness_penalty_expire_object \<Rightarrow> database \<Rightarrow> database result" where
  "lift_penalty p db =
     (case get_witness (wpe_witness p) db of Inl e \<Rightarrow> Inl e
      | Inr _ \<Rightarrow> Inr (set_witness (wpe_witness p) (\<lambda>w.
          let w' = w\<lparr>w_penalty_percent := u32 (w_penalty_percent w - wpe_penalty_percent p)\<rparr>
          in w'\<lparr>w_counted_votes := penalised_votes w'\<rparr>) db))"

definition expire_penalties :: "database \<Rightarrow> database result" where
  "expire_penalties db =
     (case fold_result lift_penalty (sort_key wpe_expires (filter (\<lambda>p. wpe_expires p \<le> head_block_time db) (db_penalties db))) db of
        Inl e \<Rightarrow> Inl e
      | Inr db1 \<Rightarrow> Inr (db1\<lparr>db_penalties := filter (\<lambda>p. \<not> wpe_expires p \<le> head_block_time db) (db_penalties db1)\<rparr>))"

text \<open>
  The index by counted votes, highest first, and name; the witnesses with a signing key at its head.
\<close>

definition by_counted_vote_name :: "database \<Rightarrow> witness_object list" where
  "by_counted_vote_name db = sort_key (\<lambda>w. - w_counted_votes w) (sort_key w_owner (db_witnesses db))"

definition top_witnesses :: "database \<Rightarrow> witness_object list" where
  "top_witnesses db = take CHAIN_MAX_TOP_WITNESSES (filter (\<lambda>w. w_signing_key w \<noteq> []) (by_counted_vote_name db))"

text \<open>
  The runners-up in the order of their virtual time: the witnesses that were looked at, the ones that
  were picked, and the virtual time that has been reached.
\<close>

fun pick_support :: "nat \<Rightarrow> nat list \<Rightarrow> witness_object list \<Rightarrow> int \<Rightarrow> witness_object list \<times> witness_object list \<times> int" where
  "pick_support witness_count selected [] t = ([], [], t)"
| "pick_support witness_count selected (w # ws) t =
     (if \<not> int witness_count < CHAIN_MAX_WITNESSES then ([], [], t)
      else if w_signing_key w = [] \<or> w_id w \<in> set selected then
        (let (processed, support, t') = pick_support witness_count selected ws (w_virtual_scheduled_time w)
         in (w # processed, support, t'))
      else
        (let (processed, support, t') = pick_support (witness_count + 1) selected ws (w_virtual_scheduled_time w)
         in (w # processed, w # support, t')))"

definition lap :: "int \<Rightarrow> int result" where
  "lap votes = (if u128 (votes + 1) = 0 then Inl Division_by_zero else Inr (UINT128_MAX div u128 (votes + 1)))"

text \<open>The processed witnesses start a new lap; the result tells whether the virtual time has overflowed.\<close>

fun start_lap :: "int \<Rightarrow> witness_object list \<Rightarrow> database \<Rightarrow> (bool \<times> database) result" where
  "start_lap t [] db = Inr (False, db)"
| "start_lap t (w # ws) db =
     (case lap (w_counted_votes w) of Inl e \<Rightarrow> Inl e
      | Inr x \<Rightarrow>
      let scheduled = u128 (t + x)
      in if scheduled < t then Inr (True, db)
         else start_lap t ws (set_witness (w_owner w) (\<lambda>wo. wo\<lparr>w_virtual_position := 0, w_virtual_last_update := t,
                w_virtual_scheduled_time := scheduled\<rparr>) db))"

definition reset_lap :: "witness_object \<Rightarrow> witness_object result" where
  "reset_lap w = (case lap (w_counted_votes w) of Inl e \<Rightarrow> Inl e
     | Inr x \<Rightarrow> Inr (w\<lparr>w_virtual_position := 0, w_virtual_last_update := 0, w_virtual_scheduled_time := x\<rparr>))"

definition reset_virtual_schedule_time :: "database \<Rightarrow> database result" where
  "reset_virtual_schedule_time db =
     (case fold_result (\<lambda>w acc. case reset_lap w of Inl e \<Rightarrow> Inl e | Inr w' \<Rightarrow> Inr (acc @ [w'])) (db_witnesses db) [] of
        Inl e \<Rightarrow> Inl e
      | Inr ws \<Rightarrow> Inr (db\<lparr>db_witnesses := ws, db_schedule := (db_schedule db)\<lparr>ws_current_virtual_time := 0\<rparr>\<rparr>))"

definition mark :: "witness_schedule_type \<Rightarrow> witness_object list \<Rightarrow> database \<Rightarrow> database" where
  "mark s ws db = fold (\<lambda>w. set_witness (w_owner w) (\<lambda>wo. wo\<lparr>w_schedule := s\<rparr>)) ws db"

text \<open>The witnesses of the running round.\<close>

definition scheduled_witnesses :: "database \<Rightarrow> witness_object list result" where
  "scheduled_witnesses db =
     fold_result (\<lambda>n acc. case get_witness n db of Inl e \<Rightarrow> Inl e | Inr w \<Rightarrow> Inr (acc @ [w]))
       (map (\<lambda>i. ws_current_shuffled_witnesses (db_schedule db) ! (i * CHAIN_BLOCK_WITNESS_REPEAT))
         [0..<nat (ws_num_scheduled_witnesses (db_schedule db)) div CHAIN_BLOCK_WITNESS_REPEAT]) []"

text \<open>
  The highest version that enough witnesses run or have passed, and the hardfork that enough of them
  vote for: the first in the order of the map.
\<close>

definition supports :: "('a \<Rightarrow> bool) \<Rightarrow> 'a list \<Rightarrow> bool" where
  "supports P xs = (int (length (filter P xs)) \<ge> CHAIN_HARDFORK_REQUIRED_WITNESSES)"

definition majority_version :: "witness_object list \<Rightarrow> version \<Rightarrow> version" where
  "majority_version ws v =
     (case filter (\<lambda>u. supports (\<lambda>w. v_num (w_running_version w) \<ge> u) ws)
             (rev (sort (remdups (map (\<lambda>w. v_num (w_running_version w)) ws)))) of
        [] \<Rightarrow> v | u # _ \<Rightarrow> \<lparr>v_num = u\<rparr>)"

definition hardfork_vote :: "witness_object \<Rightarrow> 32 word \<times> int" where
  "hardfork_vote w = (v_num (w_hardfork_version_vote w), w_hardfork_time_vote w)"

definition next_hardfork :: "witness_object list \<Rightarrow> hardfork_property_object \<Rightarrow> hardfork_property_object" where
  "next_hardfork ws hpo =
     (case filter (\<lambda>v. supports (\<lambda>w. hardfork_vote w = v) ws)
             (sort_key fst (sort_key snd (remdups (map hardfork_vote ws)))) of
        [] \<Rightarrow> hpo\<lparr>hpo_next_hardfork := hpo_current_hardfork_version hpo\<rparr>
      | (v, t) # _ \<Rightarrow> hpo\<lparr>hpo_next_hardfork := \<lparr>v_num = v\<rparr>, hpo_next_hardfork_time := t\<rparr>)"

text \<open>The slots of a round: top and support witnesses in turn, as long as there are any.\<close>

fun interleave :: "'a list \<Rightarrow> 'a list \<Rightarrow> 'a list" where
  "interleave [] ss = ss"
| "interleave as [] = as"
| "interleave (a # as) (s # ss) = a # s # interleave as ss"

definition round_slots :: "account_name_type list \<Rightarrow> account_name_type list" where
  "round_slots ns = concat (map (replicate CHAIN_BLOCK_WITNESS_REPEAT) ns) @
     replicate ((nat CHAIN_MAX_WITNESSES - length ns) * CHAIN_BLOCK_WITNESS_REPEAT) []"

section \<open>The median of the properties\<close>

text \<open>\<open>nth_element\<close> leaves at a position the value that is there when the whole range is sorted.\<close>

definition median :: "('a \<Rightarrow> 'b :: linorder) \<Rightarrow> 'a list \<Rightarrow> 'a" where
  "median key xs = sort_key key xs ! (length xs div 2)"

definition median_int :: "(chain_properties_hf9 \<Rightarrow> int) \<Rightarrow> witness_object list \<Rightarrow> int" where
  "median_int f ws = f (w_props (median (\<lambda>w. f (w_props w)) ws))"

definition median_asset :: "(chain_properties_hf9 \<Rightarrow> asset) \<Rightarrow> witness_object list \<Rightarrow> asset" where
  "median_asset f ws = f (w_props (median (\<lambda>w. amount (f (w_props w))) ws))"

definition median_properties :: "database \<Rightarrow> witness_object list \<Rightarrow> chain_properties_hf9" where
  "median_properties db ws =
     (let p0 = default_props\<lparr>account_creation_fee := median_asset account_creation_fee ws,
            maximum_block_size := median_int maximum_block_size ws,
            create_account_delegation_ratio := median_int create_account_delegation_ratio ws,
            create_account_delegation_time := median_int create_account_delegation_time ws,
            min_delegation := median_asset min_delegation ws, min_curation_percent := median_int min_curation_percent ws,
            bandwidth_reserve_percent := median_int bandwidth_reserve_percent ws,
            bandwidth_reserve_below := median_asset bandwidth_reserve_below ws,
            flag_energy_additional_cost := median_int flag_energy_additional_cost ws,
            vote_accounting_min_rshares := median_int vote_accounting_min_rshares ws,
            committee_request_approve_min_percent := median_int committee_request_approve_min_percent ws\<rparr>;
          p1 = (if has_hardfork 1 db then p0\<lparr>max_curation_percent := median_int max_curation_percent ws\<rparr> else p0);
          p4 = (if has_hardfork 4 db then p1\<lparr>inflation_witness_percent := median_int inflation_witness_percent ws,
                  inflation_ratio_committee_vs_reward_fund := median_int inflation_ratio_committee_vs_reward_fund ws,
                  inflation_recalc_period := median_int inflation_recalc_period ws\<rparr> else p1);
          p6 = (if has_hardfork 6 db then p4\<lparr>
                  data_operations_cost_additional_bandwidth := median_int data_operations_cost_additional_bandwidth ws,
                  witness_miss_penalty_percent := median_int witness_miss_penalty_percent ws,
                  witness_miss_penalty_duration := median_int witness_miss_penalty_duration ws\<rparr> else p4)
      in if has_hardfork 9 db then p6\<lparr>create_invite_min_balance := median_asset create_invite_min_balance ws,
            committee_create_request_fee := median_asset committee_create_request_fee ws,
            create_paid_subscription_fee := median_asset create_paid_subscription_fee ws,
            account_on_sale_fee := median_asset account_on_sale_fee ws,
            subaccount_on_sale_fee := median_asset subaccount_on_sale_fee ws,
            witness_declaration_fee := median_asset witness_declaration_fee ws,
            withdraw_intervals := median_int withdraw_intervals ws\<rparr>
         else p6)"

definition update_median_witness_props :: "database \<Rightarrow> database result" where
  "update_median_witness_props db =
     (case scheduled_witnesses db of Inl e \<Rightarrow> Inl e
      | Inr active \<Rightarrow>
        let p = median_properties db active
        in Inr (db\<lparr>db_schedule := (db_schedule db)\<lparr>ws_median_props := p\<rparr>,
                  db_dgp := (db_dgp db)\<lparr>dgp_maximum_block_size := maximum_block_size p\<rparr>\<rparr>))"

text \<open>The whole round change.\<close>

definition advance_time :: "int \<Rightarrow> witness_object list \<Rightarrow> database \<Rightarrow> (int \<times> database) result" where
  "advance_time t processed db =
     (case start_lap t processed db of Inl e \<Rightarrow> Inl e
      | Inr (overflow, db1) \<Rightarrow>
        if overflow then
          (case reset_virtual_schedule_time db1 of Inl e \<Rightarrow> Inl e | Inr db2 \<Rightarrow> Inr (0, db2))
        else Inr (t, db1))"

definition new_round :: "hardfork_property_object \<Rightarrow> database \<Rightarrow> (hardfork_property_object \<times> database) result" where
  "new_round hpo db =
     (let top = top_witnesses db; selected = map w_id top;
          (processed, support, t) = pick_support (length top) selected (sort_key w_virtual_scheduled_time (db_witnesses db))
             (ws_current_virtual_time (db_schedule db))
      in case advance_time t processed (mark Support support (mark Top top db)) of Inl e \<Rightarrow> Inl e
      | Inr (new_virtual_time, db1) \<Rightarrow>
      if \<not> int (length top + length support) \<le> CHAIN_MAX_WITNESSES
      then Inl (FC_Assert ''Number of active witnesses does cannot be more CHAIN_MAX_WITNESSES'')
      else case scheduled_witnesses db1 of Inl e \<Rightarrow> Inl e
      | Inr voting \<Rightarrow>
        let ns = interleave (map w_owner top) (map w_owner support);
            count = max (int (length ns * CHAIN_BLOCK_WITNESS_REPEAT) mod 2 ^ 8) 1;
            wso = db_schedule db1
        in case update_median_witness_props (db1\<lparr>db_schedule := wso\<lparr>
               ws_current_shuffled_witnesses := round_slots ns, ws_num_scheduled_witnesses := count,
               ws_current_virtual_time := new_virtual_time, ws_next_shuffle_block_num := u32 (head_block_num db + count),
               ws_majority_version := majority_version voting (ws_majority_version wso)\<rparr>\<rparr>) of Inl e \<Rightarrow> Inl e
           | Inr db2 \<Rightarrow> Inr (next_hardfork voting hpo, db2))"

definition update_witness_schedule :: "hardfork_property_object \<Rightarrow> database \<Rightarrow> (hardfork_property_object \<times> database) result" where
  "update_witness_schedule hpo db =
     (if head_block_num db mod (CHAIN_MAX_WITNESSES * int CHAIN_BLOCK_WITNESS_REPEAT) \<noteq> 0 then Inr (hpo, db)
      else case (if has_hardfork 6 db then expire_penalties db else Inr db) of Inl e \<Rightarrow> Inl e
      | Inr db1 \<Rightarrow> new_round hpo db1)"

section \<open>The books\<close>

lemma set_witness_same: "same_ledger db (set_witness n f db)"
  by (simp add: set_witness_def same_ledger_def)

lemma create_witness_same: "create_witness n f db = Inr db' \<Longrightarrow> same_ledger db db'"
  by (auto simp: create_witness_def case_sum_Inr same_ledger_def)

lemma witness_update_cases:
  assumes "witness_update_apply o' db = Inr db'"
  obtains (old) f where "db' = set_witness (wu_owner o') f db"
    | (new) db1 f where "db1 = db \<or> pay_committee (wu_owner o') (witness_declaration_fee (median_props db)) db = Inr db1"
      and "create_witness (wu_owner o') f db1 = Inr db'"
proof (cases "find_row w_owner (wu_owner o') (db_witnesses db)")
  case (Some w)
  with assms show ?thesis by (intro old) (auto simp: witness_update_apply_def Let_def case_sum_Inr)
next
  case None
  with assms obtain owner :: account_object and db1 where
    "(if has_hardfork 9 db then
        case asset_ge (acc_balance owner) (witness_declaration_fee (median_props db)) of Inl e \<Rightarrow> Inl e
        | Inr funds \<Rightarrow>
        if \<not> funds then Inl (FC_Assert ''Account does not have sufficient funds to declare himself as witness: required ${a}.'')
        else pay_committee (wu_owner o') (witness_declaration_fee (median_props db)) db
      else Inr db) = Inr db1"
    and 2: "create_witness (wu_owner o') (\<lambda>w. w\<lparr>w_url := wu_url o', w_signing_key := wu_block_signing_key o'\<rparr>) db1 = Inr db'"
    by (auto simp: witness_update_apply_def Let_def case_sum_Inr)
  then have "db1 = db \<or> pay_committee (wu_owner o') (witness_declaration_fee (median_props db)) db = Inr db1"
    by (auto simp: case_sum_Inr split: if_splits)
  with 2 show ?thesis by (rule new [rotated])
qed

lemma witness_update_ledger [ledger]:
  assumes "witness_update_apply o' db = Inr db'" and "keys_ok db"
  shows "keys_ok db' \<and> excess db' = excess db \<and> share_gap db' = share_gap db"
  using assms(1)
proof (cases rule: witness_update_cases)
  case old
  then show ?thesis using same_ledger_moves [OF set_witness_same] assms(2) by simp
next
  case (new db1 f)
  then have "keys_ok db1 \<and> excess db1 = excess db \<and> share_gap db1 = share_gap db"
    using assms(2) pay_committee_ledger by blast
  with same_ledger_moves [OF create_witness_same [OF new(2)]] show ?thesis by simp
qed

lemma propose_same: "propose n f db = Inr db' \<Longrightarrow> same_ledger db db'"
  by (auto simp: propose_def Let_def case_sum_Inr set_witness_same dest: create_witness_same split: option.splits)

lemma chain_properties_update_same: "chain_properties_update_apply o' db = Inr db' \<Longrightarrow> same_ledger db db'"
  by (simp add: chain_properties_update_apply_def propose_same)

lemma versioned_chain_properties_update_same:
  "versioned_chain_properties_update_apply o' db = Inr db' \<Longrightarrow> same_ledger db db'"
  by (auto simp: versioned_chain_properties_update_apply_def case_sum_Inr if_Inl_Inr dest: propose_same)

text \<open>A change of the schedule touches no balance: accounts, escrows, invites and the totals stay.\<close>

definition same_books :: "database \<Rightarrow> database \<Rightarrow> bool" where
  "same_books db db' = (db_accounts db' = db_accounts db \<and> db_escrows db' = db_escrows db \<and> db_invites db' = db_invites db \<and>
     fund_tokens (db_dgp db') = fund_tokens (db_dgp db) \<and> current_supply (db_dgp db') = current_supply (db_dgp db) \<and>
     total_vesting_shares (db_dgp db') = total_vesting_shares (db_dgp db))"

lemma same_books_kept: "same_books db db' \<Longrightarrow> keys_ok db \<Longrightarrow> keys_ok db' \<and> excess db' = excess db \<and> share_gap db' = share_gap db"
  by (simp add: same_books_def keys_ok_def excess_def token_total_def share_gap_def)

lemma same_books_refl [simp]: "same_books db db"
  by (simp add: same_books_def)

lemma same_books_trans [trans]: "same_books a b \<Longrightarrow> same_books b c \<Longrightarrow> same_books a c"
  by (simp add: same_books_def)

lemma same_ledger_books: "same_ledger db db' \<Longrightarrow> same_books db db'"
  by (simp add: same_ledger_def same_books_def)

lemma expire_penalties_same: "expire_penalties db = Inr db' \<Longrightarrow> same_ledger db db'"
proof -
  assume "expire_penalties db = Inr db'"
  then obtain ps db1 where f: "fold_result lift_penalty ps db = Inr db1" and db': "\<exists>p. db' = db1\<lparr>db_penalties := p\<rparr>"
    by (auto simp: expire_penalties_def case_sum_Inr)
  have "same_ledger db db1"
    by (rule fold_result_invariant [where P = "same_ledger db", OF f])
      (auto simp: lift_penalty_def case_sum_Inr same_ledger_def set_witness_def)
  then show ?thesis using db' by (auto simp: same_ledger_def)
qed

lemma mark_same: "same_ledger db (mark s ws db)"
  unfolding mark_def by (induction ws arbitrary: db) (auto simp: same_ledger_def set_witness_def)

lemma mark_schedule [simp]: "db_schedule (mark s ws db) = db_schedule db"
  unfolding mark_def by (induction ws arbitrary: db) (simp_all add: set_witness_def)

lemma start_lap_same: "start_lap t ws db = Inr (b, db') \<Longrightarrow> same_ledger db db' \<and> db_schedule db' = db_schedule db"
proof (induction t ws db rule: start_lap.induct)
  case (2 t w ws db)
  then show ?case by (auto simp: case_sum_Inr Let_def same_ledger_def set_witness_def split: if_splits)
qed (simp add: same_ledger_def)

lemma advance_time_same:
  assumes "advance_time t ws db = Inr (u, db')"
  shows "same_ledger db db' \<and> ws_current_shuffled_witnesses (db_schedule db') = ws_current_shuffled_witnesses (db_schedule db) \<and>
    ws_num_scheduled_witnesses (db_schedule db') = ws_num_scheduled_witnesses (db_schedule db)"
proof -
  from assms obtain b db1 where s: "start_lap t ws db = Inr (b, db1)"
    and r: "db' = db1 \<or> reset_virtual_schedule_time db1 = Inr db'"
    by (auto simp: advance_time_def case_sum_Inr split: if_splits)
  have "same_ledger db1 db' \<and> ws_current_shuffled_witnesses (db_schedule db') = ws_current_shuffled_witnesses (db_schedule db1) \<and>
      ws_num_scheduled_witnesses (db_schedule db') = ws_num_scheduled_witnesses (db_schedule db1)"
    using r by (auto simp: reset_virtual_schedule_time_def case_sum_Inr same_ledger_def)
  with start_lap_same [OF s] show ?thesis by (simp add: same_ledger_def)
qed

lemma median_same: "update_median_witness_props db = Inr db' \<Longrightarrow> same_books db db'"
  by (auto simp: update_median_witness_props_def case_sum_Inr Let_def same_books_def fund_tokens_def)

text \<open>The parts of a round change.\<close>

lemma new_round_parts:
  assumes "new_round hpo db = Inr (hpo', db')"
  obtains processed support t u db1 db2 ns where
    "pick_support (length (top_witnesses db)) (map w_id (top_witnesses db)) (sort_key w_virtual_scheduled_time (db_witnesses db))
       (ws_current_virtual_time (db_schedule db)) = (processed, support, t)"
    and "advance_time t processed (mark Support support (mark Top (top_witnesses db) db)) = Inr (u, db1)"
    and "int (length (top_witnesses db) + length support) \<le> CHAIN_MAX_WITNESSES"
    and "ns = interleave (map w_owner (top_witnesses db)) (map w_owner support)"
    and "same_books db1 db2" and "update_median_witness_props db2 = Inr db'"
    and "ws_current_shuffled_witnesses (db_schedule db2) = round_slots ns"
    and "ws_num_scheduled_witnesses (db_schedule db2) = max (int (length ns * CHAIN_BLOCK_WITNESS_REPEAT) mod 2 ^ 8) 1"
proof -
  obtain processed support t where p: "pick_support (length (top_witnesses db)) (map w_id (top_witnesses db))
      (sort_key w_virtual_scheduled_time (db_witnesses db)) (ws_current_virtual_time (db_schedule db)) = (processed, support, t)"
    by (cases "pick_support (length (top_witnesses db)) (map w_id (top_witnesses db))
      (sort_key w_virtual_scheduled_time (db_witnesses db)) (ws_current_virtual_time (db_schedule db))") auto
  from assms obtain u db1 voting where a: "advance_time t processed (mark Support support (mark Top (top_witnesses db) db)) = Inr (u, db1)"
    and l: "int (length (top_witnesses db) + length support) \<le> CHAIN_MAX_WITNESSES"
    and m: "update_median_witness_props (db1\<lparr>db_schedule := (db_schedule db1)\<lparr>
               ws_current_shuffled_witnesses := round_slots (interleave (map w_owner (top_witnesses db)) (map w_owner support)),
               ws_num_scheduled_witnesses := max (int (length (interleave (map w_owner (top_witnesses db)) (map w_owner support)) * CHAIN_BLOCK_WITNESS_REPEAT) mod 2 ^ 8) 1,
               ws_current_virtual_time := u, ws_next_shuffle_block_num := u32 (head_block_num db +
                 max (int (length (interleave (map w_owner (top_witnesses db)) (map w_owner support)) * CHAIN_BLOCK_WITNESS_REPEAT) mod 2 ^ 8) 1),
               ws_majority_version := majority_version voting (ws_majority_version (db_schedule db1))\<rparr>\<rparr>) = Inr db'"
    unfolding new_round_def Let_def p prod.case case_sum_Inr
    by (auto simp: case_sum_Inr if_Inl_Inr)
  show ?thesis by (rule that [OF p a l refl _ m]) (simp_all add: same_books_def)
qed

lemma update_witness_schedule_books:
  assumes "update_witness_schedule hpo db = Inr (hpo', db')"
  shows "same_books db db'"
proof -
  from assms consider "db' = db" | db1 where "expire_penalties db = Inr db1 \<or> db1 = db" "new_round hpo db1 = Inr (hpo', db')"
    by (auto simp: update_witness_schedule_def case_sum_Inr split: if_splits)
  then show ?thesis
  proof cases
    case (2 db1)
    have "same_books db db1" using 2(1) expire_penalties_same by (auto intro: same_ledger_books)
    also from 2(2) have "same_books db1 db'"
    proof (rule new_round_parts)
      fix processed support t u dba dbb ns
      assume a: "advance_time t processed (mark Support support (mark Top (top_witnesses db1) db1)) = Inr (u, dba)"
        and b: "same_books dba dbb" and m: "update_median_witness_props dbb = Inr db'"
      have "same_books db1 (mark Support support (mark Top (top_witnesses db1) db1))"
        using mark_same same_ledger_books same_books_trans by meson
      also have "same_books \<dots> dba" using advance_time_same [OF a] by (simp add: same_ledger_books)
      also note b
      also have "same_books dbb db'" by (rule median_same [OF m])
      finally show ?thesis .
    qed
    finally show ?thesis .
  qed simp
qed

section \<open>Who is in a round\<close>

lemma set_interleave [simp]: "set (interleave as ss) = set as \<union> set ss"
  by (induction as ss rule: interleave.induct) auto

lemma length_interleave [simp]: "length (interleave as ss) = length as + length ss"
  by (induction as ss rule: interleave.induct) auto

lemma distinct_interleave: "distinct as \<Longrightarrow> distinct ss \<Longrightarrow> set as \<inter> set ss = {} \<Longrightarrow> distinct (interleave as ss)"
  by (induction as ss rule: interleave.induct) auto

lemma pick_support_from:
  "pick_support k sel ws t = (processed, support, t') \<Longrightarrow>
     set support \<subseteq> {w \<in> set ws. w_signing_key w \<noteq> [] \<and> w_id w \<notin> set sel} \<and>
     (distinct (map w_owner ws) \<longrightarrow> distinct (map w_owner support))"
proof (induction k sel ws t arbitrary: processed support t' rule: pick_support.induct)
  case (2 k sel w ws t)
  show ?case
  proof (cases "int k < CHAIN_MAX_WITNESSES")
    case False
    with "2.prems" show ?thesis by simp
  next
    case True
    show ?thesis
    proof (cases "w_signing_key w = [] \<or> w_id w \<in> set sel")
      case skip: True
      obtain p s u where r: "pick_support k sel ws (w_virtual_scheduled_time w) = (p, s, u)" by (metis prod_cases3)
      with "2.prems" True skip have "support = s" by auto
      with "2.IH"(1) [OF _ skip r] True show ?thesis by auto
    next
      case pick: False
      obtain p s u where r: "pick_support (k + 1) sel ws (w_virtual_scheduled_time w) = (p, s, u)" by (metis prod_cases3)
      with "2.prems" True pick have "support = w # s" by auto
      with "2.IH"(2) [OF _ pick r] True pick show ?thesis by force
    qed
  qed
qed simp

lemma top_witnesses_from:
  "set (top_witnesses db) \<subseteq> {w \<in> set (db_witnesses db). w_signing_key w \<noteq> []} \<and>
   (unique_keys w_owner (db_witnesses db) \<longrightarrow> distinct (map w_owner (top_witnesses db)))"
proof -
  have "distinct (map w_owner (by_counted_vote_name db)) = distinct (map w_owner (db_witnesses db))"
    by (simp add: by_counted_vote_name_def distinct_map)
  then show ?thesis
    by (auto simp: top_witnesses_def by_counted_vote_name_def unique_keys_def take_map distinct_map_filter
        simp flip: take_map dest!: in_set_takeD)
qed

lemma concat_singles [simp]: "concat (map (replicate (Suc 0)) xs) = xs"
  by (induction xs) simp_all

lemma round_slots_one: "length ns \<le> nat CHAIN_MAX_WITNESSES \<Longrightarrow>
    round_slots ns = ns @ replicate (21 - length ns) [] \<and> take (length ns) (round_slots ns) = ns"
  by (simp add: round_slots_def)

text \<open>The names of a round, and what a successful round change makes of them.\<close>

lemma new_round_slots:
  assumes "new_round hpo db = Inr (hpo', db')"
  obtains support where "set support \<subseteq> {w \<in> set (db_witnesses db). w_signing_key w \<noteq> [] \<and> w_id w \<notin> w_id ` set (top_witnesses db)}"
    and "unique_keys w_owner (db_witnesses db) \<longrightarrow> distinct (map w_owner support)"
    and "length (top_witnesses db) + length support \<le> 21"
    and "ws_current_shuffled_witnesses (db_schedule db') = round_slots (interleave (map w_owner (top_witnesses db)) (map w_owner support))"
    and "ws_num_scheduled_witnesses (db_schedule db') = max (int (length (top_witnesses db) + length support)) 1"
  using assms
proof (rule new_round_parts)
  fix processed support t u db1 db2 ns
  assume p: "pick_support (length (top_witnesses db)) (map w_id (top_witnesses db)) (sort_key w_virtual_scheduled_time (db_witnesses db))
       (ws_current_virtual_time (db_schedule db)) = (processed, support, t)"
    and l: "int (length (top_witnesses db) + length support) \<le> CHAIN_MAX_WITNESSES"
    and ns: "ns = interleave (map w_owner (top_witnesses db)) (map w_owner support)"
    and m: "update_median_witness_props db2 = Inr db'"
    and s: "ws_current_shuffled_witnesses (db_schedule db2) = round_slots ns"
      "ws_num_scheduled_witnesses (db_schedule db2) = max (int (length ns * CHAIN_BLOCK_WITNESS_REPEAT) mod 2 ^ 8) 1"
  have e: "ws_current_shuffled_witnesses (db_schedule db') = ws_current_shuffled_witnesses (db_schedule db2)"
    "ws_num_scheduled_witnesses (db_schedule db') = ws_num_scheduled_witnesses (db_schedule db2)"
    using m by (auto simp: update_median_witness_props_def case_sum_Inr Let_def)
  show thesis
  proof (rule that [of support])
    show "set support \<subseteq> {w \<in> set (db_witnesses db). w_signing_key w \<noteq> [] \<and> w_id w \<notin> w_id ` set (top_witnesses db)}"
      using pick_support_from [OF p] by auto
    show "unique_keys w_owner (db_witnesses db) \<longrightarrow> distinct (map w_owner support)"
      using pick_support_from [OF p] by (simp add: unique_keys_def distinct_map)
    show "length (top_witnesses db) + length support \<le> 21" using l by simp
    then show "ws_num_scheduled_witnesses (db_schedule db') = max (int (length (top_witnesses db) + length support)) 1"
      by (simp add: e s ns)
    show "ws_current_shuffled_witnesses (db_schedule db') = round_slots (interleave (map w_owner (top_witnesses db)) (map w_owner support))"
      by (simp add: e s ns)
  qed
qed


text \<open>Round robin: within as many slots as there are witnesses, every one of them has its turn.\<close>

lemma round_robin:
  assumes "0 < n" and "i < n"
  shows "\<exists>k. 0 \<le> k \<and> k < int n \<and> nat ((a + k) mod int n) = i"
proof (intro exI conjI)
  let ?k = "(int i - a) mod int n"
  show "0 \<le> ?k" "?k < int n" using assms by simp_all
  have "(a + ?k) mod int n = int i mod int n" by (metis add.commute diff_add_cancel mod_add_left_eq)
  then show "nat ((a + ?k) mod int n) = i" using assms by simp
qed

text \<open>
  After a round change no top witness starves: whatever slot the chain is in, each of them
  is scheduled for one of the next slots, of which there are as many as there are witnesses.
\<close>

theorem top_witness_gets_slot:
  assumes "new_round hpo db = Inr (hpo', db')" and "w \<in> set (top_witnesses db)"
    and "0 \<le> slot" and "0 \<le> current_aslot (db_dgp db')" and "current_aslot (db_dgp db') + slot + 21 < 2 ^ 64"
  shows "\<exists>k. 0 \<le> k \<and> k < ws_num_scheduled_witnesses (db_schedule db') \<and> get_scheduled_witness (slot + k) db' = w_owner w"
proof -
  obtain support where "set support \<subseteq> {w \<in> set (db_witnesses db). w_signing_key w \<noteq> [] \<and> w_id w \<notin> w_id ` set (top_witnesses db)}"
    and "unique_keys w_owner (db_witnesses db) \<longrightarrow> distinct (map w_owner support)"
    and l: "length (top_witnesses db) + length support \<le> 21"
    and r: "ws_current_shuffled_witnesses (db_schedule db') = round_slots (interleave (map w_owner (top_witnesses db)) (map w_owner support))"
      "ws_num_scheduled_witnesses (db_schedule db') = max (int (length (top_witnesses db) + length support)) 1"
    by (rule new_round_slots [OF assms(1)])
  let ?ns = "interleave (map w_owner (top_witnesses db)) (map w_owner support)"
  have "w_owner w \<in> set ?ns" using assms(2) by simp
  then obtain i where i: "i < length ?ns" "?ns ! i = w_owner w" by (metis in_set_conv_nth)
  from le_less_trans [OF le0 i(1)] have "1 \<le> int (length (top_witnesses db) + length support)" by (simp only: length_interleave length_map)
  then have num: "ws_num_scheduled_witnesses (db_schedule db') = int (length ?ns)" by (simp only: r(2) length_interleave length_map)
  from le_less_trans [OF le0 i(1)] have "0 < length ?ns" .
  from round_robin [OF this i(1), of "current_aslot (db_dgp db') + slot"]
  obtain k where k: "0 \<le> k" "k < int (length ?ns)" "nat ((current_aslot (db_dgp db') + slot + k) mod int (length ?ns)) = i"
    by auto
  have "u64 (current_aslot (db_dgp db') + (slot + k)) = current_aslot (db_dgp db') + (slot + k)"
    using assms(3-5) k(1,2) l by (intro u64_id) simp_all
  then have "get_scheduled_witness (slot + k) db' = round_slots ?ns ! i"
    using k(3) by (simp add: get_scheduled_witness_def Let_def num r(1) add.assoc)
  also have "\<dots> = w_owner w" using i l by (simp add: round_slots_def nth_append)
  finally show ?thesis using k num by auto
qed

text \<open>A state of a chain at the end of a round, with two witnesses that sign and one that does not.\<close>

definition sample_round_db :: database where
  "sample_round_db = sample_db\<lparr>db_witnesses :=
     [(new_witness ''viz'' 0 0)\<lparr>w_signing_key := ''K1'', w_votes := 5, w_counted_votes := 5\<rparr>,
      (new_witness ''carol'' 0 1)\<lparr>w_votes := 9, w_counted_votes := 9\<rparr>,
      (new_witness ''alice'' 0 2)\<lparr>w_signing_key := ''K2'', w_votes := 7, w_counted_votes := 7\<rparr>],
     db_dgp := sample_dgp\<lparr>head_block_number := 21\<rparr>\<rparr>"

definition sample_hpo :: hardfork_property_object where
  "sample_hpo = \<lparr>hpo_processed_hardforks = [], hpo_last_hardfork = 12, hpo_current_hardfork_version = make_version 3 0 0,
     hpo_next_hardfork = make_version 3 0 0, hpo_next_hardfork_time = 0\<rparr>"

section \<open>Progress\<close>

text \<open>
  A round change succeeds when every slot of the running round has its witness and the counted votes
  are not negative; and it leaves a round of the same kind, as long as some witness has a signing key.
\<close>

definition round_ok :: "database \<Rightarrow> bool" where
  "round_ok db = (\<forall>i < nat (ws_num_scheduled_witnesses (db_schedule db)).
     ws_current_shuffled_witnesses (db_schedule db) ! i \<in> w_owner ` set (db_witnesses db))"

definition polls :: "database \<Rightarrow> (account_name_type \<times> int) list" where
  "polls db = map (\<lambda>w. (w_owner w, w_counted_votes w)) (db_witnesses db)"

definition polls_ok :: "database \<Rightarrow> bool" where
  "polls_ok db = (\<forall>w \<in> set (db_witnesses db). 0 \<le> w_counted_votes w \<and> w_counted_votes w < 2 ^ 63)"

lemma polls_owners: "polls db' = polls db \<Longrightarrow> w_owner ` set (db_witnesses db') = w_owner ` set (db_witnesses db)"
proof -
  assume "polls db' = polls db"
  then have "fst ` set (polls db') = fst ` set (polls db)" by simp
  then show ?thesis by (simp add: polls_def image_image)
qed

lemma polls_votes: "polls db' = polls db \<Longrightarrow> polls_ok db' = polls_ok db"
proof -
  assume "polls db' = polls db"
  moreover have "polls_ok d = (\<forall>p \<in> set (polls d). 0 \<le> snd p \<and> snd p < 2 ^ 63)" for d
    by (auto simp: polls_ok_def polls_def)
  ultimately show ?thesis by simp
qed

lemma polls_set_witness:
  "(\<And>w. w_owner (f w) = w_owner w \<and> w_counted_votes (f w) = w_counted_votes w) \<Longrightarrow> polls (set_witness n f db) = polls db"
  by (auto simp: polls_def set_witness_def modify_row_def)

lemma polls_mark: "polls (mark s ws db) = polls db"
  unfolding mark_def by (induction ws arbitrary: db) (simp_all add: polls_set_witness)

lemma lap_succeeds: "0 \<le> v \<Longrightarrow> v < 2 ^ 63 \<Longrightarrow> \<exists>x. lap v = Inr x"
  by (simp add: lap_def)

lemma start_lap_succeeds:
  "\<forall>w \<in> set ws. 0 \<le> w_counted_votes w \<and> w_counted_votes w < 2 ^ 63 \<Longrightarrow>
     \<exists>b db'. start_lap t ws db = Inr (b, db') \<and> polls db' = polls db"
proof (induction t ws db rule: start_lap.induct)
  case (2 t w ws db)
  then obtain x where x: "lap (w_counted_votes w) = Inr x" using lap_succeeds [of "w_counted_votes w"] by auto
  show ?case
  proof (cases "u128 (t + x) < t")
    case False
    with "2.IH" [OF x] "2.prems" x show ?thesis by (auto simp: Let_def polls_set_witness)
  next
    case True
    with x show ?thesis by (intro exI [of _ True] exI [of _ db]) simp
  qed
qed (rule exI [of _ False], simp)

lemma reset_laps_succeeds:
  "\<forall>w \<in> set ws. 0 \<le> w_counted_votes w \<and> w_counted_votes w < 2 ^ 63 \<Longrightarrow>
     \<exists>ws'. fold_result (\<lambda>w acc. case reset_lap w of Inl e \<Rightarrow> Inl e | Inr w' \<Rightarrow> Inr (acc @ [w'])) ws acc = Inr (acc @ ws') \<and>
       map (\<lambda>w. (w_owner w, w_counted_votes w)) ws' = map (\<lambda>w. (w_owner w, w_counted_votes w)) ws"
proof (induction ws arbitrary: acc)
  case (Cons w ws)
  then obtain x where "lap (w_counted_votes w) = Inr x" using lap_succeeds [of "w_counted_votes w"] by auto
  then have r: "reset_lap w = Inr (w\<lparr>w_virtual_position := 0, w_virtual_last_update := 0, w_virtual_scheduled_time := x\<rparr>)" (is "_ = Inr ?w")
    by (simp add: reset_lap_def)
  from Cons.IH [of "acc @ [?w]"] Cons.prems obtain ws' where "fold_result (\<lambda>w acc. case reset_lap w of Inl e \<Rightarrow> Inl e | Inr w' \<Rightarrow> Inr (acc @ [w'])) ws (acc @ [?w])
      = Inr ((acc @ [?w]) @ ws')" "map (\<lambda>w. (w_owner w, w_counted_votes w)) ws' = map (\<lambda>w. (w_owner w, w_counted_votes w)) ws"
    by auto
  then show ?case by (intro exI [of _ "?w # ws'"]) (simp add: r)
qed simp

lemma advance_time_succeeds:
  assumes "polls_ok db" and "set ws \<subseteq> set (db_witnesses db0)" and "polls_ok db0"
  shows "\<exists>u db'. advance_time t ws db = Inr (u, db') \<and> polls db' = polls db"
proof -
  obtain b db1 where s: "start_lap t ws db = Inr (b, db1)" and p: "polls db1 = polls db"
    using start_lap_succeeds [of ws t db] assms(2,3) by (auto simp: polls_ok_def)
  have "polls_ok db1" using polls_votes [OF p] assms(1) by simp
  then obtain ws' where "fold_result (\<lambda>w acc. case reset_lap w of Inl e \<Rightarrow> Inl e | Inr w' \<Rightarrow> Inr (acc @ [w'])) (db_witnesses db1) [] = Inr ws'"
      "map (\<lambda>w. (w_owner w, w_counted_votes w)) ws' = polls db1"
    using reset_laps_succeeds [of "db_witnesses db1" "[]"] by (auto simp: polls_ok_def polls_def)
  then have "\<exists>db2. reset_virtual_schedule_time db1 = Inr db2 \<and> polls db2 = polls db"
    using p by (simp add: reset_virtual_schedule_time_def polls_def)
  with s p show ?thesis by (cases b) (auto simp: advance_time_def)
qed

lemma get_witness_succeeds: "n \<in> w_owner ` set (db_witnesses db) \<Longrightarrow> \<exists>w. get_witness n db = Inr w"
  by (auto simp: get_witness_def find_row_None split: option.splits)

lemma scheduled_witnesses_succeeds: "round_ok db \<Longrightarrow> \<exists>ws. scheduled_witnesses db = Inr ws"
proof -
  assume "round_ok db"
  then have all: "\<forall>n \<in> set (map (\<lambda>i. ws_current_shuffled_witnesses (db_schedule db) ! i)
      [0..<nat (ws_num_scheduled_witnesses (db_schedule db))]). n \<in> w_owner ` set (db_witnesses db)"
    by (auto simp: round_ok_def)
  have "\<forall>n \<in> set ns. n \<in> w_owner ` set (db_witnesses db) \<Longrightarrow>
      \<exists>ws. fold_result (\<lambda>n acc. case get_witness n db of Inl e \<Rightarrow> Inl e | Inr w \<Rightarrow> Inr (acc @ [w])) ns acc = Inr ws" for ns acc
  proof (induction ns arbitrary: acc)
    case (Cons n ns)
    then obtain w where "get_witness n db = Inr w" using get_witness_succeeds by (metis list.set_intros(1))
    with Cons show ?case by simp
  qed simp
  from this [OF all, of "[]"] show ?thesis by (simp add: scheduled_witnesses_def)
qed

lemma pick_support_bounds:
  "pick_support k sel ws t = (processed, support, t') \<Longrightarrow> int k \<le> CHAIN_MAX_WITNESSES \<Longrightarrow>
     int (k + length support) \<le> CHAIN_MAX_WITNESSES \<and> set processed \<subseteq> set ws"
proof (induction k sel ws t arbitrary: processed support t' rule: pick_support.induct)
  case (2 k sel w ws t)
  show ?case
  proof (cases "int k < CHAIN_MAX_WITNESSES")
    case True
    show ?thesis
    proof (cases "w_signing_key w = [] \<or> w_id w \<in> set sel")
      case skip: True
      obtain p s u where r: "pick_support k sel ws (w_virtual_scheduled_time w) = (p, s, u)" by (metis prod_cases3)
      with "2.prems" True skip have "support = s" "processed = w # p" by auto
      with "2.IH"(1) [OF _ skip r] True show ?thesis by auto
    next
      case pick: False
      obtain p s u where r: "pick_support (k + 1) sel ws (w_virtual_scheduled_time w) = (p, s, u)" by (metis prod_cases3)
      with "2.prems" True pick have "support = w # s" "processed = w # p" by auto
      with "2.IH"(2) [OF _ pick r] True pick show ?thesis by auto
    qed
  qed (use "2.prems" in simp)
qed simp

lemma round_slots_ok:
  assumes "ns \<noteq> []" and "length ns \<le> 21" and "set ns \<subseteq> w_owner ` set (db_witnesses db)"
    and "ws_current_shuffled_witnesses (db_schedule db) = round_slots ns"
    and "ws_num_scheduled_witnesses (db_schedule db) = max (int (length ns * CHAIN_BLOCK_WITNESS_REPEAT) mod 2 ^ 8) 1"
  shows "round_ok db"
proof -
  have "int (length ns) mod 256 = int (length ns)" "1 \<le> int (length ns)" using assms(1,2) by (auto simp: Suc_le_eq)
  then have "nat (ws_num_scheduled_witnesses (db_schedule db)) = length ns" using assms(5) by simp
  moreover have "round_slots ns ! i = ns ! i" if "i < length ns" for i
    using that by (simp add: round_slots_def nth_append)
  ultimately show ?thesis using assms(3,4) by (auto simp: round_ok_def dest!: nth_mem)
qed

definition set_median :: "witness_object list \<Rightarrow> database \<Rightarrow> database" where
  "set_median active db = db\<lparr>db_schedule := (db_schedule db)\<lparr>ws_median_props := median_properties db active\<rparr>,
     db_dgp := (db_dgp db)\<lparr>dgp_maximum_block_size := maximum_block_size (median_properties db active)\<rparr>\<rparr>"

text \<open>The change of a round in a state that can change it.\<close>

lemma new_round_progress:
  assumes "round_ok db" and "polls_ok db" and "\<exists>w \<in> set (db_witnesses db). w_signing_key w \<noteq> []"
  shows "\<exists>hpo' db'. new_round hpo db = Inr (hpo', db') \<and> round_ok db' \<and> polls db' = polls db \<and>
    current_aslot (db_dgp db') = current_aslot (db_dgp db)"
proof -
  let ?top = "top_witnesses db"
  obtain processed support t where p: "pick_support (length ?top) (map w_id ?top)
      (sort_key w_virtual_scheduled_time (db_witnesses db)) (ws_current_virtual_time (db_schedule db)) = (processed, support, t)"
    by (metis prod_cases3)
  have "length ?top \<le> 11" by (simp add: top_witnesses_def)
  then have l: "int (length ?top + length support) \<le> CHAIN_MAX_WITNESSES" and pr: "set processed \<subseteq> set (db_witnesses db)"
    using pick_support_bounds [OF p] by auto
  have top: "?top \<noteq> []"
    using assms(3) by (auto simp: top_witnesses_def by_counted_vote_name_def filter_empty_conv)
  let ?m = "mark Support support (mark Top ?top db)"
  have "polls_ok ?m" using polls_votes [of ?m db] polls_mark assms(2) by simp
  from advance_time_succeeds [OF this pr assms(2), of t]
  obtain u db1 where a: "advance_time t processed ?m = Inr (u, db1)" and p1: "polls db1 = polls db"
    by (auto simp: polls_mark)
  let ?ns = "interleave (map w_owner ?top) (map w_owner support)"
  have ns: "set ?ns \<subseteq> w_owner ` set (db_witnesses db1)"
    using top_witnesses_from [of db] pick_support_from [OF p] polls_owners [OF p1] by auto
  have "round_ok db1"
    using assms(1) advance_time_same [OF a] polls_owners [OF p1] by (simp add: round_ok_def)
  then obtain voting where v: "scheduled_witnesses db1 = Inr voting" using scheduled_witnesses_succeeds by blast
  let ?count = "max (int (length ?ns * CHAIN_BLOCK_WITNESS_REPEAT) mod 2 ^ 8) 1"
  let ?db2 = "db1\<lparr>db_schedule := (db_schedule db1)\<lparr>ws_current_shuffled_witnesses := round_slots ?ns,
      ws_num_scheduled_witnesses := ?count, ws_current_virtual_time := u, ws_next_shuffle_block_num := u32 (head_block_num db + ?count),
      ws_majority_version := majority_version voting (ws_majority_version (db_schedule db1))\<rparr>\<rparr>"
  have "length ?ns \<le> 21" using l by simp
  moreover have "?ns \<noteq> []" using top by (cases ?top; cases support) simp_all
  ultimately have "round_ok ?db2" using ns by (intro round_slots_ok [of ?ns]) simp_all
  then obtain active where "scheduled_witnesses ?db2 = Inr active" using scheduled_witnesses_succeeds by blast
  then have "update_median_witness_props ?db2 = Inr (set_median active ?db2)"
    by (simp add: update_median_witness_props_def set_median_def Let_def)
  then have "new_round hpo db = Inr (next_hardfork voting hpo, set_median active ?db2)"
    unfolding new_round_def Let_def p prod.case a sum.case v using l by simp
  moreover have "round_ok (set_median active ?db2)" using \<open>round_ok ?db2\<close> by (simp add: set_median_def round_ok_def)
  moreover have "polls (set_median active ?db2) = polls db" using p1 by (simp add: set_median_def polls_def)
  moreover have "db_dgp db1 = db_dgp db" using advance_time_same [OF a] mark_same by (metis same_ledger_def)
  then have "current_aslot (db_dgp (set_median active ?db2)) = current_aslot (db_dgp db)" by (simp add: set_median_def)
  ultimately show ?thesis by blast
qed

text \<open>
  C32: the schedule never gets stuck: from a state whose running round has a witness in every slot and
  whose counted votes are not negative, the round change succeeds, and the new round is again of
  that kind, provided one witness has a signing key.
\<close>

theorem round_change_succeeds:
  assumes "round_ok db" and "polls_ok db" and "\<exists>w \<in> set (db_witnesses db). w_signing_key w \<noteq> []"
  shows "\<exists>hpo' db'. new_round hpo db = Inr (hpo', db') \<and> round_ok db' \<and> polls db' = polls db"
  using new_round_progress [OF assms] by blast

section \<open>The median\<close>

lemma sorted_majority:
  fixes xs :: "'a :: linorder list"
  assumes "sorted xs" and "length xs < 2 * length (filter (\<lambda>y. y = x) xs)"
  shows "xs ! (length xs div 2) = x"
proof -
  let ?h = "length xs div 2"
  have ne: "xs \<noteq> []" using assms(2) by auto
  have h: "?h < length xs" using ne by (cases xs) auto
  have split: "length (filter (\<lambda>y. y = x) xs) =
      length (filter (\<lambda>y. y = x) (take k xs)) + length (filter (\<lambda>y. y = x) (drop k xs))" for k
    by (metis append_take_drop_id filter_append length_append)
  have "\<not> xs ! ?h < x"
  proof
    assume lt: "xs ! ?h < x"
    have "filter (\<lambda>y. y = x) (take (Suc ?h) xs) = []"
    proof (rule filter_False, safe)
      assume "x \<in> set (take (Suc ?h) xs)"
      then obtain i where "i \<le> ?h" "i < length xs" "xs ! i = x" by (auto simp: in_set_conv_nth less_Suc_eq_le)
      then have "x \<le> xs ! ?h" using sorted_nth_mono [OF assms(1)] h by blast
      with lt show False by simp
    qed
    then have "length (filter (\<lambda>y. y = x) xs) \<le> length (drop (Suc ?h) xs)"
      using split [of "Suc ?h"] length_filter_le [of _ "drop (Suc ?h) xs"] by simp
    with assms(2) show False by simp
  qed
  moreover have "\<not> x < xs ! ?h"
  proof
    assume lt: "x < xs ! ?h"
    have "filter (\<lambda>y. y = x) (drop ?h xs) = []"
    proof (rule filter_False, safe)
      assume "x \<in> set (drop ?h xs)"
      then obtain i where "i < length xs - ?h" "xs ! (?h + i) = x" by (auto simp: in_set_conv_nth)
      then have "xs ! ?h \<le> x" using sorted_nth_mono [OF assms(1), of ?h "?h + i"] by (simp add: less_diff_conv2)
      with lt show False by simp
    qed
    then have "length (filter (\<lambda>y. y = x) xs) \<le> length (take ?h xs)"
      using split [of ?h] length_filter_le [of _ "take ?h xs"] by simp
    with assms(2) h show False by simp
  qed
  ultimately show ?thesis by simp
qed

lemma median_majority:
  assumes "length ws < 2 * length (filter (\<lambda>w. f w = x) ws)"
  shows "f (median f ws) = x"
proof -
  have "length (filter (\<lambda>y. y = x) (map f (sort_key f ws))) = length (filter (\<lambda>w. f w = x) ws)"
    by (simp add: filter_map comp_def filter_sort)
  moreover have "length ws div 2 < length ws" using assms by (cases ws) auto
  ultimately show ?thesis
    using sorted_majority [of "map f (sort_key f ws)" x] assms by (simp add: median_def)
qed

text \<open>
  The properties in force follow the majority: what more than half of the scheduled witnesses propose
  as the size of a block is what the chain takes, however the others vote, in its properties and in
  the dynamic ones.
\<close>

theorem median_follows_majority:
  assumes "update_median_witness_props db = Inr db'" and "scheduled_witnesses db = Inr ws"
    and "length ws < 2 * length (filter (\<lambda>w. maximum_block_size (w_props w) = size') ws)"
  shows "maximum_block_size (median_props db') = size' \<and> dgp_maximum_block_size (db_dgp db') = size'"
proof -
  have "median_int maximum_block_size ws = size'"
    unfolding median_int_def by (rule median_majority [OF assms(3)])
  then have "maximum_block_size (median_properties db ws) = size'"
    by (simp add: median_properties_def Let_def)
  with assms(1,2) show ?thesis by (auto simp: update_median_witness_props_def Let_def)
qed

text \<open>The rounds of the sample state.\<close>

lemma sample_round:
  "round_ok sample_round_db" "polls_ok sample_round_db" "\<exists>w \<in> set (db_witnesses sample_round_db). w_signing_key w \<noteq> []"
  "unique_keys w_owner (db_witnesses sample_round_db)" "unique_keys w_id (db_witnesses sample_round_db)"
  by (simp_all add: sample_round_db_def sample_db_def round_ok_def polls_ok_def new_witness_def unique_keys_def)

theorem round_change_succeeds_witness:
  "round_ok sample_round_db \<and> (\<exists>hpo' db'. new_round sample_hpo sample_round_db = Inr (hpo', db') \<and> round_ok db' \<and> polls db' = polls sample_round_db)"
  using sample_round(1) round_change_succeeds [OF sample_round(1-3)] by blast


lemma sample_top: "\<exists>w \<in> set (top_witnesses sample_round_db). w_owner w = ''alice''"
  by (simp add: top_witnesses_def by_counted_vote_name_def sample_round_db_def new_witness_def)

theorem top_witness_gets_slot_witness:
  "\<exists>hpo' db' k. new_round sample_hpo sample_round_db = Inr (hpo', db') \<and>
     0 \<le> k \<and> k < ws_num_scheduled_witnesses (db_schedule db') \<and> get_scheduled_witness (1 + k) db' = ''alice''"
proof -
  obtain hpo' db' where r: "new_round sample_hpo sample_round_db = Inr (hpo', db')"
    and "current_aslot (db_dgp db') = current_aslot (db_dgp sample_round_db)"
    using new_round_progress [OF sample_round(1-3)] by blast
  then have a: "current_aslot (db_dgp db') = 10" by (simp add: sample_round_db_def sample_dgp_def)
  obtain w where "w \<in> set (top_witnesses sample_round_db)" "w_owner w = ''alice''" using sample_top by blast
  with top_witness_gets_slot [OF r, of w 1] a r show ?thesis by auto
qed

theorem median_follows_majority_witness:
  "\<exists>db'. update_median_witness_props sample_round_db = Inr db' \<and> dgp_maximum_block_size (db_dgp db') = 131072"
proof -
  have s: "scheduled_witnesses sample_round_db = Inr [(new_witness ''viz'' 0 0)\<lparr>w_signing_key := ''K1'', w_votes := 5, w_counted_votes := 5\<rparr>]" (is "_ = Inr [?w]")
    by (simp add: scheduled_witnesses_def sample_round_db_def sample_db_def get_witness_def new_witness_def)
  then obtain db' where u: "update_median_witness_props sample_round_db = Inr db'"
    by (simp add: update_median_witness_props_def Let_def)
  have "maximum_block_size (w_props ?w) = 131072" by (simp add: new_witness_def default_props_def)
  with median_follows_majority [OF u s, of 131072] u show ?thesis by simp
qed

end
