(* ===== verification/Protocol_Block.thy ===== *)
theory Protocol_Block
  imports Protocol_Transaction Protocol_Version
begin

text \<open>
  Transactions and blocks (\<open>protocol/transaction.hpp\<close>, \<open>protocol/block_header.hpp\<close>,
  \<open>protocol/block.hpp\<close>, \<open>protocol/block.cpp\<close>): block numbers, block ids and the Merkle root.
  The hashes, the byte reversal and the recovery of the signing key are functions of fc and fields
  of \<open>block_env\<close>.
\<close>

type_synonym block_id_type = "32 word list"
type_synonym digest_type = "32 word list"

definition zero_id :: block_id_type where
  "zero_id = replicate 5 0"

record signed_transaction =
  tx_ref_block_num :: int
  tx_ref_block_prefix :: int
  tx_expiration :: int
  tx_operations :: "operation list"
  tx_signatures :: "string list"

datatype block_header_extension =
    Void_extension
  | Version_extension version
  | Hardfork_version_vote version int

record block_header =
  bh_previous :: block_id_type
  bh_timestamp :: int
  bh_witness :: account_name_type
  bh_transaction_merkle_root :: digest_type
  bh_extensions :: "block_header_extension list"

record signed_block_header = block_header +
  bh_witness_signature :: string

record signed_block = signed_block_header +
  bh_transactions :: "signed_transaction list"

record block_env =
  endian_reverse_u32 :: "32 word \<Rightarrow> 32 word"
  hash_header :: "signed_block \<Rightarrow> digest_type"
  merkle_digest :: "signed_transaction \<Rightarrow> digest_type"
  hash_pair :: "digest_type \<Rightarrow> digest_type \<Rightarrow> digest_type"
  hash_root :: "digest_type \<Rightarrow> digest_type"
  signee :: "signed_block \<Rightarrow> public_key_type"
  block_pack_size :: "signed_block \<Rightarrow> int"
  transaction_pack_size :: "signed_transaction \<Rightarrow> int"

section \<open>Numbers and ids\<close>

definition num_from_id :: "block_env \<Rightarrow> block_id_type \<Rightarrow> 32 word" where
  "num_from_id env i = endian_reverse_u32 env (i ! 0)"

definition block_num :: "block_env \<Rightarrow> signed_block \<Rightarrow> 32 word" where
  "block_num env b = num_from_id env (bh_previous b) + 1"

definition block_id :: "block_env \<Rightarrow> signed_block \<Rightarrow> block_id_type" where
  "block_id env b = take 5 ((hash_header env b)[0 := endian_reverse_u32 env (block_num env b)])"

definition validate_signee :: "block_env \<Rightarrow> signed_block \<Rightarrow> public_key_type \<Rightarrow> bool" where
  "validate_signee env b expected_signee = (signee env b = expected_signee)"

section \<open>The Merkle root\<close>

text \<open>One pass of the loop: the digests of the array are hashed in pairs and written to its front.\<close>

function merkle_pairs :: "block_env \<Rightarrow> nat \<Rightarrow> nat \<Rightarrow> nat \<Rightarrow> digest_type list \<Rightarrow> nat \<times> digest_type list" where
  "merkle_pairs env i_max i k ids =
     (if i < i_max then merkle_pairs env i_max (i + 2) (k + 1) (ids[k := hash_pair env (ids ! i) (ids ! (i + 1))])
      else (k, ids))"
  by pat_completeness auto
termination by (relation "measure (\<lambda>(env, i_max, i, k, ids). i_max - i)") auto

declare merkle_pairs.simps [simp del]

definition merkle_pass :: "block_env \<Rightarrow> nat \<Rightarrow> digest_type list \<Rightarrow> nat \<times> digest_type list" where
  "merkle_pass env n ids =
     (let i_max = n - n mod 2; (k, ids1) = merkle_pairs env i_max 0 0 ids
      in if n mod 2 = 1 then (k + 1, ids1[k := ids1 ! i_max]) else (k, ids1))"

text \<open>The reference: the level of a tree above a list of digests.\<close>

fun merkle_level :: "block_env \<Rightarrow> digest_type list \<Rightarrow> digest_type list" where
  "merkle_level env (x # y # xs) = hash_pair env x y # merkle_level env xs"
| "merkle_level env xs = xs"

lemma length_merkle_level [simp]: "length (merkle_level env xs) = (length xs + 1) div 2"
  by (induction env xs rule: merkle_level.induct) auto

lemma merkle_level_nonempty [simp]: "(merkle_level env xs = []) = (xs = [])"
  by (cases "(env, xs)" rule: merkle_level.cases) auto

text \<open>
  After some pairs the front of the array holds their hashes and the rest is untouched.
\<close>

lemma merkle_pairs_correct:
  assumes "i = 2 * k" and "even i_max" and "i \<le> i_max" and "i_max \<le> length ids"
  shows "\<exists>ids'. merkle_pairs env i_max i k ids = (i_max div 2, ids') \<and> length ids' = length ids \<and>
    take (i_max div 2) ids' = take k ids @ merkle_level env (take (i_max - i) (drop i ids)) \<and> drop i_max ids' = drop i_max ids"
  using assms
proof (induction env i_max i k ids rule: merkle_pairs.induct)
  case (1 env i_max i k ids)
  show ?case
  proof (cases "i < i_max")
    case False
    then have "merkle_pairs env i_max i k ids = (k, ids)" by (simp add: merkle_pairs.simps)
    with "1.prems" False show ?thesis by auto
  next
    case True
    let ?ids = "ids[k := hash_pair env (ids ! i) (ids ! (i + 1))]"
    have i2: "i + 2 \<le> i_max" using "1.prems"(1,2) True by presburger
    obtain ids' where r: "merkle_pairs env i_max (i + 2) (k + 1) ?ids = (i_max div 2, ids')" "length ids' = length ids"
      "take (i_max div 2) ids' = take (k + 1) ?ids @ merkle_level env (take (i_max - (i + 2)) (drop (i + 2) ?ids))"
      "drop i_max ids' = drop i_max ids"
      using "1.IH" [OF True] "1.prems" i2 by auto
    have d: "take (i_max - i) (drop i ids) = ids ! i # ids ! (i + 1) # take (i_max - (i + 2)) (drop (i + 2) ids)"
    proof -
      have "drop i ids = ids ! i # ids ! (i + 1) # drop (i + 2) ids"
        using i2 "1.prems"(4) by (simp add: Cons_nth_drop_Suc)
      moreover have "i_max - i = Suc (Suc (i_max - (i + 2)))" using i2 by simp
      ultimately show ?thesis by simp
    qed
    have "k < length ids" using "1.prems" True by simp
    then have "take (k + 1) ?ids = take k ids @ [hash_pair env (ids ! i) (ids ! (i + 1))]"
      by (simp add: take_Suc_conv_app_nth)
    moreover have "drop (i + 2) ?ids = drop (i + 2) ids" using "1.prems"(1) by simp
    ultimately show ?thesis using r True d by (simp add: merkle_pairs.simps [of env i_max i k ids])
  qed
qed

lemma merkle_level_append: "even (length xs) \<Longrightarrow> merkle_level env (xs @ ys) = merkle_level env xs @ merkle_level env ys"
  by (induction env xs rule: merkle_level.induct) auto

lemma merkle_pass_correct:
  assumes "n \<le> length ids"
  shows "\<exists>ids'. merkle_pass env n ids = ((n + 1) div 2, ids') \<and> length ids' = length ids \<and>
    take ((n + 1) div 2) ids' = merkle_level env (take n ids)"
proof -
  let ?m = "n - n mod 2"
  have even: "even ?m" by simp
  have m: "?m \<le> n" "?m div 2 = n div 2" by (simp_all, presburger)
  from merkle_pairs_correct [of 0 0 ?m ids env] even assms m
  obtain ids1 where r: "merkle_pairs env ?m 0 0 ids = (n div 2, ids1)" "length ids1 = length ids"
    "take (n div 2) ids1 = merkle_level env (take ?m ids)" "drop ?m ids1 = drop ?m ids"
    by auto
  show ?thesis
  proof (cases "n mod 2 = 1")
    case False
    then show ?thesis using r by (auto simp: merkle_pass_def)
  next
    case True
    then have n: "n = Suc ?m" "(n + 1) div 2 = n div 2 + 1" by presburger+
    have lt: "n div 2 < length ids1" "?m < length ids" using assms r(2) n by linarith+
    have "ids1 ! ?m = ids ! ?m" using r(2,4) lt by (metis hd_drop_conv_nth)
    then have "take (n div 2 + 1) (ids1[n div 2 := ids1 ! ?m]) = merkle_level env (take ?m ids) @ [ids ! ?m]"
      using lt r(3) by (simp add: take_Suc_conv_app_nth)
    also have "\<dots> = merkle_level env (take ?m ids @ [ids ! ?m])"
      using even lt by (subst merkle_level_append) simp_all
    also have "\<dots> = merkle_level env (take n ids)" using n(1) lt by (metis take_Suc_conv_app_nth)
    finally show ?thesis using True r(1,2) n(2) by (simp add: merkle_pass_def Let_def)
  qed
qed

lemma merkle_pairs_count: "fst (merkle_pairs env i_max i k ids) = k + (i_max - i + 1) div 2"
proof (induction env i_max i k ids rule: merkle_pairs.induct)
  case (1 env i_max i k ids)
  have "i < i_max \<Longrightarrow> Suc (Suc (i_max - Suc (Suc i)) div 2) = Suc (i_max - i) div 2" by presburger
  with 1 show ?case by (cases "i < i_max") (simp_all add: merkle_pairs.simps [of env i_max i k ids])
qed

lemma merkle_pass_count: "fst (merkle_pass env n ids) = (n + 1) div 2"
proof -
  have "fst (merkle_pairs env (n - n mod 2) 0 0 ids) = (n - n mod 2 + 1) div 2" by (simp add: merkle_pairs_count)
  moreover have "(n - n mod 2 + 1) div 2 + (if n mod 2 = 1 then 1 else 0) = (n + 1) div 2" by presburger
  ultimately show ?thesis by (auto simp: merkle_pass_def Let_def split: prod.splits)
qed

function merkle_loop :: "block_env \<Rightarrow> nat \<Rightarrow> digest_type list \<Rightarrow> digest_type list" where
  "merkle_loop env n ids =
     (if n > 1 then (case merkle_pass env n ids of (k, ids') \<Rightarrow> merkle_loop env k ids') else ids)"
  by pat_completeness auto
termination
proof (relation "measure (\<lambda>(env, n, ids). n)")
  fix env n ids k ids'
  assume "1 < n" and "(k, ids') = merkle_pass env n ids"
  then have "k = (n + 1) div 2" using merkle_pass_count [of env n ids] by (metis fst_conv)
  with \<open>1 < n\<close> show "((env, k, ids'), env, n, ids) \<in> measure (\<lambda>(env, n, ids). n)" by simp
qed simp

declare merkle_loop.simps [simp del]

definition calculate_merkle_root :: "block_env \<Rightarrow> signed_block \<Rightarrow> digest_type" where
  "calculate_merkle_root env b =
     (if bh_transactions b = [] then zero_id
      else hash_root env (merkle_loop env (length (bh_transactions b)) (map (merkle_digest env) (bh_transactions b)) ! 0))"

function merkle_root :: "block_env \<Rightarrow> digest_type list \<Rightarrow> digest_type" where
  "merkle_root env xs = (if length xs \<le> 1 then hd xs else merkle_root env (merkle_level env xs))"
  by pat_completeness auto
termination by (relation "measure (\<lambda>(env, xs). length xs)") auto

declare merkle_root.simps [simp del]

lemma merkle_loop_root:
  "0 < n \<Longrightarrow> n \<le> length ids \<Longrightarrow> merkle_loop env n ids ! 0 = merkle_root env (take n ids)"
proof (induction n arbitrary: ids rule: less_induct)
  case (less n)
  show ?case
  proof (cases "n > 1")
    case False
    with less.prems have "merkle_loop env n ids = ids" "length (take n ids) \<le> 1" "hd (take n ids) = ids ! 0"
      by (cases ids; simp add: merkle_loop.simps)+
    then show ?thesis by (simp add: merkle_root.simps)
  next
    case True
    obtain ids' where p: "merkle_pass env n ids = ((n + 1) div 2, ids')" "length ids' = length ids"
      "take ((n + 1) div 2) ids' = merkle_level env (take n ids)"
      using merkle_pass_correct [OF less.prems(2), of env] by blast
    have "merkle_loop env n ids ! 0 = merkle_loop env ((n + 1) div 2) ids' ! 0"
      using True p(1) by (simp add: merkle_loop.simps [of env n ids])
    also have "\<dots> = merkle_root env (merkle_level env (take n ids))"
      using less.IH [of "(n + 1) div 2" ids'] True less.prems(2) p(2,3) by simp
    also have "\<dots> = merkle_root env (take n ids)"
      using True less.prems(2) by (simp add: merkle_root.simps [of env "take n ids"])
    finally show ?thesis .
  qed
qed

text \<open>
  C34: the loop that hashes the digests of a block in place computes the root of the tree whose levels
  pair the digests, an odd one at the end going up as it is; and it ends for every number of transactions.
\<close>

theorem merkle_root_in_place:
  "calculate_merkle_root env b =
     (if bh_transactions b = [] then zero_id else hash_root env (merkle_root env (map (merkle_digest env) (bh_transactions b))))"
  using merkle_loop_root [of "length (bh_transactions b)" "map (merkle_digest env) (bh_transactions b)" env]
  by (simp add: calculate_merkle_root_def)

section \<open>The number in an id\<close>

text \<open>What the development relies on of fc: byte reversal is its own inverse, a SHA-224 digest has seven words.\<close>

definition block_env_ok :: "block_env \<Rightarrow> bool" where
  "block_env_ok env = ((\<forall>x. endian_reverse_u32 env (endian_reverse_u32 env x) = x) \<and> (\<forall>b. length (hash_header env b) = 7))"

lemma block_id_num: "block_env_ok env \<Longrightarrow> num_from_id env (block_id env b) = block_num env b"
  by (simp add: num_from_id_def block_id_def block_env_ok_def)

text \<open>
  The number of a block can be read from its id, and a block whose predecessor is known has the
  next number.
\<close>

theorem block_id_carries_number:
  assumes "block_env_ok env"
  shows "num_from_id env (block_id env b) = block_num env b \<and> length (block_id env b) = 5 \<and>
    (bh_previous c = block_id env b \<longrightarrow> block_num env c = block_num env b + 1)"
proof -
  have l: "length (hash_header env b) = 7" using assms by (simp add: block_env_ok_def)
  then have "length (block_id env b) = 5" by (simp add: block_id_def)
  then show ?thesis using block_id_num [OF assms, of b] by (simp add: block_num_def [of env c])
qed

text \<open>An environment for evaluation: bytes reversed, and hashes that only mix words.\<close>

unbundle bit_operations_syntax

definition byte_swap :: "32 word \<Rightarrow> 32 word" where
  "byte_swap x = push_bit 24 (take_bit 8 x) OR push_bit 16 (take_bit 8 (drop_bit 8 x)) OR push_bit 8 (take_bit 8 (drop_bit 16 x)) OR
     drop_bit 24 x"

definition sample_block_env :: block_env where
  "sample_block_env = \<lparr>endian_reverse_u32 = byte_swap,
     hash_header = (\<lambda>b. [0, of_int (bh_timestamp b), foldr (+) (bh_previous b) 7, 3, 4, 5, 6]),
     merkle_digest = (\<lambda>t. [of_int (tx_expiration t)]), hash_pair = (\<lambda>x y. x @ y), hash_root = (\<lambda>x. 1 # x),
     signee = bh_witness_signature, block_pack_size = (\<lambda>b. 100 + int (length (bh_transactions b))), transaction_pack_size = (\<lambda>t. 100)\<rparr>"

definition swapped :: "nat \<Rightarrow> nat" where
  "swapped n = (if n < 8 then n + 24 else if n < 16 then n + 8 else if n < 24 then n - 8 else n - 24)"

lemma bit_byte_swap: "n < 32 \<Longrightarrow> bit (byte_swap x) n = bit x (swapped n)"
proof -
  assume "n < 32"
  then consider "n < 8" | "8 \<le> n" "n < 16" | "16 \<le> n" "n < 24" | "24 \<le> n" "n < 32" by linarith
  then show ?thesis
    by (cases; simp add: byte_swap_def swapped_def bit_or_iff bit_take_bit_iff bit_push_bit_iff bit_drop_bit_eq add.commute less_diff_conv2; auto dest: bit_imp_le_length)
qed

lemma byte_swap_twice: "byte_swap (byte_swap x) = x"
proof (rule bit_word_eqI)
  fix n
  assume "n < LENGTH(32)"
  then have n: "n < 32" by simp
  then have "swapped n < 32" "swapped (swapped n) = n" by (auto simp: swapped_def)
  then show "bit (byte_swap (byte_swap x)) n = bit x n" using n by (simp add: bit_byte_swap)
qed

lemma sample_block_env_ok: "block_env_ok sample_block_env"
  by (simp add: block_env_ok_def sample_block_env_def byte_swap_twice)

definition sample_block :: "block_id_type \<Rightarrow> int \<Rightarrow> signed_block" where
  "sample_block prev t = \<lparr>bh_previous = prev, bh_timestamp = t, bh_witness = ''viz'', bh_transaction_merkle_root = zero_id,
     bh_extensions = [], bh_witness_signature = ''K1'', bh_transactions = []\<rparr>"

theorem block_id_carries_number_witness:
  "num_from_id sample_block_env (block_id sample_block_env (sample_block zero_id 3)) = block_num sample_block_env (sample_block zero_id 3)"
  using block_id_carries_number [OF sample_block_env_ok] by blast

end
