(* ===== verification/Fork_Database.thy ===== *)
theory Fork_Database
  imports Protocol_Block
begin

text \<open>
  The fork database (\<open>chain/fork_database.cpp\<close>, \<open>chain/include/graphene/chain/fork_database.hpp\<close>):
  the recent blocks as a tree of items that point to their predecessors.  Items are shared objects:
  each has an address, \<open>fi_prev\<close> is the weak pointer to the predecessor, and a weak pointer can be
  locked as long as the item is in an index or is the head.  \<open>_push_next\<close> is never called and
  \<open>_unlinked_index\<close> is never filled, because \<open>push_block\<close> rethrows before it inserts there; the
  field is kept, since every lookup reads it.
\<close>

record fork_item =
  fi_addr :: nat
  fi_prev :: "nat option"
  fi_num :: nat
  fi_invalid :: bool
  fi_id :: block_id_type
  fi_data :: signed_block

record fork_database =
  fd_max_size :: nat
  fd_unlinked_index :: "fork_item list"
  fd_index :: "fork_item list"
  fd_head :: "fork_item option"
  fd_next_addr :: nat

definition empty_fork_database :: fork_database where
  "empty_fork_database = \<lparr>fd_max_size = 1024, fd_unlinked_index = [], fd_index = [], fd_head = None, fd_next_addr = 0\<rparr>"

definition make_item :: "block_env \<Rightarrow> signed_block \<Rightarrow> fork_database \<Rightarrow> fork_item" where
  "make_item env b fd = \<lparr>fi_addr = fd_next_addr fd, fi_prev = None, fi_num = unat (block_num env b), fi_invalid = False,
     fi_id = block_id env b, fi_data = b\<rparr>"

definition live_items :: "fork_database \<Rightarrow> fork_item list" where
  "live_items fd = fd_index fd @ fd_unlinked_index fd @ (case fd_head fd of None \<Rightarrow> [] | Some h \<Rightarrow> [h])"

definition lock :: "nat option \<Rightarrow> fork_database \<Rightarrow> fork_item option" where
  "lock p fd = (case p of None \<Rightarrow> None | Some a \<Rightarrow> find_row fi_addr a (live_items fd))"

text \<open>The index is unique by id: the insertion of a known id has no effect.\<close>

definition insert_item :: "fork_item \<Rightarrow> fork_database \<Rightarrow> fork_database" where
  "insert_item i fd = (if find_row fi_id (fi_id i) (fd_index fd) = None then fd\<lparr>fd_index := fd_index fd @ [i]\<rparr> else fd)"

definition reset_forks :: "fork_database \<Rightarrow> fork_database" where
  "reset_forks fd = fd\<lparr>fd_head := None, fd_index := []\<rparr>"

definition pop_fork_block :: "fork_database \<Rightarrow> fork_database result" where
  "pop_fork_block fd =
     (case fd_head fd of None \<Rightarrow> Inl (FC_Assert ''cannot pop an empty fork database'')
      | Some h \<Rightarrow>
      case lock (fi_prev h) fd of None \<Rightarrow> Inl (FC_Assert ''popping head block would leave fork DB empty'')
      | Some p \<Rightarrow> Inr (fd\<lparr>fd_head := Some p\<rparr>))"

definition start_block :: "block_env \<Rightarrow> signed_block \<Rightarrow> fork_database \<Rightarrow> fork_database" where
  "start_block env b fd =
     (let i = make_item env b fd in (insert_item i fd)\<lparr>fd_head := Some i, fd_next_addr := fd_next_addr fd + 1\<rparr>)"

definition oldest_num :: "fork_item \<Rightarrow> fork_database \<Rightarrow> int" where
  "oldest_num h fd = max 0 (int (fi_num h) - int (fd_max_size fd))"

definition link_item :: "fork_item \<Rightarrow> fork_database \<Rightarrow> fork_item result" where
  "link_item i fd =
     (if fd_head fd \<noteq> None \<and> bh_previous (fi_data i) \<noteq> zero_id then
        (case find_row fi_id (bh_previous (fi_data i)) (fd_index fd) of None \<Rightarrow> Inl Unlinkable_block
         | Some p \<Rightarrow> if fi_invalid p then Inl (FC_Assert ''!(*itr)->invalid'') else Inr (i\<lparr>fi_prev := Some (fi_addr p)\<rparr>))
      else Inr i)"

definition push_fork_item :: "fork_item \<Rightarrow> fork_database \<Rightarrow> fork_database result" where
  "push_fork_item i fd =
     (case (case fd_head fd of None \<Rightarrow> Inr ()
            | Some h \<Rightarrow> fc_assert (int (fi_num i) > oldest_num h fd) ''attempting to push a block that is too old'') of Inl e \<Rightarrow> Inl e
      | Inr _ \<Rightarrow>
      case link_item i fd of Inl e \<Rightarrow> Inl e
      | Inr i' \<Rightarrow>
        let fd' = insert_item i' fd
        in Inr (case fd_head fd of None \<Rightarrow> fd'\<lparr>fd_head := Some i'\<rparr>
                | Some h \<Rightarrow> if fi_num i' > fi_num h then fd'\<lparr>fd_head := Some i'\<rparr> else fd'))"

definition push_fork_block :: "block_env \<Rightarrow> signed_block \<Rightarrow> fork_database \<Rightarrow> (fork_item option \<times> fork_database) result" where
  "push_fork_block env b fd =
     (case push_fork_item (make_item env b fd) fd of Inl e \<Rightarrow> Inl e
      | Inr fd' \<Rightarrow> Inr (fd_head fd', fd'\<lparr>fd_next_addr := fd_next_addr fd + 1\<rparr>))"

text \<open>The loops erase from the front of the index by number.\<close>

definition set_max_size :: "nat \<Rightarrow> fork_database \<Rightarrow> fork_database" where
  "set_max_size s fd =
     (let fd' = fd\<lparr>fd_max_size := s\<rparr>
      in case fd_head fd of None \<Rightarrow> fd'
         | Some h \<Rightarrow> fd'\<lparr>fd_index := filter (\<lambda>i. \<not> int (fi_num i) < oldest_num h fd') (fd_index fd),
               fd_unlinked_index := filter (\<lambda>i. \<not> int (fi_num i) < oldest_num h fd') (fd_unlinked_index fd)\<rparr>)"

definition is_known_fork_block :: "block_id_type \<Rightarrow> fork_database \<Rightarrow> bool" where
  "is_known_fork_block i fd = (find_row fi_id i (fd_index fd) \<noteq> None \<or> find_row fi_id i (fd_unlinked_index fd) \<noteq> None)"

definition fetch_fork_block :: "block_id_type \<Rightarrow> fork_database \<Rightarrow> fork_item option" where
  "fetch_fork_block i fd = (case find_row fi_id i (fd_index fd) of Some x \<Rightarrow> Some x | None \<Rightarrow> find_row fi_id i (fd_unlinked_index fd))"

definition fetch_block_by_number :: "nat \<Rightarrow> fork_database \<Rightarrow> fork_item list" where
  "fetch_block_by_number num fd = filter (\<lambda>i. fi_num i = num) (fd_index fd)"

text \<open>
  The walks along the predecessors.  The address of a predecessor is smaller than the one of the
  item, so that the address bounds the steps; a walk that uses them up is reported as an error.
\<close>

fun walk_down :: "nat \<Rightarrow> fork_database \<Rightarrow> nat \<Rightarrow> fork_item \<Rightarrow> (fork_item list \<times> fork_item) result" where
  "walk_down 0 fd num i = Inl Recursion_limit"
| "walk_down (Suc fuel) fd num i =
     (if fi_num i > num then
        (case lock (fi_prev i) fd of None \<Rightarrow> Inl (FC_Assert ''first_branch'')
         | Some p \<Rightarrow>
         case walk_down fuel fd num p of Inl e \<Rightarrow> Inl e
         | Inr (branch, j) \<Rightarrow> Inr (i # branch, j))
      else Inr ([], i))"

fun walk_both :: "nat \<Rightarrow> fork_database \<Rightarrow> fork_item \<Rightarrow> fork_item \<Rightarrow> (fork_item list \<times> fork_item list) result" where
  "walk_both 0 fd i j = Inl Recursion_limit"
| "walk_both (Suc fuel) fd i j =
     (if bh_previous (fi_data i) \<noteq> bh_previous (fi_data j) then
        (case lock (fi_prev i) fd of None \<Rightarrow> Inl (FC_Assert ''first_branch'')
         | Some p \<Rightarrow>
         case lock (fi_prev j) fd of None \<Rightarrow> Inl (FC_Assert ''second_branch'')
         | Some q \<Rightarrow>
         case walk_both fuel fd p q of Inl e \<Rightarrow> Inl e
         | Inr (xs, ys) \<Rightarrow> Inr (i # xs, j # ys))
      else Inr ([i], [j]))"

definition fetch_branch_from :: "block_id_type \<Rightarrow> block_id_type \<Rightarrow> fork_database \<Rightarrow> (fork_item list \<times> fork_item list) result" where
  "fetch_branch_from first second fd =
     (case find_row fi_id first (fd_index fd) of None \<Rightarrow> Inl (FC_Assert ''first_branch_itr != _index.get<block_id>().end()'')
      | Some i \<Rightarrow>
      case find_row fi_id second (fd_index fd) of None \<Rightarrow> Inl (FC_Assert ''second_branch_itr != _index.get<block_id>().end()'')
      | Some j \<Rightarrow>
      case walk_down (fi_addr i + 1) fd (fi_num j) i of Inl e \<Rightarrow> Inl e
      | Inr (xs, i') \<Rightarrow>
      case walk_down (fi_addr j + 1) fd (fi_num i') j of Inl e \<Rightarrow> Inl e
      | Inr (ys, j') \<Rightarrow>
      case walk_both (fi_addr i' + 1) fd i' j' of Inl e \<Rightarrow> Inl e
      | Inr (xs', ys') \<Rightarrow> Inr (xs @ xs', ys @ ys'))"

fun walk_main :: "nat \<Rightarrow> fork_database \<Rightarrow> nat \<Rightarrow> fork_item \<Rightarrow> fork_item option result" where
  "walk_main 0 fd num i = Inl Recursion_limit"
| "walk_main (Suc fuel) fd num i =
     (if fi_num i > num then (case lock (fi_prev i) fd of None \<Rightarrow> Inr None | Some p \<Rightarrow> walk_main fuel fd num p)
      else Inr (Some i))"

definition walk_main_branch_to_num :: "nat \<Rightarrow> fork_database \<Rightarrow> fork_item option result" where
  "walk_main_branch_to_num num fd =
     (case fd_head fd of None \<Rightarrow> Inl Null_dereference
      | Some h \<Rightarrow> if num > fi_num h then Inr None else walk_main (fi_addr h + 1) fd num h)"

definition fetch_block_on_main_branch_by_number :: "nat \<Rightarrow> fork_database \<Rightarrow> fork_item option result" where
  "fetch_block_on_main_branch_by_number num fd =
     (let blocks = fetch_block_by_number num fd
      in if length blocks = 1 then Inr (Some (blocks ! 0))
         else if length blocks = 0 then Inr None
         else walk_main_branch_to_num num fd)"

definition set_fork_head :: "fork_item \<Rightarrow> fork_database \<Rightarrow> fork_database" where
  "set_fork_head h fd = fd\<lparr>fd_head := Some h\<rparr>"

definition remove_fork_block :: "block_id_type \<Rightarrow> fork_database \<Rightarrow> fork_database" where
  "remove_fork_block i fd = fd\<lparr>fd_index := remove_row fi_id i (fd_index fd)\<rparr>"

section \<open>The tree\<close>

text \<open>
  What holds of every item that is alive, and of the whole database: ids and addresses are unique, an
  item carries the number and the id of its block, and a pointer that can be locked leads to the block
  the item names as its predecessor.
\<close>

definition item_ok :: "block_env \<Rightarrow> fork_database \<Rightarrow> fork_item \<Rightarrow> bool" where
  "item_ok env fd i = (fi_num i = unat (block_num env (fi_data i)) \<and> 0 < fi_num i \<and> fi_id i = block_id env (fi_data i) \<and>
     \<not> fi_invalid i \<and> fi_addr i < fd_next_addr fd \<and>
     (\<forall>a. fi_prev i = Some a \<longrightarrow> a < fi_addr i \<and> (\<forall>p \<in> set (live_items fd). fi_addr p = a \<longrightarrow> fi_id p = bh_previous (fi_data i))))"

definition forks_ok :: "block_env \<Rightarrow> fork_database \<Rightarrow> bool" where
  "forks_ok env fd = (unique_keys fi_id (fd_index fd) \<and> unique_keys fi_addr (fd_index fd) \<and> fd_unlinked_index fd = [] \<and>
     (\<forall>h. fd_head fd = Some h \<longrightarrow> (\<forall>i \<in> set (fd_index fd). fi_addr i = fi_addr h \<longrightarrow> i = h)) \<and>
     (\<forall>i \<in> set (live_items fd). item_ok env fd i))"

lemma live_index: "i \<in> set (fd_index fd) \<Longrightarrow> i \<in> set (live_items fd)"
  by (simp add: live_items_def)

lemma live_head: "fd_head fd = Some h \<Longrightarrow> h \<in> set (live_items fd)"
  by (simp add: live_items_def)

lemma lock_item:
  assumes "forks_ok env fd" and "i \<in> set (live_items fd)" and "lock (fi_prev i) fd = Some p"
  shows "p \<in> set (live_items fd)" and "fi_addr p < fi_addr i" and "fi_id p = bh_previous (fi_data i)"
proof -
  from assms(3) obtain a where a: "fi_prev i = Some a" "find_row fi_addr a (live_items fd) = Some p"
    by (auto simp: lock_def split: option.splits)
  show p: "p \<in> set (live_items fd)" by (rule find_row_set [OF a(2)])
  have k: "fi_addr p = a" by (rule find_row_key [OF a(2)])
  have "item_ok env fd i" using assms(1,2) by (simp add: forks_ok_def)
  then show "fi_addr p < fi_addr i" "fi_id p = bh_previous (fi_data i)" using a(1) k p by (auto simp: item_ok_def)
qed

lemma lock_num:
  assumes "block_env_ok env" and "forks_ok env fd" and "i \<in> set (live_items fd)" and "lock (fi_prev i) fd = Some p"
  shows "fi_num i = Suc (fi_num p)"
proof -
  note l = lock_item [OF assms(2-4)]
  have i: "item_ok env fd i" and p: "item_ok env fd p" using assms(2,3) l(1) by (auto simp: forks_ok_def)
  have "bh_previous (fi_data i) = block_id env (fi_data p)" using l(3) p by (simp add: item_ok_def)
  then have n: "block_num env (fi_data i) = block_num env (fi_data p) + 1"
    using block_id_num [OF assms(1)] by (simp add: block_num_def [of env "fi_data i"])
  then have "block_num env (fi_data p) + 1 \<noteq> 0" using i by (auto simp: item_ok_def)
  then show ?thesis using i p n by (simp add: item_ok_def unatSuc add.commute)
qed

section \<open>Branches\<close>

fun linked :: "fork_item list \<Rightarrow> bool" where
  "linked (x # y # zs) = (bh_previous (fi_data x) = fi_id y \<and> fi_num x = Suc (fi_num y) \<and> linked (y # zs))"
| "linked _ = True"

lemma linked_append: "linked (xs @ [y]) \<Longrightarrow> linked (y # ys) \<Longrightarrow> linked (xs @ y # ys)"
  by (induction xs rule: linked.induct) (auto simp: neq_Nil_conv)

lemma walk_down_sound:
  assumes "block_env_ok env" and "forks_ok env fd"
  shows "i \<in> set (live_items fd) \<Longrightarrow> walk_down fuel fd num i = Inr (xs, j) \<Longrightarrow>
     j \<in> set (live_items fd) \<and> linked (xs @ [j]) \<and> hd (xs @ [j]) = i \<and> fi_num j = min (fi_num i) num \<and>
     (\<forall>x \<in> set xs. num < fi_num x \<and> fi_num x \<le> fi_num i)"
proof (induction fuel arbitrary: i xs)
  case (Suc fuel)
  show ?case
  proof (cases "fi_num i > num")
    case False
    with Suc.prems show ?thesis by auto
  next
    case True
    with Suc.prems(2) obtain p ys where p: "lock (fi_prev i) fd = Some p" "walk_down fuel fd num p = Inr (ys, j)" "xs = i # ys"
      by (auto simp: case_sum_Inr split: option.splits)
    note l = lock_item [OF assms(2) Suc.prems(1) p(1)] lock_num [OF assms Suc.prems(1) p(1)]
    note IH = Suc.IH [OF l(1) p(2)]
    have "linked (xs @ [j])" using IH l(3,4) p(3) by (cases ys) auto
    then show ?thesis using IH True l(4) p(3) by auto
  qed
qed simp

lemma walk_down_succeeds:
  assumes "forks_ok env fd"
  shows "i \<in> set (live_items fd) \<Longrightarrow> fi_addr i < fuel \<Longrightarrow> walk_down fuel fd num i \<noteq> Inl Recursion_limit"
proof (induction fuel arbitrary: i)
  case (Suc fuel)
  show ?case
  proof (cases "lock (fi_prev i) fd")
    case (Some p)
    with Suc lock_item [OF assms Suc.prems(1) Some] have "walk_down fuel fd num p \<noteq> Inl Recursion_limit" by simp
    with Some show ?thesis by (auto split: sum.splits)
  qed simp
qed simp

lemma walk_both_sound:
  assumes "block_env_ok env" and "forks_ok env fd"
  shows "i \<in> set (live_items fd) \<Longrightarrow> j \<in> set (live_items fd) \<Longrightarrow> fi_num i = fi_num j \<Longrightarrow> walk_both fuel fd i j = Inr (xs, ys) \<Longrightarrow>
     xs \<noteq> [] \<and> ys \<noteq> [] \<and> hd xs = i \<and> hd ys = j \<and> linked xs \<and> linked ys \<and>
     bh_previous (fi_data (last xs)) = bh_previous (fi_data (last ys)) \<and>
     (\<forall>x \<in> set xs. \<forall>y \<in> set ys. fi_num x \<le> fi_num i \<and> fi_num y \<le> fi_num i \<and>
        (fi_num x = fi_num y \<and> bh_previous (fi_data x) = bh_previous (fi_data y) \<longrightarrow> x = last xs \<and> y = last ys))"
proof (induction fuel arbitrary: i j xs ys)
  case (Suc fuel)
  show ?case
  proof (cases "bh_previous (fi_data i) = bh_previous (fi_data j)")
    case True
    with Suc.prems show ?thesis by auto
  next
    case False
    with Suc.prems(4) obtain p q us vs where p: "lock (fi_prev i) fd = Some p" "lock (fi_prev j) fd = Some q"
      "walk_both fuel fd p q = Inr (us, vs)" "xs = i # us" "ys = j # vs"
      by (auto simp: case_sum_Inr split: option.splits)
    note l = lock_item [OF assms(2) Suc.prems(1) p(1)] lock_num [OF assms Suc.prems(1) p(1)]
      and m = lock_item [OF assms(2) Suc.prems(2) p(2)] lock_num [OF assms Suc.prems(2) p(2)]
    note IH = Suc.IH [OF l(1) m(1) _ p(3)]
    have n: "fi_num p = fi_num q" using l(4) m(4) Suc.prems(3) by simp
    have ne: "us \<noteq> []" "vs \<noteq> []" "hd us = p" "hd vs = q" using IH [OF n] by auto
    have lk: "linked xs" "linked ys" using IH [OF n] l(3,4) m(3,4) p(4,5) ne by (cases us; cases vs; auto)+
    have "\<forall>x \<in> set us. fi_num x < fi_num i" "\<forall>y \<in> set vs. fi_num y < fi_num i"
      using IH [OF n] ne l(4) by (metis le_imp_less_Suc list.set_sel(1))+
    then have "\<forall>x \<in> set xs. \<forall>y \<in> set ys. fi_num x \<le> fi_num i \<and> fi_num y \<le> fi_num i \<and>
        (fi_num x = fi_num y \<and> bh_previous (fi_data x) = bh_previous (fi_data y) \<longrightarrow> x = last xs \<and> y = last ys)"
      using IH [OF n] ne Suc.prems(3) False unfolding p(4,5) by (auto simp: less_imp_le)
    then show ?thesis using lk IH [OF n] ne p(4,5) by simp
  qed
qed simp

text \<open>Blocks with one predecessor have one number.\<close>

lemma previous_num:
  "forks_ok env fd \<Longrightarrow> x \<in> set (live_items fd) \<Longrightarrow> y \<in> set (live_items fd) \<Longrightarrow>
     bh_previous (fi_data x) = bh_previous (fi_data y) \<Longrightarrow> fi_num x = fi_num y"
  by (auto simp: forks_ok_def item_ok_def block_num_def)

lemma walk_down_live:
  assumes "forks_ok env fd"
  shows "i \<in> set (live_items fd) \<Longrightarrow> walk_down fuel fd num i = Inr (xs, j) \<Longrightarrow> set xs \<subseteq> set (live_items fd)"
proof (induction fuel arbitrary: i xs)
  case (Suc fuel)
  show ?case
  proof (cases "fi_num i > num")
    case True
    with Suc.prems(2) obtain p ys where p: "lock (fi_prev i) fd = Some p" "walk_down fuel fd num p = Inr (ys, j)" "xs = i # ys"
      by (auto simp: case_sum_Inr split: option.splits)
    with Suc lock_item(1) [OF assms Suc.prems(1) p(1)] show ?thesis by auto
  qed (use Suc.prems in auto)
qed simp

lemma walk_both_live:
  assumes "forks_ok env fd"
  shows "i \<in> set (live_items fd) \<Longrightarrow> j \<in> set (live_items fd) \<Longrightarrow> walk_both fuel fd i j = Inr (xs, ys) \<Longrightarrow>
    set xs \<union> set ys \<subseteq> set (live_items fd)"
proof (induction fuel arbitrary: i j xs ys)
  case (Suc fuel)
  show ?case
  proof (cases "bh_previous (fi_data i) = bh_previous (fi_data j)")
    case False
    with Suc.prems(3) obtain p q us vs where p: "lock (fi_prev i) fd = Some p" "lock (fi_prev j) fd = Some q"
      "walk_both fuel fd p q = Inr (us, vs)" "xs = i # us" "ys = j # vs"
      by (auto simp: case_sum_Inr split: option.splits)
    with Suc lock_item(1) [OF assms Suc.prems(1) p(1)] lock_item(1) [OF assms Suc.prems(2) p(2)] show ?thesis by auto
  qed (use Suc.prems in auto)
qed simp

text \<open>
  The branches that lead from two blocks of the database end in blocks with the same
  predecessor, each block of a branch is followed by its own predecessor, and the branches have no
  predecessor in common but that last one: what is returned is the fork, no more and no less.
\<close>

lemma branch_is_fork:
  assumes "block_env_ok env" and "forks_ok env fd" and "fetch_branch_from first second fd = Inr (xs, ys)"
  shows "xs \<noteq> [] \<and> ys \<noteq> [] \<and> fi_id (hd xs) = first \<and> fi_id (hd ys) = second \<and> linked xs \<and> linked ys \<and>
    bh_previous (fi_data (last xs)) = bh_previous (fi_data (last ys)) \<and>
    (\<forall>x \<in> set xs. \<forall>y \<in> set ys. bh_previous (fi_data x) = bh_previous (fi_data y) \<longrightarrow> x = last xs \<and> y = last ys)"
proof -
  from assms(3) obtain i j us i' vs j' us' vs' where i: "find_row fi_id first (fd_index fd) = Some i"
    and j: "find_row fi_id second (fd_index fd) = Some j"
    and u: "walk_down (fi_addr i + 1) fd (fi_num j) i = Inr (us, i')" and v: "walk_down (fi_addr j + 1) fd (fi_num i') j = Inr (vs, j')"
    and b: "walk_both (fi_addr i' + 1) fd i' j' = Inr (us', vs')" and xs: "xs = us @ us'" and ys: "ys = vs @ vs'"
    unfolding fetch_branch_from_def by (auto simp: case_sum_Inr case_option_Inr simp del: walk_down.simps walk_both.simps)
  have li: "i \<in> set (live_items fd)" "j \<in> set (live_items fd)"
    using find_row_set [OF i] find_row_set [OF j] by (auto simp: live_index)
  note U = walk_down_sound [OF assms(1,2) li(1) u] and V = walk_down_sound [OF assms(1,2) li(2) v]
  have "fi_num i' = fi_num j'" using U V by simp
  note B = walk_both_sound [OF assms(1,2) _ _ this b]
  have lj: "i' \<in> set (live_items fd)" "j' \<in> set (live_items fd)" using U V by auto
  note B = B [OF lj]
  obtain ui uv where c: "us' = i' # ui" "vs' = j' # uv" using B by (cases us'; cases vs') auto
  have "linked xs" "linked ys" using U V B linked_append unfolding xs ys c by auto
  moreover have "fi_id (hd xs) = first" "fi_id (hd ys) = second"
    using U V find_row_key [OF i] find_row_key [OF j] unfolding xs ys c by (cases us; cases vs; auto)+
  moreover have "last xs = last us'" "last ys = last vs'" using xs ys c by simp_all
  moreover have "x = last us' \<and> y = last vs'" if x: "x \<in> set xs" and y: "y \<in> set ys" and e: "bh_previous (fi_data x) = bh_previous (fi_data y)" for x y
  proof -
    have "x \<in> set (live_items fd)" "y \<in> set (live_items fd)"
      using x y xs ys walk_down_live [OF assms(2) li(1) u] walk_down_live [OF assms(2) li(2) v] walk_both_live [OF assms(2) lj b] by auto
    then have n: "fi_num x = fi_num y" using previous_num [OF assms(2)] e by blast
    have "fi_num i' \<le> fi_num j" using U by simp
    moreover have "\<forall>z \<in> set vs'. fi_num z \<le> fi_num i'" "\<forall>z \<in> set us'. fi_num z \<le> fi_num i'" using B c by auto
    moreover have "\<forall>z \<in> set vs. fi_num i' < fi_num z \<and> fi_num z \<le> fi_num j" "\<forall>z \<in> set us. fi_num j < fi_num z" using U V by auto
    ultimately have "x \<in> set us'" "y \<in> set vs'" using x y n unfolding xs ys by fastforce+
    then show ?thesis using B n e by blast
  qed
  ultimately show ?thesis using B c xs ys by simp
qed

text \<open>The walks end: the address of an item bounds the steps from it.\<close>

lemma walk_both_succeeds:
  assumes "forks_ok env fd"
  shows "i \<in> set (live_items fd) \<Longrightarrow> j \<in> set (live_items fd) \<Longrightarrow> fi_addr i < fuel \<Longrightarrow> walk_both fuel fd i j \<noteq> Inl Recursion_limit"
proof (induction fuel arbitrary: i j)
  case (Suc fuel)
  show ?case
  proof (cases "lock (fi_prev i) fd")
    case i: (Some p)
    show ?thesis
    proof (cases "lock (fi_prev j) fd")
      case (Some q)
      with i Suc lock_item [OF assms Suc.prems(1) i] lock_item [OF assms Suc.prems(2) Some]
      have "walk_both fuel fd p q \<noteq> Inl Recursion_limit" by simp
      with Some i show ?thesis by (auto split: sum.splits)
    qed (simp add: i)
  qed simp
qed simp

lemma fetch_branch_from_ends:
  assumes "block_env_ok env" and "forks_ok env fd"
  shows "fetch_branch_from first second fd \<noteq> Inl Recursion_limit"
proof (cases "find_row fi_id first (fd_index fd)")
  case i: (Some i)
  show ?thesis
  proof (cases "find_row fi_id second (fd_index fd)")
    case (Some j)
    have li: "i \<in> set (live_items fd)" "j \<in> set (live_items fd)"
      using find_row_set [OF i] find_row_set [OF Some] by (auto simp: live_index)
    have "walk_down (fi_addr i + 1) fd (fi_num j) i \<noteq> Inl Recursion_limit"
      "walk_down (fi_addr j + 1) fd num j \<noteq> Inl Recursion_limit" for num
      using walk_down_succeeds [OF assms(2) li(1)] walk_down_succeeds [OF assms(2) li(2)] by (simp_all del: walk_down.simps)
    moreover have "\<forall>us i' vs j'. walk_down (fi_addr i + 1) fd (fi_num j) i = Inr (us, i') \<longrightarrow>
        walk_down (fi_addr j + 1) fd (fi_num i') j = Inr (vs, j') \<longrightarrow> walk_both (fi_addr i' + 1) fd i' j' \<noteq> Inl Recursion_limit"
      using walk_down_sound [OF assms li(1)] walk_down_sound [OF assms li(2)]
      by (intro allI impI walk_both_succeeds [OF assms(2)]) (blast, blast, simp)
    ultimately show ?thesis
      unfolding fetch_branch_from_def i Some option.case
      by (auto simp del: walk_down.simps walk_both.simps split: sum.splits)
  qed (simp add: fetch_branch_from_def i)
qed (simp add: fetch_branch_from_def)

section \<open>Operations keep the tree\<close>

text \<open>What is removed from the index may die, what is left stays as it is.\<close>

lemma item_ok_shrink:
  "item_ok env fd i \<Longrightarrow> set (live_items fd') \<subseteq> set (live_items fd) \<Longrightarrow> fd_next_addr fd' = fd_next_addr fd \<Longrightarrow> item_ok env fd' i"
  by (auto simp: item_ok_def)

lemma forks_ok_shrink:
  assumes "forks_ok env fd" and "set (fd_index fd') \<subseteq> set (fd_index fd)" and "unique_keys fi_id (fd_index fd')" and "unique_keys fi_addr (fd_index fd')"
    and "fd_head fd' = fd_head fd \<or> (\<exists>h \<in> set (live_items fd). fd_head fd' = Some h)"
    and "fd_unlinked_index fd' = []" and "fd_next_addr fd' = fd_next_addr fd"
  shows "forks_ok env fd'"
proof -
  have l: "set (live_items fd') \<subseteq> set (live_items fd)"
    using assms by (auto simp: live_items_def forks_ok_def split: option.splits)
  have addr: "i = h" if "i \<in> set (fd_index fd)" "h \<in> set (live_items fd)" "fi_addr i = fi_addr h" for i h
  proof -
    have "h \<in> set (fd_index fd) \<or> fd_head fd = Some h" using assms(1) that(2) by (auto simp: live_items_def forks_ok_def split: option.splits)
    then show ?thesis using assms(1) that by (auto simp: forks_ok_def unique_keys_def distinct_map dest: inj_onD)
  qed
  have "\<forall>h. fd_head fd' = Some h \<longrightarrow> (\<forall>i \<in> set (fd_index fd'). fi_addr i = fi_addr h \<longrightarrow> i = h)"
  proof (intro allI impI ballI)
    fix h i
    assume h: "fd_head fd' = Some h" and i: "i \<in> set (fd_index fd')" and a: "fi_addr i = fi_addr h"
    have "h \<in> set (live_items fd)" using l live_head [OF h] by blast
    then show "i = h" using addr [OF _ _ a] i assms(2) by blast
  qed
  moreover have "\<forall>i \<in> set (live_items fd'). item_ok env fd' i"
    using assms(1) l item_ok_shrink [OF _ l assms(7)] by (auto simp: forks_ok_def)
  ultimately show ?thesis using assms by (simp add: forks_ok_def)
qed

lemma unique_keys_filter: "unique_keys k xs \<Longrightarrow> unique_keys k (filter P xs)"
  by (simp add: unique_keys_def distinct_map_filter)

lemma pop_fork_block_ok: "forks_ok env fd \<Longrightarrow> pop_fork_block fd = Inr fd' \<Longrightarrow> forks_ok env fd'"
proof -
  assume ok: "forks_ok env fd" and "pop_fork_block fd = Inr fd'"
  then obtain h p where h: "fd_head fd = Some h" "lock (fi_prev h) fd = Some p" "fd' = fd\<lparr>fd_head := Some p\<rparr>"
    by (auto simp: pop_fork_block_def case_option_Inr)
  then have "p \<in> set (live_items fd)" using lock_item(1) [OF ok live_head] by blast
  then show ?thesis using ok h by (intro forks_ok_shrink [OF ok]) (auto simp: forks_ok_def)
qed

lemma set_max_size_ok: assumes "forks_ok env fd" shows "forks_ok env (set_max_size s fd)"
  by (rule forks_ok_shrink [OF assms]) (use assms in \<open>auto simp: set_max_size_def Let_def forks_ok_def unique_keys_filter split: option.splits\<close>)

lemma remove_fork_block_ok: assumes "forks_ok env fd" shows "forks_ok env (remove_fork_block i fd)"
  by (rule forks_ok_shrink [OF assms]) (use assms in \<open>auto simp: remove_fork_block_def remove_row_def forks_ok_def unique_keys_filter\<close>)

lemma set_fork_head_ok: assumes "forks_ok env fd" and "h \<in> set (live_items fd)" shows "forks_ok env (set_fork_head h fd)"
  by (rule forks_ok_shrink [OF assms(1)]) (use assms in \<open>auto simp: set_fork_head_def forks_ok_def\<close>)

lemma reset_forks_ok: "forks_ok env fd \<Longrightarrow> forks_ok env (reset_forks fd)"
  by (auto simp: forks_ok_def reset_forks_def live_items_def unique_keys_def)

text \<open>A new item has a new address; its predecessor, if it has one, is in the index.\<close>

lemma forks_ok_grow:
  assumes "forks_ok env fd" and "fi_addr i = fd_next_addr fd" and "fi_num i = unat (block_num env (fi_data i))" and "0 < fi_num i"
    and "fi_id i = block_id env (fi_data i)" and "\<not> fi_invalid i"
    and "\<forall>a. fi_prev i = Some a \<longrightarrow> (\<exists>p \<in> set (fd_index fd). fi_addr p = a \<and> fi_id p = bh_previous (fi_data i))"
    and "fd_index fd' = fd_index (insert_item i fd)" and "fd_head fd' = fd_head fd \<or> fd_head fd' = Some i"
    and "fd_unlinked_index fd' = fd_unlinked_index fd" and "fd_next_addr fd' = fd_next_addr fd + 1"
  shows "forks_ok env fd'"
proof -
  have lt: "\<forall>j \<in> set (live_items fd). fi_addr j < fi_addr i" using assms(1,2) by (auto simp: forks_ok_def item_ok_def)
  have idx: "set (fd_index fd') \<subseteq> insert i (set (fd_index fd))" using assms(8) by (auto simp: insert_item_def split: if_splits)
  have l: "set (live_items fd') \<subseteq> insert i (set (live_items fd))"
    using idx assms(9,10) by (auto simp: live_items_def split: option.splits)
  have "unique_keys fi_id (fd_index fd')" "unique_keys fi_addr (fd_index fd')"
    using assms(1,8) lt by (auto simp: insert_item_def forks_ok_def unique_keys_def find_row_None live_index split: if_splits)
  moreover have "\<forall>h. fd_head fd' = Some h \<longrightarrow> (\<forall>j \<in> set (fd_index fd'). fi_addr j = fi_addr h \<longrightarrow> j = h)"
    using idx assms(1,9) lt live_head live_index by (fastforce simp: forks_ok_def)
  moreover have "item_ok env fd' j" if "j \<in> set (live_items fd')" for j
  proof (cases "j = i")
    case True
    have "a < fi_addr i \<and> (\<forall>q \<in> set (live_items fd'). fi_addr q = a \<longrightarrow> fi_id q = bh_previous (fi_data i))" if a: "fi_prev i = Some a" for a
    proof -
      obtain p where p: "p \<in> set (fd_index fd)" "fi_addr p = a" "fi_id p = bh_previous (fi_data i)" using assms(7) a by blast
      have "q = p" if "q \<in> set (live_items fd)" "fi_addr q = a" for q
      proof -
        have "q \<in> set (fd_index fd) \<or> fd_head fd = Some q" using assms(1) that(1) by (auto simp: live_items_def forks_ok_def split: option.splits)
        then show ?thesis using assms(1) p that by (auto simp: forks_ok_def unique_keys_def distinct_map dest: inj_onD)
      qed
      then show ?thesis using p lt l live_index by fastforce
    qed
    then show ?thesis using True assms(2-6,11) by (auto simp: item_ok_def)
  next
    case False
    then have "item_ok env fd j" using that l assms(1) by (auto simp: forks_ok_def)
    then show ?thesis using lt l assms(2,11) by (fastforce simp: item_ok_def)
  qed
  ultimately show ?thesis using assms(1,10) by (simp add: forks_ok_def)
qed

section \<open>Refinement of a block tree\<close>

text \<open>
  What the pointers and indices implement: a set of blocks by id with a best block.  A block joins the
  tree when it is not too old and its predecessor is known, and becomes the best one when it is higher.
\<close>

record block_tree =
  bt_blocks :: "block_id_type \<Rightarrow> signed_block option"
  bt_best :: "signed_block option"
  bt_depth :: nat

definition tree_add :: "block_env \<Rightarrow> signed_block \<Rightarrow> block_tree \<Rightarrow> block_tree" where
  "tree_add env b t = (if bt_blocks t (block_id env b) = None then t\<lparr>bt_blocks := (bt_blocks t)(block_id env b \<mapsto> b)\<rparr> else t)"

definition tree_push :: "block_env \<Rightarrow> signed_block \<Rightarrow> block_tree \<Rightarrow> block_tree result" where
  "tree_push env b t =
     (case bt_best t of None \<Rightarrow> Inr ((tree_add env b t)\<lparr>bt_best := Some b\<rparr>)
      | Some h \<Rightarrow>
      if uint (block_num env b) \<le> max 0 (uint (block_num env h) - int (bt_depth t))
      then Inl (FC_Assert ''attempting to push a block that is too old'')
      else if bh_previous b \<noteq> zero_id \<and> bt_blocks t (bh_previous b) = None then Inl Unlinkable_block
      else Inr ((tree_add env b t)\<lparr>bt_best := Some (if block_num env b > block_num env h then b else h)\<rparr>))"

definition tree_of :: "fork_database \<Rightarrow> block_tree" where
  "tree_of fd = \<lparr>bt_blocks = (\<lambda>i. map_option fi_data (find_row fi_id i (fd_index fd))),
     bt_best = map_option fi_data (fd_head fd), bt_depth = fd_max_size fd\<rparr>"

lemma tree_of_insert: "fi_id i = block_id env (fi_data i) \<Longrightarrow> tree_of (insert_item i fd) = tree_add env (fi_data i) (tree_of fd)"
  by (auto simp: tree_of_def insert_item_def tree_add_def find_row_append fun_eq_iff split: option.splits)

lemma tree_of_simps [simp]:
  "tree_of (fd\<lparr>fd_next_addr := n\<rparr>) = tree_of fd"
  "tree_of (fd\<lparr>fd_head := Some h\<rparr>) = (tree_of fd)\<lparr>bt_best := Some (fi_data h)\<rparr>"
  "bt_best (tree_of fd) = map_option fi_data (fd_head fd)"
  "bt_best (tree_add env b t) = bt_best t"
  by (simp_all add: tree_of_def tree_add_def)

lemma insert_item_simps [simp]:
  "fd_head (insert_item i fd) = fd_head fd" "fd_unlinked_index (insert_item i fd) = fd_unlinked_index fd"
  by (simp_all add: insert_item_def)

lemma link_item_cases:
  assumes "forks_ok env fd" and "fi_prev i = None"
  obtains (refused) "link_item i fd = Inl Unlinkable_block" and "fd_head fd \<noteq> None" and "bh_previous (fi_data i) \<noteq> zero_id"
      and "bt_blocks (tree_of fd) (bh_previous (fi_data i)) = None"
    | (linked) p where "link_item i fd = Inr (i\<lparr>fi_prev := p\<rparr>)"
      and "fd_head fd = None \<or> bh_previous (fi_data i) = zero_id \<or> bt_blocks (tree_of fd) (bh_previous (fi_data i)) \<noteq> None"
      and "p = None \<or> (\<exists>q \<in> set (fd_index fd). p = Some (fi_addr q) \<and> fi_id q = bh_previous (fi_data i))"
proof (cases "fd_head fd \<noteq> None \<and> bh_previous (fi_data i) \<noteq> zero_id")
  case False
  then have "link_item i fd = Inr (i\<lparr>fi_prev := None\<rparr>)" using assms(2) by (auto simp: link_item_def)
  then show ?thesis using False by (intro linked) auto
next
  case True
  show ?thesis
  proof (cases "find_row fi_id (bh_previous (fi_data i)) (fd_index fd)")
    case None
    with True show ?thesis by (intro refused) (simp_all add: link_item_def tree_of_def)
  next
    case (Some q)
    have q: "q \<in> set (fd_index fd)" "fi_id q = bh_previous (fi_data i)" using find_row_set [OF Some] find_row_key [OF Some] by simp_all
    then have "\<not> fi_invalid q" using assms(1) live_index by (fastforce simp: forks_ok_def item_ok_def)
    with True Some have "link_item i fd = Inr (i\<lparr>fi_prev := Some (fi_addr q)\<rparr>)" by (simp add: link_item_def)
    moreover have "bt_blocks (tree_of fd) (bh_previous (fi_data i)) \<noteq> None" using Some by (simp add: tree_of_def)
    ultimately show ?thesis using q by (intro linked) auto
  qed
qed

text \<open>Pushing a block is the push of the tree, and keeps pointers and indices in order.\<close>

lemma push_fork_block_tree:
  assumes "forks_ok env fd" and "block_num env b \<noteq> 0"
  shows "case push_fork_block env b fd of Inl e \<Rightarrow> tree_push env b (tree_of fd) = Inl e
    | Inr (h, fd') \<Rightarrow> tree_push env b (tree_of fd) = Inr (tree_of fd') \<and> map_option fi_data h = bt_best (tree_of fd') \<and> forks_ok env fd'"
proof -
  let ?i = "make_item env b fd"
  have i: "fi_data ?i = b" "fi_id ?i = block_id env b" "fi_num ?i = unat (block_num env b)" "fi_prev ?i = None"
    "fi_addr ?i = fd_next_addr fd" "\<not> fi_invalid ?i" by (simp_all add: make_item_def)
  have pos: "0 < fi_num ?i" using assms(2) i(3) by (simp add: unat_gt_0)
  have num: "fi_num h = unat (block_num env (fi_data h))" if "fd_head fd = Some h" for h
    using assms(1) live_head [OF that] by (simp add: forks_ok_def item_ok_def)
  have old: "int (fi_num ?i) > oldest_num h fd \<longleftrightarrow> \<not> uint (block_num env b) \<le> max 0 (uint (block_num env (fi_data h)) - int (bt_depth (tree_of fd)))"
    if "fd_head fd = Some h" for h
    unfolding oldest_num_def i num [OF that] by (simp add: tree_of_def not_le)
  have grow: "forks_ok env fd'" if "p = None \<or> (\<exists>q \<in> set (fd_index fd). p = Some (fi_addr q) \<and> fi_id q = bh_previous b)"
    "fd_index fd' = fd_index (insert_item (?i\<lparr>fi_prev := p\<rparr>) fd)" "fd_head fd' = fd_head fd \<or> fd_head fd' = Some (?i\<lparr>fi_prev := p\<rparr>)"
    "fd_unlinked_index fd' = fd_unlinked_index fd" "fd_next_addr fd' = fd_next_addr fd + 1" for p fd'
    using that pos by (intro forks_ok_grow [OF assms(1), of "?i\<lparr>fi_prev := p\<rparr>"]) (auto simp: i)
  have tree: "tree_of (insert_item (?i\<lparr>fi_prev := p\<rparr>) fd) = tree_add env b (tree_of fd)" for p
    using tree_of_insert [of "?i\<lparr>fi_prev := p\<rparr>" env fd] by (simp add: i)
  show ?thesis using assms(1) i(4)
  proof (cases rule: link_item_cases)
    case refused
    note refused = refused [unfolded i]
    then obtain h where h: "fd_head fd = Some h" by auto
    with refused old [OF h] show ?thesis
      by (cases "int (fi_num ?i) > oldest_num h fd") (simp_all add: push_fork_block_def push_fork_item_def tree_push_def fc_assert_def)
  next
    case (linked p)
    note linked = linked [unfolded i]
    show ?thesis
    proof (cases "fd_head fd")
      case None
      with linked grow [OF linked(3)] show ?thesis
        by (simp add: push_fork_block_def push_fork_item_def tree_push_def tree i)
    next
      case (Some h)
      have "(unat (block_num env b) > fi_num h) = (block_num env b > block_num env (fi_data h))"
        using num [OF Some] by (simp add: word_less_nat_alt)
      with Some linked old [OF Some] grow [OF linked(3)] show ?thesis
        by (cases "int (fi_num ?i) > oldest_num h fd")
          (auto simp: push_fork_block_def push_fork_item_def tree_push_def tree i fc_assert_def)
    qed
  qed
qed

text \<open>Every operation keeps the tree, so that it is one after any sequence of them.\<close>

datatype fork_event = Push signed_block | Start signed_block | Pop | Resize nat | Remove block_id_type | Reset

definition fork_step :: "block_env \<Rightarrow> fork_event \<Rightarrow> fork_database \<Rightarrow> fork_database" where
  "fork_step env e fd =
     (case e of Push b \<Rightarrow> (case push_fork_block env b fd of Inl _ \<Rightarrow> fd | Inr (_, fd') \<Rightarrow> fd')
      | Start b \<Rightarrow> start_block env b fd
      | Pop \<Rightarrow> (case pop_fork_block fd of Inl _ \<Rightarrow> fd | Inr fd' \<Rightarrow> fd')
      | Resize s \<Rightarrow> set_max_size s fd | Remove i \<Rightarrow> remove_fork_block i fd | Reset \<Rightarrow> reset_forks fd)"

definition numbered :: "block_env \<Rightarrow> fork_event \<Rightarrow> bool" where
  "numbered env e = (case e of Push b \<Rightarrow> block_num env b \<noteq> 0 | Start b \<Rightarrow> block_num env b \<noteq> 0 | _ \<Rightarrow> True)"

lemma start_block_ok: "forks_ok env fd \<Longrightarrow> block_num env b \<noteq> 0 \<Longrightarrow> forks_ok env (start_block env b fd)"
  by (rule forks_ok_grow [where i = "make_item env b fd"])
    (auto simp: start_block_def make_item_def Let_def unat_gt_0 insert_item_def)

lemma push_fork_block_ok:
  "forks_ok env fd \<Longrightarrow> block_num env b \<noteq> 0 \<Longrightarrow> push_fork_block env b fd = Inr (h, fd') \<Longrightarrow> forks_ok env fd'"
  using push_fork_block_tree [of env fd b] by simp

lemma fork_step_ok: "forks_ok env fd \<Longrightarrow> numbered env e \<Longrightarrow> forks_ok env (fork_step env e fd)"
  by (auto simp: fork_step_def numbered_def start_block_ok set_max_size_ok remove_fork_block_ok reset_forks_ok
      intro: push_fork_block_ok pop_fork_block_ok split: fork_event.splits sum.splits)

definition after_events :: "block_env \<Rightarrow> fork_event list \<Rightarrow> fork_database" where
  "after_events env es = fold (fork_step env) es empty_fork_database"

lemma after_events_ok: "\<forall>e \<in> set es. numbered env e \<Longrightarrow> forks_ok env (after_events env es)"
proof -
  have "\<forall>e \<in> set es. numbered env e \<Longrightarrow> forks_ok env fd \<Longrightarrow> forks_ok env (fold (fork_step env) es fd)" for fd
    by (induction es arbitrary: fd) (auto simp: fork_step_ok)
  moreover have "forks_ok env empty_fork_database"
    by (simp add: forks_ok_def empty_fork_database_def live_items_def unique_keys_def)
  ultimately show "\<forall>e \<in> set es. numbered env e \<Longrightarrow> forks_ok env (after_events env es)" by (simp add: after_events_def)
qed


text \<open>
  C38: whatever happened to the fork database, the branches it returns for two blocks are a fork: each
  block is followed by its own predecessor, the last two blocks have the same predecessor, and no other two
  blocks of the branches do; and the walk always ends.
\<close>

theorem fetch_branch_from_is_fork:
  assumes "block_env_ok env" and "\<forall>e \<in> set es. numbered env e" and "fd = after_events env es"
  shows "fetch_branch_from first second fd \<noteq> Inl Recursion_limit \<and>
    (\<forall>xs ys. fetch_branch_from first second fd = Inr (xs, ys) \<longrightarrow>
      xs \<noteq> [] \<and> ys \<noteq> [] \<and> fi_id (hd xs) = first \<and> fi_id (hd ys) = second \<and> linked xs \<and> linked ys \<and>
      bh_previous (fi_data (last xs)) = bh_previous (fi_data (last ys)) \<and>
      (\<forall>x \<in> set xs. \<forall>y \<in> set ys. bh_previous (fi_data x) = bh_previous (fi_data y) \<longrightarrow> x = last xs \<and> y = last ys))"
proof -
  have ok: "forks_ok env fd" using after_events_ok [OF assms(2)] assms(3) by simp
  show ?thesis using fetch_branch_from_ends [OF assms(1) ok] branch_is_fork [OF assms(1) ok] by blast
qed

text \<open>Two blocks on one predecessor.\<close>

definition sample_fork_events :: "fork_event list" where
  "sample_fork_events = [Push (sample_block zero_id 3), Push (sample_block (block_id sample_block_env (sample_block zero_id 3)) 6),
     Push (sample_block (block_id sample_block_env (sample_block zero_id 3)) 9)]"

lemma sample_num: "block_num sample_block_env (sample_block zero_id t) = 1"
  "block_num sample_block_env (sample_block (block_id sample_block_env (sample_block zero_id 3)) t) = 2"
proof -
  show one: "block_num sample_block_env (sample_block zero_id t) = 1" for t
    by (simp add: block_num_def num_from_id_def sample_block_def zero_id_def sample_block_env_def byte_swap_def)
  then show "block_num sample_block_env (sample_block (block_id sample_block_env (sample_block zero_id 3)) t) = 2"
    unfolding block_num_def [of sample_block_env "sample_block (block_id sample_block_env (sample_block zero_id 3)) t"]
    by (simp add: sample_block_def [of "block_id sample_block_env (sample_block zero_id 3)"] block_id_num [OF sample_block_env_ok])
qed

lemma sample_fork_numbered: "\<forall>e \<in> set sample_fork_events. numbered sample_block_env e"
  by (simp add: sample_fork_events_def numbered_def sample_num)


theorem fetch_branch_from_is_fork_witness:
  "\<exists>xs ys. fetch_branch_from (block_id sample_block_env (sample_block (block_id sample_block_env (sample_block zero_id 3)) 6))
       (block_id sample_block_env (sample_block (block_id sample_block_env (sample_block zero_id 3)) 9))
       (after_events sample_block_env sample_fork_events) = Inr (xs, ys) \<and>
     bh_previous (fi_data (last xs)) = bh_previous (fi_data (last ys))"
proof -
  have "\<not> isl (fetch_branch_from (block_id sample_block_env (sample_block (block_id sample_block_env (sample_block zero_id 3)) 6))
       (block_id sample_block_env (sample_block (block_id sample_block_env (sample_block zero_id 3)) 9))
       (after_events sample_block_env sample_fork_events))" (is "\<not> isl ?r") by code_simp
  then obtain xs ys where r: "?r = Inr (xs, ys)" by (cases ?r) auto
  from fetch_branch_from_is_fork [OF sample_block_env_ok sample_fork_numbered refl] r show ?thesis by blast
qed

end
