(* ===== verification/Block_Updates.thy ===== *)
theory Block_Updates
  imports Witness_Schedule Fork_Database Subscriptions Account_Sales
begin

text \<open>
  What a block does to the chain besides its transactions: the emission of tokens, the record of missed
  and filled slots, the signing witness, the last irreversible block with the block log, the block
  post validation and the bandwidth of accounts (\<open>chain/database.cpp\<close>).
\<close>

section \<open>Emission\<close>

definition process_inflation_recalc :: "database \<Rightarrow> database" where
  "process_inflation_recalc db =
     (let p = db_dgp db
      in if u32 (inflation_calc_block_num p + inflation_recalc_period (median_props db)) < head_block_number p
         then db\<lparr>db_dgp := p\<lparr>inflation_calc_block_num := head_block_number p,
                dgp_inflation_witness_percent := inflation_witness_percent (median_props db),
                inflation_ratio := inflation_ratio_committee_vs_reward_fund (median_props db)\<rparr>\<rparr>
         else db)"

text \<open>The parts of an emission: vesting fund, committee fund, reward fund and signing witness.\<close>

record emission =
  em_vesting :: int
  em_committee :: int
  em_reward :: int
  em_witness :: int

definition emitted :: "emission \<Rightarrow> int" where
  "emitted e = em_vesting e + em_committee e + em_reward e + em_witness e"

definition consensus_emission :: "int \<Rightarrow> dynamic_global_property_object \<Rightarrow> emission" where
  "consensus_emission per_block p =
     (let witness_reward = (per_block * dgp_inflation_witness_percent p) sdiv CHAIN_100_PERCENT;
          ratio_reward = per_block - witness_reward;
          committee_part = (ratio_reward * inflation_ratio p) sdiv CHAIN_100_PERCENT
      in \<lparr>em_vesting = 0, em_committee = committee_part, em_reward = ratio_reward - committee_part, em_witness = witness_reward\<rparr>)"

definition fixed_emission :: "int \<Rightarrow> emission" where
  "fixed_emission per_block =
     (let content_reward = (per_block * CHAIN_REWARD_FUND_PERCENT) sdiv CHAIN_100_PERCENT;
          vesting_reward = (per_block * CHAIN_VESTING_FUND_PERCENT) sdiv CHAIN_100_PERCENT;
          committee_reward = (per_block * CHAIN_COMMITTEE_FUND_PERCENT) sdiv CHAIN_100_PERCENT
      in \<lparr>em_vesting = vesting_reward, em_committee = committee_reward, em_reward = content_reward,
          em_witness = per_block - content_reward - vesting_reward - committee_reward\<rparr>)"

fun compound :: "nat \<Rightarrow> int \<Rightarrow> int \<Rightarrow> int" where
  "compound 0 new_supply per_year = per_year"
| "compound (Suc circles) new_supply per_year =
     (let y = (new_supply * CHAIN_FIXED_INFLATION) sdiv CHAIN_100_PERCENT in compound circles (new_supply + y) y)"

definition inflation_per_block :: "int \<Rightarrow> int" where
  "inflation_per_block head =
     (let per_year = CHAIN_FIXED_INFLATION * CHAIN_INIT_SUPPLY sdiv CHAIN_100_PERCENT
      in compound (nat (head div CHAIN_BLOCKS_PER_YEAR)) (CHAIN_INIT_SUPPLY + per_year) per_year sdiv CHAIN_BLOCKS_PER_YEAR)"

definition block_emission :: "database \<Rightarrow> emission" where
  "block_emission db =
     (if has_hardfork 11 db then consensus_emission CHAIN_DIGITAL_ASSET_ISSUED_PER_BLOCK (db_dgp db)
      else if has_hardfork 4 db then consensus_emission (inflation_per_block (head_block_num db)) (db_dgp db)
      else fixed_emission (inflation_per_block (head_block_num db)))"

definition add_emission :: "emission \<Rightarrow> dynamic_global_property_object \<Rightarrow> dynamic_global_property_object result" where
  "add_emission e p =
     (case add_field total_vesting_fund total_vesting_fund_update (mk_asset (em_vesting e) TOKEN_SYMBOL) p of Inl x \<Rightarrow> Inl x
      | Inr p1 \<Rightarrow>
      case add_field committee_fund committee_fund_update (mk_asset (em_committee e) TOKEN_SYMBOL) p1 of Inl x \<Rightarrow> Inl x
      | Inr p2 \<Rightarrow>
      case add_field total_reward_fund total_reward_fund_update (mk_asset (em_reward e) TOKEN_SYMBOL) p2 of Inl x \<Rightarrow> Inl x
      | Inr p3 \<Rightarrow> add_field current_supply current_supply_update (mk_asset (emitted e) TOKEN_SYMBOL) p3)"

definition process_funds :: "database \<Rightarrow> database result" where
  "process_funds db =
     (let e = block_emission db
      in case modify_dgp (add_emission e) db of Inl x \<Rightarrow> Inl x
      | Inr db1 \<Rightarrow>
      case get_witness (current_witness (db_dgp db1)) db1 of Inl x \<Rightarrow> Inl x
      | Inr cwit \<Rightarrow>
      case get_account (w_owner cwit) db1 of Inl x \<Rightarrow> Inl x
      | Inr _ \<Rightarrow>
      case create_vesting (w_owner cwit) (mk_asset (em_witness e) TOKEN_SYMBOL) db1 of Inl x \<Rightarrow> Inl x
      | Inr (_, db2) \<Rightarrow> Inr db2)"

section \<open>Slots\<close>

text \<open>The witness of a missed slot; one that signs the next block is spared the penalty.\<close>

definition penalise :: "database \<Rightarrow> witness_object \<Rightarrow> witness_object" where
  "penalise db w =
     (let w1 = w\<lparr>w_total_missed := u32 (w_total_missed w + 1)\<rparr>;
          w2 = (if has_hardfork 6 db then
                  let x = w1\<lparr>w_penalty_percent := u32 (w_penalty_percent w1 + witness_miss_penalty_percent (median_props db))\<rparr>
                  in x\<lparr>w_counted_votes := penalised_votes x\<rparr>
                else w1)
      in if u64 (head_block_num db - w_last_confirmed_block_num w2) > CHAIN_MAX_WITNESS_MISSED_BLOCKS
         then w2\<lparr>w_signing_key := []\<rparr> else w2)"

definition miss_slot :: "signed_block \<Rightarrow> nat \<Rightarrow> database \<Rightarrow> database result" where
  "miss_slot b i db =
     (case get_witness (get_scheduled_witness (int i + 1) db) db of Inl e \<Rightarrow> Inl e
      | Inr w \<Rightarrow>
        if w_owner w \<noteq> bh_witness b then
          let db1 = set_witness (w_owner w) (\<lambda>wo. penalise db (wo\<lparr>w_current_run := 0\<rparr>)) db
          in Inr (if has_hardfork 6 db then db1\<lparr>db_penalties := db_penalties db1 @
                      [\<lparr>wpe_witness = w_owner w, wpe_penalty_percent = witness_miss_penalty_percent (median_props db),
                        wpe_expires = head_block_time db + witness_miss_penalty_duration (median_props db)\<rparr>]\<rparr>
                  else db1)
        else Inr (set_witness (w_owner w) (\<lambda>wo. wo\<lparr>w_current_run := 0\<rparr>) db))"

definition missed_blocks :: "signed_block \<Rightarrow> database \<Rightarrow> nat" where
  "missed_blocks b db = (if head_block_time db \<noteq> 0 then nat (u32 (get_slot_at_time (bh_timestamp b) db - 1)) else 0)"

definition fill_slot :: "bool \<Rightarrow> 128 word \<times> int \<Rightarrow> 128 word \<times> int" where
  "fill_slot signed' x = (case x of (recent, filled) \<Rightarrow>
     (push_bit 1 recent + (if signed' then 1 else 0),
      ((filled - (if bit recent 127 then 1 else 0)) mod 2 ^ 8 + (if signed' then 1 else 0)) mod 2 ^ 8))"

definition fill_slots :: "nat \<Rightarrow> 128 word \<times> int \<Rightarrow> 128 word \<times> int" where
  "fill_slots n x = fold (\<lambda>i. fill_slot (i = 0)) [0..<n] x"

definition adjust_reserve_ratio :: "dynamic_global_property_object \<Rightarrow> dynamic_global_property_object" where
  "adjust_reserve_ratio p =
     (if head_block_number p mod 20 = 0 then
        let r = (if average_block_size p > dgp_maximum_block_size p div 4 then current_reserve_ratio p div 2
                 else u64 (current_reserve_ratio p + 1));
            r1 = (if r > CHAIN_MAX_RESERVE_RATIO then CHAIN_MAX_RESERVE_RATIO else r)
        in p\<lparr>current_reserve_ratio := if r1 < CHAIN_MAX_RESERVE_RATIO div 10 then CHAIN_MAX_RESERVE_RATIO div 10 else r1\<rparr>
      else p)"

definition virtual_bandwidth :: "dynamic_global_property_object \<Rightarrow> int" where
  "virtual_bandwidth p =
     u64 (dgp_maximum_block_size p * current_reserve_ratio p * CHAIN_BANDWIDTH_PRECISION * CHAIN_BANDWIDTH_AVERAGE_WINDOW_SECONDS)
       div CHAIN_BLOCK_INTERVAL"

definition advance_dgp :: "block_env \<Rightarrow> signed_block \<Rightarrow> nat \<Rightarrow> dynamic_global_property_object \<Rightarrow> dynamic_global_property_object" where
  "advance_dgp env b missed p =
     (let passed = u32 (int missed + 1);
          (recent, filled) = fill_slots (nat passed) (recent_slots_filled p, participation_count p);
          p1 = adjust_reserve_ratio (p\<lparr>recent_slots_filled := recent, participation_count := filled,
                 head_block_number := uint (block_num env b), head_block_id := block_id env b, dgp_time := bh_timestamp b,
                 current_aslot := u64 (current_aslot p + passed),
                 average_block_size := u32 ((u32 (99 * average_block_size p) + block_pack_size env b) div 100)\<rparr>)
      in p1\<lparr>max_virtual_bandwidth := virtual_bandwidth p1\<rparr>)"

definition update_global_dynamic_data :: "block_env \<Rightarrow> bool \<Rightarrow> signed_block \<Rightarrow> database \<Rightarrow> database result" where
  "update_global_dynamic_data env skip_undo_history_check b db =
     (let missed = missed_blocks b db
      in case fold_result (miss_slot b) [0..<missed] db of Inl e \<Rightarrow> Inl e
      | Inr db1 \<Rightarrow>
        let p = advance_dgp env b missed (db_dgp db1)
        in if \<not> skip_undo_history_check \<and> \<not> u32 (head_block_number p - last_irreversible_block_num p) < CHAIN_MAX_UNDO_HISTORY
           then Inl Undo_database
           else Inr (db1\<lparr>db_dgp := p\<rparr>))"

definition update_signing_witness :: "block_env \<Rightarrow> account_name_type \<Rightarrow> signed_block \<Rightarrow> database \<Rightarrow> database" where
  "update_signing_witness env signing_witness b db =
     (let new_block_aslot = u64 (current_aslot (db_dgp db) + get_slot_at_time (bh_timestamp b) db)
      in set_witness signing_witness (\<lambda>w.
           let w1 = w\<lparr>w_last_aslot := new_block_aslot, w_last_confirmed_block_num := uint (block_num env b)\<rparr>;
               w2 = (if w_current_run w1 \<ge> CHAIN_IRREVERSIBLE_SUPPORT_MIN_RUN
                     then w1\<lparr>w_last_supported_block_num := w_last_confirmed_block_num w1\<rparr> else w1)
           in w2\<lparr>w_current_run := u64 (w_current_run w2 + 1)\<rparr>) db)"

section \<open>The last irreversible block\<close>

definition irreversible_offset :: "nat \<Rightarrow> nat" where
  "irreversible_offset n = nat ((CHAIN_100_PERCENT - CHAIN_IRREVERSIBLE_THRESHOLD) * int n div CHAIN_100_PERCENT)"

definition supported_block :: "witness_object list \<Rightarrow> int" where
  "supported_block ws = u32 (w_last_supported_block_num (sort_key w_last_supported_block_num ws ! irreversible_offset (length ws)))"

definition set_irreversible :: "int \<Rightarrow> database \<Rightarrow> database" where
  "set_irreversible n db = db\<lparr>db_dgp := (db_dgp db)\<lparr>last_irreversible_block_num := n, last_irreversible_block_id := zero_id,
     last_irreversible_block_ref_num := 0, last_irreversible_block_ref_prefix := 0\<rparr>\<rparr>"

text \<open>
  The block log holds the blocks from number one on.  It is written from the main branch of the fork
  database up to the last irreversible block; what has been written stays when the next block is missing.
\<close>

fun append_log :: "nat \<Rightarrow> fork_database \<Rightarrow> signed_block list \<Rightarrow> signed_block list \<times> unit result" where
  "append_log 0 fd log = (log, Inr ())"
| "append_log (Suc n) fd log =
     (case fetch_block_on_main_branch_by_number (length log + 1) fd of
        Inl e \<Rightarrow> (log, Inl e)
      | Inr None \<Rightarrow> (log, Inl (FC_Assert ''Current fork in the fork database does not contain the last_irreversible_block''))
      | Inr (Some i) \<Rightarrow> append_log n fd (log @ [fi_data i]))"

definition write_log :: "int \<Rightarrow> fork_database \<Rightarrow> signed_block list \<Rightarrow> signed_block list \<times> unit result" where
  "write_log lib fd log = append_log (nat lib - length log) fd log"

definition read_log :: "int \<Rightarrow> signed_block list \<Rightarrow> signed_block option" where
  "read_log n log = (if 0 < n \<and> nat n \<le> length log then Some (log ! (nat n - 1)) else None)"

definition name_irreversible :: "block_env \<Rightarrow> signed_block list \<Rightarrow> database \<Rightarrow> database" where
  "name_irreversible env log db =
     (case read_log (last_irreversible_block_num (db_dgp db)) log of None \<Rightarrow> db
      | Some b \<Rightarrow> db\<lparr>db_dgp := (db_dgp db)\<lparr>last_irreversible_block_id := block_id env b,
           last_irreversible_block_ref_num := last_irreversible_block_num (db_dgp db) mod 2 ^ 16,
           last_irreversible_block_ref_prefix := uint (block_id env b ! 1)\<rparr>\<rparr>)"

record ledger_files =
  lf_forks :: fork_database
  lf_log :: "signed_block list"

text \<open>The fork database keeps the reversible blocks.\<close>

definition trim_forks :: "database \<Rightarrow> ledger_files \<Rightarrow> ledger_files" where
  "trim_forks db f = f\<lparr>lf_forks := set_max_size (nat (u32 (head_block_num db - last_irreversible_block_num (db_dgp db) + 1))) (lf_forks f)\<rparr>"

text \<open>What follows a new number: the log, the id of the block, and the size of the fork database.\<close>

definition settle_irreversible :: "block_env \<Rightarrow> bool \<Rightarrow> bool \<Rightarrow> database \<Rightarrow> ledger_files \<Rightarrow> ledger_files \<times> database result" where
  "settle_irreversible env skip_block_log named db f =
     (case (if skip_block_log then (lf_log f, Inr ())
            else write_log (last_irreversible_block_num (db_dgp db)) (lf_forks f) (lf_log f)) of
        (log, Inl e) \<Rightarrow> (f\<lparr>lf_log := log\<rparr>, Inl e)
      | (log, Inr _) \<Rightarrow>
        let db1 = (if named then name_irreversible env log db else db)
        in (trim_forks db1 (f\<lparr>lf_log := log\<rparr>), Inr db1))"

definition update_last_irreversible_block :: "block_env \<Rightarrow> bool \<Rightarrow> database \<Rightarrow> ledger_files \<Rightarrow> ledger_files \<times> database result" where
  "update_last_irreversible_block env skip_block_log db f =
     (case scheduled_witnesses db of Inl e \<Rightarrow> (f, Inl e)
      | Inr ws \<Rightarrow>
        let n = supported_block ws;
            db1 = (if n > last_irreversible_block_num (db_dgp db) then set_irreversible n db else db)
        in settle_irreversible env skip_block_log (n = last_irreversible_block_num (db_dgp db1)) db1 f)"

section \<open>Block post validation\<close>

record block_post_validation_object =
  bpv_block_num :: int
  bpv_block_id :: block_id_type
  bpv_witnesses :: "account_name_type list"
  bpv_validations :: "bool list"

definition validation_count :: "block_post_validation_object \<Rightarrow> nat" where
  "validation_count o' = length (filter id (bpv_validations o'))"

definition validation_quorum :: "database \<Rightarrow> int" where
  "validation_quorum db = ws_num_scheduled_witnesses (db_schedule db) * CHAIN_IRREVERSIBLE_THRESHOLD div CHAIN_100_PERCENT"

fun check_validations :: "block_env \<Rightarrow> block_post_validation_object list \<Rightarrow> database \<Rightarrow> ledger_files \<Rightarrow>
    ledger_files \<times> (block_post_validation_object list \<times> database) result" where
  "check_validations env [] db f = (f, Inr ([], db))"
| "check_validations env (current # rest) db f =
     (if u32 (1 + last_irreversible_block_num (db_dgp db)) = bpv_block_num current \<and>
         int (validation_count current) \<ge> validation_quorum db then
        (case settle_irreversible env False True (set_irreversible (bpv_block_num current) db) f of
           (f1, Inl e) \<Rightarrow> (f1, Inl e)
         | (f1, Inr db1) \<Rightarrow> check_validations env rest db1 f1)
      else
        (case check_validations env rest db f of
           (f1, Inl e) \<Rightarrow> (f1, Inl e)
         | (f1, Inr (vs, db1)) \<Rightarrow> (f1, Inr (current # vs, db1))))"

definition validate_slots :: "account_name_type \<Rightarrow> block_post_validation_object \<Rightarrow> block_post_validation_object" where
  "validate_slots w o' = o'\<lparr>bpv_validations := map (\<lambda>j. bpv_witnesses o' ! j = w \<or> bpv_validations o' ! j) [0..<nat CHAIN_MAX_WITNESSES]\<rparr>"

fun apply_validation :: "block_id_type \<Rightarrow> account_name_type \<Rightarrow> block_post_validation_object list \<Rightarrow>
    block_post_validation_object list \<times> block_post_validation_object option" where
  "apply_validation i w [] = ([], None)"
| "apply_validation i w (current # rest) =
     (if bpv_block_id current = i then
        (validate_slots w current # rest,
         if \<exists>j \<in> {0..<nat CHAIN_MAX_WITNESSES}. bpv_witnesses current ! j = w then Some (validate_slots w current) else None)
      else case apply_validation i w rest of (rest', found) \<Rightarrow> (current # rest', found))"

definition apply_block_post_validation :: "block_env \<Rightarrow> block_id_type \<Rightarrow> account_name_type \<Rightarrow> block_post_validation_object list \<Rightarrow>
    database \<Rightarrow> ledger_files \<Rightarrow> ledger_files \<times> (block_post_validation_object list \<times> database) result" where
  "apply_block_post_validation env i w vs db f =
     (case apply_validation i w vs of (vs', None) \<Rightarrow> (f, Inr (vs', db))
      | (vs', Some o') \<Rightarrow>
        if u32 (1 + last_irreversible_block_num (db_dgp db)) = bpv_block_num o' \<and> int (validation_count o') \<ge> validation_quorum db then
          (case settle_irreversible env False True (set_irreversible (bpv_block_num o') db) f of
             (f1, Inl e) \<Rightarrow> (f1, Inl e) | (f1, Inr db1) \<Rightarrow> (f1, Inr (vs', db1)))
        else (f, Inr (vs', db)))"

text \<open>The objects a witness still has to validate; the source pads the result to a fixed length.\<close>

definition get_block_post_validations :: "account_name_type \<Rightarrow> block_post_validation_object list \<Rightarrow> block_post_validation_object list" where
  "get_block_post_validations w vs =
     concat (map (\<lambda>o'. map (\<lambda>_. o') (filter (\<lambda>j. bpv_witnesses o' ! j = w \<and> \<not> bpv_validations o' ! j) [0..<nat CHAIN_MAX_WITNESSES])) vs)"

definition create_block_post_validation :: "int \<Rightarrow> block_id_type \<Rightarrow> account_name_type \<Rightarrow> database \<Rightarrow>
    block_post_validation_object list \<Rightarrow> block_post_validation_object list" where
  "create_block_post_validation n i w db vs =
     (let vs1 = filter (\<lambda>o'. \<not> bpv_block_num o' \<le> last_irreversible_block_num (db_dgp db)) vs;
          vs2 = drop (length vs1 - (CHAIN_MAX_BLOCK_POST_VALIDATION_COUNT - 1)) vs1;
          slots = map (\<lambda>j. ws_current_shuffled_witnesses (db_schedule db) ! (j * CHAIN_BLOCK_WITNESS_REPEAT))
                    [0..<nat (ws_num_scheduled_witnesses (db_schedule db)) div CHAIN_BLOCK_WITNESS_REPEAT];
          others = filter (\<lambda>m. m \<noteq> w) slots
      in vs2 @ [\<lparr>bpv_block_num = n, bpv_block_id = i,
           bpv_witnesses = others @ replicate (nat CHAIN_MAX_WITNESSES - length others) [],
           bpv_validations = replicate (nat CHAIN_MAX_WITNESSES) False\<rparr>])"

section \<open>Bandwidth\<close>

definition update_bandwidth_reserve_candidates :: "database \<Rightarrow> database" where
  "update_bandwidth_reserve_candidates db =
     (if head_block_num db mod CHAIN_BLOCKS_PER_HOUR \<noteq> 0 then db
      else db\<lparr>db_dgp := (db_dgp db)\<lparr>bandwidth_reserve_candidates := u32 (1 + int (length (filter (\<lambda>a.
             effective_vesting_shares a < amount (bandwidth_reserve_below (median_props db)) \<and>
             acc_last_bandwidth_update a + CHAIN_BANDWIDTH_RESERVE_ACTIVE_TIME \<ge> head_block_time db) (db_accounts db))))\<rparr>\<rparr>)"

definition used_bandwidth :: "int \<Rightarrow> account_object \<Rightarrow> int" where
  "used_bandwidth now a =
     (let delta_time = now - acc_last_bandwidth_update a
      in if delta_time > CHAIN_BANDWIDTH_AVERAGE_WINDOW_SECONDS then 0
         else i64 (u64 (u128 (u128 (CHAIN_BANDWIDTH_AVERAGE_WINDOW_SECONDS - delta_time) * u128 (acc_average_bandwidth a))
                div CHAIN_BANDWIDTH_AVERAGE_WINDOW_SECONDS)))"

definition has_bandwidth :: "account_object \<Rightarrow> database \<Rightarrow> bool result" where
  "has_bandwidth a db =
     (let p = db_dgp db; consensus = median_props db;
          total_vshares = u128 (amount (total_vesting_shares p));
          shares = u128 (effective_vesting_shares a);
          percent = bandwidth_reserve_percent consensus
      in if shares < u128 (amount (bandwidth_reserve_below consensus)) then
           (if bandwidth_reserve_candidates p = 0 then Inl Division_by_zero
            else Inr (u128 (u128 (total_vshares * u128 percent) div CHAIN_100_PERCENT div bandwidth_reserve_candidates p * max_virtual_bandwidth p)
              > u128 (u128 (acc_average_bandwidth a) * total_vshares)))
         else Inr (u128 (u128 (shares * u128 (CHAIN_100_PERCENT - percent)) div CHAIN_100_PERCENT * max_virtual_bandwidth p)
              > u128 (u128 (acc_average_bandwidth a) * total_vshares)))"

definition update_account_bandwidth :: "bool \<Rightarrow> account_name_type \<Rightarrow> int \<Rightarrow> database \<Rightarrow> (bool \<times> database) result" where
  "update_account_bandwidth is_producing n trx_size db =
     (if amount (total_vesting_shares (db_dgp db)) > 0 then
        let trx_bandwidth = trx_size * CHAIN_BANDWIDTH_PRECISION; now = head_block_time db
        in case modify_account n (\<lambda>a. Inr (a\<lparr>acc_average_bandwidth := used_bandwidth now a + trx_bandwidth,
                  acc_lifetime_bandwidth := acc_lifetime_bandwidth a + trx_bandwidth, acc_last_bandwidth_update := now\<rparr>)) db of Inl e \<Rightarrow> Inl e
        | Inr db1 \<Rightarrow>
        case get_account n db1 of Inl e \<Rightarrow> Inl e
        | Inr a \<Rightarrow>
        case has_bandwidth a db1 of Inl e \<Rightarrow> Inl e
        | Inr ok \<Rightarrow>
          if is_producing \<and> \<not> ok then Inl (FC_Assert ''Account exceeded maximum allowed bandwidth per vesting share.'')
          else Inr (ok, db1)
      else Inr (True, db))"

section \<open>The books\<close>

lemma add_emission_moves:
  "add_emission e p = Inr p' \<Longrightarrow>
     fund_tokens p' - amount (current_supply p') = fund_tokens p - amount (current_supply p) - em_witness e \<and>
     amount (total_vesting_shares p') = amount (total_vesting_shares p) \<and>
     amount (current_supply p') = amount (current_supply p) + emitted e \<and> current_witness p' = current_witness p"
  by (auto simp: add_emission_def run_simps fund_tokens_def emitted_def)

lemma process_funds_ledger [ledger]:
  assumes "process_funds db = Inr db'" and "keys_ok db"
  shows "keys_ok db' \<and> excess db' = excess db \<and> share_gap db' = share_gap db"
proof -
  let ?e = "block_emission db"
  from assms(1) obtain db1 and w :: witness_object and v where m: "modify_dgp (add_emission ?e) db = Inr db1"
    and c: "create_vesting (w_owner w) (mk_asset (em_witness ?e) TOKEN_SYMBOL) db1 = Inr (v, db')"
    by (auto simp: process_funds_def Let_def case_sum_Inr)
  from modify_dgp_ledger [OF m assms(2), of "- em_witness ?e" 0]
  have 1: "keys_ok db1 \<and> excess db1 = excess db - em_witness ?e \<and> share_gap db1 = share_gap db"
    by (auto dest: add_emission_moves)
  from create_vesting_ledger [OF c conjunct1 [OF 1]] 1 show ?thesis by simp
qed

lemma recalc_same_books: "same_books db (process_inflation_recalc db)"
  by (simp add: process_inflation_recalc_def Let_def same_books_def fund_tokens_def)

lemma miss_slot_same: "miss_slot b i db = Inr db' \<Longrightarrow> same_ledger db db'"
  by (auto simp: miss_slot_def case_sum_Inr Let_def same_ledger_def set_witness_def split: if_splits)

lemma miss_slots_same: "fold_result (miss_slot b) is db = Inr db' \<Longrightarrow> same_ledger db db'"
  by (rule fold_result_invariant [where P = "same_ledger db"])
    (auto simp: same_ledger_def dest!: miss_slot_same)

lemma advance_dgp_books:
  "fund_tokens (advance_dgp env b m p) = fund_tokens p" "current_supply (advance_dgp env b m p) = current_supply p"
  "total_vesting_shares (advance_dgp env b m p) = total_vesting_shares p"
  by (simp_all add: advance_dgp_def adjust_reserve_ratio_def Let_def fund_tokens_def split: prod.splits)

lemma update_global_dynamic_data_books:
  "update_global_dynamic_data env s b db = Inr db' \<Longrightarrow> same_books db db'"
  by (auto simp: update_global_dynamic_data_def Let_def case_sum_Inr if_Inl_Inr same_books_def same_ledger_def advance_dgp_books
      dest!: miss_slots_same)

lemma update_signing_witness_same: "same_ledger db (update_signing_witness env w b db)"
  by (simp add: update_signing_witness_def Let_def set_witness_same)

lemma set_irreversible_books: "same_books db (set_irreversible n db)"
  by (simp add: set_irreversible_def same_books_def fund_tokens_def)

lemma name_irreversible_books: "same_books db (name_irreversible env log db)"
  by (simp add: name_irreversible_def same_books_def fund_tokens_def split: option.splits)

lemma settle_irreversible_books: "settle_irreversible env s n db f = (f', Inr db') \<Longrightarrow> same_books db db'"
  by (auto simp: settle_irreversible_def Let_def name_irreversible_books split: prod.splits sum.splits if_splits)

lemma update_last_irreversible_block_books:
  "update_last_irreversible_block env s db f = (f', Inr db') \<Longrightarrow> same_books db db'"
  by (auto simp: update_last_irreversible_block_def Let_def split: sum.splits if_splits
      dest!: settle_irreversible_books intro: same_books_trans [OF set_irreversible_books])

lemma check_validations_books:
  "check_validations env vs db f = (f', Inr (vs', db')) \<Longrightarrow> same_books db db'"
proof (induction env vs db f arbitrary: vs' rule: check_validations.induct)
  case (2 env current rest db f)
  then show ?case
    by (auto split: if_splits prod.splits sum.splits dest!: settle_irreversible_books
        intro: same_books_trans [OF set_irreversible_books] same_books_trans)
qed simp

lemma reserve_candidates_books: "same_books db (update_bandwidth_reserve_candidates db)"
  by (simp add: update_bandwidth_reserve_candidates_def same_books_def fund_tokens_def)

lemma update_account_bandwidth_ledger [ledger]:
  assumes "update_account_bandwidth pr n s db = Inr (ok, db')" and "keys_ok db"
  shows "keys_ok db' \<and> excess db' = excess db \<and> share_gap db' = share_gap db"
proof (cases "amount (total_vesting_shares (db_dgp db)) > 0")
  case True
  with assms(1) obtain f where f: "modify_account n f db = Inr db'"
    and e: "f = (\<lambda>a. Inr (a\<lparr>acc_average_bandwidth := used_bandwidth (head_block_time db) a + s * CHAIN_BANDWIDTH_PRECISION,
      acc_lifetime_bandwidth := acc_lifetime_bandwidth a + s * CHAIN_BANDWIDTH_PRECISION, acc_last_bandwidth_update := head_block_time db\<rparr>))"
    by (auto simp: update_account_bandwidth_def Let_def case_sum_Inr if_Inl_Inr)
  from modify_account_tokens [OF f assms(2), of 0 0] e show ?thesis by (auto simp: account_tokens_def account_shares_def)
qed (use assms in \<open>simp add: update_account_bandwidth_def\<close>)

section \<open>Participation\<close>

text \<open>
  The count of filled slots is the number of set bits among the last 128 slots.
\<close>

definition slots_in :: "128 word \<Rightarrow> nat" where
  "slots_in r = length (filter (bit r) [0..<128])"

definition participation_ok :: "dynamic_global_property_object \<Rightarrow> bool" where
  "participation_ok p = (participation_count p = int (slots_in (recent_slots_filled p)))"

lemma slots_in_bound: "slots_in r \<le> 128"
  using length_filter_le [of "bit r" "[0..<128]"] by (simp add: slots_in_def)

lemma slots_in_shift:
  assumes "\<forall>n < 127. bit q (Suc n) = bit r n" and "bit q 0 = s"
  shows "int (slots_in q) = int (slots_in r) - (if bit r 127 then 1 else 0) + (if s then 1 else 0)"
proof -
  have u: "[0..<128] = 0 # map Suc [0..<127]" "[0..<128] = [0..<127] @ [127]"
    by (simp_all add: map_Suc_upt upt_conv_Cons flip: upt_Suc_append)
  have "filter (bit q \<circ> Suc) [0..<127] = filter (bit r) [0..<127]"
    using assms(1) by (intro filter_cong) simp_all
  then have "slots_in q = length (filter (bit r) [0..<127]) + (if s then 1 else 0)"
    unfolding slots_in_def u(1) by (simp add: assms(2) filter_map)
  moreover have "slots_in r = length (filter (bit r) [0..<127]) + (if bit r 127 then 1 else 0)"
    unfolding slots_in_def u(2) by simp
  ultimately show ?thesis by simp
qed

lemma slots_in_push:
  "int (slots_in (push_bit 1 r + (if s then 1 else 0))) = int (slots_in r) - (if bit r 127 then 1 else 0) + (if s then 1 else 0)"
proof (rule slots_in_shift)
  have r: "push_bit 1 r + (if s then 1 else 0) = push_bit 1 r OR (if s then 1 else 0)"
    using or_one_eq [of "push_bit 1 r"] by (cases s) simp_all
  show "\<forall>n < 127. bit (push_bit 1 r + (if s then 1 else 0)) (Suc n) = bit r n"
    unfolding r by (cases s) (simp_all add: bit_or_iff bit_1_iff bit_double_iff mult.commute [of _ "2 :: 128 word"])
  show "bit (push_bit 1 r + (if s then 1 else 0)) 0 = s"
    unfolding r by (cases s) (simp_all add: bit_or_iff bit_double_iff mult.commute [of _ "2 :: 128 word"])
qed

lemma fill_slot_count:
  assumes "fill_slot s (r, int (slots_in r)) = (r', c')"
  shows "c' = int (slots_in r')"
proof -
  have r': "r' = push_bit 1 r + (if s then 1 else 0)" using assms by (simp add: fill_slot_def)
  let ?d = "int (slots_in r) - (if bit r 127 then 1 else 0)"
  have e: "?d + (if s then 1 else 0) = int (slots_in r')" using slots_in_push [of r s] r' by simp
  have "0 \<le> int (slots_in (push_bit 1 r + (if False then 1 else 0)))" by simp
  then have d: "0 \<le> ?d" using slots_in_push [of r False] by simp
  have "?d \<le> 128" using slots_in_bound [of r] by auto
  then have "c' = (?d + (if s then 1 else 0)) mod 256"
    using assms d by (simp add: fill_slot_def mod_pos_pos_trivial split: if_splits)
  also have "\<dots> = int (slots_in r')" unfolding e using slots_in_bound [of r'] by (intro mod_pos_pos_trivial) auto
  finally show ?thesis .
qed

lemma fill_slots_count:
  "fill_slots n (r, int (slots_in r)) = (r', c') \<Longrightarrow> c' = int (slots_in r')"
proof (induction n arbitrary: r' c')
  case (Suc n)
  obtain r1 c1 where 1: "fill_slots n (r, int (slots_in r)) = (r1, c1)" by (cases "fill_slots n (r, int (slots_in r))")
  with Suc.IH have "c1 = int (slots_in r1)" by blast
  moreover have "fill_slot (n = 0) (r1, c1) = (r', c')" using Suc.prems 1 by (simp add: fill_slots_def)
  ultimately show ?case using fill_slot_count by simp
qed (simp add: fill_slots_def)

lemma advance_dgp_participation: "participation_ok p \<Longrightarrow> participation_ok (advance_dgp env b m p)"
  using fill_slots_count [of "nat (u32 (int m + 1))" "recent_slots_filled p"]
  by (auto simp: participation_ok_def advance_dgp_def adjust_reserve_ratio_def Let_def split: prod.splits)

text \<open>
  However many slots are missed, the participation count of the chain is the number of filled slots
  among the last 128, and never leaves the range of its eight bits.
\<close>

theorem participation_counts_slots:
  assumes "update_global_dynamic_data env skip b db = Inr db'" and "participation_ok (db_dgp db)"
  shows "participation_ok (db_dgp db') \<and> 0 \<le> participation_count (db_dgp db') \<and> participation_count (db_dgp db') \<le> 128"
proof -
  from assms(1) obtain db1 m where f: "fold_result (miss_slot b) [0..<m] db = Inr db1" and d: "db_dgp db' = advance_dgp env b m (db_dgp db1)"
    by (auto simp: update_global_dynamic_data_def Let_def case_sum_Inr if_Inl_Inr)
  have "db_dgp db1 = db_dgp db" using miss_slots_same [OF f] by (simp add: same_ledger_def)
  then have "participation_ok (db_dgp db')" using d advance_dgp_participation assms(2) by simp
  then show ?thesis using slots_in_bound [of "recent_slots_filled (db_dgp db')"] by (simp add: participation_ok_def)
qed

section \<open>Irreversibility\<close>

lemma sorted_suffix:
  assumes "sorted xs" and "k < length xs"
  shows "length xs - k \<le> length (filter (\<lambda>y. xs ! k \<le> y) xs)"
proof -
  have "\<forall>y \<in> set (drop k xs). xs ! k \<le> y"
    using assms by (auto simp: in_set_conv_nth intro!: sorted_nth_mono)
  then have "length (filter (\<lambda>y. xs ! k \<le> y) (drop k xs)) = length xs - k" by simp
  moreover have "length (filter P xs) = length (filter P (take k xs)) + length (filter P (drop k xs))" for P
    by (metis append_take_drop_id filter_append length_append)
  ultimately show ?thesis by (metis le_add2)
qed

lemma supported_quorum:
  assumes "ws \<noteq> []" and "\<forall>w \<in> set ws. 0 \<le> w_last_supported_block_num w \<and> w_last_supported_block_num w < 2 ^ 32"
  shows "3 * length ws \<le> 4 * length (filter (\<lambda>w. supported_block ws \<le> w_last_supported_block_num w) ws)"
proof -
  let ?xs = "map w_last_supported_block_num (sort_key w_last_supported_block_num ws)"
  let ?k = "irreversible_offset (length ws)"
  have k: "?k = length ws div 4" by (simp add: irreversible_offset_def nat_div_distrib flip: zdiv_int)
  have lt: "?k < length ws" using assms(1) unfolding k by (cases ws) auto
  then have mem: "sort_key w_last_supported_block_num ws ! ?k \<in> set ws" by (metis length_sort nth_mem set_sort)
  have v: "supported_block ws = ?xs ! ?k"
    using assms(2) mem lt by (simp add: supported_block_def)
  have "length (filter (\<lambda>y. ?xs ! ?k \<le> y) ?xs) = length (filter (\<lambda>w. supported_block ws \<le> w_last_supported_block_num w) ws)"
    unfolding v by (simp add: filter_map comp_def filter_sort)
  moreover have "length ?xs - ?k \<le> length (filter (\<lambda>y. ?xs ! ?k \<le> y) ?xs)"
    using sorted_suffix [of ?xs ?k] lt by simp
  ultimately show ?thesis unfolding k by simp
qed

lemma settle_lib:
  "settle_irreversible env s n db f = (f', Inr db') \<Longrightarrow> last_irreversible_block_num (db_dgp db') = last_irreversible_block_num (db_dgp db)"
  by (auto simp: settle_irreversible_def Let_def name_irreversible_def split: prod.splits sum.splits if_splits option.splits)


section \<open>The block log\<close>

lemma append_log_extends:
  "append_log n fd log = (log', r) \<Longrightarrow>
     \<exists>new. log' = log @ new \<and> length new \<le> n \<and> (r = Inr () \<longrightarrow> length new = n) \<and>
       (\<forall>k < length new. \<exists>i. fetch_block_on_main_branch_by_number (length log + k + 1) fd = Inr (Some i) \<and> fi_data i = new ! k)"
proof (induction n fd log arbitrary: log' rule: append_log.induct)
  case (2 n fd log)
  show ?case
  proof (cases "\<exists>i. fetch_block_on_main_branch_by_number (length log + 1) fd = Inr (Some i)")
    case True
    then obtain i where i: "fetch_block_on_main_branch_by_number (length log + 1) fd = Inr (Some i)" by blast
    with "2.prems" have "append_log n fd (log @ [fi_data i]) = (log', r)" by simp
    from "2.IH" [OF i _ this] obtain new where new: "log' = (log @ [fi_data i]) @ new" "length new \<le> n" "r = Inr () \<longrightarrow> length new = n"
      "\<forall>k < length new. \<exists>j. fetch_block_on_main_branch_by_number (length (log @ [fi_data i]) + k + 1) fd = Inr (Some j) \<and> fi_data j = new ! k"
      by blast
    have "\<forall>k < length (fi_data i # new). \<exists>j. fetch_block_on_main_branch_by_number (length log + k + 1) fd = Inr (Some j) \<and> fi_data j = (fi_data i # new) ! k"
    proof (intro allI impI)
      fix k
      assume "k < length (fi_data i # new)"
      then show "\<exists>j. fetch_block_on_main_branch_by_number (length log + k + 1) fd = Inr (Some j) \<and> fi_data j = (fi_data i # new) ! k"
        using i new(4) by (cases k) auto
    qed
    with new(1-3) show ?thesis by (intro exI [of _ "fi_data i # new"]) auto
  next
    case False
    with "2.prems" show ?thesis by (auto split: sum.splits option.splits)
  qed
qed auto

text \<open>
  The block log is append-only: whether an update of the last irreversible block succeeds or fails,
  no block that was logged is lost or changed, and what is added are blocks of the main branch in
  the order of their numbers; after a success the log reaches the last irreversible block.
\<close>

theorem log_is_append_only:
  assumes "update_last_irreversible_block env False db f = (f', r)"
  shows "\<exists>new. lf_log f' = lf_log f @ new \<and>
    (\<forall>k < length new. \<exists>i. fetch_block_on_main_branch_by_number (length (lf_log f) + k + 1) (lf_forks f) = Inr (Some i) \<and> fi_data i = new ! k) \<and>
    (\<forall>db'. r = Inr db' \<longrightarrow> last_irreversible_block_num (db_dgp db') \<le> int (length (lf_log f')))"
proof (cases "scheduled_witnesses db")
  case (Inl e)
  with assms show ?thesis by (auto simp: update_last_irreversible_block_def)
next
  case (Inr ws)
  with assms obtain named db1 where s: "settle_irreversible env False named db1 f = (f', r)"
    by (auto simp: update_last_irreversible_block_def Let_def)
  let ?lib = "last_irreversible_block_num (db_dgp db1)"
  obtain log' q where w: "append_log (nat ?lib - length (lf_log f)) (lf_forks f) (lf_log f) = (log', q)" by fastforce
  have l: "lf_log f' = log'" "\<forall>db'. r = Inr db' \<longrightarrow> q = Inr ()"
    using s w by (auto simp: settle_irreversible_def write_log_def trim_forks_def Let_def split: sum.splits)
  obtain new where new: "log' = lf_log f @ new" "q = Inr () \<longrightarrow> length new = nat ?lib - length (lf_log f)"
    "\<forall>k < length new. \<exists>i. fetch_block_on_main_branch_by_number (length (lf_log f) + k + 1) (lf_forks f) = Inr (Some i) \<and> fi_data i = new ! k"
    using append_log_extends [OF w] by blast
  have "\<forall>db'. r = Inr db' \<longrightarrow> last_irreversible_block_num (db_dgp db') \<le> int (length (lf_log f'))"
    using l new(1,2) settle_lib s by fastforce
  with l new(1,3) show ?thesis by blast
qed

section \<open>Bandwidth that wraps\<close>

text \<open>
  The virtual bandwidth of the chain always overflows its 64 bits: with any block size the protocol allows
  and any reserve ratio the chain sets, the limit is smaller than the documented product of block size,
  reserve ratio and window.
\<close>

theorem virtual_bandwidth_wraps:
  assumes "CHAIN_MIN_BLOCK_SIZE_LIMIT \<le> dgp_maximum_block_size p" and "CHAIN_MAX_RESERVE_RATIO div 10 \<le> current_reserve_ratio p"
  shows "virtual_bandwidth p < dgp_maximum_block_size p * current_reserve_ratio p * CHAIN_BANDWIDTH_PRECISION *
    CHAIN_BANDWIDTH_AVERAGE_WINDOW_SECONDS div CHAIN_BLOCK_INTERVAL"
proof -
  let ?x = "dgp_maximum_block_size p * current_reserve_ratio p * CHAIN_BANDWIDTH_PRECISION * CHAIN_BANDWIDTH_AVERAGE_WINDOW_SECONDS"
  have "65536 * 2000 \<le> dgp_maximum_block_size p * current_reserve_ratio p"
    using assms by (intro mult_mono) simp_all
  moreover define y where "y = dgp_maximum_block_size p * current_reserve_ratio p"
  ultimately have y: "131072000 \<le> y" "?x = y * 604800000000" by simp_all
  then have x: "0 \<le> ?x - 2 ^ 64" by simp
  have "u64 ?x = (?x - 2 ^ 64) mod 2 ^ 64" by (simp only: u64_def) (metis minus_mod_self2)
  also have "\<dots> \<le> ?x - 2 ^ 64" using x by (rule zmod_le_nonneg_dividend)
  finally have "u64 ?x div 3 \<le> (?x - 2 ^ 64) div 3" by (rule zdiv_mono1) simp
  also have "(a - 2 ^ 64) div 3 < a div 3" for a :: int by simp
  finally show ?thesis by (simp add: virtual_bandwidth_def)
qed

theorem virtual_bandwidth_wraps_witness:
  "virtual_bandwidth (sample_dgp\<lparr>current_reserve_ratio := 20000\<rparr>) < 131072 * 20000 * 1000000 * 604800 div 3"
  using virtual_bandwidth_wraps [of "sample_dgp\<lparr>current_reserve_ratio := 20000\<rparr>"] by (simp add: sample_dgp_def)

section \<open>Emission is exact\<close>

lemma consensus_emission_exact: "emitted (consensus_emission n p) = n" "emitted (fixed_emission n) = n"
  by (simp_all add: emitted_def consensus_emission_def fixed_emission_def Let_def)

lemma consensus_emission_parts:
  assumes "0 \<le> n" and "0 \<le> dgp_inflation_witness_percent p" "dgp_inflation_witness_percent p \<le> CHAIN_100_PERCENT"
    and "0 \<le> inflation_ratio p" "inflation_ratio p \<le> CHAIN_100_PERCENT"
  shows "0 \<le> em_witness (consensus_emission n p) \<and> 0 \<le> em_committee (consensus_emission n p) \<and> 0 \<le> em_reward (consensus_emission n p) \<and>
    em_vesting (consensus_emission n p) = 0"
proof -
  have part: "0 \<le> (m * q) sdiv 10000 \<and> (m * q) sdiv 10000 \<le> m" if "0 \<le> m" "0 \<le> q" "q \<le> 10000" for m q :: int
  proof -
    have "m * q \<le> m * 10000" using that by (intro mult_left_mono) simp_all
    moreover have "0 \<le> m * q" using that by simp
    moreover from calculation(1) have "m * q div 10000 \<le> m * 10000 div 10000" by (rule zdiv_mono1) simp
    ultimately show ?thesis by (simp add: signed_divide_int_def pos_imp_zdiv_nonneg_iff sgn_if)
  qed
  show ?thesis using part [of n "dgp_inflation_witness_percent p"] assms
      part [of "n - (n * dgp_inflation_witness_percent p) sdiv 10000" "inflation_ratio p"]
    by (simp add: consensus_emission_def Let_def)
qed

lemma only_votes_dgp: "only_votes db db' \<Longrightarrow> db_dgp db' = db_dgp db"
  by (auto simp: only_votes_def)

text \<open>
  C40: since hardfork 11 a block creates exactly one token (1000 units): the supply grows by that amount, and
  the committee fund, the reward fund and the vesting fund, where the reward of the signing witness goes,
  grow by parts that are not negative and add up to it.
\<close>

theorem emission_is_exact:
  assumes "process_funds db = Inr db'" and "has_hardfork 11 db" and "keys_ok db"
    and "0 \<le> dgp_inflation_witness_percent (db_dgp db)" "dgp_inflation_witness_percent (db_dgp db) \<le> CHAIN_100_PERCENT"
    and "0 \<le> inflation_ratio (db_dgp db)" "inflation_ratio (db_dgp db) \<le> CHAIN_100_PERCENT"
  shows "amount (current_supply (db_dgp db')) = amount (current_supply (db_dgp db)) + 1000 \<and>
    fund_tokens (db_dgp db') = fund_tokens (db_dgp db) + 1000 \<and>
    amount (committee_fund (db_dgp db)) \<le> amount (committee_fund (db_dgp db')) \<and>
    amount (total_reward_fund (db_dgp db)) \<le> amount (total_reward_fund (db_dgp db')) \<and>
    amount (total_vesting_fund (db_dgp db)) \<le> amount (total_vesting_fund (db_dgp db'))"
proof -
  let ?e = "block_emission db"
  have e: "?e = consensus_emission 1000 (db_dgp db)" using assms(2) by (simp add: block_emission_def)
  note parts = consensus_emission_parts [of 1000 "db_dgp db"]
  from assms(1) obtain db1 and w :: witness_object and v where m: "modify_dgp (add_emission ?e) db = Inr db1"
    and c: "create_vesting (w_owner w) (mk_asset (em_witness ?e) TOKEN_SYMBOL) db1 = Inr (v, db')"
    by (auto simp: process_funds_def Let_def case_sum_Inr)
  from c obtain db2 db3 where m2: "modify_account (w_owner w) (add_field acc_vesting_shares acc_vesting_shares_update v) db1 = Inr db2"
    and d3: "modify_dgp (\<lambda>p. case add_field total_vesting_fund total_vesting_fund_update (mk_asset (em_witness ?e) TOKEN_SYMBOL) p of Inl e \<Rightarrow> Inl e
        | Inr p' \<Rightarrow> add_field total_vesting_shares total_vesting_shares_update v p') db2 = Inr db3"
    and r: "adjust_proxied_witness_votes (w_owner w) (amount v) 0 db3 = Inr db'"
    by (auto simp: create_vesting_def case_sum_Inr)
  have "keys_ok db3"
  proof -
    have "keys_ok db1" using modify_dgp_ledger [OF m assms(3), of "- em_witness ?e" 0] by (auto dest: add_emission_moves)
    then have "keys_ok db2" using modify_account_tokens [OF m2, of 0 "amount v"] by (auto simp: run_simps account_tokens_def account_shares_def)
    then show ?thesis using d3 by (auto simp: modify_dgp_Inr ledger_dgp)
  qed
  then have d': "db_dgp db' = db_dgp db3" using only_votes_dgp adjust_proxied_witness_votes_frame [OF r, of "\<lambda>_. ()"] by (auto simp: vote_free_def)
  have d2: "db_dgp db2 = db_dgp db1" using m2 by (auto simp: run_simps)
  have "emitted ?e = 1000" by (simp add: e consensus_emission_exact)
  moreover have "amount (current_supply (db_dgp db3)) = amount (current_supply (db_dgp db)) + emitted ?e"
    "amount (committee_fund (db_dgp db3)) = amount (committee_fund (db_dgp db)) + em_committee ?e"
    "amount (total_reward_fund (db_dgp db3)) = amount (total_reward_fund (db_dgp db)) + em_reward ?e"
    "amount (total_vesting_fund (db_dgp db3)) = amount (total_vesting_fund (db_dgp db)) + em_vesting ?e + em_witness ?e"
    using m d3 d2 by (auto simp: modify_dgp_Inr add_emission_def run_simps)
  ultimately show ?thesis using parts assms(4-7) d' by (simp add: fund_tokens_def emitted_def e)
qed

section \<open>Sample runs\<close>

text \<open>A chain with one witness, before and after its next block.\<close>

definition sample_block_db :: database where
  "sample_block_db = sample_db\<lparr>db_witnesses := [(new_witness ''viz'' 0 0)\<lparr>w_signing_key := ''K1'', w_last_supported_block_num := 5\<rparr>],
     db_accounts := db_accounts sample_db @ [sample_account 3 ''viz'' 0 0],
     db_dgp := sample_dgp\<lparr>dgp_inflation_witness_percent := 2000, inflation_ratio := 5000\<rparr>\<rparr>"

lemma sample_block_witness:
  "find_row w_owner ''viz'' (db_witnesses sample_block_db) =
     Some ((new_witness ''viz'' 0 0)\<lparr>w_signing_key := ''K1'', w_last_supported_block_num := 5\<rparr>)"
  by (simp add: sample_block_db_def new_witness_def)

lemma sample_scheduled: "scheduled_witnesses sample_block_db = Inr [(new_witness ''viz'' 0 0)\<lparr>w_signing_key := ''K1'', w_last_supported_block_num := 5\<rparr>]"
  by (simp add: scheduled_witnesses_def sample_block_db_def sample_db_def get_witness_def new_witness_def)

theorem participation_counts_slots_witness:
  "\<exists>db'. update_global_dynamic_data sample_block_env False (sample_block zero_id 1000002) sample_block_db = Inr db' \<and> participation_ok (db_dgp db')"
proof -
  have m: "missed_blocks (sample_block zero_id 1000002) sample_block_db = 0"
    by (simp add: missed_blocks_def sample_block_db_def sample_dgp_def get_slot_at_time_def get_slot_time_def sample_block_def u32_def)
  have "head_block_number (advance_dgp sample_block_env (sample_block zero_id 1000002) 0 (db_dgp sample_block_db)) = 1"
    "last_irreversible_block_num (advance_dgp sample_block_env (sample_block zero_id 1000002) 0 (db_dgp sample_block_db)) = 0"
    using sample_num(1)
    by (simp_all add: advance_dgp_def adjust_reserve_ratio_def sample_block_db_def sample_dgp_def Let_def split: prod.splits)
  then obtain db' where u: "update_global_dynamic_data sample_block_env False (sample_block zero_id 1000002) sample_block_db = Inr db'"
    by (simp add: update_global_dynamic_data_def m Let_def u32_def)
  have "participation_ok (db_dgp sample_block_db)"
    by (simp add: participation_ok_def sample_block_db_def sample_dgp_def slots_in_def)
  from participation_counts_slots [OF u this] u show ?thesis by blast
qed

definition sample_files :: ledger_files where
  "sample_files = \<lparr>lf_forks = after_events sample_block_env sample_fork_events, lf_log = []\<rparr>"


theorem log_is_append_only_witness:
  "\<exists>f' r new. update_last_irreversible_block sample_block_env False sample_block_db sample_files = (f', r) \<and> lf_log f' = lf_log sample_files @ new"
proof -
  obtain f' r where u: "update_last_irreversible_block sample_block_env False sample_block_db sample_files = (f', r)" by fastforce
  from log_is_append_only [OF u] u show ?thesis by blast
qed

lemma sample_block_keys: "keys_ok sample_block_db"
  by (simp add: sample_block_db_def sample_db_def sample_account_def keys_ok_def unique_keys_def account_object_defaults_def)

theorem emission_is_exact_witness:
  "\<exists>db'. process_funds sample_block_db = Inr db' \<and> amount (current_supply (db_dgp db')) = amount (current_supply (db_dgp sample_block_db)) + 1000"
proof -
  have "block_emission sample_block_db = \<lparr>em_vesting = 0, em_committee = 400, em_reward = 400, em_witness = 200\<rparr>"
    by (simp add: block_emission_def consensus_emission_def Let_def sample_block_db_def sample_db_def sample_dgp_def has_hardfork_def sdiv_nonneg)
  then obtain db' where u: "process_funds sample_block_db = Inr db'"
    by (simp add: process_funds_def Let_def modify_dgp_def add_emission_def add_field_def asset_add_def emitted_def
        get_witness_def get_account_def find_account_def modify_account_def update_row_def new_witness_def
        create_vesting_def asset_times_price_def get_vesting_share_price_def adjust_proxied_witness_votes.simps adjust_witness_votes_def
        has_hardfork_def sample_block_db_def sample_defs)
  have "has_hardfork 11 sample_block_db" "0 \<le> dgp_inflation_witness_percent (db_dgp sample_block_db)"
    "dgp_inflation_witness_percent (db_dgp sample_block_db) \<le> CHAIN_100_PERCENT" "0 \<le> inflation_ratio (db_dgp sample_block_db)"
    "inflation_ratio (db_dgp sample_block_db) \<le> CHAIN_100_PERCENT"
    by (simp_all add: sample_block_db_def sample_db_def sample_dgp_def has_hardfork_def)
  from emission_is_exact [OF u this(1) sample_block_keys this(2-5)] u show ?thesis by blast
qed

section \<open>Slot times\<close>

text \<open>The time of a slot belongs to that slot.\<close>

lemma slot_roundtrip: "0 < n \<Longrightarrow> get_slot_at_time (get_slot_time n db) db = n"
  by (simp add: get_slot_at_time_def get_slot_time_def Let_def)

end
