(* ===== verification/Chain_Evaluation.thy ===== *)
theory Chain_Evaluation
  imports Block_Updates Escrow Delegation Witness_Votes Awards Invites Vesting
begin

text \<open>
  The evaluators as one function on the variant of operations (\<open>initialize_evaluators\<close> and
  \<open>apply_operation\<close> of \<open>chain/database.cpp\<close>), and the steps of a block on the state.  What the
  evaluators take from outside is \<open>eval_env\<close>: text checks, trimming, keys and the clock of fc, the
  interpreters plugins register, and whether the node is producing.
\<close>

record eval_env =
  ev_text :: fc_text
  ev_memo :: memo_reader
  ev_keys :: key_env
  ev_clock :: int
  ev_interpreters :: "string \<Rightarrow> interpreter option"
  ev_producing :: bool

text \<open>
  Operations on proposals change other tables than those of \<open>database\<close> and are evaluated with them; the
  operations on content are refused since hardfork 4.
\<close>

definition deprecated :: "string \<Rightarrow> database \<Rightarrow> database result" where
  "deprecated msg db = (if has_hardfork 4 db then Inl (FC_Assert msg) else Inl (Not_modelled msg))"

definition evaluate :: "eval_env \<Rightarrow> operation \<Rightarrow> database \<Rightarrow> database result" where
  "evaluate env op db = (case op of
      Vote x \<Rightarrow> deprecated ''vote is deprecated as of HF 4'' db
    | Content x \<Rightarrow> deprecated ''content is deprecated as of HF 4'' db
    | Delete_content x \<Rightarrow> deprecated ''delete_content is deprecated as of HF 4'' db
    | Transfer x \<Rightarrow> transfer_apply (ev_memo env) x db
    | Transfer_to_vesting x \<Rightarrow> transfer_to_vesting_apply x db
    | Withdraw_vesting x \<Rightarrow> withdraw_vesting_apply x db
    | Set_withdraw_vesting_route x \<Rightarrow> set_withdraw_vesting_route_apply x db
    | Account_create x \<Rightarrow> account_create_apply x db
    | Account_update x \<Rightarrow> account_update_apply x db
    | Account_metadata x \<Rightarrow> account_metadata_apply x db
    | Witness_update x \<Rightarrow> witness_update_apply x db
    | Account_witness_vote x \<Rightarrow> account_witness_vote_apply x db
    | Account_witness_proxy x \<Rightarrow> account_witness_proxy_apply x db
    | Custom x \<Rightarrow> custom_apply (ev_interpreters env) (ev_producing env) x db
    | Request_account_recovery x \<Rightarrow> request_account_recovery_apply x db
    | Recover_account x \<Rightarrow> recover_account_apply x db
    | Change_recovery_account x \<Rightarrow> change_recovery_account_apply x db
    | Escrow_transfer x \<Rightarrow> escrow_transfer_apply x db
    | Escrow_approve x \<Rightarrow> escrow_approve_apply x db
    | Escrow_dispute x \<Rightarrow> escrow_dispute_apply x db
    | Escrow_release x \<Rightarrow> escrow_release_apply x db
    | Delegate_vesting_shares x \<Rightarrow> delegate_vesting_shares_apply x db
    | Chain_properties_update x \<Rightarrow> chain_properties_update_apply x db
    | Versioned_chain_properties_update x \<Rightarrow> versioned_chain_properties_update_apply x db
    | Committee_worker_create_request x \<Rightarrow> committee_worker_create_request_apply x db
    | Committee_worker_cancel_request x \<Rightarrow> committee_worker_cancel_request_apply x db
    | Committee_vote_request x \<Rightarrow> committee_vote_request_apply x db
    | Create_invite x \<Rightarrow> create_invite_apply x db
    | Claim_invite_balance x \<Rightarrow> claim_invite_balance_apply (ev_keys env) x db
    | Invite_registration x \<Rightarrow> invite_registration_apply (ev_keys env) x db
    | Use_invite_balance x \<Rightarrow> use_invite_balance_apply (ev_keys env) x db
    | Award x \<Rightarrow> award_apply (ev_producing env) x db
    | Fixed_award x \<Rightarrow> fixed_award_apply (ev_producing env) x db
    | Set_paid_subscription x \<Rightarrow> set_paid_subscription_apply x db
    | Paid_subscribe x \<Rightarrow> paid_subscribe_apply x db
    | Set_account_price x \<Rightarrow> set_account_price_apply x db
    | Set_subaccount_price x \<Rightarrow> set_subaccount_price_apply x db
    | Buy_account x \<Rightarrow> buy_account_apply (fc_trim (ev_memo env)) (ev_clock env) x db
    | Target_account_sale x \<Rightarrow> target_account_sale_apply x db
    | _ \<Rightarrow> Inl (Not_modelled ''proposal''))"

section \<open>Every operation keeps the books\<close>

text \<open>
  Where the books depend on more than the operation succeeding: a release needs escrows whose balances are
  tokens, a fixed award no beneficiaries (with them it creates tokens), the weights of beneficiaries are unsigned,
  and the interpreters of plugins leave balances alone.
\<close>

definition books_guard :: "eval_env \<Rightarrow> operation \<Rightarrow> database \<Rightarrow> bool" where
  "books_guard env op db = (case op of
      Escrow_release x \<Rightarrow> escrows_ok db
    | Fixed_award x \<Rightarrow> fa_beneficiaries x = []
    | Award x \<Rightarrow> (\<forall>b \<in> set (aw_beneficiaries x). 0 \<le> ben_weight b)
    | Custom x \<Rightarrow> (\<forall>i eval d e d'. ev_interpreters env i = Some eval \<longrightarrow> eval x d = (e, d') \<longrightarrow> same_ledger d d')
    | _ \<Rightarrow> True)"

abbreviation kept_books :: "database \<Rightarrow> database \<Rightarrow> bool" where
  "kept_books db db' \<equiv> keys_ok db' \<and> excess db' = excess db \<and> share_gap db' = share_gap db"

lemma validated_fee: "validate_account_create fc o' = Inr () \<Longrightarrow> 0 \<le> amount (ac_fee o')"
  by (auto simp: validate_account_create_def run_simps)

lemma validated_reward: "validate_fixed_award fc o' = Inr () \<Longrightarrow> 0 \<le> amount (fa_reward_amount o')"
  by (auto simp: validate_fixed_award_def run_simps)

lemma validated_escrow_fee: "validate_escrow_transfer fc o' = Inr () \<Longrightarrow> symbol (et_fee o') = TOKEN_SYMBOL"
  by (auto simp: validate_escrow_transfer_def run_simps)

lemma sale_books: "sale_kept db db' \<Longrightarrow> keys_ok db \<Longrightarrow> kept_books db db'"
  by (simp add: sale_kept_def)

lemma evaluate_books:
  assumes "evaluate env op db = Inr db'" and "operation_validate (ev_text env) op = Inr ()" and "books_guard env op db" and "keys_ok db"
  shows "kept_books db db'"
proof (cases op)
  case (Custom x)
  with assms show ?thesis by (intro custom_ledger [of "ev_interpreters env" "ev_producing env" x db]) (auto simp: evaluate_def books_guard_def)
next
  case (Award x)
  with assms show ?thesis by (intro award_ledger [of "ev_producing env" x db db' "ev_text env"]) (auto simp: evaluate_def books_guard_def)
next
  case (Fixed_award x)
  with assms show ?thesis using validated_reward [of "ev_text env" x]
    by (intro fixed_award_ledger [of "ev_producing env" x db]) (auto simp: evaluate_def books_guard_def)
next
  case (Account_create x)
  with assms show ?thesis using validated_fee [of "ev_text env" x] by (intro account_create_ledger [of x db]) (auto simp: evaluate_def)
next
  case (Escrow_transfer x)
  with assms show ?thesis using validated_escrow_fee [of "ev_text env" x] by (intro escrow_transfer_ledger [of x db]) (auto simp: evaluate_def)
next
  case (Escrow_release x)
  with assms show ?thesis by (intro escrow_release_ledger [of x db]) (auto simp: evaluate_def books_guard_def)
next
  case (Buy_account x)
  with assms show ?thesis using sale_books [OF buy_account_kept [OF _ validated_buyer [of x]]] by (fastforce simp: evaluate_def)
next
  case (Set_account_price x)
  with assms show ?thesis using sale_books [OF set_account_price_kept] by (fastforce simp: evaluate_def)
next
  case (Set_subaccount_price x)
  with assms show ?thesis using sale_books [OF set_subaccount_price_kept] by (fastforce simp: evaluate_def)
next
  case (Target_account_sale x)
  with assms show ?thesis using sale_books [OF target_account_sale_kept] by (fastforce simp: evaluate_def)
next
  case (Chain_properties_update x)
  with assms show ?thesis using same_ledger_moves [OF chain_properties_update_same] by (fastforce simp: evaluate_def)
next
  case (Versioned_chain_properties_update x)
  with assms show ?thesis using same_ledger_moves [OF versioned_chain_properties_update_same] by (fastforce simp: evaluate_def)
qed (use assms in \<open>simp_all add: evaluate_def deprecated_def ledger split: if_splits\<close>)

section \<open>The steps of a block\<close>

text \<open>The withdrawals of a block move shares of accounts that have them.\<close>

definition withdrawal_guard :: "database \<Rightarrow> bool" where
  "withdrawal_guard db = (shares_ok db \<and> routes_within db)"

definition reserve_guard :: "database \<Rightarrow> bool" where
  "reserve_guard db = (shares_ok db \<and> funds_ok (db_dgp db) \<and> (\<forall>a \<in> set (db_accounts db). symbol (acc_vesting_shares a) = SHARES_SYMBOL))"

inductive chain_step :: "eval_env \<Rightarrow> block_env \<Rightarrow> database \<Rightarrow> database \<Rightarrow> bool" for env benv where
  operation: "operation_validate (ev_text env) op = Inr () \<Longrightarrow> books_guard env op db \<Longrightarrow> evaluate env op db = Inr db' \<Longrightarrow> chain_step env benv db db'"
| bandwidth: "update_account_bandwidth p n s db = Inr (ok, db') \<Longrightarrow> chain_step env benv db db'"
| dynamic_data: "update_global_dynamic_data benv skip b db = Inr db' \<Longrightarrow> chain_step env benv db db'"
| signing_witness: "chain_step env benv db (update_signing_witness benv w b db)"
| irreversible: "update_last_irreversible_block benv skip db f = (f', Inr db') \<Longrightarrow> chain_step env benv db db'"
| delegations: "clear_expired_delegations db = Inr db' \<Longrightarrow> chain_step env benv db db'"
| invites: "chain_step env benv db (clear_used_invites db)"
| requests: "chain_step env benv db (clear_closed_committee_requests db)"
| candidates: "chain_step env benv db (update_bandwidth_reserve_candidates db)"
| schedule: "update_witness_schedule hpo db = Inr (hpo', db') \<Longrightarrow> chain_step env benv db db'"
| recalc: "chain_step env benv db (process_inflation_recalc db)"
| award_shares: "chain_step env benv db (expire_award_shares_processing db)"
| funds: "process_funds db = Inr db' \<Longrightarrow> chain_step env benv db db'"
| withdrawals: "withdrawal_guard db \<Longrightarrow> process_vesting_withdrawals db = Inr db' \<Longrightarrow> chain_step env benv db db'"
| recovery: "account_recovery_processing db = Inr db' \<Longrightarrow> chain_step env benv db db'"
| escrows: "expire_escrow_ratification db = Inr db' \<Longrightarrow> chain_step env benv db db'"
| auctions: "account_on_auction_expiration db = Inr db' \<Longrightarrow> chain_step env benv db db'"
| null: "reserve_guard db \<Longrightarrow> clear_null_account_balance db = Inr db' \<Longrightarrow> chain_step env benv db db'"
| anonymous: "reserve_guard db \<Longrightarrow> clear_anonymous_account_balance db = Inr db' \<Longrightarrow> chain_step env benv db db'"
| committee_account: "reserve_guard db \<Longrightarrow> claim_committee_account_balance db = Inr db' \<Longrightarrow> chain_step env benv db db'"
| committee: "committee_processing db = Inr db' \<Longrightarrow> chain_step env benv db db'"
| subscriptions: "paid_subscribe_processing db = Inr db' \<Longrightarrow> chain_step env benv db db'"
| validation: "check_validations benv vs db f = (f', Inr (vs', db')) \<Longrightarrow> chain_step env benv db db'"

lemma withdrawals_books:
  assumes "process_vesting_withdrawals db = Inr db'" and "withdrawal_guard db" and "keys_ok db"
  shows "kept_books db db'"
proof -
  from assms(1) obtain fuel current where "withdraw_loop fuel current db = Some (Inr db')"
    by (auto simp: process_vesting_withdrawals_def split: option.splits)
  with assms(2,3) withdraw_loop_moves show ?thesis by (auto simp: withdrawal_guard_def shares_ok_def)
qed

lemma award_shares_books: "same_books db (expire_award_shares_processing db)"
  by (simp add: expire_award_shares_processing_def Let_def same_books_def fund_tokens_def)

lemma reserved_keys:
  "keys_ok db \<Longrightarrow> clear_null_account_balance db = Inr db' \<or> clear_anonymous_account_balance db = Inr db' \<or>
     claim_committee_account_balance db = Inr db' \<Longrightarrow> keys_ok db'"
  by (auto simp: clear_null_account_balance_def clear_anonymous_account_balance_def claim_committee_account_balance_def
      case_sum_Inr modify_dgp_Inr ledger_dgp split: if_splits dest!: empty_account_ledger burn_asset_ledger)

lemma reserved_books:
  assumes "clear_null_account_balance db = Inr db' \<or> clear_anonymous_account_balance db = Inr db' \<or> claim_committee_account_balance db = Inr db'"
    and "reserve_guard db" and "keys_ok db"
  shows "kept_books db db'"
  using reserved_keys [OF assms(3,1)] clear_reserved_ledger [OF assms(3)] assms(1,2) by (auto simp: reserve_guard_def)

lemma chain_step_books: "chain_step env benv db db' \<Longrightarrow> keys_ok db \<Longrightarrow> kept_books db db'"
proof (induction rule: chain_step.induct)
  case (operation op db db')
  then show ?case using evaluate_books by blast
next
  case (dynamic_data skip b db db')
  then show ?case using same_books_kept [OF update_global_dynamic_data_books] by blast
next
  case (signing_witness db w b)
  then show ?case using same_ledger_moves [OF update_signing_witness_same] by blast
next
  case (irreversible skip db f f' db')
  then show ?case using same_books_kept [OF update_last_irreversible_block_books] by blast
next
  case (requests db)
  then show ?case using same_ledger_moves [OF clear_closed_same] by blast
next
  case (candidates db)
  then show ?case using same_books_kept [OF reserve_candidates_books] by blast
next
  case (schedule hpo db hpo' db')
  then show ?case using same_books_kept [OF update_witness_schedule_books] by blast
next
  case (recalc db)
  then show ?case using same_books_kept [OF recalc_same_books] by blast
next
  case (award_shares db)
  then show ?case using same_books_kept [OF award_shares_books] by blast
next
  case (withdrawals db db')
  then show ?case using withdrawals_books by blast
next
  case (auctions db db')
  then show ?case using sale_books [OF auction_expiration_kept] by blast
next
  case (validation vs db f f' vs' db')
  then show ?case using same_books_kept [OF check_validations_books] by blast
next
  case (null db db')
  then show ?case using reserved_books by blast
next
  case (anonymous db db')
  then show ?case using reserved_books by blast
next
  case (committee_account db db')
  then show ?case using reserved_books by blast
qed (simp_all add: ledger)

text \<open>The steps of the chain meet the contract of the books.\<close>

interpretation chain: bookkeeping "chain_step env benv"
  by unfold_locales (use chain_step_books in \<open>auto simp: books_def\<close>)


definition sample_eval_env :: eval_env where
  "sample_eval_env = \<lparr>ev_text = any_text, ev_memo = \<lparr>fc_trim = id, public_key_of = Inr\<rparr>, ev_keys = sample_keys, ev_clock = 0,
     ev_interpreters = (\<lambda>_. None), ev_producing = False\<rparr>"


end
