(* ===== verification/Proposals.thy ===== *)
theory Proposals
  imports Chain_Evaluation Transaction_Authority
begin

text \<open>
  Transactions and proposals on the whole state: \<open>chain/proposal_evaluator.cpp\<close>,
  \<open>chain/proposal_object.cpp\<close>, \<open>chain/database_proposal_object.cpp\<close> and the application of a transaction
  in \<open>chain/database.cpp\<close>.  Creating a proposal tries its operations out, and approving one may run
  them, so an operation may apply others to any depth: \<open>apply_operation\<close> takes the number of nested
  applications it may still use and returns None when they do not suffice.

  Packing the proposed operations into bytes and reading them back is fc's, and the state keeps the
  operations.  Ids of transactions, sizes, the recovery of signing keys and the reading of a digest from its hexadecimal form are fields of \<open>chain_env\<close>.
\<close>

section \<open>The state of the chain\<close>

record proposal_object =
  pr_id :: nat
  pr_author :: account_name_type
  pr_title :: string
  pr_memo :: string
  pr_expiration_time :: int
  pr_review_period_time :: "int option"
  pr_operations :: "operation list"
  pr_required_active :: "account_name_type list"
  pr_available_active :: "account_name_type list"
  pr_required_master :: "account_name_type list"
  pr_available_master :: "account_name_type list"
  pr_required_regular :: "account_name_type list"
  pr_available_regular :: "account_name_type list"
  pr_available_keys :: "public_key_type list"

record required_approval_object =
  rap_account :: account_name_type
  rap_proposal :: nat

record transaction_object =
  to_trx_id :: string
  to_expiration :: int

record chain =
  ch_db :: database
  ch_hpo :: hardfork_property_object
  ch_proposals :: "proposal_object list"
  ch_next_proposal_id :: nat
  ch_required :: "required_approval_object list"
  ch_transactions :: "transaction_object list"
  ch_summaries :: "int \<Rightarrow> block_id_type"
  ch_validations :: "block_post_validation_object list"

record chain_env =
  ce_eval :: eval_env
  ce_block :: block_env
  ce_trx_id :: "signed_transaction \<Rightarrow> string"
  ce_recover :: "signed_transaction \<Rightarrow> string \<Rightarrow> public_key_type"
  ce_checksum :: "string \<Rightarrow> digest_type"

datatype validation_step =
    skip_witness_signature | skip_transaction_signatures | skip_transaction_dupe_check | skip_fork_db
  | skip_block_size_check | skip_tapos_check | skip_authority_check | skip_merkle_check
  | skip_undo_history_check | skip_witness_schedule_check | skip_validate_operations | skip_undo_block
  | skip_block_log | skip_apply_transaction | skip_database_locking

type_synonym applier = "operation \<Rightarrow> chain \<Rightarrow> chain result option"

section \<open>Validating and applying a transaction\<close>

text \<open>The blocks with an exceptional Merkle root also excuse a missing active authority.\<close>

definition shared_db_merkle :: "(int \<times> string) list" where
  "shared_db_merkle =
     [(3705111, ''0a8f0fd5450c3706ec8b8cbad795cd0b3679bf35''), (3705120, ''2027edb72b671f7011c8cc4c7a8b59c39b305093''),
      (3713940, ''bf8a1d516927c506ebdbb7b38bef2e992435435f''), (3714132, ''e8b77773d268b72c8d650337b8cce360bbe64779''),
      (3714567, ''45af59a8c2d7d4a606151ef5dae03d2dfe13fbdd''), (3714588, ''e64275443bdc82f104ac936486d367af8f6d1584''),
      (4138790, ''f65a3a788a2ef52406d8ba5705d7288be228403f''), (5435426, ''0b32538b2d22bd3146d54b6e3cb5ae8b9780e8a5'')]"

definition authority_env :: "database \<Rightarrow> tx_env" where
  "authority_env db =
     (let get = \<lambda>sel n. (case get_authority n db of Inl e \<Rightarrow> Inl e | Inr a \<Rightarrow> Inr (sel a))
      in \<lparr>env_get_active = get aa_active, env_get_master = get aa_master, env_get_regular = get aa_regular,
          env_max_recursion = CHAIN_MAX_SIG_CHECK_DEPTH, env_active_approvals = [], env_master_approvals = [],
          env_regular_approvals = []\<rparr>)"

definition verify_transaction :: "chain_env \<Rightarrow> signed_transaction \<Rightarrow> database \<Rightarrow> unit result" where
  "verify_transaction env trx db =
     (case get_signature_keys (ce_recover env trx) (tx_signatures trx) of Inl e \<Rightarrow> Inl e
      | Inr keys \<Rightarrow>
         (case verify_authority (authority_env db) (tx_operations trx) keys of
            Inl (Tx_missing_active_auth missing used) \<Rightarrow>
              if head_block_num db + 1 \<in> fst ` set shared_db_merkle then Inr () else Inl (Tx_missing_active_auth missing used)
          | r \<Rightarrow> r))"

definition ref_prefix :: "block_id_type \<Rightarrow> int" where
  "ref_prefix i = uint (i ! 1)"

definition validate_transaction_now :: "chain_env \<Rightarrow> validation_step set \<Rightarrow> signed_transaction \<Rightarrow> chain \<Rightarrow> unit result" where
  "validate_transaction_now env skip trx ch =
     (let db = ch_db ch; now = head_block_time db
      in case (if skip_validate_operations \<in> skip then Inr () else transaction_validate (ev_text (ce_eval env)) (tx_operations trx)) of
           Inl e \<Rightarrow> Inl e
         | Inr _ \<Rightarrow>
         case (if skip_transaction_signatures \<in> skip \<or> skip_authority_check \<in> skip then Inr () else verify_transaction env trx db) of
           Inl e \<Rightarrow> Inl e
         | Inr _ \<Rightarrow>
         if head_block_num db > 0 then all_ok
           [if skip_tapos_check \<in> skip then Inr ()
            else fc_assert (tx_ref_block_prefix trx = ref_prefix (ch_summaries ch (tx_ref_block_num trx))) ''ref_block_prefix'',
            fc_assert (tx_expiration trx \<le> now + CHAIN_MAX_TIME_UNTIL_EXPIRATION) ''max_til_exp'',
            fc_assert (now < tx_expiration trx) ''trx.exp'']
         else Inr ())"

definition charge :: "chain_env \<Rightarrow> int \<Rightarrow> account_name_type \<Rightarrow> database \<Rightarrow> database result" where
  "charge env bytes n db =
     (case update_account_bandwidth (ev_producing (ce_eval env)) n (u32 bytes) db of Inl e \<Rightarrow> Inl e | Inr (_, db') \<Rightarrow> Inr db')"

definition charge_account :: "chain_env \<Rightarrow> signed_transaction \<Rightarrow> account_name_type \<Rightarrow> database \<Rightarrow> database result" where
  "charge_account env trx n db =
     (let trx_size = transaction_pack_size (ce_block env) trx
      in case get_account n db of Inl e \<Rightarrow> Inl e
         | Inr _ \<Rightarrow>
         case charge env trx_size n db of Inl e \<Rightarrow> Inl e
         | Inr db1 \<Rightarrow>
         if has_hardfork 6 db then
           fold_result (\<lambda>_. charge env (trx_size * data_operations_cost_additional_bandwidth (median_props db) div CHAIN_100_PERCENT) n)
             (filter is_data_operation (tx_operations trx)) db1
         else Inr db1)"

definition all_required :: "operation list \<Rightarrow> account_name_type list" where
  "all_required ops = fold (\<lambda>o' r. flat_insert_all (get_required_regular o') (flat_insert_all (get_required_master o') (flat_insert_all (get_required_active o') r))) ops []"

fun apply_operations :: "applier \<Rightarrow> operation list \<Rightarrow> chain \<Rightarrow> chain result option" where
  "apply_operations app [] ch = Some (Inr ch)"
| "apply_operations app (o' # ops) ch =
     (case app o' ch of None \<Rightarrow> None | Some (Inl e) \<Rightarrow> Some (Inl e) | Some (Inr ch') \<Rightarrow> apply_operations app ops ch')"

definition record_transaction :: "chain_env \<Rightarrow> validation_step set \<Rightarrow> signed_transaction \<Rightarrow> chain \<Rightarrow> chain result" where
  "record_transaction env skip trx ch =
     (if skip_transaction_dupe_check \<in> skip then Inr ch
      else case create_row to_trx_id \<lparr>to_trx_id = ce_trx_id env trx, to_expiration = tx_expiration trx\<rparr> (ch_transactions ch) of
             Inl e \<Rightarrow> Inl e
           | Inr rows \<Rightarrow> Inr (ch\<lparr>ch_transactions := rows\<rparr>))"

definition apply_transaction :: "chain_env \<Rightarrow> applier \<Rightarrow> validation_step set \<Rightarrow> signed_transaction \<Rightarrow> chain \<Rightarrow> chain result option" where
  "apply_transaction env app skip trx ch =
     (if skip_transaction_dupe_check \<notin> skip \<and> ce_trx_id env trx \<in> set (map to_trx_id (ch_transactions ch))
      then Some (Inl (FC_Assert ''Duplicate transaction check failed''))
      else case validate_transaction_now env skip trx ch of Inl e \<Rightarrow> Some (Inl e)
      | Inr _ \<Rightarrow>
      case fold_result (charge_account env trx) (all_required (tx_operations trx)) (ch_db ch) of Inl e \<Rightarrow> Some (Inl e)
      | Inr db \<Rightarrow>
      case record_transaction env skip trx (ch\<lparr>ch_db := db\<rparr>) of Inl e \<Rightarrow> Some (Inl e)
      | Inr ch1 \<Rightarrow> apply_operations app (tx_operations trx) ch1)"

text \<open>
  \<open>validate_transaction\<close> undoes what it applied: only the steps already done, to be skipped afterwards,
  come back.
\<close>

definition validate_transaction_steps :: "validation_step set" where
  "validate_transaction_steps = {skip_authority_check, skip_transaction_signatures, skip_validate_operations, skip_tapos_check}"

definition validate_transaction :: "chain_env \<Rightarrow> applier \<Rightarrow> validation_step set \<Rightarrow> signed_transaction \<Rightarrow> chain \<Rightarrow> validation_step set result option" where
  "validate_transaction env app skip trx ch =
     (let checked = (if validate_transaction_steps \<subseteq> skip then Inr skip
            else case validate_transaction_now env skip trx ch of Inl e \<Rightarrow> Inl e | Inr _ \<Rightarrow> Inr (skip \<union> validate_transaction_steps))
      in case checked of Inl e \<Rightarrow> Some (Inl e)
         | Inr skip' \<Rightarrow>
         if skip_apply_transaction \<in> skip' then Some (Inr skip')
         else case apply_transaction env app skip' trx ch of None \<Rightarrow> None
              | Some (Inl e) \<Rightarrow> Some (Inl e)
              | Some (Inr _) \<Rightarrow> Some (Inr skip'))"

section \<open>Proposals in the database\<close>

abbreviation proposal_key :: "proposal_object \<Rightarrow> account_name_type \<times> string" where
  "proposal_key p \<equiv> (pr_author p, pr_title p)"

definition get_proposal :: "account_name_type \<Rightarrow> string \<Rightarrow> chain \<Rightarrow> proposal_object result" where
  "get_proposal author title ch =
     (case find_row proposal_key (author, title) (ch_proposals ch) of None \<Rightarrow> Inl (Unknown_key title) | Some p \<Rightarrow> Inr p)"

definition required_total :: "proposal_object \<Rightarrow> account_name_type list" where
  "required_total p = flat_insert_all (pr_required_regular p) (flat_insert_all (pr_required_master p) (flat_insert_all (pr_required_active p) []))"

text \<open>
  \<open>database::remove\<close> on a reference to a proposal, which it reads; the reference of a proposal that was removed
  meanwhile dangles.
\<close>

definition remove_proposal :: "nat \<Rightarrow> chain \<Rightarrow> chain result" where
  "remove_proposal i ch =
     (case find_row pr_id i (ch_proposals ch) of None \<Rightarrow> Inl Null_dereference
      | Some p \<Rightarrow> Inr (ch\<lparr>ch_required := filter (\<lambda>r. \<not> (rap_account r \<in> set (required_total p) \<and> rap_proposal r = i)) (ch_required ch),
          ch_proposals := remove_row pr_id i (ch_proposals ch)\<rparr>))"

definition proposal_env :: "proposal_object \<Rightarrow> account_name_type list \<Rightarrow> account_name_type list \<Rightarrow> account_name_type list \<Rightarrow> database \<Rightarrow> tx_env" where
  "proposal_env p active master regular db = (authority_env db)
     \<lparr>env_active_approvals := flat_insert_all active (pr_available_active p),
      env_master_approvals := flat_insert_all master (pr_available_master p),
      env_regular_approvals := flat_insert_all regular (pr_available_regular p)\<rparr>"

definition verify_proposal :: "proposal_object \<Rightarrow> account_name_type list \<Rightarrow> account_name_type list \<Rightarrow> account_name_type list \<Rightarrow> database \<Rightarrow> unit result" where
  "verify_proposal p active master regular db =
     verify_authority (proposal_env p active master regular db) (pr_operations p) (pr_available_keys p)"

definition is_authorized_to_execute :: "proposal_object \<Rightarrow> database \<Rightarrow> bool" where
  "is_authorized_to_execute p db =
     (case verify_proposal p [] [] [] db of Inl (Tx_irrelevant_sig _) \<Rightarrow> True | Inl (Tx_irrelevant_approval _) \<Rightarrow> True
      | Inl _ \<Rightarrow> False | Inr _ \<Rightarrow> True)"

definition push_proposal :: "applier \<Rightarrow> nat \<Rightarrow> chain \<Rightarrow> chain result option" where
  "push_proposal app i ch =
     (case find_row pr_id i (ch_proposals ch) of None \<Rightarrow> Some (Inl Null_dereference)
      | Some p \<Rightarrow>
      case apply_operations app (pr_operations p) ch of None \<Rightarrow> None
      | Some (Inl e) \<Rightarrow> Some (Inl e)
      | Some (Inr ch') \<Rightarrow> Some (remove_proposal i ch'))"

text \<open>The exceptions a handler of \<open>fc::exception\<close> catches; the others are not exceptions of the program.\<close>

definition catchable :: "error \<Rightarrow> bool" where
  "catchable e = (case e of Not_modelled _ \<Rightarrow> False | Null_dereference \<Rightarrow> False | _ \<Rightarrow> True)"

section \<open>The evaluators of proposals\<close>

text \<open>
  \<open>assert_irrelevant_proposal_authority\<close>: the approvals that are missing are added, one kind at a time, so
  that the check reaches the signatures and approvals nobody needs.
\<close>

record missing_approvals =
  ma_active :: "account_name_type list"
  ma_master :: "account_name_type list"
  ma_regular :: "account_name_type list"
  ma_used :: "public_key_type list"

fun assert_irrelevant :: "nat \<Rightarrow> proposal_object \<Rightarrow> proposal_update_operation \<Rightarrow> database \<Rightarrow> missing_approvals \<Rightarrow> unit result" where
  "assert_irrelevant 0 p x db m = Inr ()"
| "assert_irrelevant (Suc n) p x db m =
     (case verify_proposal p (ma_active m) (ma_master m) (ma_regular m) db of
        Inr _ \<Rightarrow> Inr ()
      | Inl (Tx_missing_active_auth missing used) \<Rightarrow>
          if ma_active m \<noteq> [] then Inl (Tx_missing_active_auth missing used)
          else assert_irrelevant n p x db (m\<lparr>ma_active := flat_insert_all missing [], ma_used := flat_insert_all used (ma_used m)\<rparr>)
      | Inl (Tx_missing_master_auth missing used) \<Rightarrow>
          if ma_master m \<noteq> [] then Inl (Tx_missing_master_auth missing used)
          else assert_irrelevant n p x db (m\<lparr>ma_master := flat_insert_all missing [], ma_used := flat_insert_all used (ma_used m)\<rparr>)
      | Inl (Tx_missing_regular_auth missing used) \<Rightarrow>
          if ma_regular m \<noteq> [] then Inl (Tx_missing_regular_auth missing used)
          else assert_irrelevant n p x db (m\<lparr>ma_regular := flat_insert_all missing [], ma_used := flat_insert_all used (ma_used m)\<rparr>)
      | Inl (Tx_irrelevant_sig unused) \<Rightarrow>
          if \<exists>k \<in> set unused. k \<in> set (pu_key_approvals_to_add x) \<and> k \<notin> set (ma_used m)
          then Inl (Tx_irrelevant_sig unused) else Inr ()
      | Inl (Tx_irrelevant_approval unused) \<Rightarrow>
          if \<exists>a \<in> set unused. a \<in> set (pu_active_approvals_to_add x) \<union> set (pu_master_approvals_to_add x) \<union> set (pu_regular_approvals_to_add x)
          then Inl (Tx_irrelevant_approval unused) else Inr ()
      | Inl e \<Rightarrow> Inl e)"

definition remove_existing :: "'k list \<Rightarrow> 'k list \<Rightarrow> 'k list" where
  "remove_existing first second = filter (\<lambda>k. k \<notin> set second) first"

definition proposed_transaction :: "operation list \<Rightarrow> database \<Rightarrow> signed_transaction" where
  "proposed_transaction ops db = \<lparr>tx_ref_block_num = 0, tx_ref_block_prefix = 0,
     tx_expiration = head_block_time db + CHAIN_MAX_TIME_UNTIL_EXPIRATION, tx_operations = ops, tx_signatures = []\<rparr>"

definition new_proposal :: "proposal_header \<Rightarrow> operation list \<Rightarrow> nat \<Rightarrow> proposal_object" where
  "new_proposal h ops i =
     (let r = get_required_authorities ops
      in \<lparr>pr_id = i, pr_author = pc_author h, pr_title = pc_title h, pr_memo = pc_memo h,
          pr_expiration_time = pc_expiration_time h, pr_review_period_time = pc_review_period_time h, pr_operations = ops,
          pr_required_active = remove_existing (req_active r) (req_master r), pr_available_active = [],
          pr_required_master = req_master r, pr_available_master = [],
          pr_required_regular = req_regular r, pr_available_regular = [], pr_available_keys = []\<rparr>)"

definition create_checks :: "proposal_header \<Rightarrow> operation list \<Rightarrow> chain \<Rightarrow> unit result" where
  "create_checks h ops ch =
     (let now = head_block_time (ch_db ch); r = get_required_authorities ops; p = new_proposal h ops (ch_next_proposal_id ch)
      in case get_account (pc_author h) (ch_db ch) of Inl e \<Rightarrow> Inl e
         | Inr _ \<Rightarrow> all_ok
           ([fc_assert (find_row proposal_key (pc_author h, pc_title h) (ch_proposals ch) = None) ''Proposal already exists.'',
             fc_assert (pc_expiration_time h > now) ''Proposal has already expired on creation.'',
             fc_assert (pc_expiration_time h \<le> now + CHAIN_MAX_PROPOSAL_LIFETIME_SEC) ''Proposal expiration time is too far in the future.'',
             fc_assert (case pc_review_period_time h of None \<Rightarrow> True | Some t \<Rightarrow> t > now) ''Proposal review period has expired on creation.'',
             fc_assert (case pc_review_period_time h of None \<Rightarrow> True | Some t \<Rightarrow> t < pc_expiration_time h)
               ''Proposal review period must be less than its overall lifetime.'',
             fc_assert (req_other r = []) ''other.size() == 0'',
             fc_assert ((pr_required_regular p = []) \<noteq> (pr_required_master p = [] \<and> pr_required_active p = []))
               ''Can't combine operations required regular authority and active or master authority''] @
            map (\<lambda>a. fc_assert (find_account a (ch_db ch) \<noteq> None) ''Account for proposed operation doesn't exist'') (required_total p) @
            [fc_assert (required_total p \<noteq> []) ''No operations require approvals'']))"

definition proposal_create_skip :: "validation_step set" where
  "proposal_create_skip = {skip_authority_check, skip_transaction_signatures, skip_tapos_check, skip_database_locking}"

definition store_proposal :: "proposal_object \<Rightarrow> chain \<Rightarrow> chain result" where
  "store_proposal p ch =
     (case create_row proposal_key p (ch_proposals ch) of Inl e \<Rightarrow> Inl e
      | Inr rows \<Rightarrow>
      case fold_result (\<lambda>a rs. case get_account a (ch_db ch) of Inl e \<Rightarrow> Inl e
             | Inr _ \<Rightarrow> create_row (\<lambda>r. (rap_account r, rap_proposal r)) \<lparr>rap_account = a, rap_proposal = pr_id p\<rparr> rs)
           (required_total p) (ch_required ch) of Inl e \<Rightarrow> Inl e
      | Inr rs \<Rightarrow> Inr (ch\<lparr>ch_proposals := rows, ch_next_proposal_id := ch_next_proposal_id ch + 1, ch_required := rs\<rparr>))"

definition proposal_create_apply :: "chain_env \<Rightarrow> applier \<Rightarrow> nat \<Rightarrow> proposal_header \<Rightarrow> operation list \<Rightarrow> chain \<Rightarrow> chain result option" where
  "proposal_create_apply env app depth h ops ch =
     (if ev_producing (ce_eval env) \<and> depth > CHAIN_MAX_PROPOSAL_DEPTH
      then Some (Inl (FC_Assert ''You can't create more than 2 nested proposals''))
      else case create_checks h ops ch of Inl e \<Rightarrow> Some (Inl e)
      | Inr _ \<Rightarrow>
      case validate_transaction env app proposal_create_skip (proposed_transaction ops (ch_db ch)) ch of None \<Rightarrow> None
      | Some (Inl e) \<Rightarrow> Some (Inl e)
      | Some (Inr _) \<Rightarrow> Some (store_proposal (new_proposal h ops (ch_next_proposal_id ch)) ch))"

definition update_checks :: "proposal_update_operation \<Rightarrow> proposal_object \<Rightarrow> int \<Rightarrow> unit result" where
  "update_checks x p now =
     (let existing = (\<lambda>remove dst. fc_assert (set remove \<subseteq> set dst) ''Can't remove the non existing approval'');
          duplicate = (\<lambda>add dst. fc_assert (set add \<inter> set dst = {}) ''Can't add already exist approval'')
      in all_ok
       [fc_assert (case pr_review_period_time p of None \<Rightarrow> True
          | Some t \<Rightarrow> now \<ge> t \<longrightarrow> pu_active_approvals_to_add x = [] \<and> pu_master_approvals_to_add x = [] \<and>
              pu_regular_approvals_to_add x = [] \<and> pu_key_approvals_to_add x = [])
          ''This proposal is in its review period. No new approvals may be added.'',
        existing (pu_active_approvals_to_remove x) (pr_available_active p),
        existing (pu_master_approvals_to_remove x) (pr_available_master p),
        existing (pu_regular_approvals_to_remove x) (pr_available_regular p),
        existing (pu_key_approvals_to_remove x) (pr_available_keys p),
        duplicate (pu_active_approvals_to_add x) (pr_available_active p),
        duplicate (pu_master_approvals_to_add x) (pr_available_master p),
        duplicate (pu_regular_approvals_to_add x) (pr_available_regular p),
        duplicate (pu_key_approvals_to_add x) (pr_available_keys p)])"

definition update_approvals :: "proposal_update_operation \<Rightarrow> proposal_object \<Rightarrow> proposal_object" where
  "update_approvals x p = p
     \<lparr>pr_available_active := remove_existing (flat_insert_all (pu_active_approvals_to_add x) (pr_available_active p)) (pu_active_approvals_to_remove x),
      pr_available_master := remove_existing (flat_insert_all (pu_master_approvals_to_add x) (pr_available_master p)) (pu_master_approvals_to_remove x),
      pr_available_regular := remove_existing (flat_insert_all (pu_regular_approvals_to_add x) (pr_available_regular p)) (pu_regular_approvals_to_remove x),
      pr_available_keys := remove_existing (flat_insert_all (pu_key_approvals_to_add x) (pr_available_keys p)) (pu_key_approvals_to_remove x)\<rparr>"

definition no_approvals :: "proposal_object \<Rightarrow> bool" where
  "no_approvals p = (pr_available_active p = [] \<and> pr_available_master p = [] \<and> pr_available_regular p = [] \<and> pr_available_keys p = [])"

text \<open>Execution that fails is undone and the proposal kept for its expiration.\<close>

definition try_push :: "applier \<Rightarrow> nat \<Rightarrow> chain \<Rightarrow> chain result option" where
  "try_push app i ch =
     (case push_proposal app i ch of None \<Rightarrow> None
      | Some (Inl e) \<Rightarrow> Some (if catchable e then Inr ch else Inl e)
      | Some (Inr ch') \<Rightarrow> Some (Inr ch'))"

definition proposal_update_apply :: "chain_env \<Rightarrow> applier \<Rightarrow> nat \<Rightarrow> proposal_update_operation \<Rightarrow> chain \<Rightarrow> chain result option" where
  "proposal_update_apply env app depth x ch =
     (if ev_producing (ce_eval env) \<and> depth > CHAIN_MAX_PROPOSAL_DEPTH
      then Some (Inl (FC_Assert ''You can't create more than 2 nested proposals''))
      else case get_proposal (pu_author x) (pu_title x) ch of Inl e \<Rightarrow> Some (Inl e)
      | Inr p \<Rightarrow>
      let now = head_block_time (ch_db ch)
      in case update_checks x p now of Inl e \<Rightarrow> Some (Inl e)
      | Inr _ \<Rightarrow>
      let p' = update_approvals x p;
          ch1 = ch\<lparr>ch_proposals := modify_row pr_id (pr_id p) (update_approvals x) (ch_proposals ch)\<rparr>
      in case pr_review_period_time p of
           Some t \<Rightarrow> Some (if now \<ge> t \<and> no_approvals p' then remove_proposal (pr_id p) ch1 else Inr ch1)
         | None \<Rightarrow>
         case assert_irrelevant 3 p' x (ch_db ch1) \<lparr>ma_active = [], ma_master = [], ma_regular = [], ma_used = []\<rparr> of Inl e \<Rightarrow> Some (Inl e)
         | Inr _ \<Rightarrow> if is_authorized_to_execute p' (ch_db ch1) then try_push app (pr_id p) ch1 else Some (Inr ch1))"

definition proposal_delete_apply :: "proposal_delete_operation \<Rightarrow> chain \<Rightarrow> chain result" where
  "proposal_delete_apply x ch =
     (case get_proposal (pd_author x) (pd_title x) ch of Inl e \<Rightarrow> Inl e
      | Inr p \<Rightarrow>
        if pr_author p = pd_requester x \<or> pd_requester x \<in> set (pr_required_active p) \<or>
           pd_requester x \<in> set (pr_required_master p) \<or> pd_requester x \<in> set (pr_required_regular p)
        then remove_proposal (pr_id p) ch
        else Inl (FC_Assert ''Provided authority is not authoritative for this proposal.''))"

text \<open>
  The application of an operation: \<open>creates\<close> and \<open>updates\<close> are the members \<open>depth_\<close> of the two evaluators, the
  number of their applications under way.
\<close>

fun apply_operation :: "chain_env \<Rightarrow> nat \<Rightarrow> nat \<Rightarrow> nat \<Rightarrow> operation \<Rightarrow> chain \<Rightarrow> chain result option" where
  "apply_operation env 0 creates updates o' ch = None"
| "apply_operation env (Suc n) creates updates o' ch =
     (case o' of
        Proposal_create h ops \<Rightarrow> proposal_create_apply env (apply_operation env n (Suc creates) updates) (Suc creates) h ops ch
      | Proposal_update x \<Rightarrow> proposal_update_apply env (apply_operation env n creates (Suc updates)) (Suc updates) x ch
      | Proposal_delete x \<Rightarrow> Some (proposal_delete_apply x ch)
      | _ \<Rightarrow> Some (case evaluate (ce_eval env) o' (ch_db ch) of Inl e \<Rightarrow> Inl e | Inr db \<Rightarrow> Inr (ch\<lparr>ch_db := db\<rparr>)))"

declare apply_operation.simps [simp del]

section \<open>Expired proposals\<close>

text \<open>The proposal that expires first; of those that expire together, the one created first.\<close>

fun first_expiring :: "proposal_object list \<Rightarrow> proposal_object option" where
  "first_expiring [] = None"
| "first_expiring (p # ps) =
     (case first_expiring ps of None \<Rightarrow> Some p | Some q \<Rightarrow> Some (if pr_expiration_time q < pr_expiration_time p then q else p))"

fun clear_expired_proposals :: "applier \<Rightarrow> nat \<Rightarrow> chain \<Rightarrow> chain result option" where
  "clear_expired_proposals app 0 ch = None"
| "clear_expired_proposals app (Suc n) ch =
     (case first_expiring (ch_proposals ch) of None \<Rightarrow> Some (Inr ch)
      | Some p \<Rightarrow>
        if pr_expiration_time p > head_block_time (ch_db ch) then Some (Inr ch)
        else
          let give_up = (\<lambda>c. case remove_proposal (pr_id p) c of Inl e \<Rightarrow> Some (Inl e) | Inr c' \<Rightarrow> clear_expired_proposals app n c')
          in if is_authorized_to_execute p (ch_db ch)
             then case push_proposal app (pr_id p) ch of None \<Rightarrow> None
                  | Some (Inl e) \<Rightarrow> if catchable e then give_up ch else Some (Inl e)
                  | Some (Inr ch') \<Rightarrow> clear_expired_proposals app n ch'
             else give_up ch)"

declare clear_expired_proposals.simps [simp del]

section \<open>An operation that a producing node applies returns\<close>

definition returns :: "applier \<Rightarrow> bool" where
  "returns app = (\<forall>o' ch. app o' ch \<noteq> None)"

lemma apply_operations_returns: "apply_operations app ops ch = None \<Longrightarrow> \<not> returns app"
  by (induction ops arbitrary: ch) (auto simp: returns_def split: option.splits sum.splits)

lemma validate_transaction_returns: "validate_transaction env app skip trx ch = None \<Longrightarrow> \<not> returns app"
  by (auto simp: validate_transaction_def apply_transaction_def Let_def split: sum.splits option.splits if_splits dest: apply_operations_returns)

lemma push_proposal_returns: "push_proposal app i ch = None \<Longrightarrow> \<not> returns app"
  by (auto simp: push_proposal_def split: option.splits sum.splits dest: apply_operations_returns)

lemma try_push_returns: "try_push app i ch = None \<Longrightarrow> \<not> returns app"
  by (auto simp: try_push_def split: option.splits sum.splits dest: push_proposal_returns)

lemma proposal_create_returns:
  "proposal_create_apply env app depth h ops ch = None \<Longrightarrow> \<not> returns app \<and> (ev_producing (ce_eval env) \<longrightarrow> depth \<le> 2)"
  by (auto simp: proposal_create_apply_def split: option.splits sum.splits if_splits dest: validate_transaction_returns)

lemma proposal_update_returns:
  "proposal_update_apply env app depth x ch = None \<Longrightarrow> \<not> returns app \<and> (ev_producing (ce_eval env) \<longrightarrow> depth \<le> 2)"
  by (auto simp: proposal_update_apply_def Let_def split: option.splits sum.splits if_splits dest: try_push_returns)

text \<open>
  C9: While a node takes a transaction from a peer or a client, applying any operation returns, whatever
  proposals exist: the depth of nested proposals is bounded by two creations and two updates, so five nested applications are
  enough.
\<close>
theorem producing_node_returns:
  assumes "ev_producing (ce_eval env)" and "(2 - creates) + (2 - updates) < n"
  shows "\<exists>r. apply_operation env n creates updates o' ch = Some r"
proof -
  have "returns (apply_operation env n creates updates)"
    using assms(2)
  proof (induction n arbitrary: creates updates)
    case (Suc n)
    have *: "creates < 2 \<longrightarrow> returns (apply_operation env n (Suc creates) updates)"
      "updates < 2 \<longrightarrow> returns (apply_operation env n creates (Suc updates))"
      using Suc.prems by (auto intro: Suc.IH)
    have "proposal_create_apply env (apply_operation env n (Suc creates) updates) (Suc creates) h ops ch \<noteq> None" for h ops ch
    proof
      assume "proposal_create_apply env (apply_operation env n (Suc creates) updates) (Suc creates) h ops ch = None"
      from proposal_create_returns [OF this] * assms(1) show False by auto
    qed
    moreover have "proposal_update_apply env (apply_operation env n creates (Suc updates)) (Suc updates) x ch \<noteq> None" for x ch
    proof
      assume "proposal_update_apply env (apply_operation env n creates (Suc updates)) (Suc updates) x ch = None"
      from proposal_update_returns [OF this] * assms(1) show False by auto
    qed
    ultimately show ?case unfolding returns_def by (auto simp: apply_operation.simps split: operation.split)
  qed simp
  then show ?thesis by (auto simp: returns_def)
qed

section \<open>The table of required approvals\<close>

definition approval_rows :: "proposal_object list \<Rightarrow> (account_name_type \<times> nat) set" where
  "approval_rows ps = {(a, i). \<exists>p \<in> set ps. pr_id p = i \<and> a \<in> set (required_total p)}"

lemma approval_rows_view:
  "approval_rows ps = (\<Union>(i, as) \<in> set (map (\<lambda>p. (pr_id p, required_total p)) ps). (\<lambda>a. (a, i)) ` set as)"
  by (auto simp: approval_rows_def)

definition proposals_ok :: "chain \<Rightarrow> bool" where
  "proposals_ok ch = (distinct (map pr_id (ch_proposals ch)) \<and> distinct (map proposal_key (ch_proposals ch)) \<and>
     (\<forall>p \<in> set (ch_proposals ch). pr_id p < ch_next_proposal_id ch) \<and>
     distinct (map (\<lambda>r. (rap_account r, rap_proposal r)) (ch_required ch)) \<and>
     (\<lambda>r. (rap_account r, rap_proposal r)) ` set (ch_required ch) = approval_rows (ch_proposals ch))"

definition keeps_proposals :: "applier \<Rightarrow> bool" where
  "keeps_proposals app = (\<forall>o' ch ch'. app o' ch = Some (Inr ch') \<longrightarrow> proposals_ok ch \<longrightarrow> proposals_ok ch')"

lemma apply_operations_ok:
  "apply_operations app ops ch = Some (Inr ch') \<Longrightarrow> keeps_proposals app \<Longrightarrow> proposals_ok ch \<Longrightarrow> proposals_ok ch'"
  by (induction ops arbitrary: ch) (auto simp: keeps_proposals_def split: option.splits sum.splits)

lemma remove_proposal_ok:
  assumes "remove_proposal i ch = Inr ch'" and "proposals_ok ch"
  shows "proposals_ok ch'"
proof -
  let ?k = "\<lambda>r. (rap_account r, rap_proposal r)"
  from assms(1) obtain p where p: "find_row pr_id i (ch_proposals ch) = Some p"
    and ch': "ch' = ch\<lparr>ch_required := filter (\<lambda>r. \<not> (rap_account r \<in> set (required_total p) \<and> rap_proposal r = i)) (ch_required ch),
      ch_proposals := remove_row pr_id i (ch_proposals ch)\<rparr>"
    by (auto simp: remove_proposal_def split: option.splits)
  have pi: "pr_id p = i" "p \<in> set (ch_proposals ch)" using p by (auto dest: find_row_key find_row_set)
  have inj: "q = p" if "q \<in> set (ch_proposals ch)" "pr_id q = i" for q
    using assms(2) that pi by (auto simp: proposals_ok_def distinct_map inj_on_def)
  have "?k ` set (ch_required ch') = ?k ` set (ch_required ch) - {(a, j). a \<in> set (required_total p) \<and> j = i}"
    by (auto simp: ch')
  also have "\<dots> = approval_rows (ch_proposals ch) - {(a, j). a \<in> set (required_total p) \<and> j = i}"
    using assms(2) by (simp add: proposals_ok_def)
  also have "\<dots> = approval_rows (ch_proposals ch')"
    using inj by (auto simp: approval_rows_def ch' remove_row_def)
  finally show ?thesis using assms(2) by (auto simp: proposals_ok_def ch' remove_row_def distinct_map inj_on_def)
qed

lemma push_proposal_ok:
  "push_proposal app i ch = Some (Inr ch') \<Longrightarrow> keeps_proposals app \<Longrightarrow> proposals_ok ch \<Longrightarrow> proposals_ok ch'"
  by (auto simp: push_proposal_def split: option.splits sum.splits dest: apply_operations_ok remove_proposal_ok)

lemma try_push_ok:
  "try_push app i ch = Some (Inr ch') \<Longrightarrow> keeps_proposals app \<Longrightarrow> proposals_ok ch \<Longrightarrow> proposals_ok ch'"
  by (auto simp: try_push_def split: option.splits sum.splits if_splits dest: push_proposal_ok)

lemma update_approvals_fields [simp]:
  "pr_id (update_approvals x p) = pr_id p" "pr_author (update_approvals x p) = pr_author p" "pr_title (update_approvals x p) = pr_title p"
  "required_total (update_approvals x p) = required_total p" "pr_operations (update_approvals x p) = pr_operations p"
  by (simp_all add: update_approvals_def required_total_def)

lemma update_rows_ok:
  assumes "proposals_ok ch"
  shows "proposals_ok (ch\<lparr>ch_proposals := modify_row pr_id i (update_approvals x) (ch_proposals ch)\<rparr>)"
proof -
  let ?ps = "ch_proposals ch" and ?qs = "modify_row pr_id i (update_approvals x) (ch_proposals ch)"
  have ids: "map pr_id ?qs = map pr_id ?ps" and keys: "map proposal_key ?qs = map proposal_key ?ps"
    and rows: "map (\<lambda>p. (pr_id p, required_total p)) ?qs = map (\<lambda>p. (pr_id p, required_total p)) ?ps"
    by (auto simp: modify_row_def)
  from rows have "approval_rows ?qs = approval_rows ?ps" by (simp only: approval_rows_view)
  moreover have "\<forall>p \<in> set ?qs. pr_id p < ch_next_proposal_id ch"
    using assms by (auto simp: proposals_ok_def modify_row_def)
  ultimately show ?thesis using assms ids keys by (simp add: proposals_ok_def)
qed

lemma create_required_rows:
  assumes "fold_result (\<lambda>a rs. case get_account a db of Inl e \<Rightarrow> Inl e
      | Inr _ \<Rightarrow> create_row (\<lambda>r. (rap_account r, rap_proposal r)) \<lparr>rap_account = a, rap_proposal = i\<rparr> rs) as rs = Inr rs'"
    and "distinct (map (\<lambda>r. (rap_account r, rap_proposal r)) rs)"
  shows "distinct (map (\<lambda>r. (rap_account r, rap_proposal r)) rs') \<and>
    (\<lambda>r. (rap_account r, rap_proposal r)) ` set rs' = (\<lambda>r. (rap_account r, rap_proposal r)) ` set rs \<union> (\<lambda>a. (a, i)) ` set as"
  using assms
proof (induction as arbitrary: rs)
  case (Cons a as)
  then obtain rs1 where 1: "create_row (\<lambda>r. (rap_account r, rap_proposal r)) \<lparr>rap_account = a, rap_proposal = i\<rparr> rs = Inr rs1"
    and 2: "fold_result (\<lambda>a rs. case get_account a db of Inl e \<Rightarrow> Inl e
      | Inr _ \<Rightarrow> create_row (\<lambda>r. (rap_account r, rap_proposal r)) \<lparr>rap_account = a, rap_proposal = i\<rparr> rs) as rs1 = Inr rs'"
    by (auto simp: run_simps)
  from 1 have rs1: "rs1 = rs @ [\<lparr>rap_account = a, rap_proposal = i\<rparr>]" and "(a, i) \<notin> (\<lambda>r. (rap_account r, rap_proposal r)) ` set rs"
    by (auto simp: create_row_def split: if_splits)
  with Cons.prems(2) have "distinct (map (\<lambda>r. (rap_account r, rap_proposal r)) rs1)" by auto
  from Cons.IH [OF 2 this] rs1 show ?case by auto
qed simp

lemma store_proposal_ok:
  assumes "store_proposal p ch = Inr ch'" and "proposals_ok ch" and "pr_id p = ch_next_proposal_id ch"
  shows "proposals_ok ch'"
proof -
  let ?k = "\<lambda>r. (rap_account r, rap_proposal r)"
  from assms(1) obtain rs where key: "proposal_key p \<notin> set (map proposal_key (ch_proposals ch))"
    and rs: "fold_result (\<lambda>a rs. case get_account a (ch_db ch) of Inl e \<Rightarrow> Inl e
        | Inr _ \<Rightarrow> create_row ?k \<lparr>rap_account = a, rap_proposal = pr_id p\<rparr> rs) (required_total p) (ch_required ch) = Inr rs"
    and ch': "ch' = ch\<lparr>ch_proposals := ch_proposals ch @ [p], ch_next_proposal_id := ch_next_proposal_id ch + 1, ch_required := rs\<rparr>"
    by (auto simp: store_proposal_def create_row_def run_simps)
  from create_required_rows [OF rs] assms(2) have d: "distinct (map ?k rs)"
    and k: "?k ` set rs = ?k ` set (ch_required ch) \<union> (\<lambda>a. (a, pr_id p)) ` set (required_total p)" by (auto simp: proposals_ok_def)
  have "?k ` set rs = approval_rows (ch_proposals ch) \<union> (\<lambda>a. (a, pr_id p)) ` set (required_total p)"
    using assms(2) k by (simp add: proposals_ok_def)
  also have "\<dots> = approval_rows (ch_proposals ch @ [p])" by (auto simp: approval_rows_view)
  finally show ?thesis using assms(2,3) key d by (auto simp: proposals_ok_def ch')
qed

lemma proposal_create_ok:
  "proposal_create_apply env app depth h ops ch = Some (Inr ch') \<Longrightarrow> proposals_ok ch \<Longrightarrow> proposals_ok ch'"
  by (auto simp: proposal_create_apply_def new_proposal_def Let_def split: option.splits sum.splits if_splits dest: store_proposal_ok)

lemma proposal_delete_ok: "proposal_delete_apply x ch = Inr ch' \<Longrightarrow> proposals_ok ch \<Longrightarrow> proposals_ok ch'"
  by (auto simp: proposal_delete_apply_def run_simps split: if_splits dest: remove_proposal_ok)

lemma proposal_update_ok:
  assumes "proposal_update_apply env app depth x ch = Some (Inr ch')" and "keeps_proposals app" and "proposals_ok ch"
  shows "proposals_ok ch'"
  using assms update_rows_ok [OF assms(3)]
  by (auto simp: proposal_update_apply_def Let_def split: option.splits sum.splits if_splits dest: try_push_ok remove_proposal_ok)

lemma proposals_ok_db [simp]: "proposals_ok (ch\<lparr>ch_db := db\<rparr>) = proposals_ok ch"
  by (simp add: proposals_ok_def)

lemma apply_operation_keeps: "keeps_proposals (apply_operation env n creates updates)"
proof (induction n arbitrary: creates updates)
  case 0
  then show ?case by (simp add: keeps_proposals_def apply_operation.simps)
next
  case (Suc n)
  show ?case
    unfolding keeps_proposals_def
  proof (intro allI impI)
    fix o' ch ch'
    assume run: "apply_operation env (Suc n) creates updates o' ch = Some (Inr ch')" and ok: "proposals_ok ch"
    show "proposals_ok ch'"
    proof (cases o')
      case (Proposal_create h ops)
      with run ok show ?thesis by (auto simp: apply_operation.simps dest: proposal_create_ok)
    next
      case (Proposal_update x)
      with run ok show ?thesis using Suc.IH by (auto simp: apply_operation.simps dest: proposal_update_ok)
    next
      case (Proposal_delete x)
      with run ok show ?thesis by (auto simp: apply_operation.simps dest: proposal_delete_ok)
    qed (use run ok in \<open>auto simp: apply_operation.simps split: sum.splits\<close>)
  qed
qed

text \<open>
  C8: The table that tells accounts what awaits their approval is exact, whatever operations are applied, however
  deeply proposals run other proposals: proposals keep their ids and their (author, title) apart, and the
  table has one row for each account a stored proposal needs, and no other.
\<close>
theorem required_approvals_exact:
  assumes "apply_operations (apply_operation env n creates updates) ops ch = Some (Inr ch')" and "proposals_ok ch"
  shows "proposals_ok ch'"
  using apply_operations_ok [OF assms(1) apply_operation_keeps assms(2)] .

section \<open>Who approved what is run\<close>

lemma authority_env_errors:
  "relevant_errors (env_get_active (authority_env db))" "relevant_errors (env_get_master (authority_env db))"
  "relevant_errors (env_get_regular (authority_env db))"
  by (auto simp: relevant_errors_def authority_env_def Let_def get_authority_def split: option.splits)

lemma authorized_passed: "is_authorized_to_execute p db \<Longrightarrow> passed (proposal_env p [] [] [] db) (verify_proposal p [] [] [] db)"
  using authority_env_errors [of db]
  by (auto simp: is_authorized_to_execute_def passed_def proposal_env_def verified_def split: sum.splits error.splits)

lemma remove_proposal_db: "remove_proposal i ch = Inr ch' \<Longrightarrow> ch_db ch' = ch_db ch"
  by (auto simp: remove_proposal_def split: option.splits)

text \<open>
  C7: An approval that changes anything beyond the tables of proposals ran a proposal whose every operation is
  authorised: the accounts each proposed operation acts for have approved the proposal, or their authorities are
  satisfied by the approving keys and accounts, exactly as the signatures of a transaction with these operations would
  have to be.
\<close>
theorem proposal_runs_only_approved:
  assumes "apply_operation env n creates updates (Proposal_update x) ch = Some (Inr ch')" and "ch_db ch' \<noteq> ch_db ch"
  shows "\<exists>p \<in> set (ch_proposals ch). proposal_key p = (pu_author x, pu_title x) \<and>
    (\<forall>o' \<in> set (pr_operations p). authorised_by (proposal_env (update_approvals x p) [] [] [] (ch_db ch))
       (set (pr_available_keys (update_approvals x p))) (pr_operations p) o')"
proof -
  obtain m where m: "n = Suc m" using assms(1) by (cases n) (auto simp: apply_operation.simps)
  then have "proposal_update_apply env (apply_operation env m creates (Suc updates)) (Suc updates) x ch = Some (Inr ch')"
    using assms(1) by (simp add: apply_operation.simps)
  then obtain p where p: "find_row proposal_key (pu_author x, pu_title x) (ch_proposals ch) = Some p"
    and auth: "is_authorized_to_execute (update_approvals x p) (ch_db ch)"
    using assms(2) by (auto simp: proposal_update_apply_def get_proposal_def Let_def split: option.splits sum.splits if_splits dest: remove_proposal_db)
  have "authorised_by (proposal_env (update_approvals x p) [] [] [] (ch_db ch)) (set (pr_available_keys (update_approvals x p))) (pr_operations p) o'"
    if "o' \<in> set (pr_operations p)" for o'
    using passed_authorised [OF authorized_passed [OF auth, unfolded verify_proposal_def]] that by simp
  with find_row_key [OF p] find_row_set [OF p] show ?thesis by blast
qed

section \<open>Outside production nested proposals need not return\<close>

text \<open>
  Two proposals of alice whose operations withdraw and renew her approval of the other one.
\<close>

definition toggle_op :: "string \<Rightarrow> account_name_type list \<Rightarrow> account_name_type list \<Rightarrow> proposal_update_operation" where
  "toggle_op t added removed = \<lparr>pu_author = ''alice'', pu_title = t,
     pu_active_approvals_to_add = added, pu_active_approvals_to_remove = removed, pu_master_approvals_to_add = [],
     pu_master_approvals_to_remove = [], pu_regular_approvals_to_add = [], pu_regular_approvals_to_remove = [],
     pu_key_approvals_to_add = [], pu_key_approvals_to_remove = []\<rparr>"

abbreviation toggle :: "string \<Rightarrow> account_name_type list \<Rightarrow> account_name_type list \<Rightarrow> operation" where
  "toggle t added removed \<equiv> Proposal_update (toggle_op t added removed)"

definition toggles :: "string \<Rightarrow> operation list" where
  "toggles t = [toggle t [] [''alice''], toggle t [''alice''] []]"

definition toggling :: "nat \<Rightarrow> string \<Rightarrow> string \<Rightarrow> account_name_type list \<Rightarrow> proposal_object" where
  "toggling i title other approvals = \<lparr>pr_id = i, pr_author = ''alice'', pr_title = title, pr_memo = [],
     pr_expiration_time = 1001000, pr_review_period_time = None, pr_operations = toggles other,
     pr_required_active = [''alice''], pr_available_active = approvals, pr_required_master = [], pr_available_master = [],
     pr_required_regular = [], pr_available_regular = [], pr_available_keys = []\<rparr>"

definition alice_authority :: authority where
  "alice_authority = \<lparr>weight_threshold = 1, account_auths = [], key_auths = [(''KA'', 1)]\<rparr>"

definition alice_known :: "database \<Rightarrow> bool" where
  "alice_known db = (find_row aa_account ''alice'' (db_authorities db) = Some \<lparr>aa_account = ''alice'', aa_master = alice_authority,
     aa_active = alice_authority, aa_regular = alice_authority, aa_last_master_update = 0\<rparr> \<and> head_block_time db = 1000000)"

lemma required_toggles:
  "get_required_authorities (toggles t) = \<lparr>req_active = [''alice''], req_master = [], req_regular = [], req_other = []\<rparr>"
  by (simp add: toggles_def toggle_op_def get_required_authorities_def operation_get_required_authorities_def
      get_required_active_def get_required_master_def get_required_regular_def get_required_other_def
      proposal_key_authority_def flat_insert_all_def empty_authority_def Let_def)

lemma toggling_fields [simp]:
  "pr_id (toggling i t u as) = i" "pr_author (toggling i t u as) = ''alice''" "pr_title (toggling i t u as) = t"
  "pr_review_period_time (toggling i t u as) = None" "pr_operations (toggling i t u as) = toggles u"
  by (simp_all add: toggling_def)

lemma verify_toggling:
  assumes "alice_known db"
  shows "verify_proposal (toggling i t u []) [] [] [] db = Inl (Tx_missing_active_auth [''alice''] [])"
    and "verify_proposal (toggling i t u []) [''alice''] [] [] db = Inr ()"
    and "verify_proposal (toggling i t u [''alice'']) [] [] [] db = Inr ()"
  using assms
  by (simp_all add: verify_proposal_def required_toggles verify_authority_def verify_active_def proposal_env_def
      authority_env_def alice_known_def get_authority_def alice_authority_def toggling_def add_approvals_def flat_insert_all_def
      init_sign_state_def check_account_authority_def check_getter_def signed_by_def signatures_used_def
      assert_unused_approvals_def remove_unused_signatures_def filter_unused_approvals_def Let_def)

lemma authorized_toggling:
  assumes "alice_known db"
  shows "\<not> is_authorized_to_execute (toggling i t u []) db" and "is_authorized_to_execute (toggling i t u [''alice'']) db"
  using assms by (simp_all add: is_authorized_to_execute_def verify_toggling)

text \<open>Withdrawing the approval does nothing else, renewing it runs the proposal.\<close>

lemma toggling_toggled:
  "update_approvals (toggle_op t [] [''alice'']) (toggling i t u [''alice'']) = toggling i t u []"
  "update_approvals (toggle_op t [''alice''] []) (toggling i t u []) = toggling i t u [''alice'']"
  by (simp_all add: update_approvals_def toggle_op_def toggling_def remove_existing_def flat_insert_all_def)

lemma toggle_checks:
  "update_checks (toggle_op t [] [''alice'']) (toggling i t u [''alice'']) now = Inr ()"
  "update_checks (toggle_op t [''alice''] []) (toggling i t u []) now = Inr ()"
  by (simp_all add: update_checks_def toggle_op_def toggling_def all_ok_Inr fc_assert_def Let_def del: all_ok.simps)

lemma toggle_names [simp]: "pu_author (toggle_op t as bs) = ''alice''" "pu_title (toggle_op t as bs) = t"
  by (simp_all add: toggle_op_def)

lemma withdraw_approval:
  assumes "alice_known (ch_db ch)" and "get_proposal ''alice'' t ch = Inr (toggling i t u [''alice''])" and "\<not> ev_producing (ce_eval env)"
  shows "apply_operation env (Suc n) c d (toggle t [] [''alice'']) ch = Some (Inr (ch\<lparr>ch_proposals :=
    modify_row pr_id i (update_approvals (toggle_op t [] [''alice''])) (ch_proposals ch)\<rparr>))"
  using assms by (simp add: apply_operation.simps proposal_update_apply_def toggle_checks toggling_toggled authorized_toggling
      verify_toggling numeral_3_eq_3 flat_insert_all_def Let_def)

lemma renew_approval:
  assumes "alice_known (ch_db ch)" and "get_proposal ''alice'' t ch = Inr (toggling i t u [])" and "\<not> ev_producing (ce_eval env)"
  shows "apply_operation env (Suc n) c d (toggle t [''alice''] []) ch = try_push (apply_operation env n c (Suc d)) i
    (ch\<lparr>ch_proposals := modify_row pr_id i (update_approvals (toggle_op t [''alice''] [])) (ch_proposals ch)\<rparr>)"
  using assms by (simp add: apply_operation.simps proposal_update_apply_def toggle_checks toggling_toggled authorized_toggling
      verify_toggling numeral_3_eq_3 Let_def)

definition entangled :: "account_name_type list \<Rightarrow> account_name_type list \<Rightarrow> proposal_object list" where
  "entangled as bs = [toggling 1 ''b'' ''a'' bs, toggling 2 ''a'' ''b'' as]"

lemma get_entangled:
  assumes "ch_proposals ch = entangled as bs"
  shows "get_proposal ''alice'' ''a'' ch = Inr (toggling 2 ''a'' ''b'' as)" and "get_proposal ''alice'' ''b'' ch = Inr (toggling 1 ''b'' ''a'' bs)"
  using assms by (simp_all add: get_proposal_def entangled_def)

lemma modify_entangled:
  "modify_row pr_id 1 (update_approvals (toggle_op ''b'' [] [''alice''])) (entangled as [''alice'']) = entangled as []"
  "modify_row pr_id 1 (update_approvals (toggle_op ''b'' [''alice''] [])) (entangled as []) = entangled as [''alice'']"
  "modify_row pr_id 2 (update_approvals (toggle_op ''a'' [] [''alice''])) (entangled [''alice''] bs) = entangled [] bs"
  "modify_row pr_id 2 (update_approvals (toggle_op ''a'' [''alice''] [])) (entangled [] bs) = entangled [''alice''] bs"
  by (simp_all add: entangled_def toggling_toggled)

text \<open>Running one of them runs the other in the same state, for ever.\<close>

lemma entangled_never_return:
  assumes "\<not> ev_producing (ce_eval env)"
  shows "alice_known (ch_db ch) \<Longrightarrow> ch_proposals ch = entangled [''alice''] [''alice''] \<Longrightarrow>
    push_proposal (apply_operation env n c d) 1 ch = None \<and> push_proposal (apply_operation env n c d) 2 ch = None"
proof (induction n arbitrary: ch c d)
  case 0
  then show ?case by (simp add: push_proposal_def entangled_def toggles_def apply_operation.simps)
next
  case (Suc n)
  note get = get_entangled [OF Suc.prems(2)]
  let ?app = "apply_operation env (Suc n) c d"
  let ?ch = "ch\<lparr>ch_proposals := entangled [''alice''] [''alice'']\<rparr>"
  have ih: "push_proposal (apply_operation env n c (Suc d)) 1 ?ch = None \<and> push_proposal (apply_operation env n c (Suc d)) 2 ?ch = None"
    using Suc.prems by (intro Suc.IH) simp_all
  have "apply_operations ?app (toggles ''a'') ch = None"
    using ih Suc.prems
    by (simp add: toggles_def withdraw_approval [OF _ get(1) assms] renew_approval [OF _ get_entangled(1) assms]
        modify_entangled try_push_def del: One_nat_def)
  moreover have "apply_operations ?app (toggles ''b'') ch = None"
    using ih Suc.prems
    by (simp add: toggles_def withdraw_approval [OF _ get(2) assms] renew_approval [OF _ get_entangled(2) assms]
        modify_entangled try_push_def del: One_nat_def)
  ultimately show ?case using Suc.prems by (simp add: push_proposal_def entangled_def)
qed

text \<open>A transaction of a known account is charged without failing when the node is not producing.\<close>

lemma charge_runs:
  assumes "find_row acc_name n (db_accounts db) = Some a" and "bandwidth_reserve_candidates (db_dgp db) \<noteq> 0" and "\<not> ev_producing (ce_eval env)"
  shows "\<exists>accs b. charge env bytes n db = Inr (db\<lparr>db_accounts := accs\<rparr>) \<and> find_row acc_name n accs = Some b"
proof (cases "amount (total_vesting_shares (db_dgp db)) > 0")
  case True
  let ?b = "a\<lparr>acc_average_bandwidth := used_bandwidth (head_block_time db) a + u32 bytes * CHAIN_BANDWIDTH_PRECISION,
    acc_lifetime_bandwidth := acc_lifetime_bandwidth a + u32 bytes * CHAIN_BANDWIDTH_PRECISION, acc_last_bandwidth_update := head_block_time db\<rparr>"
  let ?accs = "modify_row acc_name n (\<lambda>_. ?b) (db_accounts db)"
  have k: "acc_name a = n" using find_row_key [OF assms(1)] .
  then have f: "find_row acc_name n ?accs = Some ?b" using assms(1) by (simp add: find_modify_row)
  have "\<exists>ok. has_bandwidth ?b (db\<lparr>db_accounts := ?accs\<rparr>) = Inr ok"
    using assms(2) by (simp add: has_bandwidth_def Let_def)
  then show ?thesis using assms True f
    by (auto simp: charge_def update_account_bandwidth_def modify_account_def update_row_def get_account_def Let_def simp del: CHAIN_BANDWIDTH_PRECISION_def)
next
  case False
  then show ?thesis using assms(1) by (intro exI [of _ "db_accounts db"]) (simp add: charge_def update_account_bandwidth_def)
qed

lemma charges_run:
  assumes "find_row acc_name n (db_accounts db) = Some a" and "bandwidth_reserve_candidates (db_dgp db) \<noteq> 0" and "\<not> ev_producing (ce_eval env)"
  shows "\<exists>accs b. fold_result (\<lambda>_. charge env bytes n) xs db = Inr (db\<lparr>db_accounts := accs\<rparr>) \<and> find_row acc_name n accs = Some b"
  using assms(1,2)
proof (induction xs arbitrary: db a)
  case Nil
  then show ?case by (intro exI [of _ "db_accounts db"]) simp
next
  case (Cons x xs)
  from charge_runs [OF Cons.prems assms(3)] obtain accs b
    where 1: "charge env bytes n db = Inr (db\<lparr>db_accounts := accs\<rparr>)" "find_row acc_name n accs = Some b" by blast
  from Cons.IH [of "db\<lparr>db_accounts := accs\<rparr>" b] 1(2) Cons.prems(2) 1(1) show ?case by auto
qed

lemma charge_account_runs:
  assumes "find_row acc_name n (db_accounts db) = Some a" and "bandwidth_reserve_candidates (db_dgp db) \<noteq> 0" and "\<not> ev_producing (ce_eval env)"
  shows "\<exists>accs b. charge_account env trx n db = Inr (db\<lparr>db_accounts := accs\<rparr>) \<and> find_row acc_name n accs = Some b"
proof -
  from charge_runs [OF assms] obtain accs b
    where 1: "charge env (transaction_pack_size (ce_block env) trx) n db = Inr (db\<lparr>db_accounts := accs\<rparr>)" "find_row acc_name n accs = Some b" by blast
  have "find_row acc_name n (db_accounts (db\<lparr>db_accounts := accs\<rparr>)) = Some b" "bandwidth_reserve_candidates (db_dgp (db\<lparr>db_accounts := accs\<rparr>)) \<noteq> 0"
    using 1(2) assms(2) by simp_all
  note charges_run [OF this assms(3)]
  then show ?thesis using 1 assms(1) by (fastforce simp: charge_account_def get_account_def Let_def)
qed

text \<open>Creating a proposal succeeds when its checks pass and its operations apply.\<close>

lemma dry_run:
  assumes "\<not> ev_producing (ce_eval env)" and "transaction_validate (ev_text (ce_eval env)) ops = Inr ()"
    and "all_required ops = [n]" and "find_row acc_name n (db_accounts (ch_db ch)) = Some a"
    and "bandwidth_reserve_candidates (db_dgp (ch_db ch)) \<noteq> 0" and "ch_transactions ch = []"
    and "\<forall>accs b rows. find_row acc_name n accs = Some b \<longrightarrow>
      (\<exists>ch'. apply_operations app ops (ch\<lparr>ch_db := (ch_db ch)\<lparr>db_accounts := accs\<rparr>, ch_transactions := rows\<rparr>) = Some (Inr ch'))"
  shows "\<exists>s. validate_transaction env app proposal_create_skip (proposed_transaction ops (ch_db ch)) ch = Some (Inr s)"
proof -
  let ?trx = "proposed_transaction ops (ch_db ch)"
  from charge_account_runs [OF assms(4,5,1)] obtain accs b
    where 1: "charge_account env ?trx n (ch_db ch) = Inr ((ch_db ch)\<lparr>db_accounts := accs\<rparr>)" "find_row acc_name n accs = Some b" by blast
  from assms(7) 1(2) obtain ch' where "apply_operations app ops (ch\<lparr>ch_db := (ch_db ch)\<lparr>db_accounts := accs\<rparr>,
      ch_transactions := [\<lparr>to_trx_id = ce_trx_id env ?trx, to_expiration = tx_expiration ?trx\<rparr>]\<rparr>) = Some (Inr ch')" by blast
  moreover have "validate_transaction_now env proposal_create_skip ?trx ch = Inr ()"
    "validate_transaction_now env (proposal_create_skip \<union> validate_transaction_steps) ?trx ch = Inr ()"
    using assms(2) by (simp_all add: validate_transaction_now_def proposal_create_skip_def validate_transaction_steps_def
        proposed_transaction_def all_ok_Inr Let_def del: all_ok.simps)
  ultimately show ?thesis using assms(3,6) 1
    by (simp add: validate_transaction_def apply_transaction_def record_transaction_def create_row_def proposed_transaction_def)
      (auto simp: proposal_create_skip_def validate_transaction_steps_def)
qed

subsection \<open>Reaching the two proposals\<close>

definition idle :: operation where
  "idle = Custom \<lparr>cu_required_active_auths = [''alice''], cu_required_regular_auths = [], cu_id = ''idle'', cu_json = []\<rparr>"

definition placeholder :: "account_name_type list \<Rightarrow> proposal_object" where
  "placeholder approvals = (toggling 0 ''a'' ''b'' approvals)\<lparr>pr_review_period_time := Some 1000500, pr_operations := [idle]\<rparr>"

definition sample_header :: "string \<Rightarrow> int option \<Rightarrow> proposal_header" where
  "sample_header t review = \<lparr>pc_author = ''alice'', pc_title = t, pc_memo = [], pc_expiration_time = 1001000, pc_review_period_time = review\<rparr>"

lemma sample_header_fields [simp]:
  "pc_author (sample_header t r) = ''alice''" "pc_title (sample_header t r) = t" "pc_memo (sample_header t r) = []"
  "pc_expiration_time (sample_header t r) = 1001000" "pc_review_period_time (sample_header t r) = r"
  by (simp_all add: sample_header_def)

definition sample_chain_env :: chain_env where
  "sample_chain_env = \<lparr>ce_eval = sample_eval_env, ce_block = sample_block_env, ce_trx_id = (\<lambda>_. []), ce_recover = (\<lambda>_ s. s),
     ce_checksum = (\<lambda>_. [])\<rparr>"

definition sample_chain :: chain where
  "sample_chain = \<lparr>ch_db = sample_db\<lparr>db_authorities := [\<lparr>aa_account = ''alice'', aa_master = alice_authority,
       aa_active = alice_authority, aa_regular = alice_authority, aa_last_master_update = 0\<rparr>]\<rparr>,
     ch_hpo = sample_hpo, ch_proposals = [], ch_next_proposal_id = 0, ch_required = [], ch_transactions = [],
     ch_summaries = (\<lambda>_. zero_id), ch_validations = []\<rparr>"

definition with_proposals :: "proposal_object list \<Rightarrow> nat \<Rightarrow> chain" where
  "with_proposals ps i = sample_chain\<lparr>ch_proposals := ps, ch_next_proposal_id := i,
     ch_required := map (\<lambda>p. \<lparr>rap_account = ''alice'', rap_proposal = pr_id p\<rparr>) ps\<rparr>"

lemma with_proposals_fields [simp]:
  "ch_proposals (with_proposals ps i) = ps" "ch_next_proposal_id (with_proposals ps i) = i" "ch_transactions (with_proposals ps i) = []"
  "ch_db (with_proposals ps i) = ch_db sample_chain"
  "ch_required (with_proposals ps i) = map (\<lambda>p. \<lparr>rap_account = ''alice'', rap_proposal = pr_id p\<rparr>) ps"
  by (simp_all add: with_proposals_def sample_chain_def)

lemma sample_chain_alice:
  "alice_known ((ch_db sample_chain)\<lparr>db_accounts := accs\<rparr>)" "alice_known (ch_db sample_chain)"
  "\<exists>a. find_row acc_name ''alice'' (db_accounts (ch_db sample_chain)) = Some a" "head_block_time (ch_db sample_chain) = 1000000"
  "bandwidth_reserve_candidates (db_dgp (ch_db sample_chain)) \<noteq> 0" "\<not> ev_producing (ce_eval sample_chain_env)"
  "get_account ''alice'' (ch_db sample_chain) \<noteq> Inl e"
  by (simp_all add: alice_known_def sample_chain_def sample_defs sample_chain_env_def sample_eval_env_def get_account_def)

lemma required_idle: "get_required_authorities [idle] = \<lparr>req_active = [''alice''], req_master = [], req_regular = [], req_other = []\<rparr>"
  by (simp add: idle_def get_required_authorities_def operation_get_required_authorities_def
      get_required_active_def get_required_master_def get_required_regular_def get_required_other_def flat_insert_all_def)

lemma all_required_sample: "all_required [idle] = [''alice'']" "all_required (toggles t) = [''alice'']"
  by (simp_all add: all_required_def idle_def toggles_def toggle_op_def get_required_active_def get_required_master_def
      get_required_regular_def flat_insert_all_def)

lemma valid_sample:
  "transaction_validate (ev_text (ce_eval sample_chain_env)) [idle] = Inr ()"
  "t \<noteq> [] \<Longrightarrow> transaction_validate (ev_text (ce_eval sample_chain_env)) (toggles t) = Inr ()"
  by (simp_all add: transaction_validate_def idle_def toggles_def toggle_op_def validate_custom_def validate_proposal_update_def
      validate_account_name_def sample_names sample_chain_env_def sample_eval_env_def any_text_def all_ok_Inr fc_assert_def Let_def
      del: all_ok.simps)

text \<open>Creating a proposal that needs alice, in the states of this run.\<close>

lemma create_sample:
  assumes "get_required_authorities ops = \<lparr>req_active = [''alice''], req_master = [], req_regular = [], req_other = []\<rparr>"
    and "transaction_validate (ev_text (ce_eval sample_chain_env)) ops = Inr ()" and "all_required ops = [''alice'']"
    and "review = None \<or> review = Some 1000500" and "find_row proposal_key (''alice'', t) ps = None" and "\<forall>p \<in> set ps. pr_id p \<noteq> i"
    and "\<forall>accs b rows. find_row acc_name ''alice'' accs = Some b \<longrightarrow>
      (\<exists>ch'. apply_operations (apply_operation sample_chain_env n (Suc c) d) ops
         ((with_proposals ps i)\<lparr>ch_db := (ch_db sample_chain)\<lparr>db_accounts := accs\<rparr>, ch_transactions := rows\<rparr>) = Some (Inr ch'))"
  shows "apply_operation sample_chain_env (Suc n) c d (Proposal_create (sample_header t review) ops) (with_proposals ps i) =
    Some (Inr (with_proposals (ps @ [(toggling i t [] [])\<lparr>pr_review_period_time := review, pr_operations := ops\<rparr>]) (i + 1)))"
proof -
  let ?h = "sample_header t review" and ?ch = "with_proposals ps i"
  obtain a where a: "find_row acc_name ''alice'' (db_accounts (ch_db sample_chain)) = Some a" using sample_chain_alice(3) by blast
  have p: "new_proposal ?h ops i = (toggling i t [] [])\<lparr>pr_review_period_time := review, pr_operations := ops\<rparr>"
    using assms(1) by (simp add: new_proposal_def toggling_def remove_existing_def Let_def)
  have rt: "required_total (new_proposal ?h ops i) = [''alice'']"
    by (simp add: p required_total_def toggling_def flat_insert_all_def)
  have "create_checks ?h ops ?ch = Inr ()"
    using assms(1,4,5) a rt sample_chain_alice(4)
    by (auto simp: create_checks_def get_account_def find_account_def all_ok_Inr Let_def p toggling_def
        simp del: all_ok.simps)
  moreover obtain s where "validate_transaction sample_chain_env (apply_operation sample_chain_env n (Suc c) d) proposal_create_skip
      (proposed_transaction ops (ch_db ?ch)) ?ch = Some (Inr s)"
    using dry_run [of sample_chain_env ops "''alice''" ?ch a "apply_operation sample_chain_env n (Suc c) d"] assms(2,3,7) a sample_chain_alice(5,6)
    by auto
  moreover have "store_proposal (new_proposal ?h ops i) ?ch = Inr (with_proposals (ps @ [new_proposal ?h ops i]) (i + 1))"
    using assms(5,6) a rt by (auto simp: store_proposal_def create_row_def find_row_None get_account_def with_proposals_def p toggling_def)
  ultimately show ?thesis using sample_chain_alice(6) by (simp add: apply_operation.simps proposal_create_apply_def p)
qed

lemma placeholder_toggled:
  assumes "get_proposal ''alice'' ''a'' ch = Inr (placeholder before)" and "head_block_time (ch_db ch) = 1000000" and "\<not> ev_producing (ce_eval env)"
    and "before = [''alice''] \<and> added = [] \<and> removed = [''alice''] \<or> before = [] \<and> added = [''alice''] \<and> removed = []"
  shows "apply_operation env (Suc n) c d (toggle ''a'' added removed) ch =
    Some (Inr (ch\<lparr>ch_proposals := modify_row pr_id 0 (update_approvals (toggle_op ''a'' added removed)) (ch_proposals ch)\<rparr>))"
proof -
  have "update_checks (toggle_op ''a'' added removed) (placeholder before) 1000000 = Inr ()"
    using assms(4) by (auto simp: update_checks_def toggle_op_def placeholder_def toggling_def all_ok_Inr fc_assert_def Let_def simp del: all_ok.simps)
  moreover have "pr_id (placeholder before) = 0" "pr_review_period_time (placeholder before) = Some 1000500" by (simp_all add: placeholder_def)
  ultimately show ?thesis using assms(1-3) by (simp add: apply_operation.simps proposal_update_apply_def Let_def)
qed

lemma modify_placeholder:
  "update_approvals (toggle_op ''a'' [] [''alice'']) (placeholder [''alice'']) = placeholder []"
  "update_approvals (toggle_op ''a'' [''alice''] []) (placeholder []) = placeholder [''alice'']"
  by (simp_all add: update_approvals_def toggle_op_def placeholder_def toggling_def remove_existing_def flat_insert_all_def)

lemma placeholder_fields [simp]: "pr_id (placeholder as) = 0" "pr_author (placeholder as) = ''alice''" "pr_title (placeholder as) = ''a''"
  by (simp_all add: placeholder_def)

lemma reach_placeholder:
  "apply_operation sample_chain_env (Suc (Suc n)) 0 0 (Proposal_create (sample_header ''a'' (Some 1000500)) [idle]) (with_proposals [] 0) =
     Some (Inr (with_proposals [placeholder []] 1))"
proof -
  have "\<exists>db'. evaluate (ce_eval sample_chain_env) idle ((ch_db sample_chain)\<lparr>db_accounts := accs\<rparr>) = Inr db'"
    if "find_row acc_name ''alice'' accs = Some b" for accs b
    using that by (simp add: evaluate_def idle_def custom_apply_def bump_sequence_def modify_account_def update_row_def
        sample_chain_env_def sample_eval_env_def)
  then have "\<exists>ch'. apply_operations (apply_operation sample_chain_env (Suc n) (Suc 0) 0) [idle]
      ((with_proposals [] 0)\<lparr>ch_db := (ch_db sample_chain)\<lparr>db_accounts := accs\<rparr>, ch_transactions := rows\<rparr>) = Some (Inr ch')"
    if "find_row acc_name ''alice'' accs = Some b" for accs b rows
    using that by (fastforce simp: apply_operation.simps idle_def)
  then show ?thesis
    using create_sample [OF required_idle valid_sample(1) all_required_sample(1), of "Some 1000500" "''a''" "[]" 0 "Suc n" 0 0]
    by (simp add: placeholder_def toggling_def)
qed

lemma reach_b:
  "apply_operation sample_chain_env (Suc (Suc n)) 0 0 (Proposal_create (sample_header ''b'' None) (toggles ''a'')) (with_proposals [placeholder [''alice'']] 1) =
     Some (Inr (with_proposals [placeholder [''alice''], toggling 1 ''b'' ''a'' []] 2))"
proof -
  have get: "get_proposal ''alice'' ''a'' ch = Inr (placeholder as)" if "ch_proposals ch = [placeholder as]" for ch as
    using that by (simp add: get_proposal_def)
  have "\<exists>ch'. apply_operations (apply_operation sample_chain_env (Suc n) (Suc 0) 0) (toggles ''a'')
      ((with_proposals [placeholder [''alice'']] 1)\<lparr>ch_db := (ch_db sample_chain)\<lparr>db_accounts := accs\<rparr>, ch_transactions := rows\<rparr>) = Some (Inr ch')"
    for accs rows
    by (simp add: toggles_def placeholder_toggled [OF get] modify_placeholder sample_chain_alice)
  then show ?thesis
    using create_sample [OF required_toggles valid_sample(2) all_required_sample(2), of "''a''" None "''b''" "[placeholder [''alice'']]" 1 "Suc n" 0 0]
    by (simp add: toggling_def numeral_2_eq_2)
qed

lemma reach_deleted:
  "apply_operation sample_chain_env (Suc n) 0 0 (Proposal_delete \<lparr>pd_author = ''alice'', pd_title = ''a'', pd_requester = ''alice''\<rparr>)
     (with_proposals [placeholder as, toggling 1 ''b'' ''a'' bs] 2) = Some (Inr (with_proposals [toggling 1 ''b'' ''a'' bs] 2))"
  by (simp add: apply_operation.simps proposal_delete_apply_def get_proposal_def remove_proposal_def required_total_def placeholder_def
      toggling_def flat_insert_all_def with_proposals_def)

text \<open>Running b while a does not exist fails, and b keeps its approval.\<close>

lemma run_b_alone:
  assumes "ch_proposals ch = [toggling 1 ''b'' ''a'' [''alice'']]" and "\<not> ev_producing (ce_eval env)"
  shows "try_push (apply_operation env (Suc n) c d) 1 ch = Some (Inr ch)"
  using assms by (simp add: try_push_def push_proposal_def toggles_def apply_operation.simps proposal_update_apply_def get_proposal_def catchable_def)

lemma reach_a:
  "apply_operation sample_chain_env (Suc (Suc (Suc n))) 0 0 (Proposal_create (sample_header ''a'' None) (toggles ''b'')) (with_proposals [toggling 1 ''b'' ''a'' [''alice'']] 2) =
     Some (Inr (with_proposals (entangled [] [''alice'']) 3))"
proof -
  have get: "get_proposal ''alice'' ''b'' ch = Inr (toggling 1 ''b'' ''a'' as)" if "ch_proposals ch = [toggling 1 ''b'' ''a'' as]" for ch as
    using that by (simp add: get_proposal_def)
  have "\<exists>ch'. apply_operations (apply_operation sample_chain_env (Suc (Suc n)) (Suc 0) 0) (toggles ''b'')
      ((with_proposals [toggling 1 ''b'' ''a'' [''alice'']] 2)\<lparr>ch_db := (ch_db sample_chain)\<lparr>db_accounts := accs\<rparr>, ch_transactions := rows\<rparr>) = Some (Inr ch')"
    for accs rows
    by (simp add: toggles_def withdraw_approval [OF _ get] renew_approval [OF _ get] toggling_toggled run_b_alone sample_chain_alice del: One_nat_def)
  then show ?thesis
    using create_sample [OF required_toggles valid_sample(2) all_required_sample(2), of "''b''" None "''a''" "[toggling 1 ''b'' ''a'' [''alice'']]" 2 "Suc (Suc n)" 0 0]
    by (simp add: entangled_def toggling_def)
qed

definition entangling :: "operation list" where
  "entangling = [Proposal_create (sample_header ''a'' (Some 1000500)) [idle], toggle ''a'' [''alice''] [],
     Proposal_create (sample_header ''b'' None) (toggles ''a''),
     Proposal_delete \<lparr>pd_author = ''alice'', pd_title = ''a'', pd_requester = ''alice''\<rparr>, toggle ''b'' [''alice''] [],
     Proposal_create (sample_header ''a'' None) (toggles ''b'')]"

lemma entangling_runs:
  "apply_operations (apply_operation sample_chain_env 3 0 0) entangling sample_chain = Some (Inr (with_proposals (entangled [] [''alice'']) 3))"
proof -
  have start: "sample_chain = with_proposals [] 0" by (simp add: with_proposals_def sample_chain_def)
  have 2: "apply_operation sample_chain_env 3 0 0 (toggle ''a'' [''alice''] []) (with_proposals [placeholder []] 1) =
      Some (Inr (with_proposals [placeholder [''alice'']] 1))"
    by (simp add: numeral_3_eq_3 placeholder_toggled [of _ "[]"] get_proposal_def sample_chain_alice modify_placeholder)
      (simp add: with_proposals_def)
  have 5: "apply_operation sample_chain_env 3 0 0 (toggle ''b'' [''alice''] []) (with_proposals [toggling 1 ''b'' ''a'' []] 2) =
      Some (Inr (with_proposals [toggling 1 ''b'' ''a'' [''alice'']] 2))"
    by (simp add: numeral_3_eq_3 renew_approval [of _ _ 1 "''a''"] get_proposal_def sample_chain_alice toggling_toggled run_b_alone del: One_nat_def)
      (simp add: with_proposals_def)
  show ?thesis
    using reach_placeholder [of 1] 2 reach_b [of 1] reach_deleted [of 2] 5 reach_a [of 0]
    by (simp add: start entangling_def numeral_3_eq_3 numeral_2_eq_2)
qed

text \<open>
  C10: A node that applies a block need not return.  With three proposals of her own, all created and approved by
  ordinary operations, alice makes two stored proposals withdraw and renew her approval of each other; her last approval
  then runs them in turns without end, whatever depth of nesting is allowed.  The limit on nested proposals does not
  help: it is only checked while a transaction is being pushed.
\<close>
theorem nested_proposals_never_return:
  "apply_operations (apply_operation sample_chain_env 3 0 0) entangling sample_chain = Some (Inr (with_proposals (entangled [] [''alice'']) 3)) \<and>
   (\<forall>n. apply_operation sample_chain_env n 0 0 (toggle ''a'' [''alice''] []) (with_proposals (entangled [] [''alice'']) 3) = None)"
proof (intro conjI allI entangling_runs)
  fix n
  let ?ch = "(with_proposals (entangled [] [''alice'']) 3)\<lparr>ch_proposals := entangled [''alice''] [''alice'']\<rparr>"
  show "apply_operation sample_chain_env n 0 0 (toggle ''a'' [''alice''] []) (with_proposals (entangled [] [''alice'']) 3) = None"
  proof (cases n)
    case (Suc m)
    have "push_proposal (apply_operation sample_chain_env m 0 (Suc 0)) 2 ?ch = None"
      using entangled_never_return [OF sample_chain_alice(6), of ?ch m 0 "Suc 0"] sample_chain_alice(2) by simp
    then show ?thesis
      by (simp add: Suc renew_approval [OF _ get_entangled(1) sample_chain_alice(6)] sample_chain_alice modify_entangled try_push_def)
  qed (simp add: apply_operation.simps)
qed

theorem producing_node_returns_witness:
  "\<exists>r. apply_operation (sample_chain_env\<lparr>ce_eval := sample_eval_env\<lparr>ev_producing := True\<rparr>\<rparr>) 5 0 0 (toggle ''a'' [''alice''] [])
     (with_proposals (entangled [] [''alice'']) 3) = Some r"
  by (rule producing_node_returns) simp_all

theorem required_approvals_exact_witness: "proposals_ok (with_proposals (entangled [] [''alice'']) 3)"
  by (rule required_approvals_exact [OF entangling_runs]) (simp add: proposals_ok_def approval_rows_def sample_chain_def)

definition idle_proposal :: "account_name_type list \<Rightarrow> proposal_object" where
  "idle_proposal as = (toggling 0 ''a'' [] as)\<lparr>pr_operations := [idle]\<rparr>"

lemma run_idle_proposal:
  "\<exists>ch'. apply_operation sample_chain_env 2 0 0 (toggle ''a'' [''alice''] []) (with_proposals [idle_proposal []] 1) = Some (Inr ch') \<and>
     ch_db ch' \<noteq> ch_db (with_proposals [idle_proposal []] 1)"
proof -
  have u: "update_approvals (toggle_op ''a'' [''alice''] []) (idle_proposal []) = idle_proposal [''alice'']"
    by (simp add: update_approvals_def toggle_op_def idle_proposal_def toggling_def remove_existing_def flat_insert_all_def)
  have c: "update_checks (toggle_op ''a'' [''alice''] []) (idle_proposal []) now = Inr ()" for now
    by (simp add: update_checks_def toggle_op_def idle_proposal_def toggling_def all_ok_Inr fc_assert_def Let_def del: all_ok.simps)
  have v: "verify_proposal (idle_proposal [''alice'']) [] [] [] (ch_db sample_chain) = Inr ()"
    using sample_chain_alice(2)
    by (simp add: verify_proposal_def idle_proposal_def required_idle verify_authority_def verify_active_def proposal_env_def
        authority_env_def alice_known_def toggling_def add_approvals_def flat_insert_all_def
        init_sign_state_def check_account_authority_def
        assert_unused_approvals_def remove_unused_signatures_def filter_unused_approvals_def Let_def)
  have f: "pr_id (idle_proposal as) = 0" "pr_author (idle_proposal as) = ''alice''" "pr_title (idle_proposal as) = ''a''"
    "pr_review_period_time (idle_proposal as) = None" "pr_operations (idle_proposal as) = [idle]" for as
    by (simp_all add: idle_proposal_def)
  obtain db' where e: "evaluate (ce_eval sample_chain_env) idle (ch_db sample_chain) = Inr db'" and d: "db' \<noteq> ch_db sample_chain"
    by (simp add: evaluate_def idle_def custom_apply_def bump_sequence_def modify_account_def update_row_def sample_chain_def
        sample_chain_env_def sample_eval_env_def sample_defs)
  have "apply_operation sample_chain_env (Suc n) c k idle ch = Some (Inr (ch\<lparr>ch_db := db'\<rparr>))" if "ch_db ch = ch_db sample_chain" for n c k ch
    using e that by (simp add: apply_operation.simps idle_def)
  then show ?thesis using d sample_chain_alice(6)
    by (simp add: numeral_2_eq_2 apply_operation.simps(2) [of _ _ _ _ "toggle _ _ _"] proposal_update_apply_def get_proposal_def u c v f
        numeral_3_eq_3 is_authorized_to_execute_def try_push_def push_proposal_def remove_proposal_def Let_def)
qed

theorem proposal_runs_only_approved_witness:
  "\<exists>p \<in> set [idle_proposal []]. proposal_key p = (''alice'', ''a'') \<and>
    (\<forall>o' \<in> set (pr_operations p). authorised_by (proposal_env (update_approvals (toggle_op ''a'' [''alice''] []) p) [] [] [] (ch_db sample_chain))
       (set (pr_available_keys (update_approvals (toggle_op ''a'' [''alice''] []) p))) (pr_operations p) o')"
proof -
  obtain ch' where "apply_operation sample_chain_env 2 0 0 (toggle ''a'' [''alice''] []) (with_proposals [idle_proposal []] 1) = Some (Inr ch')"
    "ch_db ch' \<noteq> ch_db (with_proposals [idle_proposal []] 1)" using run_idle_proposal by blast
  from proposal_runs_only_approved [OF this] show ?thesis by simp
qed

end
