(* ===== verification/Chain_Clock.thy ===== *)
theory Chain_Clock
  imports Chain_Evaluation
begin

text \<open>
  The clock of the chain, the time, the number and the id of its head block, is set by \<open>update_global_dynamic_data\<close>
  and by nothing else.
\<close>

type_synonym reading = "int \<times> int \<times> block_id_type"

definition clock :: "database \<Rightarrow> reading" where
  "clock db = (dgp_time (db_dgp db), head_block_number (db_dgp db), head_block_id (db_dgp db))"

definition dgp_clock :: "dynamic_global_property_object \<Rightarrow> reading" where
  "dgp_clock p = (dgp_time p, head_block_number p, head_block_id p)"

lemma clock_dgp_clock: "clock db = dgp_clock (db_dgp db)"
  by (simp add: clock_def dgp_clock_def)

text \<open>A result that, read by \<open>g\<close>, still shows the clock \<open>t\<close>.\<close>

definition timed_by :: "('a \<Rightarrow> reading) \<Rightarrow> reading \<Rightarrow> 'a result \<Rightarrow> bool" where
  "timed_by g t r = (case r of Inl _ \<Rightarrow> True | Inr x \<Rightarrow> g x = t)"

abbreviation timed :: "reading \<Rightarrow> database result \<Rightarrow> bool" where
  "timed \<equiv> timed_by clock"

abbreviation timed2 :: "reading \<Rightarrow> ('a \<times> database) result \<Rightarrow> bool" where
  "timed2 \<equiv> timed_by (\<lambda>x. clock (snd x))"

named_theorems clock_rules \<open>operations that keep the clock\<close>

lemma clock_fields [simp]:
  "clock (db\<lparr>db_accounts := accs\<rparr>) = clock db" "clock (db\<lparr>db_next_account_id := i\<rparr>) = clock db"
  "clock (db\<lparr>db_authorities := aus\<rparr>) = clock db" "clock (db\<lparr>db_metadata := ms\<rparr>) = clock db"
  "clock (db\<lparr>db_witnesses := ws\<rparr>) = clock db" "clock (db\<lparr>db_next_witness_id := i\<rparr>) = clock db"
  "clock (db\<lparr>db_witness_votes := vs\<rparr>) = clock db" "clock (db\<lparr>db_schedule := s\<rparr>) = clock db"
  "clock (db\<lparr>db_penalties := ps\<rparr>) = clock db" "clock (db\<lparr>db_escrows := es\<rparr>) = clock db"
  "clock (db\<lparr>db_withdraw_routes := rs\<rparr>) = clock db" "clock (db\<lparr>db_delegations := ds\<rparr>) = clock db"
  "clock (db\<lparr>db_fix_delegations := fds\<rparr>) = clock db" "clock (db\<lparr>db_delegation_expirations := des\<rparr>) = clock db"
  "clock (db\<lparr>db_master_history := mhs\<rparr>) = clock db" "clock (db\<lparr>db_recovery_requests := rrs\<rparr>) = clock db"
  "clock (db\<lparr>db_change_recovery_requests := crs\<rparr>) = clock db" "clock (db\<lparr>db_award_expires := aes\<rparr>) = clock db"
  "clock (db\<lparr>db_invites := is\<rparr>) = clock db" "clock (db\<lparr>db_next_invite_id := i\<rparr>) = clock db"
  "clock (db\<lparr>db_committee_requests := cos\<rparr>) = clock db" "clock (db\<lparr>db_next_committee_request_id := i\<rparr>) = clock db"
  "clock (db\<lparr>db_committee_votes := cvs\<rparr>) = clock db" "clock (db\<lparr>db_paid_subscriptions := pss\<rparr>) = clock db"
  "clock (db\<lparr>db_paid_subscribes := pbs\<rparr>) = clock db"
  "clock (db\<lparr>db_dgp := p\<rparr>) = (dgp_time p, head_block_number p, head_block_id p)"
  by (simp_all add: clock_def)

lemma clock_dgp [simp]: "dgp_time (db_dgp db) = fst (clock db)" "head_block_number (db_dgp db) = fst (snd (clock db))"
  "head_block_id (db_dgp db) = snd (snd (clock db))"
  by (simp_all add: clock_def)

lemma timed_Inl [clock_rules]: "timed_by g t (Inl e)"
  by (simp add: timed_by_def)

lemma timed_Inr: "g x = t \<Longrightarrow> timed_by g t (Inr x)"
  by (simp add: timed_by_def)

lemma timed_any: "timed_by (\<lambda>_. t) t m"
  by (simp add: timed_by_def split: sum.split)

lemma timed_bind:
  "timed_by g t m \<Longrightarrow> (\<And>x. g x = t \<Longrightarrow> timed_by h t (f x)) \<Longrightarrow> timed_by h t (case m of Inl e \<Rightarrow> Inl e | Inr x \<Rightarrow> f x)"
  by (cases m) (simp_all add: timed_by_def)

lemma timed_option [clock_rules]:
  "timed_by h t a \<Longrightarrow> (\<And>x. timed_by h t (f x)) \<Longrightarrow> timed_by h t (case m of None \<Rightarrow> a | Some x \<Rightarrow> f x)"
  by (auto split: option.splits)

lemma timed_list [clock_rules]:
  "timed_by h t a \<Longrightarrow> (\<And>x xs. timed_by h t (f x xs)) \<Longrightarrow> timed_by h t (case m of [] \<Rightarrow> a | x # xs \<Rightarrow> f x xs)"
  by (auto split: list.splits)

lemma timed_prod [clock_rules]: "(\<And>a b. x = (a, b) \<Longrightarrow> timed_by h t (f a b)) \<Longrightarrow> timed_by h t (case x of (a, b) \<Rightarrow> f a b)"
  by (cases x) simp

lemma timed_if [clock_rules]: "timed_by h t a \<Longrightarrow> timed_by h t b \<Longrightarrow> timed_by h t (if c then a else b)"
  by simp

lemma timed_let [clock_rules]: "(\<And>x. x = m \<Longrightarrow> timed_by h t (f x)) \<Longrightarrow> timed_by h t (let x = m in f x)"
  by simp

lemma timed_fold:
  assumes "g s = t" and "\<And>x s. g s = t \<Longrightarrow> timed_by g t (f x s)"
  shows "timed_by g t (fold_result f xs s)"
  using assms(1)
proof (induction xs arbitrary: s)
  case (Cons x xs)
  from assms(2) [OF Cons.prems, of x] Cons.IH show ?case by (cases "f x s") (simp_all add: timed_by_def)
qed (simp add: timed_by_def)

text \<open>Intermediate results with a database in them are read through it, all others do not matter.\<close>

lemmas timed_typed [clock_rules] =
  timed_bind [where g = clock] timed_bind [where g = "\<lambda>x. clock (snd x)"] timed_bind [where g = "\<lambda>x. clock (snd (snd x))"]
  timed_bind [where g = "\<lambda>x. clock (snd (snd (snd x)))"] timed_bind [where g = dgp_clock]
  timed_fold [where g = clock] timed_fold [where g = "\<lambda>x. clock (snd x)"] timed_fold [where g = "\<lambda>x. clock (snd (snd x))"]

lemmas timed_untyped = timed_bind [OF timed_any]

lemma timedD: "timed_by g t (r :: 'a result) \<Longrightarrow> r = Inr x \<Longrightarrow> g x = t"
  by (simp add: timed_by_def)

section \<open>The shared operations of the database\<close>

lemma modify_dgp_clock [clock_rules]:
  assumes "clock db = t" and "\<And>p. dgp_clock p = t \<Longrightarrow> timed_by dgp_clock t (f p)"
  shows "timed t (modify_dgp f db)"
proof -
  have "timed_by dgp_clock t (f (db_dgp db))" using assms(1) by (intro assms(2)) (simp add: clock_dgp_clock)
  then show ?thesis by (cases "f (db_dgp db)") (simp_all add: modify_dgp_def timed_by_def dgp_clock_def)
qed

lemma field_clock [clock_rules]:
  "(\<And>v. dgp_clock (upd (\<lambda>_. v) p) = t) \<Longrightarrow> timed_by dgp_clock t (add_field get upd d p)"
  "(\<And>v. dgp_clock (upd (\<lambda>_. v) p) = t) \<Longrightarrow> timed_by dgp_clock t (sub_field get upd d p)"
  by (auto simp: add_field_def sub_field_def timed_by_def split: sum.splits)

lemma dgp_clock_fields [simp]:
  "dgp_clock (p\<lparr>current_supply := v\<rparr>) = dgp_clock p" "dgp_clock (p\<lparr>total_vesting_fund := v\<rparr>) = dgp_clock p"
  "dgp_clock (p\<lparr>total_vesting_shares := v\<rparr>) = dgp_clock p" "dgp_clock (p\<lparr>committee_fund := v\<rparr>) = dgp_clock p"
  "dgp_clock (p\<lparr>total_reward_fund := v\<rparr>) = dgp_clock p"
  by (simp_all add: dgp_clock_def)

lemma database_clock1 [simp]:
  "clock (expire_award_shares_processing db) = clock db"
  by (simp_all add: expire_award_shares_processing_def Let_def split: option.split)

lemma database_clock2 [clock_rules]:
  assumes "clock db = t"
  shows "timed t (modify_account a1 b1 db)"
    and "timed t (modify_witness a2 b2 db)"
    and "timed2 t (claim_rshare_award a3 db)"
  unfolding modify_account_def modify_witness_def claim_rshare_award_def
  by (rule clock_rules | rule timed_untyped timed_any timed_Inr | use assms in \<open>simp; fail\<close> | use assms in \<open>auto; fail\<close>)+

lemma database_clock3 [clock_rules]:
  assumes "clock db = t"
  shows "timed t (adjust_balance a1 b1 db)"
    and "timed t (burn_asset a2 db)"
    and "timed t (adjust_witness_vote a3 b3 db)"
    and "timed t (clear_witness_votes a4 db)"
    and "timed t (shares_sender_recalc_energy a5 b5 db)"
  unfolding adjust_balance_def burn_asset_def adjust_witness_vote_def clear_witness_votes_def shares_sender_recalc_energy_def
  by (rule clock_rules | rule timed_untyped timed_any timed_Inr | use assms in \<open>simp; fail\<close> | use assms in \<open>auto; fail\<close>)+

lemma database_clock4 [clock_rules]:
  assumes "clock db = t"
  shows "timed t (adjust_witness_votes a1 b1 db)"
  unfolding adjust_witness_votes_def
  by (rule clock_rules | rule timed_untyped timed_any timed_Inr | use assms in \<open>simp; fail\<close> | use assms in \<open>auto; fail\<close>)+

lemma adjust_proxied_witness_votes_clock [clock_rules]: "clock db = t \<Longrightarrow> timed t (adjust_proxied_witness_votes n d depth db)"
proof (induction n d depth db rule: adjust_proxied_witness_votes.induct)
  case (1 n d depth db)
  show ?case
    unfolding adjust_proxied_witness_votes.simps [of n d depth db]
    using "1.prems" by (cases "get_account n db") (auto simp: timed_by_def split: sum.splits dest: "1.IH" database_clock2(1) [OF refl, THEN timedD] database_clock4 [OF refl, THEN timedD])
qed

lemma adjust_proxied_witness_votes_array_clock [clock_rules]: "clock db = t \<Longrightarrow> timed t (adjust_proxied_witness_votes_array n d depth db)"
proof (induction n d depth db rule: adjust_proxied_witness_votes_array.induct)
  case (1 n d depth db)
  show ?case
    unfolding adjust_proxied_witness_votes_array.simps [of n d depth db]
    using "1.prems" by (cases "get_account n db") (auto simp: timed_by_def split: sum.splits dest: "1.IH" database_clock2(1) [OF refl, THEN timedD] database_clock4 [OF refl, THEN timedD])
qed

lemma database_clock5 [clock_rules]:
  assumes "clock db = t"
  shows "timed2 t (create_vesting a1 b1 db)"
  unfolding create_vesting_def
  by (rule clock_rules | rule timed_untyped timed_any timed_Inr | use assms in \<open>simp; fail\<close> | use assms in \<open>auto; fail\<close>)+

lemma vest_route_clock [clock_rules]: "clock (snd s) = t \<Longrightarrow> timed2 t (vest_route w r s)"
  unfolding vest_route_def by (rule clock_rules | rule timed_untyped timed_any timed_Inr | simp; fail | auto; fail)+

lemma token_route_clock [clock_rules]: "clock (snd (snd s)) = t \<Longrightarrow> timed_by (\<lambda>x. clock (snd (snd x))) t (token_route w r s)"
  unfolding token_route_def by (rule clock_rules | rule timed_untyped timed_any timed_Inr | simp; fail | auto; fail)+

lemma vesting_clock1 [clock_rules]:
  assumes "clock db = t"
  shows "timed t (transfer_to_vesting_apply a1 db)"
    and "timed t (withdraw_vesting_apply a2 db)"
    and "timed t (store_route a3 b3 c3 db)"
    and "timed2 t (empty_account a4 db)"
  unfolding transfer_to_vesting_apply_def withdraw_vesting_apply_def store_route_def empty_account_def
  by (rule clock_rules | rule timed_untyped timed_any timed_Inr | use assms in \<open>simp; fail\<close> | use assms in \<open>auto; fail\<close>)+

lemma vesting_clock2 [clock_rules]:
  assumes "clock db = t"
  shows "timed t (set_withdraw_vesting_route_apply a1 db)"
    and "timed t (withdraw_account a2 db)"
    and "timed t (clear_null_account_balance db)"
    and "timed t (clear_anonymous_account_balance db)"
    and "timed t (claim_committee_account_balance db)"
  unfolding set_withdraw_vesting_route_apply_def withdraw_account_def clear_null_account_balance_def clear_anonymous_account_balance_def claim_committee_account_balance_def
  by (rule clock_rules | rule timed_untyped timed_any timed_Inr | use assms in \<open>simp; fail\<close> | use assms in \<open>auto; fail\<close>)+

lemma withdraw_loop_clock: "withdraw_loop fuel current db = Some r \<Longrightarrow> clock db = t \<Longrightarrow> timed t r"
proof (induction fuel current db rule: withdraw_loop.induct)
  case (3 fuel i db)
  have w: "clock db' = t" if "withdraw_account a db = Inr db'" for a db'
    using timedD [OF vesting_clock2(2) [OF "3.prems"(2)] that] .
  show ?case using "3.prems" by (auto simp: timed_by_def split: sum.splits if_splits dest: w "3.IH")
qed (auto simp: timed_by_def)

lemma process_vesting_withdrawals_clock [clock_rules]: "clock db = t \<Longrightarrow> timed t (process_vesting_withdrawals db)"
  by (auto simp: process_vesting_withdrawals_def timed_Inl split: option.splits intro: withdraw_loop_clock)

lemma delegation_clock1 [clock_rules]:
  assumes "clock db = t"
  shows "timed t (increase_delegation a1 b1 c1 d1 e1 db)"
    and "timed t (decrease_delegation a2 b2 c2 d2 db)"
    and "timed t (return_delegation a3 db)"
  unfolding increase_delegation_def decrease_delegation_def return_delegation_def
  by (rule clock_rules | rule timed_untyped timed_any timed_Inr | use assms in \<open>simp; fail\<close> | use assms in \<open>auto; fail\<close>)+

lemma delegation_clock2 [clock_rules]:
  assumes "clock db = t"
  shows "timed t (delegate_vesting_shares_apply a1 db)"
    and "timed t (clear_expired_delegations db)"
  unfolding delegate_vesting_shares_apply_def clear_expired_delegations_def
  by (rule clock_rules | rule timed_untyped timed_any timed_Inr | use assms in \<open>simp; fail\<close> | use assms in \<open>auto; fail\<close>)+

lemma vote_clock1 [clock_rules]:
  assumes "clock db = t"
  shows "timed t (set_proxy a1 b1 db)"
    and "timed t (add_to_votes a2 b2 db)"
    and "timed t (count_vote a3 b3 db)"
    and "timed t (change_votes a4 db)"
  unfolding set_proxy_def add_to_votes_def count_vote_def change_votes_def
  by (rule clock_rules | rule timed_untyped timed_any timed_Inr | use assms in \<open>simp; fail\<close> | use assms in \<open>auto; fail\<close>)+

lemma vote_clock2 [clock_rules]:
  assumes "clock db = t"
  shows "timed t (account_witness_proxy_apply a1 db)"
    and "timed t (revote_hf5 a2 b2 c2 db)"
    and "timed t (revote_hf4 a3 b3 c3 db)"
    and "timed t (leave_proxy a4 b4 db)"
  unfolding account_witness_proxy_apply_def revote_hf5_def revote_hf4_def leave_proxy_def
  by (rule clock_rules | rule timed_untyped timed_any timed_Inr | use assms in \<open>simp; fail\<close> | use assms in \<open>auto; fail\<close>)+

lemma vote_clock3 [clock_rules]:
  assumes "clock db = t"
  shows "timed t (cast_or_withdraw a1 b1 c1 db)"
  unfolding cast_or_withdraw_def
  by (rule clock_rules | rule timed_untyped timed_any timed_Inr | use assms in \<open>simp; fail\<close> | use assms in \<open>auto; fail\<close>)+

lemma vote_clock4 [clock_rules]:
  assumes "clock db = t"
  shows "timed t (account_witness_vote_apply a1 db)"
  unfolding account_witness_vote_apply_def
  by (rule clock_rules | rule timed_untyped timed_any timed_Inr | use assms in \<open>simp; fail\<close> | use assms in \<open>auto; fail\<close>)+

lemma account_clock1 [simp]:
  "clock (modify_authority a1 b1 db) = clock db"
  "clock (store_account_json_metadata a2 b2 c2 db) = clock db"
  by (simp_all add: modify_authority_def store_account_json_metadata_def Let_def split: option.split)

lemma account_clock2 [clock_rules]:
  assumes "clock db = t"
  shows "timed t (create_account a1 db)"
    and "timed t (create_authority a2 db)"
    and "timed t (create_metadata a3 db)"
    and "timed t (create_account_delegation a4 db)"
    and "timed_by (\<lambda>x. clock (snd (snd (snd x)))) t (anonymous_login a5 b5 c5 db)"
    and "timed t (bump_sequence a6 db)"
    and "timed t (request_account_recovery_apply a7 db)"
    and "timed t (change_recovery_account_apply a8 db)"
    and "timed t (change_recovery a9 db)"
  unfolding create_account_def create_authority_def create_metadata_def create_account_delegation_def anonymous_login_def bump_sequence_def request_account_recovery_apply_def change_recovery_account_apply_def change_recovery_def
  by (rule clock_rules | rule timed_untyped timed_any timed_Inr | use assms in \<open>simp; fail\<close> | use assms in \<open>auto; fail\<close>)+

lemma custom_apply_clock:
  assumes "clock db = t" and "\<forall>i eval. interpreters i = Some eval \<longrightarrow> (\<forall>x d. clock (snd (eval x d)) = clock d)"
  shows "timed t (custom_apply interpreters producing x db)"
proof -
  have *: "timed t (fold_result bump_sequence ns db)" for ns by (rule timed_fold) (auto intro: assms(1) account_clock2(6))
  show ?thesis
    unfolding custom_apply_def
  proof (rule timed_bind [where g = clock, OF *])
    fix db1
    assume c: "clock db1 = t"
    show "timed t (case interpreters (cu_id x) of None \<Rightarrow> Inr db1 | Some eval \<Rightarrow>
        (case eval x db1 of (Some e, db2) \<Rightarrow> if producing then Inl e else Inr db2 | (None, db2) \<Rightarrow> Inr db2))"
    proof (cases "interpreters (cu_id x)")
      case (Some eval)
      obtain r d where e: "eval x db1 = (r, d)" by (cases "eval x db1")
      with assms(2) Some have "clock (snd (eval x db1)) = clock db1" by blast
      with e c have "clock d = t" by simp
      then show ?thesis using Some e by (cases r) (simp_all add: timed_by_def)
    qed (use c in \<open>simp add: timed_by_def\<close>)
  qed
qed

lemma account_clock3 [simp]:
  "clock (change_authorities a1 db) = clock db"
  by (simp_all add: change_authorities_def Let_def split: option.split)

lemma account_clock4 [clock_rules]:
  assumes "clock db = t"
  shows "timed t (create_account_objects a1 db)"
    and "timed t (update_master_authority a2 b2 db)"
    and "timed t (account_metadata_apply a3 db)"
    and "timed_by (\<lambda>x. clock (snd (snd (snd x)))) t (next_anonymous a4 b4 db)"
    and "timed t (create_anonymous_objects a5 b5 c5 db)"
    and "timed t (account_recovery_processing db)"
  unfolding create_account_objects_def update_master_authority_def account_metadata_apply_def next_anonymous_def create_anonymous_objects_def account_recovery_processing_def
  by (rule clock_rules | rule timed_untyped timed_any timed_Inr | use assms in \<open>simp; fail\<close> | use assms in \<open>auto; fail\<close>)+

lemma account_clock5 [clock_rules]:
  assumes "clock db = t"
  shows "timed t (account_create_apply a1 db)"
    and "timed t (change_master a2 b2 db)"
    and "timed_by (\<lambda>x. clock (snd (snd (snd x)))) t (anonymous_name a3 b3 db)"
    and "timed t (recover_account_apply a4 db)"
  unfolding account_create_apply_def change_master_def anonymous_name_def recover_account_apply_def
  by (rule clock_rules | rule timed_untyped timed_any timed_Inr | use assms in \<open>simp; fail\<close> | use assms in \<open>auto; fail\<close>)+

lemma account_clock6 [clock_rules]:
  assumes "clock db = t"
  shows "timed t (account_update_apply a1 db)"
    and "timed t (create_anonymous_account a2 b2 db)"
  unfolding account_update_apply_def create_anonymous_account_def
  by (rule clock_rules | rule timed_untyped timed_any timed_Inr | use assms in \<open>simp; fail\<close> | use assms in \<open>auto; fail\<close>)+

lemma account_clock7 [clock_rules]:
  assumes "clock db = t"
  shows "timed t (fund_anonymous a1 b1 db)"
  unfolding fund_anonymous_def
  by (rule clock_rules | rule timed_untyped timed_any timed_Inr | use assms in \<open>simp; fail\<close> | use assms in \<open>auto; fail\<close>)+

lemma account_clock8 [clock_rules]:
  assumes "clock db = t"
  shows "timed t (transfer_apply a1 b1 db)"
  unfolding transfer_apply_def
  by (rule clock_rules | rule timed_untyped timed_any timed_Inr | use assms in \<open>simp; fail\<close> | use assms in \<open>auto; fail\<close>)+

lemma pay_beneficiary_clock [clock_rules]: "clock (snd s) = t \<Longrightarrow> timed2 t (pay_beneficiary tokens b s)"
  unfolding pay_beneficiary_def by (rule clock_rules | rule timed_untyped timed_any timed_Inr | simp; fail | auto; fail)+

lemma award_clock1 [simp]:
  "clock (donate a1 db) = clock db"
  by (simp_all add: donate_def Let_def split: option.split)

lemma award_clock2 [clock_rules]:
  assumes "clock db = t"
  shows "timed t (pay_receiver a1 b1 db)"
    and "timed t (spend_energy a2 b2 db)"
    and "timed2 t (award_claim a3 db)"
    and "timed2 t (fixed_award_claim a4 b4 db)"
  unfolding pay_receiver_def spend_energy_def award_claim_def fixed_award_claim_def
  by (rule clock_rules | rule timed_untyped timed_any timed_Inr | use assms in \<open>simp; fail\<close> | use assms in \<open>auto; fail\<close>)+

lemma award_clock3 [clock_rules]:
  assumes "clock db = t"
  shows "timed t (pay_award a1 b1 c1 d1 e1 db)"
  unfolding pay_award_def
  by (rule clock_rules | rule timed_untyped timed_any timed_Inr | use assms in \<open>simp; fail\<close> | use assms in \<open>auto; fail\<close>)+

lemma award_clock4 [clock_rules]:
  assumes "clock db = t"
  shows "timed t (award_apply a1 b1 db)"
    and "timed t (fixed_award_apply a2 b2 db)"
  unfolding award_apply_def fixed_award_apply_def
  by (rule clock_rules | rule timed_untyped timed_any timed_Inr | use assms in \<open>simp; fail\<close> | use assms in \<open>auto; fail\<close>)+

lemma invite_clock1 [simp]:
  "clock (close_invite a1 b1 c1 d1 db) = clock db"
  "clock (clear_used_invites db) = clock db"
  by (simp_all add: close_invite_def clear_used_invites_def Let_def split: option.split)

lemma invite_clock2 [clock_rules]:
  assumes "clock db = t"
  shows "timed t (create_invite_apply a1 db)"
    and "timed t (create_invited_objects a2 b2 db)"
  unfolding create_invite_apply_def create_invited_objects_def
  by (rule clock_rules | rule timed_untyped timed_any timed_Inr | use assms in \<open>simp; fail\<close> | use assms in \<open>auto; fail\<close>)+

lemma invite_clock3 [clock_rules]:
  assumes "clock db = t"
  shows "timed t (claim_invite_balance_apply a1 b1 db)"
    and "timed t (invite_registration_apply a2 b2 db)"
    and "timed t (use_invite_balance_apply a3 b3 db)"
  unfolding claim_invite_balance_apply_def invite_registration_apply_def use_invite_balance_apply_def
  by (rule clock_rules | rule timed_untyped timed_any timed_Inr | use assms in \<open>simp; fail\<close> | use assms in \<open>auto; fail\<close>)+

lemma committee_clock1 [simp]:
  "clock (modify_request a1 b1 db) = clock db"
  "clock (clear_closed_committee_requests db) = clock db"
  by (simp_all add: modify_request_def clear_closed_committee_requests_def Let_def split: option.split)

lemma committee_clock2 [clock_rules]:
  assumes "clock db = t"
  shows "timed t (pay_committee a1 b1 db)"
  unfolding pay_committee_def
  by (rule clock_rules | rule timed_untyped timed_any timed_Inr | use assms in \<open>simp; fail\<close> | use assms in \<open>auto; fail\<close>)+

lemma committee_clock3 [clock_rules]:
  assumes "clock db = t"
  shows "timed t (committee_worker_create_request_apply a1 db)"
    and "timed t (committee_worker_cancel_request_apply a2 db)"
    and "timed t (committee_vote_request_apply a3 db)"
    and "timed t (process_open_request a4 db)"
    and "timed t (pay_request a5 b5 db)"
  unfolding committee_worker_create_request_apply_def committee_worker_cancel_request_apply_def committee_vote_request_apply_def process_open_request_def pay_request_def
  by (rule clock_rules | rule timed_untyped timed_any timed_Inr | use assms in \<open>simp; fail\<close> | use assms in \<open>auto; fail\<close>)+

lemma committee_clock4 [clock_rules]:
  assumes "clock db = t"
  shows "timed t (committee_processing db)"
  unfolding committee_processing_def
  by (rule clock_rules | rule timed_untyped timed_any timed_Inr | use assms in \<open>simp; fail\<close> | use assms in \<open>auto; fail\<close>)+

lemma subscription_clock1 [simp]:
  "clock (modify_subscribe a1 b1 db) = clock db"
  by (simp_all add: modify_subscribe_def Let_def split: option.split)

lemma subscription_clock2 [clock_rules]:
  assumes "clock db = t"
  shows "timed t (set_paid_subscription_apply a1 db)"
    and "timed t (pay_subscription a2 b2 c2 db)"
  unfolding set_paid_subscription_apply_def pay_subscription_def
  by (rule clock_rules | rule timed_untyped timed_any timed_Inr | use assms in \<open>simp; fail\<close> | use assms in \<open>auto; fail\<close>)+

lemma subscription_clock3 [simp]:
  "clock (close_subscribe a1 db) = clock db"
  by (simp_all add: close_subscribe_def Let_def split: option.split)

lemma subscription_clock4 [clock_rules]:
  assumes "clock db = t"
  shows "timed t (change_model a1 b1 db)"
    and "timed t (new_subscribe a2 db)"
  unfolding change_model_def new_subscribe_def
  by (rule clock_rules | rule timed_untyped timed_any timed_Inr | use assms in \<open>simp; fail\<close> | use assms in \<open>auto; fail\<close>)+

lemma subscription_clock5 [clock_rules]:
  assumes "clock db = t"
  shows "timed t (renew_or_change a1 b1 db)"
    and "timed t (renew_subscribe a2 b2 db)"
  unfolding renew_or_change_def renew_subscribe_def
  by (rule clock_rules | rule timed_untyped timed_any timed_Inr | use assms in \<open>simp; fail\<close> | use assms in \<open>auto; fail\<close>)+

lemma subscription_clock6 [clock_rules]:
  assumes "clock db = t"
  shows "timed t (paid_subscribe_apply a1 db)"
    and "timed t (process_subscribe a2 db)"
  unfolding paid_subscribe_apply_def process_subscribe_def
  by (rule clock_rules | rule timed_untyped timed_any timed_Inr | use assms in \<open>simp; fail\<close> | use assms in \<open>auto; fail\<close>)+

lemma subscription_clock7 [clock_rules]:
  assumes "clock db = t"
  shows "timed t (paid_subscribe_processing db)"
  unfolding paid_subscribe_processing_def
  by (rule clock_rules | rule timed_untyped timed_any timed_Inr | use assms in \<open>simp; fail\<close> | use assms in \<open>auto; fail\<close>)+

lemma sale_clock1 [clock_rules]:
  assumes "clock db = t"
  shows "timed t (assign a1 b1 db)"
    and "timed t (return_bid a2 db)"
    and "timed t (pay_sale_fee a3 b3 c3 db)"
    and "timed t (pay_seller a4 b4 c4 db)"
    and "timed t (pay_shares a5 b5 c5 db)"
    and "timed t (create_subaccount a6 db)"
  unfolding assign_def return_bid_def pay_sale_fee_def pay_seller_def pay_shares_def create_subaccount_def
  by (rule clock_rules | rule timed_untyped timed_any timed_Inr | use assms in \<open>simp; fail\<close> | use assms in \<open>auto; fail\<close>)+

lemma sale_clock2 [clock_rules]:
  assumes "clock db = t"
  shows "timed t (drop_bid a1 db)"
    and "timed t (withdraw_sale a2 b2 c2 db)"
    and "timed t (set_subaccount_price_apply a3 db)"
    and "timed t (purchase a4 b4 c4 db)"
    and "timed t (outbid a5 b5 db)"
    and "timed t (buy_subaccount a6 b6 c6 db)"
    and "timed t (settle_auction a7 db)"
  unfolding drop_bid_def withdraw_sale_def set_subaccount_price_apply_def purchase_def outbid_def buy_subaccount_def settle_auction_def
  by (rule clock_rules | rule timed_untyped timed_any timed_Inr | use assms in \<open>simp; fail\<close> | use assms in \<open>auto; fail\<close>)+

lemma sale_clock3 [clock_rules]:
  assumes "clock db = t"
  shows "timed t (reprice a1 b1 db)"
    and "timed t (retarget a2 b2 db)"
    and "timed t (place_bid a3 b3 c3 db)"
    and "timed t (expire_auction a4 db)"
  unfolding reprice_def retarget_def place_bid_def expire_auction_def
  by (rule clock_rules | rule timed_untyped timed_any timed_Inr | use assms in \<open>simp; fail\<close> | use assms in \<open>auto; fail\<close>)+

lemma sale_clock4 [clock_rules]:
  assumes "clock db = t"
  shows "timed t (set_account_price_apply a1 db)"
    and "timed t (target_account_sale_apply a2 db)"
    and "timed t (buy_existing a3 b3 c3 d3 db)"
    and "timed t (account_on_auction_expiration db)"
  unfolding set_account_price_apply_def target_account_sale_apply_def buy_existing_def account_on_auction_expiration_def
  by (rule clock_rules | rule timed_untyped timed_any timed_Inr | use assms in \<open>simp; fail\<close> | use assms in \<open>auto; fail\<close>)+

lemma sale_clock5 [clock_rules]:
  assumes "clock db = t"
  shows "timed t (buy_account_apply a1 b1 c1 db)"
  unfolding buy_account_apply_def
  by (rule clock_rules | rule timed_untyped timed_any timed_Inr | use assms in \<open>simp; fail\<close> | use assms in \<open>auto; fail\<close>)+

lemma escrow_clock1 [simp]:
  "clock (remove_escrow a1 db) = clock db"
  by (simp_all add: remove_escrow_def Let_def split: option.split)

lemma escrow_clock2 [clock_rules]:
  assumes "clock db = t"
  shows "timed t (modify_escrow a1 b1 db)"
    and "timed t (escrow_transfer_apply a2 db)"
  unfolding modify_escrow_def escrow_transfer_apply_def
  by (rule clock_rules | rule timed_untyped timed_any timed_Inr | use assms in \<open>simp; fail\<close> | use assms in \<open>auto; fail\<close>)+

lemma escrow_clock3 [clock_rules]:
  assumes "clock db = t"
  shows "timed t (approve_to a1 b1 db)"
    and "timed t (approve_agent a2 b2 db)"
    and "timed t (escrow_dispute_apply a3 db)"
    and "timed t (escrow_release_apply a4 db)"
    and "timed t (refund_escrow a5 db)"
  unfolding approve_to_def approve_agent_def escrow_dispute_apply_def escrow_release_apply_def refund_escrow_def
  by (rule clock_rules | rule timed_untyped timed_any timed_Inr | use assms in \<open>simp; fail\<close> | use assms in \<open>auto; fail\<close>)+

lemma escrow_clock4 [clock_rules]:
  assumes "clock db = t"
  shows "timed t (escrow_approve_apply a1 db)"
    and "timed t (expire_escrow_ratification db)"
  unfolding escrow_approve_apply_def expire_escrow_ratification_def
  by (rule clock_rules | rule timed_untyped timed_any timed_Inr | use assms in \<open>simp; fail\<close> | use assms in \<open>auto; fail\<close>)+

lemma schedule_clock1 [simp]:
  "clock (set_witness a1 b1 db) = clock db"
  by (simp_all add: set_witness_def Let_def split: option.split)

lemma schedule_clock2 [clock_rules]:
  assumes "clock db = t"
  shows "timed t (create_witness a1 b1 db)"
    and "timed t (reset_virtual_schedule_time db)"
    and "timed t (update_median_witness_props db)"
  unfolding create_witness_def reset_virtual_schedule_time_def update_median_witness_props_def
  by (rule clock_rules | rule timed_untyped timed_any timed_Inr | use assms in \<open>simp; fail\<close> | use assms in \<open>auto; fail\<close>)+

lemma start_lap_clock [clock_rules]: "clock db = t \<Longrightarrow> timed2 t (start_lap v ws db)"
proof (induction ws arbitrary: db)
  case (Cons w ws)
  show ?case unfolding start_lap.simps by (rule clock_rules Cons.IH | rule timed_untyped timed_any timed_Inr | use Cons.prems in \<open>simp; fail\<close>)+
qed (simp add: timed_by_def)

lemma mark_clock [simp]: "clock (mark s ws db) = clock db"
  by (induction ws arbitrary: db) (auto simp: mark_def)

lemma schedule_clock3 [clock_rules]:
  assumes "clock db = t"
  shows "timed t (witness_update_apply a1 db)"
    and "timed t (propose a2 b2 db)"
    and "timed t (lift_penalty a3 db)"
  unfolding witness_update_apply_def propose_def lift_penalty_def
  by (rule clock_rules | rule timed_untyped timed_any timed_Inr | use assms in \<open>simp; fail\<close> | use assms in \<open>auto; fail\<close>)+

lemma schedule_clock4 [clock_rules]:
  assumes "clock db = t"
  shows "timed t (chain_properties_update_apply a1 db)"
    and "timed t (versioned_chain_properties_update_apply a2 db)"
    and "timed t (expire_penalties db)"
    and "timed2 t (advance_time a4 b4 db)"
  unfolding chain_properties_update_apply_def versioned_chain_properties_update_apply_def expire_penalties_def advance_time_def
  by (rule clock_rules | rule timed_untyped timed_any timed_Inr | use assms in \<open>simp; fail\<close> | use assms in \<open>auto; fail\<close>)+

lemma schedule_clock5 [clock_rules]:
  assumes "clock db = t"
  shows "timed2 t (new_round a1 db)"
  unfolding new_round_def
  by (rule clock_rules | rule timed_untyped timed_any timed_Inr | use assms in \<open>simp; fail\<close> | use assms in \<open>auto; fail\<close>)+

lemma schedule_clock6 [clock_rules]:
  assumes "clock db = t"
  shows "timed2 t (update_witness_schedule a1 db)"
  unfolding update_witness_schedule_def
  by (rule clock_rules | rule timed_untyped timed_any timed_Inr | use assms in \<open>simp; fail\<close> | use assms in \<open>auto; fail\<close>)+

lemma process_funds_clock [clock_rules]: "clock db = t \<Longrightarrow> timed t (process_funds db)"
  unfolding process_funds_def add_emission_def by (rule clock_rules | rule timed_untyped timed_any timed_Inr | simp; fail | auto; fail)+

lemma block_clock1 [simp]:
  "clock (process_inflation_recalc db) = clock db"
  "clock (update_signing_witness a2 b2 c2 db) = clock db"
  "clock (set_irreversible a3 db) = clock db"
  "clock (name_irreversible a4 b4 db) = clock db"
  "clock (update_bandwidth_reserve_candidates db) = clock db"
  by (simp_all add: process_inflation_recalc_def update_signing_witness_def set_irreversible_def name_irreversible_def update_bandwidth_reserve_candidates_def Let_def split: option.split)

lemma block_clock2 [clock_rules]:
  assumes "clock db = t"
  shows "timed t (miss_slot a1 b1 db)"
    and "timed2 t (update_account_bandwidth a2 b2 c2 db)"
  unfolding miss_slot_def update_account_bandwidth_def
  by (rule clock_rules | rule timed_untyped timed_any timed_Inr | use assms in \<open>simp; fail\<close> | use assms in \<open>auto; fail\<close>)+

section \<open>Every operation keeps the clock\<close>

definition steady_interpreters :: "eval_env \<Rightarrow> bool" where
  "steady_interpreters env = (\<forall>i eval. ev_interpreters env i = Some eval \<longrightarrow> (\<forall>x d. clock (snd (eval x d)) = clock d))"

lemma evaluate_clock:
  assumes "evaluate env o' db = Inr db'" and "steady_interpreters env"
  shows "clock db' = clock db"
proof -
  have "timed (clock db) (evaluate env o' db)"
    using custom_apply_clock [OF refl] assms(2)
    by (cases o') (simp_all add: evaluate_def deprecated_def steady_interpreters_def clock_rules)
  then show ?thesis using assms(1) by (rule timedD)
qed

section \<open>The irreversible block\<close>

lemma settle_irreversible_clock: "settle_irreversible benv skip named db f = (f', Inr db') \<Longrightarrow> clock db' = clock db"
  by (auto simp: settle_irreversible_def Let_def split: sum.splits prod.splits if_splits)

lemma update_last_irreversible_block_clock: "update_last_irreversible_block benv skip db f = (f', Inr db') \<Longrightarrow> clock db' = clock db"
  by (auto simp: update_last_irreversible_block_def Let_def split: sum.splits if_splits dest!: settle_irreversible_clock)

lemma check_validations_clock: "check_validations benv vs db f = (f', Inr (vs', db')) \<Longrightarrow> clock db' = clock db"
proof (induction vs arbitrary: db f vs')
  case (Cons v vs)
  show ?case
  proof (cases "u32 (1 + last_irreversible_block_num (db_dgp db)) = bpv_block_num v \<and> int (validation_count v) \<ge> validation_quorum db")
    case True
    with Cons.prems obtain f1 db1 where 1: "settle_irreversible benv False True (set_irreversible (bpv_block_num v) db) f = (f1, Inr db1)"
      and 2: "check_validations benv vs db1 f1 = (f', Inr (vs', db'))" by (auto split: prod.splits sum.splits)
    from settle_irreversible_clock [OF 1] Cons.IH [OF 2] show ?thesis by simp
  next
    case False
    with Cons.prems obtain vs1 where "check_validations benv vs db f = (f', Inr (vs1, db'))" by (auto split: prod.splits sum.splits if_splits)
    then show ?thesis by (rule Cons.IH)
  qed
qed simp

text \<open>The new head block sets the clock.\<close>

lemma adjust_reserve_ratio_clock [simp]: "dgp_clock (adjust_reserve_ratio p) = dgp_clock p"
  by (simp add: adjust_reserve_ratio_def dgp_clock_def Let_def)

lemma advance_dgp_clock: "dgp_clock (advance_dgp benv b missed p) = (bh_timestamp b, uint (block_num benv b), block_id benv b)"
proof -
  have "dgp_clock (q\<lparr>max_virtual_bandwidth := v\<rparr>) = dgp_clock q" for q v by (simp add: dgp_clock_def)
  then show ?thesis by (simp add: advance_dgp_def Let_def split: prod.split) (simp add: dgp_clock_def)
qed

lemma update_global_dynamic_data_clock:
  "update_global_dynamic_data benv skip b db = Inr db' \<Longrightarrow> clock db' = (bh_timestamp b, uint (block_num benv b), block_id benv b)"
  using advance_dgp_clock by (auto simp: update_global_dynamic_data_def Let_def case_sum_Inr if_Inl_Inr clock_dgp_clock simp del: clock_fields)

end
