(* ===== verification/Chain_Blocks.thy ===== *)
theory Chain_Blocks
  imports Proposals Chain_Clock "HOL-Library.AList"
begin

text \<open>
  The application of a block, \<open>_apply_block\<close> of \<open>chain/database.cpp\<close> with every step it takes, and the
  checks of a block and its header.  The result is None when the nested applications of operations or the
  removals of expired proposals do not suffice; otherwise the files of the node, which keep what was written
  even when the block fails, and the new state or the exception.
\<close>

section \<open>Checks of a block\<close>

definition merkle_excused :: "chain_env \<Rightarrow> int \<Rightarrow> digest_type \<Rightarrow> bool" where
  "merkle_excused env n root =
     (case map_of shared_db_merkle n of None \<Rightarrow> False | Some text \<Rightarrow> ce_checksum env text = root)"

definition validate_block_now :: "chain_env \<Rightarrow> validation_step set \<Rightarrow> signed_block \<Rightarrow> database \<Rightarrow> unit result" where
  "validate_block_now env skip b db =
     (let benv = ce_block env; root = calculate_merkle_root benv b
      in all_ok
        [if skip_merkle_check \<in> skip then Inr ()
         else fc_assert (bh_transaction_merkle_root b = root \<or> merkle_excused env (uint (block_num benv b)) root) ''Merkle check failed'',
         if skip_block_size_check \<in> skip then Inr ()
         else fc_assert (block_pack_size benv b \<le> dgp_maximum_block_size (db_dgp db)) ''Block Size is too Big''])"

definition validate_block_steps :: "validation_step set" where
  "validate_block_steps = {skip_merkle_check, skip_block_size_check}"

definition validate_block :: "chain_env \<Rightarrow> validation_step set \<Rightarrow> signed_block \<Rightarrow> database \<Rightarrow> validation_step set result" where
  "validate_block env skip b db =
     (if validate_block_steps \<subseteq> skip then Inr skip
      else case validate_block_now env skip b db of Inl e \<Rightarrow> Inl e | Inr _ \<Rightarrow> Inr (skip \<union> validate_block_steps))"

definition validate_block_header :: "block_env \<Rightarrow> validation_step set \<Rightarrow> signed_block \<Rightarrow> database \<Rightarrow> witness_object result" where
  "validate_block_header benv skip b db =
     (if head_block_id (db_dgp db) \<noteq> bh_previous b then Inl (FC_Assert ''head_block_id() == next_block.previous'')
      else if \<not> head_block_time db < bh_timestamp b then Inl (FC_Assert ''head_block_time() < next_block.timestamp'')
      else case get_witness (bh_witness b) db of Inl e \<Rightarrow> Inl e
      | Inr w \<Rightarrow>
      (let slot_num = get_slot_at_time (bh_timestamp b) db
       in case all_ok
           [if skip_witness_signature \<in> skip then Inr ()
            else fc_assert (validate_signee benv b (w_signing_key w)) ''validate_signee'',
            if skip_witness_schedule_check \<in> skip then Inr ()
            else fc_assert (slot_num > 0) ''slot_num > 0'',
            if skip_witness_schedule_check \<in> skip then Inr ()
            else fc_assert (w_owner w = get_scheduled_witness slot_num db) ''Witness produced block at wrong time''] of
           Inl e \<Rightarrow> Inl e
         | Inr _ \<Rightarrow> Inr w))"

section \<open>The steps of a block\<close>

text \<open>The versions of the hardforks, the start of the chain first.\<close>

definition hardfork_versions :: "version list" where
  "hardfork_versions = [make_version 1 0 0, make_version 1 1 0, make_version 1 2 0, make_version 1 3 0, make_version 2 0 0,
     make_version 2 1 0, make_version 2 2 0, make_version 2 3 0, make_version 2 4 0, make_version 2 5 0, make_version 2 6 0,
     make_version 3 0 0]"

definition CHAIN_NUM_HARDFORKS :: int where
  [simp]: "CHAIN_NUM_HARDFORKS = 11"

definition enter_block :: "signed_block \<Rightarrow> int \<Rightarrow> chain \<Rightarrow> chain" where
  "enter_block b n ch =
     (let db = ch_db ch; db1 = db\<lparr>db_dgp := (db_dgp db)\<lparr>current_witness := bh_witness b\<rparr>\<rparr>;
          start = u32 (bh_timestamp b - CHAIN_BLOCK_INTERVAL)
      in if n = 1 then ch\<lparr>ch_db := db1\<lparr>db_dgp := (db_dgp db1)\<lparr>genesis_time := start\<rparr>\<rparr>,
           ch_hpo := (ch_hpo ch)\<lparr>hpo_processed_hardforks := (hpo_processed_hardforks (ch_hpo ch))[0 := start]\<rparr>\<rparr>
         else ch\<lparr>ch_db := db1\<rparr>)"

definition process_header_extension :: "signed_block \<Rightarrow> block_header_extension \<Rightarrow> database \<Rightarrow> database result" where
  "process_header_extension b x db = (case x of
      Void_extension \<Rightarrow> Inr db
    | Version_extension v \<Rightarrow>
        (case get_witness (bh_witness b) db of Inl e \<Rightarrow> Inl e
         | Inr _ \<Rightarrow> Inr (set_witness (bh_witness b) (\<lambda>w. w\<lparr>w_running_version := v\<rparr>) db))
    | Hardfork_version_vote v t \<Rightarrow>
        (case get_witness (bh_witness b) db of Inl e \<Rightarrow> Inl e
         | Inr w \<Rightarrow>
           if v_num v \<noteq> v_num (w_hardfork_version_vote w) \<or> t \<noteq> w_hardfork_time_vote w
           then Inr (set_witness (bh_witness b) (\<lambda>w. w\<lparr>w_hardfork_version_vote := make_hardfork_version v, w_hardfork_time_vote := t\<rparr>) db)
           else Inr db))"

definition process_header_extensions :: "signed_block \<Rightarrow> database \<Rightarrow> database result" where
  "process_header_extensions b db = fold_result (process_header_extension b) (bh_extensions b) db"

definition check_running_version :: "signed_block \<Rightarrow> chain \<Rightarrow> unit result" where
  "check_running_version b ch =
     (case get_witness (bh_witness b) (ch_db ch) of Inl e \<Rightarrow> Inl e
      | Inr w \<Rightarrow> fc_assert (version_le (hpo_current_hardfork_version (ch_hpo ch)) (w_running_version w))
          ''Block produced by witness that is not running current hardfork'')"

fun apply_transactions :: "chain_env \<Rightarrow> applier \<Rightarrow> validation_step set \<Rightarrow> signed_transaction list \<Rightarrow> chain \<Rightarrow> chain result option" where
  "apply_transactions env app skip [] ch = Some (Inr ch)"
| "apply_transactions env app skip (t # ts) ch =
     (case apply_transaction env app skip t ch of None \<Rightarrow> None
      | Some (Inl e) \<Rightarrow> Some (Inl e)
      | Some (Inr ch') \<Rightarrow> apply_transactions env app skip ts ch')"

definition create_block_summary :: "block_env \<Rightarrow> signed_block \<Rightarrow> chain \<Rightarrow> chain" where
  "create_block_summary benv b ch = ch\<lparr>ch_summaries := (ch_summaries ch)(uint (block_num benv b) mod 2 ^ 16 := block_id benv b)\<rparr>"

definition clear_expired_transactions :: "chain \<Rightarrow> chain" where
  "clear_expired_transactions ch =
     ch\<lparr>ch_transactions := filter (\<lambda>t. \<not> head_block_time (ch_db ch) > to_expiration t) (ch_transactions ch)\<rparr>"

text \<open>
  What a block does to the accounts after its transactions, in the order of the source.  The payout of
  contents does nothing: the states have none, their operations being refused since hardfork 4.
\<close>

definition total_step :: "(database \<Rightarrow> database) \<Rightarrow> database \<Rightarrow> database result" where
  "total_step f db = Inr (f db)"

definition since :: "nat \<Rightarrow> (database \<Rightarrow> database result) \<Rightarrow> database \<Rightarrow> database result" where
  "since n f db = (if has_hardfork n db then f db else Inr db)"

definition steps_before_schedule :: "(database \<Rightarrow> database result) list" where
  "steps_before_schedule =
     [clear_expired_delegations, since 9 (total_step clear_used_invites), since 9 (total_step clear_closed_committee_requests),
      total_step update_bandwidth_reserve_candidates]"

definition steps_after_schedule :: "(database \<Rightarrow> database result) list" where
  "steps_after_schedule =
     [since 4 (total_step process_inflation_recalc), since 4 (total_step expire_award_shares_processing), process_funds,
      process_vesting_withdrawals, account_recovery_processing, expire_escrow_ratification, since 11 account_on_auction_expiration,
      clear_null_account_balance, clear_anonymous_account_balance, claim_committee_account_balance, committee_processing,
      paid_subscribe_processing]"

definition run_steps :: "(database \<Rightarrow> database result) list \<Rightarrow> database \<Rightarrow> database result" where
  "run_steps = fold_result (\<lambda>step. step)"

text \<open>A hardfork that is due: this program's last one, or one the state has still to pass.\<close>

definition process_hardforks :: "chain \<Rightarrow> unit result" where
  "process_hardforks ch =
     (let h = ch_hpo ch
      in if version_lt (hardfork_versions ! nat (hpo_last_hardfork h)) (hpo_next_hardfork h) \<and>
            hpo_next_hardfork_time h \<le> head_block_time (ch_db ch) then
           Inl (if hpo_last_hardfork h < CHAIN_NUM_HARDFORKS then Not_modelled ''apply_hardfork'' else Unknown_hardfork)
         else Inr ())"

definition process_accounts :: "chain \<Rightarrow> chain result" where
  "process_accounts ch =
     (case run_steps steps_before_schedule (ch_db ch) of Inl e \<Rightarrow> Inl e
      | Inr db1 \<Rightarrow>
      (case update_witness_schedule (ch_hpo ch) db1 of Inl e \<Rightarrow> Inl e
      | Inr (hpo, db2) \<Rightarrow>
      (case run_steps steps_after_schedule db2 of Inl e \<Rightarrow> Inl e
      | Inr db3 \<Rightarrow>
        (let ch1 = ch\<lparr>ch_db := db3, ch_hpo := hpo\<rparr>
        in case process_hardforks ch1 of Inl e \<Rightarrow> Inl e | Inr _ \<Rightarrow> Inr ch1))))"

definition post_validation :: "block_env \<Rightarrow> signed_block \<Rightarrow> chain \<Rightarrow> ledger_files \<Rightarrow> ledger_files \<times> chain result" where
  "post_validation benv b ch f =
     (case check_validations benv (ch_validations ch) (ch_db ch) f of
        (f', Inl e) \<Rightarrow> (f', Inl e)
      | (f', Inr (vs, db)) \<Rightarrow> (f', Inr (ch\<lparr>ch_db := db, ch_validations :=
          create_block_post_validation (uint (block_num benv b)) (block_id benv b) (bh_witness b) db vs\<rparr>)))"

definition prepare_block :: "chain_env \<Rightarrow> validation_step set \<Rightarrow> signed_block \<Rightarrow> chain \<Rightarrow> (witness_object \<times> chain) result" where
  "prepare_block env skip b ch =
     (let benv = ce_block env
      in case validate_block_now env skip b (ch_db ch) of Inl e \<Rightarrow> Inl e
         | Inr _ \<Rightarrow>
         (case validate_block_header benv skip b (ch_db ch) of Inl e \<Rightarrow> Inl e
         | Inr w \<Rightarrow>
           (let ch1 = enter_block b (uint (block_num benv b)) ch
           in case process_header_extensions b (ch_db ch1) of Inl e \<Rightarrow> Inl e
              | Inr db \<Rightarrow>
              (let ch2 = ch1\<lparr>ch_db := db\<rparr>
              in case check_running_version b ch2 of Inl e \<Rightarrow> Inl e | Inr _ \<Rightarrow> Inr (w, ch2)))))"

definition advance_head :: "chain_env \<Rightarrow> validation_step set \<Rightarrow> signed_block \<Rightarrow> account_name_type \<Rightarrow> chain \<Rightarrow> ledger_files \<Rightarrow> ledger_files \<times> chain result" where
  "advance_head env skip b signing_witness ch f =
     (let benv = ce_block env
      in case update_global_dynamic_data benv (skip_undo_history_check \<in> skip) b (ch_db ch) of Inl e \<Rightarrow> (f, Inl e)
         | Inr db1 \<Rightarrow>
         (case update_last_irreversible_block benv (skip_block_log \<in> skip) (update_signing_witness benv signing_witness b db1) f of
           (f1, Inl e) \<Rightarrow> (f1, Inl e)
         | (f1, Inr db2) \<Rightarrow> (f1, Inr (create_block_summary benv b (ch\<lparr>ch_db := db2\<rparr>)))))"

definition close_block :: "chain_env \<Rightarrow> applier \<Rightarrow> nat \<Rightarrow> signed_block \<Rightarrow> chain \<Rightarrow> ledger_files \<Rightarrow> (ledger_files \<times> chain result) option" where
  "close_block env app n b ch f =
     (case clear_expired_proposals app n ch of None \<Rightarrow> None
      | Some (Inl e) \<Rightarrow> Some (f, Inl e)
      | Some (Inr ch1) \<Rightarrow>
      (case process_accounts (clear_expired_transactions ch1) of Inl e \<Rightarrow> Some (f, Inl e)
      | Inr ch2 \<Rightarrow> Some (post_validation (ce_block env) b ch2 f)))"

definition apply_block_now :: "chain_env \<Rightarrow> nat \<Rightarrow> validation_step set \<Rightarrow> signed_block \<Rightarrow> chain \<Rightarrow> ledger_files \<Rightarrow> (ledger_files \<times> chain result) option" where
  "apply_block_now env fuel skip b ch f =
     (let app = apply_operation env fuel 0 0
      in case prepare_block env skip b ch of Inl e \<Rightarrow> Some (f, Inl e)
         | Inr (w, ch1) \<Rightarrow>
         (case apply_transactions env app skip (bh_transactions b) ch1 of None \<Rightarrow> None
         | Some (Inl e) \<Rightarrow> Some (f, Inl e)
         | Some (Inr ch2) \<Rightarrow>
         (case advance_head env skip b (w_owner w) ch2 f of
           (f1, Inl e) \<Rightarrow> Some (f1, Inl e)
         | (f1, Inr ch3) \<Rightarrow> close_block env app fuel b ch3 f1)))"

section \<open>Checkpoints\<close>

type_synonym checkpoints = "(int \<times> block_id_type) list"

text \<open>The checkpoints in the order of their numbers.\<close>

definition add_checkpoints :: "(int \<times> block_id_type) list \<Rightarrow> checkpoints \<Rightarrow> checkpoints" where
  "add_checkpoints new cps = sort_key fst (fold (\<lambda>(n, i) m. AList.update n i m) new cps)"

definition before_last_checkpoint :: "checkpoints \<Rightarrow> database \<Rightarrow> bool" where
  "before_last_checkpoint cps db = (cps \<noteq> [] \<and> fst (last cps) \<ge> head_block_num db)"

definition checkpoint_skip :: "validation_step set" where
  "checkpoint_skip = {skip_witness_signature, skip_transaction_signatures, skip_transaction_dupe_check, skip_fork_db,
     skip_block_size_check, skip_tapos_check, skip_authority_check, skip_undo_history_check, skip_witness_schedule_check,
     skip_validate_operations}"

definition apply_block :: "chain_env \<Rightarrow> checkpoints \<Rightarrow> nat \<Rightarrow> validation_step set \<Rightarrow> signed_block \<Rightarrow> chain \<Rightarrow> ledger_files \<Rightarrow>
    (ledger_files \<times> chain result) option" where
  "apply_block env cps fuel skip b ch f =
     (let n = uint (block_num (ce_block env) b); i = block_id (ce_block env) b
      in if cps = [] \<or> snd (last cps) = zero_id then apply_block_now env fuel skip b ch f
         else if (case map_of cps n of None \<Rightarrow> False | Some c \<Rightarrow> i \<noteq> c) then Some (f, Inl (FC_Assert ''Block did not match checkpoint''))
         else apply_block_now env fuel (if fst (last cps) \<ge> n then checkpoint_skip else skip) b ch f)"

text \<open>Successive blocks.\<close>

fun apply_blocks :: "chain_env \<Rightarrow> checkpoints \<Rightarrow> nat \<Rightarrow> validation_step set \<Rightarrow> signed_block list \<Rightarrow> chain \<Rightarrow> ledger_files \<Rightarrow>
    (ledger_files \<times> chain result) option" where
  "apply_blocks env cps fuel skip [] ch f = Some (f, Inr ch)"
| "apply_blocks env cps fuel skip (b # bs) ch f =
     (case apply_block env cps fuel skip b ch f of
        Some (f', Inr ch') \<Rightarrow> apply_blocks env cps fuel skip bs ch' f'
      | r \<Rightarrow> r)"

section \<open>Operations keep the clock and the table of transactions\<close>

definition stamp :: "chain \<Rightarrow> reading \<times> transaction_object list" where
  "stamp ch = (clock (ch_db ch), ch_transactions ch)"

definition steady :: "applier \<Rightarrow> bool" where
  "steady app = (\<forall>o' ch ch'. app o' ch = Some (Inr ch') \<longrightarrow> stamp ch' = stamp ch)"

lemma stamp_fields [simp]:
  "stamp (ch\<lparr>ch_proposals := ps\<rparr>) = stamp ch" "stamp (ch\<lparr>ch_required := rs\<rparr>) = stamp ch"
  "stamp (ch\<lparr>ch_next_proposal_id := i\<rparr>) = stamp ch" "stamp (ch\<lparr>ch_summaries := g\<rparr>) = stamp ch"
  "stamp (ch\<lparr>ch_validations := vs\<rparr>) = stamp ch" "stamp (ch\<lparr>ch_hpo := h\<rparr>) = stamp ch"
  "stamp (ch\<lparr>ch_db := db\<rparr>) = (clock db, ch_transactions ch)"
  "stamp (ch\<lparr>ch_transactions := ts\<rparr>) = (clock (ch_db ch), ts)"
  by (simp_all add: stamp_def)

lemma apply_operations_stamp: "apply_operations app ops ch = Some (Inr ch') \<Longrightarrow> steady app \<Longrightarrow> stamp ch' = stamp ch"
  by (induction ops arbitrary: ch) (auto simp: steady_def split: option.splits sum.splits)

lemma remove_proposal_stamp: "remove_proposal i ch = Inr ch' \<Longrightarrow> stamp ch' = stamp ch"
  by (auto simp: remove_proposal_def split: option.splits)

lemma push_proposal_stamp: "push_proposal app i ch = Some (Inr ch') \<Longrightarrow> steady app \<Longrightarrow> stamp ch' = stamp ch"
  by (auto simp: push_proposal_def split: option.splits sum.splits dest!: apply_operations_stamp remove_proposal_stamp)

lemma try_push_stamp: "try_push app i ch = Some (Inr ch') \<Longrightarrow> steady app \<Longrightarrow> stamp ch' = stamp ch"
  by (auto simp: try_push_def split: option.splits sum.splits if_splits dest: push_proposal_stamp)

lemma store_proposal_stamp: "store_proposal p ch = Inr ch' \<Longrightarrow> stamp ch' = stamp ch"
  by (auto simp: store_proposal_def split: sum.splits)

lemma proposal_create_stamp: "proposal_create_apply env app depth h ops ch = Some (Inr ch') \<Longrightarrow> stamp ch' = stamp ch"
  by (auto simp: proposal_create_apply_def split: option.splits sum.splits if_splits dest: store_proposal_stamp)

lemma proposal_update_stamp: "proposal_update_apply env app depth x ch = Some (Inr ch') \<Longrightarrow> steady app \<Longrightarrow> stamp ch' = stamp ch"
  by (auto simp: proposal_update_apply_def Let_def split: option.splits sum.splits if_splits dest!: try_push_stamp remove_proposal_stamp)

lemma proposal_delete_stamp: "proposal_delete_apply x ch = Inr ch' \<Longrightarrow> stamp ch' = stamp ch"
  by (auto simp: proposal_delete_apply_def split: sum.splits if_splits dest: remove_proposal_stamp)

lemma apply_operation_steady:
  assumes "steady_interpreters (ce_eval env)"
  shows "steady (apply_operation env n creates updates)"
proof (induction n arbitrary: creates updates)
  case (Suc n)
  have plain: "stamp ch' = stamp ch"
    if "(case evaluate (ce_eval env) o' (ch_db ch) of Inl e \<Rightarrow> Inl e | Inr db \<Rightarrow> Inr (ch\<lparr>ch_db := db\<rparr>)) = Inr ch'" for o' ch ch'
    using that evaluate_clock [OF _ assms] by (auto simp: case_sum_Inr) (simp add: stamp_def)
  show ?case unfolding steady_def
  proof (intro allI impI)
    fix o' ch ch'
    assume run: "apply_operation env (Suc n) creates updates o' ch = Some (Inr ch')"
    consider (create) h ops where "o' = Proposal_create h ops" | (upd) x where "o' = Proposal_update x"
      | (del) x where "o' = Proposal_delete x"
      | (other) "apply_operation env (Suc n) creates updates o' ch =
          Some (case evaluate (ce_eval env) o' (ch_db ch) of Inl e \<Rightarrow> Inl e | Inr db \<Rightarrow> Inr (ch\<lparr>ch_db := db\<rparr>))"
      by (cases o') (simp_all add: apply_operation.simps)
    then show "stamp ch' = stamp ch"
    proof cases
      case create
      with run show ?thesis by (simp add: apply_operation.simps proposal_create_stamp)
    next
      case upd
      with run Suc.IH show ?thesis by (auto simp: apply_operation.simps dest: proposal_update_stamp)
    next
      case del
      with run show ?thesis by (simp add: apply_operation.simps proposal_delete_stamp)
    next
      case other
      with run show ?thesis using plain by simp
    qed
  qed
qed (simp add: steady_def apply_operation.simps)

lemma clear_expired_proposals_stamp:
  "clear_expired_proposals app n ch = Some (Inr ch') \<Longrightarrow> steady app \<Longrightarrow> stamp ch' = stamp ch"
proof (induction n arbitrary: ch)
  case (Suc n)
  note IH = Suc.IH [OF _ Suc.prems(2)]
  have up: "stamp ch' = stamp ch"
    if "remove_proposal i ch = Inr c" "clear_expired_proposals app n c = Some (Inr ch')" for i c
    using IH [OF that(2)] remove_proposal_stamp [OF that(1)] by simp
  have push: "stamp ch' = stamp ch" if "push_proposal app i ch = Some (Inr c)" "clear_expired_proposals app n c = Some (Inr ch')" for i c
    using IH [OF that(2)] push_proposal_stamp [OF that(1) Suc.prems(2)] by simp
  show ?case using Suc.prems(1)
    by (auto simp: clear_expired_proposals.simps Let_def split: option.splits sum.splits if_splits intro: up push)
qed (simp add: clear_expired_proposals.simps)

section \<open>Transactions\<close>

lemma charge_clock [clock_rules]: "clock db = t \<Longrightarrow> timed t (charge env bytes n db)"
  using timedD [OF block_clock2(2) [OF refl]] by (auto simp: charge_def timed_by_def split: sum.splits)

lemma charge_account_clock [clock_rules]: "clock db = t \<Longrightarrow> timed t (charge_account env trx n db)"
  unfolding charge_account_def by (rule clock_rules | rule timed_untyped timed_any timed_Inr | simp; fail | auto; fail)+

lemma charges_clock: "fold_result (charge_account env trx) ns db = Inr db' \<Longrightarrow> clock db' = clock db"
  by (rule timedD [OF timed_fold [where g = clock]]) (auto intro: charge_account_clock)

abbreviation row_of :: "chain_env \<Rightarrow> signed_transaction \<Rightarrow> transaction_object" where
  "row_of env trx \<equiv> \<lparr>to_trx_id = ce_trx_id env trx, to_expiration = tx_expiration trx\<rparr>"

lemma validated_expiration:
  "validate_transaction_now env skip trx ch = Inr () \<Longrightarrow> 0 < head_block_num (ch_db ch) \<Longrightarrow> head_block_time (ch_db ch) < tx_expiration trx"
  by (auto simp: validate_transaction_now_def Let_def all_ok_Inr split: sum.splits simp del: all_ok.simps clock_dgp)

lemma apply_transaction_records:
  assumes "apply_transaction env app skip trx ch = Some (Inr ch')" and "steady app" and "skip_transaction_dupe_check \<notin> skip"
  shows "stamp ch' = (clock (ch_db ch), ch_transactions ch @ [row_of env trx]) \<and>
    ce_trx_id env trx \<notin> to_trx_id ` set (ch_transactions ch) \<and>
    (0 < head_block_num (ch_db ch) \<longrightarrow> head_block_time (ch_db ch) < tx_expiration trx)"
proof -
  from assms obtain db ch1 where new: "ce_trx_id env trx \<notin> to_trx_id ` set (ch_transactions ch)"
    and v: "validate_transaction_now env skip trx ch = Inr ()"
    and db: "fold_result (charge_account env trx) (all_required (tx_operations trx)) (ch_db ch) = Inr db"
    and ch1: "record_transaction env skip trx (ch\<lparr>ch_db := db\<rparr>) = Inr ch1"
    and run: "apply_operations app (tx_operations trx) ch1 = Some (Inr ch')"
    by (auto simp: apply_transaction_def split: if_splits sum.splits)
  from ch1 assms(3) have "stamp ch1 = (clock db, ch_transactions ch @ [row_of env trx])"
    by (auto simp: record_transaction_def create_row_def stamp_def split: sum.splits if_splits)
  with apply_operations_stamp [OF run assms(2)] charges_clock [OF db] new validated_expiration [OF v] show ?thesis by simp
qed

text \<open>A transaction is remembered by its row, or by having expired.\<close>

definition remembered :: "chain_env \<Rightarrow> signed_transaction \<Rightarrow> chain \<Rightarrow> bool" where
  "remembered env t ch = (row_of env t \<in> set (ch_transactions ch) \<or> tx_expiration t < head_block_time (ch_db ch) \<and> 0 < head_block_num (ch_db ch))"

definition ids_reveal_expiration :: "chain_env \<Rightarrow> bool" where
  "ids_reveal_expiration env = (\<forall>s t. ce_trx_id env s = ce_trx_id env t \<longrightarrow> tx_expiration s = tx_expiration t)"

lemma remembered_view:
  "remembered env t ch = (row_of env t \<in> set (snd (stamp ch)) \<or> tx_expiration t < fst (fst (stamp ch)) \<and> 0 < fst (snd (fst (stamp ch))))"
  by (simp add: remembered_def stamp_def)

lemma remembered_stamp: "stamp ch' = (clock (ch_db ch), ch_transactions ch @ rows) \<Longrightarrow> remembered env t ch \<Longrightarrow> remembered env t ch'"
  by (unfold remembered_view) (auto simp: stamp_def [of ch])

lemma remembered_not_again:
  assumes "remembered env s ch" and "apply_transaction env app skip t ch = Some (Inr ch')" and "steady app"
    and "skip_transaction_dupe_check \<notin> skip" and "ids_reveal_expiration env"
  shows "ce_trx_id env s \<noteq> ce_trx_id env t"
proof
  assume same: "ce_trx_id env s = ce_trx_id env t"
  with assms(5) have e: "tx_expiration s = tx_expiration t" unfolding ids_reveal_expiration_def by blast
  note r = apply_transaction_records [OF assms(2-4)]
  from assms(1) show False unfolding remembered_def
  proof (elim disjE conjE)
    assume "row_of env s \<in> set (ch_transactions ch)"
    then have "to_trx_id (row_of env s) \<in> to_trx_id ` set (ch_transactions ch)" by (rule imageI)
    with r same show False by simp
  next
    assume "tx_expiration s < head_block_time (ch_db ch)" "0 < head_block_num (ch_db ch)"
    with r e show False by simp
  qed
qed

lemma apply_transactions_once:
  assumes "apply_transactions env app skip ts ch = Some (Inr ch')" and "steady app" and "skip_transaction_dupe_check \<notin> skip"
    and "ids_reveal_expiration env"
  shows "(\<exists>rows. stamp ch' = (clock (ch_db ch), ch_transactions ch @ rows)) \<and> (\<forall>t \<in> set ts. remembered env t ch') \<and>
    distinct (map (ce_trx_id env) ts) \<and> (\<forall>s t. remembered env s ch \<longrightarrow> t \<in> set ts \<longrightarrow> ce_trx_id env s \<noteq> ce_trx_id env t)"
  using assms(1)
proof (induction ts arbitrary: ch)
  case Nil
  then show ?case by (simp add: stamp_def)
next
  case (Cons t ts)
  from Cons.prems obtain ch1 where 1: "apply_transaction env app skip t ch = Some (Inr ch1)"
    and 2: "apply_transactions env app skip ts ch1 = Some (Inr ch')" by (auto split: option.splits sum.splits)
  note r = apply_transaction_records [OF 1 assms(2,3)]
  note ih = Cons.IH [OF 2]
  from r have s1: "stamp ch1 = (clock (ch_db ch), ch_transactions ch @ [row_of env t])" by blast
  from ih obtain rows where s2: "stamp ch' = (clock (ch_db ch1), ch_transactions ch1 @ rows)" by blast
  from s1 have t1: "remembered env t ch1" by (simp add: remembered_view)
  have "stamp ch' = (clock (ch_db ch), ch_transactions ch @ (row_of env t # rows))" using s1 s2 by (simp add: stamp_def)
  moreover have "remembered env t ch'" using remembered_stamp [OF s2 t1] .
  moreover have "ce_trx_id env s \<noteq> ce_trx_id env u" if "remembered env s ch" "u \<in> set (t # ts)" for s u
    using that ih remembered_stamp [OF s1] remembered_not_again [OF _ 1 assms(2-4)] by auto
  ultimately show ?case using ih t1 by fastforce
qed

section \<open>The steps of a block and the clock\<close>

lemma enter_block_fields [simp]:
  "clock (ch_db (enter_block b n ch)) = clock (ch_db ch)" "ch_transactions (enter_block b n ch) = ch_transactions ch"
  by (simp_all add: enter_block_def Let_def clock_def del: clock_dgp)

lemma process_header_extension_clock [clock_rules]: "clock db = t \<Longrightarrow> timed t (process_header_extension b x db)"
  by (cases x) (auto simp: process_header_extension_def timed_by_def split: sum.splits)

lemma process_header_extensions_clock: "process_header_extensions b db = Inr db' \<Longrightarrow> clock db' = clock db"
  unfolding process_header_extensions_def
  by (rule timedD [OF timed_fold [where g = clock]]) (auto intro: process_header_extension_clock)

lemma prepare_block_Inr:
  assumes "prepare_block env skip b ch = Inr (w, ch')"
  shows "validate_block_now env skip b (ch_db ch) = Inr () \<and> validate_block_header (ce_block env) skip b (ch_db ch) = Inr w \<and> stamp ch' = stamp ch"
proof -
  let ?ch1 = "enter_block b (uint (block_num (ce_block env) b)) ch"
  from assms obtain db where v: "validate_block_now env skip b (ch_db ch) = Inr ()"
    and h: "validate_block_header (ce_block env) skip b (ch_db ch) = Inr w"
    and x: "process_header_extensions b (ch_db ?ch1) = Inr db" and ch': "ch' = ?ch1\<lparr>ch_db := db\<rparr>"
    by (auto simp: prepare_block_def Let_def split: sum.splits)
  have "stamp ch' = stamp ch" using process_header_extensions_clock [OF x] by (simp add: ch') (simp add: stamp_def)
  with v h show ?thesis by simp
qed

lemma advance_head_stamp:
  assumes "advance_head env skip b w ch f = (f', Inr ch')"
  shows "stamp ch' = ((bh_timestamp b, uint (block_num (ce_block env) b), block_id (ce_block env) b), ch_transactions ch)"
proof -
  let ?benv = "ce_block env"
  from assms obtain db1 db2 where 1: "update_global_dynamic_data ?benv (skip_undo_history_check \<in> skip) b (ch_db ch) = Inr db1"
    and 2: "update_last_irreversible_block ?benv (skip_block_log \<in> skip) (update_signing_witness ?benv w b db1) f = (f', Inr db2)"
    and ch': "ch' = create_block_summary ?benv b (ch\<lparr>ch_db := db2\<rparr>)"
    by (auto simp: advance_head_def Let_def split: sum.splits prod.splits)
  from update_global_dynamic_data_clock [OF 1] update_last_irreversible_block_clock [OF 2]
  show ?thesis by (simp add: ch' create_block_summary_def)
qed

lemma run_steps_clock:
  assumes "run_steps steps db = Inr db'" and "\<forall>step \<in> set steps. \<forall>d. timed (clock d) (step d)"
  shows "clock db' = clock db"
  using assms
proof (induction steps arbitrary: db)
  case (Cons step steps)
  from Cons.prems(1) obtain db1 where 1: "step db = Inr db1" and 2: "run_steps steps db1 = Inr db'"
    by (auto simp: run_steps_def case_sum_Inr)
  from Cons.prems(2) have "timed (clock db) (step db)" by simp
  from timedD [OF this 1] Cons.IH [OF 2] Cons.prems(2) show ?case by simp
qed (simp add: run_steps_def)

lemma since_clock [clock_rules]: "timed (clock db) (f db) \<Longrightarrow> timed (clock db) (since n f db)"
  by (simp add: since_def timed_by_def)

lemma total_step_clock: "clock (f db) = t \<Longrightarrow> timed t (total_step f db)"
  by (simp add: total_step_def timed_by_def)

lemma steps_clock:
  "\<forall>step \<in> set steps_before_schedule. \<forall>d. timed (clock d) (step d)"
  "\<forall>step \<in> set steps_after_schedule. \<forall>d. timed (clock d) (step d)"
  by ((simp add: steps_before_schedule_def steps_after_schedule_def; intro conjI allI; (rule clock_rules total_step_clock since_clock | simp; fail)+)+)

lemma process_accounts_stamp:
  assumes "process_accounts ch = Inr ch'"
  shows "stamp ch' = stamp ch"
proof -
  from assms obtain db1 hpo db2 db3 where 1: "run_steps steps_before_schedule (ch_db ch) = Inr db1"
    and 2: "update_witness_schedule (ch_hpo ch) db1 = Inr (hpo, db2)" and 3: "run_steps steps_after_schedule db2 = Inr db3"
    and ch': "ch' = ch\<lparr>ch_db := db3, ch_hpo := hpo\<rparr>"
    by (auto simp: process_accounts_def Let_def split: sum.splits)
  have "clock db2 = clock db1" using timedD [OF schedule_clock6 [OF refl] 2] by simp
  with run_steps_clock [OF 1 steps_clock(1)] run_steps_clock [OF 3 steps_clock(2)] show ?thesis by (simp add: ch') (simp add: stamp_def)
qed

lemma post_validation_stamp: "post_validation benv b ch f = (f', Inr ch') \<Longrightarrow> stamp ch' = stamp ch"
  by (auto simp: post_validation_def split: prod.splits sum.splits dest!: check_validations_clock) (simp add: stamp_def)

lemma close_block_stamp:
  assumes "close_block env app n b ch f = Some (f', Inr ch')" and "steady app"
  shows "stamp ch' = (clock (ch_db ch), filter (\<lambda>t. \<not> head_block_time (ch_db ch) > to_expiration t) (ch_transactions ch))"
proof -
  from assms(1) obtain ch1 ch2 where 1: "clear_expired_proposals app n ch = Some (Inr ch1)"
    and 2: "process_accounts (clear_expired_transactions ch1) = Inr ch2" and 3: "post_validation (ce_block env) b ch2 f = (f', Inr ch')"
    by (auto simp: close_block_def split: option.splits sum.splits)
  from clear_expired_proposals_stamp [OF 1 assms(2)] have "clock (ch_db ch1) = clock (ch_db ch)" "ch_transactions ch1 = ch_transactions ch"
    by (simp_all add: stamp_def)
  then have "stamp (clear_expired_transactions ch1) =
      (clock (ch_db ch), filter (\<lambda>t. \<not> head_block_time (ch_db ch) > to_expiration t) (ch_transactions ch))"
    by (simp add: clear_expired_transactions_def)
  with process_accounts_stamp [OF 2] post_validation_stamp [OF 3] show ?thesis by simp
qed

section \<open>Applied blocks\<close>

lemma apply_block_now_Inr:
  assumes "apply_block_now env fuel skip b ch f = Some (f', Inr ch')"
  obtains w ch1 ch2 ch3 f1 where "prepare_block env skip b ch = Inr (w, ch1)"
    "apply_transactions env (apply_operation env fuel 0 0) skip (bh_transactions b) ch1 = Some (Inr ch2)"
    "advance_head env skip b (w_owner w) ch2 f = (f1, Inr ch3)"
    "close_block env (apply_operation env fuel 0 0) fuel b ch3 f1 = Some (f', Inr ch')"
  using assms by (auto simp: apply_block_now_def Let_def split: sum.splits option.splits prod.splits)

lemma validate_block_header_Inr:
  "validate_block_header benv skip b db = Inr w \<Longrightarrow> bh_previous b = head_block_id (db_dgp db) \<and> head_block_time db < bh_timestamp b \<and>
     get_witness (bh_witness b) db = Inr w \<and> (skip_witness_signature \<notin> skip \<longrightarrow> signee benv b = w_signing_key w) \<and>
     (skip_witness_schedule_check \<notin> skip \<longrightarrow> w_owner w = get_scheduled_witness (get_slot_at_time (bh_timestamp b) db) db)"
  by (auto simp: validate_block_header_def all_ok_Inr validate_signee_def Let_def split: if_splits sum.splits simp del: all_ok.simps clock_dgp)

lemma apply_block_now_clock:
  assumes "apply_block_now env fuel skip b ch f = Some (f', Inr ch')" and "steady_interpreters (ce_eval env)"
  shows "clock (ch_db ch') = (bh_timestamp b, uint (block_num (ce_block env) b), block_id (ce_block env) b)"
proof -
  from assms(1) obtain w ch1 ch2 ch3 f1 where "prepare_block env skip b ch = Inr (w, ch1)"
    and "apply_transactions env (apply_operation env fuel 0 0) skip (bh_transactions b) ch1 = Some (Inr ch2)"
    and 3: "advance_head env skip b (w_owner w) ch2 f = (f1, Inr ch3)"
    and 4: "close_block env (apply_operation env fuel 0 0) fuel b ch3 f1 = Some (f', Inr ch')" by (rule apply_block_now_Inr)
  from close_block_stamp [OF 4 apply_operation_steady [OF assms(2)]] advance_head_stamp [OF 3] show ?thesis
    by (simp add: stamp_def)
qed

lemma apply_block_once:
  assumes "apply_block_now env fuel skip b ch f = Some (f', Inr ch')" and "steady_interpreters (ce_eval env)"
    and "skip_transaction_dupe_check \<notin> skip" and "ids_reveal_expiration env" and "block_num (ce_block env) b \<noteq> 0"
  shows "(\<forall>t. remembered env t ch \<longrightarrow> remembered env t ch') \<and> (\<forall>t \<in> set (bh_transactions b). remembered env t ch') \<and>
    distinct (map (ce_trx_id env) (bh_transactions b)) \<and>
    (\<forall>s t. remembered env s ch \<longrightarrow> t \<in> set (bh_transactions b) \<longrightarrow> ce_trx_id env s \<noteq> ce_trx_id env t)"
proof -
  let ?app = "apply_operation env fuel 0 0"
  have app: "steady ?app" by (rule apply_operation_steady [OF assms(2)])
  from assms(1) obtain w ch1 ch2 ch3 f1 where 1: "prepare_block env skip b ch = Inr (w, ch1)"
    and 2: "apply_transactions env ?app skip (bh_transactions b) ch1 = Some (Inr ch2)"
    and 3: "advance_head env skip b (w_owner w) ch2 f = (f1, Inr ch3)"
    and 4: "close_block env ?app fuel b ch3 f1 = Some (f', Inr ch')" by (rule apply_block_now_Inr)
  note p = prepare_block_Inr [OF 1]
  have later: "head_block_time (ch_db ch) < bh_timestamp b" using validate_block_header_Inr p by blast
  have pos: "0 < uint (block_num (ce_block env) b)" using assms(5) by (simp add: uint_0_iff less_le)
  note once = apply_transactions_once [OF 2 app assms(3,4)]
  then obtain rows where s2: "stamp ch2 = (clock (ch_db ch1), ch_transactions ch1 @ rows)" by blast
  note s3 = advance_head_stamp [OF 3] and s4 = close_block_stamp [OF 4 app]
  have same: "remembered env t ch1 = remembered env t ch" for t using p by (simp add: remembered_view)
  have keep: "remembered env t ch'" if "remembered env t ch2" for t
  proof -
    have "clock (ch_db ch2) = clock (ch_db ch)" using s2 p by (simp add: stamp_def)
    with that later pos s3 s4 show ?thesis by (auto simp: remembered_def stamp_def not_less)
  qed
  have "remembered env t ch'" if "remembered env t ch" for t
    using that same keep remembered_stamp [OF s2] by blast
  with once keep same show ?thesis by blast
qed

definition beyond :: "block_env \<Rightarrow> checkpoints \<Rightarrow> signed_block \<Rightarrow> bool" where
  "beyond benv cps b = (cps = [] \<or> fst (last cps) < uint (block_num benv b))"

lemma apply_block_beyond:
  "apply_block env cps fuel skip b ch f = Some (f', Inr ch') \<Longrightarrow> beyond (ce_block env) cps b \<Longrightarrow> apply_block_now env fuel skip b ch f = Some (f', Inr ch')"
  by (auto simp: apply_block_def beyond_def Let_def split: if_splits)

lemma apply_blocks_once:
  assumes "steady_interpreters (ce_eval env)" and "skip_transaction_dupe_check \<notin> skip" and "ids_reveal_expiration env"
  shows "apply_blocks env cps fuel skip bs ch f = Some (f', Inr ch') \<Longrightarrow>
    \<forall>b \<in> set bs. block_num (ce_block env) b \<noteq> 0 \<and> beyond (ce_block env) cps b \<Longrightarrow>
    distinct (map (ce_trx_id env) (concat (map bh_transactions bs))) \<and>
    (\<forall>s t. remembered env s ch \<longrightarrow> t \<in> set (concat (map bh_transactions bs)) \<longrightarrow> ce_trx_id env s \<noteq> ce_trx_id env t)"
proof (induction bs arbitrary: ch f)
  case (Cons b bs)
  from Cons.prems(1) obtain f1 ch1 where 1: "apply_block env cps fuel skip b ch f = Some (f1, Inr ch1)"
    and 2: "apply_blocks env cps fuel skip bs ch1 f1 = Some (f', Inr ch')" by (auto split: option.splits prod.splits sum.splits)
  have "beyond (ce_block env) cps b" and n: "block_num (ce_block env) b \<noteq> 0" using Cons.prems(2) by simp_all
  note now = apply_block_beyond [OF 1 this(1)]
  note b = apply_block_once [OF now assms n]
  have "\<forall>b \<in> set bs. block_num (ce_block env) b \<noteq> 0 \<and> beyond (ce_block env) cps b" using Cons.prems(2) by simp
  note ih = Cons.IH [OF 2 this]
  have "ce_trx_id env s \<noteq> ce_trx_id env t" if "s \<in> set (bh_transactions b)" "t \<in> set (concat (map bh_transactions bs))" for s t
    using b ih that by blast
  then have "ce_trx_id env ` set (bh_transactions b) \<inter> ce_trx_id env ` set (concat (map bh_transactions bs)) = {}"
    by (auto simp del: set_concat)
  moreover have "ce_trx_id env s \<noteq> ce_trx_id env t" if "remembered env s ch" "t \<in> set (concat (map bh_transactions (b # bs)))" for s t
    using b ih that by (auto simp del: set_concat)
  ultimately show ?case using b ih by (simp del: set_concat)
qed simp

text \<open>
  C3: No transaction is applied twice.  In every run of blocks that the chain accepts, however long, the ids of all
  transactions are different, whichever rows of the table of recent transactions have been dropped meanwhile: a row is
  dropped only when its transaction has expired, and an expired transaction is refused.  The assumptions: the check for duplicates
  is not skipped (the blocks are beyond the last checkpoint), ids that agree have one expiration (they are digests
  of the transaction), interpreters of plugins leave the head block alone, and block numbers do not wrap to zero.
\<close>
theorem transactions_applied_once:
  assumes "apply_blocks env cps fuel skip bs ch f = Some (f', Inr ch')" and "skip_transaction_dupe_check \<notin> skip"
    and "ids_reveal_expiration env" and "steady_interpreters (ce_eval env)"
    and "\<forall>b \<in> set bs. block_num (ce_block env) b \<noteq> 0 \<and> beyond (ce_block env) cps b"
  shows "distinct (map (ce_trx_id env) (concat (map bh_transactions bs)))"
  using apply_blocks_once [OF assms(4,2,3,1,5)] by blast

text \<open>
  C4: A block that is applied with all checks extends the head block, is later than it, is signed with the key of its
  witness, who is the witness of the slot, has the Merkle root of its transactions (but for the listed exceptions) and
  is not too large; afterwards it is the head block: its time, number and id.
\<close>
theorem applied_block_is_next:
  assumes "apply_block env cps fuel {} b ch f = Some (f', Inr ch')" and "beyond (ce_block env) cps b" and "steady_interpreters (ce_eval env)"
  shows "let benv = ce_block env; db = ch_db ch; db' = ch_db ch'; root = calculate_merkle_root benv b
    in bh_previous b = head_block_id (db_dgp db) \<and> head_block_time db < bh_timestamp b \<and>
      (\<exists>w. get_witness (bh_witness b) db = Inr w \<and> signee benv b = w_signing_key w \<and>
         w_owner w = get_scheduled_witness (get_slot_at_time (bh_timestamp b) db) db) \<and>
      (bh_transaction_merkle_root b = root \<or> merkle_excused env (uint (block_num benv b)) root) \<and>
      block_pack_size benv b \<le> dgp_maximum_block_size (db_dgp db) \<and>
      head_block_time db' = bh_timestamp b \<and> head_block_num db' = uint (block_num benv b) \<and> head_block_id (db_dgp db') = block_id benv b"
proof -
  note now = apply_block_beyond [OF assms(1,2)]
  obtain w ch1 where "prepare_block env {} b ch = Inr (w, ch1)" using apply_block_now_Inr [OF now] by blast
  note p = prepare_block_Inr [OF this]
  then have v: "validate_block_now env {} b (ch_db ch) = Inr ()" and h: "validate_block_header (ce_block env) {} b (ch_db ch) = Inr w" by simp_all
  note c = apply_block_now_clock [OF now assms(3)]
  from v validate_block_header_Inr [OF h] c show ?thesis
    by (auto simp: validate_block_now_def all_ok_Inr Let_def simp del: all_ok.simps)
qed

section \<open>A block of a small chain\<close>

text \<open>A chain without shares or open business, and a block with one transaction.\<close>

declare clock_dgp [simp del] clock_fields [simp del]

definition head_id :: block_id_type where
  "head_id = [0x0A000000, 0, 0, 0, 0]"

definition quiet_accounts :: "account_object list" where
  "quiet_accounts = [sample_account 0 ''alice'' 0 0, sample_account 2 ''viz'' 0 0, sample_account 3 ''null'' 0 0,
     sample_account 4 ''anonymous'' 0 0, sample_account 5 ''committee'' 0 0]"

definition quiet_dgp :: dynamic_global_property_object where
  "quiet_dgp = sample_dgp\<lparr>head_block_id := head_id, total_vesting_shares := mk_asset 0 SHARES_SYMBOL, total_vesting_fund := mk_asset 0 TOKEN_SYMBOL,
     current_supply := mk_asset 1000000 TOKEN_SYMBOL\<rparr>"

definition quiet_witness :: witness_object where
  "quiet_witness = (new_witness ''viz'' 0 0)\<lparr>w_signing_key := ''K1'', w_running_version := make_version 3 0 0\<rparr>"

definition quiet_db :: "account_object list \<Rightarrow> dynamic_global_property_object \<Rightarrow> witness_object list \<Rightarrow> database" where
  "quiet_db accs p ws = (ch_db sample_chain)\<lparr>db_accounts := accs, db_dgp := p, db_witnesses := ws\<rparr>"

definition quiet_chain :: "account_object list \<Rightarrow> dynamic_global_property_object \<Rightarrow> witness_object list \<Rightarrow> transaction_object list \<Rightarrow> chain" where
  "quiet_chain accs p ws rows = sample_chain\<lparr>ch_hpo := sample_hpo\<lparr>hpo_last_hardfork := 11\<rparr>, ch_db := quiet_db accs p ws, ch_transactions := rows\<rparr>"

definition idle_transaction :: signed_transaction where
  "idle_transaction = \<lparr>tx_ref_block_num = 0, tx_ref_block_prefix = 0, tx_expiration = 1000500, tx_operations = [idle], tx_signatures = [''KA'']\<rparr>"

definition idle_block :: signed_block where
  "idle_block = (sample_block head_id 1000002)\<lparr>bh_transaction_merkle_root := [1, 1000500], bh_transactions := [idle_transaction]\<rparr>"

text \<open>Ids that name the expiration, as a digest does.\<close>

definition quiet_id :: "signed_transaction \<Rightarrow> string" where
  "quiet_id t = (if tx_expiration t < 0 then CHR ''-'' # replicate (nat (- tx_expiration t)) CHR ''0'' else replicate (nat (tx_expiration t)) CHR ''0'')"

definition quiet_env :: chain_env where
  "quiet_env = sample_chain_env\<lparr>ce_trx_id := quiet_id\<rparr>"

lemma quiet_env_ok: "ids_reveal_expiration quiet_env" "steady_interpreters (ce_eval quiet_env)"
proof -
  have "tx_expiration s = tx_expiration t" if "quiet_id s = quiet_id t" for s t
  proof -
    have "CHR ''-'' # xs \<noteq> replicate n CHR ''0''" "replicate n CHR ''0'' \<noteq> CHR ''-'' # xs" for xs n by (cases n; simp)+
    then show ?thesis using that by (simp add: quiet_id_def replicate_eq_replicate split: if_splits)
  qed
  moreover have "ce_trx_id quiet_env = quiet_id" by (simp add: quiet_env_def)
  ultimately show "ids_reveal_expiration quiet_env" unfolding ids_reveal_expiration_def by metis
  show "steady_interpreters (ce_eval quiet_env)" by (simp add: steady_interpreters_def quiet_env_def sample_chain_env_def sample_eval_env_def)
qed

lemma quiet_db_fields [simp]:
  "db_accounts (quiet_db accs p ws) = accs" "db_dgp (quiet_db accs p ws) = p" "db_witnesses (quiet_db accs p ws) = ws"
  "db_escrows (quiet_db accs p ws) = []" "db_delegation_expirations (quiet_db accs p ws) = []" "db_invites (quiet_db accs p ws) = []"
  "db_committee_requests (quiet_db accs p ws) = []" "db_master_history (quiet_db accs p ws) = []" "db_recovery_requests (quiet_db accs p ws) = []"
  "db_change_recovery_requests (quiet_db accs p ws) = []" "db_award_expires (quiet_db accs p ws) = []" "db_paid_subscribes (quiet_db accs p ws) = []"
  "db_processed_hardforks (quiet_db accs p ws) = 12" "db_schedule (quiet_db accs p ws) = db_schedule sample_db" "has_hardfork n (quiet_db accs p ws) = (n < 12)"
  "db_authorities (quiet_db accs p ws) = db_authorities (ch_db sample_chain)" "db_committee_votes (quiet_db accs p ws) = []"
  by (simp_all add: quiet_db_def sample_chain_def sample_db_def has_hardfork_def)

lemma quiet_db_updates [simp]:
  "(quiet_db accs p ws)\<lparr>db_accounts := as\<rparr> = quiet_db as p ws" "(quiet_db accs p ws)\<lparr>db_dgp := q\<rparr> = quiet_db accs q ws"
  "(quiet_db accs p ws)\<lparr>db_witnesses := vs\<rparr> = quiet_db accs p vs" "(quiet_db accs p ws)\<lparr>db_delegation_expirations := []\<rparr> = quiet_db accs p ws"
  "(quiet_db accs p ws)\<lparr>db_invites := []\<rparr> = quiet_db accs p ws" 
  "(quiet_db accs p ws)\<lparr>db_committee_requests := [], db_committee_votes := []\<rparr> = quiet_db accs p ws"
  "(quiet_db accs p ws)\<lparr>db_master_history := [], db_recovery_requests := []\<rparr> = quiet_db accs p ws"
  "(quiet_db accs p ws)\<lparr>db_change_recovery_requests := []\<rparr> = quiet_db accs p ws"
  "(quiet_db accs p ws)\<lparr>db_dgp := q, db_award_expires := []\<rparr> = quiet_db accs q ws" "(quiet_db accs p ws)\<lparr>db_award_expires := []\<rparr> = quiet_db accs p ws"
  by (simp_all add: quiet_db_def sample_chain_def sample_db_def)

lemma block_facts:
  "block_num sample_block_env idle_block = 11" "block_id sample_block_env idle_block = [0x0B000000, 1000002, 0x0A000007, 3, 4]"
  "calculate_merkle_root sample_block_env idle_block = [1, 1000500]"
  by code_simp+

lemma quiet_before: "run_steps steps_before_schedule (quiet_db accs p ws) = Inr (quiet_db accs p ws)"
  if "head_block_number p mod CHAIN_BLOCKS_PER_HOUR \<noteq> 0"
  using that by (simp add: run_steps_def steps_before_schedule_def clear_expired_delegations_def since_def total_step_def clear_used_invites_def
    clear_closed_committee_requests_def update_bandwidth_reserve_candidates_def Let_def)

lemma quiet_chain_fields [simp]:
  "ch_db (quiet_chain accs p ws rows) = quiet_db accs p ws" "ch_transactions (quiet_chain accs p ws rows) = rows"
  "ch_proposals (quiet_chain accs p ws rows) = []" "ch_validations (quiet_chain accs p ws rows) = []" 
  "ch_hpo (quiet_chain accs p ws rows) = sample_hpo\<lparr>hpo_last_hardfork := 11\<rparr>" "ch_summaries (quiet_chain accs p ws rows) = (\<lambda>_. zero_id)"
  "(quiet_chain accs p ws rows)\<lparr>ch_db := quiet_db as q vs\<rparr> = quiet_chain as q vs rows"
  "(quiet_chain accs p ws rows)\<lparr>ch_transactions := ts\<rparr> = quiet_chain accs p ws ts"
  by (simp_all add: quiet_chain_def sample_chain_def)

lemma idle_block_fields [simp]:
  "bh_previous idle_block = head_id" "bh_timestamp idle_block = 1000002" "bh_witness idle_block = ''viz''" "bh_extensions idle_block = []"
  "bh_transaction_merkle_root idle_block = [1, 1000500]" "bh_witness_signature idle_block = ''K1''" "bh_transactions idle_block = [idle_transaction]"
  by (simp_all add: idle_block_def sample_block_def)

lemma quiet_witness_fields [simp]: "w_owner quiet_witness = ''viz''" "w_signing_key quiet_witness = ''K1''" "w_last_supported_block_num quiet_witness = 0" "w_current_run quiet_witness = 0"
  "w_running_version quiet_witness = make_version 3 0 0"
  by (simp_all add: quiet_witness_def new_witness_def)

lemma quiet_dgp_fields [simp]: "head_block_number quiet_dgp = 10" "dgp_time quiet_dgp = 1000000" "head_block_id quiet_dgp = head_id"
  "dgp_maximum_block_size quiet_dgp = 131072" "current_aslot quiet_dgp = 10" "quiet_dgp\<lparr>current_witness := ''viz''\<rparr> = quiet_dgp"
  "total_vesting_shares quiet_dgp = mk_asset 0 SHARES_SYMBOL" "total_vesting_fund quiet_dgp = mk_asset 0 TOKEN_SYMBOL"
  "last_irreversible_block_num quiet_dgp = 0"
  by (simp_all add: quiet_dgp_def sample_dgp_def)

lemma quiet_schedule [simp]: "ws_current_shuffled_witnesses (db_schedule sample_db) = [''viz'']" "ws_num_scheduled_witnesses (db_schedule sample_db) = 1"
  "ws_median_props (db_schedule sample_db) = sample_props"
  by (simp_all add: sample_db_def)

lemma env_fields [simp]: "ce_block quiet_env = sample_block_env" "ce_eval quiet_env = sample_eval_env" "ce_recover quiet_env t k = k"
  "\<not> ev_producing sample_eval_env" "ev_interpreters sample_eval_env i = None" "transaction_pack_size sample_block_env t = 100"
  by (simp_all add: quiet_env_def sample_chain_env_def sample_eval_env_def sample_block_env_def)

lemma transaction_fields [simp]: "tx_operations idle_transaction = [idle]" "tx_signatures idle_transaction = [''KA'']"
  "tx_expiration idle_transaction = 1000500" "tx_ref_block_prefix idle_transaction = 0"
  by (simp_all add: idle_transaction_def)

lemma quiet_prepare: "prepare_block quiet_env {} idle_block (quiet_chain quiet_accounts quiet_dgp [quiet_witness] []) =
   Inr (quiet_witness, quiet_chain quiet_accounts quiet_dgp [quiet_witness] [])"
  by (simp add: prepare_block_def validate_block_now_def validate_block_header_def block_facts enter_block_def fc_assert_def
    get_witness_def validate_signee_def process_header_extensions_def check_running_version_def version_le_def sample_hpo_def
    get_scheduled_witness_def get_slot_at_time_def get_slot_time_def Let_def) (simp add: sample_block_env_def)

lemma quiet_verify: "verify_transaction quiet_env idle_transaction (quiet_db accs quiet_dgp ws) = Inr ()"
  by (simp add: verify_transaction_def get_signature_keys_def verify_authority_def required_idle verify_active_def authority_env_def get_authority_def sample_chain_def
     alice_authority_def add_approvals_def init_sign_state_def check_account_authority_def check_getter_def signed_by_def
     assert_unused_approvals_def remove_unused_signatures_def filter_unused_approvals_def Let_def)

definition bumped_accounts :: "account_object list" where
  "bumped_accounts = modify_row acc_name ''alice'' (\<lambda>a. a\<lparr>acc_custom_sequence := 1, acc_custom_sequence_block_num := 11\<rparr>) quiet_accounts"

lemma quiet_idle: "evaluate sample_eval_env idle (quiet_db quiet_accounts quiet_dgp ws) = Inr (quiet_db bumped_accounts quiet_dgp ws)"
  by (simp add: evaluate_def idle_def custom_apply_def bump_sequence_def modify_account_def update_row_def bumped_accounts_def quiet_accounts_def sample_account_def account_object_defaults_def modify_row_def)

lemma quiet_charge: "charge_account quiet_env idle_transaction ''alice'' (quiet_db quiet_accounts quiet_dgp ws) = Inr (quiet_db quiet_accounts quiet_dgp ws)"
  by (simp add: charge_account_def get_account_def charge_def update_account_bandwidth_def quiet_accounts_def sample_account_def account_object_defaults_def idle_def is_data_operation_def)

lemma quiet_transaction: "apply_transactions quiet_env (apply_operation quiet_env (Suc n) 0 0) {} [idle_transaction]
     (quiet_chain quiet_accounts quiet_dgp [quiet_witness] []) = Some (Inr (quiet_chain bumped_accounts quiet_dgp [quiet_witness] [row_of quiet_env idle_transaction]))"
proof -
  have "validate_transaction_now quiet_env {} idle_transaction (quiet_chain quiet_accounts quiet_dgp [quiet_witness] []) = Inr ()"
    using valid_sample(1) by (simp add: validate_transaction_now_def quiet_verify sample_chain_env_def fc_assert_def ref_prefix_def zero_id_def Let_def)
  moreover have "apply_operation quiet_env (Suc n) 0 0 idle ch = Some (case evaluate sample_eval_env idle (ch_db ch) of Inl e \<Rightarrow> Inl e | Inr db \<Rightarrow> Inr (ch\<lparr>ch_db := db\<rparr>))" for ch
    by (simp add: apply_operation.simps idle_def)
  ultimately show ?thesis
    by (simp add: apply_transaction_def record_transaction_def create_row_def all_required_sample quiet_charge quiet_idle)
qed

definition empty_files :: ledger_files where
  "empty_files = \<lparr>lf_forks = empty_fork_database, lf_log = []\<rparr>"

definition next_dgp :: dynamic_global_property_object where
  "next_dgp = advance_dgp sample_block_env idle_block 0 quiet_dgp"

lemma next_dgp_fields [simp]: "dgp_time next_dgp = 1000002" "head_block_number next_dgp = 11" "last_irreversible_block_num next_dgp = 0"
  "total_vesting_shares next_dgp = mk_asset 0 SHARES_SYMBOL" "total_vesting_fund next_dgp = mk_asset 0 TOKEN_SYMBOL"
  "committee_fund next_dgp = mk_asset 0 TOKEN_SYMBOL" "total_reward_fund next_dgp = mk_asset 1000000 TOKEN_SYMBOL"
  "current_supply next_dgp = mk_asset 1000000 TOKEN_SYMBOL" "current_witness next_dgp = ''viz''" "inflation_calc_block_num next_dgp = 0"
  "dgp_inflation_witness_percent next_dgp = 0" "inflation_ratio next_dgp = 0"
  by (simp_all add: next_dgp_def advance_dgp_def adjust_reserve_ratio_def block_facts quiet_dgp_def sample_dgp_def Let_def split: prod.split)

lemma quiet_advance: "\<exists>w f. advance_head quiet_env {} idle_block ''viz'' (quiet_chain accs quiet_dgp [quiet_witness] rows) f0 =
   (f, Inr ((quiet_chain accs next_dgp [w] rows)\<lparr>ch_summaries := (\<lambda>_. zero_id)(11 := block_id sample_block_env idle_block)\<rparr>)) \<and> w_owner w = ''viz''"
proof -
  let ?q = "quiet_db accs next_dgp [quiet_witness]"
  have 1: "update_global_dynamic_data sample_block_env False idle_block (quiet_db accs quiet_dgp [quiet_witness]) = Inr ?q"
    by (simp add: update_global_dynamic_data_def missed_blocks_def get_slot_at_time_def get_slot_time_def Let_def next_dgp_def [symmetric])
  define w where "w = hd (db_witnesses (update_signing_witness sample_block_env ''viz'' idle_block ?q))"
  have 2: "update_signing_witness sample_block_env ''viz'' idle_block ?q = quiet_db accs next_dgp [w]"
    and w: "w_owner w = ''viz''" "w_last_supported_block_num w = 0"
    by (simp_all add: w_def update_signing_witness_def set_witness_def modify_row_def Let_def)
  have "scheduled_witnesses (quiet_db accs next_dgp [w]) = Inr [w]"
    using w by (simp add: scheduled_witnesses_def get_witness_def)
  then have 3: "update_last_irreversible_block sample_block_env False (quiet_db accs next_dgp [w]) f0 =
      (trim_forks (quiet_db accs next_dgp [w]) f0, Inr (quiet_db accs next_dgp [w]))"
    using w by (simp add: update_last_irreversible_block_def settle_irreversible_def supported_block_def irreversible_offset_def write_log_def
        name_irreversible_def read_log_def Let_def)
  then show ?thesis using w by (intro exI [of _ w] exI [of _ "trim_forks (quiet_db accs next_dgp [w]) f0"])
      (simp add: advance_head_def 1 2 3 create_block_summary_def block_facts(1) Let_def)
qed

lemmas account_defs = bumped_accounts_def quiet_accounts_def sample_account_def account_object_defaults_def modify_row_def

lemma add_zero: "symbol d = symbol (get r) \<Longrightarrow> amount d = 0 \<Longrightarrow> upd (\<lambda>_. get r) r = r \<Longrightarrow> add_field get upd d r = Inr r"
  by (cases "get r"; cases d) (simp add: add_field_def asset_add_def mk_asset_def)

lemma quiet_viz: "find_row acc_name ''viz'' bumped_accounts = Some (sample_account 2 ''viz'' 0 0)"
  "modify_row acc_name ''viz'' (\<lambda>_. sample_account 2 ''viz'' 0 0) bumped_accounts = bumped_accounts"
  by (simp_all add: account_defs)

lemma viz_fields [simp]: "symbol (acc_vesting_shares (sample_account i n b v)) = SHARES_SYMBOL" "acc_proxy (sample_account i n b v) = []"
  "acc_witnesses_voted_for (sample_account i n b v) = 0" "acc_balance (sample_account i n b v) = mk_asset b TOKEN_SYMBOL"
  "acc_vesting_shares (sample_account i n b v) = mk_asset v SHARES_SYMBOL"
  by (simp_all add: sample_account_def account_object_defaults_def)

lemma quiet_vesting:
  assumes "total_vesting_shares p = mk_asset 0 SHARES_SYMBOL" and "total_vesting_fund p = mk_asset 0 TOKEN_SYMBOL"
  shows "create_vesting ''viz'' (mk_asset 0 TOKEN_SYMBOL) (quiet_db bumped_accounts p ws) = Inr (mk_asset 0 SHARES_SYMBOL, quiet_db bumped_accounts p ws)"
  using assms by (simp add: create_vesting_def get_vesting_share_price_def asset_times_price_def modify_account_def update_row_def quiet_viz add_zero
    modify_dgp_def adjust_proxied_witness_votes.simps adjust_witness_votes_def get_account_def)

lemma quiet_funds:
  assumes "w_owner w = ''viz''"
  shows "\<exists>p. process_funds (quiet_db bumped_accounts next_dgp [w]) = Inr (quiet_db bumped_accounts p [w]) \<and> dgp_time p = 1000002 \<and> head_block_number p = 11"
proof -
  have e: "block_emission (quiet_db bumped_accounts next_dgp [w]) = \<lparr>em_vesting = 0, em_committee = 0, em_reward = CHAIN_DIGITAL_ASSET_ISSUED_PER_BLOCK, em_witness = 0\<rparr>"
    by (simp add: block_emission_def consensus_emission_def Let_def)
  let ?p = "next_dgp\<lparr>total_reward_fund := mk_asset (1000000 + CHAIN_DIGITAL_ASSET_ISSUED_PER_BLOCK) TOKEN_SYMBOL,
     current_supply := mk_asset (1000000 + CHAIN_DIGITAL_ASSET_ISSUED_PER_BLOCK) TOKEN_SYMBOL\<rparr>"
  have "add_emission (block_emission (quiet_db bumped_accounts next_dgp [w])) next_dgp = Inr ?p"
    unfolding e by (simp add: add_emission_def add_zero) (simp add: add_field_def asset_add_def emitted_def)
  then have "process_funds (quiet_db bumped_accounts next_dgp [w]) = Inr (quiet_db bumped_accounts ?p [w])" using assms
    by (simp add: process_funds_def modify_dgp_def get_witness_def get_account_def quiet_viz Let_def) (simp add: e quiet_vesting)
  then show ?thesis by (intro exI [of _ ?p]) simp
qed

lemma first_in_index_set: "first_in_index as = Some a \<Longrightarrow> a \<in> set as"
  by (induction as arbitrary: a) (auto split: option.splits if_splits)

lemma no_withdrawals:
  assumes "\<forall>a \<in> set (db_accounts db). head_block_time db < acc_next_vesting_withdrawal a"
  shows "process_vesting_withdrawals db = Inr db"
proof (cases "first_in_index (db_accounts db)")
  case (Some a)
  then have "a \<in> set (db_accounts db)" by (rule first_in_index_set)
  then have "find_row acc_id (acc_id a) (db_accounts db) \<noteq> None" by (auto simp: find_row_None)
  then obtain b where "find_row acc_id (acc_id a) (db_accounts db) = Some b" by blast
  moreover from this have "b \<in> set (db_accounts db)" by (rule find_row_set)
  ultimately show ?thesis using Some assms by (force simp: process_vesting_withdrawals_def get_account_by_id_def)
qed (simp add: process_vesting_withdrawals_def)

lemmas reserved_names = CHAIN_NULL_ACCOUNT_def CHAIN_ANONYMOUS_ACCOUNT_def CHAIN_COMMITTEE_ACCOUNT_def

lemma quiet_tail:
  assumes "dgp_time p = 1000002" "head_block_number p = 11"
  shows "run_steps (drop 3 steps_after_schedule) (quiet_db bumped_accounts p ws) = Inr (quiet_db bumped_accounts p ws)"
proof -
  let ?q = "quiet_db bumped_accounts p ws"
  have "process_vesting_withdrawals ?q = Inr ?q" using assms by (intro no_withdrawals) (simp add: account_defs)
  moreover have "account_recovery_processing ?q = Inr ?q" by (simp add: account_recovery_processing_def Let_def)
  moreover have "expire_escrow_ratification ?q = Inr ?q" by (simp add: expire_escrow_ratification_def unratified_def)
  moreover have "account_on_auction_expiration ?q = Inr ?q" by (simp add: account_on_auction_expiration_def account_defs)
  moreover have "clear_null_account_balance ?q = Inr ?q" by (simp add: clear_null_account_balance_def empty_account_def get_account_def reserved_names account_defs)
  moreover have "clear_anonymous_account_balance ?q = Inr ?q" by (simp add: clear_anonymous_account_balance_def empty_account_def get_account_def reserved_names account_defs)
  moreover have "claim_committee_account_balance ?q = Inr ?q" by (simp add: claim_committee_account_balance_def empty_account_def get_account_def reserved_names account_defs)
  moreover have "committee_processing ?q = Inr ?q" using assms by (simp add: committee_processing_def with_status_def)
  moreover have "paid_subscribe_processing ?q = Inr ?q" by (simp add: paid_subscribe_processing_def due_subscribes_def)
  ultimately show ?thesis by (simp add: run_steps_def steps_after_schedule_def since_def)
qed

lemma quiet_after:
  assumes "w_owner w = ''viz''"
  shows "\<exists>p. run_steps steps_after_schedule (quiet_db bumped_accounts next_dgp [w]) = Inr (quiet_db bumped_accounts p [w]) \<and> dgp_time p = 1000002 \<and> head_block_number p = 11"
proof -
  from quiet_funds [OF assms] obtain p where p: "process_funds (quiet_db bumped_accounts next_dgp [w]) = Inr (quiet_db bumped_accounts p [w])"
    "dgp_time p = 1000002" "head_block_number p = 11" by blast
  from quiet_tail [OF p(2,3), of "[w]"] p show ?thesis
    by (intro exI [of _ p]) (simp add: run_steps_def steps_after_schedule_def since_def total_step_def process_inflation_recalc_def
        expire_award_shares_processing_def sample_props_def Let_def)
qed

definition quiet_start :: chain where
  "quiet_start = quiet_chain quiet_accounts quiet_dgp [quiet_witness] []"

lemma quiet_close:
  assumes "w_owner w = ''viz''"
  shows "\<exists>f' ch'. close_block quiet_env app (Suc n) idle_block ((quiet_chain bumped_accounts next_dgp [w] rows)\<lparr>ch_summaries := g\<rparr>) f = Some (f', Inr ch')"
proof -
  from quiet_after [OF assms] obtain p where p: "run_steps steps_after_schedule (quiet_db bumped_accounts next_dgp [w]) = Inr (quiet_db bumped_accounts p [w])" by blast
  then show ?thesis
    by (simp add: close_block_def clear_expired_proposals.simps clear_expired_transactions_def process_accounts_def quiet_before update_witness_schedule_def
        process_hardforks_def version_lt_def hardfork_versions_def sample_hpo_def post_validation_def Let_def)
qed

lemma quiet_block_applies: "\<exists>f' ch'. apply_block quiet_env [] 1 {} idle_block quiet_start f0 = Some (f', Inr ch')"
proof -
  let ?rows = "[row_of quiet_env idle_transaction]"
  from quiet_advance obtain w f where 1: "advance_head quiet_env {} idle_block ''viz'' (quiet_chain bumped_accounts quiet_dgp [quiet_witness] ?rows) f0 =
     (f, Inr ((quiet_chain bumped_accounts next_dgp [w] ?rows)\<lparr>ch_summaries := (\<lambda>_. zero_id)(11 := block_id sample_block_env idle_block)\<rparr>))"
    and "w_owner w = ''viz''" by blast
  from quiet_close [OF this(2)] show ?thesis
    using quiet_prepare quiet_transaction [of 0] 1
    by (simp add: apply_block_def apply_block_now_def quiet_start_def Let_def)
qed

theorem transactions_applied_once_witness:
  "distinct (map (ce_trx_id quiet_env) (concat (map bh_transactions [idle_block])))"
proof -
  obtain f' ch' where "apply_block quiet_env [] 1 {} idle_block quiet_start empty_files = Some (f', Inr ch')" using quiet_block_applies by blast
  then have "apply_blocks quiet_env [] 1 {} [idle_block] quiet_start empty_files = Some (f', Inr ch')" by simp
  from transactions_applied_once [OF this _ quiet_env_ok] show ?thesis by (simp add: block_facts beyond_def)
qed

theorem applied_block_is_next_witness:
  "\<exists>f' ch'. apply_block quiet_env [] 1 {} idle_block quiet_start empty_files = Some (f', Inr ch') \<and>
     head_block_num (ch_db ch') = 11 \<and> head_block_id (db_dgp (ch_db ch')) = block_id sample_block_env idle_block"
proof -
  obtain f' ch' where run: "apply_block quiet_env [] 1 {} idle_block quiet_start empty_files = Some (f', Inr ch')" using quiet_block_applies by blast
  from applied_block_is_next [OF this _ quiet_env_ok(2)] have "head_block_num (ch_db ch') = uint (block_num sample_block_env idle_block) \<and>
      head_block_id (db_dgp (ch_db ch')) = block_id sample_block_env idle_block" by (simp add: beyond_def Let_def)
  with run show ?thesis by (simp add: block_facts(1))
qed

end
