(* ===== verification/Chain_Node.thy ===== *)
theory Chain_Node
  imports Chain_Blocks
begin

text \<open>
  The node around the chain: pending transactions, blocks received and produced, and the switch to a
  longer fork (\<open>push_block\<close>, \<open>pop_block\<close>, \<open>push_transaction\<close> and \<open>generate_block\<close> of \<open>chain/database.cpp\<close>, and
  \<open>chain/db_with.hpp\<close>).

  The sessions of chainbase are the states to return to: the state before each block that can still be undone,
  and the state with the pending transactions.  A committed block loses its state once the block that commits it
  has been applied.  Locks, the resizing of the shared memory and its retry are not modelled; whether
  restoring the pending transactions has used up its time is the argument \<open>late\<close>.
\<close>

section \<open>The state of the node\<close>

record node =
  nd_chain :: chain
  nd_undo :: "chain list"
  nd_session :: "chain option"
  nd_files :: ledger_files
  nd_pending_tx :: "signed_transaction list"
  nd_popped_tx :: "signed_transaction list"

record signing_key =
  sk_public :: public_key_type
  sk_sign :: "signed_block \<Rightarrow> string"

record node_env =
  ne_chain :: chain_env
  ne_checkpoints :: checkpoints
  ne_header_size :: int

abbreviation ne_block :: "node_env \<Rightarrow> block_env" where
  "ne_block ne \<equiv> ce_block (ne_chain ne)"

abbreviation head_id_of :: "node \<Rightarrow> block_id_type" where
  "head_id_of nd \<equiv> head_block_id (db_dgp (ch_db (nd_chain nd)))"

definition current_state :: "node \<Rightarrow> chain" where
  "current_state nd = (case nd_session nd of None \<Rightarrow> nd_chain nd | Some ch \<Rightarrow> ch)"

section \<open>Transactions\<close>

definition clear_pending :: "node \<Rightarrow> node" where
  "clear_pending nd = nd\<lparr>nd_pending_tx := [], nd_session := None\<rparr>"

definition is_known_transaction :: "string \<Rightarrow> node \<Rightarrow> bool" where
  "is_known_transaction i nd = (i \<in> to_trx_id ` set (ch_transactions (current_state nd)))"

text \<open>\<open>_push_transaction\<close>: the session opened for the first pending transaction stays when the transaction fails.\<close>

definition queue_transaction :: "chain_env \<Rightarrow> nat \<Rightarrow> validation_step set \<Rightarrow> signed_transaction \<Rightarrow> node \<Rightarrow> (node \<times> unit result) option" where
  "queue_transaction env fuel skip trx nd =
     (case apply_transaction env (apply_operation env fuel 0 0) skip trx (current_state nd) of None \<Rightarrow> None
      | Some (Inl e) \<Rightarrow> Some (nd\<lparr>nd_session := Some (current_state nd)\<rparr>, Inl e)
      | Some (Inr ch) \<Rightarrow> Some (nd\<lparr>nd_session := Some ch, nd_pending_tx := nd_pending_tx nd @ [trx]\<rparr>, Inr ()))"

definition with_producing :: "chain_env \<Rightarrow> chain_env" where
  "with_producing env = env\<lparr>ce_eval := (ce_eval env)\<lparr>ev_producing := True\<rparr>\<rparr>"

definition push_transaction :: "node_env \<Rightarrow> nat \<Rightarrow> validation_step set \<Rightarrow> signed_transaction \<Rightarrow> node \<Rightarrow> (node \<times> unit result) option" where
  "push_transaction ne fuel skip trx nd =
     (if \<not> transaction_pack_size (ne_block ne) trx \<le> u32 (dgp_maximum_block_size (db_dgp (ch_db (current_state nd))) - 256)
      then Some (nd, Inl (FC_Assert ''fc::raw::pack_size(trx) <= (maximum_block_size - 256)''))
      else queue_transaction (with_producing (ne_chain ne)) fuel skip trx nd)"

text \<open>
  The destructor of \<open>pending_transactions_restorer\<close>: the transactions of popped blocks first, then those that
  were pending; once it is late the rest is only queued.
\<close>

fun restore_transactions :: "chain_env \<Rightarrow> nat \<Rightarrow> validation_step set \<Rightarrow> (nat \<Rightarrow> bool) \<Rightarrow> nat \<Rightarrow> bool \<Rightarrow> signed_transaction list \<Rightarrow> node \<Rightarrow>
    (node \<times> unit result) option" where
  "restore_transactions env fuel skip late i apply_trxs [] nd = Some (nd, Inr ())"
| "restore_transactions env fuel skip late i apply_trxs (t # ts) nd =
     (let go = apply_trxs \<and> \<not> late i
      in if \<not> go then restore_transactions env fuel skip late (i + 1) go ts (nd\<lparr>nd_pending_tx := nd_pending_tx nd @ [t]\<rparr>)
         else if is_known_transaction (ce_trx_id env t) nd then restore_transactions env fuel skip late (i + 1) go ts nd
         else (case queue_transaction env fuel skip t nd of None \<Rightarrow> None
               | Some (nd', Inr _) \<Rightarrow> restore_transactions env fuel skip late (i + 1) go ts nd'
               | Some (nd', Inl e) \<Rightarrow> if catchable e then restore_transactions env fuel skip late (i + 1) go ts nd' else Some (nd', Inl e)))"

definition restore_pending :: "chain_env \<Rightarrow> nat \<Rightarrow> validation_step set \<Rightarrow> (nat \<Rightarrow> bool) \<Rightarrow> signed_transaction list \<Rightarrow> node \<Rightarrow> (node \<times> unit result) option" where
  "restore_pending env fuel skip late waiting nd =
     restore_transactions env fuel skip late 0 True (nd_popped_tx nd @ waiting) (nd\<lparr>nd_popped_tx := []\<rparr>)"

section \<open>Blocks\<close>

definition fetch_block_by_id :: "block_env \<Rightarrow> block_id_type \<Rightarrow> ledger_files \<Rightarrow> signed_block option" where
  "fetch_block_by_id benv i f =
     (case fetch_fork_block i (lf_forks f) of Some x \<Rightarrow> Some (fi_data x)
      | None \<Rightarrow>
        (case read_log (uint (num_from_id benv i)) (lf_log f) of
           None \<Rightarrow> None | Some b \<Rightarrow> if block_id benv b = i then Some b else None))"

definition is_known_block :: "block_env \<Rightarrow> block_id_type \<Rightarrow> ledger_files \<Rightarrow> bool" where
  "is_known_block benv i f = (fetch_block_by_id benv i f \<noteq> None)"

definition undo_block :: "node \<Rightarrow> node" where
  "undo_block nd = (case nd_undo nd of [] \<Rightarrow> nd | ch # chs \<Rightarrow> nd\<lparr>nd_chain := ch, nd_undo := chs\<rparr>)"

definition pop_block :: "block_env \<Rightarrow> node \<Rightarrow> node \<times> unit result" where
  "pop_block benv nd =
     (let nd0 = nd\<lparr>nd_session := None\<rparr>
      in case fetch_block_by_id benv (head_id_of nd) (nd_files nd) of None \<Rightarrow> (nd0, Inl Pop_empty_chain)
         | Some b \<Rightarrow>
           (case pop_fork_block (lf_forks (nd_files nd)) of Inl e \<Rightarrow> (nd0, Inl e)
            | Inr fd \<Rightarrow>
              (let nd1 = undo_block (nd0\<lparr>nd_files := (nd_files nd)\<lparr>lf_forks := fd\<rparr>\<rparr>)
               in (nd1\<lparr>nd_popped_tx := bh_transactions b @ nd_popped_tx nd1\<rparr>, Inr ()))))"

text \<open>Popping until the given block is the head.\<close>

fun pop_until :: "block_env \<Rightarrow> nat \<Rightarrow> block_id_type \<Rightarrow> node \<Rightarrow> (node \<times> unit result) option" where
  "pop_until benv 0 i nd = None"
| "pop_until benv (Suc n) i nd =
     (if head_id_of nd = i then Some (nd, Inr ())
      else (case pop_block benv nd of (nd', Inl e) \<Rightarrow> Some (nd', Inl e) | (nd', Inr _) \<Rightarrow> pop_until benv n i nd'))"

text \<open>A session around \<open>apply_block\<close>, kept when it succeeds; committing forgets the oldest sessions.\<close>

definition irreversible_of :: "chain \<Rightarrow> int" where
  "irreversible_of ch = last_irreversible_block_num (db_dgp (ch_db ch))"

definition commit_sessions :: "int \<Rightarrow> chain list \<Rightarrow> chain list" where
  "commit_sessions n chs = rev (dropWhile (\<lambda>c. head_block_num (ch_db c) < n) (rev chs))"

definition apply_in_session :: "node_env \<Rightarrow> nat \<Rightarrow> validation_step set \<Rightarrow> signed_block \<Rightarrow> node \<Rightarrow> (node \<times> unit result) option" where
  "apply_in_session ne fuel skip b nd =
     (case apply_block (ne_chain ne) (ne_checkpoints ne) fuel skip b (nd_chain nd) (nd_files nd) of None \<Rightarrow> None
      | Some (f, Inl e) \<Rightarrow> Some (nd\<lparr>nd_files := f\<rparr>, Inl e)
      | Some (f, Inr ch) \<Rightarrow> Some (nd\<lparr>nd_files := f, nd_chain := ch,
          nd_undo := commit_sessions (irreversible_of ch) (nd_chain nd # nd_undo nd)\<rparr>, Inr ()))"

fun apply_branch :: "node_env \<Rightarrow> nat \<Rightarrow> validation_step set \<Rightarrow> fork_item list \<Rightarrow> node \<Rightarrow> (node \<times> (error \<times> fork_item list) option) option" where
  "apply_branch ne fuel skip [] nd = Some (nd, None)"
| "apply_branch ne fuel skip (x # xs) nd =
     (case apply_in_session ne fuel skip (fi_data x) nd of None \<Rightarrow> None
      | Some (nd', Inl e) \<Rightarrow> Some (nd', Some (e, x # xs))
      | Some (nd', Inr _) \<Rightarrow> apply_branch ne fuel skip xs nd')"

definition remove_branch :: "block_env \<Rightarrow> fork_item list \<Rightarrow> node \<Rightarrow> node" where
  "remove_branch benv xs nd = nd\<lparr>nd_files := (nd_files nd)\<lparr>lf_forks := fold (\<lambda>x. remove_fork_block (block_id benv (fi_data x))) xs (lf_forks (nd_files nd))\<rparr>\<rparr>"

text \<open>The way back when a block of the new branch fails.\<close>

definition restore_branch :: "node_env \<Rightarrow> nat \<Rightarrow> validation_step set \<Rightarrow> error \<Rightarrow> fork_item list \<Rightarrow> fork_item list \<Rightarrow> node \<Rightarrow> (node \<times> bool result) option" where
  "restore_branch ne fuel skip e rest second nd =
     (let nd1 = remove_branch (ne_block ne) rest nd;
          nd2 = nd1\<lparr>nd_files := (nd_files nd1)\<lparr>lf_forks := set_fork_head (hd second) (lf_forks (nd_files nd1))\<rparr>\<rparr>
      in case pop_until (ne_block ne) fuel (bh_previous (fi_data (last second))) nd2 of None \<Rightarrow> None
         | Some (nd3, Inl e') \<Rightarrow> Some (nd3, Inl e')
         | Some (nd3, Inr _) \<Rightarrow>
           (case apply_branch ne fuel skip (rev second) nd3 of None \<Rightarrow> None
            | Some (nd4, Some (e', _)) \<Rightarrow> Some (nd4, Inl e')
            | Some (nd4, None) \<Rightarrow> Some (nd4, Inl e)))"

definition switch_forks :: "node_env \<Rightarrow> nat \<Rightarrow> validation_step set \<Rightarrow> fork_item \<Rightarrow> node \<Rightarrow> (node \<times> bool result) option" where
  "switch_forks ne fuel skip new_head nd =
     (case fetch_branch_from (block_id (ne_block ne) (fi_data new_head)) (head_id_of nd) (lf_forks (nd_files nd)) of
        Inl e \<Rightarrow> Some (nd, Inl e)
      | Inr (first, second) \<Rightarrow>
        if second = [] then Some (nd, Inl Null_dereference)
        else (case pop_until (ne_block ne) fuel (bh_previous (fi_data (last second))) nd of None \<Rightarrow> None
              | Some (nd1, Inl e) \<Rightarrow> Some (nd1, Inl e)
              | Some (nd1, Inr _) \<Rightarrow>
                (case apply_branch ne fuel skip (rev first) nd1 of None \<Rightarrow> None
                 | Some (nd2, None) \<Rightarrow> Some (nd2, Inr True)
                 | Some (nd2, Some (e, rest)) \<Rightarrow>
                     if catchable e then restore_branch ne fuel skip e rest second nd2 else Some (nd2, Inl e))))"

definition apply_new_block :: "node_env \<Rightarrow> nat \<Rightarrow> validation_step set \<Rightarrow> signed_block \<Rightarrow> node \<Rightarrow> (node \<times> bool result) option" where
  "apply_new_block ne fuel skip b nd =
     (case apply_in_session ne fuel skip b nd of None \<Rightarrow> None
      | Some (nd', Inr _) \<Rightarrow> Some (nd', Inr False)
      | Some (nd', Inl e) \<Rightarrow>
          Some (if catchable e then nd'\<lparr>nd_files := (nd_files nd')\<lparr>lf_forks := remove_fork_block (block_id (ne_block ne) b) (lf_forks (nd_files nd'))\<rparr>\<rparr>
                else nd', Inl e))"

definition push_block_now :: "node_env \<Rightarrow> nat \<Rightarrow> validation_step set \<Rightarrow> signed_block \<Rightarrow> node \<Rightarrow> (node \<times> bool result) option" where
  "push_block_now ne fuel skip b nd =
     (if skip_fork_db \<in> skip then apply_new_block ne fuel skip b nd
      else (case push_fork_block (ne_block ne) b (lf_forks (nd_files nd)) of Inl e \<Rightarrow> Some (nd, Inl e)
            | Inr (None, fd) \<Rightarrow> Some (nd, Inl Null_dereference)
            | Inr (Some new_head, fd) \<Rightarrow>
              (let nd1 = nd\<lparr>nd_files := (nd_files nd)\<lparr>lf_forks := fd\<rparr>\<rparr>
               in if bh_previous (fi_data new_head) = head_id_of nd then apply_new_block ne fuel skip b nd1
                  else if uint (block_num (ne_block ne) (fi_data new_head)) > head_block_num (ch_db (nd_chain nd))
                  then switch_forks ne fuel skip new_head nd1
                  else Some (nd1, Inr False))))"

definition push_block :: "node_env \<Rightarrow> nat \<Rightarrow> (nat \<Rightarrow> bool) \<Rightarrow> validation_step set \<Rightarrow> signed_block \<Rightarrow> node \<Rightarrow> (node \<times> bool result) option" where
  "push_block ne fuel late skip b nd =
     (case push_block_now ne fuel skip b (clear_pending nd) of None \<Rightarrow> None
      | Some (nd', r) \<Rightarrow>
        (case restore_pending (ne_chain ne) fuel skip late (nd_pending_tx nd) nd' of None \<Rightarrow> None
         | Some (nd'', Inl e) \<Rightarrow> Some (nd'', Inl e)
         | Some (nd'', Inr _) \<Rightarrow> Some (nd'', r)))"

section \<open>Producing a block\<close>

definition CHAIN_VERSION :: version where
  "CHAIN_VERSION = make_version 3 0 0"

definition CHAIN_BLOCK_GENERATION_POSTPONED_TX_LIMIT :: nat where
  [simp]: "CHAIN_BLOCK_GENERATION_POSTPONED_TX_LIMIT = 5"

definition hardfork_times :: "database \<Rightarrow> int list" where
  "hardfork_times db = [genesis_time (db_dgp db), 1538647200, 1538906400, 1540497600, 1547460000, 1550656800, 1555236000, 1556359200,
     1556600400, 1589173200, 1638162000, 1691643600]"

text \<open>The pending transactions that fit into the block and still apply, in their order.\<close>

fun fill_block :: "chain_env \<Rightarrow> nat \<Rightarrow> validation_step set \<Rightarrow> int \<Rightarrow> int \<Rightarrow> nat \<Rightarrow> int \<Rightarrow> signed_transaction list \<Rightarrow> chain \<Rightarrow>
    signed_transaction list result option" where
  "fill_block env fuel skip when limit postponed filled [] ch = Some (Inr [])"
| "fill_block env fuel skip when limit postponed filled (t # ts) ch =
     (let bytes = transaction_pack_size (ce_block env) t
      in if tx_expiration t < when then fill_block env fuel skip when limit postponed filled ts ch
         else if filled + bytes \<ge> limit then
           (if postponed > CHAIN_BLOCK_GENERATION_POSTPONED_TX_LIMIT then Some (Inr [])
            else fill_block env fuel skip when limit (postponed + 1) filled ts ch)
         else (case apply_transaction env (apply_operation env fuel 0 0) skip t ch of None \<Rightarrow> None
               | Some (Inl e) \<Rightarrow> if catchable e then fill_block env fuel skip when limit postponed filled ts ch else Some (Inl e)
               | Some (Inr ch') \<Rightarrow>
                 (case fill_block env fuel skip when limit postponed (filled + bytes) ts ch' of
                    Some (Inr txs) \<Rightarrow> Some (Inr (t # txs)) | r \<Rightarrow> r)))"

definition version_extensions :: "witness_object \<Rightarrow> chain \<Rightarrow> block_header_extension list" where
  "version_extensions w ch =
     (let h = ch_hpo ch; i = nat (hpo_last_hardfork h); times = hardfork_times (ch_db ch);
          current = hpo_current_hardfork_version h; newest = make_hardfork_version CHAIN_VERSION;
          vote = (\<lambda>k. Hardfork_version_vote (hardfork_versions ! k) (times ! k))
      in (if v_num (w_running_version w) \<noteq> v_num CHAIN_VERSION then [Version_extension CHAIN_VERSION] else []) @
         (if version_lt current newest \<and>
             (v_num (w_hardfork_version_vote w) \<noteq> v_num (hardfork_versions ! (i + 1)) \<or> w_hardfork_time_vote w \<noteq> times ! (i + 1))
          then [vote (i + 1)]
          else if v_num current = v_num newest \<and> version_lt newest (w_hardfork_version_vote w) then [vote i] else []))"

definition unsigned_block :: "block_env \<Rightarrow> int \<Rightarrow> account_name_type \<Rightarrow> signed_transaction list \<Rightarrow> witness_object \<Rightarrow> chain \<Rightarrow> signed_block" where
  "unsigned_block benv when witness_owner txs w ch =
     (let b = \<lparr>bh_previous = head_block_id (db_dgp (ch_db ch)), bh_timestamp = when, bh_witness = witness_owner, bh_transaction_merkle_root = zero_id,
            bh_extensions = version_extensions w ch, bh_witness_signature = [], bh_transactions = txs\<rparr>
      in b\<lparr>bh_transaction_merkle_root := calculate_merkle_root benv b\<rparr>)"

definition may_produce :: "validation_step set \<Rightarrow> int \<Rightarrow> account_name_type \<Rightarrow> signing_key \<Rightarrow> database \<Rightarrow> witness_object result" where
  "may_produce skip when witness_owner key db =
     (let slot_num = get_slot_at_time when db
      in if \<not> slot_num > 0 then Inl (FC_Assert ''slot_num > 0'')
         else if get_scheduled_witness slot_num db \<noteq> witness_owner then Inl (FC_Assert ''scheduled_witness == witness_owner'')
         else (case get_witness witness_owner db of Inl e \<Rightarrow> Inl e
               | Inr w \<Rightarrow>
                 if skip_witness_signature \<notin> skip \<and> w_signing_key w \<noteq> sk_public key then Inl (FC_Assert ''witness_obj.signing_key'')
                 else Inr w))"

text \<open>
  The block that is produced: its transactions are applied to the state of the head block, while the right
  to produce it was checked in the state with the pending transactions.
\<close>

definition pending_block :: "node_env \<Rightarrow> nat \<Rightarrow> validation_step set \<Rightarrow> int \<Rightarrow> account_name_type \<Rightarrow> signing_key \<Rightarrow> node \<Rightarrow> signed_block result option" where
  "pending_block ne fuel skip when witness_owner key nd =
     (let ch = nd_chain nd; limit = dgp_maximum_block_size (db_dgp (ch_db (current_state nd)))
      in case fill_block (ne_chain ne) fuel skip when limit 0 (ne_header_size ne + 4) (nd_pending_tx nd) ch of None \<Rightarrow> None
         | Some (Inl e) \<Rightarrow> Some (Inl e)
         | Some (Inr txs) \<Rightarrow>
           (case get_witness witness_owner (ch_db ch) of Inl e \<Rightarrow> Some (Inl e)
            | Inr w \<Rightarrow>
              (let u = unsigned_block (ne_block ne) when witness_owner txs w ch;
                   b = (if skip_witness_signature \<in> skip then u else u\<lparr>bh_witness_signature := sk_sign key u\<rparr>)
               in Some (if skip_block_size_check \<notin> skip \<and> \<not> block_pack_size (ne_block ne) b \<le> CHAIN_BLOCK_SIZE
                        then Inl (FC_Assert ''fc::raw::pack_size(pending_block) <= CHAIN_BLOCK_SIZE'') else Inr b))))"

definition generate_block :: "node_env \<Rightarrow> nat \<Rightarrow> (nat \<Rightarrow> bool) \<Rightarrow> validation_step set \<Rightarrow> int \<Rightarrow> account_name_type \<Rightarrow> signing_key \<Rightarrow> node \<Rightarrow>
    (node \<times> signed_block result) option" where
  "generate_block ne fuel late skip when witness_owner key nd =
     (case may_produce skip when witness_owner key (ch_db (current_state nd)) of Inl e \<Rightarrow> Some (nd, Inl e)
      | Inr _ \<Rightarrow>
      (case pending_block ne fuel skip when witness_owner key nd of None \<Rightarrow> None
       | Some (Inl e) \<Rightarrow> Some (nd\<lparr>nd_session := None\<rparr>, Inl e)
       | Some (Inr b) \<Rightarrow>
         (case push_block ne fuel late skip b (nd\<lparr>nd_session := None\<rparr>) of None \<Rightarrow> None
          | Some (nd', Inl e) \<Rightarrow> Some (nd', Inl e)
          | Some (nd', Inr _) \<Rightarrow> Some (nd', Inr b))))"

section \<open>Produced blocks\<close>

lemma fill_block_applies:
  "fill_block env fuel skip when limit postponed filled ts ch = Some (Inr txs) \<Longrightarrow>
     (\<exists>ch'. apply_transactions env (apply_operation env fuel 0 0) skip txs ch = Some (Inr ch')) \<and> (\<forall>t \<in> set txs. when \<le> tx_expiration t) \<and> set txs \<subseteq> set ts"
proof (induction ts arbitrary: postponed filled ch txs)
  case (Cons t ts)
  then show ?case
    by (force simp: Let_def split: if_splits option.splits sum.splits)
qed simp

lemma slot_after_head:
  assumes "get_slot_at_time when db > 0" and "head_block_num db \<noteq> 0"
  shows "head_block_time db < when"
proof -
  have "head_block_time db < get_slot_time 1 db" using assms(2) by (simp add: get_slot_time_def)
  then show ?thesis using assms(1) by (simp add: get_slot_at_time_def Let_def split: if_splits)
qed

definition signs :: "block_env \<Rightarrow> signing_key \<Rightarrow> bool" where
  "signs benv key = (\<forall>u. signee benv (u\<lparr>bh_witness_signature := sk_sign key u\<rparr>) = sk_public key)"


section \<open>The history of the node\<close>

text \<open>One state extends another by a block that was applied to it.\<close>

definition extends :: "node_env \<Rightarrow> chain \<Rightarrow> chain \<Rightarrow> bool" where
  "extends ne new old = (\<exists>b fuel skip f f'. apply_block (ne_chain ne) (ne_checkpoints ne) fuel skip b old f = Some (f', Inr new) \<and>
     bh_previous b = head_block_id (db_dgp (ch_db old)) \<and> head_block_id (db_dgp (ch_db new)) = block_id (ne_block ne) b \<and>
     head_block_time (ch_db old) < head_block_time (ch_db new))"

definition history_ok :: "node_env \<Rightarrow> node \<Rightarrow> bool" where
  "history_ok ne nd = successively (extends ne) (nd_chain nd # nd_undo nd)"

lemma apply_block_extends:
  assumes "apply_block (ne_chain ne) (ne_checkpoints ne) fuel skip b ch f = Some (f', Inr ch')" and "steady_interpreters (ce_eval (ne_chain ne))"
  shows "extends ne ch' ch"
proof -
  from assms(1) obtain skip' where now: "apply_block_now (ne_chain ne) fuel skip' b ch f = Some (f', Inr ch')"
    by (auto simp: apply_block_def Let_def split: if_splits)
  then obtain w ch1 ch2 ch3 f1 where 1: "prepare_block (ne_chain ne) skip' b ch = Inr (w, ch1)"
    and "apply_transactions (ne_chain ne) (apply_operation (ne_chain ne) fuel 0 0) skip' (bh_transactions b) ch1 = Some (Inr ch2)"
    and "advance_head (ne_chain ne) skip' b (w_owner w) ch2 f = (f1, Inr ch3)"
    and "close_block (ne_chain ne) (apply_operation (ne_chain ne) fuel 0 0) fuel b ch3 f1 = Some (f', Inr ch')" by (rule apply_block_now_Inr)
  from prepare_block_Inr [OF 1] have "validate_block_header (ne_block ne) skip' b (ch_db ch) = Inr w" by simp
  from validate_block_header_Inr [OF this] apply_block_now_clock [OF now assms(2)] assms(1)
  show ?thesis unfolding extends_def by (intro exI [of _ b] exI [of _ fuel] exI [of _ skip] exI [of _ f] exI [of _ f']) (simp add: clock_def)
qed

lemma history_same: "nd_chain nd' = nd_chain nd \<Longrightarrow> nd_undo nd' = nd_undo nd \<Longrightarrow> history_ok ne nd' = history_ok ne nd"
  by (simp add: history_ok_def)

lemma commit_sessions_prefix: "\<exists>zs. chs = commit_sessions n chs @ zs"
proof
  let ?P = "\<lambda>c. head_block_num (ch_db c) < n"
  show "chs = commit_sessions n chs @ rev (takeWhile ?P (rev chs))"
    unfolding commit_sessions_def rev_append [symmetric] takeWhile_dropWhile_id by simp
qed

lemma history_commit:
  assumes "successively R (x # xs)"
  shows "successively R (x # commit_sessions n xs)"
proof -
  obtain zs where "xs = commit_sessions n xs @ zs" using commit_sessions_prefix by blast
  then have "x # xs = (x # commit_sessions n xs) @ zs" by simp
  with assms show ?thesis by (metis successively_append_iff)
qed

lemma queue_transaction_same: "queue_transaction env fuel skip t nd = Some (nd', r) \<Longrightarrow> nd_chain nd' = nd_chain nd \<and> nd_undo nd' = nd_undo nd"
  by (auto simp: queue_transaction_def split: option.splits sum.splits)

lemma restore_transactions_same:
  "restore_transactions env fuel skip late i go ts nd = Some (nd', r) \<Longrightarrow> nd_chain nd' = nd_chain nd \<and> nd_undo nd' = nd_undo nd"
proof (induction ts arbitrary: i go nd)
  case (Cons t ts)
  show ?case using Cons.prems
    by (auto simp: Let_def split: if_splits option.splits sum.splits dest!: Cons.IH queue_transaction_same)
qed simp

lemma pop_block_history: "pop_block benv nd = (nd', r) \<Longrightarrow> history_ok ne nd \<Longrightarrow> history_ok ne nd'"
  by (cases "nd_undo nd") (auto simp: pop_block_def undo_block_def history_ok_def Let_def split: option.splits sum.splits)

lemma pop_until_history: "pop_until benv n i nd = Some (nd', r) \<Longrightarrow> history_ok ne nd \<Longrightarrow> history_ok ne nd'"
proof (induction n arbitrary: nd)
  case (Suc n)
  show ?case using Suc.prems pop_block_history [of benv nd _ _ ne] by (auto split: if_splits prod.splits sum.splits intro: Suc.IH)
qed simp

lemma apply_in_session_history:
  assumes "apply_in_session ne fuel skip b nd = Some (nd', r)" and "history_ok ne nd" and "steady_interpreters (ce_eval (ne_chain ne))"
  shows "history_ok ne nd'"
proof -
  have "history_ok ne nd'" if "apply_block (ne_chain ne) (ne_checkpoints ne) fuel skip b (nd_chain nd) (nd_files nd) = Some (f, Inr ch)"
    and "nd' = nd\<lparr>nd_files := f, nd_chain := ch, nd_undo := commit_sessions (irreversible_of ch) (nd_chain nd # nd_undo nd)\<rparr>" for f ch
    using history_commit [of "extends ne" ch "nd_chain nd # nd_undo nd" "irreversible_of ch"] apply_block_extends [OF that(1) assms(3)] assms(2) that(2)
    by (simp add: history_ok_def)
  with assms(1,2) show ?thesis by (auto simp: apply_in_session_def history_ok_def split: option.splits sum.splits)
qed

lemma apply_branch_history:
  assumes "steady_interpreters (ce_eval (ne_chain ne))"
  shows "apply_branch ne fuel skip xs nd = Some (nd', r) \<Longrightarrow> history_ok ne nd \<Longrightarrow> history_ok ne nd'"
proof (induction xs arbitrary: nd)
  case (Cons x xs)
  show ?case using Cons.prems apply_in_session_history [OF _ Cons.prems(2) assms]
    by (auto split: option.splits sum.splits prod.splits intro: Cons.IH)
qed simp

lemma files_history [simp]: "history_ok ne (nd\<lparr>nd_files := f\<rparr>) = history_ok ne nd" "history_ok ne (nd\<lparr>nd_session := s\<rparr>) = history_ok ne nd"
  "history_ok ne (nd\<lparr>nd_popped_tx := ts\<rparr>) = history_ok ne nd" "history_ok ne (nd\<lparr>nd_pending_tx := ts\<rparr>) = history_ok ne nd"
  by (simp_all add: history_ok_def)

lemma restore_branch_history:
  assumes "restore_branch ne fuel skip e rest second nd = Some (nd', r)" and "history_ok ne nd" and "steady_interpreters (ce_eval (ne_chain ne))"
  shows "history_ok ne nd'"
proof -
  let ?nd1 = "remove_branch (ne_block ne) rest nd"
  let ?nd2 = "?nd1\<lparr>nd_files := (nd_files ?nd1)\<lparr>lf_forks := set_fork_head (hd second) (lf_forks (nd_files ?nd1))\<rparr>\<rparr>"
  have 2: "history_ok ne ?nd2" using assms(2) by (simp add: remove_branch_def)
  from assms(1) obtain nd3 r3 where 3: "pop_until (ne_block ne) fuel (bh_previous (fi_data (last second))) ?nd2 = Some (nd3, r3)"
    and rest: "nd' = nd3 \<or> (\<exists>r4. apply_branch ne fuel skip (rev second) nd3 = Some (nd', r4))"
    by (auto simp: restore_branch_def Let_def split: option.splits sum.splits prod.splits)
  from pop_until_history [OF 3 2] rest apply_branch_history [OF assms(3)] show ?thesis by blast
qed

lemma switch_forks_history:
  assumes "switch_forks ne fuel skip h nd = Some (nd', r)" and "history_ok ne nd" and "steady_interpreters (ce_eval (ne_chain ne))"
  shows "history_ok ne nd'"
proof -
  from assms(1) consider "nd' = nd" | i nd1 r1 where "pop_until (ne_block ne) fuel i nd = Some (nd1, r1)"
      "nd' = nd1 \<or> (\<exists>xs nd2 r2. apply_branch ne fuel skip xs nd1 = Some (nd2, r2) \<and>
         (nd' = nd2 \<or> (\<exists>e rest second. restore_branch ne fuel skip e rest second nd2 = Some (nd', r))))"
    by (auto simp: switch_forks_def split: sum.splits option.splits prod.splits if_splits) blast+
  then show ?thesis
  proof cases
    case 2
    from pop_until_history [OF 2(1) assms(2)] 2(2) apply_branch_history [OF assms(3)] restore_branch_history [OF _ _ assms(3)] show ?thesis by blast
  qed (use assms(2) in simp)
qed

lemma apply_new_block_history:
  "apply_new_block ne fuel skip b nd = Some (nd', r) \<Longrightarrow> history_ok ne nd \<Longrightarrow> steady_interpreters (ce_eval (ne_chain ne)) \<Longrightarrow> history_ok ne nd'"
  by (auto simp: apply_new_block_def split: option.splits sum.splits if_splits dest!: apply_in_session_history)

lemma push_block_now_history:
  "push_block_now ne fuel skip b nd = Some (nd', r) \<Longrightarrow> history_ok ne nd \<Longrightarrow> steady_interpreters (ce_eval (ne_chain ne)) \<Longrightarrow> history_ok ne nd'"
  by (auto simp: push_block_now_def Let_def split: sum.splits option.splits if_splits dest!: apply_new_block_history switch_forks_history)

lemma push_block_history:
  assumes "push_block ne fuel late skip b nd = Some (nd', r)" and "history_ok ne nd" and "steady_interpreters (ce_eval (ne_chain ne))"
  shows "history_ok ne nd'"
proof -
  from assms(1) obtain nd1 r1 r2 where 1: "push_block_now ne fuel skip b (clear_pending nd) = Some (nd1, r1)"
    and 2: "restore_transactions (ne_chain ne) fuel skip late 0 True (nd_popped_tx nd1 @ nd_pending_tx nd) (nd1\<lparr>nd_popped_tx := []\<rparr>) = Some (nd', r2)"
    by (auto simp: push_block_def restore_pending_def split: option.splits sum.splits prod.splits)
  have "history_ok ne (clear_pending nd)" using assms(2) by (simp add: clear_pending_def history_ok_def)
  from push_block_now_history [OF 1 this assms(3)] restore_transactions_same [OF 2] show ?thesis by (simp add: history_ok_def)
qed

lemma generate_block_history:
  "generate_block ne fuel late skip when w key nd = Some (nd', r) \<Longrightarrow> history_ok ne nd \<Longrightarrow> steady_interpreters (ce_eval (ne_chain ne)) \<Longrightarrow> history_ok ne nd'"
  by (auto simp: generate_block_def split: sum.splits option.splits prod.splits dest!: push_block_history)

text \<open>What may happen to a node, in any order.\<close>

inductive node_step :: "node_env \<Rightarrow> node \<Rightarrow> node \<Rightarrow> bool" for ne where
  transaction: "push_transaction ne fuel skip t nd = Some (nd', r) \<Longrightarrow> node_step ne nd nd'"
| block: "push_block ne fuel late skip b nd = Some (nd', r) \<Longrightarrow> node_step ne nd nd'"
| produce: "generate_block ne fuel late skip when w key nd = Some (nd', r) \<Longrightarrow> node_step ne nd nd'"
| pop: "pop_block (ne_block ne) nd = (nd', r) \<Longrightarrow> node_step ne nd nd'"
| clear: "node_step ne nd (clear_pending nd)"

lemma node_step_history:
  assumes "node_step ne nd nd'" and "history_ok ne nd" and "steady_interpreters (ce_eval (ne_chain ne))"
  shows "history_ok ne nd'"
  using assms
proof (induction rule: node_step.induct)
  case (transaction fuel skip t nd nd' r)
  then show ?case by (auto simp: push_transaction_def history_ok_def split: if_splits dest!: queue_transaction_same)
next
  case (block fuel late skip b nd nd' r)
  then show ?case using push_block_history by blast
next
  case (produce fuel late skip time w key nd nd' r)
  then show ?case using generate_block_history by blast
next
  case (pop nd nd' r)
  then show ?case using pop_block_history by blast
qed (simp add: clear_pending_def history_ok_def)


section \<open>A node of the small chain\<close>

definition quiet_node_env :: node_env where
  "quiet_node_env = \<lparr>ne_chain = quiet_env, ne_checkpoints = [], ne_header_size = 100\<rparr>"

definition quiet_node :: node where
  "quiet_node = \<lparr>nd_chain = quiet_start, nd_undo = [], nd_session = None, nd_files = empty_files, nd_pending_tx = [idle_transaction], nd_popped_tx = []\<rparr>"

definition quiet_key :: signing_key where
  "quiet_key = \<lparr>sk_public = ''K1'', sk_sign = (\<lambda>_. ''K1'')\<rparr>"

lemma quiet_node_fields [simp]: "ne_chain quiet_node_env = quiet_env" "ne_checkpoints quiet_node_env = []" "ne_header_size quiet_node_env = 100"
  "nd_chain quiet_node = quiet_start" "nd_undo quiet_node = []" "nd_session quiet_node = None" "nd_pending_tx quiet_node = [idle_transaction]"
  "nd_files quiet_node = empty_files" "sk_public quiet_key = ''K1''" "nd_popped_tx quiet_node = []"
  by (simp_all add: quiet_node_env_def quiet_node_def quiet_key_def)

lemma quiet_node_runs: "\<exists>nd'. push_block_now quiet_node_env 1 {} idle_block (clear_pending quiet_node) = Some (nd', Inr False)"
proof -
  obtain h fd where "push_fork_block sample_block_env idle_block empty_fork_database = Inr (Some h, fd)" and "fi_data h = idle_block"
    by (simp add: push_fork_block_def push_fork_item_def link_item_def empty_fork_database_def make_item_def Let_def)
  then show ?thesis
    using quiet_block_applies [of "empty_files\<lparr>lf_forks := fd\<rparr>"]
    by (auto simp: push_block_now_def clear_pending_def empty_files_def quiet_start_def apply_new_block_def apply_in_session_def Let_def)
qed


lemma quiet_pending:
  "\<exists>b. pending_block quiet_node_env 1 {} 1000002 ''viz'' quiet_key quiet_node = Some (Inr b) \<and> bh_transactions b = [idle_transaction]"
proof -
  obtain ch where "apply_transaction quiet_env (apply_operation quiet_env 1 0 0) {} idle_transaction quiet_start = Some (Inr ch)"
    using quiet_transaction [of 0] by (auto simp: quiet_start_def split: option.splits sum.splits)
  then have "fill_block quiet_env 1 {} 1000002 131072 0 104 [idle_transaction] quiet_start = Some (Inr [idle_transaction])" by simp
  then show ?thesis
    by (simp add: pending_block_def current_state_def unsigned_block_def quiet_start_def get_witness_def sample_block_env_def Let_def)
qed


end
