(* ===== verification/Block_Log.thy ===== *)
theory Block_Log
  imports Block_Updates
begin

text \<open>
  The block log (\<open>chain/block_log.cpp\<close>): an append-only file of packed blocks, each followed by its own
  position, and an index file of positions, both mapped into memory.  The files are lists of bytes; packing
  and unpacking of a block are functions of fc.  Block processing sees the log as the list of its blocks
  (\<open>read_log\<close>); here the files are shown to implement that list.
\<close>

section \<open>Bytes\<close>

type_synonym bytes = "8 word list"

text \<open>Integers as they lie in memory, the lowest byte first.\<close>

fun le_bytes :: "nat \<Rightarrow> nat \<Rightarrow> bytes" where
  "le_bytes 0 n = []"
| "le_bytes (Suc k) n = of_nat (n mod 256) # le_bytes k (n div 256)"

fun of_le :: "bytes \<Rightarrow> nat" where
  "of_le [] = 0"
| "of_le (b # bs) = unat b + 256 * of_le bs"

lemma length_le_bytes [simp]: "length (le_bytes k n) = k"
  by (induction k arbitrary: n) simp_all

lemma of_le_bytes: "n < 256 ^ k \<Longrightarrow> of_le (le_bytes k n) = n"
proof (induction k arbitrary: n)
  case (Suc k)
  then have "n div 256 < 256 ^ k" by (simp add: less_mult_imp_div_less mult.commute)
  then show ?case by (simp add: Suc.IH unat_of_nat)
qed simp

section \<open>The log\<close>

record log_env =
  le_block :: block_env
  le_pack :: "signed_block \<Rightarrow> bytes"
  le_unpack :: "bytes \<Rightarrow> (signed_block \<times> nat) result"

record block_log =
  lg_blocks :: bytes
  lg_index :: bytes
  lg_head :: "signed_block option"
  lg_head_id :: block_id_type

definition min_valid_file_size :: nat where
  [simp]: "min_valid_file_size = 8"

definition has_block_records :: "bytes \<Rightarrow> bool" where
  "has_block_records file = (length file > min_valid_file_size)"

definition has_index_records :: "bytes \<Rightarrow> bool" where
  "has_index_records file = (length file \<ge> min_valid_file_size)"

definition get_mapped_size :: "bytes \<Rightarrow> nat" where
  "get_mapped_size file = (if length file < min_valid_file_size then 0 else length file)"

definition get_uint64 :: "bytes \<Rightarrow> nat \<Rightarrow> nat result" where
  "get_uint64 file pos =
     (if \<not> get_mapped_size file \<ge> pos + 8 then Inl (FC_Assert ''get_mapped_size(mapped_file) >= pos + sizeof(value)'')
      else Inr (of_le (take 8 (drop pos file))))"

definition get_last_uint64 :: "bytes \<Rightarrow> nat result" where
  "get_last_uint64 file =
     (if \<not> get_mapped_size file \<ge> 8 then Inl (FC_Assert ''size >= sizeof(value)'')
      else Inr (of_le (take 8 (drop (get_mapped_size file - 8) file))))"

definition npos :: nat where
  "npos = 2 ^ 64 - 1"

definition get_block_pos :: "log_env \<Rightarrow> 32 word \<Rightarrow> block_log \<Rightarrow> nat result" where
  "get_block_pos env n lg =
     (if lg_head lg \<noteq> None \<and> n \<le> num_from_id (le_block env) (lg_head_id lg) \<and> n > 0
      then get_uint64 (lg_index lg) (8 * unat (n - 1))
      else Inr npos)"

definition read_block :: "log_env \<Rightarrow> bytes \<Rightarrow> nat \<Rightarrow> (signed_block \<times> nat) result" where
  "read_block env file pos =
     (let file_size = get_mapped_size file
      in if \<not> file_size > pos then Inl (FC_Assert ''file_size > pos'')
         else (case le_unpack env (take (min (file_size - pos) (nat CHAIN_BLOCK_SIZE)) (drop pos file)) of Inl e \<Rightarrow> Inl e
               | Inr (b, used) \<Rightarrow>
                 (case get_uint64 file (pos + used) of Inl e \<Rightarrow> Inl e
                  | Inr p \<Rightarrow> if p \<noteq> pos then Inl (FC_Assert ''get_uint64(block_mapped_file, end_pos) == pos'')
                            else Inr (b, pos + used + 8))))"

definition read_head :: "log_env \<Rightarrow> bytes \<Rightarrow> signed_block result" where
  "read_head env file =
     (case get_last_uint64 file of Inl e \<Rightarrow> Inl e
      | Inr pos \<Rightarrow> (case read_block env file pos of Inl e \<Rightarrow> Inl e | Inr (b, _) \<Rightarrow> Inr b))"

definition create_nonexist_file :: "bytes \<Rightarrow> bytes" where
  "create_nonexist_file file = (if file = [] then [0] else file)"

definition resize :: "nat \<Rightarrow> bytes \<Rightarrow> bytes" where
  "resize n file = take n file @ replicate (n - length file) 0"

definition overwrite :: "nat \<Rightarrow> bytes \<Rightarrow> bytes \<Rightarrow> bytes" where
  "overwrite at data file = take at file @ data @ drop (at + length data) file"

text \<open>The loop over the blocks; writing past the end of the mapped index is no step of the program.\<close>

lemma read_block_later: "read_block env file pos = Inr (b, next) \<Longrightarrow> pos < next"
  by (auto simp: read_block_def Let_def split: if_splits sum.splits)

function index_loop :: "log_env \<Rightarrow> bytes \<Rightarrow> nat \<Rightarrow> nat \<Rightarrow> nat \<Rightarrow> bytes \<Rightarrow> bytes result" where
  "index_loop env file end_pos pos at index =
     (if pos \<le> end_pos then
        if at + 8 > length index then Inl Null_dereference
        else (case read_block env file pos of Inl e \<Rightarrow> Inl e
              | Inr (_, pos') \<Rightarrow> index_loop env file end_pos pos' (at + 8) (overwrite at (le_bytes 8 pos) index))
      else Inr index)"
  by pat_completeness auto
termination by (relation "measure (\<lambda>(env, file, end_pos, pos, at, index). Suc end_pos - pos)") (auto dest: read_block_later)

declare index_loop.simps [simp del]

definition construct_index :: "log_env \<Rightarrow> block_log \<Rightarrow> block_log result" where
  "construct_index env lg =
     (case lg_head lg of None \<Rightarrow> Inl Null_dereference
      | Some h \<Rightarrow>
        (case get_last_uint64 (lg_blocks lg) of Inl e \<Rightarrow> Inl e
         | Inr end_pos \<Rightarrow>
           (case index_loop env (lg_blocks lg) end_pos 0 0 (resize (unat (block_num (le_block env) h) * 8) [0]) of Inl e \<Rightarrow> Inl e
            | Inr index \<Rightarrow> Inr (lg\<lparr>lg_index := index\<rparr>))))"

text \<open>Opening the two files, empty where they do not exist.\<close>

definition open_log :: "log_env \<Rightarrow> bytes \<Rightarrow> bytes \<Rightarrow> block_log \<Rightarrow> block_log result" where
  "open_log env blocks index lg0 =
     (let lg = lg0\<lparr>lg_blocks := create_nonexist_file blocks, lg_index := create_nonexist_file index\<rparr>
      in if has_block_records (lg_blocks lg) then
           (case read_head env (lg_blocks lg) of Inl e \<Rightarrow> Inl e
            | Inr h \<Rightarrow>
              (let lg1 = lg\<lparr>lg_head := Some h, lg_head_id := block_id (le_block env) h\<rparr>
               in if has_index_records (lg_index lg) then
                    (case get_last_uint64 (lg_blocks lg) of Inl e \<Rightarrow> Inl e
                     | Inr block_pos \<Rightarrow>
                       (case get_last_uint64 (lg_index lg) of Inl e \<Rightarrow> Inl e
                        | Inr index_pos \<Rightarrow> if block_pos \<noteq> index_pos then construct_index env lg1 else Inr lg1))
                  else construct_index env lg1))
         else if has_index_records (lg_index lg) then Inr (lg\<lparr>lg_blocks := [0], lg_index := [0]\<rparr>)
         else Inr lg)"

definition append :: "log_env \<Rightarrow> signed_block \<Rightarrow> block_log \<Rightarrow> (nat \<times> block_log) result" where
  "append env b lg =
     (let data = le_pack env b; index_pos = get_mapped_size (lg_index lg); block_pos = get_mapped_size (lg_blocks lg)
      in if index_pos \<noteq> 8 * unat (block_num (le_block env) b - 1) then Inl (FC_Assert ''Append to index file occuring at wrong position.'')
         else Inr (block_pos, lg\<lparr>lg_blocks := overwrite block_pos (data @ le_bytes 8 block_pos) (resize (block_pos + length data + 8) (lg_blocks lg)),
                lg_index := overwrite index_pos (le_bytes 8 block_pos) (resize (index_pos + 8) (lg_index lg)),
                lg_head := Some b, lg_head_id := block_id (le_block env) b\<rparr>))"

definition close_log :: "block_log \<Rightarrow> block_log" where
  "close_log lg = lg\<lparr>lg_head := None, lg_head_id := zero_id\<rparr>"

definition read_block_by_num :: "log_env \<Rightarrow> 32 word \<Rightarrow> block_log \<Rightarrow> signed_block option result" where
  "read_block_by_num env n lg =
     (case get_block_pos env n lg of Inl e \<Rightarrow> Inl e
      | Inr pos \<Rightarrow>
        if pos \<noteq> npos then
          (case read_block env (lg_blocks lg) pos of Inl e \<Rightarrow> Inl e
           | Inr (b, _) \<Rightarrow> if block_num (le_block env) b \<noteq> n then Inl (FC_Assert ''Wrong block was read from block log'') else Inr (Some b))
        else Inr None)"

section \<open>The layout of the files\<close>

fun layout :: "log_env \<Rightarrow> nat \<Rightarrow> signed_block list \<Rightarrow> bytes" where
  "layout env pos [] = []"
| "layout env pos (b # bs) = le_pack env b @ le_bytes 8 pos @ layout env (pos + length (le_pack env b) + 8) bs"

fun starts :: "log_env \<Rightarrow> nat \<Rightarrow> signed_block list \<Rightarrow> nat list" where
  "starts env pos [] = []"
| "starts env pos (b # bs) = pos # starts env (pos + length (le_pack env b) + 8) bs"

definition index_layout :: "log_env \<Rightarrow> signed_block list \<Rightarrow> bytes" where
  "index_layout env bs = concat (map (le_bytes 8) (starts env 0 bs))"

lemma layout_append: "layout env pos (xs @ ys) = layout env pos xs @ layout env (pos + length (layout env pos xs)) ys"
  by (induction xs arbitrary: pos) (simp_all add: add.assoc add.commute add.left_commute)

lemma starts_append: "starts env pos (xs @ ys) = starts env pos xs @ starts env (pos + length (layout env pos xs)) ys"
  by (induction xs arbitrary: pos) (simp_all add: add.assoc add.commute add.left_commute)

lemma length_starts [simp]: "length (starts env pos bs) = length bs"
  by (induction bs arbitrary: pos) simp_all

lemma index_layout_append: "index_layout env (xs @ [b]) = index_layout env xs @ le_bytes 8 (length (layout env 0 xs))"
  by (simp add: index_layout_def starts_append)

lemma length_index_layout [simp]: "length (index_layout env bs) = 8 * length bs"
proof -
  have "length (concat (map (le_bytes 8) ns)) = 8 * length ns" for ns by (induction ns) simp_all
  then show ?thesis by (simp add: index_layout_def)
qed

text \<open>What the log relies on of fc: a packed block is read back, whatever follows it.\<close>

definition packs :: "log_env \<Rightarrow> signed_block \<Rightarrow> bool" where
  "packs env b = (0 < length (le_pack env b) \<and> length (le_pack env b) \<le> nat CHAIN_BLOCK_SIZE \<and>
     (\<forall>rest. le_unpack env (le_pack env b @ rest) = Inr (b, length (le_pack env b))))"

lemma read_block_at:
  assumes "packs env b" and "length (layout env 0 (xs @ b # ys)) < 2 ^ 64"
  shows "read_block env (layout env 0 (xs @ b # ys)) (length (layout env 0 xs)) = Inr (b, length (layout env 0 (xs @ [b])))"
proof -
  let ?pos = "length (layout env 0 xs)" and ?d = "le_pack env b"
  let ?tail = "layout env (?pos + length ?d + 8) ys"
  have whole: "layout env 0 (xs @ b # ys) = layout env 0 xs @ ?d @ le_bytes 8 ?pos @ ?tail" by (simp add: layout_append)
  let ?file = "layout env 0 xs @ ?d @ le_bytes 8 ?pos @ ?tail"
  have m: "get_mapped_size ?file = length ?file" by (simp add: get_mapped_size_def)
  have "take (min (length ?file - ?pos) (nat CHAIN_BLOCK_SIZE)) (drop ?pos ?file) =
      ?d @ take (min (length ?file - ?pos) (nat CHAIN_BLOCK_SIZE) - length ?d) (le_bytes 8 ?pos @ ?tail)"
    using assms(1) by (simp add: packs_def)
  then have u: "le_unpack env (take (min (length ?file - ?pos) (nat CHAIN_BLOCK_SIZE)) (drop ?pos ?file)) = Inr (b, length ?d)"
    using assms(1) by (simp add: packs_def)
  have "?pos < 256 ^ 8" using assms(2) by (simp add: whole)
  then have "get_uint64 ?file (?pos + length ?d) = Inr ?pos"
    by (simp add: get_uint64_def m of_le_bytes)
  then show ?thesis unfolding whole using u assms(1) by (simp add: read_block_def m packs_def layout_append)
qed

lemma last_block_pos:
  assumes "length (layout env 0 (xs @ [b])) < 2 ^ 64"
  shows "get_last_uint64 (layout env 0 (xs @ [b])) = Inr (length (layout env 0 xs))"
  using assms by (simp add: get_last_uint64_def get_mapped_size_def layout_append of_le_bytes)

lemma get_index:
  assumes "n < length bs" and "length (layout env 0 bs) < 2 ^ 64"
  shows "get_uint64 (index_layout env bs) (8 * n) = Inr (length (layout env 0 (take n bs)))"
proof -
  have bs: "bs = take n bs @ bs ! n # drop (Suc n) bs" using assms(1) by (simp add: id_take_nth_drop)
  have "starts env 0 (take n bs @ bs ! n # drop (Suc n) bs) = starts env 0 (take n bs) @ length (layout env 0 (take n bs)) #
      starts env (length (layout env 0 (take n bs)) + length (le_pack env (bs ! n)) + 8) (drop (Suc n) bs)"
    by (simp add: starts_append)
  then obtain rest where i: "index_layout env bs = index_layout env (take n bs) @ le_bytes 8 (length (layout env 0 (take n bs))) @ rest"
    unfolding bs [symmetric] by (simp add: index_layout_def)
  have "length (layout env 0 (take n bs)) \<le> length (layout env 0 bs)"
    using layout_append [of env 0 "take n bs" "drop n bs"] by simp
  then have "length (layout env 0 (take n bs)) < 256 ^ 8" using assms(2) by simp
  moreover have "8 * n + 8 \<le> length (index_layout env bs)" using assms(1) by simp
  moreover have "take 8 (drop (8 * n) (index_layout env bs)) = le_bytes 8 (length (layout env 0 (take n bs)))"
    using assms(1) by (simp add: i min_def)
  ultimately show ?thesis using assms(1) by (auto simp: get_uint64_def get_mapped_size_def of_le_bytes)
qed

section \<open>The files implement the list of blocks\<close>

definition numbered_blocks :: "log_env \<Rightarrow> signed_block list \<Rightarrow> bool" where
  "numbered_blocks env bs = (length bs < 2 ^ 32 \<and> length (layout env 0 bs) < 2 ^ 64 \<and> (\<forall>b \<in> set bs. packs env b) \<and>
     (\<forall>i < length bs. block_num (le_block env) (bs ! i) = of_nat (Suc i)))"

definition stores :: "log_env \<Rightarrow> block_log \<Rightarrow> signed_block list \<Rightarrow> bool" where
  "stores env lg bs = (numbered_blocks env bs \<and>
     (if bs = [] then length (lg_blocks lg) < 8 \<and> length (lg_index lg) < 8 \<and> lg_head lg = None
      else lg_blocks lg = layout env 0 bs \<and> lg_index lg = index_layout env bs \<and> lg_head lg = Some (last bs) \<and>
           lg_head_id lg = block_id (le_block env) (last bs)))"

lemma numbered_last: "numbered_blocks env (xs @ [b]) \<Longrightarrow> block_num (le_block env) b = of_nat (Suc (length xs))"
  unfolding numbered_blocks_def by (metis length_append_singleton lessI nth_append_length)

lemma index_layout_Nil [simp]: "index_layout env [] = []"
  by (simp add: index_layout_def)

lemma layout_long: "bs \<noteq> [] \<Longrightarrow> \<forall>b \<in> set bs. packs env b \<Longrightarrow> 8 < length (layout env pos bs)"
  by (cases bs) (auto simp: packs_def)

lemma stores_sizes:
  assumes "stores env lg bs"
  shows "get_mapped_size (lg_blocks lg) = length (layout env 0 bs)" "get_mapped_size (lg_index lg) = 8 * length bs"
    "take (length (layout env 0 bs)) (lg_blocks lg) = layout env 0 bs" "take (8 * length bs) (lg_index lg) = index_layout env bs"
  using assms layout_long [of bs env 0]
  by (auto simp: stores_def numbered_blocks_def get_mapped_size_def neq_Nil_conv split: if_splits)

lemma overwrite_resized: "n \<le> length f \<Longrightarrow> overwrite n data (resize (n + length data) f) = take n f @ data"
  by (simp add: overwrite_def resize_def min_def)

lemma append_stores:
  assumes "stores env lg bs" and "numbered_blocks env (bs @ [b])"
  shows "\<exists>lg'. append env b lg = Inr (length (layout env 0 bs), lg') \<and> stores env lg' (bs @ [b])"
proof -
  let ?pos = "length (layout env 0 bs)" and ?d = "le_pack env b"
  note s = stores_sizes [OF assms(1)]
  have num: "block_num (le_block env) b = of_nat (Suc (length bs))"
    by (rule numbered_last [OF assms(2)])
  have small: "length bs < 2 ^ 32" using assms(2) by (simp add: numbered_blocks_def)
  have at: "unat (block_num (le_block env) b - 1) = length bs" using small by (simp add: num unat_of_nat take_bit_nat_eq_self)
  have le: "?pos \<le> length (lg_blocks lg)" "8 * length bs \<le> length (lg_index lg)"
    using s(1,2) by (auto simp: get_mapped_size_def split: if_splits)
  have "overwrite ?pos (?d @ le_bytes 8 ?pos) (resize (?pos + length ?d + 8) (lg_blocks lg)) = layout env 0 (bs @ [b])"
    using overwrite_resized [OF le(1), of "?d @ le_bytes 8 ?pos"] s(3) by (simp add: layout_append add.assoc)
  moreover have "overwrite (8 * length bs) (le_bytes 8 ?pos) (resize (8 * length bs + 8) (lg_index lg)) = index_layout env (bs @ [b])"
    using overwrite_resized [OF le(2), of "le_bytes 8 ?pos"] s(4) by (simp add: index_layout_append)
  ultimately show ?thesis using assms(2) at by (simp add: append_def s(1,2) stores_def Let_def)
qed

lemma append_refuses:
  assumes "stores env lg bs" and "block_num (le_block env) b \<noteq> of_nat (Suc (length bs))"
  shows "append env b lg = Inl (FC_Assert ''Append to index file occuring at wrong position.'')"
proof -
  have "unat (block_num (le_block env) b - 1) \<noteq> length bs"
  proof
    assume "unat (block_num (le_block env) b - 1) = length bs"
    then have "of_nat (unat (block_num (le_block env) b - 1)) = (of_nat (length bs) :: 32 word)" by (rule arg_cong)
    then have "block_num (le_block env) b - 1 = of_nat (length bs)" by simp
    then show False using assms(2) by (simp add: algebra_simps)
  qed
  then show ?thesis by (simp add: append_def stores_sizes [OF assms(1)] Let_def)
qed

lemma read_stored:
  assumes "stores env lg bs" and "block_env_ok (le_block env)"
  shows "read_block_by_num env n lg = Inr (read_log (uint n) bs)"
proof (cases "0 < n \<and> unat n \<le> length bs")
  case False
  have "\<not> (lg_head lg \<noteq> None \<and> n \<le> num_from_id (le_block env) (lg_head_id lg) \<and> n > 0)"
  proof (cases "bs = []")
    case False
    then have "num_from_id (le_block env) (lg_head_id lg) = of_nat (length bs)"
      using assms numbered_last [of env "butlast bs" "last bs"] by (simp add: stores_def block_id_num)
    moreover have "length bs < 2 ^ 32" using assms(1) by (simp add: stores_def numbered_blocks_def)
    ultimately show ?thesis using \<open>\<not> (0 < n \<and> _)\<close> by (auto simp: word_le_nat_alt unat_of_nat take_bit_nat_eq_self)
  qed (use assms(1) in \<open>simp add: stores_def\<close>)
  moreover have "read_log (uint n) bs = None"
  proof -
    have "\<not> (0 < uint n \<and> nat (uint n) \<le> length bs)" using False by (auto simp: word_less_def)
    then show ?thesis by (simp only: read_log_def if_False)
  qed
  moreover from calculation(1) have "get_block_pos env n lg = Inr npos" unfolding get_block_pos_def by (rule if_not_P)
  ultimately show ?thesis by (simp add: read_block_by_num_def)
next
  case True
  let ?k = "unat (n - 1)"
  have "n \<noteq> 0" using True by auto
  then have "unat n \<noteq> 0" "?k = unat n - 1" by (simp_all add: unat_eq_0 unat_minus_one)
  then have k: "?k < length bs" "unat n = Suc ?k" using True by auto
  have ok: "length bs < 2 ^ 32" "length (layout env 0 bs) < 2 ^ 64" "packs env (bs ! ?k)" "block_num (le_block env) (bs ! ?k) = of_nat (Suc ?k)"
    using assms(1) k(1) by (auto simp: stores_def numbered_blocks_def)
  have lg: "lg_blocks lg = layout env 0 bs" "lg_index lg = index_layout env bs" "lg_head lg = Some (last bs)"
    "num_from_id (le_block env) (lg_head_id lg) = of_nat (length bs)"
    using assms k(1) numbered_last [of env "butlast bs" "last bs"] by (auto simp: stores_def block_id_num split: if_splits)
  have n: "of_nat (Suc ?k) = n" unfolding k(2) [symmetric] by simp
  have "n \<le> of_nat (length bs)" using True ok(1) by (simp add: word_le_nat_alt unat_of_nat take_bit_nat_eq_self)
  then have pos: "get_block_pos env n lg = Inr (length (layout env 0 (take ?k bs)))"
    using True by (simp add: get_block_pos_def lg get_index [OF k(1) ok(2)])
  have bs: "take ?k bs @ bs ! ?k # drop (Suc ?k) bs = bs" using k(1) by (simp add: id_take_nth_drop [symmetric])
  from read_block_at [OF ok(3), of "take ?k bs" "drop (Suc ?k) bs"] ok(2)
  have "read_block env (layout env 0 bs) (length (layout env 0 (take ?k bs))) = Inr (bs ! ?k, length (layout env 0 (take ?k bs @ [bs ! ?k])))"
    unfolding bs by blast
  moreover have "length (layout env 0 (take ?k bs @ [bs ! ?k])) \<le> length (layout env 0 bs)"
    using layout_append [of env 0 "take ?k bs @ [bs ! ?k]" "drop (Suc ?k) bs"] bs by simp
  then have "length (layout env 0 (take ?k bs)) \<noteq> npos" using ok(2) by (simp add: layout_append npos_def)
  moreover have "0 < uint n" using True by (simp add: word_less_def)
  ultimately show ?thesis using k ok(4) n
    by (simp add: read_block_by_num_def pos lg(1) read_log_def word_less_nat_alt flip: unat_eq_nat_uint)
qed

lemma index_loop_builds:
  assumes "\<forall>b \<in> set (xs @ ys). packs env b" and "length (layout env 0 (xs @ ys)) < 2 ^ 64" and "xs @ ys \<noteq> []" and "length z = 8 * length ys"
  shows "index_loop env (layout env 0 (xs @ ys)) (length (layout env 0 (butlast (xs @ ys)))) (length (layout env 0 xs)) (8 * length xs)
    (index_layout env xs @ z) = Inr (index_layout env (xs @ ys))"
  using assms
proof (induction ys arbitrary: xs z)
  case Nil
  then have "length (layout env 0 (butlast xs)) < length (layout env 0 xs)"
    by (cases xs rule: rev_cases) (simp_all add: layout_append)
  with Nil show ?case by (simp add: index_loop.simps)
next
  case (Cons y ys)
  let ?bs = "xs @ y # ys" and ?pos = "length (layout env 0 xs)"
  have "butlast ?bs = xs @ butlast (y # ys)" by (simp add: butlast_append)
  then have le: "?pos \<le> length (layout env 0 (butlast ?bs))" by (simp add: layout_append)
  have r: "read_block env (layout env 0 ?bs) ?pos = Inr (y, length (layout env 0 (xs @ [y])))"
    using Cons.prems(1,2) by (intro read_block_at) auto
  have "overwrite (8 * length xs) (le_bytes 8 ?pos) (index_layout env xs @ z) = index_layout env (xs @ [y]) @ drop 8 z"
    by (simp add: overwrite_def index_layout_append)
  moreover have "index_loop env (layout env 0 ((xs @ [y]) @ ys)) (length (layout env 0 (butlast ((xs @ [y]) @ ys)))) (length (layout env 0 (xs @ [y])))
      (8 * length (xs @ [y])) (index_layout env (xs @ [y]) @ drop 8 z) = Inr (index_layout env ((xs @ [y]) @ ys))"
    using Cons.prems by (intro Cons.IH) auto
  ultimately show ?case using le r Cons.prems(4) by (subst index_loop.simps) (simp add: add.commute)
qed

text \<open>
  C35: The two files of the block log implement the list of its blocks: from files that hold a list, reading by number
  returns exactly the block of that number, or nothing, and never fails; appending succeeds for
  the block with the next number alone and leaves files that hold the longer list.
\<close>
theorem log_refines_list:
  assumes "stores env lg bs" and "block_env_ok (le_block env)" and "packs env b" and "length bs + 1 < 2 ^ 32"
    and "length (layout env 0 (bs @ [b])) < 2 ^ 64"
  shows "read_block_by_num env n lg = Inr (read_log (uint n) bs) \<and>
    (if block_num (le_block env) b = of_nat (length bs + 1)
     then \<exists>pos lg'. append env b lg = Inr (pos, lg') \<and> stores env lg' (bs @ [b])
     else append env b lg = Inl (FC_Assert ''Append to index file occuring at wrong position.''))"
proof (cases "block_num (le_block env) b = of_nat (length bs + 1)")
  case True
  have "numbered_blocks env (bs @ [b])"
    using assms(1,3-5) True by (auto simp: stores_def numbered_blocks_def nth_append less_Suc_eq)
  from append_stores [OF assms(1) this] True read_stored [OF assms(1,2)] show ?thesis by auto
next
  case False
  then show ?thesis using append_refuses [OF assms(1)] read_stored [OF assms(1,2)] by simp
qed

text \<open>
  C36: A node that opens the log of a chain gets the log back, also when the index is missing or does not
  end with the position of the last block: it is then rebuilt from the blocks.  So a crash between the two writes of an
  append loses nothing.
\<close>
theorem reopened_log_complete:
  assumes "stores env lg bs" and "bs \<noteq> []" and "index = lg_index lg \<or> get_last_uint64 index \<noteq> get_last_uint64 (lg_blocks lg)"
  shows "\<exists>lg'. open_log env (lg_blocks lg) index lg0 = Inr lg' \<and> stores env lg' bs"
proof -
  obtain xs b where bs: "bs = xs @ [b]" using assms(2) by (cases bs rule: rev_cases) auto
  have ok: "numbered_blocks env bs" "lg_blocks lg = layout env 0 bs" "lg_index lg = index_layout env bs"
    using assms(1,2) by (simp_all add: stores_def)
  have p: "\<forall>b \<in> set bs. packs env b" "length (layout env 0 bs) < 2 ^ 64" "block_num (le_block env) b = of_nat (length bs)" "length bs < 2 ^ 32"
    using ok(1) bs numbered_last [of env xs b] by (simp_all add: numbered_blocks_def)
  have long: "8 < length (layout env 0 bs)" by (rule layout_long [OF assms(2) p(1)])
  have last: "get_last_uint64 (layout env 0 bs) = Inr (length (layout env 0 xs))" using p(2) by (simp add: bs last_block_pos)
  have head: "read_head env (layout env 0 bs) = Inr b"
    using read_block_at [of env b xs "[]"] p(1,2) last by (simp add: read_head_def bs)
  let ?lg1 = "lg0\<lparr>lg_blocks := layout env 0 bs, lg_index := create_nonexist_file index, lg_head := Some b, lg_head_id := block_id (le_block env) b\<rparr>"
  have "resize (unat (block_num (le_block env) b) * 8) [0] = replicate (8 * length bs) 0"
    using p(3,4) assms(2) by (cases "8 * length bs") (simp_all add: resize_def unat_of_nat take_bit_nat_eq_self mult.commute)
  then have "construct_index env ?lg1 = Inr (?lg1\<lparr>lg_index := index_layout env bs\<rparr>)"
    using index_loop_builds [of "[]" bs env "replicate (8 * length bs) 0"] p(1,2) assms(2) last
    by (simp add: construct_index_def bs index_layout_def)
  moreover have "stores env (?lg1\<lparr>lg_index := index_layout env bs\<rparr>) bs" using ok(1) bs by (simp add: stores_def)
  moreover have "open_log env (lg_blocks lg) index lg0 = Inr (?lg1\<lparr>lg_index := index_layout env bs\<rparr>)"
  proof (cases "index = lg_index lg")
    case True
    have "get_last_uint64 (index_layout env bs) = Inr (length (layout env 0 xs))"
      using p(2) layout_append [of env 0 xs "[b]"]
      by (simp add: get_last_uint64_def get_mapped_size_def bs index_layout_append of_le_bytes)
    moreover have "layout env 0 bs \<noteq> []" "index_layout env bs \<noteq> []" "Suc 0 \<le> length bs"
      using long length_index_layout [of env bs] assms(2) by (auto simp del: length_index_layout simp: Suc_le_eq)
    ultimately show ?thesis using True long head last
      by (simp add: open_log_def ok(2,3) create_nonexist_file_def has_block_records_def has_index_records_def Let_def)
  next
    case False
    then have d: "get_last_uint64 index \<noteq> Inr (length (layout env 0 xs))" using assms(3) last ok(2) by auto
    have "get_last_uint64 (create_nonexist_file index) \<noteq> Inr (length (layout env 0 xs))"
      using d by (cases "index = []") (simp_all add: create_nonexist_file_def get_last_uint64_def [of "[0]"] get_mapped_size_def)
    then show ?thesis using \<open>construct_index env ?lg1 = _\<close> long head last
      by (auto simp: open_log_def ok(2) has_block_records_def has_index_records_def create_nonexist_file_def [of "layout env 0 bs"]
          get_last_uint64_def [of "create_nonexist_file index"] get_mapped_size_def [of "create_nonexist_file index"] Let_def split: if_splits)
  qed
  ultimately show ?thesis by blast
qed

section \<open>A log of two blocks\<close>

definition log_block1 :: signed_block where
  "log_block1 = sample_block zero_id 3"

definition log_block2 :: signed_block where
  "log_block2 = sample_block (block_id sample_block_env log_block1) 6"

fun sample_unpack :: "bytes \<Rightarrow> (signed_block \<times> nat) result" where
  "sample_unpack [] = Inl (FC_Assert ''unpack'')"
| "sample_unpack (x # _) = Inr (if x = 3 then log_block1 else log_block2, 1)"

definition sample_log_env :: log_env where
  "sample_log_env = \<lparr>le_block = sample_block_env, le_pack = (\<lambda>b. [word_of_int (bh_timestamp b)]), le_unpack = sample_unpack\<rparr>"

definition sample_log :: block_log where
  "sample_log = \<lparr>lg_blocks = 3 # replicate 8 0, lg_index = replicate 8 0, lg_head = Some log_block1, lg_head_id = block_id sample_block_env log_block1\<rparr>"

lemma sample_log_packs: "packs sample_log_env log_block1" "packs sample_log_env log_block2"
  by (simp_all add: packs_def sample_log_env_def log_block1_def log_block2_def sample_block_def)

lemma sample_log_nums: "block_num (le_block sample_log_env) log_block1 = 1" "block_num (le_block sample_log_env) log_block2 = 2"
  using sample_num by (simp_all add: sample_log_env_def log_block1_def log_block2_def)

lemma sample_log_stores: "stores sample_log_env sample_log [log_block1]"
proof -
  have "le_bytes k 0 = replicate k 0" for k by (induction k) simp_all
  moreover have "le_pack sample_log_env log_block1 = [3]"
    by (simp add: sample_log_env_def log_block1_def sample_block_def)
  ultimately show ?thesis using sample_log_packs(1) sample_log_nums(1)
    by (simp add: stores_def numbered_blocks_def sample_log_def index_layout_def) (simp add: sample_log_env_def)
qed

theorem log_refines_list_witness:
  "read_block_by_num sample_log_env 1 sample_log = Inr (read_log (uint (1 :: 32 word)) [log_block1]) \<and>
   (\<exists>pos lg'. append sample_log_env log_block2 sample_log = Inr (pos, lg') \<and> stores sample_log_env lg' [log_block1, log_block2])"
proof -
  have e: "block_env_ok (le_block sample_log_env)" using sample_block_env_ok by (simp add: sample_log_env_def)
  have "length (layout sample_log_env 0 ([log_block1] @ [log_block2])) < 2 ^ 64" by (simp add: sample_log_env_def)
  from log_refines_list [OF sample_log_stores e sample_log_packs(2) _ this, of 1] show ?thesis
    by (simp add: sample_log_nums)
qed

theorem reopened_log_complete_witness:
  "\<exists>lg'. open_log sample_log_env (lg_blocks sample_log) [0] sample_log = Inr lg' \<and> stores sample_log_env lg' [log_block1]"
  by (rule reopened_log_complete [OF sample_log_stores]) (simp_all add: get_last_uint64_def get_mapped_size_def sample_log_def)

end
