(* ===== verification/Spec2Isabelle.thy ===== *)
theory Spec2Isabelle
  imports Transaction_Authority Protocol_Version Escrow Vesting Delegation Witness_Votes Awards Invites Subscriptions Account_Sales Witness_Schedule Fork_Database Chain_Node Block_Log
begin

text \<open>
  A verification library for the VIZ chain (\<open>libraries/protocol\<close> and \<open>libraries/chain\<close> of the repository): the
  rules by which a node validates operations, transactions and blocks, and what they do to the state.

  \<^bold>\<open>The program.\<close>  Users sign transactions, lists of operations.  A node that receives one checks that it is
  well-formed, that the signatures satisfy the authorities its operations need and that it has not expired or been
  seen, charges the accounts for bandwidth and runs one evaluator per operation on the state.  Witnesses take turns to
  produce blocks of such transactions; applying a block also runs the processing of its own: emission,
  withdrawals, expirations, the schedule of the next round, the last irreversible block.  Blocks that do not extend the
  head are kept in the fork database, and the node switches to a longer fork by undoing blocks and applying
  others.

  \<^bold>\<open>Foundations.\<close>
  \<^item> \<open>Viz_Prelude\<close>: errors and results, the integer conversions of C++ (\<open>u32\<close>, \<open>i64\<close>, ...), tables of rows with a
    key and their contract, the locale \<open>unique_index\<close>, interpreted by the tables of the model.
  \<^item> \<open>Chain_Config\<close>: the constants of \<open>protocol/config.hpp\<close>.
  \<^item> \<open>Chain_Objects\<close>, \<open>Chain_Database\<close>: the objects of \<open>chain/*_object*.hpp\<close> as records, the state \<open>database\<close> with one list
    per table, and the operations of \<open>chain/database.cpp\<close> that evaluators share.
  \<^item> \<open>Chain_Ledger\<close>, \<open>Chain_Frames\<close>: the books of the chain (all tokens against the supply, all shares against their total), the
    locale \<open>bookkeeping\<close> that carries them over any run of steps, and what the shared operations leave alone.

  \<^bold>\<open>Protocol.\<close>
  \<^item> \<open>Protocol_Asset\<close> (\<open>asset.cpp\<close>): amounts, symbols, prices and their text form; the locale \<open>decimal_io\<close> states what the
    parser needs of number formatting.  Converting forth and back never gains; printing and reading are inverse.
  \<^item> \<open>Protocol_Version\<close> (\<open>version.cpp\<close>), \<open>Key_Conversion\<close> (\<open>key_conversion.cpp\<close>).
  \<^item> \<open>Protocol_Authority\<close> (\<open>authority.cpp\<close>, \<open>sign_state.cpp\<close>): account names with their grammar, and the recursive
    signature check, sound and, within the recursion limit, complete.
  \<^item> \<open>Protocol_Operations\<close> (\<open>chain_operations.cpp\<close>), \<open>Protocol_Transaction\<close>, \<open>Transaction_Authority\<close> (\<open>operations.cpp\<close>,
    \<open>transaction.cpp\<close>): every operation with its validation, the variant and its visitors, and \<open>verify_authority\<close>: what it
    accepts is authorised.
  \<^item> \<open>Protocol_Block\<close> (\<open>block.cpp\<close>, \<open>block_header.hpp\<close>): numbers, ids and the Merkle root, whose in-place loop equals the tree.

  \<^bold>\<open>Evaluators\<close> (\<open>chain_evaluator.cpp\<close> and its companions), each with the part of block processing that belongs to it:
  \<^item> \<open>Accounts\<close>, \<open>Escrow\<close>, \<open>Vesting\<close>, \<open>Delegation\<close>, \<open>Witness_Votes\<close>, \<open>Awards\<close>, \<open>Invites\<close>, \<open>Committee\<close>,
    \<open>Subscriptions\<close>, \<open>Account_Sales\<close>, \<open>Witness_Schedule\<close>.  Every theory shows that its operations keep the
    books and the invariant of the component: escrows and invites are paid out once and to whom they may, delegations agree with
    the counters of the accounts and stay covered, proxies do not form cycles, the reserve of an account is the sum of its bids, a
    round of witnesses is fair and the change of rounds succeeds.
  \<^item> \<open>Chain_Evaluation\<close>: the registry of evaluators as one function \<open>evaluate\<close>, and \<open>chain_step\<close>, any operation or step of
    a block; no run of them creates or loses tokens or shares outside the books.

  \<^bold>\<open>The chain.\<close>
  \<^item> \<open>Fork_Database\<close> (\<open>fork_database.cpp\<close>): items with weak pointers as addresses; it refines a tree of blocks.
  \<^item> \<open>Block_Updates\<close>: emission, missed slots, the last irreversible block and the log, post validation, bandwidth.
  \<^item> \<open>Block_Log\<close> (\<open>block_log.cpp\<close>): the mapped files of blocks and positions, byte by byte; they implement the list of blocks
    that block processing reads (\<open>read_log\<close>), and reopening them restores it, with the index rebuilt where it is stale.
  \<^item> \<open>Chain_Clock\<close>: time, number and id of the head block are changed by \<open>update_global_dynamic_data\<close> alone.
  \<^item> \<open>Proposals\<close> (\<open>proposal_evaluator.cpp\<close>, \<open>proposal_object.cpp\<close>, \<open>database_proposal_object.cpp\<close>): the state \<open>chain\<close>, which adds
    proposals, recent transactions, block summaries and post validations to \<open>database\<close>; the application of a
    transaction; proposals, which run only when approved.
  \<^item> \<open>Chain_Blocks\<close>: \<open>apply_block\<close> with all its checks and steps; no transaction is applied twice, and a block that is applied is
    the authentic next block.
  \<^item> \<open>Chain_Node\<close>: \<open>push_transaction\<close>, \<open>push_block\<close> with the switch of forks, \<open>pop_block\<close> and \<open>generate_block\<close>; produced blocks
    are valid, and the states of the node form a history of applied blocks whatever happens.

  \<^bold>\<open>Conventions.\<close>  A function that may throw returns \<open>error + 'a\<close>; an evaluator maps an operation and a state to a
  state or an error, and a failed step leaves no state, as an undone session leaves none.  Unsigned fields keep their width by explicit
  conversions where the code can wrap; \<open>share_type\<close>, which checks for overflow, is an integer.  What
  belongs to fc and chainbase (hashing, keys, serialised sizes, UTF-8, trimming, the wall clock) and the interpreters of
  plugins are parameters: \<open>fc_text\<close>, \<open>key_env\<close>, \<open>eval_env\<close>, \<open>block_env\<close>, \<open>chain_env\<close>, \<open>node_env\<close>, \<open>log_env\<close>.  An undo session is the
  state it returns to.  An index of a table is the list sorted by its key.  Hardforks are a number in the state, and
  every branch on a hardfork is kept.

  \<^bold>\<open>Loops and fuel.\<close>
  \<^item> \<open>apply_operation\<close> takes the number of nested applications: an operation on a proposal may run others.  While a transaction is
    pushed five suffice for any state (\<open>producing_node_returns\<close>); while a block is applied no number need suffice
    (\<open>nested_proposals_never_return\<close>).  \<open>apply_block\<close> uses the same number for the removal of expired proposals, one per
    proposal.
  \<^item> \<open>process_vesting_withdrawals\<close> gives its loop one round for each interval an account is overdue, and one more
    (\<open>vesting_withdrawals_end\<close>).
  \<^item> The walks of the fork database are bounded by the address of the first item, since predecessors have smaller ones
    (\<open>fetch_branch_from_is_fork\<close>); \<open>pop_until\<close> by its argument.
  \<^item> All other loops are structural recursion, or have a termination proof (proxies, the Merkle root, names).

  \<^bold>\<open>Not modelled.\<close>  Applying a hardfork and the genesis (each edits given accounts once); operations on contents, refused since
  hardfork 4, and their payout, which finds no contents in these states; virtual operations and notifications, which only
  inform plugins; locks and the resizing of shared memory.  Outside the
  consensus code: the peer-to-peer network, plugins and their APIs, the wallet, time synchronisation and the programs that start
  them, which are I/O around the functions modelled here.
\<close>

end
